(* ===== verification/Prelude.thy ===== *)
theory Prelude imports Main "HOL-Library.Word" begin

text \<open>
  Shared material of the development: the machine integer types of
  src/CXCommon/include/PlatformDataTypeDefine.h, the little-endian layout of the
  packed structures, the faults a C++ access can run into, and the lemmas on lists
  and words that the components share.  Nothing here is specific to one component.
\<close>

section \<open>Types and collections\<close>

type_synonym byte = "8 word"
type_synonym u16 = "16 word"
type_synonym u32 = "32 word"
type_synonym u64 = "64 word"
type_synonym addr = nat

named_theorems layout "field offsets and lengths of the packed structures"
named_theorems seqlist "facts on the sequence-ordered lists"

text \<open>
  What the C++ program does with undefined behaviour is not a value of the source, so an
  operation that would run into it returns \<open>Inl\<close> of one of these faults: reading through a
  null pointer, touching a freed object, freeing an object twice or one of another allocator, writing past the end of
  an allocated object, dividing by zero, reading what was never written; or an exception that nothing catches.
\<close>

datatype fault = NullDeref | UseAfterFree | DoubleFree | InvalidFree | HeapOverflow | DivByZero | OutOfBounds | Uncaught

type_synonym 'a res = "fault + 'a"

definition bind_res :: "'a res \<Rightarrow> ('a \<Rightarrow> 'b res) \<Rightarrow> 'b res" where
  "bind_res m f = (case m of Inl e \<Rightarrow> Inl e | Inr x \<Rightarrow> f x)"

lemma bind_res_simps [simp]:
  "bind_res (Inl e) f = Inl e"
  "bind_res (Inr x) f = f x"
  by (simp_all add: bind_res_def)

lemma bind_res_Inr_iff: "bind_res m f = Inr y \<longleftrightarrow> (\<exists>x. m = Inr x \<and> f x = Inr y)"
  by (cases m) auto

text \<open>Calls that may also not return: \<open>None\<close>.\<close>

definition bind_run :: "'a res option \<Rightarrow> ('a \<Rightarrow> 'b res option) \<Rightarrow> 'b res option" where
  "bind_run m f = (case m of None \<Rightarrow> None | Some (Inl e) \<Rightarrow> Some (Inl e) | Some (Inr x) \<Rightarrow> f x)"

lemma bind_run_simps [simp]:
  "bind_run None f = None"
  "bind_run (Some (Inl e)) f = Some (Inl e)"
  "bind_run (Some (Inr x)) f = f x"
  by (simp_all add: bind_run_def)

lemma bind_run_Inr_iff: "bind_run m f = Some (Inr y) \<longleftrightarrow> (\<exists>x. m = Some (Inr x) \<and> f x = Some (Inr y))"
  by (auto simp: bind_run_def split: option.splits sum.splits)

definition INVALID_PARAMETER :: int where "INVALID_PARAMETER = - 1"

section \<open>Lists\<close>

text \<open>Overwriting part of a byte array, as \<open>memcpy (dst + off, src, n)\<close> does.\<close>

definition memcpy :: "'a list \<Rightarrow> nat \<Rightarrow> 'a list \<Rightarrow> 'a list" where
  "memcpy dst off src = take off dst @ src @ drop (off + length src) dst"

text \<open>Writing and reading with the bounds of the memory.\<close>

definition put_at :: "'a list \<Rightarrow> nat \<Rightarrow> 'a list \<Rightarrow> 'a list res" where
  "put_at buf k bs = (if length buf < k + length bs then Inl HeapOverflow else Inr (memcpy buf k bs))"

definition get_at :: "'a list \<Rightarrow> nat \<Rightarrow> nat \<Rightarrow> 'a list res" where
  "get_at buf k n = (if length buf < k + n then Inl OutOfBounds else Inr (take n (drop k buf)))"

lemma put_at_Inr_iff: "put_at buf k bs = Inr buf' \<longleftrightarrow> k + length bs \<le> length buf \<and> buf' = memcpy buf k bs"
  by (auto simp: put_at_def)

lemma get_at_Inr_iff: "get_at buf k n = Inr bs \<longleftrightarrow> k + n \<le> length buf \<and> bs = take n (drop k buf)"
  by (auto simp: get_at_def)

lemma length_memcpy [simp]:
  "off + length src \<le> length dst \<Longrightarrow> length (memcpy dst off src) = length dst"
  by (simp add: memcpy_def)

lemma take_memcpy:
  "off + length src \<le> length dst \<Longrightarrow>
   take (off + length src) (memcpy dst off src) = take off dst @ src"
  by (simp add: memcpy_def)

lemma drop_memcpy:
  "off + length src \<le> length dst \<Longrightarrow> off + length src \<le> k \<Longrightarrow>
   drop k (memcpy dst off src) = drop k dst"
  by (simp add: memcpy_def)

lemma take_append_take_drop: "take m xs @ take n (drop m xs) = take (m + n) xs"
  by (simp add: take_add)

lemma last_in_set_iff: "xs \<noteq> [] \<Longrightarrow> last xs \<in> set xs"
  by simp

section \<open>Numbers in decimal, as printf writes them\<close>

definition digit :: "nat \<Rightarrow> char" where
  "digit n = char_of (48 + n mod 10)"

fun show_nat :: "nat \<Rightarrow> string" where
  "show_nat n = (if n < 10 then [digit n] else show_nat (n div 10) @ [digit n])"

section \<open>Words\<close>

lemma unat_lt_256: "unat (b :: byte) < 256"
  using unsigned_less [of b, where ?'a = nat] by simp

lemma word_of_nat_unat_byte: "word_of_nat (unat (b :: byte)) = b"
  by simp

section \<open>Little-endian byte order\<close>

text \<open>
  The structures are read and written by casting byte pointers to packed structures, on the
  little-endian platforms the code supports: \<open>le_enc n x\<close> is the \<open>n\<close>-byte image of \<open>x\<close>.
\<close>

primrec le_enc :: "nat \<Rightarrow> nat \<Rightarrow> byte list" where
  "le_enc 0 x = []"
| "le_enc (Suc n) x = word_of_nat (x mod 256) # le_enc n (x div 256)"

primrec le_dec :: "byte list \<Rightarrow> nat" where
  "le_dec [] = 0"
| "le_dec (b # bs) = unat b + 256 * le_dec bs"

lemma le_enc_numeral:
  "le_enc (numeral k) x = word_of_nat (x mod 256) # le_enc (pred_numeral k) (x div 256)"
  by (simp only: numeral_eq_Suc [of k] le_enc.simps)

lemma length_le_enc [simp]: "length (le_enc n x) = n"
  by (induction n arbitrary: x) auto

lemma unat_word_of_nat_byte: "unat (word_of_nat (x mod 256) :: byte) = x mod 256"
  by (simp add: unat_of_nat)

lemma le_dec_enc: "le_dec (le_enc n x) = x mod 256 ^ n"
proof (induction n arbitrary: x)
  case 0
  then show ?case by simp
next
  case (Suc n)
  then show ?case
    by (simp add: unat_word_of_nat_byte mod_mult2_eq)
qed

lemma le_dec_bound: "le_dec bs < 256 ^ length bs"
proof (induction bs)
  case Nil
  then show ?case by simp
next
  case (Cons b bs)
  have "unat b < 256" by (rule unat_lt_256)
  with Cons show ?case by simp
qed

lemma le_enc_dec: "length bs = n \<Longrightarrow> le_enc n (le_dec bs) = bs"
proof (induction bs arbitrary: n)
  case Nil
  then show ?case by simp
next
  case (Cons b bs)
  have "unat b < 256" by (rule unat_lt_256)
  with Cons show ?case by auto
qed

end
