(* ===== verification/Packet.thy ===== *)
theory Packet imports Main Prelude begin

text \<open>
  The wire format of src/CXCommon/include/CXCommonPacketStructure.h: the 16-byte packet
  header and the packet body, as packed little-endian structures, and the check sum that
  \<open>CXConnectionObject::VerifyPacketBodyData\<close> compares and
  \<open>CXConnectionObject::SendAssembledPacket\<close> computes.
\<close>

section \<open>The packet header\<close>

definition CX_PACKET_HEADER_FLAG :: u16 where
  "CX_PACKET_HEADER_FLAG = 0x25F7"

definition CX_MAX_CHACHE_SIZE :: nat where
  "CX_MAX_CHACHE_SIZE = 1048576"

definition CX_BUF_SIZE :: nat where
  "CX_BUF_SIZE = 4096"

definition CX_GUID_LEN :: nat where
  "CX_GUID_LEN = 16"

record packet_header =
  wFlag :: u16
  byCompressFlag :: byte
  byEncryptFlag :: byte
  dwDataLen :: u32
  dwCheckSum :: u32
  dwOrignDataLen :: u32

definition sizeof_header :: nat where
  "sizeof_header = 16"

definition header_bytes :: "packet_header \<Rightarrow> byte list" where
  "header_bytes h = le_enc 2 (unat (wFlag h)) @ [byCompressFlag h, byEncryptFlag h]
     @ le_enc 4 (unat (dwDataLen h)) @ le_enc 4 (unat (dwCheckSum h))
     @ le_enc 4 (unat (dwOrignDataLen h))"

definition header_of :: "byte list \<Rightarrow> packet_header" where
  "header_of bs = \<lparr>wFlag = word_of_nat (le_dec (take 2 bs)),
     byCompressFlag = bs ! 2, byEncryptFlag = bs ! 3,
     dwDataLen = word_of_nat (le_dec (take 4 (drop 4 bs))),
     dwCheckSum = word_of_nat (le_dec (take 4 (drop 8 bs))),
     dwOrignDataLen = word_of_nat (le_dec (take 4 (drop 12 bs)))\<rparr>"

lemma length_header_bytes [simp, layout]: "length (header_bytes h) = sizeof_header"
  by (simp add: header_bytes_def sizeof_header_def)

lemma word16_le_roundtrip: "word_of_nat (le_dec (le_enc 2 (unat (w :: u16)))) = w"
  using unsigned_less [of w, where ?'a = nat] by (simp add: le_dec_enc)

lemma word32_le_roundtrip: "word_of_nat (le_dec (le_enc 4 (unat (w :: u32)))) = w"
  using unsigned_less [of w, where ?'a = nat] by (simp add: le_dec_enc)

lemma header_of_bytes [simp]: "header_of (header_bytes h @ rest) = h"
  by (simp add: header_of_def header_bytes_def numeral_2_eq_2 [symmetric] word16_le_roundtrip
      word32_le_roundtrip nth_append drop_Cons')

lemma header_bytes_of: "length bs = sizeof_header \<Longrightarrow> header_bytes (header_of bs) = bs"
proof -
  assume len: "length bs = sizeof_header"
  have f2: "le_enc 2 (unat (word_of_nat (le_dec (take 2 bs)) :: u16)) = take 2 bs"
    using len le_dec_bound [of "take 2 bs"] by (simp add: unat_of_nat sizeof_header_def le_enc_dec)
  have f4: "le_enc 4 (unat (word_of_nat (le_dec (take 4 (drop k bs))) :: u32)) = take 4 (drop k bs)"
    if "k + 4 \<le> 16" for k
    using that len le_dec_bound [of "take 4 (drop k bs)"]
    by (simp add: unat_of_nat sizeof_header_def le_enc_dec)
  have b: "[bs ! 2, bs ! 3] = take 2 (drop 2 bs)"
    using len by (intro nth_equalityI) (auto simp: sizeof_header_def less_Suc_eq numeral_eq_Suc)
  have e: "header_bytes (header_of bs) = take 2 bs @ take 2 (drop 2 bs)
      @ take 4 (drop 4 bs) @ take 4 (drop 8 bs) @ take 4 (drop 12 bs)"
    unfolding header_bytes_def header_of_def packet_header.simps
    by (simp only: f2 f4 [of 4, simplified] f4 [of 8, simplified] f4 [of 12, simplified] b)
  then show ?thesis
    using len by (simp add: take_append_take_drop sizeof_header_def flip: append_assoc)
qed

section \<open>The packet body\<close>

text \<open>
  The body that follows the header on the wire: two 16-byte identifiers, the message code,
  the packet number, the payload.  \<open>CXMessageData\<close> embeds it after 52 bytes of its own
  fields (packed, 64-bit pointers), with a one-byte placeholder for the payload, so that
  \<open>sizeof (CXMessageData)\<close> is 93; \<open>CXBufferObj\<close> is not packed: its data area begins
  at offset 52, and the whole is padded to a multiple of 8.
\<close>

record packet_body =
  byObjectGuid :: "byte list"
  byRequestID :: "byte list"
  dwMesCode :: u32
  dwPacketNum :: u32
  bodyBuf :: "byte list"

definition sizeof_body :: nat where
  "sizeof_body = 41"

definition sizeof_message_data :: nat where
  "sizeof_message_data = 93"

definition offset_message_body :: nat where
  "offset_message_body = 52"

definition sizeof_packet_data :: nat where
  "sizeof_packet_data = 57"

definition sizeof_buffer_obj :: nat where
  "sizeof_buffer_obj = 4152"

definition offset_buffer_data :: nat where
  "offset_buffer_data = 52"

lemmas sizes = offset_buffer_data_def sizeof_header_def sizeof_body_def sizeof_message_data_def
  offset_message_body_def sizeof_packet_data_def sizeof_buffer_obj_def CX_BUF_SIZE_def
  CX_GUID_LEN_def

definition body_bytes :: "packet_body \<Rightarrow> byte list" where
  "body_bytes b = byObjectGuid b @ byRequestID b @ le_enc 4 (unat (dwMesCode b))
     @ le_enc 4 (unat (dwPacketNum b)) @ bodyBuf b"

definition body_of :: "byte list \<Rightarrow> packet_body" where
  "body_of bs = \<lparr>byObjectGuid = take 16 bs, byRequestID = take 16 (drop 16 bs),
     dwMesCode = word_of_nat (le_dec (take 4 (drop 32 bs))),
     dwPacketNum = word_of_nat (le_dec (take 4 (drop 36 bs))), bodyBuf = drop 40 bs\<rparr>"

lemma body_of_bytes:
  assumes "length (byObjectGuid b) = CX_GUID_LEN" and "length (byRequestID b) = CX_GUID_LEN"
  shows "body_of (body_bytes b) = b"
  using assms by (simp add: body_of_def body_bytes_def CX_GUID_LEN_def word32_le_roundtrip)

section \<open>The check sum\<close>

text \<open>The loop of both functions: a 32-bit sum of the bytes, wrapping around.\<close>

definition check_sum :: "byte list \<Rightarrow> u32" where
  "check_sum bs = foldl (\<lambda>s b. s + ucast b) 0 bs"

text \<open>
  \<open>VerifyPacketBodyData\<close>: the sum over the first \<open>dwDataLen\<close> bytes of the body area must be the
  header's \<open>dwCheckSum\<close>.
\<close>

definition verify_packet_body :: "packet_header \<Rightarrow> byte list \<Rightarrow> bool" where
  "verify_packet_body h body \<longleftrightarrow> check_sum (take (unat (dwDataLen h)) body) = dwCheckSum h"

lemma foldl_check_sum: "foldl (\<lambda>s b. s + ucast b) a bs = a + foldl (\<lambda>s b. s + ucast b) 0 (bs :: byte list)"
  for a :: u32
proof (induction bs arbitrary: a)
  case Nil
  then show ?case by simp
next
  case (Cons b bs)
  show ?case
    using Cons.IH [of "a + ucast b"] Cons.IH [of "ucast b"] by simp
qed

lemma check_sum_Nil [simp]: "check_sum [] = 0"
  by (simp add: check_sum_def)

lemma check_sum_Cons [simp]: "check_sum (b # bs) = ucast b + check_sum bs"
  using foldl_check_sum [of "ucast b" bs] by (simp add: check_sum_def)

lemma check_sum_append: "check_sum (xs @ ys) = check_sum xs + check_sum ys"
  by (induction xs) simp_all

text \<open>One damaged byte always changes the sum: the difference of two bytes is not 0 modulo \<open>2^32\<close>.\<close>

lemma ucast_byte_inj: "ucast (x :: byte) = (ucast y :: u32) \<longleftrightarrow> x = y"
proof
  assume "ucast x = (ucast y :: u32)"
  then have "unat (ucast x :: u32) = unat (ucast y :: u32)" by simp
  then show "x = y"
    using unat_lt_256 [of x] unat_lt_256 [of y]
    by (simp add: unsigned_ucast_eq take_bit_eq_mod word_unat_eq_iff)
qed simp

lemma check_sum_update:
  "i < length bs \<Longrightarrow> check_sum (bs[i := b]) = check_sum bs - ucast (bs ! i) + ucast b"
proof (induction bs arbitrary: i)
  case Nil
  then show ?case by simp
next
  case (Cons c cs)
  then show ?case by (cases i) simp_all
qed

end
