(* ===== verification/Seq_List.thy ===== *)
theory Seq_List imports Main Prelude begin

text \<open>
  The ordered insertion that \<open>CXConnectionObject\<close> repeats three times, for received buffers,
  for received messages and for buffers to send: a singly linked list with a head pointer and
  an end pointer, kept in the order of sequence numbers.  The chain of \<open>pNext\<close> pointers from the
  head is a list of the objects, each with its address; the end pointer is the address it holds.
  The locale at the end is the contract between such a list and its user: whatever the order of
  arrival, objects leave in the order of their sequence numbers.
\<close>

section \<open>The insertion\<close>

text \<open>The loop of the last branch: it starts behind the head and never appends at the end.\<close>

fun insert_middle :: "('n \<Rightarrow> 'k :: linorder) \<Rightarrow> 'n \<Rightarrow> 'n list \<Rightarrow> 'n list" where
  "insert_middle key x [] = []"
| "insert_middle key x (y # ys) =
     (if key x < key y then x # y # ys else y # insert_middle key x ys)"

text \<open>
  The four branches, in the order of the source.  The result says whether the source returns
  true, the new chain and the new end pointer.  Reading the end object when the end pointer does
  not point at the last object of the chain is an access to an object that was freed.
\<close>

definition push_seq ::
  "('n \<Rightarrow> 'k :: linorder) \<Rightarrow> ('n \<Rightarrow> addr) \<Rightarrow> 'n \<Rightarrow> 'n list \<Rightarrow> addr option
     \<Rightarrow> (bool \<times> 'n list \<times> addr option) res" where
  "push_seq key adr x xs e =
     (case e of
        None \<Rightarrow>
          if xs = [] then Inr (True, [x], Some (adr x))
          else if key x < key (hd xs) then Inr (False, x # xs, None)
          else Inr (True, hd xs # insert_middle key x (tl xs), None)
      | Some a \<Rightarrow>
          if xs = [] \<or> adr (last xs) \<noteq> a then Inl UseAfterFree
          else if key (last xs) < key x then Inr (True, xs @ [x], Some (adr x))
          else if key x < key (hd xs) then Inr (True, x # xs, Some a)
          else Inr (True, hd xs # insert_middle key x (tl xs), Some a))"

text \<open>What the list is meant to be, and what the end pointer is meant to hold.\<close>

definition end_of :: "('n \<Rightarrow> addr) \<Rightarrow> 'n list \<Rightarrow> addr option" where
  "end_of adr xs = (if xs = [] then None else Some (adr (last xs)))"

definition ordered :: "('n \<Rightarrow> 'k :: linorder) \<Rightarrow> 'n list \<Rightarrow> bool" where
  "ordered key xs \<longleftrightarrow> sorted_wrt (\<lambda>x y. key x < key y) xs"

primrec insert_by :: "('n \<Rightarrow> 'k :: linorder) \<Rightarrow> 'n \<Rightarrow> 'n list \<Rightarrow> 'n list" where
  "insert_by key x [] = [x]"
| "insert_by key x (y # ys) = (if key x < key y then x # y # ys else y # insert_by key x ys)"

lemma ordered_simps [simp]:
  "ordered key []"
  "ordered key (x # xs) \<longleftrightarrow> (\<forall>y\<in>set xs. key x < key y) \<and> ordered key xs"
  by (simp_all add: ordered_def)

lemma ordered_append:
  "ordered key (xs @ ys) \<longleftrightarrow>
     ordered key xs \<and> ordered key ys \<and> (\<forall>x\<in>set xs. \<forall>y\<in>set ys. key x < key y)"
  by (auto simp: ordered_def sorted_wrt_append)

lemma set_insert_by [simp]: "set (insert_by key x xs) = insert x (set xs)"
  by (induction xs) auto

lemma length_insert_by [simp]: "length (insert_by key x xs) = Suc (length xs)"
  by (induction xs) auto

lemma insert_by_not_Nil [simp]: "insert_by key x xs \<noteq> []"
  by (cases xs) auto

lemma ordered_insert_by:
  "ordered key xs \<Longrightarrow> key x \<notin> key ` set xs \<Longrightarrow> ordered key (insert_by key x xs)"
proof (induction xs)
  case Nil
  then show ?case by simp
next
  case (Cons y ys)
  then show ?case by (auto dest: less_trans)
qed

lemma insert_by_snoc: "\<forall>y\<in>set xs. key y < key x \<Longrightarrow> insert_by key x xs = xs @ [x]"
  by (induction xs) (auto dest: less_asym)

lemma insert_middle_insert_by:
  "\<exists>y\<in>set ys. key x < key y \<Longrightarrow> insert_middle key x ys = insert_by key x ys"
  by (induction ys) auto

lemma last_insert_by:
  "ordered key xs \<Longrightarrow> xs \<noteq> [] \<Longrightarrow> key x < key (last xs) \<Longrightarrow> last (insert_by key x xs) = last xs"
  by (induction xs) (auto split: if_splits)

lemma ordered_last: "ordered key xs \<Longrightarrow> y \<in> set xs \<Longrightarrow> key y \<le> key (last xs)"
  by (induction xs) (auto simp: less_imp_le)

lemma ordered_hd: "ordered key xs \<Longrightarrow> y \<in> set xs \<Longrightarrow> key (hd xs) \<le> key y"
  by (cases xs) (auto simp: less_imp_le)

lemma end_of_simps [simp]:
  "end_of adr [] = None"
  "end_of adr (xs @ [x]) = Some (adr x)"
  by (simp_all add: end_of_def)

text \<open>
  The insertion as it is meant: a list in order, with a right end pointer, and a new sequence
  number give the ordered insertion, with a right end pointer, and no error.
\<close>

lemma push_seq_insert [seqlist]:
  assumes "ordered key xs" and new: "key x \<notin> key ` set xs"
  shows "push_seq key adr x xs (end_of adr xs)
           = Inr (True, insert_by key x xs, end_of adr (insert_by key x xs))"
proof (cases "xs = []")
  case True
  then show ?thesis by (simp add: push_seq_def end_of_def)
next
  case False
  then have "key x \<noteq> key (last xs)" "key x \<noteq> key (hd xs)"
    using new by (metis imageI last_in_set, metis imageI hd_in_set)
  then consider (app) "key (last xs) < key x" | (front) "key x < key (last xs)" "key x < key (hd xs)"
    | (mid) "key x < key (last xs)" "key (hd xs) < key x"
    by fastforce
  then show ?thesis
  proof cases
    case app
    then have "\<forall>y\<in>set xs. key y < key x"
      using ordered_last [OF assms(1)] by fastforce
    with app False show ?thesis
      by (simp add: push_seq_def end_of_def insert_by_snoc)
  next
    case front
    with False show ?thesis
      by (cases xs) (auto simp: push_seq_def end_of_def)
  next
    case mid
    obtain y ys where xs: "xs = y # ys" using False by (cases xs) auto
    have ne: "ys \<noteq> []"
    proof
      assume "ys = []"
      with mid xs have "key x < key y" "key y < key x" by simp_all
      then show False by (rule less_asym)
    qed
    then have "insert_middle key x ys = insert_by key x ys"
      using mid xs by (intro insert_middle_insert_by) (metis last_ConsR last_in_set)
    moreover have "last (insert_by key x ys) = last ys"
      using assms(1) mid xs ne by (intro last_insert_by) auto
    moreover have "\<not> key (last xs) < key x" "\<not> key x < key y"
      using mid xs by (simp_all add: not_less less_imp_le)
    ultimately show ?thesis
      using ne by (simp add: push_seq_def end_of_def xs)
  qed
qed

text \<open>A sequence number that is already there is dropped at the end, and duplicated elsewhere.\<close>

lemma push_seq_duplicate_of_last:
  assumes "ordered key xs" and "xs \<noteq> []" and "key x = key (last xs)"
  shows "push_seq key adr x xs (end_of adr xs) = Inr (True, xs, end_of adr xs)"
proof -
  have "insert_middle key x ys = ys" if "\<forall>y\<in>set ys. key y \<le> key x" for ys
    using that by (induction ys) auto
  moreover have "\<forall>y\<in>set (tl xs). key y \<le> key x"
    using ordered_last [OF assms(1)] assms(2,3) by (metis list.set_sel(2))
  moreover have "\<not> key x < key (hd xs)"
    using ordered_hd [OF assms(1), of "last xs"] assms(2,3) by auto
  ultimately show ?thesis
    using assms(2,3) by (simp add: push_seq_def end_of_def)
qed

lemma push_seq_dangling_end:
  "xs = [] \<Longrightarrow> e = Some a \<Longrightarrow> push_seq key adr x xs e = Inl UseAfterFree"
  by (simp add: push_seq_def)

text \<open>There is one ordered list of any set of objects.\<close>

lemma ordered_unique:
  "ordered key xs \<Longrightarrow> ordered key ys \<Longrightarrow> set xs = set ys \<Longrightarrow> xs = ys"
proof (induction xs arbitrary: ys)
  case Nil
  then show ?case by simp
next
  case (Cons x xs)
  then obtain y ys' where ys: "ys = y # ys'" by (cases ys) auto
  have "x = y"
  proof (rule ccontr)
    assume "x \<noteq> y"
    then have "x \<in> set ys'" "y \<in> set xs" using Cons.prems(3) ys by auto
    then have "key y < key x" "key x < key y" using Cons.prems(1,2) ys by auto
    then show False by (rule less_asym)
  qed
  moreover have "x \<notin> set xs" "y \<notin> set ys'" using Cons.prems ys by auto
  ultimately have "set xs = set ys'" using Cons.prems(3) ys by auto
  then show ?case using Cons ys \<open>x = y\<close> by auto
qed

section \<open>The contract with the users of such a list\<close>

text \<open>
  A user pushes objects with new numbers and finds them in the order of the numbers, in whatever order
  it pushed them.
\<close>

locale sequence_list =
  fixes key :: "'n \<Rightarrow> 'k :: linorder"
    and push :: "'n \<Rightarrow> 'l \<Rightarrow> 'l res"
    and inv :: "'l \<Rightarrow> bool"
    and content :: "'l \<Rightarrow> 'n list"
  assumes push_new: "inv l \<Longrightarrow> key x \<notin> key ` set (content l) \<Longrightarrow>
      \<exists>l'. push x l = Inr l' \<and> inv l' \<and> set (content l') = insert x (set (content l))"
    and in_order: "inv l \<Longrightarrow> ordered key (content l)"
begin

fun push_all :: "'n list \<Rightarrow> 'l \<Rightarrow> 'l res" where
  "push_all [] l = Inr l"
| "push_all (x # xs) l = bind_res (push x l) (push_all xs)"

lemma push_all_set:
  "inv l \<Longrightarrow> distinct (map key xs) \<Longrightarrow> key ` set xs \<inter> key ` set (content l) = {} \<Longrightarrow>
   \<exists>l'. push_all xs l = Inr l' \<and> inv l' \<and> set (content l') = set xs \<union> set (content l)"
proof (induction xs arbitrary: l)
  case Nil
  then show ?case by simp
next
  case (Cons x xs)
  then obtain l1 where l1: "push x l = Inr l1" "inv l1" "set (content l1) = insert x (set (content l))"
    using push_new [of l x] by auto
  moreover have "key ` set xs \<inter> key ` set (content l1) = {}" using Cons.prems(2,3) l1(3) by auto
  ultimately show ?case using Cons.IH [of l1] Cons.prems(2) by auto
qed

lemma any_order:
  assumes "inv l" and "distinct (map key xs)" and "key ` set xs \<inter> key ` set (content l) = {}"
    and "set ys = set xs" and "distinct (map key ys)"
  shows "\<exists>l1 l2. push_all xs l = Inr l1 \<and> push_all ys l = Inr l2 \<and> content l1 = content l2"
proof -
  obtain l1 where l1: "push_all xs l = Inr l1" "inv l1" "set (content l1) = set xs \<union> set (content l)"
    using push_all_set [OF assms(1-3)] by blast
  obtain l2 where l2: "push_all ys l = Inr l2" "inv l2" "set (content l2) = set ys \<union> set (content l)"
    using push_all_set [OF assms(1,5)] assms(3,4) by auto
  have "content l1 = content l2"
    by (rule ordered_unique [OF in_order in_order]) (use l1 l2 assms(4) in simp_all)
  then show ?thesis using l1(1) l2(1) by blast
qed

end

text \<open>A list with its end pointer; the result of the insertion that says whether it succeeded is dropped.\<close>

definition push_pair :: "('n \<Rightarrow> 'k :: linorder) \<Rightarrow> ('n \<Rightarrow> addr) \<Rightarrow> 'n \<Rightarrow> 'n list \<times> addr option \<Rightarrow> ('n list \<times> addr option) res" where
  "push_pair key adr x l = bind_res (push_seq key adr x (fst l) (snd l)) (\<lambda>(_, xs, e). Inr (xs, e))"

interpretation seq: sequence_list key "push_pair key adr"
  "\<lambda>(xs, e). ordered key xs \<and> e = end_of adr xs" fst for key :: "'n \<Rightarrow> 'k :: linorder" and adr
  by unfold_locales (auto simp: push_pair_def push_seq_insert ordered_insert_by)

end
