(* ===== verification/Connection.thy ===== *)
theory Connection imports Main Packet Seq_List begin

text \<open>
  The state of one connection of the server, \<open>CXConnectionObject\<close>
  (src/CXCommunicationServer/include/CXConnectionObject.h and src/CXConnectionObject.cpp), the
  buffer and message objects it handles, and the operations on its life cycle and its counters.
  Each operation of the model is the body that runs under the connection's locks; the locks
  themselves are left out.
\<close>

section \<open>Buffers and messages\<close>

text \<open>
  \<open>CXBufferObj\<close>: \<open>bufLen\<close> is \<open>wsaBuf.len\<close>, the number of bytes left to process, \<open>bufCur\<close> the offset
  \<open>nCurDataPointer\<close> of the first of them in the data area \<open>bufData\<close>.  The \<open>pNext\<close> links are the order
  of the lists the buffers are in; \<open>bufAddr\<close> is the buffer's own address.
\<close>

record buffer_obj =
  bufAddr :: addr
  bufSeq :: u64
  bufData :: "byte list"
  bufCur :: nat
  bufLen :: nat

definition buffer_wf :: "buffer_obj \<Rightarrow> bool" where
  "buffer_wf b \<longleftrightarrow> bufCur b + bufLen b \<le> length (bufData b)"

definition buffer_left :: "buffer_obj \<Rightarrow> byte list" where
  "buffer_left b = take (bufLen b) (drop (bufCur b) (bufData b))"

text \<open>
  \<open>CXMessageData\<close>: \<open>mesBody\<close> is the body area the object was requested with, 40 bytes more than
  \<open>dwDataLen\<close>, and \<open>mesAddr\<close> the address of the object.
\<close>

record message =
  mesAddr :: addr
  mesType :: u32
  mesDataLen :: u32
  mesBeginTime :: int
  mesBeginProcessTime :: int
  mesSeq :: u64
  mesProcessedRet :: int
  mesBody :: "byte list"

text \<open>\<open>iSequenceNum\<close> is a signed 64-bit number; the ordered list compares it as such.\<close>

definition mes_key :: "message \<Rightarrow> int" where
  "mes_key m = sint (mesSeq m)"

section \<open>The connection\<close>

datatype connection_state = INITIALIZED | CREATING | PENDING | ESTABLISHED | CLOSING | CLOSED

fun state_code :: "connection_state \<Rightarrow> nat" where
  "state_code INITIALIZED = 0"
| "state_code CREATING = 1"
| "state_code PENDING = 2"
| "state_code ESTABLISHED = 3"
| "state_code CLOSING = 4"
| "state_code CLOSED = 5"

text \<open>
  The fields of the class, in its order, without the locks and the log handles.  Pointers to the
  server, the parser, the statistics and the pool are only ever tested and called, so the model
  keeps whether they are set.  The last five fields are not members of the class: the messages
  given to the packet callback so far, the parse tasks and the prepare tasks pushed so far, the addresses of the live
  message objects, and the next address the allocator returns.
\<close>

record connection =
  conSock :: int
  conType :: int
  conAcceptTime :: int
  conIndex :: u64
  conRecvBufferIndex :: u64
  conSendBufferIndex :: u64
  conLastProcessBufferIndex :: u64
  conState :: connection_state
  conLastPacketTime :: int
  conRemoteIP :: string
  conRemotePort :: u16
  conServer :: bool
  conReadBuf :: "buffer_obj list"
  conReadBufEnd :: "addr option"
  conSendBuf :: "buffer_obj list"
  conSendBufEnd :: "addr option"
  conHasPacketFun :: bool
  conDispatchIndex :: int
  conBuffersInList :: u64
  conPacketsInQueue :: u64
  conPostedSent :: u64
  conPostedRecv :: u64
  conLastUnpackedSeq :: u64
  conLastProcessedSeq :: u64
  conSession :: "addr option"
  conParser :: bool
  conTimeOut :: u32
  conReleasedTime :: int
  conIOStat :: bool
  conMessages :: "message list"
  conMessageEnd :: "addr option"
  conCurSendSeq :: u64
  conLastSentSeq :: u64
  conEncrypt :: byte
  conCompress :: byte
  conProxy :: bool
  conTaskPool :: bool
  conAsyncParse :: bool
  conAsyncPrepare :: bool
  conAsyncMes :: bool
  conContinuous :: bool
  conRPCObj :: "string \<rightharpoonup> addr"
  conObjectID :: "byte list"
  conRequestID :: "byte list"
  conDelivered :: "message list"
  conTasks :: "(message \<times> packet_header) list"
  conPrepTasks :: "(message option \<times> buffer_obj) list"
  conLive :: "addr list"
  conNextAddr :: addr

section \<open>Life cycle\<close>

text \<open>
  \<open>Reset\<close> sets every field but the handles that the constructor sets (statistics, task pool) and the
  map of RPC objects; \<open>Build\<close> resets and fills in the socket, the index and the peer.
\<close>

definition reset_connection :: "connection \<Rightarrow> connection" where
  "reset_connection c = c\<lparr>conSock := 0, conType := 1, conAcceptTime := 0, conIndex := 0,
     conRecvBufferIndex := 0, conSendBufferIndex := 0, conLastProcessBufferIndex := 0,
     conState := INITIALIZED, conLastPacketTime := 0, conRemoteIP := [], conRemotePort := 0,
     conServer := False, conReadBuf := [], conReadBufEnd := None, conSendBuf := [],
     conSendBufEnd := None, conHasPacketFun := False, conDispatchIndex := 0,
     conBuffersInList := 0, conPacketsInQueue := 0, conPostedSent := 0, conPostedRecv := 0,
     conLastUnpackedSeq := 0, conLastProcessedSeq := 0, conSession := None, conParser := False,
     conTimeOut := 60000, conReleasedTime := 0, conMessages := [], conMessageEnd := None,
     conCurSendSeq := 1, conLastSentSeq := 0, conEncrypt := 0, conCompress := 0,
     conProxy := False, conAsyncParse := False, conAsyncPrepare := False, conAsyncMes := False,
     conContinuous := False, conObjectID := replicate 16 0, conRequestID := replicate 16 0\<rparr>"

definition build_connection :: "int \<Rightarrow> int \<Rightarrow> u64 \<Rightarrow> string \<Rightarrow> u16 \<Rightarrow> connection \<Rightarrow> connection" where
  "build_connection now sock idx ip port c =
     (let c = (reset_connection c)\<lparr>conSock := sock, conAcceptTime := now, conIndex := idx\<rparr>;
          c = (if sock \<noteq> 0 then c\<lparr>conState := PENDING\<rparr> else c)
      in c\<lparr>conRemoteIP := ip, conRemotePort := port\<rparr>)"

text \<open>
  The constructor, and what \<open>CXCommunicationServer::BuildConnection\<close> gives a connection before it
  attaches the socket: the server, the packet callback, the statistics, the parser, the kind of
  connection, the task pool and the queue of the dispatcher.
\<close>

definition new_connection :: connection where
  "new_connection = reset_connection \<lparr>conSock = 0, conType = 1, conAcceptTime = 0, conIndex = 0,
     conRecvBufferIndex = 0, conSendBufferIndex = 0, conLastProcessBufferIndex = 0,
     conState = INITIALIZED, conLastPacketTime = 0, conRemoteIP = [], conRemotePort = 0,
     conServer = False, conReadBuf = [], conReadBufEnd = None, conSendBuf = [],
     conSendBufEnd = None, conHasPacketFun = False, conDispatchIndex = 0,
     conBuffersInList = 0, conPacketsInQueue = 0, conPostedSent = 0, conPostedRecv = 0,
     conLastUnpackedSeq = 0, conLastProcessedSeq = 0, conSession = None, conParser = False,
     conTimeOut = 60000, conReleasedTime = 0, conIOStat = False, conMessages = [], conMessageEnd = None,
     conCurSendSeq = 1, conLastSentSeq = 0, conEncrypt = 0, conCompress = 0,
     conProxy = False, conTaskPool = False, conAsyncParse = False, conAsyncPrepare = False,
     conAsyncMes = False, conContinuous = False, conRPCObj = Map.empty,
     conObjectID = replicate 16 0, conRequestID = replicate 16 0, conDelivered = [], conTasks = [], conPrepTasks = [],
     conLive = [], conNextAddr = 0\<rparr>"

definition serve_connection :: "bool \<Rightarrow> bool \<Rightarrow> bool \<Rightarrow> bool \<Rightarrow> int \<Rightarrow> connection \<Rightarrow> connection" where
  "serve_connection hasStat hasParser proxy hasPool queue c =
     c\<lparr>conServer := True, conHasPacketFun := True, conIOStat := hasStat, conParser := hasParser,
       conProxy := proxy, conTaskPool := hasPool, conDispatchIndex := queue\<rparr>"

definition on_created :: "int \<Rightarrow> int \<Rightarrow> connection \<Rightarrow> connection" where
  "on_created now sock c = c\<lparr>conSock := sock, conAcceptTime := now, conState := ESTABLISHED\<rparr>"

definition record_packet_time :: "int \<Rightarrow> connection \<Rightarrow> connection" where
  "record_packet_time now c = c\<lparr>conLastPacketTime := now\<rparr>"

definition record_released_time :: "int \<Rightarrow> connection \<Rightarrow> connection" where
  "record_released_time now c = c\<lparr>conReleasedTime := now\<rparr>"

section \<open>Counters\<close>

definition add_received_packet_number :: "connection \<Rightarrow> connection" where
  "add_received_packet_number c = c\<lparr>conPacketsInQueue := conPacketsInQueue c + 1\<rparr>"

definition reduce_received_packet_number :: "connection \<Rightarrow> connection" where
  "reduce_received_packet_number c = c\<lparr>conPacketsInQueue := conPacketsInQueue c - 1\<rparr>"

definition reduce_posted_recv :: "connection \<Rightarrow> connection" where
  "reduce_posted_recv c = c\<lparr>conPostedRecv := conPostedRecv c - 1\<rparr>"

definition reduce_posted_sent :: "connection \<Rightarrow> connection" where
  "reduce_posted_sent c = c\<lparr>conPostedSent := conPostedSent c - 1\<rparr>"

section \<open>Message objects\<close>

text \<open>
  \<open>GetBuffer\<close> and \<open>FreeBuffer\<close> for message objects: allocation takes the next address, freeing an
  object that is not live is a double free.
\<close>

definition new_message_addr :: "connection \<Rightarrow> addr \<times> connection" where
  "new_message_addr c = (conNextAddr c,
     c\<lparr>conNextAddr := Suc (conNextAddr c), conLive := conNextAddr c # conLive c\<rparr>)"

definition free_message :: "addr \<Rightarrow> connection \<Rightarrow> connection res" where
  "free_message a c =
     (if a \<in> set (conLive c) then Inr (c\<lparr>conLive := remove1 a (conLive c)\<rparr>) else Inl DoubleFree)"

section \<open>Closing\<close>

text \<open>
  \<open>Close\<close> closes the socket once, and frees the read list when no send is posted.  It sets the head
  of the list to null and the counter to zero, and leaves the end pointer as it is.
\<close>

definition close_connection_object :: "connection \<Rightarrow> connection" where
  "close_connection_object c =
     (let c = (if state_code (conState c) < state_code CLOSING then c\<lparr>conState := CLOSING\<rparr> else c)
      in if conPostedSent c = 0 \<and> conReadBuf c \<noteq> []
         then c\<lparr>conReadBuf := [], conBuffersInList := 0\<rparr> else c)"

end
