(* ===== verification/Receive.thy ===== *)
theory Receive imports Main Connection begin

text \<open>
  The receive path of src/CXCommunicationServer/src/CXConnectionObject.cpp: \<open>PushReceivedBuffer\<close>,
  \<open>RecvPacket\<close> (the loop that puts packets together from the received buffers), \<open>ParseMessage\<close>
  and \<open>PushReceivedMessage\<close>, as functions on the connection.  This theory holds the
  definitions; the theory Receive_Stream holds what they achieve.
\<close>

section \<open>The environment of a call\<close>

text \<open>
  What the receive path takes from outside the connection: the clock, \<open>CXMemoryCacheManager::GetBuffer\<close>
  (the size of the object it returns for a requested size, or none when it returns null), the
  thread cache of the server, whether the task pool has a parse task to give, and the data parser
  \<open>ParseData\<close> (the bytes it writes for an encryption flag, a compression flag, an input, the size
  of the output buffer and of the cache buffer, or none when it returns false).
\<close>

record recv_env =
  envNow :: int
  envAlloc :: "nat \<Rightarrow> nat option"
  envThreadCache :: "int \<Rightarrow> bool"
  envParseTask :: bool
  envParse :: "byte \<Rightarrow> byte \<Rightarrow> byte list \<Rightarrow> nat \<Rightarrow> int \<Rightarrow> byte list option"

section \<open>Buffers into the read list\<close>

definition push_received_buffer :: "int \<Rightarrow> buffer_obj option \<Rightarrow> connection \<Rightarrow> (bool \<times> connection) res" where
  "push_received_buffer now ob c =
     (case ob of
        None \<Rightarrow> Inr (False, c)
      | Some b \<Rightarrow>
          let c = record_packet_time now c in
          bind_res (push_seq bufSeq bufAddr b (conReadBuf c) (conReadBufEnd c)) (\<lambda>(ok, xs, e).
            let c = c\<lparr>conReadBuf := xs, conReadBufEnd := e\<rparr> in
            if ok then Inr (True, c\<lparr>conBuffersInList := conBuffersInList c + 1,
                                   conPostedRecv := conPostedRecv c - 1\<rparr>)
            else Inr (False, c)))"

section \<open>Messages to the dispatcher\<close>

definition push_received_message :: "bool \<Rightarrow> message \<Rightarrow> connection \<Rightarrow> connection" where
  "push_received_message addRes m c =
     (if conHasPacketFun c
      then let c = (if addRes then add_received_packet_number c else c)
           in c\<lparr>conDelivered := conDelivered c @ [m]\<rparr>
      else c)"

text \<open>
  \<open>ParseMessage\<close>: decrypt and decompress into a new message object.  It frees the message it was given
  on every path, failed or not.  Its sizes are computed in 32 bits.
\<close>

definition parse_buffer_len :: "u32 \<Rightarrow> int" where
  "parse_buffer_len orig = (let n = sint (orig * 2) in if n < 256 then 256 else n)"

definition parse_output_len :: "u32 \<Rightarrow> u32" where
  "parse_output_len orig =
     (let n = orig + word_of_nat sizeof_message_data - 1 in if n < 512 then 512 else n + 256)"

definition parse_message ::
  "recv_env \<Rightarrow> message \<Rightarrow> packet_header \<Rightarrow> connection \<Rightarrow> (bool \<times> connection) res" where
  "parse_message env m h c =
     (let failed = bind_res (free_message (mesAddr m) c) (\<lambda>c. Inr (False, c)) in
      if \<not> conServer c then failed
      else
        let cacheLen = parse_buffer_len (dwOrignDataLen h);
            haveCache = (envThreadCache env cacheLen \<or> envAlloc env (nat cacheLen) \<noteq> None)
        in if \<not> haveCache then failed
      else case envAlloc env (unat (parse_output_len (dwOrignDataLen h))) of
        None \<Rightarrow> failed
      | Some cap \<Rightarrow>
        let (a, c) = new_message_addr c;
            outLen = unat (parse_output_len (dwOrignDataLen h) - (word_of_nat sizeof_message_data - 1))
        in case envParse env (byEncryptFlag h) (byCompressFlag h)
                  (take (unat (mesDataLen m)) (mesBody m)) outLen cacheLen of
             None \<Rightarrow> bind_res (free_message (mesAddr m) c) (\<lambda>c. bind_res (free_message a c) (\<lambda>c. Inr (False, c)))
           | Some out \<Rightarrow>
             if cap < offset_message_body + length out then Inl HeapOverflow
             else if length out \<noteq> unat (dwOrignDataLen h)
             then bind_res (free_message (mesAddr m) c) (\<lambda>c. bind_res (free_message a c) (\<lambda>c. Inr (False, c)))
             else bind_res (free_message (mesAddr m) c) (\<lambda>c.
               let body = out @ replicate (outLen - length out) 0;
                   m' = \<lparr>mesAddr = a, mesType = 1, mesDataLen = dwOrignDataLen h,
                     mesBeginTime = mesBeginTime m, mesBeginProcessTime = mesBeginTime m,
                     mesSeq = mesSeq m, mesProcessedRet = 0, mesBody = body\<rparr>
               in if \<not> conProxy c \<and> \<not> conIOStat c then Inl NullDeref
                  else Inr (True, push_received_message True m' c)))"

section \<open>One pass over a buffer\<close>

text \<open>
  The local variables of the loop: \<open>iUsedLen\<close>, the 16 bytes of \<open>packetHeader\<close>, \<open>pMessageData\<close> and
  \<open>uiPacketIndex\<close>.
\<close>

record scan =
  scanUsed :: nat
  scanHeader :: "byte list"
  scanMessage :: "message option"
  scanIndex :: u64

definition scan_start :: "connection \<Rightarrow> scan" where
  "scan_start c = \<lparr>scanUsed = 0, scanHeader = replicate sizeof_header 0, scanMessage = None,
     scanIndex = conLastProcessBufferIndex c\<rparr>"

text \<open>The header part of the buffer: new locals, bytes left and the offset of the first of them.\<close>

definition copy_header :: "buffer_obj \<Rightarrow> scan \<Rightarrow> scan \<times> nat \<times> nat" where
  "copy_header b s =
     (if scanUsed s < sizeof_header then
        let need = min (sizeof_header - scanUsed s) (bufLen b);
            bytes = take need (drop (bufCur b) (bufData b))
        in (s\<lparr>scanHeader := memcpy (scanHeader s) (scanUsed s) bytes, scanUsed := scanUsed s + need\<rparr>,
            bufLen b - need, bufCur b + need)
      else (s, bufLen b, bufCur b))"

text \<open>The message object for the packet, requested once the header is there.\<close>

definition message_for_packet ::
  "recv_env \<Rightarrow> scan \<Rightarrow> connection \<Rightarrow> (message \<times> connection) option" where
  "message_for_packet env s c =
     (case scanMessage s of
        Some m \<Rightarrow> Some (m, c)
      | None \<Rightarrow>
          let h = header_of (scanHeader s) in
          case envAlloc env (sizeof_message_data - 1 + unat (dwDataLen h)) of
            None \<Rightarrow> None
          | Some cap \<Rightarrow>
              let (a, c) = new_message_addr c in
              Some (\<lparr>mesAddr = a, mesType = 1, mesDataLen = dwDataLen h, mesBeginTime = envNow env,
                     mesBeginProcessTime = envNow env, mesSeq = 0, mesProcessedRet = 0,
                     mesBody = replicate (sizeof_body - 1 + unat (dwDataLen h)) 0\<rparr>, c))"

text \<open>
  The body part of the buffer.  The object has as many bytes as the allocator gave for the requested
  size; a copy that ends behind them is a heap overflow.
\<close>

definition copy_body ::
  "recv_env \<Rightarrow> buffer_obj \<Rightarrow> nat \<Rightarrow> nat \<Rightarrow> message \<Rightarrow> scan \<Rightarrow> (message \<times> nat \<times> nat) res" where
  "copy_body env b left begin m s =
     (let dataLen = unat (dwDataLen (header_of (scanHeader s)));
          packetLen = dataLen + sizeof_header;
          need = min left (packetLen - scanUsed s);
          off = scanUsed s - sizeof_header;
          cap = (case envAlloc env (sizeof_message_data - 1 + dataLen) of None \<Rightarrow> 0 | Some k \<Rightarrow> k)
      in if need = 0 then Inr (m, scanUsed s, begin)
         else if cap < offset_message_body + off + need then Inl HeapOverflow
         else Inr (m\<lparr>mesBody := memcpy (mesBody m) off (take need (drop begin (bufData b)))\<rparr>,
                   scanUsed s + need, begin + need))"

section \<open>A complete packet\<close>

text \<open>
  The buffers in front of the current one are freed one by one; each advances the index of the last
  processed buffer.  \<open>rest\<close> is the chain behind the current buffer.
\<close>

definition finish_buffer :: "buffer_obj \<Rightarrow> nat \<Rightarrow> buffer_obj list \<Rightarrow> buffer_obj list" where
  "finish_buffer b begin rest =
     (let b = b\<lparr>bufLen := bufLen b - (begin - bufCur b), bufCur := begin\<rparr>
      in if bufLen b = 0 then rest else b # rest)"

definition drop_used_buffers :: "buffer_obj list \<Rightarrow> connection \<Rightarrow> connection" where
  "drop_used_buffers cur c =
     (let n = length (conReadBuf c) - length cur;
          c = c\<lparr>conReadBuf := cur,
                conLastProcessBufferIndex := conLastProcessBufferIndex c + word_of_nat n,
                conBuffersInList := conBuffersInList c - word_of_nat n\<rparr>
      in if cur = [] then c\<lparr>conReadBufEnd := None\<rparr> else c)"

definition accept_packet :: "packet_header \<Rightarrow> message \<Rightarrow> connection \<Rightarrow> message \<times> connection" where
  "accept_packet h m c =
     (let c = c\<lparr>conLastUnpackedSeq := conLastUnpackedSeq c + 1\<rparr>
      in (m\<lparr>mesSeq := conLastUnpackedSeq c\<rparr>,
          c\<lparr>conEncrypt := byEncryptFlag h, conCompress := byCompressFlag h\<rparr>))"

text \<open>
  What happens to a complete packet whose buffers have been released.  \<open>Some r\<close> is the code that
  \<open>RecvPacket\<close> returns at once, \<open>None\<close> lets the loop go on.  The log line of the branch for a wrong
  check sum reads the sequence number of the current buffer, the null pointer when there is none.
\<close>

definition dispatch_packet ::
  "recv_env \<Rightarrow> packet_header \<Rightarrow> message \<Rightarrow> buffer_obj list \<Rightarrow> connection \<Rightarrow> (int option \<times> connection) res" where
  "dispatch_packet env h m cur c =
     (if verify_packet_body h (mesBody m) then
        if byEncryptFlag h \<noteq> 0 \<or> byCompressFlag h \<noteq> 0 then
          if \<not> conParser c then
            bind_res (free_message (mesAddr m) c) (\<lambda>c. Inr (Some (- 6), c))
          else if conTaskPool c \<and> conAsyncParse c then
            if \<not> envParseTask env then
              bind_res (free_message (mesAddr m) c) (\<lambda>c. Inr (Some (- 3), c))
            else Inr (None, c\<lparr>conTasks := conTasks c @ [(m, h)]\<rparr>)
          else
            bind_res (parse_message env m h c) (\<lambda>(ok, c).
              if ok then Inr (None, c)
              else bind_res (free_message (mesAddr m) c) (\<lambda>c. Inr (Some (- 5), c)))
        else Inr (None, push_received_message True m c)
      else if cur = [] then Inl NullDeref
      else bind_res (free_message (mesAddr m) c) (\<lambda>c. Inr (Some (- 4), c)))"

section \<open>The loop\<close>

text \<open>
  The code after the loop frees an incomplete message; \<open>r\<close> is the code it returns.
\<close>

definition leave_loop :: "int \<Rightarrow> scan \<Rightarrow> connection \<Rightarrow> (int \<times> connection) res" where
  "leave_loop r s c =
     (case scanMessage s of
        None \<Rightarrow> Inr (r, c)
      | Some m \<Rightarrow> bind_res (free_message (mesAddr m) c) (\<lambda>c. Inr (r, c)))"

text \<open>
  The loop over the chain from the current buffer, with fuel.  \<open>None\<close> is out of fuel.
\<close>

fun recv_loop :: "recv_env \<Rightarrow> nat \<Rightarrow> buffer_obj list \<Rightarrow> scan \<Rightarrow> connection \<Rightarrow> (int \<times> connection) res option" where
  "recv_loop env 0 cur s c = None"
| "recv_loop env (Suc n) [] s c = Some (leave_loop 0 s c)"
| "recv_loop env (Suc n) (b # rest) s c =
     (if bufSeq b \<noteq> scanIndex s + 1 then Some (leave_loop 0 s c)
      else if bufLen b = 0 then recv_loop env n rest (s\<lparr>scanIndex := scanIndex s + 1\<rparr>) c
      else
        let (s, left, begin) = copy_header b s; h = header_of (scanHeader s) in
        if scanUsed s < sizeof_header
        then recv_loop env n rest (s\<lparr>scanIndex := scanIndex s + 1\<rparr>) c
        else if wFlag h \<noteq> CX_PACKET_HEADER_FLAG then Some (leave_loop (- 4) s c)
        else if CX_MAX_CHACHE_SIZE < unat (dwDataLen h) then Some (leave_loop (- 4) s c)
        else case message_for_packet env s c of
          None \<Rightarrow> Some (leave_loop (- 3) s c)
        | Some (m, c) \<Rightarrow>
          case copy_body env b left begin m s of
            Inl e \<Rightarrow> Some (Inl e)
          | Inr (m, used, begin) \<Rightarrow>
            if used < unat (dwDataLen h) + sizeof_header
            then recv_loop env n rest
                   (s\<lparr>scanUsed := used, scanMessage := Some m, scanIndex := scanIndex s + 1\<rparr>) c
            else
              let (m, c) = accept_packet h m c; cur = finish_buffer b begin rest;
                  c = drop_used_buffers cur c
              in case dispatch_packet env h m cur c of
                   Inl e \<Rightarrow> Some (Inl e)
                 | Inr (Some r, c) \<Rightarrow> Some (Inr (r, c))
                 | Inr (None, c) \<Rightarrow> recv_loop env n cur (scan_start c) c)"

definition recv_fuel :: "buffer_obj list \<Rightarrow> nat" where
  "recv_fuel bs = Suc (length bs + sum_list (map bufLen bs))"

definition recv_packet :: "recv_env \<Rightarrow> buffer_obj option \<Rightarrow> connection \<Rightarrow> (int \<times> connection) res option" where
  "recv_packet env ob c =
     (if ob = None \<or> \<not> conServer c then Some (Inr (- 1, c))
      else case push_received_buffer (envNow env) ob c of
        Inl e \<Rightarrow> Some (Inl e)
      | Inr (False, c) \<Rightarrow> Some (Inr (- 2, c))
      | Inr (True, c) \<Rightarrow> recv_loop env (recv_fuel (conReadBuf c)) (conReadBuf c) (scan_start c) c)"

end
