(* ===== verification/Receive_Stream.thy ===== *)
theory Receive_Stream imports Main Receive begin

text \<open>
  What the receive path achieves.  The bytes of the buffers that follow each other without a gap
  are a part of the byte stream that the peer sent; \<open>RecvPacket\<close> gives the dispatcher exactly the
  packets that are complete in it, in order, and keeps the bytes of the last, incomplete one.
\<close>

section \<open>Packets on the wire\<close>

definition wire :: "packet_header \<times> byte list \<Rightarrow> byte list" where
  "wire p = header_bytes (fst p) @ snd p"

definition stream_of :: "(packet_header \<times> byte list) list \<Rightarrow> byte list" where
  "stream_of ps = concat (map wire ps)"

lemma stream_of_simps [simp]:
  "stream_of [] = []"
  "stream_of (p # ps) = wire p @ stream_of ps"
  "stream_of (ps @ qs) = stream_of ps @ stream_of qs"
  by (simp_all add: stream_of_def)

lemma length_wire [simp]: "length (wire p) = sizeof_header + length (snd p)"
  by (simp add: wire_def)

text \<open>The allocator gives an object that holds the bytes it was asked for.\<close>

definition alloc_ok :: "recv_env \<Rightarrow> nat \<Rightarrow> bool" where
  "alloc_ok env n \<longleftrightarrow> (case envAlloc env n of None \<Rightarrow> False | Some cap \<Rightarrow> n \<le> cap)"

text \<open>A packet whose header the loop accepts, with its whole body.\<close>

definition framed :: "recv_env \<Rightarrow> packet_header \<times> byte list \<Rightarrow> bool" where
  "framed env p \<longleftrightarrow> wFlag (fst p) = CX_PACKET_HEADER_FLAG \<and>
     length (snd p) = unat (dwDataLen (fst p)) \<and> length (snd p) \<le> CX_MAX_CHACHE_SIZE \<and>
     alloc_ok env (sizeof_message_data - 1 + length (snd p))"

lemma length_buffer_left: "buffer_wf b \<Longrightarrow> length (buffer_left b) = bufLen b"
  by (simp add: buffer_wf_def buffer_left_def)

lemma take_buffer_data:
  "k \<le> bufLen b \<Longrightarrow> take k (drop (bufCur b) (bufData b)) = take k (buffer_left b)"
  by (simp add: buffer_left_def min_def)

lemma take_drop_buffer_data:
  "i + k \<le> bufLen b \<Longrightarrow>
   take k (drop (bufCur b + i) (bufData b)) = take k (drop i (buffer_left b))"
  by (simp add: buffer_left_def drop_take min_def add.commute)

section \<open>The locals of the loop\<close>

text \<open>
  \<open>scan_rel env h U c0 s c\<close>: the loop began a packet with header \<open>h\<close> in state \<open>c0\<close>, has taken the bytes
  \<open>U\<close> of it, and is now in state \<open>c\<close> with locals \<open>s\<close>.
\<close>

definition partial_message :: "recv_env \<Rightarrow> connection \<Rightarrow> packet_header \<Rightarrow> byte list \<Rightarrow> message" where
  "partial_message env c0 h U =
     \<lparr>mesAddr = conNextAddr c0, mesType = 1, mesDataLen = dwDataLen h, mesBeginTime = envNow env,
      mesBeginProcessTime = envNow env, mesSeq = 0, mesProcessedRet = 0,
      mesBody = drop sizeof_header U @
        replicate (sizeof_body - 1 + unat (dwDataLen h) - (length U - sizeof_header)) 0\<rparr>"

definition scan_rel :: "recv_env \<Rightarrow> packet_header \<Rightarrow> byte list \<Rightarrow> connection \<Rightarrow> scan \<Rightarrow> connection \<Rightarrow> bool" where
  "scan_rel env h U c0 s c \<longleftrightarrow> scanUsed s = length U \<and>
     scanHeader s = take sizeof_header U @ replicate (sizeof_header - length U) 0 \<and>
     (if length U < sizeof_header then scanMessage s = None \<and> c = c0
      else scanMessage s = Some (partial_message env c0 h U) \<and> c = snd (new_message_addr c0))"

lemma scan_rel_start: "scan_rel env h [] c (scan_start c) c"
  by (simp add: scan_rel_def scan_start_def sizeof_header_def)

lemma copy_header_rel:
  assumes rel: "scanUsed s = length U"
      "scanHeader s = take sizeof_header U @ replicate (sizeof_header - length U) 0"
    and wf: "buffer_wf b"
    and k: "k = (if length U < sizeof_header then min (sizeof_header - length U) (bufLen b) else 0)"
  shows "copy_header b s =
     (s\<lparr>scanHeader := take sizeof_header (U @ take k (buffer_left b)) @
           replicate (sizeof_header - (length U + k)) 0, scanUsed := length U + k\<rparr>,
      bufLen b - k, bufCur b + k)"
proof (cases "length U < sizeof_header")
  case False
  then show ?thesis using rel k by (simp add: copy_header_def)
next
  case True
  then have k: "k = min (sizeof_header - length U) (bufLen b)" using k by simp
  have len: "length (take k (buffer_left b)) = k"
    using k length_buffer_left [OF wf] by simp
  have "memcpy (scanHeader s) (length U) (take k (buffer_left b))
      = take sizeof_header (U @ take k (buffer_left b)) @ replicate (sizeof_header - (length U + k)) 0"
    using True rel(2) k len by (simp add: memcpy_def)
  then show ?thesis
    using True rel k by (simp add: copy_header_def Let_def take_buffer_data)
qed

lemma copy_body_rel:
  assumes wf: "buffer_wf b" and k: "k \<le> bufLen b"
    and U: "sizeof_header \<le> length U" "length U \<le> sizeof_header + dl"
    and s: "scanUsed s = length U" "header_of (scanHeader s) = h"
    and h: "unat (dwDataLen h) = dl" "alloc_ok env (sizeof_message_data - 1 + dl)"
    and j: "j = min (bufLen b - k) (dl + sizeof_header - length U)"
  shows "copy_body env b (bufLen b - k) (bufCur b + k) (partial_message env c0 h U) s =
     Inr (partial_message env c0 h (U @ take j (drop k (buffer_left b))), length U + j, bufCur b + k + j)"
proof (cases "j = 0")
  case True
  then show ?thesis using j s h by (simp add: copy_body_def Let_def)
next
  case False
  obtain cap where cap: "envAlloc env (sizeof_message_data - 1 + dl) = Some cap"
      "sizeof_message_data - 1 + dl \<le> cap"
    using h(2) by (auto simp: alloc_ok_def split: option.splits)
  have fits: "offset_message_body + (length U - sizeof_header) + j \<le> cap"
    using cap(2) U j by (simp add: sizes)
  have data: "take j (drop (bufCur b + k) (bufData b)) = take j (drop k (buffer_left b))"
    using j k by (simp add: take_drop_buffer_data)
  have len: "length (take j (drop k (buffer_left b))) = j"
    using j k length_buffer_left [OF wf] by simp
  have "memcpy (mesBody (partial_message env c0 h U)) (length U - sizeof_header) (take j (drop k (buffer_left b)))
      = mesBody (partial_message env c0 h (U @ take j (drop k (buffer_left b))))"
    using U j len h(1) by (simp add: memcpy_def partial_message_def sizes)
  then have "(partial_message env c0 h U)\<lparr>mesBody := memcpy (mesBody (partial_message env c0 h U))
        (length U - sizeof_header) (take j (drop k (buffer_left b)))\<rparr>
      = partial_message env c0 h (U @ take j (drop k (buffer_left b)))"
    by (simp add: partial_message_def)
  then show ?thesis
    using False fits j s h cap(1) by (simp add: copy_body_def Let_def data [unfolded j])
qed

text \<open>
  The header bytes are complete: the loop reads the header back from them.
\<close>

lemma header_of_scanned:
  assumes "U @ L = header_bytes h @ rest \<or> (\<exists>X. U @ L @ X = header_bytes h @ rest)"
    and "sizeof_header \<le> length (U @ L)"
  shows "header_of (take sizeof_header (U @ L)) = h"
proof -
  obtain X where "(U @ L) @ X = header_bytes h @ rest"
    using assms(1) by (metis append.assoc append_Nil2)
  then have "take sizeof_header ((U @ L) @ X) = take sizeof_header (header_bytes h @ rest)"
    by simp
  then have "take sizeof_header (U @ L) = header_bytes h"
    using assms(2) by simp
  then show ?thesis using header_of_bytes [of h "[]"] by simp
qed

lemma message_for_packet_rel:
  assumes rel: "scan_rel env h U c0 s c"
    and h: "header_of (scanHeader s') = h" and m: "scanMessage s' = scanMessage s"
    and al: "alloc_ok env (sizeof_message_data - 1 + unat (dwDataLen h))"
    and V: "length U < sizeof_header \<Longrightarrow> length V = sizeof_header"
      "sizeof_header \<le> length U \<Longrightarrow> V = U"
  shows "message_for_packet env s' c = Some (partial_message env c0 h V, snd (new_message_addr c0))"
proof (cases "length U < sizeof_header")
  case True
  obtain cap where "envAlloc env (sizeof_message_data - 1 + unat (dwDataLen h)) = Some cap"
    using al by (auto simp: alloc_ok_def split: option.splits)
  then show ?thesis
    using True rel h m V(1)
    by (simp add: message_for_packet_def scan_rel_def new_message_addr_def partial_message_def)
next
  case False
  then show ?thesis
    using rel m V(2) by (simp add: message_for_packet_def scan_rel_def)
qed

section \<open>One iteration\<close>

lemma framedD:
  assumes "framed env (h, body)"
  shows "wFlag h = CX_PACKET_HEADER_FLAG" "unat (dwDataLen h) = length body"
    "length body \<le> CX_MAX_CHACHE_SIZE" "alloc_ok env (sizeof_message_data - 1 + unat (dwDataLen h))"
    "alloc_ok env (sizeof_message_data - 1 + length body)"
  using assms by (auto simp: framed_def)

text \<open>What the loop does with a packet whose last byte is at offset \<open>begin - 1\<close> of buffer \<open>b\<close>.\<close>

definition complete_packet ::
  "recv_env \<Rightarrow> nat \<Rightarrow> packet_header \<Rightarrow> message \<Rightarrow> buffer_obj list \<Rightarrow> connection \<Rightarrow> (int \<times> connection) res option" where
  "complete_packet env n h m cur c =
     (let (m, c) = accept_packet h m c; c = drop_used_buffers cur c
      in case dispatch_packet env h m cur c of
           Inl e \<Rightarrow> Some (Inl e)
         | Inr (Some r, c) \<Rightarrow> Some (Inr (r, c))
         | Inr (None, c) \<Rightarrow> recv_loop env n cur (scan_start c) c)"

text \<open>
  One iteration on a buffer whose bytes continue the packet \<open>(h, body)\<close>, of which \<open>U\<close> was taken before:
  \<open>t\<close> bytes are taken, as many as the buffer has or the packet lacks.
\<close>

lemma recv_loop_iteration:
  assumes rel: "scan_rel env h U c0 s c" and fr: "framed env (h, body)"
    and b: "buffer_wf b" "bufSeq b = scanIndex s + 1" "bufLen b \<noteq> 0"
    and follows: "(U @ buffer_left b) @ X = wire (h, body) @ Y"
    and U: "length U < length (wire (h, body))"
    and t: "t = min (bufLen b) (length (wire (h, body)) - length U)"
  shows "\<exists>s' c'. scan_rel env h (U @ take t (buffer_left b)) c0 s' c' \<and> scanIndex s' = scanIndex s + 1 \<and>
     recv_loop env (Suc n) (b # rest) s c =
       (if length U + t < length (wire (h, body)) then recv_loop env n rest s' c'
        else complete_packet env n h (partial_message env c0 h (wire (h, body)))
               (finish_buffer b (bufCur b + t) rest) (snd (new_message_addr c0)))"
proof -
  let ?L = "buffer_left b"
  note h = framedD [OF fr]
  have lenL: "length ?L = bufLen b" using b(1) by (rule length_buffer_left)
  define k where "k = (if length U < sizeof_header then min (sizeof_header - length U) (bufLen b) else 0)"
  have k: "k \<le> bufLen b" by (simp add: k_def)
  have rel': "scanUsed s = length U"
      "scanHeader s = take sizeof_header U @ replicate (sizeof_header - length U) 0"
    using rel by (simp_all add: scan_rel_def)
  let ?s1 = "s\<lparr>scanHeader := take sizeof_header (U @ take k ?L) @
           replicate (sizeof_header - (length U + k)) 0, scanUsed := length U + k\<rparr>"
  have ch: "copy_header b s = (?s1, bufLen b - k, bufCur b + k)"
    using copy_header_rel [OF rel' b(1) k_def] by simp
  show ?thesis
  proof (cases "length U + bufLen b < sizeof_header")
    case True
    then have kL: "k = bufLen b" by (simp add: k_def)
    have tL: "t = bufLen b" using True t by simp
    let ?s2 = "?s1\<lparr>scanIndex := scanIndex s + 1\<rparr>"
    have "length U + t < length (wire (h, body))" using True tL by simp
    then have "recv_loop env (Suc n) (b # rest) s c =
       (if length U + t < length (wire (h, body)) then recv_loop env n rest ?s2 c
        else complete_packet env n h (partial_message env c0 h (wire (h, body)))
               (finish_buffer b (bufCur b + t) rest) (snd (new_message_addr c0)))"
      using True b ch kL by simp
    moreover have "scan_rel env h (U @ take t ?L) c0 ?s2 c"
      using rel True kL lenL tL by (auto simp: scan_rel_def)
    moreover have "scanIndex ?s2 = scanIndex s + 1" by simp
    ultimately show ?thesis by blast
  next
    case False
    then have full: "sizeof_header \<le> length U + k" by (auto simp: k_def)
    have lenV: "length (U @ take k ?L) = length U + k" using k lenL by simp
    have "take (length U + k) ((U @ ?L) @ X) = U @ take k ?L" using k lenL by simp
    then have "take sizeof_header (U @ take k ?L)
        = take sizeof_header (take (length U + k) ((U @ ?L) @ X))" by (rule arg_cong [OF sym])
    also have "\<dots> = take sizeof_header ((U @ ?L) @ X)"
      using full by (simp only: take_take min.absorb1)
    also have "\<dots> = header_bytes h" unfolding follows by (simp add: wire_def)
    finally have hdr: "header_of (scanHeader ?s1) = h"
      using full header_of_bytes [of h "[]"] by simp
    have mfp: "message_for_packet env ?s1 c
        = Some (partial_message env c0 h (U @ take k ?L), snd (new_message_addr c0))"
      using full lenV h by (intro message_for_packet_rel [OF rel hdr]) (auto simp: k_def)
    define j where "j = min (bufLen b - k) (length body + sizeof_header - length (U @ take k ?L))"
    have lenV2: "length (U @ take k ?L) \<le> sizeof_header + length body"
      using U lenV by (auto simp: k_def)
    have "t = min (bufLen b) (sizeof_header + length body - length U)"
      using t by simp
    moreover have "length U + k \<le> sizeof_header + length body"
      using lenV2 unfolding lenV .
    ultimately have tj: "t = k + j" using k unfolding j_def lenV by arith
    have V: "(U @ take k ?L) @ take j (drop k ?L) = U @ take t ?L"
      by (simp add: tj take_append_take_drop)
    have cb: "copy_body env b (bufLen b - k) (bufCur b + k) (partial_message env c0 h (U @ take k ?L)) ?s1
        = Inr (partial_message env c0 h (U @ take t ?L), length U + t, bufCur b + t)"
      using copy_body_rel [OF b(1) k _ lenV2 _ hdr h(2,5) j_def] full lenV
      unfolding V by (simp add: tj)
    let ?s2 = "?s1\<lparr>scanUsed := length U + t,
        scanMessage := Some (partial_message env c0 h (U @ take t ?L)), scanIndex := scanIndex s + 1\<rparr>"
    have "U @ take t ?L = take (length U + t) (wire (h, body) @ Y)"
      using lenL t unfolding follows [symmetric] by simp
    then have W: "U @ take t ?L = wire (h, body)" if "\<not> length U + t < length (wire (h, body))"
      using that U t by simp
    have "recv_loop env (Suc n) (b # rest) s c =
       (if length U + t < length (wire (h, body)) then recv_loop env n rest ?s2 (snd (new_message_addr c0))
        else complete_packet env n h (partial_message env c0 h (wire (h, body)))
               (finish_buffer b (bufCur b + t) rest) (snd (new_message_addr c0)))"
      using b ch full hdr h mfp cb W
      by (simp add: complete_packet_def Let_def not_less add.commute [of "length body"])
    moreover have "take sizeof_header (U @ take k ?L) = take sizeof_header (U @ take t ?L)"
      using full lenV unfolding V [symmetric] by simp
    then have "scan_rel env h (U @ take t ?L) c0 ?s2 (snd (new_message_addr c0))"
      using full lenL t tj by (simp add: scan_rel_def)
    moreover have "scanIndex ?s2 = scanIndex s + 1" by simp
    ultimately show ?thesis by blast
  qed
qed

end
