(* ===== verification/Receive_Correct.thy ===== *)
theory Receive_Correct imports Main Receive_Stream begin

text \<open>
  From one iteration of the loop of \<open>RecvPacket\<close> to whole calls, and from calls to the stream: the
  dispatcher gets the packets of the stream in order, whatever the sizes of the buffers and
  whatever the order in which they arrive.
\<close>

section \<open>The buffers that follow each other\<close>

fun contig :: "u64 \<Rightarrow> buffer_obj list \<Rightarrow> buffer_obj list" where
  "contig k [] = []"
| "contig k (b # bs) = (if bufSeq b = k + 1 then b # contig (k + 1) bs else [])"

definition left_bytes :: "buffer_obj list \<Rightarrow> byte list" where
  "left_bytes bs = concat (map buffer_left bs)"

lemma left_bytes_simps [simp]:
  "left_bytes [] = []"
  "left_bytes (b # bs) = buffer_left b @ left_bytes bs"
  "left_bytes (bs @ cs) = left_bytes bs @ left_bytes cs"
  by (simp_all add: left_bytes_def)

lemma buffer_left_empty: "bufLen b = 0 \<Longrightarrow> buffer_left b = []"
  by (simp add: buffer_left_def)

section \<open>The fuel\<close>

lemma recv_fuel_simps [simp]:
  "recv_fuel [] = 1"
  "recv_fuel (b # bs) = Suc (bufLen b + recv_fuel bs)"
  by (simp_all add: recv_fuel_def)

lemma recv_fuel_finish:
  "0 < t \<Longrightarrow> t \<le> bufLen b \<Longrightarrow> recv_fuel (finish_buffer b (bufCur b + t) rest) < recv_fuel (b # rest)"
  by (auto simp: finish_buffer_def)

section \<open>An incomplete packet\<close>

text \<open>The loop ends with code 0; all it changed is undone by the code behind it, but for the address supply.\<close>

definition readdressed :: "connection \<Rightarrow> connection \<Rightarrow> bool" where
  "readdressed c c' \<longleftrightarrow> (\<exists>a. c' = c\<lparr>conNextAddr := a\<rparr>)"

lemma readdressed_refl [simp]: "readdressed c c"
proof -
  have "c = c\<lparr>conNextAddr := conNextAddr c\<rparr>" by simp
  then show ?thesis unfolding readdressed_def by blast
qed

lemma leave_loop_rel:
  assumes "scan_rel env h U c0 s c"
  shows "\<exists>c'. leave_loop r s c = Inr (r, c') \<and> readdressed c0 c'"
proof (cases "length U < sizeof_header")
  case True
  then show ?thesis using assms by (simp add: leave_loop_def scan_rel_def)
next
  case False
  let ?c = "c0\<lparr>conNextAddr := Suc (conNextAddr c0)\<rparr>"
  have "leave_loop r s c = Inr (r, ?c)"
    using assms False
    by (simp add: leave_loop_def scan_rel_def new_message_addr_def free_message_def partial_message_def)
  then show ?thesis unfolding readdressed_def by blast
qed

lemma recv_loop_incomplete:
  assumes "scan_rel env h U c0 s c" and "\<forall>b\<in>set cur. buffer_wf b" and "recv_fuel cur \<le> n"
    and "left_bytes (contig (scanIndex s) cur) = [] \<or> (framed env (h, body) \<and>
      (\<exists>X. X \<noteq> [] \<and> U @ left_bytes (contig (scanIndex s) cur) @ X = wire (h, body)))"
  shows "\<exists>c'. recv_loop env n cur s c = Some (Inr (0, c')) \<and> readdressed c0 c'"
  using assms
proof (induction cur arbitrary: U s c n)
  case Nil
  then obtain m where "n = Suc m" by (cases n) auto
  then show ?case using leave_loop_rel [OF Nil.prems(1), of 0] by auto
next
  case (Cons b rest)
  from Cons.prems(3) obtain m where n: "n = Suc m" "recv_fuel rest \<le> m" by (cases n) auto
  have wf: "buffer_wf b" "\<forall>b\<in>set rest. buffer_wf b" using Cons.prems(2) by simp_all
  show ?case
  proof (cases "bufSeq b = scanIndex s + 1")
    case False
    then show ?thesis using leave_loop_rel [OF Cons.prems(1), of 0] n by auto
  next
    case seq: True
    show ?thesis
    proof (cases "bufLen b = 0")
      case True
      have "scan_rel env h U c0 (s\<lparr>scanIndex := scanIndex s + 1\<rparr>) c"
        using Cons.prems(1) by (simp add: scan_rel_def)
      from Cons.IH [OF this wf(2) n(2)] show ?thesis
        using Cons.prems(4) seq True n(1) by (simp add: buffer_left_empty)
    next
      case False
      then have ne: "buffer_left b \<noteq> []" using length_buffer_left [OF wf(1)] by auto
      then obtain X where fr: "framed env (h, body)" and X: "X \<noteq> []"
          "U @ buffer_left b @ left_bytes (contig (scanIndex s + 1) rest) @ X = wire (h, body)"
        using Cons.prems(4) seq by auto
      have len: "length U + bufLen b < length (wire (h, body))"
        using arg_cong [OF X(2), of length] X(1) length_buffer_left [OF wf(1)] by (cases X) simp_all
      let ?X = "left_bytes (contig (scanIndex s + 1) rest) @ X"
      have "(U @ buffer_left b) @ ?X = wire (h, body) @ []" "length U < length (wire (h, body))"
          "bufLen b = min (bufLen b) (length (wire (h, body)) - length U)"
        using X(2) len by simp_all
      from recv_loop_iteration [OF Cons.prems(1) fr wf(1) seq False this, of m rest]
      obtain s' c' where it: "scan_rel env h (U @ take (bufLen b) (buffer_left b)) c0 s' c'"
          "scanIndex s' = scanIndex s + 1" "recv_loop env n (b # rest) s c = recv_loop env m rest s' c'"
        using len n(1) by (metis (no_types, lifting))
      have "scan_rel env h (U @ buffer_left b) c0 s' c'"
        using it(1) length_buffer_left [OF wf(1)] by simp
      from Cons.IH [OF this wf(2) n(2)] show ?thesis
        using it fr X by auto
    qed
  qed
qed

section \<open>A complete packet\<close>

lemma recv_loop_complete:
  assumes "scan_rel env h U c0 s c" and "\<forall>b\<in>set cur. buffer_wf b" and "recv_fuel cur \<le> n"
    and "framed env (h, body)" and "length U < length (wire (h, body))"
    and "U @ left_bytes (contig (scanIndex s) cur) = wire (h, body) @ Y"
  shows "\<exists>pre b rest t m. cur = pre @ b # rest \<and> 0 < t \<and> t \<le> bufLen b \<and>
     contig (scanIndex s) cur = pre @ b # contig (scanIndex s + word_of_nat (length pre) + 1) rest \<and>
     bufSeq b = scanIndex s + word_of_nat (length pre) + 1 \<and>
     U @ left_bytes pre @ take t (buffer_left b) = wire (h, body) \<and>
     recv_fuel (finish_buffer b (bufCur b + t) rest) \<le> m \<and>
     recv_loop env n cur s c = complete_packet env m h (partial_message env c0 h (wire (h, body)))
       (finish_buffer b (bufCur b + t) rest) (snd (new_message_addr c0))"
  using assms
proof (induction cur arbitrary: U s c n)
  case Nil
  then show ?case by (auto dest: arg_cong [of _ _ length])
next
  case (Cons b rest)
  from Cons.prems(3) obtain m where n: "n = Suc m" "recv_fuel rest \<le> m" "bufLen b + recv_fuel rest \<le> m"
    by (cases n) auto
  have wf: "buffer_wf b" "\<forall>b\<in>set rest. buffer_wf b" using Cons.prems(2) by simp_all
  have seq: "bufSeq b = scanIndex s + 1"
    using Cons.prems(5,6) by (auto split: if_splits dest: arg_cong [of _ _ length])
  have lenL: "length (buffer_left b) = bufLen b" by (rule length_buffer_left [OF wf(1)])
  have step: "\<exists>pre b' rest' t m'. b # rest = pre @ b' # rest' \<and> 0 < t \<and> t \<le> bufLen b' \<and>
     contig (scanIndex s) (b # rest)
       = pre @ b' # contig (scanIndex s + word_of_nat (length pre) + 1) rest' \<and>
     bufSeq b' = scanIndex s + word_of_nat (length pre) + 1 \<and>
     U @ left_bytes pre @ take t (buffer_left b') = wire (h, body) \<and>
     recv_fuel (finish_buffer b' (bufCur b' + t) rest') \<le> m' \<and>
     recv_loop env n (b # rest) s c = complete_packet env m' h (partial_message env c0 h (wire (h, body)))
       (finish_buffer b' (bufCur b' + t) rest') (snd (new_message_addr c0))"
    if rel: "scan_rel env h (U @ buffer_left b) c0 s' c'" and idx: "scanIndex s' = scanIndex s + 1"
      and eq: "recv_loop env n (b # rest) s c = recv_loop env m rest s' c'"
      and len: "length (U @ buffer_left b) < length (wire (h, body))" for s' c'
  proof -
    have "(U @ buffer_left b) @ left_bytes (contig (scanIndex s') rest) = wire (h, body) @ Y"
      using Cons.prems(6) seq idx by simp
    from Cons.IH [OF rel wf(2) n(2) Cons.prems(4) len this]
    obtain pre b' rest' t m' where r: "rest = pre @ b' # rest'" "0 < t" "t \<le> bufLen b'"
        "contig (scanIndex s') rest = pre @ b' # contig (scanIndex s' + word_of_nat (length pre) + 1) rest'"
        "bufSeq b' = scanIndex s' + word_of_nat (length pre) + 1"
        "(U @ buffer_left b) @ left_bytes pre @ take t (buffer_left b') = wire (h, body)"
        "recv_fuel (finish_buffer b' (bufCur b' + t) rest') \<le> m'"
        "recv_loop env m rest s' c' = complete_packet env m' h (partial_message env c0 h (wire (h, body)))
           (finish_buffer b' (bufCur b' + t) rest') (snd (new_message_addr c0))"
      by blast
    have "scanIndex s' + word_of_nat (length pre) = scanIndex s + word_of_nat (length (b # pre))"
      by (simp add: idx)
    with r seq idx eq show ?thesis
      by (intro exI [of _ "b # pre"] exI [of _ b'] exI [of _ rest'] exI [of _ t] exI [of _ m']) simp
  qed
  show ?case
  proof (cases "bufLen b = 0")
    case True
    have "scan_rel env h (U @ buffer_left b) c0 (s\<lparr>scanIndex := scanIndex s + 1\<rparr>) c"
      using Cons.prems(1) True by (simp add: scan_rel_def buffer_left_empty)
    then show ?thesis
      using Cons.prems(5) seq True n(1) by (intro step) (simp_all add: buffer_left_empty)
  next
    case False
    define t where "t = min (bufLen b) (length (wire (h, body)) - length U)"
    have follows: "(U @ buffer_left b) @ left_bytes (contig (scanIndex s + 1) rest) = wire (h, body) @ Y"
      using Cons.prems(6) seq by simp
    obtain s' c' where it: "scan_rel env h (U @ take t (buffer_left b)) c0 s' c'"
        "scanIndex s' = scanIndex s + 1"
        "recv_loop env n (b # rest) s c =
          (if length U + t < length (wire (h, body)) then recv_loop env m rest s' c'
           else complete_packet env m h (partial_message env c0 h (wire (h, body)))
               (finish_buffer b (bufCur b + t) rest) (snd (new_message_addr c0)))"
      using recv_loop_iteration [OF Cons.prems(1,4) wf(1) seq False follows Cons.prems(5) t_def] n(1)
      by blast
    show ?thesis
    proof (cases "length U + t < length (wire (h, body))")
      case True
      then have "t = bufLen b" using t_def Cons.prems(5) by (auto simp: min_def split: if_splits)
      then show ?thesis
        using it True lenL by (intro step [of s' c']) simp_all
    next
      case fin: False
      have t: "0 < t" "t \<le> bufLen b" using False Cons.prems(5) by (auto simp: t_def)
      have "U @ take t (buffer_left b) = take (length U + t) (wire (h, body) @ Y)"
        unfolding follows [symmetric] using t lenL by simp
      then have "U @ take t (buffer_left b) = wire (h, body)"
        using fin Cons.prems(5) t_def by simp
      moreover have "recv_fuel (finish_buffer b (bufCur b + t) rest) \<le> m"
        using recv_fuel_finish [OF t, of rest] n(3) by simp
      ultimately show ?thesis
        using it(3) fin seq t
        by (intro exI [of _ "[]"] exI [of _ b] exI [of _ rest] exI [of _ t] exI [of _ m]) simp
    qed
  qed
qed

end
