(* ===== verification/Receive_Order.thy ===== *)
theory Receive_Order imports Main Receive_Correct begin

text \<open>
  Whole calls of \<open>RecvPacket\<close>: the packets of the stream reach the packet callback in the order in
  which they were sent, decoded, once each, whatever the sizes of the buffers and whatever the
  order in which the buffers arrive.
\<close>

section \<open>One packet through the dispatcher\<close>

definition plain :: "packet_header \<Rightarrow> bool" where
  "plain h \<longleftrightarrow> byEncryptFlag h = 0 \<and> byCompressFlag h = 0"

definition parse_room :: "packet_header \<Rightarrow> nat" where
  "parse_room h = unat (parse_output_len (dwOrignDataLen h) - (word_of_nat sizeof_message_data - 1))"

definition decode :: "recv_env \<Rightarrow> packet_header \<times> byte list \<Rightarrow> byte list option" where
  "decode env p = (if plain (fst p) then Some (snd p)
     else envParse env (byEncryptFlag (fst p)) (byCompressFlag (fst p)) (snd p) (parse_room (fst p))
            (parse_buffer_len (dwOrignDataLen (fst p))))"

text \<open>A packet that the receiver accepts, and the memory that decoding it takes.\<close>

definition packet_ok :: "recv_env \<Rightarrow> packet_header \<times> byte list \<Rightarrow> bool" where
  "packet_ok env p \<longleftrightarrow> framed env p \<and> check_sum (snd p) = dwCheckSum (fst p) \<and>
     (\<not> plain (fst p) \<longrightarrow>
        (let orig = dwOrignDataLen (fst p) in
         (envThreadCache env (parse_buffer_len orig) \<or> envAlloc env (nat (parse_buffer_len orig)) \<noteq> None) \<and>
         (case decode env p of None \<Rightarrow> False | Some out \<Rightarrow> length out = unat orig) \<and>
         (case envAlloc env (unat (parse_output_len orig)) of None \<Rightarrow> False
          | Some cap \<Rightarrow> offset_message_body + unat orig \<le> cap)))"

definition receiver_ready :: "connection \<Rightarrow> bool" where
  "receiver_ready c \<longleftrightarrow> conServer c \<and> conHasPacketFun c \<and> conParser c \<and> (conProxy c \<or> conIOStat c) \<and>
     \<not> (conTaskPool c \<and> conAsyncParse c)"

definition mes_payload :: "message \<Rightarrow> byte list" where
  "mes_payload m = take (unat (mesDataLen m)) (mesBody m)"

text \<open>The connection after the dispatcher got message \<open>m\<close> of a packet with header \<open>h\<close>.\<close>

definition take_packet :: "packet_header \<Rightarrow> message \<Rightarrow> connection \<Rightarrow> connection" where
  "take_packet h m c = c\<lparr>conLastUnpackedSeq := mesSeq m, conEncrypt := byEncryptFlag h,
     conCompress := byCompressFlag h, conPacketsInQueue := conPacketsInQueue c + 1,
     conDelivered := conDelivered c @ [m], conLive := mesAddr m # conLive c,
     conNextAddr := Suc (mesAddr m)\<rparr>"

lemma partial_message_payload:
  "framed env (h, body) \<Longrightarrow>
   take (unat (dwDataLen h)) (mesBody (partial_message env c0 h (wire (h, body)))) = body"
  by (simp add: partial_message_def framedD wire_def)

lemma partial_message_fields [simp]:
  "mesAddr (partial_message env c0 h U) = conNextAddr c0"
  "mesDataLen (partial_message env c0 h U) = dwDataLen h"
  "mesBeginTime (partial_message env c0 h U) = envNow env"
  by (simp_all add: partial_message_def)

lemma drop_used_buffers_fields [simp]:
  "conLive (drop_used_buffers cur c) = conLive c"
  "conNextAddr (drop_used_buffers cur c) = conNextAddr c"
  "conDelivered (drop_used_buffers cur c) = conDelivered c"
  "conLastUnpackedSeq (drop_used_buffers cur c) = conLastUnpackedSeq c"
  "conPacketsInQueue (drop_used_buffers cur c) = conPacketsInQueue c"
  "conReadBuf (drop_used_buffers cur c) = cur"
  "conLastProcessBufferIndex (drop_used_buffers cur c)
     = conLastProcessBufferIndex c + word_of_nat (length (conReadBuf c) - length cur)"
  "conReadBufEnd (drop_used_buffers cur c) = (if cur = [] then None else conReadBufEnd c)"
  "receiver_ready (drop_used_buffers cur c) = receiver_ready c"
  by (simp_all add: drop_used_buffers_def receiver_ready_def Let_def)

lemma drop_used_buffers_commute:
  "drop_used_buffers cur (c\<lparr>conLastUnpackedSeq := a, conEncrypt := e, conCompress := f\<rparr>)
     = (drop_used_buffers cur c)\<lparr>conLastUnpackedSeq := a, conEncrypt := e, conCompress := f\<rparr>"
  "drop_used_buffers cur (snd (new_message_addr c)) = snd (new_message_addr (drop_used_buffers cur c))"
  by (simp_all add: drop_used_buffers_def new_message_addr_def Let_def)

lemma dispatch_plain:
  assumes "framed env (h, body)" "check_sum body = dwCheckSum h" "plain h" "conHasPacketFun c"
    "mesDataLen m = dwDataLen h" "take (unat (dwDataLen h)) (mesBody m) = body"
  shows "dispatch_packet env h m cur c = Inr (None, push_received_message True m c)"
  using assms by (simp add: dispatch_packet_def verify_packet_body_def plain_def)

lemma free_message_head: "free_message a (c\<lparr>conLive := b # a # L\<rparr>) =
   Inr (c\<lparr>conLive := (if a = b then a # L else b # L)\<rparr>)"
  by (auto simp: free_message_def)

lemma dispatch_coded:
  assumes ok: "packet_ok env (h, body)" and np: "\<not> plain h" and rd: "receiver_ready c"
    and m: "mesDataLen m = dwDataLen h" "take (unat (dwDataLen h)) (mesBody m) = body"
      "conLive c = mesAddr m # L" "conNextAddr c = Suc (mesAddr m)"
  shows "\<exists>m'. dispatch_packet env h m cur c = Inr (None, c\<lparr>conPacketsInQueue := conPacketsInQueue c + 1,
      conDelivered := conDelivered c @ [m'], conLive := mesAddr m' # L, conNextAddr := Suc (mesAddr m')\<rparr>) \<and>
    Some (mes_payload m') = decode env (h, body) \<and> mesSeq m' = mesSeq m \<and>
    mesBeginTime m' = mesBeginTime m"
proof -
  let ?orig = "dwOrignDataLen h"
  obtain out cap where o: "decode env (h, body) = Some out" "length out = unat ?orig"
      "envAlloc env (unat (parse_output_len ?orig)) = Some cap" "\<not> cap < offset_message_body + length out"
    and cache: "envThreadCache env (parse_buffer_len ?orig) \<or> envAlloc env (nat (parse_buffer_len ?orig)) \<noteq> None"
    using ok np by (auto simp: packet_ok_def Let_def split: option.splits)
  have parse: "envParse env (byEncryptFlag h) (byCompressFlag h) (take (unat (mesDataLen m)) (mesBody m))
      (parse_room h) (parse_buffer_len ?orig) = Some out"
    using o(1) np m(1,2) by (simp add: decode_def)
  let ?m' = "\<lparr>mesAddr = Suc (mesAddr m), mesType = 1, mesDataLen = ?orig,
       mesBeginTime = mesBeginTime m, mesBeginProcessTime = mesBeginTime m,
       mesSeq = mesSeq m, mesProcessedRet = 0, mesBody = out @ replicate (parse_room h - length out) 0\<rparr>"
  let ?c = "c\<lparr>conPacketsInQueue := conPacketsInQueue c + 1,
      conDelivered := conDelivered c @ [?m'], conLive := Suc (mesAddr m) # L, conNextAddr := Suc (Suc (mesAddr m))\<rparr>"
  have "parse_message env m h c = Inr (True, ?c)"
    using rd cache o(2-4) parse m(3,4)
    by (simp add: parse_message_def Let_def receiver_ready_def new_message_addr_def parse_room_def
        free_message_def push_received_message_def add_received_packet_number_def)
  then have "dispatch_packet env h m cur c = Inr (None, ?c)"
    using ok np rd m(2)
    by (auto simp: dispatch_packet_def verify_packet_body_def packet_ok_def plain_def receiver_ready_def)
  then show ?thesis
    using o(1,2) by (intro exI [of _ ?m']) (simp add: mes_payload_def)
qed

lemma complete_packet_ok:
  assumes ok: "packet_ok env (h, body)" and rd: "receiver_ready c"
  shows "\<exists>m. Some (mes_payload m) = decode env (h, body) \<and> mesSeq m = conLastUnpackedSeq c + 1 \<and>
     mesBeginTime m = envNow env \<and>
     complete_packet env n h (partial_message env c h (wire (h, body))) cur (snd (new_message_addr c))
       = (let c' = take_packet h m (drop_used_buffers cur c) in recv_loop env n cur (scan_start c') c')"
proof -
  let ?d = "drop_used_buffers cur c"
  let ?m = "(partial_message env c h (wire (h, body)))\<lparr>mesSeq := conLastUnpackedSeq c + 1\<rparr>"
  let ?c = "(snd (new_message_addr ?d))\<lparr>conLastUnpackedSeq := conLastUnpackedSeq c + 1,
      conEncrypt := byEncryptFlag h, conCompress := byCompressFlag h\<rparr>"
  have fr: "framed env (h, body)" and sum: "check_sum body = dwCheckSum h"
    using ok by (auto simp: packet_ok_def)
  have body: "take (unat (dwDataLen h)) (mesBody ?m) = body"
    using partial_message_payload [OF fr] by simp
  have lu: "conLastUnpackedSeq (snd (new_message_addr c)) = conLastUnpackedSeq c"
    by (simp add: new_message_addr_def)
  have step: "complete_packet env n h (partial_message env c h (wire (h, body))) cur (snd (new_message_addr c))
     = (case dispatch_packet env h ?m cur ?c of
           Inl e \<Rightarrow> Some (Inl e)
         | Inr (Some r, c) \<Rightarrow> Some (Inr (r, c))
         | Inr (None, c) \<Rightarrow> recv_loop env n cur (scan_start c) c)"
    by (simp add: complete_packet_def accept_packet_def Let_def lu drop_used_buffers_commute)
  have rdc: "receiver_ready ?c"
    using rd by (simp add: receiver_ready_def new_message_addr_def drop_used_buffers_def Let_def)
  show ?thesis
  proof (cases "plain h")
    case True
    have "dispatch_packet env h ?m cur ?c = Inr (None, push_received_message True ?m ?c)"
      using rdc body by (intro dispatch_plain [OF fr sum True]) (simp_all add: receiver_ready_def)
    also have "push_received_message True ?m ?c = take_packet h ?m ?d"
      using rdc by (simp add: push_received_message_def add_received_packet_number_def take_packet_def
          receiver_ready_def new_message_addr_def)
    finally show ?thesis
      using body True unfolding step by (intro exI [of _ ?m]) (simp add: mes_payload_def decode_def Let_def)
  next
    case False
    have "conLive ?c = mesAddr ?m # conLive ?d" "conNextAddr ?c = Suc (mesAddr ?m)"
      by (simp_all add: new_message_addr_def)
    from dispatch_coded [OF ok False rdc _ body this, of cur] obtain m' where
      m': "dispatch_packet env h ?m cur ?c = Inr (None, ?c\<lparr>conPacketsInQueue := conPacketsInQueue ?c + 1,
        conDelivered := conDelivered ?c @ [m'], conLive := mesAddr m' # conLive ?d,
        conNextAddr := Suc (mesAddr m')\<rparr>)"
        "Some (mes_payload m') = decode env (h, body)" "mesSeq m' = mesSeq ?m" "mesBeginTime m' = mesBeginTime ?m"
      by auto
    have "?c\<lparr>conPacketsInQueue := conPacketsInQueue ?c + 1,
        conDelivered := conDelivered ?c @ [m'], conLive := mesAddr m' # conLive ?d,
        conNextAddr := Suc (mesAddr m')\<rparr> = take_packet h m' ?d"
      using m'(3) by (simp add: take_packet_def new_message_addr_def)
    then show ?thesis
      using m' unfolding step by (intro exI [of _ m']) (simp add: Let_def)
  qed
qed

section \<open>The read list moves forward\<close>

fun advance :: "nat \<Rightarrow> buffer_obj list \<Rightarrow> buffer_obj list" where
  "advance u [] = []"
| "advance u (b # bs) = b\<lparr>bufCur := bufCur b + u, bufLen := bufLen b - u\<rparr> # bs"

lemma advance_0 [simp]: "advance 0 bs = bs"
  by (cases bs) simp_all

lemma advance_facts [simp]:
  "advance u bs = [] \<longleftrightarrow> bs = []"
  "length (advance u bs) = length bs"
  "advance u (advance v bs) = advance (v + u) bs"
  "end_of bufAddr (advance u bs) = end_of bufAddr bs"
  "contig k (advance u bs) = advance u (contig k bs)"
  by (cases bs; simp add: end_of_def add.assoc)+

lemma drop_advance: "0 < j \<Longrightarrow> drop j (advance u bs) = drop j bs"
  by (cases bs; cases j) simp_all

lemma buffer_left_advance:
  "buffer_wf b \<Longrightarrow> u \<le> bufLen b \<Longrightarrow>
   buffer_left (b\<lparr>bufCur := bufCur b + u, bufLen := bufLen b - u\<rparr>) = drop u (buffer_left b)"
  by (simp add: buffer_left_def drop_take add.commute)

lemma contig_drop:
  "j \<le> length (contig k bs) \<Longrightarrow> contig (k + word_of_nat j) (drop j bs) = drop j (contig k bs)"
proof (induction bs arbitrary: j k)
  case Nil
  then show ?case by simp
next
  case (Cons b bs)
  show ?case
  proof (cases j)
    case 0
    then show ?thesis by simp
  next
    case (Suc i)
    then have "bufSeq b = k + 1" "i \<le> length (contig (k + 1) bs)"
      using Cons.prems by (auto split: if_splits)
    with Cons.IH [of i "k + 1"] Suc show ?thesis by (simp add: add.assoc)
  qed
qed

lemma contig_take: "take (length (contig k bs)) bs = contig k bs"
  by (induction bs arbitrary: k) auto

lemma length_contig_le: "length (contig k bs) \<le> length bs"
  by (induction bs arbitrary: k) auto

text \<open>
  \<open>moved j u bs\<close>: \<open>j\<close> whole buffers and \<open>u\<close> bytes of the next are gone from those that follow
  index \<open>k\<close> without a gap.
\<close>

definition moved :: "u64 \<Rightarrow> buffer_obj list \<Rightarrow> nat \<Rightarrow> nat \<Rightarrow> bool" where
  "moved k bs j u \<longleftrightarrow> j \<le> length (contig k bs) \<and>
     (u = 0 \<or> j < length (contig k bs) \<and> u < bufLen (bs ! j))"

lemma nth_advance: "0 < j \<Longrightarrow> advance u bs ! j = bs ! j"
  by (cases bs; cases j) simp_all

lemma moved_contig0:
  "moved k bs j u \<Longrightarrow> contig (k + word_of_nat j) (drop j bs) = drop j (contig k bs)"
  by (simp add: moved_def contig_drop)

lemma moved_contig:
  "moved k bs j u \<Longrightarrow> contig (k + word_of_nat j) (advance u (drop j bs)) = advance u (drop j (contig k bs))"
  by (simp add: moved_def contig_drop)

lemma moved_trans:
  assumes "moved k bs j u" and "moved (k + word_of_nat j) (advance u (drop j bs)) j' u'"
  shows "moved k bs (j + j') (if j' = 0 then u + u' else u') \<and>
     advance u' (drop j' (advance u (drop j bs))) =
       advance (if j' = 0 then u + u' else u') (drop (j + j') bs)"
proof (cases "j' = 0")
  case True
  note cg = moved_contig0 [OF assms(1)]
  show ?thesis
  proof (cases "j < length (contig k bs)")
    case less: True
    then have "drop j bs = bs ! j # drop (Suc j) bs"
      using length_contig_le [of k bs] by (simp add: Cons_nth_drop_Suc)
    with True less assms cg show ?thesis by (auto simp: moved_def)
  next
    case False
    with True assms cg show ?thesis by (auto simp: moved_def)
  qed
next
  case False
  with assms length_contig_le [of k bs] moved_contig0 [OF assms(1)] show ?thesis
    by (auto simp: moved_def drop_advance nth_advance add.commute)
qed

lemma moved_finish:
  assumes bs: "bs = pre @ b # rest" and t: "0 < t" "t \<le> bufLen b" and wf: "buffer_wf b"
    and cg: "contig k bs = pre @ b # contig (k + word_of_nat (length pre) + 1) rest"
  shows "\<exists>j u. moved k bs j u \<and> finish_buffer b (bufCur b + t) rest = advance u (drop j bs) \<and>
     length bs - length (finish_buffer b (bufCur b + t) rest) = j \<and>
     left_bytes (contig k bs) = (left_bytes pre @ take t (buffer_left b)) @
       left_bytes (contig (k + word_of_nat j) (finish_buffer b (bufCur b + t) rest))"
proof (cases "t = bufLen b")
  case True
  have "moved k bs (Suc (length pre)) 0" by (simp add: moved_def cg)
  moreover have "finish_buffer b (bufCur b + t) rest = rest"
    using True by (simp add: finish_buffer_def)
  moreover have "k + word_of_nat (Suc (length pre)) = k + word_of_nat (length pre) + 1"
    by simp
  ultimately have "moved k bs (Suc (length pre)) 0 \<and>
     finish_buffer b (bufCur b + t) rest = advance 0 (drop (Suc (length pre)) bs) \<and>
     length bs - length (finish_buffer b (bufCur b + t) rest) = Suc (length pre) \<and>
     left_bytes (contig k bs) = (left_bytes pre @ take t (buffer_left b)) @
       left_bytes (contig (k + word_of_nat (Suc (length pre))) (finish_buffer b (bufCur b + t) rest))"
    using True length_buffer_left [OF wf] by (simp add: cg) (simp add: bs add.commute add.left_commute)
  then show ?thesis by blast
next
  case False
  then have lt: "t < bufLen b" using t by simp
  have mv: "moved k bs (length pre) t" using lt by (simp add: moved_def cg) (simp add: bs)
  have fin: "finish_buffer b (bufCur b + t) rest = advance t (drop (length pre) bs)"
    using lt by (simp add: finish_buffer_def bs)
  have "left_bytes (contig k bs) = (left_bytes pre @ take t (buffer_left b)) @
       left_bytes (advance t (drop (length pre) (contig k bs)))"
    using buffer_left_advance [OF wf, of t] lt unfolding cg by simp
  then have "moved k bs (length pre) t \<and>
     finish_buffer b (bufCur b + t) rest = advance t (drop (length pre) bs) \<and>
     length bs - length (finish_buffer b (bufCur b + t) rest) = length pre \<and>
     left_bytes (contig k bs) = (left_bytes pre @ take t (buffer_left b)) @
       left_bytes (contig (k + word_of_nat (length pre)) (finish_buffer b (bufCur b + t) rest))"
    using mv fin by (intro conjI) (simp_all only: moved_contig [OF mv], simp_all add: bs)
  then show ?thesis by blast
qed

section \<open>The loop over many packets\<close>

text \<open>
  \<open>received env ps c c'\<close>: between \<open>c\<close> and \<open>c'\<close> the packet callback got the decoded bodies of \<open>ps\<close>, in
  order, with consecutive sequence numbers.
\<close>

definition received :: "recv_env \<Rightarrow> (packet_header \<times> byte list) list \<Rightarrow> connection \<Rightarrow> connection \<Rightarrow> bool" where
  "received env ps c c' \<longleftrightarrow> (\<exists>ms. conDelivered c' = conDelivered c @ ms \<and>
     map (\<lambda>m. Some (mes_payload m)) ms = map (decode env) ps \<and>
     map mesSeq ms = map (\<lambda>i. conLastUnpackedSeq c + word_of_nat i + 1) [0..<length ps]) \<and>
     conLastUnpackedSeq c' = conLastUnpackedSeq c + word_of_nat (length ps) \<and>
     conPacketsInQueue c' = conPacketsInQueue c + word_of_nat (length ps) \<and>
     (receiver_ready c \<longrightarrow> receiver_ready c')"

lemma received_Nil: "received env [] c c' \<longleftrightarrow> conDelivered c' = conDelivered c \<and>
    conLastUnpackedSeq c' = conLastUnpackedSeq c \<and> conPacketsInQueue c' = conPacketsInQueue c \<and>
    (receiver_ready c \<longrightarrow> receiver_ready c')"
  by (auto simp: received_def)

lemma map_upt_shift: "map f [a..<a + n] = map (\<lambda>i. f (a + i)) [0..<n]"
  by (induction n) simp_all

lemma received_append:
  assumes "received env ps c c'" and "received env qs c' c''"
  shows "received env (ps @ qs) c c''"
proof -
  obtain ms where ms: "conDelivered c' = conDelivered c @ ms"
      "map (\<lambda>m. Some (mes_payload m)) ms = map (decode env) ps"
      "map mesSeq ms = map (\<lambda>i. conLastUnpackedSeq c + word_of_nat i + 1) [0..<length ps]"
    using assms(1) by (auto simp: received_def)
  obtain ns where ns: "conDelivered c'' = conDelivered c' @ ns"
      "map (\<lambda>m. Some (mes_payload m)) ns = map (decode env) qs"
      "map mesSeq ns = map (\<lambda>i. conLastUnpackedSeq c' + word_of_nat i + 1) [0..<length qs]"
    using assms(2) by (auto simp: received_def)
  have lu: "conLastUnpackedSeq c' = conLastUnpackedSeq c + word_of_nat (length ps)"
    using assms(1) by (simp add: received_def)
  have seqs: "map mesSeq (ms @ ns)
      = map (\<lambda>i. conLastUnpackedSeq c + word_of_nat i + 1) [0..<length (ps @ qs)]"
    unfolding length_append upt_add_eq_append [OF le0] map_append map_upt_shift of_nat_add ms(3) ns(3) lu
      append_same_eq add_0_left same_append_eq by (rule map_cong [OF refl]) (simp only: add.assoc)
  have "conDelivered c'' = conDelivered c @ ms @ ns"
      "map (\<lambda>m. Some (mes_payload m)) (ms @ ns) = map (decode env) (ps @ qs)"
    using ms(1,2) ns(1,2) by simp_all
  with seqs have "\<exists>ms. conDelivered c'' = conDelivered c @ ms \<and>
     map (\<lambda>m. Some (mes_payload m)) ms = map (decode env) (ps @ qs) \<and>
     map mesSeq ms = map (\<lambda>i. conLastUnpackedSeq c + word_of_nat i + 1) [0..<length (ps @ qs)]"
    by blast
  with assms lu show ?thesis unfolding received_def by (simp add: add.assoc)
qed

lemma received_take_packet:
  assumes "Some (mes_payload m) = decode env p" and "mesSeq m = conLastUnpackedSeq c + 1"
  shows "received env [p] c (take_packet h m (drop_used_buffers cur c))"
proof -
  have "receiver_ready (take_packet h m d) = receiver_ready d" for d
    by (simp add: receiver_ready_def take_packet_def)
  then show ?thesis
    using assms unfolding received_def
    by (intro conjI exI [of _ "[m]"]) (simp_all, simp_all add: take_packet_def)
qed

lemma readdressed_fields:
  "readdressed c c' \<Longrightarrow> conReadBuf c' = conReadBuf c \<and> conReadBufEnd c' = conReadBufEnd c \<and>
     conLastProcessBufferIndex c' = conLastProcessBufferIndex c \<and> received env [] c c'"
  by (auto simp: readdressed_def received_Nil receiver_ready_def)

text \<open>
  The state behind a run of the loop: \<open>d\<close> packets of \<open>ps\<close> were complete, the list has moved by their
  bytes, and what is left of the buffers that follow each other is a part of the next packet.
\<close>

definition consumed :: "recv_env \<Rightarrow> (packet_header \<times> byte list) list \<Rightarrow> connection \<Rightarrow> nat \<Rightarrow> connection \<Rightarrow> bool" where
  "consumed env ps c d c' \<longleftrightarrow> d \<le> length ps \<and> received env (take d ps) c c' \<and>
     (\<exists>j u. moved (conLastProcessBufferIndex c) (conReadBuf c) j u \<and>
        conReadBuf c' = advance u (drop j (conReadBuf c)) \<and>
        conLastProcessBufferIndex c' = conLastProcessBufferIndex c + word_of_nat j) \<and>
     conReadBufEnd c' = end_of bufAddr (conReadBuf c') \<and>
     stream_of (take d ps) @ left_bytes (contig (conLastProcessBufferIndex c') (conReadBuf c'))
       = left_bytes (contig (conLastProcessBufferIndex c) (conReadBuf c)) \<and>
     (d < length ps \<longrightarrow> length (left_bytes (contig (conLastProcessBufferIndex c') (conReadBuf c')))
        < length (wire (ps ! d)))"

lemma consumed_readdressed:
  assumes "readdressed c c'" and "conReadBufEnd c = end_of bufAddr (conReadBuf c)"
    and "ps \<noteq> [] \<Longrightarrow> length (left_bytes (contig (conLastProcessBufferIndex c) (conReadBuf c)))
        < length (wire (hd ps))"
  shows "consumed env ps c 0 c'"
proof -
  have "moved (conLastProcessBufferIndex c) (conReadBuf c) 0 0" by (simp add: moved_def)
  then have "\<exists>j u. moved (conLastProcessBufferIndex c) (conReadBuf c) j u \<and>
        conReadBuf c' = advance u (drop j (conReadBuf c)) \<and>
        conLastProcessBufferIndex c' = conLastProcessBufferIndex c + word_of_nat j"
    using readdressed_fields [OF assms(1)] by (intro exI [of _ "0 :: nat"]) simp
  then show ?thesis
    using readdressed_fields [OF assms(1)] assms(2,3) unfolding consumed_def
    by (cases ps) simp_all
qed

lemma consumed_step:
  assumes first: "received env qs c c1"
    and mv: "moved (conLastProcessBufferIndex c) (conReadBuf c) j u"
      "conReadBuf c1 = advance u (drop j (conReadBuf c))"
      "conLastProcessBufferIndex c1 = conLastProcessBufferIndex c + word_of_nat j"
    and bytes: "left_bytes (contig (conLastProcessBufferIndex c) (conReadBuf c))
      = stream_of qs @ left_bytes (contig (conLastProcessBufferIndex c1) (conReadBuf c1))"
    and rest: "consumed env ps c1 d c'"
  shows "consumed env (qs @ ps) c (length qs + d) c'"
proof -
  obtain j' u' where r: "moved (conLastProcessBufferIndex c1) (conReadBuf c1) j' u'"
        "conReadBuf c' = advance u' (drop j' (conReadBuf c1))"
        "conLastProcessBufferIndex c' = conLastProcessBufferIndex c1 + word_of_nat j'"
    using rest by (auto simp: consumed_def)
  note tr = moved_trans [OF mv(1) r(1) [unfolded mv(2,3)]]
  have "conReadBuf c' = advance (if j' = 0 then u + u' else u') (drop (j + j') (conReadBuf c))"
    using tr unfolding r(2) mv(2) by blast
  moreover have "conLastProcessBufferIndex c' = conLastProcessBufferIndex c + word_of_nat (j + j')"
    unfolding r(3) mv(3) by (simp add: add.assoc)
  ultimately have "\<exists>j u. moved (conLastProcessBufferIndex c) (conReadBuf c) j u \<and>
        conReadBuf c' = advance u (drop j (conReadBuf c)) \<and>
        conLastProcessBufferIndex c' = conLastProcessBufferIndex c + word_of_nat j"
    using tr by blast
  moreover have "received env (take (length qs + d) (qs @ ps)) c c'"
    using received_append [OF first, of "take d ps" c'] rest by (simp add: consumed_def)
  ultimately show ?thesis
    using rest bytes unfolding consumed_def by (simp add: nth_append)
qed

lemma recv_loop_packets:
  assumes "receiver_ready c" and "\<forall>b\<in>set (conReadBuf c). buffer_wf b"
    and "conReadBufEnd c = end_of bufAddr (conReadBuf c)"
    and "recv_fuel (conReadBuf c) \<le> n" and "\<forall>p\<in>set ps. packet_ok env p"
    and "left_bytes (contig (conLastProcessBufferIndex c) (conReadBuf c)) @ X = stream_of ps"
  shows "\<exists>d c'. recv_loop env n (conReadBuf c) (scan_start c) c = Some (Inr (0, c')) \<and> consumed env ps c d c'"
  using assms
proof (induction ps arbitrary: c n)
  case Nil
  have "scan_rel env undefined [] c (scan_start c) c" by (rule scan_rel_start)
  from recv_loop_incomplete [OF this Nil.prems(2,4)] Nil.prems(6)
  obtain c' where "recv_loop env n (conReadBuf c) (scan_start c) c = Some (Inr (0, c'))" "readdressed c c'"
    by (auto simp: scan_start_def)
  then show ?case using consumed_readdressed [OF _ Nil.prems(3), of c' "[]" env] by auto
next
  case (Cons p ps)
  obtain h body where p: "p = (h, body)" by (cases p)
  have ok: "packet_ok env (h, body)" using Cons.prems(5) p by simp
  then have fr: "framed env (h, body)" by (simp add: packet_ok_def)
  let ?k = "conLastProcessBufferIndex c"
  let ?D = "left_bytes (contig ?k (conReadBuf c))"
  have idx: "scanIndex (scan_start c) = ?k" by (simp add: scan_start_def)
  note rel = scan_rel_start [of env h c]
  have split: "?D @ X = wire (h, body) @ stream_of ps" using Cons.prems(6) p by simp
  show ?case
  proof (cases "length ?D < length (wire (h, body))")
    case True
    define Z where "Z = drop (length ?D) (wire (h, body))"
    have "?D = take (length ?D) (wire (h, body) @ stream_of ps)" unfolding split [symmetric] by simp
    also have "\<dots> = take (length ?D) (wire (h, body))" using True by simp
    finally have "?D @ Z = wire (h, body)" unfolding Z_def by (metis append_take_drop_id)
    moreover have "Z \<noteq> []" using True by (simp add: Z_def)
    ultimately obtain c' where c': "recv_loop env n (conReadBuf c) (scan_start c) c = Some (Inr (0, c'))"
        "readdressed c c'"
      using recv_loop_incomplete [OF rel Cons.prems(2,4), of body] fr unfolding idx by auto
    have "length ?D < length (wire (hd (p # ps)))" using True p by simp
    from consumed_readdressed [OF c'(2) Cons.prems(3) this] c'(1) show ?thesis by blast
  next
    case False
    define Y where "Y = drop (length (wire (h, body))) ?D"
    have "take (length (wire (h, body))) (?D @ X) = wire (h, body)" unfolding split by simp
    then have D: "?D = wire (h, body) @ Y"
      using False unfolding Y_def by (metis append_take_drop_id not_less take_append take0 diff_is_0_eq append_Nil2)
    have "length [] < length (wire (h, body))" by (simp add: sizes)
    from recv_loop_complete [OF rel Cons.prems(2,4) fr this, unfolded idx append_Nil, OF D]
    obtain pre b rest t m where it: "conReadBuf c = pre @ b # rest" "0 < t" "t \<le> bufLen b"
        "contig ?k (conReadBuf c) = pre @ b # contig (?k + word_of_nat (length pre) + 1) rest"
        "left_bytes pre @ take t (buffer_left b) = wire (h, body)"
        "recv_fuel (finish_buffer b (bufCur b + t) rest) \<le> m"
        "recv_loop env n (conReadBuf c) (scan_start c) c = complete_packet env m h
           (partial_message env c h (wire (h, body))) (finish_buffer b (bufCur b + t) rest)
           (snd (new_message_addr c))"
      by blast
    let ?cur = "finish_buffer b (bufCur b + t) rest"
    have wfb: "buffer_wf b" using Cons.prems(2) it(1) by simp
    obtain j u where fin: "moved ?k (conReadBuf c) j u" "?cur = advance u (drop j (conReadBuf c))"
        "length (conReadBuf c) - length ?cur = j"
        "?D = wire (h, body) @ left_bytes (contig (?k + word_of_nat j) ?cur)"
      using moved_finish [OF it(1-3) wfb it(4)] unfolding it(5) by blast
    obtain m1 where m1: "Some (mes_payload m1) = decode env (h, body)"
        "mesSeq m1 = conLastUnpackedSeq c + 1"
        "recv_loop env n (conReadBuf c) (scan_start c) c
           = (let c' = take_packet h m1 (drop_used_buffers ?cur c) in recv_loop env m ?cur (scan_start c') c')"
      using complete_packet_ok [OF ok Cons.prems(1), of m ?cur] unfolding it(7) by blast
    define c1 where "c1 = take_packet h m1 (drop_used_buffers ?cur c)"
    have c1: "conReadBuf c1 = ?cur" "conLastProcessBufferIndex c1 = ?k + word_of_nat j"
        "conReadBufEnd c1 = (if ?cur = [] then None else conReadBufEnd c)"
      using fin(3) by (simp_all add: c1_def take_packet_def)
    have rec: "received env [p] c c1" unfolding c1_def p using m1(1,2) by (rule received_take_packet)
    have end1: "conReadBufEnd c1 = end_of bufAddr (conReadBuf c1)"
      using Cons.prems(3) it(1-3) unfolding c1 by (auto simp: end_of_def finish_buffer_def split: if_splits)
    have wf1: "\<forall>b\<in>set (conReadBuf c1). buffer_wf b"
      using Cons.prems(2) it(1-3) unfolding c1 by (auto simp: finish_buffer_def buffer_wf_def split: if_splits)
    have "wire (h, body) @ left_bytes (contig (conLastProcessBufferIndex c1) (conReadBuf c1)) @ X
        = wire (h, body) @ stream_of ps"
      using split unfolding fin(4) c1 by simp
    then have str1: "left_bytes (contig (conLastProcessBufferIndex c1) (conReadBuf c1)) @ X = stream_of ps"
      by simp
    have rd1: "receiver_ready c1" using rec Cons.prems(1) by (simp add: received_def)
    have fuel1: "recv_fuel (conReadBuf c1) \<le> m" using it(6) c1 by simp
    have ok1: "\<forall>p\<in>set ps. packet_ok env p" using Cons.prems(5) by simp
    obtain d c' where c': "recv_loop env m (conReadBuf c1) (scan_start c1) c1 = Some (Inr (0, c'))"
        "consumed env ps c1 d c'"
      using Cons.IH [OF rd1 wf1 end1 fuel1 ok1 str1] by blast
    have "consumed env (p # ps) c (Suc d) c'"
      using fin(4) consumed_step [OF rec fin(1) _ c1(2) _ c'(2)] by (simp add: c1 fin(2) p)
    moreover have "recv_loop env n (conReadBuf c) (scan_start c) c = Some (Inr (0, c'))"
      using m1(3) c'(1) c1(1) unfolding c1_def [symmetric] Let_def by simp
    ultimately show ?thesis by blast
  qed
qed

end
