(* ===== verification/Delivery.thy ===== *)
theory Delivery imports Main Receive_Order "HOL-Library.Multiset" begin

text \<open>
  Many calls of \<open>RecvPacket\<close>, one per received buffer, in the order in which the worker threads
  get the lock: the main properties of the receive path.
\<close>

section \<open>Calls\<close>

fun recv_calls :: "recv_env \<Rightarrow> (int \<times> buffer_obj) list \<Rightarrow> connection \<Rightarrow> (int \<times> connection) res option" where
  "recv_calls env [] c = Some (Inr (0, c))"
| "recv_calls env ((now, b) # calls) c =
     (case recv_packet (env\<lparr>envNow := now\<rparr>) (Some b) c of
        None \<Rightarrow> None
      | Some (Inl e) \<Rightarrow> Some (Inl e)
      | Some (Inr (r, c)) \<Rightarrow> if r = 0 then recv_calls env calls c else Some (Inr (r, c)))"

lemma env_now_irrelevant [simp]:
  "decode (env\<lparr>envNow := t\<rparr>) = decode env"
  "packet_ok (env\<lparr>envNow := t\<rparr>) = packet_ok env"
  "received (env\<lparr>envNow := t\<rparr>) = received env"
  "consumed (env\<lparr>envNow := t\<rparr>) = consumed env"
proof -
  show 1: "decode (env\<lparr>envNow := t\<rparr>) = decode env" by (simp add: decode_def fun_eq_iff)
  have "framed (env\<lparr>envNow := t\<rparr>) = framed env"
    by (simp add: framed_def alloc_ok_def fun_eq_iff)
  then show "packet_ok (env\<lparr>envNow := t\<rparr>) = packet_ok env"
    by (simp add: packet_ok_def fun_eq_iff 1)
  show 2: "received (env\<lparr>envNow := t\<rparr>) = received env"
    by (simp add: received_def fun_eq_iff 1)
  show "consumed (env\<lparr>envNow := t\<rparr>) = consumed env"
    by (simp add: consumed_def fun_eq_iff 2)
qed

section \<open>Numbered buffers\<close>

definition numbered :: "buffer_obj list \<Rightarrow> bool" where
  "numbered bs \<longleftrightarrow> map bufSeq bs = map (\<lambda>i. word_of_nat (Suc i)) [0..<length bs] \<and> length bs < 2 ^ 64 - 1"

lemma word_of_nat_less_64: "m < 2 ^ 64 \<Longrightarrow> n < 2 ^ 64 \<Longrightarrow> (word_of_nat m :: u64) < word_of_nat n \<longleftrightarrow> m < n"
  by (simp add: word_less_nat_alt unat_of_nat)

lemma numbered_nth: "numbered bs \<Longrightarrow> i < length bs \<Longrightarrow> bufSeq (bs ! i) = word_of_nat (Suc i)"
  unfolding numbered_def using nth_map [of i bs bufSeq] nth_map [of i "[0..<length bs]" "\<lambda>i. word_of_nat (Suc i) :: u64"]
  by simp

lemma numbered_ordered: "numbered bs \<Longrightarrow> ordered bufSeq bs"
  unfolding ordered_def sorted_wrt_iff_nth_less
  by (auto simp: numbered_nth word_of_nat_less_64 numbered_def simp del: of_nat_Suc)

lemma contig_nth: "i < length (contig k bs) \<Longrightarrow> contig k bs ! i = bs ! i \<and> bufSeq (bs ! i) = k + word_of_nat (Suc i)"
proof (induction bs arbitrary: i k)
  case Nil
  then show ?case by simp
next
  case (Cons b bs)
  then show ?case
    by (cases i) (auto simp: add.assoc split: if_splits)
qed

lemma contig_full:
  "\<forall>i<length bs. bufSeq (bs ! i) = k + word_of_nat (Suc i) \<Longrightarrow> contig k bs = bs"
proof (induction bs arbitrary: k)
  case Nil
  then show ?case by simp
next
  case (Cons b bs)
  have "bufSeq b = k + 1" using Cons.prems by auto
  moreover have "\<forall>i<length bs. bufSeq (bs ! i) = (k + 1) + word_of_nat (Suc i)"
    using Cons.prems by (auto simp: add.assoc)
  ultimately show ?case using Cons.IH [of "k + 1"] by simp
qed

lemma contig_numbered: "numbered bs \<Longrightarrow> contig 0 bs = bs"
  using contig_full [of bs 0] numbered_nth [of bs] by simp

text \<open>The buffers that arrived and follow each other from the first are the first buffers.\<close>

lemma contig_prefix:
  assumes bs: "numbered bs" and arr: "set arr \<subseteq> set bs" and len: "length arr \<le> length bs"
  shows "contig 0 arr = take (length (contig 0 arr)) bs"
proof (rule nth_equalityI)
  have le: "length (contig 0 arr) \<le> length bs" using length_contig_le [of 0 arr] len by simp
  then show "length (contig 0 arr) = length (take (length (contig 0 arr)) bs)" by simp
  fix i assume i: "i < length (contig 0 arr)"
  then have c: "contig 0 arr ! i = arr ! i" "bufSeq (arr ! i) = word_of_nat (Suc i)"
    using contig_nth [OF i] by simp_all
  have "arr ! i \<in> set bs" using arr i length_contig_le [of 0 arr] by auto
  then obtain m where m: "m < length bs" "arr ! i = bs ! m" by (auto simp: in_set_conv_nth)
  have "(word_of_nat (Suc i) :: u64) = word_of_nat (Suc m)"
    using c(2) numbered_nth [OF bs m(1)] m(2) by simp
  then have "unat (word_of_nat (Suc i) :: u64) = unat (word_of_nat (Suc m) :: u64)" by simp
  then have "i = m"
    using i m(1) le bs by (simp add: unat_of_nat numbered_def del: of_nat_Suc)
  then show "contig 0 arr ! i = take (length (contig 0 arr)) bs ! i"
    using c m i by simp
qed

section \<open>One more buffer\<close>

lemma insert_by_append:
  "\<forall>y\<in>set ps. \<not> key x < key y \<Longrightarrow> insert_by key x (ps @ qs) = ps @ insert_by key x qs"
  by (induction ps) simp_all

lemma contig_append:
  "contig k ps = ps \<Longrightarrow> contig k (ps @ qs) = ps @ contig (k + word_of_nat (length ps)) qs"
  by (induction ps arbitrary: k) (auto simp: add.assoc split: if_splits)

text \<open>A new sequence number is behind those that already follow each other from 1.\<close>

lemma new_behind_contig:
  assumes new: "bufSeq x \<notin> bufSeq ` set arr" "bufSeq x \<noteq> 0" and len: "length arr < 2 ^ 64 - 1"
    and y: "y \<in> set (contig 0 arr)"
  shows "\<not> bufSeq x < bufSeq y"
proof
  assume less: "bufSeq x < bufSeq y"
  obtain i where i: "i < length (contig 0 arr)" "y = contig 0 arr ! i"
    using y by (auto simp: in_set_conv_nth)
  have ia: "i < length arr" using i(1) length_contig_le [of 0 arr] by simp
  have yi: "bufSeq y = word_of_nat (Suc i)" using contig_nth [OF i(1)] i(2) by simp
  define m where "m = unat (bufSeq x)"
  have "0 < m" using new(2) by (simp add: m_def unat_gt_0)
  have "m < Suc i"
    using less yi ia len by (simp add: word_less_nat_alt m_def unat_of_nat del: of_nat_Suc)
  with \<open>0 < m\<close> obtain j where j: "m = Suc j" "j < i" by (cases m) auto
  then have "j < length (contig 0 arr)" using i(1) by simp
  from contig_nth [OF this] have "bufSeq (arr ! j) = word_of_nat m" using j(1) by simp
  also have "\<dots> = bufSeq x" by (simp add: m_def)
  finally show False using new(1) j(2) ia by (metis image_eqI nth_mem less_trans)
qed

text \<open>The bytes that are gone when the list has moved.\<close>

definition moved_bytes :: "buffer_obj list \<Rightarrow> nat \<Rightarrow> nat \<Rightarrow> byte list" where
  "moved_bytes bs j u = left_bytes (take j bs) @ (if u = 0 then [] else take u (buffer_left (bs ! j)))"

lemma moved_insert:
  assumes new: "bufSeq x \<notin> bufSeq ` set arr" "bufSeq x \<noteq> 0" "length arr < 2 ^ 64 - 1"
    and mv: "moved 0 arr j u"
  shows "moved 0 (insert_by bufSeq x arr) j u \<and>
    insert_by bufSeq x (advance u (drop j arr)) = advance u (drop j (insert_by bufSeq x arr)) \<and>
    moved_bytes (insert_by bufSeq x arr) j u = moved_bytes arr j u"
proof -
  let ?P = "contig 0 arr" and ?Q = "drop (length (contig 0 arr)) arr"
  have arr: "arr = ?P @ ?Q" using contig_take [of 0 arr] by (metis append_take_drop_id)
  have behind: "\<forall>y\<in>set ?P. \<not> bufSeq x < bufSeq y" using new_behind_contig [OF new] by blast
  then have ins: "insert_by bufSeq x arr = ?P @ insert_by bufSeq x ?Q"
    by (subst arr) (rule insert_by_append)
  have PP: "contig 0 ?P = ?P"
    by (rule contig_full) (use contig_nth [of _ 0 arr] in auto)
  have longer: "length ?P \<le> length (contig 0 (insert_by bufSeq x arr))"
    unfolding ins contig_append [OF PP] by simp
  have nth: "insert_by bufSeq x arr ! j = arr ! j" if "j < length ?P"
    using that by (subst (2) arr) (simp add: ins nth_append)
  have "moved 0 (insert_by bufSeq x arr) j u"
    using mv longer nth by (auto simp: moved_def)
  moreover have "insert_by bufSeq x (advance u (drop j arr)) = advance u (drop j (insert_by bufSeq x arr))"
  proof (cases "j < length ?P")
    case True
    then have d: "drop j arr = drop j ?P @ ?Q" by (subst arr) simp
    have "drop j ?P \<noteq> []" using True by simp
    then obtain b bs where b: "drop j ?P = b # bs" by (cases "drop j ?P") auto
    have "\<forall>y\<in>set (b # bs). \<not> bufSeq x < bufSeq y"
      using behind b by (metis in_set_dropD)
    then show ?thesis
      using True unfolding d ins by (simp add: b insert_by_append)
  next
    case False
    then have "j = length ?P" "u = 0" using mv by (auto simp: moved_def)
    then show ?thesis by (simp add: ins)
  qed
  moreover have "moved_bytes (insert_by bufSeq x arr) j u = moved_bytes arr j u"
  proof -
    have "take j (insert_by bufSeq x arr) = take j arr"
      using mv by (subst (2) arr) (simp add: ins moved_def)
    then show ?thesis using mv nth by (auto simp: moved_bytes_def moved_def)
  qed
  ultimately show ?thesis by blast
qed

lemma map_bufSeq_advance [simp]: "map bufSeq (advance u bs) = map bufSeq bs"
  by (cases bs) simp_all

lemma ordered_map: "ordered bufSeq bs \<longleftrightarrow> sorted_wrt (<) (map bufSeq bs)"
  by (simp add: ordered_def sorted_wrt_map)

lemma advance_drop_facts:
  assumes "ordered bufSeq arr" and "bufSeq x \<notin> bufSeq ` set arr"
  shows "ordered bufSeq (advance u (drop j arr))" "bufSeq x \<notin> bufSeq ` set (advance u (drop j arr))"
proof -
  show "ordered bufSeq (advance u (drop j arr))"
    using assms(1) by (simp add: ordered_map drop_map [symmetric] sorted_wrt_drop)
  have "bufSeq ` set (advance u (drop j arr)) = set (map bufSeq (drop j arr))"
    by (metis list.set_map map_bufSeq_advance)
  then show "bufSeq x \<notin> bufSeq ` set (advance u (drop j arr))"
    using assms(2) by (auto dest: in_set_dropD)
qed

lemma wf_advance:
  assumes "\<forall>b\<in>set arr. buffer_wf b" and "moved k arr j u"
  shows "\<forall>b\<in>set (advance u (drop j arr)). buffer_wf b"
proof (cases "drop j arr")
  case Nil
  then show ?thesis by simp
next
  case (Cons b bs)
  have j: "j < length arr"
  proof (rule ccontr)
    assume "\<not> j < length arr"
    then have "drop j arr = []" by simp
    with Cons show False by simp
  qed
  then have b: "b = arr ! j" using Cons by (metis Cons_nth_drop_Suc list.inject)
  then have "u \<le> bufLen b" using assms(2) by (auto simp: moved_def)
  moreover have "\<forall>b\<in>set (b # bs). buffer_wf b" using assms(1) Cons by (metis in_set_dropD)
  ultimately show ?thesis by (auto simp: Cons buffer_wf_def)
qed

lemma contig_moved_bytes:
  assumes mv: "moved k bs j u" and wf: "\<forall>b\<in>set bs. buffer_wf b"
  shows "left_bytes (contig k bs)
    = moved_bytes bs j u @ left_bytes (contig (k + word_of_nat j) (advance u (drop j bs)))"
proof -
  have le: "j \<le> length (contig k bs)" using mv by (simp add: moved_def)
  have tk: "take j (contig k bs) = take j bs"
    using contig_take [of k bs] le by (metis min.absorb1 take_take)
  have "left_bytes (contig k bs) = left_bytes (take j bs) @ left_bytes (drop j (contig k bs))"
    using tk by (metis append_take_drop_id left_bytes_simps(3))
  moreover have "left_bytes (drop j (contig k bs)) = take u (buffer_left (bs ! j)) @
      left_bytes (advance u (drop j (contig k bs)))" if "u \<noteq> 0"
  proof -
    have j: "j < length (contig k bs)" "u < bufLen (bs ! j)" using mv that by (auto simp: moved_def)
    then have "contig k bs ! j = bs ! j" using contig_nth by blast
    with j(1) have d: "drop j (contig k bs) = bs ! j # drop (Suc j) (contig k bs)"
      by (metis Cons_nth_drop_Suc)
    have "bs ! j \<in> set bs" using j(1) length_contig_le [of k bs] by simp
    then show ?thesis using wf j(2) by (simp add: d buffer_left_advance)
  qed
  ultimately show ?thesis
    unfolding moved_contig [OF mv] moved_bytes_def by simp
qed

lemma recv_packet_step:
  assumes inv: "consumed env ps (c0\<lparr>conReadBuf := arr\<rparr>) d c" and rd: "receiver_ready c0"
    and k0: "conLastProcessBufferIndex c0 = 0"
    and arr: "ordered bufSeq arr" "\<forall>b\<in>set (x # arr). buffer_wf b" "length arr < 2 ^ 64 - 1"
    and new: "bufSeq x \<notin> bufSeq ` set arr" "bufSeq x \<noteq> 0"
    and ok: "\<forall>p\<in>set ps. packet_ok env p"
    and X: "left_bytes (contig 0 (insert_by bufSeq x arr)) @ X = stream_of ps"
  shows "\<exists>c' d'. recv_packet env (Some x) c = Some (Inr (0, c')) \<and>
    consumed env ps (c0\<lparr>conReadBuf := insert_by bufSeq x arr\<rparr>) d' c'"
proof -
  let ?c0 = "c0\<lparr>conReadBuf := insert_by bufSeq x arr\<rparr>"
  obtain j u where i: "d \<le> length ps" "received env (take d ps) (c0\<lparr>conReadBuf := arr\<rparr>) c"
      "moved 0 arr j u" "conReadBuf c = advance u (drop j arr)" "conLastProcessBufferIndex c = word_of_nat j"
      "conReadBufEnd c = end_of bufAddr (conReadBuf c)"
      "stream_of (take d ps) @ left_bytes (contig (conLastProcessBufferIndex c) (conReadBuf c))
         = left_bytes (contig 0 arr)"
    using inv k0 by (auto simp: consumed_def)
  note mv = moved_insert [OF new arr(3) i(3)]
  define c1 where "c1 = (record_packet_time (envNow env) c)\<lparr>
      conReadBuf := insert_by bufSeq x (conReadBuf c),
      conReadBufEnd := end_of bufAddr (insert_by bufSeq x (conReadBuf c)),
      conBuffersInList := conBuffersInList c + 1, conPostedRecv := conPostedRecv c - 1\<rparr>"
  have "push_received_buffer (envNow env) (Some x) c = Inr (True, c1)"
    using push_seq_insert [OF advance_drop_facts [OF arr(1) new(1), where u = u and j = j], where adr = bufAddr]
    by (simp add: push_received_buffer_def c1_def i(4,6) Let_def record_packet_time_def)
  moreover have "conServer c"
    using i(2) rd by (auto simp: received_def receiver_ready_def)
  ultimately have call: "recv_packet env (Some x) c
      = recv_loop env (recv_fuel (conReadBuf c1)) (conReadBuf c1) (scan_start c1) c1"
    by (simp add: recv_packet_def)
  have c1: "conReadBuf c1 = advance u (drop j (insert_by bufSeq x arr))"
      "conLastProcessBufferIndex c1 = word_of_nat j" "conReadBufEnd c1 = end_of bufAddr (conReadBuf c1)"
    using mv i(4,5) by (simp_all add: c1_def record_packet_time_def)
  have rec: "received env (take d ps) ?c0 c1"
    using i(2) by (simp add: received_def c1_def record_packet_time_def receiver_ready_def)
  then have rd1: "receiver_ready c1" using rd by (simp add: received_def receiver_ready_def)
  have wf: "\<forall>b\<in>set (insert_by bufSeq x arr). buffer_wf b" using arr(2) by simp
  have wf1: "\<forall>b\<in>set (conReadBuf c1). buffer_wf b"
    unfolding c1(1) using wf mv by (intro wf_advance) auto
  have bytes: "left_bytes (contig 0 (insert_by bufSeq x arr)) = stream_of (take d ps) @
      left_bytes (contig (conLastProcessBufferIndex c1) (conReadBuf c1))"
  proof -
    have wfa: "\<forall>b\<in>set arr. buffer_wf b" using arr(2) by simp
    have "stream_of (take d ps) = moved_bytes arr j u"
      using i(7) contig_moved_bytes [OF i(3) wfa] unfolding i(4,5) by simp
    then show ?thesis
      using contig_moved_bytes [of 0 "insert_by bufSeq x arr" j u] mv wf by (simp add: c1)
  qed
  have "stream_of (take d ps) @ left_bytes (contig (conLastProcessBufferIndex c1) (conReadBuf c1)) @ X
      = stream_of (take d ps) @ stream_of (drop d ps)"
    using X bytes stream_of_simps(3) [of "take d ps" "drop d ps"] by simp
  then have X1: "left_bytes (contig (conLastProcessBufferIndex c1) (conReadBuf c1)) @ X = stream_of (drop d ps)"
    by simp
  have "\<forall>p\<in>set (drop d ps). packet_ok env p" using ok by (auto dest: in_set_dropD)
  from recv_loop_packets [OF rd1 wf1 c1(3) order_refl this X1]
  obtain d' c' where c': "recv_packet env (Some x) c = Some (Inr (0, c'))" "consumed env (drop d ps) c1 d' c'"
    unfolding call by blast
  have "consumed env (take d ps @ drop d ps) ?c0 (length (take d ps) + d') c'"
    using mv c1 k0 bytes by (intro consumed_step [OF rec _ _ _ _ c'(2)]) auto
  then show ?thesis using c'(1) by auto
qed

section \<open>Any order of arrival\<close>

lemma ordered_distinct: "ordered key bs \<Longrightarrow> distinct bs"
  by (induction bs) auto

lemma ordered_key_inj: "ordered key bs \<Longrightarrow> x \<in> set bs \<Longrightarrow> y \<in> set bs \<Longrightarrow> key x = key y \<Longrightarrow> x = y"
  by (induction bs) (fastforce simp: less_le)+

lemma mset_insert_by [simp]: "mset (insert_by key x bs) = add_mset x (mset bs)"
  by (induction bs) simp_all

text \<open>A buffer that has not arrived yet has a number of its own.\<close>

lemma fresh_number:
  assumes bs: "numbered bs" and sub: "mset (insert_by bufSeq x arr) \<subseteq># mset bs"
  shows "bufSeq x \<notin> bufSeq ` set arr \<and> bufSeq x \<noteq> 0"
proof -
  have xb: "set (insert_by bufSeq x arr) \<subseteq> set bs" using sub by (metis set_mset_mono set_mset_mset)
  have ob: "ordered bufSeq bs" by (rule numbered_ordered [OF bs])
  have "count (mset bs) x \<le> 1"
    using ordered_distinct [OF ob] by (simp add: distinct_count_atmost_1)
  then have "x \<notin> set arr"
    using mset_subset_eq_count [OF sub, of x] count_greater_zero_iff [of "mset arr" x]
    by (auto simp del: count_greater_zero_iff)
  then have "bufSeq x \<notin> bufSeq ` set arr"
    using ordered_key_inj [OF ob] xb by (auto simp: subset_iff)
  moreover obtain i where "i < length bs" "x = bs ! i" using xb by (auto simp: in_set_conv_nth)
  then have "bufSeq x = word_of_nat (Suc i)" "Suc i < 2 ^ 64"
    using numbered_nth [OF bs] bs by (simp_all add: numbered_def)
  then have "bufSeq x \<noteq> 0"
    using word_of_nat_less_64 [of 0 "Suc i"] by auto
  ultimately show ?thesis ..
qed

lemma recv_calls_consumed:
  assumes "consumed env ps (c0\<lparr>conReadBuf := arr\<rparr>) d c" and rd: "receiver_ready c0"
    and k0: "conLastProcessBufferIndex c0 = 0"
    and bs: "numbered bs" "\<forall>b\<in>set bs. buffer_wf b" and ok: "\<forall>p\<in>set ps. packet_ok env p"
    and bytes: "left_bytes bs = stream_of ps"
    and "ordered bufSeq arr" "mset arr + mset (map snd calls) \<subseteq># mset bs"
  shows "\<exists>c' d' arr'. recv_calls env calls c = Some (Inr (0, c')) \<and>
    consumed env ps (c0\<lparr>conReadBuf := arr'\<rparr>) d' c' \<and> ordered bufSeq arr' \<and>
    mset arr' = mset arr + mset (map snd calls)"
  using assms(1,8,9)
proof (induction calls arbitrary: arr d c)
  case Nil
  then show ?case by auto
next
  case (Cons call calls)
  obtain t x where call: "call = (t, x)" by (cases call)
  let ?arr = "insert_by bufSeq x arr"
  have sub: "mset ?arr \<subseteq># mset bs"
    using Cons.prems(3) call by (auto intro: subset_mset.order_trans [rotated])
  then have xb: "set ?arr \<subseteq> set bs" by (metis set_mset_mono set_mset_mset)
  have len: "length ?arr \<le> length bs" using size_mset_mono [OF sub] by simp
  have new: "bufSeq x \<notin> bufSeq ` set arr" and x0: "bufSeq x \<noteq> 0"
    using fresh_number [OF bs(1) sub] by simp_all
  obtain X where X: "left_bytes (contig 0 ?arr) @ X = stream_of ps"
    using contig_prefix [OF bs(1) xb len] bytes by (metis append_take_drop_id left_bytes_simps(3))
  have small: "length arr < 2 ^ 64 - 1" using len bs(1) by (simp add: numbered_def)
  have wf: "\<forall>b\<in>set (x # arr). buffer_wf b" using xb bs(2) by auto
  obtain c1 d1 where c1: "recv_packet (env\<lparr>envNow := t\<rparr>) (Some x) c = Some (Inr (0, c1))"
      "consumed env ps (c0\<lparr>conReadBuf := ?arr\<rparr>) d1 c1"
    using recv_packet_step [where env = "env\<lparr>envNow := t\<rparr>", unfolded env_now_irrelevant,
        OF Cons.prems(1) rd k0 Cons.prems(2) wf small new x0 ok X] by blast
  have "ordered bufSeq ?arr" by (rule ordered_insert_by [OF Cons.prems(2) new])
  moreover have "mset ?arr + mset (map snd calls) \<subseteq># mset bs" using Cons.prems(3) call by simp
  ultimately obtain c' d' arr' where c': "recv_calls env calls c1 = Some (Inr (0, c'))"
      "consumed env ps (c0\<lparr>conReadBuf := arr'\<rparr>) d' c'" "ordered bufSeq arr'"
      "mset arr' = mset ?arr + mset (map snd calls)"
    using Cons.IH [OF c1(2)] by blast
  then show ?case using c1(1) call by (intro exI [of _ c'] exI [of _ d'] exI [of _ arr']) simp
qed

text \<open>A connection that has received nothing yet.\<close>

definition fresh_receiver :: "connection \<Rightarrow> bool" where
  "fresh_receiver c \<longleftrightarrow> receiver_ready c \<and> conReadBuf c = [] \<and> conReadBufEnd c = None \<and>
     conLastProcessBufferIndex c = 0"

lemma consumed_fresh:
  assumes "fresh_receiver c"
  shows "consumed env ps (c\<lparr>conReadBuf := []\<rparr>) 0 c"
proof -
  have "c\<lparr>conReadBuf := []\<rparr> = c" using assms by (simp add: fresh_receiver_def)
  then show ?thesis
    using assms by (simp add: consumed_def fresh_receiver_def received_Nil moved_def sizes)
qed

lemma numbered_recv_calls:
  assumes "fresh_receiver c" and "numbered bs" and "\<forall>b\<in>set bs. buffer_wf b"
    and "\<forall>p\<in>set ps. packet_ok env p" and "left_bytes bs = stream_of ps"
    and "mset (map snd calls) \<subseteq># mset bs"
  shows "\<exists>c' d arr. recv_calls env calls c = Some (Inr (0, c')) \<and>
    consumed env ps (c\<lparr>conReadBuf := arr\<rparr>) d c' \<and> ordered bufSeq arr \<and> mset arr = mset (map snd calls)"
  using recv_calls_consumed [OF consumed_fresh [OF assms(1)], where bs = bs and calls = calls] assms
  by (auto simp: fresh_receiver_def)

lemma recv_all_arrivals:
  assumes "fresh_receiver c" and "numbered bs" and "\<forall>b\<in>set bs. buffer_wf b \<and> 0 < bufLen b"
    and "\<forall>p\<in>set ps. packet_ok env p" and "left_bytes bs = stream_of ps"
    and "mset (map snd calls) = mset bs"
  shows "\<exists>c'. recv_calls env calls c = Some (Inr (0, c')) \<and> received env ps c c' \<and>
    conReadBuf c' = [] \<and> conReadBufEnd c' = None"
proof -
  obtain c' d arr where r: "recv_calls env calls c = Some (Inr (0, c'))"
      "consumed env ps (c\<lparr>conReadBuf := arr\<rparr>) d c'" "ordered bufSeq arr" "mset arr = mset (map snd calls)"
    using numbered_recv_calls [OF assms(1,2) _ assms(4,5), of calls] assms(3,6) by auto
  have "set arr = set bs" using r(4) assms(6) by (metis set_mset_mset)
  then have arr: "arr = bs" using ordered_unique [OF r(3) numbered_ordered [OF assms(2)]] by simp
  have k0: "conLastProcessBufferIndex c = 0" using assms(1) by (simp add: fresh_receiver_def)
  obtain j u where i: "d \<le> length ps" "received env (take d ps) (c\<lparr>conReadBuf := bs\<rparr>) c'"
      "moved 0 bs j u" "conReadBuf c' = advance u (drop j bs)" "conLastProcessBufferIndex c' = word_of_nat j"
      "conReadBufEnd c' = end_of bufAddr (conReadBuf c')"
      "stream_of (take d ps) @ left_bytes (contig (word_of_nat j) (conReadBuf c')) = left_bytes (contig 0 bs)"
      "d < length ps \<longrightarrow> length (left_bytes (contig (word_of_nat j) (conReadBuf c'))) < length (wire (ps ! d))"
    using r(2) k0 unfolding arr by (auto simp: consumed_def)
  let ?L = "left_bytes (contig (word_of_nat j) (conReadBuf c'))"
  have "stream_of (take d ps) @ ?L = stream_of (take d ps) @ stream_of (drop d ps)"
    using i(7) assms(5) stream_of_simps(3) [of "take d ps" "drop d ps"]
    by (simp add: contig_numbered [OF assms(2)])
  then have L: "?L = stream_of (drop d ps)" by simp
  have d: "d = length ps"
  proof (rule ccontr)
    assume "d \<noteq> length ps"
    then have "d < length ps" using i(1) by simp
    then show False using i(8) L by (simp add: Cons_nth_drop_Suc [symmetric])
  qed
  have cg: "contig (word_of_nat j) (conReadBuf c') = conReadBuf c'"
    using moved_contig [OF i(3)] i(4) by (simp add: contig_numbered [OF assms(2)])
  have "drop j bs = []"
  proof (rule ccontr)
    assume ne: "drop j bs \<noteq> []"
    then have j: "j < length bs" by simp
    have "left_bytes (advance u (drop j bs)) = []" using L d cg i(4) by simp
    then have "buffer_left ((bs ! j)\<lparr>bufCur := bufCur (bs ! j) + u, bufLen := bufLen (bs ! j) - u\<rparr>) = []"
      using j by (simp add: Cons_nth_drop_Suc [symmetric])
    moreover have "buffer_wf (bs ! j)" "0 < bufLen (bs ! j)" using j assms(3) by simp_all
    moreover have "u < bufLen (bs ! j)" using i(3) \<open>0 < bufLen (bs ! j)\<close> by (auto simp: moved_def)
    ultimately show False by (simp add: buffer_left_def buffer_wf_def)
  qed
  moreover have "received env ps c c'"
    using i(2) d by (simp add: received_def receiver_ready_def)
  ultimately show ?thesis using r(1) i(4,6) by auto
qed


text \<open>
  An input for the properties: a packet with a body of three bytes on a connection that the server
  has just accepted, cut into two buffers of 9 and 10 bytes that arrive in the wrong order.
\<close>

definition demo_env :: recv_env where
  "demo_env = \<lparr>envNow = 0, envAlloc = (\<lambda>n. if n \<le> 2048 then Some 2048 else None),
     envThreadCache = (\<lambda>n. n \<le> 1048576), envParseTask = False, envParse = (\<lambda>e f bs n k. Some bs)\<rparr>"

definition demo_connection :: connection where
  "demo_connection = serve_connection True True False True 0
     (build_connection 1000 7 1 ''127.0.0.1'' 4355 new_connection)"

definition demo_packet :: "packet_header \<times> byte list" where
  "demo_packet = (\<lparr>wFlag = CX_PACKET_HEADER_FLAG, byCompressFlag = 0, byEncryptFlag = 0, dwDataLen = 3,
     dwCheckSum = 60, dwOrignDataLen = 3\<rparr>, [10, 20, 30])"

definition demo_buffer :: "nat \<Rightarrow> byte list \<Rightarrow> buffer_obj" where
  "demo_buffer i bs = \<lparr>bufAddr = i, bufSeq = word_of_nat i, bufData = bs, bufCur = 0, bufLen = length bs\<rparr>"

definition demo_buffers :: "buffer_obj list" where
  "demo_buffers = [demo_buffer 1 (take 9 (wire demo_packet)), demo_buffer 2 (drop 9 (wire demo_packet))]"

lemma demo_fresh: "fresh_receiver demo_connection"
  by (simp add: fresh_receiver_def receiver_ready_def demo_connection_def serve_connection_def
      build_connection_def reset_connection_def new_connection_def Let_def)

lemma demo_wire: "wire demo_packet = [247, 37, 0, 0, 3, 0, 0, 0, 60, 0, 0, 0, 3, 0, 0, 0, 10, 20, 30]"
  by (simp add: wire_def demo_packet_def header_bytes_def CX_PACKET_HEADER_FLAG_def le_enc_numeral)

lemma demo_buffers_facts:
  "numbered demo_buffers"
  "\<forall>b\<in>set demo_buffers. buffer_wf b \<and> 0 < bufLen b"
  "left_bytes demo_buffers = stream_of [demo_packet]"
  by (simp_all add: demo_buffers_def demo_buffer_def numbered_def buffer_wf_def buffer_left_def demo_wire)

lemma demo_packet_ok: "\<forall>p\<in>set [demo_packet]. packet_ok demo_env p"
  by (simp add: demo_packet_def packet_ok_def framed_def demo_env_def alloc_ok_def plain_def sizes
      CX_MAX_CHACHE_SIZE_def)

lemmas demo_ok = demo_fresh demo_buffers_facts(1,2) demo_packet_ok demo_buffers_facts(3)


lemma ordered_sort_key:
  assumes "ordered key arr" and "mset arr = mset xs"
  shows "sort_key key xs = arr"
proof (rule ordered_unique [where key = key])
  have "mset (map key (sort_key key xs)) = mset (map key arr)"
    using assms(2) by (simp add: mset_map)
  moreover have "distinct (map key arr)" "sorted (map key arr)"
    using assms(1) by (simp_all add: ordered_def sorted_wrt_map [symmetric] strict_sorted_iff
        del: sorted_wrt_map)
  ultimately have "distinct (map key (sort_key key xs))" by (metis mset_eq_imp_distinct_iff)
  then have "sorted_wrt (<) (map key (sort_key key xs))" by (simp add: strict_sorted_iff)
  then show "ordered key (sort_key key xs)" by (simp add: ordered_def sorted_wrt_map)
  show "ordered key arr" by fact
  show "set (sort_key key xs) = set arr" using assms(2) by (metis set_mset_mset set_sort)
qed



end
