(* ===== verification/Receive_Faults.thy ===== *)
theory Receive_Faults imports Main Delivery begin

text \<open>
  What the receive path does with packets that are not acceptable: wrong headers, wrong check sums,
  bodies that the parser rejects.
\<close>

section \<open>One buffer with one packet\<close>

lemma recv_packet_one_buffer:
  assumes fresh: "fresh_receiver c" and b: "buffer_wf b" "bufSeq b = 1" "buffer_left b = wire (h, body) @ rest"
    and fr: "framed env (h, body)"
  shows "\<exists>c0 m. recv_packet env (Some b) c = complete_packet env m h (partial_message env c0 h (wire (h, body)))
      (if rest = [] then [] else [b\<lparr>bufCur := bufCur b + length (wire (h, body)), bufLen := length rest\<rparr>])
      (snd (new_message_addr c0)) \<and> conDelivered c0 = conDelivered c \<and> conLive c0 = conLive c \<and>
      conNextAddr c0 = conNextAddr c \<and> receiver_ready c0"
proof -
  define c0 where "c0 = (record_packet_time (envNow env) c)\<lparr>conReadBuf := [b],
     conReadBufEnd := Some (bufAddr b), conBuffersInList := conBuffersInList c + 1,
     conPostedRecv := conPostedRecv c - 1\<rparr>"
  let ?t = "length (wire (h, body))"
  have len: "bufLen b = ?t + length rest" using length_buffer_left [OF b(1)] b(3) by simp
  have "push_received_buffer (envNow env) (Some b) c = Inr (True, c0)"
    using fresh by (simp add: push_received_buffer_def push_seq_def fresh_receiver_def c0_def Let_def
        record_packet_time_def)
  then have call: "recv_packet env (Some b) c = recv_loop env (recv_fuel [b]) [b] (scan_start c0) c0"
    using fresh by (simp add: recv_packet_def fresh_receiver_def receiver_ready_def c0_def)
  have idx: "scanIndex (scan_start c0) = 0"
    using fresh by (simp add: scan_start_def c0_def record_packet_time_def fresh_receiver_def)
  note it = recv_loop_iteration [OF scan_rel_start [of env h c0] fr b(1), where X = "[]" and Y = rest
      and t = ?t and rest = "[]" and n = "recv_fuel [b] - 1"]
  have "Suc (recv_fuel [b] - 1) = recv_fuel [b]" by simp
  then have "recv_loop env (recv_fuel [b]) [b] (scan_start c0) c0 =
      complete_packet env (recv_fuel [b] - 1) h (partial_message env c0 h (wire (h, body)))
        (finish_buffer b (bufCur b + ?t) []) (snd (new_message_addr c0))"
    using it b(2,3) len idx by (auto simp: sizes)
  moreover have "finish_buffer b (bufCur b + ?t) [] =
      (if rest = [] then [] else [b\<lparr>bufCur := bufCur b + ?t, bufLen := length rest\<rparr>])"
    by (simp add: finish_buffer_def len)
  moreover have "conDelivered c0 = conDelivered c" "conLive c0 = conLive c" "conNextAddr c0 = conNextAddr c"
      "receiver_ready c0"
    using fresh by (simp_all add: c0_def record_packet_time_def fresh_receiver_def receiver_ready_def)
  ultimately show ?thesis using call by auto
qed

section \<open>A wrong check sum\<close>


text \<open>The demo packet with one damaged byte.\<close>

definition damaged_buffer :: "byte list \<Rightarrow> buffer_obj" where
  "damaged_buffer rest = demo_buffer 1 (wire (fst demo_packet, [10, 21, 30]) @ rest)"

lemma damaged_wire: "wire (fst demo_packet, [10, 21, 30]) =
    [247, 37, 0, 0, 3, 0, 0, 0, 60, 0, 0, 0, 3, 0, 0, 0, 10, 21, 30]"
  by (simp add: wire_def demo_packet_def header_bytes_def CX_PACKET_HEADER_FLAG_def le_enc_numeral)

lemma damaged_framed: "framed demo_env (fst demo_packet, [10, 21, 30])"
  by (simp add: demo_packet_def framed_def demo_env_def alloc_ok_def sizes CX_MAX_CHACHE_SIZE_def)


section \<open>A body that the parser rejects\<close>

lemma parse_message_rejects:
  assumes "conServer c" and "conLive c = [mesAddr m]" and "conNextAddr c = Suc (mesAddr m)"
    and "envParse env (byEncryptFlag h) (byCompressFlag h) (take (unat (mesDataLen m)) (mesBody m))
      (parse_room h) (parse_buffer_len (dwOrignDataLen h)) = None"
  shows "\<exists>c'. parse_message env m h c = Inr (False, c') \<and> conLive c' = []"
proof -
  have free: "\<exists>c'. bind_res (free_message (mesAddr m) c) (\<lambda>c. Inr (False, c)) = Inr (False, c') \<and> conLive c' = []"
    using assms(2) by (simp add: free_message_def)
  show ?thesis
    using assms free
    by (auto simp: parse_message_def Let_def parse_room_def new_message_addr_def free_message_def split: option.split)
qed

lemma dispatch_rejected:
  assumes "receiver_ready c" and "verify_packet_body h (mesBody m)" and "\<not> plain h"
    and "conLive c = [mesAddr m]" and "conNextAddr c = Suc (mesAddr m)"
    and "envParse env (byEncryptFlag h) (byCompressFlag h) (take (unat (mesDataLen m)) (mesBody m))
      (parse_room h) (parse_buffer_len (dwOrignDataLen h)) = None"
  shows "dispatch_packet env h m cur c = Inl DoubleFree"
proof -
  obtain c' where "parse_message env m h c = Inr (False, c')" "conLive c' = []"
    using parse_message_rejects [OF _ assms(4-6)] assms(1) by (auto simp: receiver_ready_def)
  then show ?thesis
    using assms(1-3)
    by (auto simp: dispatch_packet_def receiver_ready_def plain_def free_message_def)
qed

text \<open>
  An encrypted or compressed packet whose check sum is right and whose body the parser rejects
  makes \<open>ParseMessage\<close> free the message, and \<open>RecvPacket\<close> free it a second time.
\<close>

lemma recv_undecodable_frees_twice:
  assumes "fresh_receiver c" and "buffer_wf b" and "bufSeq b = 1"
    and "buffer_left b = wire (h, body) @ rest" and "framed env (h, body)"
    and "check_sum body = dwCheckSum h" and "\<not> plain h" and "decode env (h, body) = None"
    and "conLive c = []"
  shows "recv_packet env (Some b) c = Some (Inl DoubleFree)"
proof -
  let ?cur = "if rest = [] then [] else [b\<lparr>bufCur := bufCur b + length (wire (h, body)), bufLen := length rest\<rparr>]"
  obtain c0 m where c0: "recv_packet env (Some b) c = complete_packet env m h
      (partial_message env c0 h (wire (h, body))) ?cur (snd (new_message_addr c0))"
      "conLive c0 = []" "receiver_ready c0"
    using recv_packet_one_buffer [OF assms(1-5)] assms(9) by auto
  let ?m = "(partial_message env c0 h (wire (h, body)))\<lparr>mesSeq := conLastUnpackedSeq c0 + 1\<rparr>"
  let ?c = "drop_used_buffers ?cur ((snd (new_message_addr c0))\<lparr>conLastUnpackedSeq := conLastUnpackedSeq c0 + 1,
      conEncrypt := byEncryptFlag h, conCompress := byCompressFlag h\<rparr>)"
  have body: "take (unat (dwDataLen h)) (mesBody ?m) = body"
    using partial_message_payload [OF assms(5)] by simp
  have "dispatch_packet env h ?m ?cur ?c = Inl DoubleFree"
  proof (rule dispatch_rejected)
    show "receiver_ready ?c" using c0(3) by (simp add: receiver_ready_def drop_used_buffers_def new_message_addr_def Let_def)
    show "verify_packet_body h (mesBody ?m)" using assms(6) body by (simp add: verify_packet_body_def)
    show "\<not> plain h" by fact
    show "conLive ?c = [mesAddr ?m]" "conNextAddr ?c = Suc (mesAddr ?m)"
      using c0(2) by (simp_all add: new_message_addr_def)
    show "envParse env (byEncryptFlag h) (byCompressFlag h) (take (unat (mesDataLen ?m)) (mesBody ?m))
        (parse_room h) (parse_buffer_len (dwOrignDataLen h)) = None"
      using assms(7,8) body by (simp add: decode_def)
  qed
  then show ?thesis
    by (simp add: c0(1) complete_packet_def accept_packet_def new_message_addr_def Let_def)
qed

text \<open>A parser that rejects everything, on the demo packet with the flag of AES.\<close>

definition rejecting_env :: recv_env where
  "rejecting_env = demo_env\<lparr>envParse := (\<lambda>e f bs n k. None)\<rparr>"

definition aes_packet :: "packet_header \<times> byte list" where
  "aes_packet = ((fst demo_packet)\<lparr>byEncryptFlag := 1\<rparr>, snd demo_packet)"

lemma recv_undecodable_frees_twice_witness:
  "recv_packet rejecting_env (Some (demo_buffer 1 (wire aes_packet))) demo_connection = Some (Inl DoubleFree)"
proof -
  have b: "buffer_wf (demo_buffer 1 bs)" "bufSeq (demo_buffer 1 bs) = 1" "buffer_left (demo_buffer 1 bs) = bs" for bs
    by (simp_all add: demo_buffer_def buffer_wf_def buffer_left_def)
  have fr: "framed rejecting_env (fst aes_packet, snd aes_packet)"
    by (simp add: rejecting_env_def aes_packet_def demo_packet_def framed_def demo_env_def alloc_ok_def sizes
        CX_MAX_CHACHE_SIZE_def)
  have "check_sum (snd aes_packet) = dwCheckSum (fst aes_packet)" "\<not> plain (fst aes_packet)"
      "decode rejecting_env (fst aes_packet, snd aes_packet) = None"
    by (simp_all add: aes_packet_def demo_packet_def plain_def decode_def rejecting_env_def)
  moreover have "conLive demo_connection = []"
    by (simp add: demo_connection_def serve_connection_def build_connection_def reset_connection_def
        new_connection_def Let_def)
  ultimately show ?thesis
    using recv_undecodable_frees_twice [OF demo_ok(1) b(1,2) _ fr, of "wire aes_packet" "[]"] b(3) by simp
qed

section \<open>A wrong header\<close>

text \<open>
  A header without the flag, or one that announces more than \<open>CX_MAX_CHACHE_SIZE\<close> bytes, makes the
  call return -4 as soon as its 16 bytes are there: nothing is allocated, nothing delivered.
\<close>

theorem recv_wrong_header:
  assumes "fresh_receiver c" and "buffer_wf b" and "bufSeq b = 1" and "sizeof_header \<le> bufLen b"
    and "h = header_of (take sizeof_header (buffer_left b))"
    and "wFlag h \<noteq> CX_PACKET_HEADER_FLAG \<or> CX_MAX_CHACHE_SIZE < unat (dwDataLen h)"
  shows "\<exists>c'. recv_packet env (Some b) c = Some (Inr (- 4, c')) \<and> conDelivered c' = conDelivered c \<and>
    conLive c' = conLive c \<and> conNextAddr c' = conNextAddr c"
proof -
  define c0 where "c0 = (record_packet_time (envNow env) c)\<lparr>conReadBuf := [b],
     conReadBufEnd := Some (bufAddr b), conBuffersInList := conBuffersInList c + 1,
     conPostedRecv := conPostedRecv c - 1\<rparr>"
  have "push_received_buffer (envNow env) (Some b) c = Inr (True, c0)"
    using assms(1) by (simp add: push_received_buffer_def push_seq_def fresh_receiver_def c0_def Let_def
        record_packet_time_def)
  then have call: "recv_packet env (Some b) c = recv_loop env (recv_fuel [b]) [b] (scan_start c0) c0"
    using assms(1) by (simp add: recv_packet_def fresh_receiver_def receiver_ready_def c0_def)
  have idx: "conLastProcessBufferIndex c0 = 0"
    using assms(1) by (simp add: c0_def record_packet_time_def fresh_receiver_def)
  have "copy_header b (scan_start c0) = ((scan_start c0)\<lparr>scanHeader := take sizeof_header (buffer_left b),
      scanUsed := sizeof_header\<rparr>, bufLen b - sizeof_header, bufCur b + sizeof_header)"
    using copy_header_rel [of "scan_start c0" "[]" b sizeof_header] assms(2,4)
    by (simp add: scan_start_def min_def sizes length_buffer_left split: if_splits)
  moreover have "bufLen b \<noteq> 0" "recv_fuel [b] = Suc (Suc (bufLen b))" using assms(4) by (auto simp: sizes)
  ultimately have "recv_packet env (Some b) c = Some (Inr (- 4, c0))"
    using call assms(3,5,6) idx by (auto simp: leave_loop_def scan_start_def Let_def)
  then show ?thesis by (simp add: c0_def record_packet_time_def)
qed

theorem recv_wrong_header_witness:
  "\<exists>c'. recv_packet demo_env (Some (demo_buffer 1 (replicate 20 0))) demo_connection = Some (Inr (- 4, c')) \<and>
    conDelivered c' = conDelivered demo_connection \<and> conLive c' = conLive demo_connection \<and>
    conNextAddr c' = conNextAddr demo_connection"
proof -
  have zeros: "le_dec (replicate n 0) = 0" for n by (induction n) simp_all
  have "buffer_left (demo_buffer 1 (replicate 20 0)) = replicate 20 0"
    by (simp add: demo_buffer_def buffer_left_def)
  then have "wFlag (header_of (take sizeof_header (buffer_left (demo_buffer 1 (replicate 20 0))))) = 0"
    by (simp add: header_of_def sizes zeros min_def)
  then show ?thesis
    by (intro recv_wrong_header [OF demo_ok(1) _ _ _ refl])
      (simp_all add: demo_buffer_def buffer_wf_def sizes CX_PACKET_HEADER_FLAG_def)
qed

end
