(* ===== verification/Contracts.thy ===== *)
theory Contracts imports Main Prelude begin

text \<open>
  The interface that every pool of the program provides: memory caches, objects for remote calls,
  sessions and connections are all taken from a pool and given back to it.  The locale states what
  their users rely on, and proves it for every history of a user; each component interprets it on its
  own operations.
\<close>

section \<open>The contract of a pool\<close>

text \<open>
  \<open>live s\<close> are the objects handed out and not given back.  An operation may fail (\<open>None\<close> object) but
  must not touch the objects of others.
\<close>

datatype 'e pool_op = Take 'e | Give 'e nat

locale allocator =
  fixes inv :: "'s \<Rightarrow> bool"
    and live :: "'s \<Rightarrow> 'a set"
    and get :: "'e \<Rightarrow> 's \<Rightarrow> 'a option \<times> 's"
    and free :: "'e \<Rightarrow> 'a \<Rightarrow> 's \<Rightarrow> 's"
  assumes get_inv: "inv s \<Longrightarrow> inv (snd (get e s))"
    and get_none: "inv s \<Longrightarrow> fst (get e s) = None \<Longrightarrow> live (snd (get e s)) = live s"
    and get_some: "inv s \<Longrightarrow> fst (get e s) = Some a \<Longrightarrow> a \<notin> live s \<and> live (snd (get e s)) = insert a (live s)"
    and free_inv: "inv s \<Longrightarrow> a \<in> live s \<Longrightarrow> inv (free e a s)"
    and free_live: "inv s \<Longrightarrow> a \<in> live s \<Longrightarrow> live (free e a s) = live s - {a}"
begin

text \<open>
  A user that takes objects and gives back the \<open>i\<close>-th one of those it holds, in any order.
\<close>

fun serve :: "'e pool_op list \<Rightarrow> 'a list \<Rightarrow> 's \<Rightarrow> 'a list \<times> 's" where
  "serve [] os s = (os, s)"
| "serve (Take e # ops) os s =
     (case get e s of (None, s) \<Rightarrow> serve ops os s | (Some a, s) \<Rightarrow> serve ops (a # os) s)"
| "serve (Give e i # ops) os s =
     (if i < length os then serve ops (take i os @ drop (Suc i) os) (free e (os ! i) s) else serve ops os s)"

text \<open>What it holds stays without duplicates, and what others hold stays theirs.\<close>

lemma serve_spec:
  assumes "inv s" and "distinct os" and "set os \<inter> others = {}" and "live s = others \<union> set os"
    and "serve ops os s = (os', s')"
  shows "inv s' \<and> distinct os' \<and> set os' \<inter> others = {} \<and> live s' = others \<union> set os'"
  using assms
proof (induction ops os s arbitrary: os' s' rule: serve.induct)
  case (1 os s)
  then show ?case by simp
next
  case (2 e ops os s)
  obtain r s1 where g: "get e s = (r, s1)" by (cases "get e s")
  show ?case
  proof (cases r)
    case None
    have inv1: "inv s1" and live1: "live s1 = others \<union> set os"
      using get_inv [OF 2(3), of e] get_none [OF 2(3), of e] g None 2(6) by simp_all
    have run: "serve ops os s1 = (os', s')" using 2(7) by (simp add: g None)
    show ?thesis by (rule 2(1) [OF g [symmetric] None inv1 2(4,5) live1 run])
  next
    case (Some a)
    have inv1: "inv s1" and new: "a \<notin> live s" and live1: "live s1 = insert a (live s)"
      using get_inv [OF 2(3), of e] get_some [OF 2(3), of e a] g Some by simp_all
    have "distinct (a # os)" "set (a # os) \<inter> others = {}" "live s1 = others \<union> set (a # os)"
      using new live1 2(4,5,6) by auto
    moreover have "serve ops (a # os) s1 = (os', s')" using 2(7) by (simp add: g Some)
    ultimately show ?thesis by (rule 2(2) [OF g [symmetric] Some inv1])
  qed
next
  case (3 e i ops os s)
  show ?case
  proof (cases "i < length os")
    case True
    define rest where "rest = take i os @ drop (Suc i) os"
    have os: "os = take i os @ os ! i # drop (Suc i) os" using True by (simp add: id_take_nth_drop)
    then have split: "set os = insert (os ! i) (set rest)" unfolding rest_def
      by (metis Un_insert_right list.simps(15) set_append)
    have "distinct (take i os @ os ! i # drop (Suc i) os)" using 3(4) os by simp
    then have dist: "distinct rest" "os ! i \<notin> set rest" by (auto simp: rest_def)
    have held: "os ! i \<in> live s" using True 3(6) by simp
    have inv1: "inv (free e (os ! i) s)" by (rule free_inv [OF 3(3) held])
    have "live (free e (os ! i) s) = others \<union> set rest" "set rest \<inter> others = {}"
      using free_live [OF 3(3) held, of e] 3(5,6) split dist(2) by auto
    moreover have "serve ops rest (free e (os ! i) s) = (os', s')"
      using 3(7) True by (simp add: rest_def)
    ultimately show ?thesis
      using 3(1) [OF True inv1, folded rest_def, OF dist(1)] by blast
  next
    case False
    have run: "serve ops os s = (os', s')" using 3(7) False by simp
    show ?thesis by (rule 3(2) [OF False 3(3,4,5,6) run])
  qed
qed

lemma serve_fresh:
  "inv s \<Longrightarrow> serve ops [] s = (os, s') \<Longrightarrow>
   inv s' \<and> distinct os \<and> set os \<inter> live s = {} \<and> live s' = live s \<union> set os"
  using serve_spec [of s "[]" "live s" ops os s'] by simp

end

section \<open>The contract of a queue\<close>

text \<open>
  A queue gives back what was put into it, in that order, as long as it never holds more than \<open>cap\<close> elements.
\<close>

datatype 'a queue_op = Put 'a | Get

fun run_list :: "'a queue_op list \<Rightarrow> 'a list \<Rightarrow> 'a option list \<times> 'a list" where
  "run_list [] xs = ([], xs)"
| "run_list (Put x # ops) xs = run_list ops (xs @ [x])"
| "run_list (Get # ops) xs =
     (case xs of
        [] \<Rightarrow> (case run_list ops [] of (r, ys) \<Rightarrow> (None # r, ys))
      | x # xs \<Rightarrow> (case run_list ops xs of (r, ys) \<Rightarrow> (Some x # r, ys)))"

fun fits :: "nat \<Rightarrow> 'a queue_op list \<Rightarrow> nat \<Rightarrow> bool" where
  "fits cap [] n \<longleftrightarrow> True"
| "fits cap (Put x # ops) n \<longleftrightarrow> n < cap \<and> fits cap ops (Suc n)"
| "fits cap (Get # ops) n \<longleftrightarrow> fits cap ops (n - 1)"

locale fifo =
  fixes cap :: nat
    and inv :: "'s \<Rightarrow> bool"
    and content :: "'s \<Rightarrow> 'a list"
    and push :: "'a \<Rightarrow> 's \<Rightarrow> (bool \<times> 's) res"
    and pop :: "'s \<Rightarrow> ('a option \<times> 's) res"
  assumes push_spec: "inv s \<Longrightarrow> length (content s) < cap \<Longrightarrow>
      \<exists>s'. push x s = Inr (True, s') \<and> inv s' \<and> content s' = content s @ [x]"
    and pop_empty: "inv s \<Longrightarrow> content s = [] \<Longrightarrow> \<exists>s'. pop s = Inr (None, s') \<and> inv s' \<and> content s' = []"
    and pop_spec: "inv s \<Longrightarrow> content s = x # xs \<Longrightarrow> \<exists>s'. pop s = Inr (Some x, s') \<and> inv s' \<and> content s' = xs"
begin

fun run_queue :: "'a queue_op list \<Rightarrow> 's \<Rightarrow> ('a option list \<times> 's) res" where
  "run_queue [] s = Inr ([], s)"
| "run_queue (Put x # ops) s = bind_res (push x s) (\<lambda>(_, s). run_queue ops s)"
| "run_queue (Get # ops) s =
     bind_res (pop s) (\<lambda>(r, s). bind_res (run_queue ops s) (\<lambda>(rs, s). Inr (r # rs, s)))"

lemma run_queue_append:
  "run_queue (ops @ ops') s =
     bind_res (run_queue ops s) (\<lambda>(rs, s). bind_res (run_queue ops' s) (\<lambda>(rs', s). Inr (rs @ rs', s)))"
proof (induction ops s rule: run_queue.induct)
  case (1 s)
  then show ?case by (cases "run_queue ops' s") auto
next
  case (2 x ops s)
  then show ?case by (cases "push x s") auto
next
  case (3 ops s)
  show ?case
  proof (cases "pop s")
    case (Inr r)
    then show ?thesis using 3 by (cases "run_queue ops (snd r)") (auto simp: bind_res_def split: prod.splits sum.splits)
  qed simp
qed

lemma run_queue_spec:
  "inv s \<Longrightarrow> fits cap ops (length (content s)) \<Longrightarrow>
   \<exists>s'. run_queue ops s = Inr (fst (run_list ops (content s)), s') \<and> inv s' \<and> content s' = snd (run_list ops (content s))"
proof (induction ops s rule: run_queue.induct)
  case (1 s)
  then show ?case by simp
next
  case (2 x ops s)
  then obtain s1 where s1: "push x s = Inr (True, s1)" "inv s1" "content s1 = content s @ [x]"
    using push_spec [of s x] by auto
  have "fits cap ops (length (content s1))" using "2.prems"(2) s1(3) by simp
  from "2.IH" [OF s1(2) this] s1 show ?case by simp
next
  case (3 ops s)
  show ?case
  proof (cases "content s")
    case Nil
    then obtain s1 where s1: "pop s = Inr (None, s1)" "inv s1" "content s1 = []" using pop_empty 3(2) by blast
    have "fits cap ops (length (content s1))" using "3.prems"(2) s1(3) Nil by simp
    from "3.IH" [OF s1(2) this] s1 Nil show ?thesis by (auto split: prod.splits)
  next
    case (Cons x xs)
    then obtain s1 where s1: "pop s = Inr (Some x, s1)" "inv s1" "content s1 = xs" using pop_spec 3(2) by blast
    have "fits cap ops (length (content s1))" using "3.prems"(2) s1(3) Cons by simp
    from "3.IH" [OF s1(2) this] s1 Cons show ?thesis by (auto split: prod.splits)
  qed
qed

end

end
