(* ===== verification/Memory_Cache.thy ===== *)
theory Memory_Cache imports Main Prelude Contracts begin

text \<open>
  The object caches of src/CXMemoryCache: \<open>CXMemoryCache\<close> (a free list of equal objects cut from
  blocks) and \<open>CXElasticMemoryCache\<close> (two such caches that take turns, so that the larger one can be
  given back).  \<open>CXMemoryCache\<close> keeps the contract of a pool.
\<close>

section \<open>CXMemoryCache\<close>

text \<open>
  An object is the number of its cache (\<open>pThis\<close>) and its own number.  \<open>mcFree\<close> is the chain of
  \<open>pNext\<close> pointers from \<open>m_pEmptyObjectListHead\<close>, \<open>mcEnd\<close> is \<open>m_pEmptyObjectListEnd\<close>, \<open>mcBlocks\<close> are the
  objects of the blocks.  Two things come from outside: the clock, and whether \<open>new byte[]\<close> succeeds.
\<close>

type_synonym mem_obj = "nat \<times> nat"

record mem_env =
  memNow :: int
  memNewOk :: bool

record mem_cache =
  mcTag :: nat
  mcFree :: "mem_obj list"
  mcEnd :: "mem_obj option"
  mcBlocks :: "mem_obj list list"
  mcBlocksNumber :: nat
  mcObjNum :: nat
  mcObjSize :: nat
  mcInited :: bool
  mcUsing :: u32
  mcTotal :: u32
  mcLastUsed :: int
  mcNextObj :: nat

definition mc_new :: "nat \<Rightarrow> int \<Rightarrow> mem_cache" where
  "mc_new tag now = \<lparr>mcTag = tag, mcFree = [], mcEnd = None, mcBlocks = [], mcBlocksNumber = 0,
     mcObjNum = 0, mcObjSize = 0, mcInited = False, mcUsing = 0, mcTotal = 0, mcLastUsed = now, mcNextObj = 0\<rparr>"

text \<open>
  A new block replaces the free list, which is empty whenever the function is called; it always has
  one object at least, because the loop that links the objects writes the last one behind it.
\<close>

definition mc_block :: "mem_cache \<Rightarrow> mem_obj list" where
  "mc_block c = map (\<lambda>i. (mcTag c, mcNextObj c + i)) [0..<max 1 (mcObjNum c)]"

definition mc_allocate_block :: "mem_env \<Rightarrow> mem_cache \<Rightarrow> bool \<times> mem_cache" where
  "mc_allocate_block env c =
     (if \<not> memNewOk env then (False, c)
      else (True, c\<lparr>mcBlocks := mcBlocks c @ [mc_block c], mcBlocksNumber := mcBlocksNumber c + 1,
              mcTotal := mcTotal c + word_of_nat (mcObjNum c), mcFree := mc_block c,
              mcEnd := Some (last (mc_block c)), mcNextObj := mcNextObj c + length (mc_block c)\<rparr>))"

definition mc_real_initialize :: "mem_env \<Rightarrow> mem_cache \<Rightarrow> bool \<times> mem_cache" where
  "mc_real_initialize env c =
     (if mcInited c then (True, c)
      else let (ok, c) = mc_allocate_block env c
           in if ok then (True, c\<lparr>mcInited := True, mcLastUsed := memNow env\<rparr>) else (False, c))"

definition mc_initialize :: "mem_env \<Rightarrow> nat \<Rightarrow> nat \<Rightarrow> bool \<Rightarrow> mem_cache \<Rightarrow> bool \<times> mem_cache" where
  "mc_initialize env osize num atOnce c =
     (if mcInited c then (True, c)
      else let c = c\<lparr>mcObjNum := num, mcObjSize := osize\<rparr>
           in if atOnce then mc_real_initialize env c else (True, c))"

definition mc_destroy :: "mem_env \<Rightarrow> mem_cache \<Rightarrow> mem_cache" where
  "mc_destroy env c =
     (if mcInited c
      then c\<lparr>mcBlocks := [], mcBlocksNumber := 0, mcFree := [], mcEnd := None, mcInited := False,
             mcUsing := 0, mcTotal := 0, mcLastUsed := memNow env\<rparr>
      else c)"

definition mc_get_object :: "mem_env \<Rightarrow> mem_cache \<Rightarrow> mem_obj option \<times> mem_cache" where
  "mc_get_object env c =
     (let (ok, c) = (if mcInited c then (True, c)
                     else if mcObjNum c \<noteq> 0 \<and> mcObjSize c \<noteq> 0 then mc_real_initialize env c
                     else (False, c))
      in if \<not> ok then (None, c)
         else
           let (ob, c) =
             (case mcFree c of
                a # as \<Rightarrow> (Some a, c\<lparr>mcFree := as, mcEnd := (if as = [] then None else mcEnd c)\<rparr>)
              | [] \<Rightarrow>
                  let (ok, c) = mc_allocate_block env c
                  in if ok then (Some (hd (mcFree c)), c\<lparr>mcFree := tl (mcFree c)\<rparr>) else (None, c))
           in case ob of
                None \<Rightarrow> (None, c)
              | Some a \<Rightarrow> (Some a, c\<lparr>mcUsing := mcUsing c + 1, mcLastUsed := memNow env\<rparr>))"

definition mc_free_object :: "mem_env \<Rightarrow> mem_obj \<Rightarrow> mem_cache \<Rightarrow> mem_cache" where
  "mc_free_object env a c =
     (if \<not> mcInited c then c
      else
        let c = (case mcEnd c of
              None \<Rightarrow> c\<lparr>mcFree := [a], mcEnd := Some a\<rparr>
            | Some e \<Rightarrow> c\<lparr>mcFree := (if mcFree c \<noteq> [] \<and> last (mcFree c) = e then mcFree c @ [a] else mcFree c),
                          mcEnd := Some a\<rparr>)
        in c\<lparr>mcUsing := mcUsing c - 1, mcLastUsed := memNow env\<rparr>)"

definition mc_get_unused_state :: "mem_env \<Rightarrow> mem_cache \<Rightarrow> int \<times> u32" where
  "mc_get_unused_state env c = (if mcInited c then (memNow env - mcLastUsed c, mcUsing c) else (0, 0))"

definition mc_record_used_time :: "mem_env \<Rightarrow> mem_cache \<Rightarrow> mem_cache" where
  "mc_record_used_time env c = c\<lparr>mcLastUsed := memNow env\<rparr>"

definition mc_is_have_object :: "mem_cache \<Rightarrow> bool" where
  "mc_is_have_object c \<longleftrightarrow> mcFree c \<noteq> []"

section \<open>What a cache is\<close>

definition mc_objects :: "mem_cache \<Rightarrow> mem_obj set" where
  "mc_objects c = set (concat (mcBlocks c))"

lemma mc_objects_update [simp]:
  "mc_objects (c\<lparr>mcFree := as\<rparr>) = mc_objects c" "mc_objects (c\<lparr>mcEnd := e\<rparr>) = mc_objects c"
  "mc_objects (c\<lparr>mcUsing := n\<rparr>) = mc_objects c" "mc_objects (c\<lparr>mcLastUsed := t\<rparr>) = mc_objects c"
  "mc_objects (c\<lparr>mcInited := b\<rparr>) = mc_objects c"
  by (simp_all add: mc_objects_def)

definition mc_live :: "mem_cache \<Rightarrow> mem_obj set" where
  "mc_live c = mc_objects c - set (mcFree c)"

text \<open>The objects of blocks with at least two objects each, and the free list among them.\<close>

definition mc_inv :: "mem_cache \<Rightarrow> bool" where
  "mc_inv c \<longleftrightarrow> 2 \<le> mcObjNum c \<and> distinct (mcFree c) \<and> set (mcFree c) \<subseteq> mc_objects c \<and>
     mcEnd c = (if mcFree c = [] then None else Some (last (mcFree c))) \<and>
     (\<forall>a\<in>mc_objects c. fst a = mcTag c \<and> snd a < mcNextObj c) \<and>
     (\<not> mcInited c \<longrightarrow> mc_objects c = {})"

lemma mc_block_facts:
  "2 \<le> mcObjNum c \<Longrightarrow> mc_block c \<noteq> [] \<and> tl (mc_block c) \<noteq> [] \<and> distinct (mc_block c) \<and>
     length (mc_block c) = mcObjNum c"
  by (auto simp: mc_block_def distinct_map inj_on_def upt_rec [of 0] upt_rec [of 1])

lemma mc_block_fst_snd: "a \<in> set (mc_block c) \<Longrightarrow>
   fst a = mcTag c \<and> mcNextObj c \<le> snd a \<and> snd a < mcNextObj c + length (mc_block c)"
  by (auto simp: mc_block_def)

lemma mc_allocate_block_inv:
  assumes "2 \<le> mcObjNum c" and "\<forall>a\<in>mc_objects c. fst a = mcTag c \<and> snd a < mcNextObj c"
    and "mc_allocate_block env c = (True, c')"
  shows "mc_inv (c'\<lparr>mcInited := True\<rparr>)" "set (mcFree c') \<inter> mc_objects c = {}"
    "mc_objects c' = mc_objects c \<union> set (mcFree c')" "mcFree c' = mc_block c"
    "mcObjNum c' = mcObjNum c" "mcTag c' = mcTag c" "mcInited c' = mcInited c"
proof -
  have c': "c' = c\<lparr>mcBlocks := mcBlocks c @ [mc_block c], mcBlocksNumber := mcBlocksNumber c + 1,
              mcTotal := mcTotal c + word_of_nat (mcObjNum c), mcFree := mc_block c,
              mcEnd := Some (last (mc_block c)), mcNextObj := mcNextObj c + length (mc_block c)\<rparr>"
    using assms(3) by (simp add: mc_allocate_block_def split: if_splits)
  note bl = mc_block_facts [OF assms(1)]
  show "mc_inv (c'\<lparr>mcInited := True\<rparr>)"
    using assms(1,2) bl mc_block_fst_snd [of _ c] unfolding c'
    by (auto simp: mc_inv_def mc_objects_def intro: trans_less_add1)
  show "set (mcFree c') \<inter> mc_objects c = {}"
    using assms(2) mc_block_fst_snd [of _ c] by (fastforce simp: c')
  show "mc_objects c' = mc_objects c \<union> set (mcFree c')" by (auto simp: c' mc_objects_def)
qed (use assms(3) in \<open>auto simp: mc_allocate_block_def split: if_splits\<close>)

definition mc_ready :: "mem_env \<Rightarrow> mem_cache \<Rightarrow> bool \<times> mem_cache" where
  "mc_ready env c = (if mcInited c then (True, c)
     else if mcObjNum c \<noteq> 0 \<and> mcObjSize c \<noteq> 0 then mc_real_initialize env c else (False, c))"

lemma mc_ready_inv:
  assumes "mc_inv c"
  shows "mc_inv (snd (mc_ready env c))" "mc_live (snd (mc_ready env c)) = mc_live c"
    "fst (mc_ready env c) \<Longrightarrow> mcInited (snd (mc_ready env c))"
proof -
  have objs: "2 \<le> mcObjNum c" "\<forall>a\<in>mc_objects c. fst a = mcTag c \<and> snd a < mcNextObj c"
    using assms by (simp_all add: mc_inv_def)
  have "mc_inv (snd (mc_ready env c)) \<and> mc_live (snd (mc_ready env c)) = mc_live c \<and>
      (fst (mc_ready env c) \<longrightarrow> mcInited (snd (mc_ready env c)))"
  proof (cases "\<not> mcInited c \<and> mcObjNum c \<noteq> 0 \<and> mcObjSize c \<noteq> 0 \<and> memNewOk env")
    case False
    then show ?thesis
      using assms by (auto simp: mc_ready_def mc_real_initialize_def mc_allocate_block_def)
  next
    case True
    then obtain c' where al: "mc_allocate_block env c = (True, c')"
      by (simp add: mc_allocate_block_def)
    note f = mc_allocate_block_inv [OF objs al]
    have "mc_objects c = {}" using assms True by (simp add: mc_inv_def)
    moreover have "mc_ready env c = (True, c'\<lparr>mcInited := True, mcLastUsed := memNow env\<rparr>)"
      using True al by (simp add: mc_ready_def mc_real_initialize_def)
    ultimately show ?thesis
      using f by (simp add: mc_live_def mc_inv_def)
  qed
  then show "mc_inv (snd (mc_ready env c))" "mc_live (snd (mc_ready env c)) = mc_live c"
    "fst (mc_ready env c) \<Longrightarrow> mcInited (snd (mc_ready env c))" by auto
qed

lemma mc_inv_update [simp]:
  "mc_inv (c\<lparr>mcUsing := n\<rparr>) = mc_inv c" "mc_inv (c\<lparr>mcLastUsed := t\<rparr>) = mc_inv c"
  "mc_live (c\<lparr>mcUsing := n\<rparr>) = mc_live c" "mc_live (c\<lparr>mcLastUsed := t\<rparr>) = mc_live c"
  by (simp_all add: mc_inv_def mc_live_def mc_objects_def)

lemma mc_get_object_spec:
  assumes "mc_inv c"
  shows "mc_inv (snd (mc_get_object env c)) \<and>
    (case fst (mc_get_object env c) of
       None \<Rightarrow> mc_live (snd (mc_get_object env c)) = mc_live c
     | Some a \<Rightarrow> a \<notin> mc_live c \<and> mc_live (snd (mc_get_object env c)) = insert a (mc_live c) \<and>
         mcUsing (snd (mc_get_object env c)) = mcUsing (snd (mc_ready env c)) + 1)"
proof -
  obtain ok c1 where r: "mc_ready env c = (ok, c1)" by (cases "mc_ready env c")
  then have c1: "mc_inv c1" "mc_live c1 = mc_live c" "ok \<Longrightarrow> mcInited c1"
    using mc_ready_inv [OF assms, of env] by simp_all
  have fold: "mc_get_object env c = (let (ok, c) = mc_ready env c
      in if \<not> ok then (None, c)
         else
           let (ob, c) =
             (case mcFree c of
                a # as \<Rightarrow> (Some a, c\<lparr>mcFree := as, mcEnd := (if as = [] then None else mcEnd c)\<rparr>)
              | [] \<Rightarrow>
                  let (ok, c) = mc_allocate_block env c
                  in if ok then (Some (hd (mcFree c)), c\<lparr>mcFree := tl (mcFree c)\<rparr>) else (None, c))
           in case ob of
                None \<Rightarrow> (None, c)
              | Some a \<Rightarrow> (Some a, c\<lparr>mcUsing := mcUsing c + 1, mcLastUsed := memNow env\<rparr>))"
    by (simp add: mc_get_object_def mc_ready_def)
  show ?thesis
  proof (cases ok)
    case False
    then show ?thesis using c1 by (simp add: fold r)
  next
    case ok: True
    show ?thesis
    proof (cases "mcFree c1")
      case (Cons a as)
      have "a \<notin> set as" "a \<in> mc_objects c1" "set as \<subseteq> mc_objects c1"
        using c1(1) Cons by (auto simp: mc_inv_def)
      then show ?thesis
        using ok c1 Cons by (auto simp: fold r mc_live_def mc_inv_def)
    next
      case Nil
      show ?thesis
      proof (cases "memNewOk env")
        case False
        then show ?thesis using ok Nil c1 by (simp add: fold r mc_allocate_block_def)
      next
        case True
        then obtain c2 where al: "mc_allocate_block env c1 = (True, c2)"
          by (simp add: mc_allocate_block_def)
        have objs: "2 \<le> mcObjNum c1" "\<forall>a\<in>mc_objects c1. fst a = mcTag c1 \<and> snd a < mcNextObj c1"
          using c1(1) by (simp_all add: mc_inv_def)
        note f = mc_allocate_block_inv [OF objs al]
        have c2: "mcInited c2" using f(7) c1(3) ok by simp
        then have inv2: "mc_inv c2" using f(1) by (simp add: mc_inv_def mc_objects_def)
        obtain a as where cons: "mcFree c2 = a # as" "as \<noteq> []"
          using f(4) mc_block_facts [OF objs(1)] by (metis list.exhaust list.sel(3))
        have us: "mcUsing c2 = mcUsing c1" using al by (auto simp: mc_allocate_block_def split: if_splits)
        have "mc_live c1 = mc_objects c1" using Nil by (simp add: mc_live_def)
        moreover have "a \<notin> set as" "set as \<inter> mc_objects c1 = {}" "a \<notin> mc_objects c1"
            "mc_objects c2 = mc_objects c1 \<union> insert a (set as)"
          using f(2,3) inv2 cons(1) by (auto simp: mc_inv_def)
        ultimately show ?thesis
          using ok Nil al cons inv2 c1(2) us by (auto simp: fold r mc_live_def mc_inv_def)
      qed
    qed
  qed
qed

lemma mc_free_object_spec:
  assumes "mc_inv c" and "a \<in> mc_live c"
  shows "mc_inv (mc_free_object env a c) \<and> mc_live (mc_free_object env a c) = mc_live c - {a}"
proof -
  have "mcInited c" using assms by (auto simp: mc_inv_def mc_live_def)
  then show ?thesis
    using assms by (cases "mcFree c = []") (auto simp: mc_free_object_def mc_live_def mc_inv_def)
qed

interpretation mc: allocator mc_inv mc_live mc_get_object mc_free_object
  using mc_get_object_spec mc_free_object_spec
  by unfold_locales (force split: option.splits)+

text \<open>
  C6: no object of a cache is ever handed out twice: whatever the history of a cache with blocks of
  two objects or more, and in whatever order a client takes objects and gives them back, the objects
  it holds are different from each other and from all the objects that others hold.
\<close>

theorem mc_objects_handed_out_once:
  assumes "mc_inv c" and "mc.serve ops [] c = (objs, c')"
  shows "distinct objs \<and> set objs \<inter> mc_live c = {} \<and> mc_live c' = mc_live c \<union> set objs \<and> mc_inv c'"
  using mc.serve_fresh [OF assms] by blast

theorem mc_objects_handed_out_once_witness:
  "let env = \<lparr>memNow = 0, memNewOk = True\<rparr>; c = snd (mc_initialize env 256 2 True (mc_new 0 0));
       (objs, c') = mc.serve [Take env, Take env, Give env 1, Take env, Take env] [] c
   in distinct objs \<and> set objs \<inter> mc_live c = {} \<and> mc_live c' = mc_live c \<union> set objs \<and> mc_inv c'"
proof -
  let ?env = "\<lparr>memNow = 0, memNewOk = True\<rparr>"
  let ?c = "snd (mc_initialize ?env 256 2 True (mc_new 0 0))"
  have "mc_inv ?c"
    by (simp add: mc_initialize_def mc_new_def mc_real_initialize_def mc_allocate_block_def mc_block_def
        mc_inv_def mc_objects_def numeral_2_eq_2)
  from mc_objects_handed_out_once [OF this, of "[Take ?env, Take ?env, Give ?env 1, Take ?env, Take ?env]"]
  show ?thesis by (auto simp: Let_def simp del: mc.serve.simps split: prod.split)
qed

section \<open>The counters\<close>

text \<open>The number of used objects is kept modulo \<open>2^32\<close>.\<close>

definition mc_counted :: "mem_cache \<Rightarrow> bool" where
  "mc_counted c \<longleftrightarrow> mcUsing c = word_of_nat (card (mc_live c))"

lemma finite_mc_live [simp]: "finite (mc_live c)"
  by (simp add: mc_live_def mc_objects_def)

lemma mc_ready_using: "mcUsing (snd (mc_ready env c)) = mcUsing c"
  by (auto simp: mc_ready_def mc_real_initialize_def mc_allocate_block_def)

lemma mc_get_object_none_using:
  "fst (mc_get_object env c) = None \<Longrightarrow> mcUsing (snd (mc_get_object env c)) = mcUsing c"
  by (auto simp: mc_get_object_def mc_real_initialize_def mc_allocate_block_def Let_def
      split: list.splits if_splits)

lemma mc_get_object_counted:
  assumes "mc_inv c" and "mc_counted c"
  shows "mc_counted (snd (mc_get_object env c))"
proof (cases "fst (mc_get_object env c)")
  case None
  then show ?thesis
    using mc_get_object_spec [OF assms(1), of env] mc_get_object_none_using [OF None] assms(2)
    unfolding mc_counted_def by simp
next
  case (Some a)
  then have g: "a \<notin> mc_live c" "mc_live (snd (mc_get_object env c)) = insert a (mc_live c)"
      "mcUsing (snd (mc_get_object env c)) = mcUsing c + 1"
    using mc_get_object_spec [OF assms(1), of env] mc_ready_using [of env c] by simp_all
  show ?thesis
    using assms(2) card_insert_disjoint [OF finite_mc_live g(1)] unfolding mc_counted_def g(2,3)
    by (simp only: of_nat_Suc add.commute)
qed

lemma mc_free_object_using: "mcInited c \<Longrightarrow> mcUsing (mc_free_object env a c) = mcUsing c - 1"
  by (auto simp: mc_free_object_def Let_def split: option.split)

lemma mc_free_object_counted:
  assumes "mc_inv c" and "mc_counted c" and "a \<in> mc_live c"
  shows "mc_counted (mc_free_object env a c)"
proof -
  have init: "mcInited c" using assms by (auto simp: mc_inv_def mc_live_def)
  have "card (mc_live c) = Suc (card (mc_live c - {a}))"
    by (rule card.remove [OF finite_mc_live assms(3)])
  then have "word_of_nat (card (mc_live c)) - (1 :: u32) = word_of_nat (card (mc_live c - {a}))"
    by (simp only: of_nat_Suc add_diff_cancel_left')
  then show ?thesis
    using assms mc_free_object_spec [OF assms(1,3), of env] mc_free_object_using [OF init, of env a]
    by (simp add: mc_counted_def)
qed

lemma mc_unused:
  assumes "mc_counted c" and "card (mc_live c) < 2 ^ 32" and "mcUsing c = 0"
  shows "mc_live c = {}"
proof -
  have "unat (word_of_nat (card (mc_live c)) :: u32) = 0" using assms(1,3) by (simp add: mc_counted_def)
  then have "card (mc_live c) = 0" using assms(2) by (simp add: unat_of_nat)
  then show ?thesis by simp
qed

lemma mc_destroy_inv: "mc_inv c \<Longrightarrow> mc_inv (mc_destroy env c)"
  by (auto simp: mc_destroy_def mc_inv_def mc_objects_def)

lemma mc_destroy_live: "mcInited c \<Longrightarrow> mc_live (mc_destroy env c) = {} \<and> mc_counted (mc_destroy env c)"
  by (simp add: mc_destroy_def mc_live_def mc_objects_def mc_counted_def)

section \<open>CXElasticMemoryCache\<close>

text \<open>
  \<open>elCur\<close> and \<open>elBak\<close> are the caches behind \<open>m_pCacheObj\<close> and \<open>m_pCacheObjBak\<close>; \<open>m_bAutoCompactMemory\<close> is true from
  the constructor on.
\<close>

record elastic =
  elCur :: mem_cache
  elBak :: mem_cache
  elSwapping :: bool

definition el_new :: "nat \<Rightarrow> int \<Rightarrow> elastic" where
  "el_new tag now = \<lparr>elCur = mc_new (2 * tag) now, elBak = mc_new (2 * tag + 1) now, elSwapping = False\<rparr>"

definition el_initialize :: "mem_env \<Rightarrow> nat \<Rightarrow> nat \<Rightarrow> bool \<Rightarrow> elastic \<Rightarrow> bool \<times> elastic" where
  "el_initialize env osize num atOnce e =
     (let (ok, b) = mc_initialize env osize num False (elBak e);
          (ok, c) = mc_initialize env osize num atOnce (elCur e)
      in (ok, e\<lparr>elCur := c, elBak := b\<rparr>))"

definition el_destroy :: "mem_env \<Rightarrow> elastic \<Rightarrow> elastic" where
  "el_destroy env e = e\<lparr>elCur := mc_destroy env (elCur e), elBak := mc_destroy env (elBak e)\<rparr>"

definition el_compact_memory :: "mem_env \<Rightarrow> elastic \<Rightarrow> elastic res" where
  "el_compact_memory env e =
     bind_res
       (if \<not> elSwapping e \<and> 3 \<le> mcBlocksNumber (elCur e) \<and> mcUsing (elBak e) = 0 then
          if mcUsing (elCur e) = 0 then Inl DivByZero
          else if 3 \<le> mcTotal (elCur e) div mcUsing (elCur e)
          then Inr (e\<lparr>elCur := mc_record_used_time env (elBak e), elBak := elCur e, elSwapping := True\<rparr>)
          else Inr e
        else Inr e)
       (\<lambda>e. if elSwapping e \<and> mcUsing (elBak e) = 0
            then Inr (e\<lparr>elBak := mc_destroy env (elBak e), elSwapping := False\<rparr>)
            else Inr e)"

definition el_get_object :: "mem_env \<Rightarrow> elastic \<Rightarrow> (mem_obj option \<times> elastic) res" where
  "el_get_object env e = bind_res (el_compact_memory env e) (\<lambda>e.
     let (ob, c) = mc_get_object env (elCur e) in Inr (ob, e\<lparr>elCur := c\<rparr>))"

definition el_free_object :: "mem_env \<Rightarrow> mem_obj \<Rightarrow> elastic \<Rightarrow> elastic res" where
  "el_free_object env a e = bind_res (el_compact_memory env e) (\<lambda>e.
     Inr (if fst a = mcTag (elCur e) then e\<lparr>elCur := mc_free_object env a (elCur e)\<rparr>
          else e\<lparr>elBak := mc_free_object env a (elBak e)\<rparr>))"

definition el_get_unused_state :: "mem_env \<Rightarrow> elastic \<Rightarrow> int \<times> u32" where
  "el_get_unused_state env e =
     (if elSwapping e then (0, 0)
      else let (t, n) = mc_get_unused_state env (elCur e) in (t, n + mcUsing (elBak e)))"

definition el_live :: "elastic \<Rightarrow> mem_obj set" where
  "el_live e = mc_live (elCur e) \<union> mc_live (elBak e)"

definition el_inv :: "elastic \<Rightarrow> bool" where
  "el_inv e \<longleftrightarrow> mc_inv (elCur e) \<and> mc_inv (elBak e) \<and> mc_counted (elCur e) \<and> mc_counted (elBak e) \<and>
     mcTag (elCur e) \<noteq> mcTag (elBak e)"

lemma mc_tag_unchanged [simp]:
  "mcTag (snd (mc_get_object env c)) = mcTag c" "mcTag (mc_free_object env a c) = mcTag c"
  "mcTag (mc_destroy env c) = mcTag c" "mcTag (mc_record_used_time env c) = mcTag c"
  by (auto simp: mc_get_object_def mc_free_object_def mc_destroy_def mc_record_used_time_def Let_def
      mc_real_initialize_def mc_allocate_block_def split: list.splits option.splits)

lemma mc_record_used_time_facts [simp]:
  "mc_inv (mc_record_used_time env c) = mc_inv c" "mc_live (mc_record_used_time env c) = mc_live c"
  "mc_counted (mc_record_used_time env c) = mc_counted c"
  by (simp_all add: mc_record_used_time_def mc_counted_def)

lemma mc_destroy_unused:
  assumes "mc_inv c" and "mc_counted c" and "card (mc_live c) < 2 ^ 32" and "mcUsing c = 0"
  shows "mc_live (mc_destroy env c) = mc_live c" "mc_counted (mc_destroy env c)"
proof -
  have "mc_live c = {}" using mc_unused assms by blast
  then show "mc_live (mc_destroy env c) = mc_live c" "mc_counted (mc_destroy env c)"
    using assms(2) mc_destroy_live [of c env] by (cases "mcInited c"; simp add: mc_destroy_def)+
qed

text \<open>
  C7: compacting never takes an object away from its user, and fails in one case only: three blocks
  or more, none of whose objects is in use, which divides by zero.
\<close>

theorem elastic_compact_keeps_objects:
  assumes "el_inv e" and "card (el_live e) < 2 ^ 32"
  shows "case el_compact_memory env e of
      Inl f \<Rightarrow> f = DivByZero \<and> 3 \<le> mcBlocksNumber (elCur e) \<and> mc_live (elCur e) = {}
    | Inr e' \<Rightarrow> el_inv e' \<and> el_live e' = el_live e"
proof -
  have le: "card (mc_live (elCur e)) < 2 ^ 32" "card (mc_live (elBak e)) < 2 ^ 32"
    using assms(2) card_mono [of "el_live e" "mc_live (elCur e)"] card_mono [of "el_live e" "mc_live (elBak e)"]
    by (simp_all add: el_live_def)
  have i: "mc_inv (elCur e)" "mc_inv (elBak e)" "mc_counted (elCur e)" "mc_counted (elBak e)"
      "mcTag (elCur e) \<noteq> mcTag (elBak e)"
    using assms(1) by (simp_all add: el_inv_def)
  show ?thesis
  proof (cases "\<not> elSwapping e \<and> 3 \<le> mcBlocksNumber (elCur e) \<and> mcUsing (elBak e) = 0")
    case True
    show ?thesis
    proof (cases "mcUsing (elCur e) = 0")
      case zero: True
      then show ?thesis
        using True mc_unused [OF i(3) le(1)] by (simp add: el_compact_memory_def)
    next
      case False
      then show ?thesis
        using True i by (auto simp: el_compact_memory_def el_inv_def el_live_def)
    qed
  next
    case False
    then show ?thesis
      using i mc_destroy_inv [OF i(2), of env] mc_destroy_unused [OF i(2,4) le(2), of env]
      by (auto simp: el_compact_memory_def el_inv_def el_live_def)
  qed
qed

lemma mc_new_inv: "2 \<le> num \<Longrightarrow>
   mc_inv (snd (mc_initialize env osize num False (mc_new tag now))) \<and>
   mc_counted (snd (mc_initialize env osize num False (mc_new tag now))) \<and>
   mc_live (snd (mc_initialize env osize num False (mc_new tag now))) = {} \<and>
   mcTag (snd (mc_initialize env osize num False (mc_new tag now))) = tag"
  by (simp add: mc_initialize_def mc_new_def mc_inv_def mc_counted_def mc_live_def mc_objects_def)

theorem elastic_compact_keeps_objects_witness:
  "let env = \<lparr>memNow = 0, memNewOk = True\<rparr>; e = snd (el_initialize env 256 128 False (el_new 0 0))
   in case el_compact_memory env e of
      Inl f \<Rightarrow> f = DivByZero \<and> 3 \<le> mcBlocksNumber (elCur e) \<and> mc_live (elCur e) = {}
    | Inr e' \<Rightarrow> el_inv e' \<and> el_live e' = el_live e"
proof -
  let ?env = "\<lparr>memNow = 0, memNewOk = True\<rparr>"
  let ?e = "snd (el_initialize ?env 256 128 False (el_new 0 0))"
  have "el_inv ?e" "el_live ?e = {}"
    using mc_new_inv [of 128 ?env 256 0 0] mc_new_inv [of 128 ?env 256 1 0]
    by (simp_all add: el_initialize_def el_new_def el_inv_def el_live_def Let_def case_prod_beta)
  then show ?thesis
    using elastic_compact_keeps_objects [of ?e ?env] by (simp add: Let_def)
qed

section \<open>A division by zero that users can reach\<close>

datatype el_op = Take | Give mem_obj

fun el_run :: "mem_env \<Rightarrow> el_op list \<Rightarrow> elastic \<Rightarrow> elastic res" where
  "el_run env [] e = Inr e"
| "el_run env (Take # ops) e = bind_res (el_get_object env e) (\<lambda>(ob, e). el_run env ops e)"
| "el_run env (Give a # ops) e = bind_res (el_free_object env a e) (el_run env ops)"

text \<open>
  The first cache grows to three blocks and empties down to one object, so that the caches swap; the
  second one grows to three blocks and empties, too, while the last object of the first is still in
  use.  Giving back the last two objects destroys the first cache and leaves the second with three
  blocks and nothing in use.
\<close>

definition swap_history :: "el_op list" where
  "swap_history = replicate 5 Take @ [Give (0, 0), Give (0, 1), Give (0, 2), Give (0, 3)] @
     replicate 5 Take @ [Give (1, 0), Give (1, 1), Give (1, 2), Give (1, 3), Give (0, 4), Give (1, 4)]"

text \<open>
  After this history, in which every object is taken once and given back once, the next request
  divides the total by the zero objects in use.
\<close>

theorem elastic_division_by_zero:
  "let env = \<lparr>memNow = 0, memNewOk = True\<rparr>; e = snd (el_initialize env 256 2 False (el_new 0 0))
   in case el_run env swap_history e of
        Inl f \<Rightarrow> False
      | Inr e' \<Rightarrow> el_get_object env e' = Inl DivByZero"
  by code_simp

end
