(* ===== verification/Cache_Manager.thy ===== *)
theory Cache_Manager imports Main Memory_Cache Receive_Faults begin

text \<open>
  \<open>CXMemoryCacheManager\<close> (src/CXMemoryCache/src/CXMemoryCacheManager.cpp): thirteen classes of object
  sizes from 256 bytes to 1 MB, with up to ten elastic caches each.  \<open>rand ()\<close> is an argument.
\<close>

section \<open>Size classes\<close>

definition CX_CACHE_ARRAY_SIZE :: nat where "CX_CACHE_ARRAY_SIZE = 13"
definition MAX_CACHE_NUMBER_IN_ONE_KIND :: nat where "MAX_CACHE_NUMBER_IN_ONE_KIND = 10"

text \<open>The loop counts the shifts that bring the value down to 1.\<close>

fun shift_count :: "nat \<Rightarrow> nat" where
  "shift_count v = (if 1 < v then Suc (shift_count (v div 2)) else 0)"

declare shift_count.simps [simp del]

definition calculate_index :: "nat \<Rightarrow> nat" where
  "calculate_index n =
     (let v = n div 256
      in if 0 < v then (if n mod 256 \<noteq> 0 then Suc (shift_count v) else shift_count v) else 0)"

definition class_size :: "nat \<Rightarrow> nat" where
  "class_size i = 2 ^ i * 256"

lemma shift_count_bounds: "0 < v \<Longrightarrow> 2 ^ shift_count v \<le> v \<and> v < 2 ^ Suc (shift_count v)"
proof (induction v rule: shift_count.induct)
  case (1 v)
  show ?case
  proof (cases "1 < v")
    case False
    then show ?thesis using 1 by (simp add: shift_count.simps [of v])
  next
    case True
    then have "2 ^ shift_count (v div 2) \<le> v div 2" "v div 2 < 2 ^ Suc (shift_count (v div 2))"
      using 1 by auto
    then show ?thesis using True by (simp add: shift_count.simps [of v]) linarith
  qed
qed

lemma shift_count_unique: "2 ^ k \<le> v \<Longrightarrow> v < 2 ^ Suc k \<Longrightarrow> shift_count v = k"
proof -
  assume a: "2 ^ k \<le> v" "v < 2 ^ Suc k"
  then have "0 < v" by (metis gr0I le_zero_eq power_not_zero zero_neq_numeral)
  note b = shift_count_bounds [OF this]
  have "2 ^ k < (2 :: nat) ^ Suc (shift_count v)" "2 ^ shift_count v < (2 :: nat) ^ Suc k"
    using a b by linarith+
  then show ?thesis by (simp add: power_strict_increasing_iff del: power_Suc)
qed

text \<open>
  C9: the class of a request holds it, except when the size is a multiple of 256 that is no power of
  two times 256 (768, 1280, 1536, ...): then the object is too small.
\<close>

theorem class_holds_request:
  "n \<le> class_size (calculate_index n) \<longleftrightarrow> \<not> (256 dvd n \<and> 0 < n \<and> (\<forall>k. n div 256 \<noteq> 2 ^ k))"
proof (cases "n < 256")
  case True
  then have "n div 256 = 0" by simp
  moreover have "\<not> (256 dvd n \<and> 0 < n)" using True by (auto dest: dvd_imp_le)
  ultimately show ?thesis using True by (simp add: calculate_index_def class_size_def)
next
  case False
  let ?v = "n div 256"
  have v: "0 < ?v" using False by (simp add: div_greater_zero_iff)
  note b = shift_count_bounds [OF v]
  show ?thesis
  proof (cases "n mod 256 = 0")
    case True
    then have n: "n = ?v * 256" by auto
    have "n \<le> class_size (calculate_index n) \<longleftrightarrow> ?v \<le> 2 ^ shift_count ?v"
      using True v by (subst n) (simp add: calculate_index_def class_size_def)
    also have "\<dots> \<longleftrightarrow> (\<exists>k. ?v = 2 ^ k)"
    proof
      assume "?v \<le> 2 ^ shift_count ?v"
      then show "\<exists>k. ?v = 2 ^ k" using b by (intro exI [of _ "shift_count ?v"]) simp
    next
      assume "\<exists>k. ?v = 2 ^ k"
      then obtain k where k: "?v = 2 ^ k" by blast
      then have "shift_count ?v = k" by (intro shift_count_unique) simp_all
      then show "?v \<le> 2 ^ shift_count ?v" using k by simp
    qed
    finally show ?thesis using True False by (auto simp: dvd_eq_mod_eq_0)
  next
    case False
    have "n < Suc ?v * 256" using mod_less_divisor [of 256 n] div_mult_mod_eq [of n 256] by simp
    also have "\<dots> \<le> 2 ^ Suc (shift_count ?v) * 256" using b by (intro mult_le_mono1) simp
    finally have "n \<le> class_size (calculate_index n)"
      using False v by (simp add: calculate_index_def class_size_def)
    then show ?thesis using False by (simp add: dvd_eq_mod_eq_0)
  qed
qed

section \<open>The manager\<close>

text \<open>
  \<open>cmCaches\<close> is \<open>m_ppCaches\<close>: for each class none, or its array of ten pointers.  A buffer is the class,
  the place in the array, and the object.
\<close>

record cache_manager =
  cmInit :: nat
  cmMaxUsable :: nat
  cmMaxObject :: nat
  cmCaches :: "elastic option list option list"
  cmRunning :: bool

type_synonym buffer_ptr = "nat \<times> nat \<times> mem_obj"

definition cm_new :: cache_manager where
  "cm_new = \<lparr>cmInit = 4, cmMaxUsable = 1073741824, cmMaxObject = 1048576,
     cmCaches = replicate CX_CACHE_ARRAY_SIZE None, cmRunning = False\<rparr>"

definition cm_new_with :: "nat \<Rightarrow> nat \<Rightarrow> nat \<Rightarrow> cache_manager" where
  "cm_new_with caches maxMemory maxObject = \<lparr>cmInit = min caches MAX_CACHE_NUMBER_IN_ONE_KIND,
     cmMaxUsable = maxMemory, cmMaxObject = min maxObject 1048576,
     cmCaches = replicate CX_CACHE_ARRAY_SIZE None, cmRunning = False\<rparr>"

definition alloc_cache_and_init :: "mem_env \<Rightarrow> nat \<Rightarrow> nat \<Rightarrow> nat \<Rightarrow> bool \<Rightarrow> elastic option" where
  "alloc_cache_and_init env tag osize num atOnce =
     (let (ok, e) = el_initialize env osize num atOnce (el_new tag (memNow env))
      in if ok then Some e else None)"

text \<open>The array of a class: one cache for each index below \<open>m_dwInitCacheNumber\<close>, or none at all.\<close>

definition new_cache_array :: "mem_env \<Rightarrow> nat \<Rightarrow> nat \<Rightarrow> nat \<Rightarrow> nat \<Rightarrow> bool \<Rightarrow> elastic option list option" where
  "new_cache_array env n i osize num atOnce =
     (let arr = map (\<lambda>j. alloc_cache_and_init env (MAX_CACHE_NUMBER_IN_ONE_KIND * i + j) osize num atOnce) [0..<n]
      in if None \<in> set arr then None else Some (arr @ replicate (MAX_CACHE_NUMBER_IN_ONE_KIND - n) None))"

text \<open>The first empty place below \<open>m_dwInitCacheNumber\<close> of an array gets a cache.\<close>

fun fill_first :: "(nat \<Rightarrow> elastic option) \<Rightarrow> nat \<Rightarrow> nat \<Rightarrow> elastic option list \<Rightarrow> elastic option list option" where
  "fill_first mk j 0 arr = Some arr"
| "fill_first mk j (Suc n) [] = Some []"
| "fill_first mk j (Suc n) (None # arr) = (case mk j of None \<Rightarrow> None | Some e \<Rightarrow> Some (Some e # arr))"
| "fill_first mk j (Suc n) (Some e # arr) = map_option ((#) (Some e)) (fill_first mk (Suc j) n arr)"

definition add_cache :: "mem_env \<Rightarrow> nat \<Rightarrow> nat \<Rightarrow> nat option \<Rightarrow> bool \<Rightarrow> cache_manager \<Rightarrow> (int \<times> cache_manager) res" where
  "add_cache env osize num idx atOnce m =
     (if (case idx of None \<Rightarrow> False | Some i \<Rightarrow> CX_CACHE_ARRAY_SIZE < i) \<or> cmMaxUsable m < osize then Inr (- 1, m)
      else
        let i = (case idx of None \<Rightarrow> calculate_index osize | Some i \<Rightarrow> i) in
        if length (cmCaches m) \<le> i then Inl HeapOverflow
        else case cmCaches m ! i of
          None \<Rightarrow>
            (case new_cache_array env (cmInit m) i osize num atOnce of
               None \<Rightarrow> Inr (- 2, m)
             | Some arr \<Rightarrow> Inr (0, m\<lparr>cmCaches := (cmCaches m)[i := Some arr]\<rparr>))
        | Some arr \<Rightarrow>
            (case fill_first (\<lambda>j. alloc_cache_and_init env (MAX_CACHE_NUMBER_IN_ONE_KIND * i + j) osize num atOnce)
                    0 (cmInit m) arr of
               None \<Rightarrow> Inr (- 2, m)
             | Some arr \<Rightarrow> Inr (0, m\<lparr>cmCaches := (cmCaches m)[i := Some arr]\<rparr>)))"

text \<open>
  \<open>Init\<close>: the classes without an array get one; a configured class gets its configured number of
  objects at once, and the entry of the configuration is used up.
\<close>

fun take_config :: "nat \<Rightarrow> (nat \<times> nat) list \<Rightarrow> nat option \<times> (nat \<times> nat) list" where
  "take_config i [] = (None, [])"
| "take_config i ((osize, num) # cfg) =
     (if calculate_index osize = i then (Some num, cfg)
      else let (r, cfg) = take_config i cfg in (r, (osize, num) # cfg))"

fun init_classes :: "mem_env \<Rightarrow> nat list \<Rightarrow> (nat \<times> nat) list \<Rightarrow> cache_manager \<Rightarrow> (int \<times> cache_manager) res" where
  "init_classes env [] cfg m = Inr (0, m)"
| "init_classes env (i # is) cfg m =
     (if cmCaches m ! i \<noteq> None then init_classes env is cfg m
      else
        let (r, cfg) = take_config i cfg;
            num = (case r of None \<Rightarrow> 128 * (CX_CACHE_ARRAY_SIZE - i) | Some n \<Rightarrow> n)
        in bind_res (add_cache env (class_size i) num (Some i) (r \<noteq> None) m) (\<lambda>(r, m).
             if r \<noteq> 0 then Inr (- 2, m) else init_classes env is cfg m))"

definition cm_init :: "mem_env \<Rightarrow> bool \<Rightarrow> (nat \<times> nat) list \<Rightarrow> cache_manager \<Rightarrow> (int \<times> cache_manager) res" where
  "cm_init env threadOk cfg m =
     bind_res (init_classes env [0..<CX_CACHE_ARRAY_SIZE] cfg m) (\<lambda>(r, m).
       if r \<noteq> 0 then Inr (r, m)
       else let m = m\<lparr>cmRunning := True\<rparr> in Inr (if threadOk then 0 else - 3, m))"

definition cm_destroy :: "cache_manager \<Rightarrow> cache_manager" where
  "cm_destroy m = (if cmRunning m
     then m\<lparr>cmRunning := False, cmCaches := replicate (length (cmCaches m)) None\<rparr> else m)"

definition el_is_have_object :: "elastic \<Rightarrow> bool" where
  "el_is_have_object e = mc_is_have_object (elCur e)"

text \<open>The loop over the other caches of the class, once the drawn one had no object.\<close>

fun get_from_others :: "mem_env \<Rightarrow> nat \<Rightarrow> nat \<Rightarrow> elastic option list \<Rightarrow>
    ((nat \<times> mem_obj) option \<times> elastic option list) res" where
  "get_from_others env j 0 arr = Inr (None, arr)"
| "get_from_others env j (Suc n) [] = Inr (None, [])"
| "get_from_others env j (Suc n) (None # arr) =
     bind_res (get_from_others env (Suc j) n arr) (\<lambda>(r, arr). Inr (r, None # arr))"
| "get_from_others env j (Suc n) (Some e # arr) =
     (if el_is_have_object e then
        bind_res (el_get_object env e) (\<lambda>(ob, e).
          case ob of
            Some a \<Rightarrow> Inr (Some (j, a), Some e # arr)
          | None \<Rightarrow> bind_res (get_from_others env (Suc j) n arr) (\<lambda>(r, arr). Inr (r, Some e # arr)))
      else bind_res (get_from_others env (Suc j) n arr) (\<lambda>(r, arr). Inr (r, Some e # arr)))"

definition cm_get_buffer :: "mem_env \<Rightarrow> nat \<Rightarrow> nat \<Rightarrow> cache_manager \<Rightarrow> (buffer_ptr option \<times> cache_manager) res" where
  "cm_get_buffer env rnd n m =
     (if cmMaxObject m < n then Inr (None, m)
      else
        let i = calculate_index n in
        case cmCaches m ! i of
          None \<Rightarrow> Inr (None, m)
        | Some arr \<Rightarrow>
            if cmInit m = 0 then Inl DivByZero
            else
              let j = rnd mod cmInit m in
              case arr ! j of
                None \<Rightarrow> Inr (None, m)
              | Some e \<Rightarrow>
                  bind_res (el_get_object env e) (\<lambda>(ob, e).
                    let arr = arr[j := Some e] in
                    case ob of
                      Some a \<Rightarrow> Inr (Some (i, j, a), m\<lparr>cmCaches := (cmCaches m)[i := Some arr]\<rparr>)
                    | None \<Rightarrow>
                        bind_res (get_from_others env 0 (cmInit m) arr) (\<lambda>(r, arr).
                          Inr (map_option (\<lambda>(j, a). (i, j, a)) r, m\<lparr>cmCaches := (cmCaches m)[i := Some arr]\<rparr>))))"

definition cm_free_buffer :: "mem_env \<Rightarrow> buffer_ptr option \<Rightarrow> cache_manager \<Rightarrow> cache_manager res" where
  "cm_free_buffer env p m =
     (case p of
        None \<Rightarrow> Inr m
      | Some (i, j, a) \<Rightarrow>
          (case cmCaches m ! i of
             None \<Rightarrow> Inl UseAfterFree
           | Some arr \<Rightarrow>
               (case arr ! j of
                  None \<Rightarrow> Inl UseAfterFree
                | Some e \<Rightarrow> bind_res (el_free_object env a e) (\<lambda>e.
                    Inr (m\<lparr>cmCaches := (cmCaches m)[i := Some (arr[j := Some e])]\<rparr>)))))"

text \<open>\<open>MemcpyBytes\<close> and \<open>MemsetZero\<close> check the size of the object before they write.\<close>

definition cm_memcpy_bytes :: "nat \<Rightarrow> byte list \<Rightarrow> nat \<Rightarrow> byte list \<Rightarrow> bool \<times> byte list" where
  "cm_memcpy_bytes osize dst off src =
     (if off + length src \<le> osize then (True, memcpy dst off src) else (False, dst))"

definition cm_memset_zero :: "nat \<Rightarrow> byte list \<Rightarrow> nat \<Rightarrow> byte list" where
  "cm_memset_zero osize dst n = (if n \<le> osize then memcpy dst 0 (replicate n 0) else dst)"

text \<open>One pass of the checking thread: caches that nobody has used for a minute are destroyed.\<close>

definition cm_check_pass :: "mem_env \<Rightarrow> cache_manager \<Rightarrow> cache_manager" where
  "cm_check_pass env m = m\<lparr>cmCaches := map (map_option (\<lambda>arr.
      map (map_option (\<lambda>e. case el_get_unused_state env e of (t, n) \<Rightarrow>
        if n = 0 \<and> 60 < t then el_destroy env e else e)) (take (cmInit m) arr) @ drop (cmInit m) arr)) (cmCaches m)\<rparr>"

section \<open>What a connection gets\<close>

text \<open>The allocator that the connections see: every class is there, and has memory.\<close>

definition server_alloc :: "nat \<Rightarrow> nat option" where
  "server_alloc n = (if n \<le> 1048576 then Some (class_size (calculate_index n)) else None)"

text \<open>
  C10: a correct packet with a body of 676 bytes, sent as the first one, makes the receiver ask for
  768 bytes, get an object of 512, and write behind its end.
\<close>

theorem recv_overflows_object:
  assumes "fresh_receiver c" and "buffer_wf b" and "bufSeq b = 1"
    and "buffer_left b = wire (h, body)" and "length body = 676" and "dwDataLen h = 676"
    and "wFlag h = CX_PACKET_HEADER_FLAG" and "envAlloc env = server_alloc"
  shows "recv_packet env (Some b) c = Some (Inl HeapOverflow)"
proof -
  define c0 where "c0 = (record_packet_time (envNow env) c)\<lparr>conReadBuf := [b],
     conReadBufEnd := Some (bufAddr b), conBuffersInList := conBuffersInList c + 1,
     conPostedRecv := conPostedRecv c - 1\<rparr>"
  have "push_received_buffer (envNow env) (Some b) c = Inr (True, c0)"
    using assms(1) by (simp add: push_received_buffer_def push_seq_def fresh_receiver_def c0_def Let_def
        record_packet_time_def)
  then have call: "recv_packet env (Some b) c = recv_loop env (recv_fuel [b]) [b] (scan_start c0) c0"
    using assms(1) by (simp add: recv_packet_def fresh_receiver_def receiver_ready_def c0_def)
  have idx: "conLastProcessBufferIndex c0 = 0"
    using assms(1) by (simp add: c0_def record_packet_time_def fresh_receiver_def)
  have len: "bufLen b = 692"
    using length_buffer_left [OF assms(2)] assms(4,5) by (simp add: sizes)
  have "take sizeof_header (buffer_left b) = header_bytes h" using assms(4) by (simp add: wire_def)
  then have ch: "copy_header b (scan_start c0) = ((scan_start c0)\<lparr>scanHeader := header_bytes h,
      scanUsed := sizeof_header\<rparr>, 676, bufCur b + sizeof_header)"
    using copy_header_rel [of "scan_start c0" "[]" b sizeof_header] assms(2) len
    by (simp add: scan_start_def min_def sizes split: if_splits)
  have hdr: "header_of (header_bytes h) = h" using header_of_bytes [of h "[]"] by simp
  have "calculate_index 768 = 1" by (simp add: calculate_index_def shift_count.simps)
  then have cap: "server_alloc 768 = Some 512" by (simp add: server_alloc_def class_size_def)
  obtain n where n: "recv_fuel [b] = Suc n" by (simp only: recv_fuel_def)
  show ?thesis
    using call [unfolded n] assms(3,6-8) idx len ch hdr cap
    by (simp add: scan_start_def Let_def message_for_packet_def copy_body_def sizes CX_MAX_CHACHE_SIZE_def
        new_message_addr_def)
qed

definition large_header :: packet_header where
  "large_header = \<lparr>wFlag = CX_PACKET_HEADER_FLAG, byCompressFlag = 0, byEncryptFlag = 0,
     dwDataLen = 676, dwCheckSum = 0, dwOrignDataLen = 676\<rparr>"

theorem recv_overflows_object_witness:
  "recv_packet (demo_env\<lparr>envAlloc := server_alloc\<rparr>)
     (Some (demo_buffer 1 (wire (large_header, replicate 676 0)))) demo_connection = Some (Inl HeapOverflow)"
proof (rule recv_overflows_object [OF demo_ok(1)])
  show "buffer_left (demo_buffer 1 (wire (large_header, replicate 676 0))) = wire (large_header, replicate 676 0)"
    by (simp add: demo_buffer_def buffer_left_def)
qed (simp_all add: demo_buffer_def buffer_wf_def large_header_def)

end
