(* ===== verification/Send.thy ===== *)
theory Send imports Main Connection begin

text \<open>
  The send path of src/CXCommunicationServer/src/CXConnectionObject.cpp: \<open>SendPacket\<close>,
  \<open>PreparedAndSendPacket\<close>, \<open>SendAssembledPacket\<close>, \<open>PostSend\<close>, \<open>PushSendBuffer\<close>, \<open>SendDataList\<close>, \<open>SendData\<close>,
  \<open>FreeSendingList\<close>, and the reading of the socket, \<open>RecvData\<close>; the branches for Linux.
\<close>

section \<open>Sockets\<close>

text \<open>
  A nonblocking socket: the bytes the kernel has taken so far, and what the next calls of \<open>send\<close> return.
  When nothing is foreseen the kernel takes everything that is offered.
\<close>

datatype send_result = Wrote nat | Again | ConnReset | Interrupted | OtherError

record sock =
  sckOut :: "byte list"
  sckScript :: "send_result list"

datatype closed_type = NORMAL | SERVER_EXIT | TIME_OUT | ILLEGAL_CONNECTION | SOCKET_CLOSED
  | ERROR_IN_PROCESS | SOCKET_OTHER_ERROR | SOCKET_PEER_CLOSED

text \<open>How the writing of a buffer ends: all written, would block, or an error that closes.\<close>

datatype send_end = AllSent | WouldBlock | SendFailed int closed_type

text \<open>The inner loop of \<open>SendDataList\<close>: how it ends, the bytes written, the calls left.\<close>

fun send_bytes :: "send_result list \<Rightarrow> nat \<Rightarrow> send_end \<times> nat \<times> send_result list" where
  "send_bytes [] left = (AllSent, left, [])"
| "send_bytes (r # rs) left =
     (if left = 0 then (AllSent, 0, r # rs)
      else case r of
        Again \<Rightarrow> (WouldBlock, 0, rs)
      | ConnReset \<Rightarrow> (SendFailed (- 2) SOCKET_PEER_CLOSED, 0, rs)
      | Interrupted \<Rightarrow> send_bytes rs left
      | OtherError \<Rightarrow> (SendFailed (- 2) SOCKET_OTHER_ERROR, 0, rs)
      | Wrote k \<Rightarrow>
          if k = 0 then (SendFailed (- 3) SOCKET_PEER_CLOSED, 0, rs)
          else if left \<le> k then (AllSent, left, rs)
          else (case send_bytes rs (left - k) of (e, n, rs) \<Rightarrow> (e, k + n, rs)))"

text \<open>
  \<open>SendData\<close>, used by the blocking variant, differs: it tries again at once when the call would block.
  The result is its return code and the number of bytes written.
\<close>

fun send_data :: "send_result list \<Rightarrow> nat \<Rightarrow> int \<times> nat \<times> send_result list" where
  "send_data [] left = (0, left, [])"
| "send_data (r # rs) left =
     (if left = 0 then (0, 0, r # rs)
      else case r of
        Again \<Rightarrow> send_data rs left
      | ConnReset \<Rightarrow> (- 2, 0, rs)
      | Interrupted \<Rightarrow> send_data rs left
      | OtherError \<Rightarrow> (- 2, 0, rs)
      | Wrote k \<Rightarrow>
          if k = 0 then (- 3, 0, rs)
          else if left \<le> k then (0, left, rs)
          else (case send_data rs (left - k) of (r, n, rs) \<Rightarrow> (r, k + n, rs)))"

section \<open>The environment of a call\<close>

text \<open>
  The allocator, the thread cache, \<open>PrepareData\<close> of the data parser, whether the task pool has a prepare
  task, whether the connection has a socket kernel and whether \<open>SetWaitWritingEvent\<close> succeeds, and
  \<open>CXCommunicationServer::CloseConnection\<close> on this connection.
\<close>

record send_env =
  senAlloc :: "nat \<Rightarrow> nat option"
  senThreadCache :: "int \<Rightarrow> bool"
  senPrepare :: "byte \<Rightarrow> byte \<Rightarrow> byte list \<Rightarrow> nat \<Rightarrow> nat \<Rightarrow> byte list option"
  senPrepTask :: bool
  senKernel :: bool
  senWaitWriting :: bool
  senClose :: "closed_type \<Rightarrow> connection \<Rightarrow> connection"

section \<open>Buffers\<close>

definition buffer_head :: nat where
  "buffer_head = sizeof_buffer_obj - CX_BUF_SIZE"

text \<open>\<open>GetCXBufferObj\<close>: the object is zeroed; its data area is what the object has behind the
  other fields.\<close>

definition get_buffer_obj :: "send_env \<Rightarrow> u32 \<Rightarrow> connection \<Rightarrow> (buffer_obj \<times> connection) option" where
  "get_buffer_obj env n c =
     (case senAlloc env (unat n) of
        None \<Rightarrow> None
      | Some cap \<Rightarrow>
          let (a, c) = new_message_addr c
          in Some (\<lparr>bufAddr = a, bufSeq = 0, bufData = replicate (cap - offset_buffer_data) 0, bufCur = 0,
                    bufLen = CX_BUF_SIZE\<rparr>, c))"

definition get_send_buffer_obj :: "send_env \<Rightarrow> u32 \<Rightarrow> connection \<Rightarrow> (buffer_obj \<times> connection) option" where
  "get_send_buffer_obj env n c =
     get_buffer_obj env (n + word_of_nat buffer_head + word_of_nat sizeof_packet_data - 1) c"

text \<open>Writing into the data area of a buffer.\<close>

definition write_buffer :: "nat \<Rightarrow> byte list \<Rightarrow> buffer_obj \<Rightarrow> buffer_obj res" where
  "write_buffer off bs b =
     (if length (bufData b) < off + length bs then Inl HeapOverflow
      else Inr (b\<lparr>bufData := memcpy (bufData b) off bs\<rparr>))"

section \<open>The sending list\<close>

definition push_send_buffer :: "buffer_obj option \<Rightarrow> connection \<Rightarrow> (bool \<times> connection) res" where
  "push_send_buffer ob c =
     (case ob of
        None \<Rightarrow> Inr (False, c)
      | Some b \<Rightarrow> bind_res (push_seq bufSeq bufAddr b (conSendBuf c) (conSendBufEnd c)) (\<lambda>(ok, xs, e).
          Inr (ok, c\<lparr>conSendBuf := xs, conSendBufEnd := e\<rparr>)))"

text \<open>
  One buffer of \<open>SendDataList\<close>.  The result is the new return code and whether the loop goes on with the
  next buffer.
\<close>

definition pop_sent :: "connection \<Rightarrow> connection res" where
  "pop_sent c =
     (let rest = tl (conSendBuf c);
          c' = c\<lparr>conLastSentSeq := conLastSentSeq c + 1, conSendBuf := rest,
                conSendBufEnd := (if rest = [] then None else conSendBufEnd c)\<rparr>
      in free_message (bufAddr (hd (conSendBuf c))) c')"

definition close_after_send :: "send_env \<Rightarrow> closed_type option \<Rightarrow> connection \<Rightarrow> connection" where
  "close_after_send env close c =
     (case close of
        Some t \<Rightarrow> senClose env t c
      | None \<Rightarrow> if conState c = CLOSING then senClose env SOCKET_CLOSED c else c)"

fun send_data_loop :: "send_env \<Rightarrow> nat \<Rightarrow> int \<Rightarrow> closed_type option \<Rightarrow> connection \<Rightarrow> sock \<Rightarrow> (int \<times> connection \<times> sock) res" where
  "send_data_loop env 0 r close c s = Inr (r, c, s)"
| "send_data_loop env (Suc n) r close c s =
     (case conSendBuf c of
        [] \<Rightarrow> Inr (r, c, s)
      | b # rest \<Rightarrow>
          if bufSeq b \<noteq> conLastSentSeq c + 1 then Inr (r, c, s)
          else
            let (e, k, script) = send_bytes (sckScript s) (bufLen b);
                s = s\<lparr>sckOut := sckOut s @ take k (buffer_left b), sckScript := script\<rparr>
            in case e of
                 WouldBlock \<Rightarrow>
                   let c = c\<lparr>conSendBuf := b\<lparr>bufCur := bufCur b + k, bufLen := bufLen b - k\<rparr> # rest\<rparr>
                   in Inr (if senWaitWriting env then 0 else - 4, c, s)
               | AllSent \<Rightarrow>
                   bind_res (pop_sent c) (\<lambda>c.
                     send_data_loop env n r close (close_after_send env close c) s)
               | SendFailed r' t \<Rightarrow>
                   bind_res (pop_sent c) (\<lambda>c.
                     send_data_loop env n r' (Some t) (close_after_send env (Some t) c) s))"

definition send_data_list :: "send_env \<Rightarrow> connection \<Rightarrow> sock \<Rightarrow> (int \<times> connection \<times> sock) res" where
  "send_data_list env c s = send_data_loop env (length (conSendBuf c)) 0 None c s"

definition post_send :: "send_env \<Rightarrow> buffer_obj \<Rightarrow> connection \<Rightarrow> sock \<Rightarrow> (int \<times> connection \<times> sock) res" where
  "post_send env b c s =
     (if \<not> senKernel env \<or> bufLen b = 0 \<or> CX_MAX_CHACHE_SIZE < bufLen b then Inr (- 1, c, s)
      else if conState c = CLOSING \<or> conState c = CLOSED then Inr (- 4, c, s)
      else bind_res (push_send_buffer (Some b) c) (\<lambda>(ok, c).
        if \<not> ok then bind_res (free_message (bufAddr b) c) (\<lambda>c. Inr (- 2, c, s))
        else if conState c \<noteq> ESTABLISHED then Inr (0, c, s)
        else send_data_list env c s))"

definition free_sending_list :: "connection \<Rightarrow> connection res" where
  "free_sending_list c =
     (if conSendBuf c = [] then Inr c
      else bind_res (foldl (\<lambda>r b. bind_res r (free_message (bufAddr b))) (Inr c) (conSendBuf c)) (\<lambda>c.
        Inr (c\<lparr>conSendBuf := [], conSendBufEnd := None\<rparr>)))"

section \<open>Packets\<close>

definition send_assembled_packet :: "send_env \<Rightarrow> buffer_obj \<Rightarrow> u32 \<Rightarrow> connection \<Rightarrow> sock \<Rightarrow> (bool \<times> connection \<times> sock) res" where
  "send_assembled_packet env b orig c s =
     (let body = take (bufLen b - sizeof_header) (drop sizeof_header (bufData b));
          h = \<lparr>wFlag = CX_PACKET_HEADER_FLAG, byCompressFlag = conCompress c, byEncryptFlag = conEncrypt c,
               dwDataLen = word_of_nat (bufLen b) - word_of_nat sizeof_header, dwCheckSum = check_sum body,
               dwOrignDataLen = orig\<rparr>
      in bind_res (write_buffer 0 (header_bytes h) b) (\<lambda>b.
           bind_res (post_send env b c s) (\<lambda>(r, c, s). Inr (r = 0, c, s))))"

definition prepare_cache_len :: "u32 \<Rightarrow> u32" where
  "prepare_cache_len n = (if n * 2 < 256 then 256 else n * 2)"

definition prepare_buffer_len :: "u32 \<Rightarrow> u32" where
  "prepare_buffer_len n =
     (let k = n * 2 + word_of_nat sizeof_header + word_of_nat buffer_head in if k < 512 then 512 else k + 256)"

text \<open>
  The sequence number is read from the input buffer after it was given back; the object cache does not
  write to free objects, so it is still there.
\<close>

definition prepare_and_send_packet :: "send_env \<Rightarrow> buffer_obj \<Rightarrow> connection \<Rightarrow> sock \<Rightarrow> (bool \<times> connection \<times> sock) res" where
  "prepare_and_send_packet env b c s =
     (let bodyLen = word_of_nat (bufLen b) - word_of_nat sizeof_header :: u32;
          body = take (bufLen b - sizeof_header) (drop sizeof_header (bufData b));
          cacheLen = prepare_cache_len bodyLen;
          failed = bind_res (free_message (bufAddr b) c) (\<lambda>c. Inr (False, c, s))
      in if \<not> (senThreadCache env (uint cacheLen) \<or> senAlloc env (unat cacheLen) \<noteq> None) then failed
         else case get_buffer_obj env (prepare_buffer_len bodyLen) c of
           None \<Rightarrow> failed
         | Some (b', c) \<Rightarrow>
             (case senPrepare env (conEncrypt c) (conCompress c) body (unat cacheLen) (unat cacheLen) of
                None \<Rightarrow> bind_res (free_message (bufAddr b) c) (\<lambda>c.
                          bind_res (free_message (bufAddr b') c) (\<lambda>c. Inr (False, c, s)))
              | Some out \<Rightarrow>
                  bind_res (write_buffer sizeof_header out b') (\<lambda>b'.
                  bind_res (free_message (bufAddr b) c) (\<lambda>c.
                    send_assembled_packet env
                      (b'\<lparr>bufSeq := bufSeq b, bufLen := length out + sizeof_header\<rparr>) bodyLen c s))))"

text \<open>\<open>SendPacket\<close> on a buffer whose data are already behind the body's fields.\<close>

definition packet_body_head :: "u32 \<Rightarrow> message option \<Rightarrow> connection \<Rightarrow> byte list" where
  "packet_body_head code om c =
     (case om of
        Some m \<Rightarrow> take CX_GUID_LEN (mesBody m) @ take CX_GUID_LEN (drop CX_GUID_LEN (mesBody m))
      | None \<Rightarrow> conObjectID c @ conRequestID c)
     @ le_enc 4 (unat code) @ le_enc 4 (unat (ucast (conSendBufferIndex c) :: u32))"

definition send_packet_buffer ::
  "send_env \<Rightarrow> buffer_obj \<Rightarrow> nat \<Rightarrow> u32 \<Rightarrow> message option \<Rightarrow> connection \<Rightarrow> sock \<Rightarrow> (bool \<times> connection \<times> sock) res" where
  "send_packet_buffer env b n code om c s =
     (if n = 0 \<or> \<not> conServer c then bind_res (free_message (bufAddr b) c) (\<lambda>c. Inr (False, c, s))
      else bind_res (write_buffer sizeof_header (packet_body_head code om c) b) (\<lambda>b.
        let b = b\<lparr>bufSeq := conCurSendSeq c, bufLen := n + sizeof_packet_data - 1\<rparr>;
            c = c\<lparr>conSendBufferIndex := conSendBufferIndex c + 1, conCurSendSeq := conCurSendSeq c + 1\<rparr>
        in if conEncrypt c \<noteq> 0 \<or> conCompress c \<noteq> 0 then
             if \<not> conParser c then bind_res (free_message (bufAddr b) c) (\<lambda>c. Inr (False, c, s))
             else if conTaskPool c \<and> conAsyncPrepare c then
               if \<not> senPrepTask env then bind_res (free_message (bufAddr b) c) (\<lambda>c. Inr (False, c, s))
               else Inr (True, c\<lparr>conAsyncMes := True, conPrepTasks := conPrepTasks c @ [(om, b)]\<rparr>, s)
             else prepare_and_send_packet env b c s
           else send_assembled_packet env b (word_of_nat (bufLen b) - word_of_nat sizeof_header) c s))"

text \<open>\<open>SendPacket\<close> on the caller's data.\<close>

definition send_packet ::
  "send_env \<Rightarrow> byte list \<Rightarrow> u32 \<Rightarrow> message option \<Rightarrow> connection \<Rightarrow> sock \<Rightarrow> (bool \<times> connection \<times> sock) res" where
  "send_packet env bs code om c s =
     (if bs = [] \<or> \<not> conServer c then Inr (False, c, s)
      else case get_buffer_obj env (word_of_nat (length bs) + word_of_nat sizeof_packet_data - 1
                    + word_of_nat buffer_head) c of
        None \<Rightarrow> Inr (False, c, s)
      | Some (b, c) \<Rightarrow> bind_res (write_buffer (sizeof_packet_data - 1) bs b) (\<lambda>b.
          send_packet_buffer env b (length bs) code om c s))"

section \<open>Reading the socket\<close>

text \<open>What the next calls of \<open>recv\<close> return, and the bytes in the network; with nothing foreseen the
  call would block.\<close>

datatype recv_result = GotUpTo nat | RecvAgain | RecvReset | RecvInterrupted | RecvError | PeerClosed

text \<open>The loop of \<open>RecvData\<close>: its code, the bytes read, the bytes and calls left.\<close>

fun recv_bytes :: "recv_result list \<Rightarrow> byte list \<Rightarrow> nat \<Rightarrow> int \<times> byte list \<times> byte list \<times> recv_result list" where
  "recv_bytes [] net left = (if left = 0 then 0 else - 1, [], net, [])"
| "recv_bytes (r # rs) net left =
     (if left = 0 then (0, [], net, r # rs)
      else case r of
        RecvAgain \<Rightarrow> (- 1, [], net, rs)
      | RecvReset \<Rightarrow> (- 2, [], net, rs)
      | RecvInterrupted \<Rightarrow> recv_bytes rs net left
      | RecvError \<Rightarrow> (- 2, [], net, rs)
      | PeerClosed \<Rightarrow> (- 3, [], net, rs)
      | GotUpTo k \<Rightarrow>
          let n = min k (min left (length net)) in
          if n = 0 then (- 1, [], net, rs)
          else (case recv_bytes rs (drop n net) (left - n) of
                  (c, bs, net', rs) \<Rightarrow> (c, take n net @ bs, net', rs)))"

definition recv_data :: "send_env \<Rightarrow> recv_result list \<Rightarrow> byte list \<Rightarrow> connection \<Rightarrow>
    int \<times> buffer_obj option \<times> byte list \<times> recv_result list \<times> connection" where
  "recv_data env rs net c =
     (if conState c = CLOSING \<or> conState c = CLOSED then (- 4, None, net, rs, c)
      else case get_buffer_obj env (word_of_nat sizeof_buffer_obj) c of
        None \<Rightarrow> (- 2, None, net, rs, c)
      | Some (b, c') \<Rightarrow>
          let (r, bs, net, rs) = recv_bytes rs net CX_BUF_SIZE
          in if bs = [] then (r, None, net, rs, c)
             else (r, Some (b\<lparr>bufSeq := conRecvBufferIndex c + 1, bufLen := length bs,
                             bufData := memcpy (bufData b) 0 bs\<rparr>), net, rs,
                   c'\<lparr>conRecvBufferIndex := conRecvBufferIndex c + 1, conPostedRecv := conPostedRecv c + 1\<rparr>))"

text \<open>
  The part of \<open>ProcessEpollEvent\<close> for a readable socket: \<open>RecvData\<close> until its code is negative, every
  buffer given to \<open>OnRead\<close>, and \<open>OnClose\<close> called for the codes -2 and -3 (the second result).  The
  handlers run in between; of what \<open>RecvData\<close> uses they change the state only.
\<close>

lemma recv_bytes_script:
  "recv_bytes rs net left = (r, bs, net', rs') \<Longrightarrow> length rs' \<le> length rs \<and> (0 \<le> r \<and> 0 < left \<longrightarrow> length rs' < length rs)"
proof (induction rs arbitrary: net left r bs net' rs')
  case (Cons x rs)
  show ?case
  proof (cases x)
    case (GotUpTo k)
    then show ?thesis
      using Cons.prems Cons.IH
      by (fastforce simp: Let_def split: if_splits prod.splits)
  next
    case RecvInterrupted
    then show ?thesis using Cons.prems Cons.IH [of net left] by (auto split: if_splits)
  qed (use Cons.prems in \<open>auto split: if_splits\<close>)
qed (auto split: if_splits)

lemma recv_data_script:
  assumes "recv_data env rs net c = (r, ob, net', rs', c')" and "0 \<le> r"
  shows "length rs' < length rs"
proof -
  obtain r2 bs2 net2 rs2 where b: "recv_bytes rs net CX_BUF_SIZE = (r2, bs2, net2, rs2)"
    by (cases "recv_bytes rs net CX_BUF_SIZE")
  then have "r = r2 \<and> rs' = rs2"
    using assms by (auto simp: recv_data_def split: if_splits option.splits)
  then show ?thesis using recv_bytes_script [OF b] assms(2) by (simp add: CX_BUF_SIZE_def)
qed

function read_event :: "send_env \<Rightarrow> recv_result list \<Rightarrow> byte list \<Rightarrow> connection \<Rightarrow>
    buffer_obj list \<times> bool \<times> byte list \<times> recv_result list \<times> connection" where
  "read_event env rs net c =
     (case recv_data env rs net c of (r, ob, net', rs', c') \<Rightarrow>
        let got = (case ob of None \<Rightarrow> [] | Some b \<Rightarrow> [b]) in
        if r < 0 then (got, r = - 3 \<or> r = - 2, net', rs', c')
        else (case read_event env rs' net' c' of (bs, closed, rest) \<Rightarrow> (got @ bs, closed, rest)))"
  by auto
termination by (relation "measure (\<lambda>(env, rs, net, c). length rs)") (auto simp: not_less intro: recv_data_script [OF sym])

declare read_event.simps [simp del]

text \<open>Readable events until the socket is closed.\<close>

fun read_events :: "send_env \<Rightarrow> nat \<Rightarrow> recv_result list \<Rightarrow> byte list \<Rightarrow> connection \<Rightarrow>
    buffer_obj list \<times> byte list \<times> connection" where
  "read_events env 0 rs net c = ([], net, c)"
| "read_events env (Suc n) rs net c =
     (case read_event env rs net c of (bs, closed, net, rs, c) \<Rightarrow>
        if closed then (bs, net, c)
        else (case read_events env n rs net c of (bs2, net, c) \<Rightarrow> (bs @ bs2, net, c)))"

end
