(* ===== verification/Send_Correct.thy ===== *)
theory Send_Correct imports Main Send Delivery begin

text \<open>
  What the sending list achieves: whatever the order in which the buffers are posted and whatever the
  socket takes at a time, the bytes that leave are the buffers in the order of their numbers.
\<close>

section \<open>Writing one buffer\<close>

text \<open>A socket that does not fail.\<close>

fun gentle :: "send_result \<Rightarrow> bool" where
  "gentle (Wrote k) = (0 < k)"
| "gentle Again = True"
| "gentle Interrupted = True"
| "gentle ConnReset = False"
| "gentle OtherError = False"

lemma send_bytes_gentle:
  "\<forall>r\<in>set rs. gentle r \<Longrightarrow> send_bytes rs left = (e, k, rs') \<Longrightarrow>
   (e = AllSent \<and> k = left \<or> e = WouldBlock \<and> k < left \<and> rs \<noteq> []) \<and>
   (\<exists>pre. rs = pre @ rs' \<and> (e = WouldBlock \<longrightarrow> pre \<noteq> []))"
proof (induction rs arbitrary: left e k rs')
  case Nil
  then show ?case by simp
next
  case (Cons r rs)
  have ih: "(e = AllSent \<and> k = left \<or> e = WouldBlock \<and> k < left \<and> rs \<noteq> []) \<and>
      (\<exists>pre. rs = pre @ rs' \<and> (e = WouldBlock \<longrightarrow> pre \<noteq> []))"
    if "send_bytes rs left = (e, k, rs')" for left e k rs'
    using Cons.IH [OF _ that] Cons.prems(1) by simp
  show ?case
  proof (cases "left = 0")
    case True
    then show ?thesis using Cons.prems(2) by auto
  next
    case False
    show ?thesis
    proof (cases r)
      case (Wrote n)
      show ?thesis
      proof (cases "n = 0 \<or> left \<le> n")
        case True
        then show ?thesis using Cons.prems Wrote False by auto
      next
        case more: False
        obtain e2 k2 rs2 where rec: "send_bytes rs (left - n) = (e2, k2, rs2)"
          by (cases "send_bytes rs (left - n)")
        then have res: "e = e2" "k = n + k2" "rs' = rs2" using Cons.prems(2) Wrote False more by auto
        obtain pre where pre: "rs = pre @ rs2" "e2 = WouldBlock \<longrightarrow> pre \<noteq> []" using ih [OF rec] by blast
        have "e = AllSent \<and> k = left \<or> e = WouldBlock \<and> k < left"
          using ih [OF rec] more unfolding res by auto
        moreover have "r # rs = (r # pre) @ rs'" using pre(1) res(3) by simp
        ultimately show ?thesis by blast
      qed
    next
      case Again
      then have "e = WouldBlock" "k = 0" "rs' = rs" using Cons.prems(2) False by simp_all
      then show ?thesis using False by (intro conjI exI [of _ "[r]"]) auto
    next
      case Interrupted
      then have rec: "send_bytes rs left = (e, k, rs')" using Cons.prems(2) False by simp
      obtain pre where "rs = pre @ rs'" using ih [OF rec] by blast
      then have "r # rs = (r # pre) @ rs'" by simp
      then show ?thesis using ih [OF rec] by blast
    qed (use Cons.prems(1) in auto)
  qed
qed

section \<open>The sending list\<close>

text \<open>
  \<open>sending arr out0 F c s\<close>: the buffers \<open>arr\<close> were posted; the list holds what is left of them, and the
  socket has taken, behind \<open>out0\<close>, the bytes of those that are gone.  Their objects are live, and so are
  the objects \<open>F\<close> that will be posted later.
\<close>

definition sending :: "buffer_obj list \<Rightarrow> byte list \<Rightarrow> addr multiset \<Rightarrow> connection \<Rightarrow> sock \<Rightarrow> bool" where
  "sending arr out0 F c s \<longleftrightarrow> (\<exists>j u. moved 0 arr j u \<and> conSendBuf c = advance u (drop j arr) \<and>
     conLastSentSeq c = word_of_nat j \<and> sckOut s = out0 @ moved_bytes arr j u) \<and>
     conSendBufEnd c = end_of bufAddr (conSendBuf c) \<and>
     mset (map bufAddr (conSendBuf c)) + F \<subseteq># mset (conLive c) \<and> (\<forall>r\<in>set (sckScript s). gentle r)"

lemma sendingI:
  "moved 0 arr j u \<Longrightarrow> conSendBuf c = advance u (drop j arr) \<Longrightarrow> conLastSentSeq c = word_of_nat j \<Longrightarrow>
   sckOut s = out0 @ moved_bytes arr j u \<Longrightarrow> conSendBufEnd c = end_of bufAddr (conSendBuf c) \<Longrightarrow>
   mset (map bufAddr (conSendBuf c)) + F \<subseteq># mset (conLive c) \<Longrightarrow> \<forall>r\<in>set (sckScript s). gentle r \<Longrightarrow>
   sending arr out0 F c s"
  unfolding sending_def by blast

text \<open>What the sending list leaves alone.\<close>

definition send_frame :: "connection \<Rightarrow> connection \<Rightarrow> bool" where
  "send_frame c c' \<longleftrightarrow> (\<exists>a b l v. c' = c\<lparr>conSendBuf := a, conSendBufEnd := b, conLastSentSeq := l, conLive := v\<rparr>)"

lemma send_frame_refl [simp]: "send_frame c c"
proof -
  have "c = c\<lparr>conSendBuf := conSendBuf c, conSendBufEnd := conSendBufEnd c,
      conLastSentSeq := conLastSentSeq c, conLive := conLive c\<rparr>" by simp
  then show ?thesis unfolding send_frame_def by blast
qed

lemma send_frame_trans: "send_frame c c' \<Longrightarrow> send_frame c' c'' \<Longrightarrow> send_frame c c''"
  unfolding send_frame_def by fastforce

lemma send_frame_update:
  "send_frame c (c\<lparr>conSendBuf := a\<rparr>)" "send_frame c (c\<lparr>conSendBuf := a, conSendBufEnd := b\<rparr>)"
  "send_frame c (c\<lparr>conSendBuf := a, conSendBufEnd := b, conLastSentSeq := l, conLive := v\<rparr>)"
proof -
  have "c\<lparr>conSendBuf := a\<rparr> = c\<lparr>conSendBuf := a, conSendBufEnd := conSendBufEnd c,
      conLastSentSeq := conLastSentSeq c, conLive := conLive c\<rparr>" by simp
  then show "send_frame c (c\<lparr>conSendBuf := a\<rparr>)" unfolding send_frame_def by blast
  have "c\<lparr>conSendBuf := a, conSendBufEnd := b\<rparr> = c\<lparr>conSendBuf := a, conSendBufEnd := b,
      conLastSentSeq := conLastSentSeq c, conLive := conLive c\<rparr>" by simp
  then show "send_frame c (c\<lparr>conSendBuf := a, conSendBufEnd := b\<rparr>)" unfolding send_frame_def by blast
  show "send_frame c (c\<lparr>conSendBuf := a, conSendBufEnd := b, conLastSentSeq := l, conLive := v\<rparr>)"
    unfolding send_frame_def by blast
qed

lemma send_frame_fields:
  "send_frame c c' \<Longrightarrow> conState c' = conState c \<and> conServer c' = conServer c \<and> conEncrypt c' = conEncrypt c \<and>
     conCompress c' = conCompress c \<and> conCurSendSeq c' = conCurSendSeq c \<and>
     conSendBufferIndex c' = conSendBufferIndex c \<and> conNextAddr c' = conNextAddr c \<and>
     conObjectID c' = conObjectID c \<and> conRequestID c' = conRequestID c \<and> conParser c' = conParser c"
  by (auto simp: send_frame_def)

text \<open>Head of what is left.\<close>

lemma sending_head:
  assumes mv: "moved 0 arr j u" and h: "advance u (drop j arr) = b # rest"
  shows "j < length arr" "drop j arr = arr ! j # rest" "rest = drop (Suc j) arr"
    "b = (arr ! j)\<lparr>bufCur := bufCur (arr ! j) + u, bufLen := bufLen (arr ! j) - u\<rparr>"
    "bufSeq b = word_of_nat j + 1 \<longleftrightarrow> j < length (contig 0 arr)"
proof -
  show j: "j < length arr" using h by (metis advance.simps(1) drop_eq_Nil2 list.distinct(1) not_le)
  then have d: "drop j arr = arr ! j # drop (Suc j) arr" by (simp add: Cons_nth_drop_Suc)
  then show r: "rest = drop (Suc j) arr"
    and b: "b = (arr ! j)\<lparr>bufCur := bufCur (arr ! j) + u, bufLen := bufLen (arr ! j) - u\<rparr>" using h by auto
  then show "drop j arr = arr ! j # rest" using d by simp
  have "contig (word_of_nat j) (drop j arr) = drop j (contig 0 arr)"
    using moved_contig0 [OF mv] by simp
  then have "j < length (contig 0 arr) \<longleftrightarrow> contig (word_of_nat j) (drop j arr) \<noteq> []"
    by (simp add: not_le)
  then show "bufSeq b = word_of_nat j + 1 \<longleftrightarrow> j < length (contig 0 arr)" using b d by simp
qed

lemma moved_bytes_Suc:
  assumes "j < length arr" and "buffer_wf (arr ! j)" and "u = 0 \<or> u < bufLen (arr ! j)"
  shows "moved_bytes arr j u @ drop u (buffer_left (arr ! j)) = moved_bytes arr (Suc j) 0"
    "k < bufLen (arr ! j) - u \<Longrightarrow>
     moved_bytes arr j u @ take k (drop u (buffer_left (arr ! j))) = moved_bytes arr j (u + k)"
  using assms by (auto simp: moved_bytes_def take_Suc_conv_app_nth take_add)

lemma send_data_loop_spec:
  assumes "sending arr out0 F c s" and "\<forall>b\<in>set arr. buffer_wf b" and "length (conSendBuf c) \<le> n"
    and "conState c = ESTABLISHED" and "senWaitWriting env"
  shows "\<exists>c' s'. send_data_loop env n 0 None c s = Inr (0, c', s') \<and> sending arr out0 F c' s' \<and>
    send_frame c c' \<and> (\<exists>pre. sckScript s = pre @ sckScript s') \<and>
    (sckScript s = [] \<longrightarrow> sckOut s' = out0 @ left_bytes (contig 0 arr))"
  using assms
proof (induction n arbitrary: c s)
  case 0
  obtain j u where i: "moved 0 arr j u" "conSendBuf c = advance u (drop j arr)"
      "conLastSentSeq c = word_of_nat j" "sckOut s = out0 @ moved_bytes arr j u"
    using 0(1) by (auto simp: sending_def)
  then have "drop j arr = []" using 0(3) by simp
  then have "j = length (contig 0 arr)" "contig 0 arr = arr" "u = 0"
    using i(1) length_contig_le [of 0 arr] contig_take [of 0 arr] by (auto simp: moved_def)
  then have "sckOut s = out0 @ left_bytes (contig 0 arr)" using i(4) by (simp add: moved_bytes_def)
  then show ?case using 0 by auto
next
  case (Suc n)
  obtain j u where i: "moved 0 arr j u" "conSendBuf c = advance u (drop j arr)"
      "conLastSentSeq c = word_of_nat j" "sckOut s = out0 @ moved_bytes arr j u"
    using Suc.prems(1) by (auto simp: sending_def)
  have en: "conSendBufEnd c = end_of bufAddr (conSendBuf c)" "mset (map bufAddr (conSendBuf c)) + F \<subseteq># mset (conLive c)"
      "\<forall>r\<in>set (sckScript s). gentle r"
    using Suc.prems(1) by (auto simp: sending_def)
  show ?case
  proof (cases "conSendBuf c")
    case Nil
    then have "drop j arr = []" using i(2) by simp
    then have "j = length (contig 0 arr)" "contig 0 arr = arr" "u = 0"
      using i(1) length_contig_le [of 0 arr] contig_take [of 0 arr] by (auto simp: moved_def)
    then have "sckOut s = out0 @ left_bytes (contig 0 arr)" using i(4) by (simp add: moved_bytes_def)
    then show ?thesis using Nil Suc.prems(1) by simp
  next
    case (Cons b rest)
    note hd = sending_head [OF i(1) i(2) [unfolded Cons, symmetric]]
    show ?thesis
    proof (cases "bufSeq b = conLastSentSeq c + 1")
      case False
      then have "j = length (contig 0 arr)" using hd(5) i(1,3) by (auto simp: moved_def)
      then have "u = 0" "take j arr = contig 0 arr" using i(1) contig_take [of 0 arr] by (auto simp: moved_def)
      then have "sckOut s = out0 @ left_bytes (contig 0 arr)" using i(4) by (simp add: moved_bytes_def)
      then show ?thesis using Cons False Suc.prems(1) by simp
    next
      case seq: True
      then have jc: "j < length (contig 0 arr)" using hd(5) i(3) by simp
      have wf: "buffer_wf (arr ! j)" using hd(1) Suc.prems(2) by simp
      have u: "u = 0 \<or> u < bufLen (arr ! j)" using i(1) by (auto simp: moved_def)
      have len: "bufLen b = bufLen (arr ! j) - u" "buffer_left b = drop u (buffer_left (arr ! j))"
        using u wf by (auto simp: hd(4) buffer_left_advance)
      obtain e k rs where sb: "send_bytes (sckScript s) (bufLen b) = (e, k, rs)"
        by (cases "send_bytes (sckScript s) (bufLen b)")
      obtain pre where pre: "sckScript s = pre @ rs" and ek: "e = AllSent \<and> k = bufLen b \<or>
          e = WouldBlock \<and> k < bufLen b \<and> sckScript s \<noteq> []"
        using send_bytes_gentle [OF en(3) sb] by blast
      have rs: "\<forall>r\<in>set rs. gentle r" using en(3) pre by simp
      let ?s = "s\<lparr>sckOut := sckOut s @ take k (buffer_left b), sckScript := rs\<rparr>"
      from ek show ?thesis
      proof
        assume e: "e = WouldBlock \<and> k < bufLen b \<and> sckScript s \<noteq> []"
        let ?c = "c\<lparr>conSendBuf := b\<lparr>bufCur := bufCur b + k, bufLen := bufLen b - k\<rparr> # rest\<rparr>"
        have "send_data_loop env (Suc n) 0 None c s = Inr (0, ?c, ?s)"
          using Cons seq sb e Suc.prems(5) by simp
        moreover have "moved 0 arr j (u + k)" using jc e len(1) by (auto simp: moved_def)
        moreover have "conSendBuf ?c = advance (u + k) (drop j arr)"
          by (simp add: hd(2) hd(4) add.assoc)
        moreover have "sckOut ?s = out0 @ moved_bytes arr j (u + k)"
          using moved_bytes_Suc(2) [OF hd(1) wf u, of k] e len i(4) by simp
        moreover have "conSendBufEnd ?c = end_of bufAddr (conSendBuf ?c)"
            "mset (map bufAddr (conSendBuf ?c)) + F \<subseteq># mset (conLive ?c)"
          using en(1,2) Cons by (simp_all add: end_of_def)
        ultimately show ?thesis
          using i(3) rs pre e send_frame_update(1) [of c] unfolding sending_def by auto
      next
        assume e: "e = AllSent \<and> k = bufLen b"
        let ?c = "c\<lparr>conLastSentSeq := conLastSentSeq c + 1, conSendBuf := rest,
            conSendBufEnd := (if rest = [] then None else conSendBufEnd c), conLive := remove1 (bufAddr b) (conLive c)\<rparr>"
        have sub: "add_mset (bufAddr b) (mset (map bufAddr rest) + F) \<subseteq># mset (conLive c)"
          using en(2) Cons by simp
        then have live: "bufAddr b \<in> set (conLive c)" by (metis in_multiset_in_set insert_subset_eq_iff)
        then have pop: "pop_sent c = Inr ?c" using Cons by (simp add: pop_sent_def free_message_def)
        have step: "send_data_loop env (Suc n) 0 None c s = send_data_loop env n 0 None ?c ?s"
          using Cons seq sb e pop Suc.prems(4) by (simp add: close_after_send_def)
        have "moved 0 arr (Suc j) 0" using jc by (simp add: moved_def)
        moreover have "conLastSentSeq ?c = word_of_nat (Suc j)" using i(3) by (simp add: add.commute)
        moreover have "take k (buffer_left b) = drop u (buffer_left (arr ! j))"
          using e len length_buffer_left [OF wf] by simp
        then have "sckOut ?s = out0 @ moved_bytes arr (Suc j) 0"
          using moved_bytes_Suc(1) [OF hd(1) wf u] i(4) by simp
        moreover have "conSendBufEnd ?c = end_of bufAddr (conSendBuf ?c)"
          using en(1) Cons by (simp add: end_of_def)
        moreover have "mset (map bufAddr rest) + F \<subseteq># mset (remove1 (bufAddr b) (conLive c))"
          using sub by (simp add: insert_subset_eq_iff)
        ultimately have "sending arr out0 F ?c ?s"
          using rs hd(3) by (intro sendingI [of arr "Suc j" 0]) simp_all
        moreover have "length (conSendBuf ?c) \<le> n" using Suc.prems(3) Cons by simp
        ultimately obtain c' s' where r: "send_data_loop env n 0 None ?c ?s = Inr (0, c', s')"
            "sending arr out0 F c' s'" "send_frame ?c c'" "\<exists>pre. sckScript ?s = pre @ sckScript s'"
            "sckScript ?s = [] \<longrightarrow> sckOut s' = out0 @ left_bytes (contig 0 arr)"
          using Suc.IH [of ?c ?s] Suc.prems(2,4,5) by auto
        have "?c = c\<lparr>conSendBuf := rest, conSendBufEnd := (if rest = [] then None else conSendBufEnd c),
            conLastSentSeq := conLastSentSeq c + 1, conLive := remove1 (bufAddr b) (conLive c)\<rparr>" by simp
        then have "send_frame c ?c" unfolding send_frame_def by blast
        then have "send_frame c c'" using r(3) by (rule send_frame_trans)
        moreover have "sckScript s = [] \<longrightarrow> sckScript ?s = []" using pre by simp
        moreover obtain pre2 where "rs = pre2 @ sckScript s'" using r(4) by auto
        then have "sckScript s = (pre @ pre2) @ sckScript s'" using pre by simp
        ultimately show ?thesis using step r(1,2,5) by auto
      qed
    qed
  qed
qed

section \<open>Posting buffers and waiting for the socket\<close>

text \<open>
  What happens to a sending connection: a buffer is posted, or the socket becomes writable.
\<close>

datatype send_op = Post buffer_obj | Writable

fun send_run :: "send_env \<Rightarrow> send_op list \<Rightarrow> connection \<Rightarrow> sock \<Rightarrow> (int \<times> connection \<times> sock) res" where
  "send_run env [] c s = Inr (0, c, s)"
| "send_run env (Post b # ops) c s = bind_res (post_send env b c s) (\<lambda>(r, c, s).
     if r = 0 then send_run env ops c s else Inr (r, c, s))"
| "send_run env (Writable # ops) c s = bind_res (send_data_list env c s) (\<lambda>(r, c, s).
     if r = 0 then send_run env ops c s else Inr (r, c, s))"

fun posted :: "send_op list \<Rightarrow> buffer_obj list" where
  "posted [] = []"
| "posted (Post b # ops) = b # posted ops"
| "posted (Writable # ops) = posted ops"

lemma sending_post:
  assumes inv: "sending arr out0 F c s" and arr: "ordered bufSeq arr" "length arr < 2 ^ 64 - 1"
    and new: "bufSeq x \<notin> bufSeq ` set arr" "bufSeq x \<noteq> 0"
    and F: "F = add_mset (bufAddr x) F'"
  shows "\<exists>c'. push_send_buffer (Some x) c = Inr (True, c') \<and> sending (insert_by bufSeq x arr) out0 F' c' s \<and>
    send_frame c c'"
proof -
  obtain j u where i: "moved 0 arr j u" "conSendBuf c = advance u (drop j arr)"
      "conLastSentSeq c = word_of_nat j" "sckOut s = out0 @ moved_bytes arr j u"
    using inv by (auto simp: sending_def)
  have en: "conSendBufEnd c = end_of bufAddr (conSendBuf c)" "\<forall>r\<in>set (sckScript s). gentle r"
      "mset (map bufAddr (conSendBuf c)) + F \<subseteq># mset (conLive c)"
    using inv by (auto simp: sending_def)
  note mv = moved_insert [OF new arr(2) i(1)]
  let ?xs = "insert_by bufSeq x (conSendBuf c)"
  let ?c = "c\<lparr>conSendBuf := ?xs, conSendBufEnd := end_of bufAddr ?xs\<rparr>"
  have "push_seq bufSeq bufAddr x (conSendBuf c) (conSendBufEnd c) = Inr (True, ?xs, end_of bufAddr ?xs)"
    unfolding en(1) i(2) by (rule push_seq_insert [OF advance_drop_facts [OF arr(1) new(1)]])
  then have "push_send_buffer (Some x) c = Inr (True, ?c)" by (simp add: push_send_buffer_def)
  moreover have ms: "mset (map bufAddr ?xs) = add_mset (bufAddr x) (mset (map bufAddr (conSendBuf c)))"
    by (metis mset_insert_by mset_map image_mset_add_mset)
  moreover have "sending (insert_by bufSeq x arr) out0 F' ?c s"
    using mv i ms en(2,3) F by (intro sendingI [of _ j u]) simp_all
  moreover have "send_frame c ?c" by (rule send_frame_update(2))
  ultimately show ?thesis by (intro exI [of _ ?c]) simp
qed

text \<open>
  A connection that sends.
\<close>

definition sender_ready :: "send_env \<Rightarrow> connection \<Rightarrow> bool" where
  "sender_ready env c \<longleftrightarrow> conState c = ESTABLISHED \<and> senKernel env \<and> senWaitWriting env"

lemma sending_prefix:
  assumes "sending arr out0 F c s" and "numbered bs" and "set arr \<subseteq> set bs" and "length arr \<le> length bs"
    and "\<forall>b\<in>set arr. buffer_wf b"
  shows "\<exists>rest. sckOut s @ rest = out0 @ left_bytes bs"
proof -
  obtain j u where i: "moved 0 arr j u" "sckOut s = out0 @ moved_bytes arr j u"
    using assms(1) by (auto simp: sending_def)
  have "left_bytes (contig 0 arr) = moved_bytes arr j u @ left_bytes (contig (0 + word_of_nat j) (advance u (drop j arr)))"
    by (rule contig_moved_bytes [OF i(1) assms(5)])
  moreover obtain Y where "left_bytes (contig 0 arr) @ Y = left_bytes bs"
    using contig_prefix [OF assms(2-4)] by (metis append_take_drop_id left_bytes_simps(3))
  ultimately show ?thesis using i(2) by (metis append.assoc)
qed

lemma send_run_spec:
  assumes "sending arr out0 (mset (map bufAddr (posted ops))) c s" and "sender_ready env c"
    and bs: "numbered bs" "\<forall>b\<in>set bs. buffer_wf b \<and> 0 < bufLen b \<and> bufLen b \<le> CX_MAX_CHACHE_SIZE"
    and "ordered bufSeq arr" and "mset arr + mset (posted ops) \<subseteq># mset bs"
  shows "\<exists>c' s' arr'. send_run env ops c s = Inr (0, c', s') \<and> sending arr' out0 {#} c' s' \<and> sender_ready env c' \<and>
    ordered bufSeq arr' \<and> mset arr' = mset arr + mset (posted ops) \<and> (\<exists>pre. sckScript s = pre @ sckScript s')"
  using assms(1,2,5,6)
proof (induction ops arbitrary: arr c s)
  case Nil
  then show ?case by auto
next
  case (Cons op ops)
  have ob: "ordered bufSeq bs" by (rule numbered_ordered [OF bs(1)])
  let ?F = "mset (map bufAddr (posted ops))"
  have rest: "\<exists>c' s' arr'. send_run env (op # ops) c s = Inr (0, c', s') \<and> sending arr' out0 {#} c' s' \<and>
      sender_ready env c' \<and> ordered bufSeq arr' \<and> mset arr' = mset arr1 + mset (posted ops) \<and>
      (\<exists>pre. sckScript s = pre @ sckScript s')"
    if loop: "sending arr1 out0 ?F c1 s" "send_frame c c1" "ordered bufSeq arr1"
        "mset arr1 + mset (posted ops) \<subseteq># mset bs"
      and step: "\<And>c2 s2. send_data_list env c1 s = Inr (0, c2, s2) \<Longrightarrow>
        send_run env (op # ops) c s = send_run env ops c2 s2" for arr1 c1
  proof -
    have sub: "set arr1 \<subseteq> set bs"
      using loop(4) by (metis mset_subset_eq_add_left set_mset_mono set_mset_mset subset_mset.order_trans)
    have rdy: "sender_ready env c1"
      using Cons.prems(2) send_frame_fields [OF loop(2)] by (simp add: sender_ready_def)
    obtain c2 s2 pre where r: "send_data_list env c1 s = Inr (0, c2, s2)"
        "sending arr1 out0 ?F c2 s2" "send_frame c1 c2" "sckScript s = pre @ sckScript s2"
      using send_data_loop_spec [OF loop(1) _ order_refl, of env] rdy sub bs(2)
      unfolding send_data_list_def sender_ready_def by blast
    have "sender_ready env c2"
      using rdy send_frame_fields [OF r(3)] by (simp add: sender_ready_def)
    from Cons.IH [OF r(2) this loop(3,4)] step [OF r(1)] r(4) show ?thesis by auto
  qed
  show ?case
  proof (cases op)
    case Writable
    then show ?thesis using rest [of arr c] Cons.prems by simp
  next
    case (Post x)
    have ms: "mset arr + add_mset x (mset (posted ops)) \<subseteq># mset bs" using Cons.prems(4) Post by simp
    then have sub: "mset (insert_by bufSeq x arr) \<subseteq># mset bs"
      by (auto intro: subset_mset.order_trans [rotated])
    then have xb: "set (insert_by bufSeq x arr) \<subseteq> set bs" by (metis set_mset_mono set_mset_mset)
    have len: "length arr < 2 ^ 64 - 1" using size_mset_mono [OF sub] bs(1) by (simp add: numbered_def)
    have new: "bufSeq x \<notin> bufSeq ` set arr" "bufSeq x \<noteq> 0"
      using fresh_number [OF bs(1) sub] by simp_all
    obtain c1 where r: "push_send_buffer (Some x) c = Inr (True, c1)"
        "sending (insert_by bufSeq x arr) out0 ?F c1 s" "send_frame c c1"
      using sending_post [OF Cons.prems(1,3) len new, of ?F] Post by auto
    have x: "0 < bufLen x" "bufLen x \<le> CX_MAX_CHACHE_SIZE" using bs(2) xb by auto
    have "conState c1 = ESTABLISHED"
      using send_frame_fields [OF r(3)] Cons.prems(2) by (simp add: sender_ready_def)
    then have post: "post_send env x c s = send_data_list env c1 s"
      using r(1) x Cons.prems(2) by (simp add: post_send_def sender_ready_def)
    have "ordered bufSeq (insert_by bufSeq x arr)" by (rule ordered_insert_by [OF Cons.prems(3) new(1)])
    then show ?thesis using rest [OF r(2,3)] ms post Post by simp
  qed
qed

text \<open>Once the socket takes everything, the list is empty.\<close>

lemma sending_flush:
  assumes "sending bs out0 {#} c s" and "sender_ready env c" and "numbered bs"
    and "\<forall>b\<in>set bs. buffer_wf b \<and> 0 < bufLen b" and "sckScript s = []"
  shows "\<exists>c2 s2. send_data_list env c s = Inr (0, c2, s2) \<and> sckOut s2 = out0 @ left_bytes bs \<and> conSendBuf c2 = []"
proof -
  obtain c2 s2 where f: "send_data_list env c s = Inr (0, c2, s2)"
      "sending bs out0 {#} c2 s2" "sckOut s2 = out0 @ left_bytes bs"
    using send_data_loop_spec [OF assms(1) _ order_refl, of env] assms(2,4,5)
    unfolding send_data_list_def sender_ready_def by (auto simp: contig_numbered [OF assms(3)])
  obtain j u where i: "moved 0 bs j u" "conSendBuf c2 = advance u (drop j bs)" "sckOut s2 = out0 @ moved_bytes bs j u"
    using f(2) by (auto simp: sending_def)
  have "left_bytes bs = moved_bytes bs j u @ left_bytes (contig (0 + word_of_nat j) (advance u (drop j bs)))"
    using contig_moved_bytes [OF i(1)] assms(4) by (simp add: contig_numbered [OF assms(3)])
  then have "left_bytes (contig (0 + word_of_nat j) (advance u (drop j bs))) = []"
    using i(3) f(3) by simp
  then have none: "left_bytes (advance u (drop j bs)) = []"
    using moved_contig [OF i(1)] by (simp add: contig_numbered [OF assms(3)])
  have "conSendBuf c2 = []"
  proof (rule ccontr)
    assume "conSendBuf c2 \<noteq> []"
    then have j: "j < length bs" using i(2) by (simp add: not_le)
    then have "buffer_wf (bs ! j)" "0 < bufLen (bs ! j)" using assms(4) by simp_all
    moreover have "u < bufLen (bs ! j)" using i(1) calculation(2) by (auto simp: moved_def)
    ultimately show False
      using none j by (simp add: Cons_nth_drop_Suc [symmetric] buffer_left_def buffer_wf_def)
  qed
  then show ?thesis using f(1,3) by blast
qed

text \<open>
  C11: the bytes that leave a connection.  Posted in any order, with any interleaving of socket events
  and with any partial writes, the buffers leave in the order of their numbers; at every moment the
  bytes on the socket are a prefix of theirs, and once everything is posted and the socket takes what
  it is offered, they are all of them and the list is empty.
\<close>

theorem send_in_order_whatever_posting:
  assumes "sender_ready env c" and "conSendBuf c = []" and "conSendBufEnd c = None" and "conLastSentSeq c = 0"
    and "numbered bs" and "\<forall>b\<in>set bs. buffer_wf b \<and> 0 < bufLen b \<and> bufLen b \<le> CX_MAX_CHACHE_SIZE"
    and "mset (map bufAddr bs) \<subseteq># mset (conLive c)" and "\<forall>r\<in>set (sckScript s). gentle r"
    and "mset (posted ops) \<subseteq># mset bs"
  shows "\<exists>c' s' rest. send_run env ops c s = Inr (0, c', s') \<and> sckOut s' @ rest = sckOut s @ left_bytes bs \<and>
    (mset (posted ops) = mset bs \<longrightarrow>
       (\<exists>c2 s2. send_data_list env c' (s'\<lparr>sckScript := []\<rparr>) = Inr (0, c2, s2) \<and>
          sckOut s2 = sckOut s @ left_bytes bs \<and> conSendBuf c2 = []))"
proof -
  have live: "mset (map bufAddr (posted ops)) \<subseteq># mset (conLive c)"
    using assms(7,9) by (metis image_mset_subseteq_mono mset_map subset_mset.order_trans)
  have "moved 0 [] 0 0" "moved_bytes [] 0 0 = []" by (simp_all add: moved_def moved_bytes_def)
  then have init: "sending [] (sckOut s) (mset (map bufAddr (posted ops))) c s"
    using assms(2-4,8) live by (intro sendingI [of _ 0 0]) (simp_all add: moved_def moved_bytes_def)
  obtain c' s' arr where r: "send_run env ops c s = Inr (0, c', s')" "sending arr (sckOut s) {#} c' s'"
      "sender_ready env c'" "ordered bufSeq arr" "mset arr = mset (posted ops)"
    using send_run_spec [OF init assms(1,5,6)] assms(9) by auto
  have sub: "set arr \<subseteq> set bs" using r(5) assms(9) by (metis set_mset_mono set_mset_mset)
  have len: "length arr \<le> length bs" using r(5) assms(9) by (metis size_mset size_mset_mono)
  have wf: "\<forall>b\<in>set arr. buffer_wf b" using sub assms(6) by blast
  obtain rest where rest: "sckOut s' @ rest = sckOut s @ left_bytes bs"
    using sending_prefix [OF r(2) assms(5) sub len wf] by blast
  have "\<exists>c2 s2. send_data_list env c' (s'\<lparr>sckScript := []\<rparr>) = Inr (0, c2, s2) \<and>
      sckOut s2 = sckOut s @ left_bytes bs \<and> conSendBuf c2 = []" if all: "mset (posted ops) = mset bs"
  proof -
    have "set arr = set bs" using all r(5) by (metis set_mset_mset)
    then have arr: "arr = bs" using ordered_unique [OF r(4) numbered_ordered [OF assms(5)]] by simp
    have s0: "sending bs (sckOut s) {#} c' (s'\<lparr>sckScript := []\<rparr>)" using r(2) arr by (simp add: sending_def)
    then show ?thesis
      using sending_flush [OF s0 r(3) assms(5)] assms(6) by simp
  qed
  then show ?thesis using r(1) rest by blast
qed

theorem send_in_order_whatever_posting_witness:
  "let env = \<lparr>senAlloc = (\<lambda>n. None), senThreadCache = (\<lambda>n. True), senPrepare = (\<lambda>e f bs n k. None),
         senPrepTask = False, senKernel = True, senWaitWriting = True, senClose = (\<lambda>t c. c)\<rparr>;
       c = (on_created 1001 7 demo_connection)\<lparr>conLive := [1, 2]\<rparr>; s = \<lparr>sckOut = [], sckScript = [Wrote 5, Again]\<rparr>
   in \<exists>c' s' rest. send_run env [Post (demo_buffers ! 1), Post (demo_buffers ! 0), Writable] c s = Inr (0, c', s') \<and>
      sckOut s' @ rest = left_bytes demo_buffers"
proof -
  let ?env = "\<lparr>senAlloc = (\<lambda>n. None), senThreadCache = (\<lambda>n. True), senPrepare = (\<lambda>e f bs n k. None),
      senPrepTask = False, senKernel = True, senWaitWriting = True, senClose = (\<lambda>t c. c)\<rparr>"
  let ?c = "(on_created 1001 7 demo_connection)\<lparr>conLive := [1, 2]\<rparr>"
  let ?s = "\<lparr>sckOut = [], sckScript = [Wrote 5, Again]\<rparr>"
  have c: "sender_ready ?env ?c" "conSendBuf ?c = []" "conSendBufEnd ?c = None" "conLastSentSeq ?c = 0"
    by (simp_all add: sender_ready_def on_created_def demo_connection_def serve_connection_def
        build_connection_def reset_connection_def new_connection_def Let_def)
  have b: "\<forall>b\<in>set demo_buffers. buffer_wf b \<and> 0 < bufLen b \<and> bufLen b \<le> CX_MAX_CHACHE_SIZE"
    using demo_ok(3) by (simp add: demo_buffers_def demo_buffer_def demo_wire CX_MAX_CHACHE_SIZE_def)
  have "mset (map bufAddr demo_buffers) \<subseteq># mset (conLive ?c)"
    by (simp add: demo_buffers_def demo_buffer_def)
  moreover have "\<forall>r\<in>set (sckScript ?s). gentle r" by simp
  moreover have "mset (posted [Post (demo_buffers ! 1), Post (demo_buffers ! 0), Writable]) \<subseteq># mset demo_buffers"
    by (simp add: demo_buffers_def)
  ultimately show ?thesis
    using send_in_order_whatever_posting [OF c demo_ok(2) b] unfolding Let_def by fastforce
qed

end
