(* ===== verification/End_To_End.thy ===== *)
theory End_To_End imports Main Send_Correct begin

text \<open>
  From \<open>SendPacket\<close> on one connection to the packet callback of the other: what \<open>SendPacket\<close> puts on
  the wire, and that the receiver gets it back.
\<close>

section \<open>One packet\<close>

text \<open>The packet that \<open>SendPacket\<close> makes of the caller's bytes on a connection without a codec.\<close>

definition sent_body :: "u32 \<Rightarrow> connection \<Rightarrow> byte list \<Rightarrow> byte list" where
  "sent_body code c bs = packet_body_head code None c @ bs"

definition sent_packet :: "u32 \<Rightarrow> connection \<Rightarrow> byte list \<Rightarrow> packet_header \<times> byte list" where
  "sent_packet code c bs =
     (let body = sent_body code c bs in
      (\<lparr>wFlag = CX_PACKET_HEADER_FLAG, byCompressFlag = 0, byEncryptFlag = 0,
        dwDataLen = word_of_nat (length body), dwCheckSum = check_sum body,
        dwOrignDataLen = word_of_nat (length body)\<rparr>, body))"

definition plain_sender :: "send_env \<Rightarrow> connection \<Rightarrow> bool" where
  "plain_sender env c \<longleftrightarrow> sender_ready env c \<and> conServer c \<and> conEncrypt c = 0 \<and> conCompress c = 0 \<and>
     length (conObjectID c) = CX_GUID_LEN \<and> length (conRequestID c) = CX_GUID_LEN"

text \<open>The allocator gives what is asked for.\<close>

definition send_alloc_ok :: "send_env \<Rightarrow> byte list \<Rightarrow> bool" where
  "send_alloc_ok env bs \<longleftrightarrow> bs \<noteq> [] \<and> length bs + sizeof_packet_data - 1 \<le> CX_MAX_CHACHE_SIZE \<and>
     (case senAlloc env (length bs + sizeof_packet_data - 1 + buffer_head) of None \<Rightarrow> False
      | Some cap \<Rightarrow> length bs + sizeof_packet_data - 1 + buffer_head \<le> cap)"

lemma length_head: "plain_sender env c \<Longrightarrow> length (packet_body_head code None c) = 40"
  by (simp add: packet_body_head_def plain_sender_def sizes)

lemma length_sent_body: "plain_sender env c \<Longrightarrow> length (sent_body code c bs) = 40 + length bs"
  by (simp add: sent_body_def length_head)

lemma memcpy_layers:
  assumes "length hb = i" "length body = k" "i + k + length bs \<le> n"
  shows "take (i + k + length bs) (memcpy (memcpy (memcpy (replicate n 0) (i + k) bs) i body) 0 hb) = hb @ body @ bs"
  using assms by (simp add: memcpy_def min_def)

lemma u32_sums:
  assumes "n \<le> 1048576"
  shows "unat (word_of_nat n + 57 - 1 + 56 :: u32) = n + 112"
    "unat (word_of_nat (n + 56) - 16 :: u32) = n + 40"
proof -
  have "word_of_nat n + 57 - 1 + 56 = (word_of_nat (n + 112) :: u32)" by simp
  moreover have "unat (word_of_nat (n + 112) :: u32) = n + 112" using assms by (simp only: unat_of_nat) simp
  ultimately show "unat (word_of_nat n + 57 - 1 + 56 :: u32) = n + 112" by metis
  have "word_of_nat (n + 56) - 16 = (word_of_nat (n + 40) :: u32)" by simp
  moreover have "unat (word_of_nat (n + 40) :: u32) = n + 40" using assms by (simp only: unat_of_nat) simp
  ultimately show "unat (word_of_nat (n + 56) - 16 :: u32) = n + 40" by metis
qed

lemma send_packet_plain:
  assumes "plain_sender env c" and "send_alloc_ok env bs"
  shows "\<exists>b. send_packet env bs code None c s =
      bind_res (post_send env b ((snd (new_message_addr c))\<lparr>conSendBufferIndex := conSendBufferIndex c + 1,
        conCurSendSeq := conCurSendSeq c + 1\<rparr>) s) (\<lambda>(r, c, s). Inr (r = 0, c, s)) \<and>
    buffer_wf b \<and> bufSeq b = conCurSendSeq c \<and> bufAddr b = conNextAddr c \<and>
    bufLen b = length bs + 56 \<and> buffer_left b = wire (sent_packet code c bs)"
proof -
  let ?n = "length bs"
  have n: "?n \<le> 1048576" "bs \<noteq> []"
    using assms(2) by (auto simp: send_alloc_ok_def sizes CX_MAX_CHACHE_SIZE_def)
  obtain cap where cap: "senAlloc env (?n + 112) = Some cap" "?n + 112 \<le> cap"
    using assms(2) by (auto simp: send_alloc_ok_def sizes buffer_head_def add.commute [of 112] split: option.splits)
  let ?a = "conNextAddr c"
  let ?c = "snd (new_message_addr c)"
  define m where "m = cap - 52"
  have m: "?n + 56 \<le> m" using cap(2) by (simp add: m_def)
  let ?b0 = "\<lparr>bufAddr = ?a, bufSeq = 0, bufData = replicate m 0, bufCur = 0, bufLen = CX_BUF_SIZE\<rparr> :: buffer_obj"
  have get: "get_buffer_obj env (word_of_nat ?n + word_of_nat sizeof_packet_data - 1 + word_of_nat buffer_head) c
      = Some (?b0, ?c)"
    using u32_sums(1) [OF n(1)] cap(1)
    by (simp add: get_buffer_obj_def sizes buffer_head_def m_def new_message_addr_def)
  let ?b1 = "?b0\<lparr>bufData := memcpy (replicate m 0) 56 bs\<rparr>"
  have w1: "write_buffer (sizeof_packet_data - 1) bs ?b0 = Inr ?b1"
    using m by (simp add: write_buffer_def sizes)
  have hdeq: "packet_body_head code None ?c = packet_body_head code None c"
    by (simp add: packet_body_head_def new_message_addr_def)
  let ?head = "packet_body_head code None c"
  have head: "length ?head = 40" by (rule length_head [OF assms(1)])
  have l1: "length (memcpy (replicate m 0) 56 bs) = m" using m by simp
  let ?b2 = "?b0\<lparr>bufData := memcpy (memcpy (replicate m 0) 56 bs) 16 ?head\<rparr>"
  have w2: "write_buffer sizeof_header (packet_body_head code None ?c) ?b1 = Inr ?b2"
    using m l1 head unfolding hdeq by (simp add: write_buffer_def sizes)
  have l2: "length (memcpy (memcpy (replicate m 0) 56 bs) 16 ?head) = m" using m l1 head by simp
  let ?b3 = "?b2\<lparr>bufSeq := conCurSendSeq c, bufLen := ?n + 56\<rparr>"
  let ?c3 = "?c\<lparr>conSendBufferIndex := conSendBufferIndex c + 1, conCurSendSeq := conCurSendSeq c + 1\<rparr>"
  let ?h = "fst (sent_packet code c bs)"
  have body: "take (40 + ?n) (drop 16 (memcpy (memcpy (replicate m 0) 56 bs) 16 ?head)) = sent_body code c bs"
    using m head by (simp add: memcpy_def sent_body_def)
  have lens: "word_of_nat (?n + 56) - 16 = (word_of_nat (length (sent_body code c bs)) :: u32)"
    by (simp add: length_sent_body [OF assms(1)])
  let ?b4 = "?b3\<lparr>bufData := memcpy (memcpy (memcpy (replicate m 0) 56 bs) 16 ?head) 0 (header_bytes ?h)\<rparr>"
  have asm: "send_assembled_packet env ?b3 (word_of_nat (bufLen ?b3) - word_of_nat sizeof_header) ?c3 s
      = bind_res (post_send env ?b4 ?c3 s) (\<lambda>(r, c, s). Inr (r = 0, c, s))"
    using assms(1) m l2 body lens
    by (simp add: send_assembled_packet_def Let_def write_buffer_def sizes sent_packet_def plain_sender_def
        new_message_addr_def)
  have srv: "conServer c" "conServer ?c" "conEncrypt ?c = 0" "conCompress ?c = 0"
      "conCurSendSeq ?c = conCurSendSeq c" "conSendBufferIndex ?c = conSendBufferIndex c"
    using assms(1) by (simp_all add: plain_sender_def new_message_addr_def)
  have "send_packet env bs code None c s = send_packet_buffer env ?b1 ?n code None ?c s"
    using n(2) srv(1) unfolding send_packet_def get by (simp add: w1 del: One_nat_def)
  also have "\<dots> = send_assembled_packet env (?b2\<lparr>bufSeq := conCurSendSeq c, bufLen := ?n + sizeof_packet_data - 1\<rparr>)
      (word_of_nat (?n + sizeof_packet_data - 1) - word_of_nat sizeof_header) ?c3 s"
    using n(2) srv unfolding send_packet_buffer_def w2 by (simp add: Let_def del: One_nat_def)
  also have "?n + sizeof_packet_data - 1 = ?n + 56" by (simp add: sizes)
  finally have "send_packet env bs code None c s
      = bind_res (post_send env ?b4 ?c3 s) (\<lambda>(r, c, s). Inr (r = 0, c, s))"
    using asm by simp
  moreover have "take (16 + 40 + ?n) (memcpy (memcpy (memcpy (replicate m 0) (16 + 40) bs) 16 ?head) 0 (header_bytes ?h))
      = header_bytes ?h @ ?head @ bs"
    using m head by (intro memcpy_layers) (simp_all add: sizes)
  then have "buffer_left ?b4 = wire (sent_packet code c bs)"
    by (simp add: buffer_left_def wire_def sent_packet_def sent_body_def Let_def add.commute)
  moreover have "buffer_wf ?b4" using m l2 by (simp add: buffer_wf_def sizes)
  ultimately show ?thesis by (intro exI [of _ ?b4]) simp
qed

lemma sent_packet_ok:
  assumes "plain_sender env c" and "length bs + 56 \<le> CX_MAX_CHACHE_SIZE"
    and "alloc_ok renv (sizeof_message_data - 1 + (40 + length bs))"
  shows "packet_ok renv (sent_packet code c bs)"
proof -
  have "unat (word_of_nat (40 + length bs) :: u32) = 40 + length bs"
    using assms(2) by (simp only: unat_of_nat CX_MAX_CHACHE_SIZE_def) simp
  then show ?thesis
    using assms length_sent_body [OF assms(1), of code bs]
    by (simp add: packet_ok_def framed_def sent_packet_def Let_def plain_def del: of_nat_add)
qed

section \<open>Many packets\<close>

text \<open>The caller's packets: data and message code; and what goes on the wire for them.\<close>

fun send_packets :: "send_env \<Rightarrow> (byte list \<times> u32) list \<Rightarrow> connection \<Rightarrow> sock \<Rightarrow> (bool \<times> connection \<times> sock) res" where
  "send_packets env [] c s = Inr (True, c, s)"
| "send_packets env ((bs, code) # ms) c s = bind_res (send_packet env bs code None c s) (\<lambda>(ok, c, s).
     if ok then send_packets env ms c s else Inr (False, c, s))"

fun wire_packets :: "connection \<Rightarrow> (byte list \<times> u32) list \<Rightarrow> (packet_header \<times> byte list) list" where
  "wire_packets c [] = []"
| "wire_packets c ((bs, code) # ms) =
     sent_packet code c bs # wire_packets (c\<lparr>conSendBufferIndex := conSendBufferIndex c + 1\<rparr>) ms"

lemma sent_packet_cong:
  "conObjectID c = conObjectID c' \<Longrightarrow> conRequestID c = conRequestID c' \<Longrightarrow>
   conSendBufferIndex c = conSendBufferIndex c' \<Longrightarrow> sent_packet code c bs = sent_packet code c' bs"
  by (simp add: sent_packet_def sent_body_def packet_body_head_def)

lemma wire_packets_cong:
  "conObjectID c = conObjectID c' \<Longrightarrow> conRequestID c = conRequestID c' \<Longrightarrow>
   conSendBufferIndex c = conSendBufferIndex c' \<Longrightarrow> wire_packets c ms = wire_packets c' ms"
proof (induction ms arbitrary: c c')
  case Nil
  then show ?case by simp
next
  case (Cons m ms)
  then show ?case
    using sent_packet_cong [of c c'] Cons.IH [of "c\<lparr>conSendBufferIndex := conSendBufferIndex c + 1\<rparr>"
        "c'\<lparr>conSendBufferIndex := conSendBufferIndex c' + 1\<rparr>"] by (cases m) simp
qed

lemma numbered_snoc:
  assumes "numbered arr" and "bufSeq b = word_of_nat (Suc (length arr))" and "Suc (length arr) < 2 ^ 64 - 1"
  shows "numbered (arr @ [b])" "bufSeq b \<notin> bufSeq ` set arr" "bufSeq b \<noteq> 0" "insert_by bufSeq b arr = arr @ [b]"
proof -
  have less: "bufSeq y < bufSeq b" if y: "y \<in> set arr" for y
  proof -
    obtain i where "i < length arr" "y = arr ! i" using y by (auto simp: in_set_conv_nth)
    then show ?thesis
      using numbered_nth [OF assms(1), of i] assms(2,3) by (simp add: word_of_nat_less_64 del: of_nat_Suc)
  qed
  show "numbered (arr @ [b])" using assms by (simp add: numbered_def)
  show "bufSeq b \<notin> bufSeq ` set arr" using less by force
  show "bufSeq b \<noteq> 0" using assms(2,3) word_of_nat_less_64 [of 0 "Suc (length arr)"] by auto
  show "insert_by bufSeq b arr = arr @ [b]" using less by (intro insert_by_snoc) blast
qed

lemma send_packets_spec:
  assumes "sending arr out0 {#} c s" and "plain_sender env c" and "numbered arr"
    and "\<forall>b\<in>set arr. buffer_wf b \<and> 0 < bufLen b" and "conCurSendSeq c = word_of_nat (Suc (length arr))"
    and "length arr + length ms < 2 ^ 64 - 1" and "\<forall>(bs, code)\<in>set ms. send_alloc_ok env bs"
  shows "\<exists>c' s' arr'. send_packets env ms c s = Inr (True, c', s') \<and> sending arr' out0 {#} c' s' \<and>
    plain_sender env c' \<and> numbered arr' \<and> (\<forall>b\<in>set arr'. buffer_wf b \<and> 0 < bufLen b) \<and>
    left_bytes arr' = left_bytes arr @ stream_of (wire_packets c ms) \<and> (\<exists>pre. sckScript s = pre @ sckScript s')"
  using assms
proof (induction ms arbitrary: arr c s)
  case Nil
  then show ?case by auto
next
  case (Cons m ms)
  obtain bs code where m: "m = (bs, code)" by (cases m)
  have al: "send_alloc_ok env bs" using Cons.prems(7) m by auto
  let ?c1 = "(snd (new_message_addr c))\<lparr>conSendBufferIndex := conSendBufferIndex c + 1,
      conCurSendSeq := conCurSendSeq c + 1\<rparr>"
  obtain b where b: "send_packet env bs code None c s =
        bind_res (post_send env b ?c1 s) (\<lambda>(r, c, s). Inr (r = 0, c, s))"
      "buffer_wf b" "bufSeq b = conCurSendSeq c" "bufAddr b = conNextAddr c" "bufLen b = length bs + 56"
      "buffer_left b = wire (sent_packet code c bs)"
    using send_packet_plain [OF Cons.prems(2) al] by blast
  have seq: "bufSeq b = word_of_nat (Suc (length arr))" "Suc (length arr) < 2 ^ 64 - 1"
    using b(3) Cons.prems(5,6) by simp_all
  note nb = numbered_snoc [OF Cons.prems(3) seq]
  have s1: "sending arr out0 {#conNextAddr c#} ?c1 s"
    using Cons.prems(1) by (simp add: sending_def new_message_addr_def)
  obtain c2 where c2: "push_send_buffer (Some b) ?c1 = Inr (True, c2)"
      "sending (arr @ [b]) out0 {#} c2 s" "send_frame ?c1 c2"
    using sending_post [OF s1 numbered_ordered [OF Cons.prems(3)] _ nb(2,3), of "{#}"] seq(2) b(4) nb(4) by auto
  have f2: "conState c2 = ESTABLISHED" "conServer c2" "conEncrypt c2 = 0" "conCompress c2 = 0"
      "conCurSendSeq c2 = word_of_nat (Suc (Suc (length arr)))" "conSendBufferIndex c2 = conSendBufferIndex c + 1"
      "conObjectID c2 = conObjectID c" "conRequestID c2 = conRequestID c"
    using send_frame_fields [OF c2(3)] Cons.prems(2,5)
    by (simp_all add: plain_sender_def sender_ready_def new_message_addr_def add.commute)
  have wf: "\<forall>b\<in>set (arr @ [b]). buffer_wf b \<and> 0 < bufLen b" using Cons.prems(4) b(2,5) by simp
  obtain c3 s3 pre where r: "send_data_list env c2 s = Inr (0, c3, s3)" "sending (arr @ [b]) out0 {#} c3 s3"
      "send_frame c2 c3" "sckScript s = pre @ sckScript s3"
    using send_data_loop_spec [OF c2(2) _ order_refl, of env] wf f2(1) Cons.prems(2)
    unfolding send_data_list_def plain_sender_def sender_ready_def by blast
  have "post_send env b ?c1 s = send_data_list env c2 s"
    using c2(1) f2(1) b(5) al Cons.prems(2)
    by (simp add: post_send_def plain_sender_def sender_ready_def new_message_addr_def send_alloc_ok_def sizes)
  then have step: "send_packet env bs code None c s = Inr (True, c3, s3)" using b(1) r(1) by simp
  have p3: "plain_sender env c3"
    using send_frame_fields [OF r(3)] f2 Cons.prems(2) by (simp add: plain_sender_def sender_ready_def)
  have q3: "conCurSendSeq c3 = word_of_nat (Suc (length (arr @ [b])))" "conSendBufferIndex c3 = conSendBufferIndex c + 1"
      "conObjectID c3 = conObjectID c" "conRequestID c3 = conRequestID c"
    using send_frame_fields [OF r(3)] f2 by simp_all
  have "length (arr @ [b]) + length ms < 2 ^ 64 - 1" "\<forall>(bs, code)\<in>set ms. send_alloc_ok env bs"
    using Cons.prems(6,7) by simp_all
  from Cons.IH [OF r(2) p3 nb(1) wf q3(1) this]
  obtain c' s' arr' pre' where c': "send_packets env ms c3 s3 = Inr (True, c', s')" "sending arr' out0 {#} c' s'"
      "plain_sender env c'" "numbered arr'" "\<forall>b\<in>set arr'. buffer_wf b \<and> 0 < bufLen b"
      "left_bytes arr' = left_bytes (arr @ [b]) @ stream_of (wire_packets c3 ms)" "sckScript s3 = pre' @ sckScript s'"
    by blast
  have "wire_packets c3 ms = wire_packets (c\<lparr>conSendBufferIndex := conSendBufferIndex c + 1\<rparr>) ms"
    using q3 by (intro wire_packets_cong) simp_all
  then have "left_bytes arr' = left_bytes arr @ stream_of (wire_packets c (m # ms))"
    using c'(6) b(6) m by simp
  moreover have "send_packets env (m # ms) c s = Inr (True, c', s')" using step c'(1) m by simp
  moreover have "sckScript s = (pre @ pre') @ sckScript s'" using r(4) c'(7) by simp
  ultimately show ?case using c'(2-5) by blast
qed

section \<open>From one end to the other\<close>

lemma wire_packets_ok:
  assumes "plain_sender env c" and "\<forall>(bs, code)\<in>set ms. length bs + 56 \<le> CX_MAX_CHACHE_SIZE \<and>
      alloc_ok renv (sizeof_message_data - 1 + (40 + length bs))"
  shows "\<forall>p\<in>set (wire_packets c ms). packet_ok renv p \<and> plain (fst p)"
  using assms
proof (induction ms arbitrary: c)
  case Nil
  then show ?case by simp
next
  case (Cons m ms)
  obtain bs code where m: "m = (bs, code)" by (cases m)
  have "plain_sender env (c\<lparr>conSendBufferIndex := conSendBufferIndex c + 1\<rparr>)"
    using Cons.prems(1) by (simp add: plain_sender_def sender_ready_def)
  from Cons.IH [OF this] Cons.prems m sent_packet_ok [OF Cons.prems(1), of bs renv code]
  show ?case by (auto simp: plain_def sent_packet_def Let_def)
qed

definition fresh_sender :: "send_env \<Rightarrow> connection \<Rightarrow> bool" where
  "fresh_sender env c \<longleftrightarrow> plain_sender env c \<and> conSendBuf c = [] \<and> conSendBufEnd c = None \<and>
     conLastSentSeq c = 0 \<and> conCurSendSeq c = 1"

text \<open>The receiver of plain packets gets their bodies.\<close>

lemma plain_packets_arrive:
  assumes "fresh_receiver rc" and "numbered bs" and "\<forall>b\<in>set bs. buffer_wf b \<and> 0 < bufLen b"
    and "\<forall>p\<in>set ps. packet_ok renv p \<and> plain (fst p)" and "left_bytes bs = stream_of ps" and "mset (map snd calls) = mset bs"
  shows "\<exists>rc' mess. recv_calls renv calls rc = Some (Inr (0, rc')) \<and> conDelivered rc' = conDelivered rc @ mess \<and>
    map mes_payload mess = map snd ps"
proof -
  obtain rc' mess where m: "recv_calls renv calls rc = Some (Inr (0, rc'))" "conDelivered rc' = conDelivered rc @ mess"
      "map (\<lambda>m. Some (mes_payload m)) mess = map (decode renv) ps"
    using recv_all_arrivals [OF assms(1-3) _ assms(5,6), of renv] assms(4) by (auto simp: received_def)
  have "map (decode renv) ps = map Some (map snd ps)" using assms(4) by (simp add: decode_def)
  then have "map Some (map mes_payload mess) = map Some (map snd ps)" using m(3) by (simp add: comp_def)
  then have "map mes_payload mess = map snd ps" by (metis inj_map_eq_map inj_Some)
  then show ?thesis using m(1,2) by blast
qed

text \<open>
  C12: everything handed to \<open>SendPacket\<close> arrives.  For all data and message codes, with any partial writes
  of the sender's socket, every call returns true; once the socket takes what is left the bytes on the
  wire are the packets; and for every cut of them into buffers, in every order of arrival, the packet
  callback of the receiver gets, in the order of the calls, the fields and the data of every packet.
\<close>

theorem sent_packets_arrive:
  assumes "fresh_sender env c" and "\<forall>r\<in>set (sckScript s). gentle r" and "sckOut s = []"
    and "length ms < 2 ^ 64 - 1" and "\<forall>(bs, code)\<in>set ms. send_alloc_ok env bs"
    and "fresh_receiver rc" and "\<forall>(bs, code)\<in>set ms. alloc_ok renv (sizeof_message_data - 1 + (40 + length bs))"
  shows "\<exists>c1 s1 c2 s2. send_packets env ms c s = Inr (True, c1, s1) \<and>
    send_data_list env c1 (s1\<lparr>sckScript := []\<rparr>) = Inr (0, c2, s2) \<and> conSendBuf c2 = [] \<and>
    sckOut s2 = stream_of (wire_packets c ms) \<and>
    (\<forall>bs calls. numbered bs \<and> (\<forall>b\<in>set bs. buffer_wf b \<and> 0 < bufLen b) \<and> left_bytes bs = sckOut s2 \<and>
       mset (map snd calls) = mset bs \<longrightarrow>
       (\<exists>rc' mess. recv_calls renv calls rc = Some (Inr (0, rc')) \<and> conDelivered rc' = conDelivered rc @ mess \<and>
          map mes_payload mess = map snd (wire_packets c ms)))"
proof -
  have c: "plain_sender env c" "conSendBuf c = []" "conSendBufEnd c = None" "conLastSentSeq c = 0" "conCurSendSeq c = 1"
    using assms(1) by (simp_all add: fresh_sender_def)
  have init: "sending [] [] {#} c s"
    using c assms(2,3) by (intro sendingI [of _ 0 0]) (simp_all add: moved_def moved_bytes_def)
  have "numbered []" by (simp add: numbered_def)
  then obtain c1 s1 arr where r: "send_packets env ms c s = Inr (True, c1, s1)" "sending arr [] {#} c1 s1"
      "plain_sender env c1" "numbered arr" "\<forall>b\<in>set arr. buffer_wf b \<and> 0 < bufLen b"
      "left_bytes arr = stream_of (wire_packets c ms)"
    using send_packets_spec [OF init c(1), of ms] c(5) assms(4,5) by auto
  have "sending arr [] {#} c1 (s1\<lparr>sckScript := []\<rparr>)" using r(2) by (simp add: sending_def)
  then obtain c2 s2 where f: "send_data_list env c1 (s1\<lparr>sckScript := []\<rparr>) = Inr (0, c2, s2)"
      "sckOut s2 = stream_of (wire_packets c ms)" "conSendBuf c2 = []"
    using sending_flush [OF _ _ r(4,5), of "[]" c1 "s1\<lparr>sckScript := []\<rparr>" env] r(3,6)
    by (auto simp: plain_sender_def)
  have ok: "\<forall>p\<in>set (wire_packets c ms). packet_ok renv p \<and> plain (fst p)"
    using assms(5,7) by (intro wire_packets_ok [OF c(1)]) (auto simp: send_alloc_ok_def sizes)
  have "\<exists>rc' mess. recv_calls renv calls rc = Some (Inr (0, rc')) \<and> conDelivered rc' = conDelivered rc @ mess \<and>
      map mes_payload mess = map snd (wire_packets c ms)"
    if bs: "numbered bs" "\<forall>b\<in>set bs. buffer_wf b \<and> 0 < bufLen b" "left_bytes bs = sckOut s2"
      "mset (map snd calls) = mset bs" for bs calls
    using plain_packets_arrive [OF assms(6) bs(1,2) _ _ bs(4)] ok bs(3) f(2) by simp
  then show ?thesis using r(1) f by blast
qed

text \<open>An input for the property: two packets over a socket that blocks after five bytes.\<close>

definition demo_send_env :: send_env where
  "demo_send_env = \<lparr>senAlloc = (\<lambda>n. if n \<le> 8192 then Some 8192 else None), senThreadCache = (\<lambda>n. True),
     senPrepare = (\<lambda>e f bs n k. Some bs), senPrepTask = False, senKernel = True, senWaitWriting = True,
     senClose = (\<lambda>t c. close_connection_object c)\<rparr>"

definition demo_sender :: connection where
  "demo_sender = on_created 1001 7 demo_connection"

definition demo_sock :: sock where
  "demo_sock = \<lparr>sckOut = [], sckScript = [Wrote 5, Again, Interrupted, Wrote 3]\<rparr>"

lemma demo_fresh_sender: "fresh_sender demo_send_env demo_sender"
  by (simp add: fresh_sender_def plain_sender_def sender_ready_def demo_send_env_def demo_sender_def on_created_def
      demo_connection_def serve_connection_def build_connection_def reset_connection_def new_connection_def
      Let_def CX_GUID_LEN_def)

theorem sent_packets_arrive_witness:
  "let ms = [([1, 2, 3], 16), ([4], 17)] in
   \<exists>c1 s1 c2 s2. send_packets demo_send_env ms demo_sender demo_sock = Inr (True, c1, s1) \<and>
    send_data_list demo_send_env c1 (s1\<lparr>sckScript := []\<rparr>) = Inr (0, c2, s2) \<and> conSendBuf c2 = [] \<and>
    sckOut s2 = stream_of (wire_packets demo_sender ms)"
proof -
  have "\<forall>r\<in>set (sckScript demo_sock). gentle r" "sckOut demo_sock = []" by (simp_all add: demo_sock_def)
  moreover have "\<forall>(bs, code)\<in>set [([1, 2, 3], 16 :: u32), ([4], 17)]. send_alloc_ok demo_send_env bs"
      "\<forall>(bs, code)\<in>set [([1, 2, 3], 16 :: u32), ([4 :: byte], 17)].
        alloc_ok demo_env (sizeof_message_data - 1 + (40 + length bs))"
    by (simp_all add: send_alloc_ok_def demo_send_env_def sizes CX_MAX_CHACHE_SIZE_def buffer_head_def
        alloc_ok_def demo_env_def)
  moreover have "length [([1 :: byte, 2, 3], 16 :: u32), ([4], 17)] < 2 ^ 64 - 1" by simp
  ultimately show ?thesis
    using sent_packets_arrive [OF demo_fresh_sender _ _ _ _ demo_ok(1)] unfolding Let_def by blast
qed

section \<open>Reading the socket\<close>

lemma recv_bytes_split: "recv_bytes rs net left = (r, bs, net', rs') \<Longrightarrow> bs @ net' = net \<and> length bs \<le> left"
proof (induction rs arbitrary: net left r bs net' rs')
  case Nil
  then show ?case by (simp split: if_splits)
next
  case (Cons x rs)
  show ?case
  proof (cases x)
    case (GotUpTo k)
    define n where "n = min k (min left (length net))"
    have n: "n \<le> left" "n \<le> length net" unfolding n_def by simp_all
    obtain r2 bs2 net2 rs2 where rec: "recv_bytes rs (drop n net) (left - n) = (r2, bs2, net2, rs2)"
      by (cases "recv_bytes rs (drop n net) (left - n)")
    have st: "recv_bytes (x # rs) net left = (if left = 0 then (0, [], net, x # rs)
        else if n = 0 then (- 1, [], net, rs) else (r2, take n net @ bs2, net2, rs2))"
      unfolding GotUpTo recv_bytes.simps recv_result.case Let_def n_def [symmetric] rec prod.case by (rule refl)
    have ih: "bs2 @ net2 = drop n net" "length bs2 \<le> left - n" using Cons.IH [OF rec] by simp_all
    show ?thesis using Cons.prems n ih unfolding st by (auto split: if_splits)
  next
    case RecvInterrupted
    then show ?thesis using Cons.prems Cons.IH [of net left] by (auto split: if_splits)
  qed (use Cons.prems in \<open>auto split: if_splits\<close>)
qed

primrec numbered_from :: "u64 \<Rightarrow> buffer_obj list \<Rightarrow> bool" where
  "numbered_from k [] \<longleftrightarrow> True"
| "numbered_from k (b # bs) \<longleftrightarrow> bufSeq b = k + 1 \<and> numbered_from (k + 1) bs"

lemma numbered_from_append:
  "numbered_from k (as @ bs) \<longleftrightarrow> numbered_from k as \<and> numbered_from (k + word_of_nat (length as)) bs"
  by (induction as arbitrary: k) (simp_all add: add.assoc)

lemma numbered_from_map:
  "numbered_from k bs \<Longrightarrow> map bufSeq bs = map (\<lambda>i. k + word_of_nat (Suc i)) [0..<length bs]"
proof (induction bs arbitrary: k)
  case (Cons b bs)
  have "map (\<lambda>i. k + word_of_nat (Suc i)) [0..<Suc (length bs)]
      = (k + 1) # map (\<lambda>i. k + 1 + word_of_nat (Suc i)) [0..<length bs]"
    by (simp add: upt_conv_Cons map_Suc_upt [symmetric] add.assoc del: upt_Suc map_Suc_upt)
  then show ?case using Cons.IH [of "k + 1"] Cons.prems by (simp del: upt_Suc of_nat_Suc)
qed simp

text \<open>What one call of \<open>RecvData\<close> gives, as a list of at most one buffer.\<close>

definition read_ok :: "connection \<Rightarrow> byte list \<Rightarrow> buffer_obj list \<Rightarrow> byte list \<Rightarrow> connection \<Rightarrow> bool" where
  "read_ok c net bs net' c' \<longleftrightarrow> numbered_from (conRecvBufferIndex c) bs \<and>
     conRecvBufferIndex c' = conRecvBufferIndex c + word_of_nat (length bs) \<and>
     (\<forall>b\<in>set bs. buffer_wf b \<and> 0 < bufLen b) \<and> left_bytes bs @ net' = net"

lemma read_ok_Nil: "read_ok c net [] net c"
  by (simp add: read_ok_def)

lemma read_ok_append:
  "read_ok c net bs net' c' \<Longrightarrow> read_ok c' net' bs' net'' c'' \<Longrightarrow> read_ok c net (bs @ bs') net'' c''"
  by (auto simp: read_ok_def numbered_from_append)

lemma recv_data_ok:
  assumes "senAlloc env sizeof_buffer_obj = Some cap" and "offset_buffer_data + CX_BUF_SIZE \<le> cap"
    and rd: "recv_data env rs net c = (r, ob, net', rs', c')"
  shows "read_ok c net (case ob of None \<Rightarrow> [] | Some b \<Rightarrow> [b]) net' c'"
proof (cases ob)
  case None
  then have "net' = net" "c' = c"
    using rd recv_bytes_split [of rs net CX_BUF_SIZE]
    by (auto simp: recv_data_def split: if_splits option.splits prod.splits)
  then show ?thesis using None by (simp add: read_ok_Nil)
next
  case (Some b)
  obtain r3 got net3 rs3 where got: "recv_bytes rs net CX_BUF_SIZE = (r3, got, net3, rs3)"
    by (cases "recv_bytes rs net CX_BUF_SIZE")
  note sp = recv_bytes_split [OF got]
  have "unat (word_of_nat sizeof_buffer_obj :: u32) = sizeof_buffer_obj" by (simp add: sizes)
  then have "got \<noteq> []" "net' = net3" "conRecvBufferIndex c' = conRecvBufferIndex c + 1"
      "bufSeq b = conRecvBufferIndex c + 1" "bufLen b = length got" "bufCur b = 0"
      "bufData b = memcpy (replicate (cap - offset_buffer_data) 0) 0 got"
    using rd Some assms(1) got
    by (auto simp: recv_data_def get_buffer_obj_def new_message_addr_def split: if_splits)
  moreover from this have "buffer_left b = got" "buffer_wf b"
    using sp assms(2) by (auto simp: buffer_left_def buffer_wf_def memcpy_def)
  ultimately show ?thesis using Some sp by (auto simp: read_ok_def)
qed

lemma read_event_ok:
  assumes "senAlloc env sizeof_buffer_obj = Some cap" and "offset_buffer_data + CX_BUF_SIZE \<le> cap"
  shows "read_event env rs net c = (bs, cl, net', rs', c') \<Longrightarrow> read_ok c net bs net' c'"
  using assms
proof (induction env rs net c arbitrary: bs cl net' rs' c' rule: read_event.induct)
  case (1 env rs net c)
  obtain r ob net1 rs1 c1 where rd: "recv_data env rs net c = (r, ob, net1, rs1, c1)"
    by (cases "recv_data env rs net c")
  let ?got = "case ob of None \<Rightarrow> [] | Some b \<Rightarrow> [b]"
  note one = recv_data_ok [OF 1(3,4) rd]
  obtain bs2 cl2 net2 rs2 c2 where e: "read_event env rs1 net1 c1 = (bs2, cl2, net2, rs2, c2)"
    by (cases "read_event env rs1 net1 c1")
  have st: "read_event env rs net c = (if r < 0 then (?got, r = - 3 \<or> r = - 2, net1, rs1, c1)
      else (?got @ bs2, cl2, net2, rs2, c2))"
    by (subst read_event.simps) (simp add: rd e Let_def)
  show ?case
  proof (cases "r < 0")
    case True
    then show ?thesis using one 1(2) unfolding st by simp
  next
    case False
    have "read_ok c1 net1 bs2 net2 c2"
      using 1(1) [OF rd [symmetric] refl refl refl refl False e 1(3,4)] by simp
    then show ?thesis using read_ok_append [OF one, of bs2 net2 c2] 1(2) False unfolding st by auto
  qed
qed

lemma read_events_ok:
  assumes "senAlloc env sizeof_buffer_obj = Some cap" and "offset_buffer_data + CX_BUF_SIZE \<le> cap"
  shows "read_events env n rs net c = (bs, net', c') \<Longrightarrow> read_ok c net bs net' c'"
proof (induction n arbitrary: rs net c bs net' c')
  case 0
  then show ?case by (simp add: read_ok_Nil)
next
  case (Suc n)
  obtain bs1 cl net1 rs1 c1 where e: "read_event env rs net c = (bs1, cl, net1, rs1, c1)"
    by (cases "read_event env rs net c")
  obtain bs2 net2 c2 where rest: "read_events env n rs1 net1 c1 = (bs2, net2, c2)"
    by (cases "read_events env n rs1 net1 c1")
  note ok = read_event_ok [OF assms e] Suc.IH [OF rest]
  show ?case
    using Suc.prems e rest ok(1) read_ok_append [OF ok] by (auto split: if_splits)
qed

lemma left_bytes_length: "\<forall>b\<in>set bs. buffer_wf b \<and> 0 < bufLen b \<Longrightarrow> length bs \<le> length (left_bytes bs)"
  by (induction bs) (auto simp: buffer_left_def buffer_wf_def)

text \<open>
  C13: reading a socket cuts its bytes into buffers that are numbered without a gap, with every byte in
  one of them in its place: the buffers of the receive properties are what \<open>RecvData\<close> makes over any
  number of readable events, whatever the calls of \<open>recv\<close> return.
\<close>

theorem recv_data_numbers_buffers:
  assumes "senAlloc env sizeof_buffer_obj = Some cap" and "offset_buffer_data + CX_BUF_SIZE \<le> cap"
    and "conRecvBufferIndex c = 0" and "length net < 2 ^ 64 - 1"
    and "read_events env n rs net c = (bs, net', c')"
  shows "numbered bs \<and> (\<forall>b\<in>set bs. buffer_wf b \<and> 0 < bufLen b) \<and> left_bytes bs @ net' = net"
proof -
  have ok: "read_ok c net bs net' c'" by (rule read_events_ok [OF assms(1,2,5)])
  then have "length bs \<le> length net" using left_bytes_length [of bs] by (auto simp: read_ok_def)
  then show ?thesis using ok assms(3,4) using numbered_from_map [of 0 bs] by (auto simp: read_ok_def numbered_def)
qed

theorem recv_data_numbers_buffers_witness:
  "let (bs, net', c') = read_events demo_send_env 3 [GotUpTo 5, RecvInterrupted, RecvAgain, RecvAgain, GotUpTo 9]
         (wire demo_packet) demo_connection
   in numbered bs \<and> (\<forall>b\<in>set bs. buffer_wf b \<and> 0 < bufLen b) \<and> left_bytes bs @ net' = wire demo_packet"
proof -
  obtain bs net' c' where e: "read_events demo_send_env 3 [GotUpTo 5, RecvInterrupted, RecvAgain, RecvAgain, GotUpTo 9]
      (wire demo_packet) demo_connection = (bs, net', c')"
    by (rule prod_cases3)
  have "senAlloc demo_send_env sizeof_buffer_obj = Some 8192" "offset_buffer_data + CX_BUF_SIZE \<le> 8192"
      "conRecvBufferIndex demo_connection = 0" "length (wire demo_packet) < 2 ^ 64 - 1"
    by (simp_all add: demo_send_env_def sizes demo_connection_def serve_connection_def build_connection_def
        reset_connection_def Let_def demo_wire)
  then show ?thesis using recv_data_numbers_buffers [OF _ _ _ _ e] unfolding e Let_def prod.case by blast
qed

end
