(* ===== verification/Guid.thy ===== *)
theory Guid imports Main Prelude Packet begin

text \<open>
  \<open>CXGuidObject\<close> (src/CXCommon/src/CXGuidObject.cpp, the branches that are not for Windows): the two
  conversions between the sixteen bytes of an identifier in a packet and its text, by which objects and
  requests are looked up.  The text comes from \<open>uuid_unparse_upper\<close> of libuuid, a parameter of the model;
  the way back is \<open>sscanf\<close> of the standard library, of which the conversions that the format uses are
  modelled.  The last lemma is the round trip.
\<close>

section \<open>From bytes to text\<close>

text \<open>\<open>ConvertBytes\<close>: the first half of the bytes changes places with the second one.\<close>

definition convert_bytes :: "byte list \<Rightarrow> byte list" where
  "convert_bytes bs = fold (\<lambda>i bs. bs[i := bs ! (length bs - i - 1), length bs - i - 1 := bs ! i])
     [0..<length bs div 2] bs"

definition swap_fields :: "byte list \<Rightarrow> byte list" where
  "swap_fields bs = convert_bytes (take 4 bs) @ convert_bytes (take 2 (drop 4 bs)) @
     convert_bytes (take 2 (drop 6 bs)) @ drop 8 bs"

text \<open>\<open>ConvertGuid\<close> of bytes, and \<open>GenerateNewGuid\<close> with the bytes that \<open>uuid_generate\<close> returns: its
  result and the bytes it stores.\<close>

definition guid_string :: "(byte list \<Rightarrow> string) \<Rightarrow> byte list \<Rightarrow> string" where
  "guid_string unparse bs = CHR 0x7B # unparse (swap_fields (take CX_GUID_LEN bs)) @ [CHR 0x7D]"

definition generate_new_guid :: "(byte list \<Rightarrow> string) \<Rightarrow> byte list \<Rightarrow> string \<times> byte list" where
  "generate_new_guid unparse raw = (CHR 0x7B # unparse raw @ [CHR 0x7D], swap_fields raw)"

section \<open>From text to bytes\<close>

text \<open>
  \<open>sscanf\<close> with \<open>%X\<close> and a width: white space is skipped, then at most that many characters are read: a
  sign, a prefix 0x, and digits, of which there has to be one.  A literal has to be the next character.
  The values are those read before the first failure.
\<close>

definition hex_value :: "char \<Rightarrow> nat option" where
  "hex_value c = (let n = of_char c :: nat in
     if 48 \<le> n \<and> n \<le> 57 then Some (n - 48)
     else if 65 \<le> n \<and> n \<le> 70 then Some (n - 55)
     else if 97 \<le> n \<and> n \<le> 102 then Some (n - 87) else None)"

definition is_space :: "char \<Rightarrow> bool" where
  "is_space c \<longleftrightarrow> (let n = of_char c :: nat in n = 32 \<or> 9 \<le> n \<and> n \<le> 13)"

definition scan_digits :: "nat \<Rightarrow> string \<Rightarrow> (nat \<times> string) option" where
  "scan_digits w s =
     (let ds = takeWhile (\<lambda>c. hex_value c \<noteq> None) (take w s)
      in if ds = [] then None
         else Some (foldl (\<lambda>v c. 16 * v + the (hex_value c)) 0 ds, drop (length ds) s))"

definition scan_prefix :: "nat \<Rightarrow> string \<Rightarrow> (nat \<times> string) option" where
  "scan_prefix w s =
     (case s of
        z # x # s' \<Rightarrow> if 2 \<le> w \<and> z = CHR 0x30 \<and> (x = CHR 0x78 \<or> x = CHR 0x58) then scan_digits (w - 2) s'
                     else scan_digits w s
      | _ \<Rightarrow> scan_digits w s)"

definition scan_hex :: "nat \<Rightarrow> string \<Rightarrow> (u32 \<times> string) option" where
  "scan_hex w s =
     (case dropWhile is_space s of
        [] \<Rightarrow> None
      | c # s' \<Rightarrow>
          if c = CHR 0x2D then map_option (\<lambda>(v, r). (- word_of_nat v, r)) (scan_prefix (w - 1) s')
          else if c = CHR 0x2B then map_option (\<lambda>(v, r). (word_of_nat v, r)) (scan_prefix (w - 1) s')
          else map_option (\<lambda>(v, r). (word_of_nat v, r)) (scan_prefix w (c # s')))"

datatype directive = Literal char | Hex nat

fun scanf :: "directive list \<Rightarrow> string \<Rightarrow> u32 list" where
  "scanf [] s = []"
| "scanf (Literal c # ds) s = (case s of [] \<Rightarrow> [] | x # s \<Rightarrow> if x = c then scanf ds s else [])"
| "scanf (Hex w # ds) s = (case scan_hex w s of None \<Rightarrow> [] | Some (v, s) \<Rightarrow> v # scanf ds s)"

definition guid_format :: "directive list" where
  "guid_format = [Literal (CHR 0x7B), Hex 8, Literal (CHR 0x2D), Hex 4, Literal (CHR 0x2D), Hex 4,
     Literal (CHR 0x2D), Hex 2, Hex 2, Literal (CHR 0x2D), Hex 2, Hex 2, Hex 2, Hex 2, Hex 2, Hex 2,
     Literal (CHR 0x7D)]"

text \<open>\<open>ConvertGuid\<close> of text: the values that were not read stay zero, and the fields are cut to their
  width.\<close>

definition guid_bytes :: "string \<Rightarrow> byte list" where
  "guid_bytes s =
     (let vs = scanf guid_format s; p = (\<lambda>i. if i < length vs then unat (vs ! i) else 0)
      in le_enc 4 (p 0) @ le_enc 2 (p 1) @ le_enc 2 (p 2) @ concat (map (\<lambda>i. le_enc 1 (p i)) [3..<11]))"

section \<open>The round trip\<close>

text \<open>The documented result of \<open>uuid_unparse_upper\<close>.\<close>

definition hex_char :: "nat \<Rightarrow> char" where
  "hex_char n = char_of (if n < 10 then 48 + n else 55 + n)"

definition hex2 :: "byte \<Rightarrow> string" where
  "hex2 b = [hex_char (unat b div 16), hex_char (unat b mod 16)]"

definition hexs :: "byte list \<Rightarrow> string" where
  "hexs bs = concat (map hex2 bs)"

definition uuid_text :: "byte list \<Rightarrow> string" where
  "uuid_text bs = hexs (take 4 bs) @ CHR 0x2D # hexs (take 2 (drop 4 bs)) @ CHR 0x2D # hexs (take 2 (drop 6 bs)) @
     CHR 0x2D # hexs (take 2 (drop 8 bs)) @ CHR 0x2D # hexs (drop 10 bs)"

definition unparses :: "(byte list \<Rightarrow> string) \<Rightarrow> bool" where
  "unparses unparse \<longleftrightarrow> (\<forall>bs. length bs = 16 \<longrightarrow> unparse bs = uuid_text bs)"

lemma hex_value_char [simp]: "n < 16 \<Longrightarrow> hex_value (hex_char n) = Some n"
  by (auto simp: hex_value_def hex_char_def Let_def of_char_of)

lemma hex_char_not [simp]:
  assumes "n < 16"
  shows "\<not> is_space (hex_char n)" "hex_char n \<noteq> CHR 0x2D" "hex_char n \<noteq> CHR 0x2B" "hex_char n \<noteq> CHR 0x78"
    "hex_char n \<noteq> CHR 0x58" "hex_char n \<noteq> CHR 0x7D"
proof -
  have code: "of_char (hex_char n) = (if n < 10 then 48 + n else 55 + n)"
    using assms by (simp add: hex_char_def of_char_of)
  show "\<not> is_space (hex_char n)" using code by (simp add: is_space_def Let_def)
  have ne: "hex_char n \<noteq> c" if "(of_char c :: nat) \<noteq> (if n < 10 then 48 + n else 55 + n)" for c
    using that code by auto
  show "hex_char n \<noteq> CHR 0x2D" "hex_char n \<noteq> CHR 0x2B" "hex_char n \<noteq> CHR 0x78" "hex_char n \<noteq> CHR 0x58"
    "hex_char n \<noteq> CHR 0x7D"
    using assms by (intro ne; auto split: if_splits)+
qed

lemma byte_digits [simp]: "unat (b :: byte) div 16 < 16" "unat (b :: byte) mod 16 < 16"
  using unat_lt_256 [of b] by simp_all

lemma hex2_length [simp]: "length (concat (map hex2 bs)) = 2 * length bs"
  by (induction bs) (simp_all add: hex2_def)

lemma hex2_value:
  "foldl (\<lambda>v c. 16 * v + the (hex_value c)) k (concat (map hex2 bs)) = foldl (\<lambda>v b. 256 * v + unat b) k bs"
proof (induction bs arbitrary: k)
  case (Cons b bs)
  have "16 * (16 * k + unat b div 16) + unat b mod 16 = 256 * k + unat b"
    by (simp add: algebra_simps div_mult_mod_eq)
  then show ?case using Cons by (simp add: hex2_def add.commute)
qed simp

lemma hex2_all: "\<forall>c\<in>set (concat (map hex2 bs)). hex_value c \<noteq> None"
  by (induction bs) (auto simp: hex2_def)

lemma scan_hex_hex2:
  assumes "bs \<noteq> []" and "w = 2 * length bs"
  shows "scan_hex w (concat (map hex2 bs) @ rest) = Some (word_of_nat (foldl (\<lambda>v b. 256 * v + unat b) 0 bs), rest)"
proof -
  let ?ds = "concat (map hex2 bs)"
  have len: "length ?ds = w" using assms(2) by (rule trans [OF hex2_length sym])
  then have dig: "scan_digits w (?ds @ rest) = Some (foldl (\<lambda>v b. 256 * v + unat b) 0 bs, rest)"
    using assms(1) hex2_all [of bs]
    by (cases bs) (auto simp: scan_digits_def hex2_value takeWhile_eq_all_conv [THEN iffD2] hex2_def)
  obtain b bs' where bs: "bs = b # bs'" using assms(1) by (cases bs) auto
  show ?thesis using dig by (simp add: scan_hex_def scan_prefix_def bs hex2_def)
qed


lemma be_le: "foldl (\<lambda>v b. 256 * v + unat b) 0 bs = le_dec (rev bs)"
  by (induction bs rule: rev_induct) simp_all

lemma scan_field:
  assumes "bs \<noteq> []" and "w = 2 * length bs"
  shows "scan_hex w (hexs bs @ rest) = Some (word_of_nat (le_dec (rev bs)), rest)"
  using scan_hex_hex2 [OF assms, of rest] by (simp only: be_le hexs_def)

lemma field_value: "length bs \<le> 4 \<Longrightarrow> unat (word_of_nat (le_dec bs) :: u32) = le_dec bs"
proof -
  assume "length bs \<le> 4"
  then have "le_dec bs < 256 ^ 4"
    using le_dec_bound [of bs] power_increasing [of "length bs" 4 "256 :: nat"] by linarith
  then show ?thesis by (simp add: unat_of_nat)
qed

lemma convert_bytes_simps [simp]:
  "convert_bytes [a, b] = [b, a]"
  "convert_bytes [a, b, c, d] = [d, c, b, a]"
  by (simp_all add: convert_bytes_def upt_conv_Cons)

lemma list16:
  assumes "length bs = 16"
  obtains b0 b1 b2 b3 b4 b5 b6 b7 b8 b9 b10 b11 b12 b13 b14 b15 where
    "bs = [b0, b1, b2, b3, b4, b5, b6, b7, b8, b9, b10, b11, b12, b13, b14, b15]"
  using assms by (auto simp: length_Suc_conv eval_nat_numeral)

lemma swap_fields_twice: "length bs = 16 \<Longrightarrow> swap_fields (swap_fields bs) = bs \<and> length (swap_fields bs) = 16"
  by (elim list16) (simp add: swap_fields_def)


lemma uuid_text16: "uuid_text [b0, b1, b2, b3, b4, b5, b6, b7, b8, b9, b10, b11, b12, b13, b14, b15] =
    hexs [b0, b1, b2, b3] @ CHR 0x2D # hexs [b4, b5] @ CHR 0x2D # hexs [b6, b7] @ CHR 0x2D # hexs [b8] @ hexs [b9] @
    CHR 0x2D # hexs [b10] @ hexs [b11] @ hexs [b12] @ hexs [b13] @ hexs [b14] @ hexs [b15]"
  by (simp add: uuid_text_def hexs_def)

lemma guid_scan:
  "scanf guid_format (CHR 0x7B # uuid_text [b0, b1, b2, b3, b4, b5, b6, b7, b8, b9, b10, b11, b12, b13, b14, b15] @ rest) =
    map (\<lambda>bs. word_of_nat (le_dec bs))
      [[b3, b2, b1, b0], [b5, b4], [b7, b6], [b8], [b9], [b10], [b11], [b12], [b13], [b14], [b15]]"
  unfolding uuid_text16 guid_format_def by (simp add: scan_field del: le_dec.simps split: list.split)

lemma guid_bytes_text:
  assumes "unparses unparse" and "length u = 16"
  shows "guid_bytes (CHR 0x7B # unparse u @ [CHR 0x7D]) = swap_fields u"
proof -
  obtain b0 b1 b2 b3 b4 b5 b6 b7 b8 b9 b10 b11 b12 b13 b14 b15 where
    u: "u = [b0, b1, b2, b3, b4, b5, b6, b7, b8, b9, b10, b11, b12, b13, b14, b15]"
    using assms(2) by (elim list16)
  have "unparse u = uuid_text u" using assms by (simp add: unparses_def)
  then have "guid_bytes (CHR 0x7B # unparse u @ [CHR 0x7D]) =
      le_enc 4 (le_dec [b3, b2, b1, b0]) @ le_enc 2 (le_dec [b5, b4]) @ le_enc 2 (le_dec [b7, b6]) @
      concat (map (\<lambda>b. le_enc 1 (le_dec [b])) [b8, b9, b10, b11, b12, b13, b14, b15])"
    unfolding guid_bytes_def u Let_def
    by (simp only: guid_scan)
      (simp add: field_value upt_conv_Cons del: le_dec.simps)
  also have "\<dots> = swap_fields u" 
    by (simp add: u swap_fields_def le_enc_dec del: le_dec.simps) (simp add: unat_lt_256)
  finally show ?thesis .
qed

text \<open>
  C14: identifiers survive the way to text and back.  The bytes of any identifier are those that its
  text is converted to, and the text and the bytes that \<open>GenerateNewGuid\<close> makes of the same new
  identifier name each other.
\<close>

theorem guid_round_trip:
  assumes "unparses unparse" and "length bs = CX_GUID_LEN"
  shows "guid_bytes (guid_string unparse bs) = bs \<and>
    (\<forall>s b. generate_new_guid unparse bs = (s, b) \<longrightarrow> guid_string unparse b = s \<and> guid_bytes s = b)"
  using assms swap_fields_twice [of bs]
  by (auto simp: guid_string_def generate_new_guid_def guid_bytes_text CX_GUID_LEN_def)

theorem guid_round_trip_witness:
  "guid_bytes (guid_string uuid_text [1, 2, 3, 4, 5, 6, 7, 8, 9, 10, 11, 12, 13, 14, 15, 255])
     = [1, 2, 3, 4, 5, 6, 7, 8, 9, 10, 11, 12, 13, 14, 15, 255]"
  using guid_round_trip [of uuid_text "[1, 2, 3, 4, 5, 6, 7, 8, 9, 10, 11, 12, 13, 14, 15, 255]"]
  by (simp add: unparses_def CX_GUID_LEN_def)

end
