(* ===== verification/RPC_Objects.thy ===== *)
theory RPC_Objects imports Main Prelude Guid Contracts Receive "HOL-Library.AList" begin

text \<open>
  The objects that process messages: \<open>CXRPCObjectServer\<close> (src/CXCommunicationServer/src/CXRPCObjectServer.cpp)
  with its state machine of pending requests, and \<open>CXRPCObjectManager\<close> (src/CXRPCObjectManager.cpp),
  the pool they come from.  What the classes of the users do (\<open>CreateObject\<close>, \<open>Destroy\<close> and the step
  functions) and the identifiers that the system generates are parameters.  The pool keeps the contract
  of \<open>Contracts\<close> as long as objects are given back with their identifier.
\<close>

section \<open>The objects\<close>

text \<open>
  The fields of the class without the handles; \<open>objStates\<close> is \<open>m_mapStateMachine\<close>, of which only the
  entries matter, and \<open>objStepFuns\<close> are the keys of \<open>m_mapStepFuns\<close>.  \<open>stepCon\<close> is the connection of the
  message of a step, its \<open>pConObj\<close>.
\<close>

record step_info =
  stepMes :: "message option"
  stepCon :: addr
  stepTime :: int
  stepNext :: u32

record rpc_obj =
  objUsing :: bool
  objClass :: string
  objID :: string
  objClassBytes :: "byte list"
  objIDBytes :: "byte list"
  objUnique :: bool
  objTimeoutSecs :: u32
  objSlowOpsMS :: u32
  objContinuous :: bool
  objStates :: "(string \<times> step_info list) list"
  objStepFuns :: "u32 list"
  objNeedDestroy :: bool
  objAligned :: bool

definition rpc_obj_new :: rpc_obj where
  "rpc_obj_new = \<lparr>objUsing = False, objClass = [], objID = [], objClassBytes = replicate CX_GUID_LEN 0,
     objIDBytes = replicate CX_GUID_LEN 0, objUnique = False, objTimeoutSecs = 10, objSlowOpsMS = 100,
     objContinuous = False, objStates = [], objStepFuns = [], objNeedDestroy = False, objAligned = False\<rparr>"

definition rpc_obj_init :: "(byte list \<Rightarrow> string) \<Rightarrow> byte list \<Rightarrow> rpc_obj \<Rightarrow> rpc_obj" where
  "rpc_obj_init unparse raw o1 =
     (if objUnique o1 then o1
      else let (s, bs) = generate_new_guid unparse raw
           in o1\<lparr>objID := s, objIDBytes := bs, objUsing := True\<rparr>)"

definition rpc_obj_reset :: "rpc_obj \<Rightarrow> rpc_obj" where
  "rpc_obj_reset o1 = o1\<lparr>objID := [], objIDBytes := replicate CX_GUID_LEN 0,
     objClassBytes := replicate CX_GUID_LEN 0, objUsing := False, objNeedDestroy := False\<rparr>"

text \<open>\<open>GetClassGuid\<close> looks up the name of the class in the table of src/CXCommon/include/CXPacketCodeDefine.h.\<close>

definition g_mapRPCObjectGuid :: "(string \<times> string) list" where
  "g_mapRPCObjectGuid = [
     (''CXHeartBeatV1'', ''{FE66615A-E22B-4A3D-936D-61EEDEDA2080}''),
     (''CXConnectionLoginV1'', ''{6E34084E-970B-427F-A973-2763A19D7C07}''),
     (''CXRPCObjectV1'', ''{2A3E8648-A997-4457-947C-23ABA77D815D}''),
     (''CXFileTcpV1'', ''{A888441E-F757-4775-B69A-CCEBD63156FB}''),
     (''CXStorageTcpV1'', ''{D2753C32-37A1-47F7-A1E0-7F4CAC074B47}''),
     (''CXUnknownObjectV1'', ''{0307F567-72FC-4355-8192-9E37DC766D2E}'')]"

definition get_class_guid :: "string \<Rightarrow> rpc_obj \<Rightarrow> rpc_obj" where
  "get_class_guid name o1 =
     (case map_of g_mapRPCObjectGuid name of
        None \<Rightarrow> o1
      | Some g \<Rightarrow> o1\<lparr>objClass := g, objClassBytes := guid_bytes g\<rparr>)"

section \<open>The state machine of an object\<close>

text \<open>
  \<open>PushState\<close> appends a step to the deque of its request; \<open>PopState\<close> takes the last one, and the entry
  of the request when none is left.
\<close>

definition push_state :: "string \<Rightarrow> step_info \<Rightarrow> rpc_obj \<Rightarrow> rpc_obj" where
  "push_state req st o1 = o1\<lparr>objStates :=
     (case map_of (objStates o1) req of
        Some q \<Rightarrow> AList.update req (q @ [st]) (objStates o1)
      | None \<Rightarrow> AList.update req [st] (objStates o1))\<rparr>"

definition pop_state :: "string \<Rightarrow> rpc_obj \<Rightarrow> step_info option \<times> rpc_obj" where
  "pop_state req o1 =
     (case map_of (objStates o1) req of
        None \<Rightarrow> (None, o1)
      | Some q \<Rightarrow>
          (Some (last q),
           if butlast q = [] then o1\<lparr>objStates := AList.delete req (objStates o1)\<rparr>
           else o1\<lparr>objStates := AList.update req (butlast q) (objStates o1)\<rparr>))"

definition CXRET_ASYNC_CALLBACK :: int where "CXRET_ASYNC_CALLBACK = - 11"

text \<open>\<open>DetectTimeoutRequests\<close>: the messages of the first steps that are reported as timed out.\<close>

definition detect_timeouts :: "int \<Rightarrow> rpc_obj \<Rightarrow> message list" where
  "detect_timeouts now o1 = concat (map (\<lambda>(req, q).
     (case stepMes (hd q) of
        None \<Rightarrow> []
      | Some m \<Rightarrow> if uint (objTimeoutSecs o1 * 1000) < now - mesBeginTime m then [m] else [])) (objStates o1))"


text \<open>
  What the deques are for: every request has a stack of its own.  The view of an object are those
  stacks, and the runs of an object return what the runs of the stacks return.
\<close>

definition stack_of :: "rpc_obj \<Rightarrow> string \<Rightarrow> step_info list" where
  "stack_of o1 req = (case map_of (objStates o1) req of None \<Rightarrow> [] | Some q \<Rightarrow> rev q)"

definition states_ok :: "rpc_obj \<Rightarrow> bool" where
  "states_ok o1 \<longleftrightarrow> (\<forall>req. map_of (objStates o1) req \<noteq> Some [])"

lemma push_state_stack:
  "states_ok o1 \<Longrightarrow> states_ok (push_state req st o1) \<and>
   stack_of (push_state req st o1) = (stack_of o1)(req := st # stack_of o1 req)"
  by (auto simp: states_ok_def stack_of_def push_state_def update_conv' fun_eq_iff split: option.splits)

lemma pop_state_stack:
  assumes "states_ok o1"
  shows "states_ok (snd (pop_state req o1)) \<and>
    fst (pop_state req o1) = (case stack_of o1 req of [] \<Rightarrow> None | st # _ \<Rightarrow> Some st) \<and>
    stack_of (snd (pop_state req o1)) = (stack_of o1)(req := tl (stack_of o1 req))"
proof (cases "map_of (objStates o1) req")
  case None
  then show ?thesis using assms by (auto simp: pop_state_def stack_of_def fun_eq_iff)
next
  case (Some q)
  then obtain q' st where q: "q = q' @ [st]" using assms by (cases q rule: rev_cases) (auto simp: states_ok_def)
  then show ?thesis
    using assms Some
    by (cases "q' = []") (auto simp: pop_state_def stack_of_def states_ok_def update_conv' delete_conv' fun_eq_iff)
qed

datatype state_op = Push string step_info | Pop string

fun run_states :: "state_op list \<Rightarrow> rpc_obj \<Rightarrow> step_info option list \<times> rpc_obj" where
  "run_states [] o1 = ([], o1)"
| "run_states (Push req st # ops) o1 = run_states ops (push_state req st o1)"
| "run_states (Pop req # ops) o1 =
     (case pop_state req o1 of (r, o1) \<Rightarrow> (case run_states ops o1 of (rs, o1) \<Rightarrow> (r # rs, o1)))"

fun run_stacks :: "state_op list \<Rightarrow> (string \<Rightarrow> step_info list) \<Rightarrow> step_info option list" where
  "run_stacks [] f = []"
| "run_stacks (Push req st # ops) f = run_stacks ops (f(req := st # f req))"
| "run_stacks (Pop req # ops) f =
     (case f req of [] \<Rightarrow> None | st # _ \<Rightarrow> Some st) # run_stacks ops (f(req := tl (f req)))"

lemma run_states_refines:
  "states_ok o1 \<Longrightarrow> fst (run_states ops o1) = run_stacks ops (stack_of o1)"
proof (induction ops arbitrary: o1)
  case Nil
  then show ?case by simp
next
  case (Cons op ops)
  show ?case
  proof (cases op)
    case (Push req st)
    then show ?thesis
      using Cons.IH [of "push_state req st o1"] push_state_stack [OF Cons.prems, of req st] by (simp del: fun_upd_apply)
  next
    case (Pop req)
    obtain r o2 where p: "pop_state req o1 = (r, o2)" by (cases "pop_state req o1")
    then have "states_ok o2" "r = (case stack_of o1 req of [] \<Rightarrow> None | st # _ \<Rightarrow> Some st)"
        "stack_of o2 = (stack_of o1)(req := tl (stack_of o1 req))"
      using pop_state_stack [OF Cons.prems, of req] by simp_all
    then show ?thesis
      using Cons.IH [of o2] Pop p by (cases "run_states ops o2") (simp del: fun_upd_apply)
  qed
qed

text \<open>
  C15: the state machine of an object is one stack of steps for every request, whatever the order in
  which steps of different requests are pushed and popped: a reply always meets the step that waits
  for it last, and requests never see each other's steps.
\<close>

theorem state_machine_is_stacks:
  "fst (run_states ops rpc_obj_new) = run_stacks ops (\<lambda>_. [])"
  using run_states_refines [of rpc_obj_new ops]
  by (simp add: states_ok_def rpc_obj_new_def stack_of_def [abs_def])


section \<open>The pool of objects\<close>

text \<open>
  The maps of \<open>CXRPCObjectManager\<close>, its two counters, the objects by their addresses, the next address
  and the number of identifiers generated so far.
\<close>

record rpc_manager =
  rmRegister :: "(string \<times> addr) list"
  rmFree :: "(string \<times> addr list) list"
  rmUsing :: "(string \<times> addr) list"
  rmUsingNum :: u64
  rmFreeNum :: u64
  rmObjects :: "addr \<Rightarrow> rpc_obj"
  rmNext :: addr
  rmGuids :: nat

record rpc_env =
  envGuid :: "nat \<Rightarrow> byte list"
  envUnparse :: "byte list \<Rightarrow> string"
  envCreate :: "rpc_obj \<Rightarrow> rpc_obj option"
  envDestroy :: "rpc_obj \<Rightarrow> rpc_obj"

definition rm_new :: rpc_manager where
  "rm_new = \<lparr>rmRegister = [], rmFree = [], rmUsing = [], rmUsingNum = 0, rmFreeNum = 0,
     rmObjects = (\<lambda>a. rpc_obj_new), rmNext = 0, rmGuids = 0\<rparr>"

definition rm_register :: "string \<Rightarrow> addr \<Rightarrow> rpc_manager \<Rightarrow> rpc_manager" where
  "rm_register cls a m = m\<lparr>rmRegister := AList.update cls a (rmRegister m)\<rparr>"

text \<open>\<open>Init\<close> of the object at an address, and its entry in the map of objects in use.\<close>

definition init_and_use :: "rpc_env \<Rightarrow> addr \<Rightarrow> rpc_manager \<Rightarrow> rpc_manager" where
  "init_and_use env a m =
     (let o1 = rpc_obj_init (envUnparse env) (envGuid env (rmGuids m)) (rmObjects m a)
      in m\<lparr>rmObjects := (rmObjects m)(a := o1),
           rmGuids := (if objUnique (rmObjects m a) then rmGuids m else Suc (rmGuids m)),
           rmUsingNum := rmUsingNum m + 1,
           rmUsing := AList.update (objID o1) a (rmUsing m)\<rparr>)"

definition get_free_object :: "rpc_env \<Rightarrow> string \<Rightarrow> rpc_manager \<Rightarrow> addr option \<times> rpc_manager" where
  "get_free_object env cls m =
     (case map_of (rmFree m) cls of
        Some (a # as) \<Rightarrow>
          (Some a, init_and_use env a
             (m\<lparr>rmFree := AList.update cls as (rmFree m), rmFreeNum := rmFreeNum m - 1\<rparr>))
      | _ \<Rightarrow>
          (case map_of (rmRegister m) cls of
             None \<Rightarrow> (None, m)
           | Some r \<Rightarrow>
               if objUnique (rmObjects m r) then (Some r, m)
               else (case envCreate env (rmObjects m r) of
                       None \<Rightarrow> (None, m)
                     | Some o1 \<Rightarrow>
                         (Some (rmNext m), init_and_use env (rmNext m)
                            (m\<lparr>rmObjects := (rmObjects m)(rmNext m := o1), rmNext := Suc (rmNext m)\<rparr>)))))"

definition get_static_object :: "string \<Rightarrow> rpc_manager \<Rightarrow> addr option" where
  "get_static_object cls m = map_of (rmRegister m) cls"

definition free_object :: "addr \<Rightarrow> rpc_manager \<Rightarrow> rpc_manager" where
  "free_object a m =
     (if objUnique (rmObjects m a) then m
      else case map_of (rmUsing m) (objID (rmObjects m a)) of
             None \<Rightarrow> m
           | Some _ \<Rightarrow>
               let cls = objClass (rmObjects m a);
                   m = m\<lparr>rmUsing := AList.delete (objID (rmObjects m a)) (rmUsing m)\<rparr>
               in (case map_of (rmFree m) cls of
                     Some as \<Rightarrow> m\<lparr>rmFree := AList.update cls (as @ [a]) (rmFree m)\<rparr>
                   | None \<Rightarrow> m\<lparr>rmFree := AList.update cls [a] (rmFree m)\<rparr>))"

definition find_using_object :: "string \<Rightarrow> rpc_manager \<Rightarrow> addr option" where
  "find_using_object i m = map_of (rmUsing m) i"

definition travel_timeouts :: "int \<Rightarrow> rpc_manager \<Rightarrow> message list" where
  "travel_timeouts now m = concat (map (\<lambda>(i, a). detect_timeouts now (rmObjects m a)) (rmUsing m))"

section \<open>The pool keeps the contract\<close>

text \<open>
  What is documented of the identifiers and of the users' classes: the first \<open>2^64\<close> identifiers are
  different from each other, and \<open>CreateObject\<close> makes an object of the same class.
\<close>

definition GUID_LIMIT :: nat where "GUID_LIMIT = 2 ^ 64"

definition new_id :: "rpc_env \<Rightarrow> nat \<Rightarrow> string" where
  "new_id env k = fst (generate_new_guid (envUnparse env) (envGuid env k))"

definition rpc_env_ok :: "rpc_env \<Rightarrow> bool" where
  "rpc_env_ok env \<longleftrightarrow> unparses (envUnparse env) \<and> inj_on (envGuid env) {..<GUID_LIMIT} \<and> (\<forall>k. length (envGuid env k) = CX_GUID_LEN) \<and>
     (\<forall>o1 o2. envCreate env o1 = Some o2 \<longrightarrow> objClass o2 = objClass o1 \<and> (\<not> objUnique o1 \<longrightarrow> \<not> objUnique o2))"

definition free_list :: "rpc_manager \<Rightarrow> string \<Rightarrow> addr list" where
  "free_list m cls = (case map_of (rmFree m) cls of None \<Rightarrow> [] | Some as \<Rightarrow> as)"

definition rpc_live :: "rpc_manager \<Rightarrow> addr set" where
  "rpc_live m = ran (map_of (rmUsing m))"

definition rpc_using_ok :: "rpc_env \<Rightarrow> rpc_manager \<Rightarrow> bool" where
  "rpc_using_ok env m \<longleftrightarrow> (\<forall>i a. map_of (rmUsing m) i = Some a \<longrightarrow> a < rmNext m \<and> objID (rmObjects m a) = i \<and>
     \<not> objUnique (rmObjects m a) \<and> (\<exists>k<rmGuids m. i = new_id env k))"

definition rpc_free_ok :: "rpc_manager \<Rightarrow> bool" where
  "rpc_free_ok m \<longleftrightarrow> (\<forall>cls. distinct (free_list m cls)) \<and>
     (\<forall>cls. \<forall>a\<in>set (free_list m cls). a < rmNext m \<and> objClass (rmObjects m a) = cls \<and>
        \<not> objUnique (rmObjects m a) \<and> a \<notin> rpc_live m)"

definition rpc_register_ok :: "rpc_manager \<Rightarrow> bool" where
  "rpc_register_ok m \<longleftrightarrow> (\<forall>cls r. map_of (rmRegister m) cls = Some r \<longrightarrow> r < rmNext m \<and>
     objClass (rmObjects m r) = cls \<and> r \<notin> rpc_live m \<and> (\<forall>c. r \<notin> set (free_list m c)))"

definition rpc_inv :: "rpc_env \<Rightarrow> rpc_manager \<Rightarrow> bool" where
  "rpc_inv env m \<longleftrightarrow> rpc_env_ok env \<and> rmGuids m \<le> GUID_LIMIT \<and> rpc_using_ok env m \<and> rpc_free_ok m \<and>
     rpc_register_ok m"

lemma new_id_inj:
  assumes ok: "rpc_env_ok env" and eq: "new_id env k = new_id env l" and lim: "k < GUID_LIMIT" "l < GUID_LIMIT"
  shows "k = l"
proof -
  have len: "length (envGuid env k) = 16" "length (envGuid env l) = 16" and u: "unparses (envUnparse env)"
    using ok by (simp_all add: rpc_env_ok_def CX_GUID_LEN_def)
  have "guid_bytes (new_id env k) = swap_fields (envGuid env k)" "guid_bytes (new_id env l) = swap_fields (envGuid env l)"
    using guid_bytes_text [OF u] len by (simp_all add: new_id_def generate_new_guid_def)
  then have "envGuid env k = envGuid env l"
    using eq swap_fields_twice [OF len(1)] swap_fields_twice [OF len(2)] by metis
  then show ?thesis using ok lim by (auto simp: rpc_env_ok_def inj_on_def)
qed

lemma free_list_update: "free_list (m\<lparr>rmFree := AList.update cls as al\<rparr>) c =
    (if c = cls then as else (case map_of al c of None \<Rightarrow> [] | Some as \<Rightarrow> as))"
  by (simp add: free_list_def update_conv')

lemma ran_upd_new: "f k = None \<Longrightarrow> ran (f(k \<mapsto> v)) = insert v (ran f)"
  by (simp add: ran_map_upd)

lemma ran_upd_None:
  assumes "f i = Some a" and "\<forall>j. f j = Some a \<longrightarrow> j = i"
  shows "ran (f(i := None)) = ran f - {a}"
proof (intro set_eqI iffI)
  fix x
  assume "x \<in> ran (f(i := None))"
  then obtain j where "j \<noteq> i" "f j = Some x" by (auto simp: ran_def split: if_splits)
  then show "x \<in> ran f - {a}" using assms(2) by (metis DiffI ranI singletonD)
next
  fix x
  assume "x \<in> ran f - {a}"
  then obtain j where "f j = Some x" "x \<noteq> a" by (auto simp: ran_def)
  then show "x \<in> ran (f(i := None))" using assms(1) by (metis fun_upd_apply option.inject ranI)
qed

text \<open>Taking an object that nobody holds into use keeps the invariant.\<close>

lemma init_and_use_inv:
  assumes inv: "rpc_inv env m" and a: "a < rmNext m" "\<not> objUnique (rmObjects m a)" "a \<notin> rpc_live m"
    "\<forall>c. a \<notin> set (free_list m c)" "a \<notin> ran (map_of (rmRegister m))"
    and lim: "rmGuids m < GUID_LIMIT"
  shows "rpc_inv env (init_and_use env a m) \<and> rpc_live (init_and_use env a m) = insert a (rpc_live m) \<and>
    find_using_object (objID (rmObjects (init_and_use env a m) a)) (init_and_use env a m) = Some a"
proof -
  let ?m = "init_and_use env a m" and ?i = "new_id env (rmGuids m)"
  have ok: "rpc_env_ok env" using inv by (simp add: rpc_inv_def)
  have i: "objID (rmObjects ?m a) = ?i"
    using a(2) by (simp add: init_and_use_def rpc_obj_init_def new_id_def Let_def split: prod.split)
  have u: "map_of (rmUsing ?m) = (map_of (rmUsing m))(?i \<mapsto> a)"
    using i by (simp add: init_and_use_def Let_def update_conv')
  have new: "map_of (rmUsing m) ?i = None"
  proof (rule ccontr)
    assume "map_of (rmUsing m) ?i \<noteq> None"
    then obtain k where "k < rmGuids m" "?i = new_id env k"
      using inv unfolding rpc_inv_def rpc_using_ok_def by blast
    then show False using new_id_inj [OF ok, of "rmGuids m" k] lim by simp
  qed
  have live: "rpc_live ?m = insert a (rpc_live m)" using u new by (simp add: rpc_live_def ran_upd_new)
  have same: "rmFree ?m = rmFree m" "rmRegister ?m = rmRegister m" "rmNext ?m = rmNext m"
      "rmGuids ?m = Suc (rmGuids m)" "\<And>b. objClass (rmObjects ?m b) = objClass (rmObjects m b)"
      "\<And>b. objUnique (rmObjects ?m b) = objUnique (rmObjects m b)" "\<And>b. b \<noteq> a \<Longrightarrow> rmObjects ?m b = rmObjects m b"
    using a(2) by (simp_all add: init_and_use_def rpc_obj_init_def Let_def split: prod.split)
  have fl: "free_list ?m = free_list m" by (rule ext) (simp add: free_list_def same)
  have "rpc_using_ok env ?m"
    unfolding rpc_using_ok_def
  proof (intro allI impI)
    fix j b
    assume j: "map_of (rmUsing ?m) j = Some b"
    show "b < rmNext ?m \<and> objID (rmObjects ?m b) = j \<and> \<not> objUnique (rmObjects ?m b) \<and> (\<exists>k<rmGuids ?m. j = new_id env k)"
    proof (cases "j = ?i")
      case True
      then show ?thesis using j u a i same by auto
    next
      case False
      then have old: "map_of (rmUsing m) j = Some b" using j u by simp
      then have "b \<noteq> a" using a(3) by (auto simp: rpc_live_def ran_def)
      then show ?thesis using inv old same less_SucI unfolding rpc_inv_def rpc_using_ok_def by metis
    qed
  qed
  moreover have "rpc_free_ok ?m" using inv a(4) by (auto simp: rpc_inv_def rpc_free_ok_def fl same live)
  moreover have "rpc_register_ok ?m"
    using inv a(5) by (auto simp: rpc_inv_def rpc_register_ok_def fl same live ran_def)
  ultimately have "rpc_inv env ?m" using ok lim same(4) by (simp add: rpc_inv_def)
  then show ?thesis using live i u by (simp add: find_using_object_def)
qed


abbreviation pop_free :: "string \<Rightarrow> addr list \<Rightarrow> u64 \<Rightarrow> rpc_manager \<Rightarrow> rpc_manager" where
  "pop_free cls as n m \<equiv> m\<lparr>rmFree := AList.update cls as (rmFree m), rmFreeNum := n\<rparr>"

abbreviation add_object :: "rpc_obj \<Rightarrow> rpc_manager \<Rightarrow> rpc_manager" where
  "add_object o1 m \<equiv> m\<lparr>rmObjects := (rmObjects m)(rmNext m := o1), rmNext := Suc (rmNext m)\<rparr>"

lemma rpc_inv_take_free:
  assumes inv: "rpc_inv env m" and f: "map_of (rmFree m) cls = Some (a # as)"
  shows "rpc_inv env (pop_free cls as n m)"
    and "a \<notin> set (free_list (pop_free cls as n m) c)" "a < rmNext m" "\<not> objUnique (rmObjects m a)" "objClass (rmObjects m a) = cls"
    "a \<notin> rpc_live m" "a \<notin> ran (map_of (rmRegister m))"
proof -
  let ?m = "pop_free cls as n m"
  have fl: "free_list ?m c = (if c = cls then as else free_list m c)" for c
    by (simp add: free_list_def update_conv')
  have old: "free_list m cls = a # as" using f by (simp add: free_list_def)
  have free: "rpc_free_ok m" and reg: "rpc_register_ok m" using inv by (simp_all add: rpc_inv_def)
  have dist: "distinct (a # as)" "\<forall>b\<in>set (a # as). b < rmNext m \<and> objClass (rmObjects m b) = cls \<and>
      \<not> objUnique (rmObjects m b) \<and> b \<notin> rpc_live m"
    using free unfolding rpc_free_ok_def by (metis old)+
  then show "a < rmNext m" "\<not> objUnique (rmObjects m a)" "objClass (rmObjects m a) = cls" "a \<notin> rpc_live m"
    by simp_all
  show "a \<notin> set (free_list ?m c)"
    using dist free by (auto simp: fl rpc_free_ok_def)
  show "a \<notin> ran (map_of (rmRegister m))"
  proof
    assume "a \<in> ran (map_of (rmRegister m))"
    then obtain c' where "map_of (rmRegister m) c' = Some a" by (auto simp: ran_def)
    then have "a \<notin> set (free_list m cls)" using reg by (simp add: rpc_register_ok_def)
    then show False using old by simp
  qed
  have live: "rpc_live ?m = rpc_live m" by (simp add: rpc_live_def)
  have "rpc_free_ok ?m" using free dist by (auto simp: rpc_free_ok_def fl live)
  moreover have "rpc_register_ok ?m"
    unfolding rpc_register_ok_def
  proof (intro allI impI)
    fix c' r
    assume r: "map_of (rmRegister ?m) c' = Some r"
    then have "r \<notin> set (free_list m cls)" using reg by (simp add: rpc_register_ok_def)
    then show "r < rmNext ?m \<and> objClass (rmObjects ?m r) = c' \<and> r \<notin> rpc_live ?m \<and> (\<forall>c. r \<notin> set (free_list ?m c))"
      using r reg old by (simp add: rpc_register_ok_def fl live)
  qed
  moreover have "rpc_using_ok env ?m" using inv by (simp add: rpc_inv_def rpc_using_ok_def)
  ultimately show "rpc_inv env ?m" using inv by (simp add: rpc_inv_def)
qed

lemma rpc_inv_create:
  assumes inv: "rpc_inv env m"
  shows "rpc_inv env (add_object o1 m)" and "rmNext m \<notin> rpc_live (add_object o1 m)"
    "rmNext m \<notin> set (free_list (add_object o1 m) c)" "rmNext m \<notin> ran (map_of (rmRegister (add_object o1 m)))"
proof -
  let ?m = "add_object o1 m"
  have fl: "free_list ?m = free_list m" by (rule ext) (simp add: free_list_def)
  have live: "rpc_live ?m = rpc_live m" by (simp add: rpc_live_def)
  have u: "rpc_using_ok env m" "rpc_free_ok m" "rpc_register_ok m" using inv by (simp_all add: rpc_inv_def)
  show n: "rmNext m \<notin> rpc_live ?m" "rmNext m \<notin> set (free_list ?m c)" "rmNext m \<notin> ran (map_of (rmRegister ?m))"
    using u by (auto simp: fl live rpc_live_def rpc_using_ok_def rpc_free_ok_def rpc_register_ok_def ran_def
        dest: less_irrefl_nat)
  have "rpc_using_ok env ?m" using u(1) by (auto simp: rpc_using_ok_def less_SucI)
  moreover have "rpc_free_ok ?m" using u(2) by (auto simp: rpc_free_ok_def fl live less_SucI)
  moreover have "rpc_register_ok ?m" using u(3) by (auto simp: rpc_register_ok_def fl live less_SucI)
  ultimately show "rpc_inv env ?m" using inv by (simp add: rpc_inv_def)
qed

text \<open>
  Objects that are not unique for their class are taken with \<open>GetFreeObject\<close> and given back with
  \<open>FreeObject\<close>; the contract is stated for the first \<open>2^64\<close> identifiers.
\<close>

definition get_instance :: "rpc_env \<Rightarrow> string \<Rightarrow> rpc_manager \<Rightarrow> addr option \<times> rpc_manager" where
  "get_instance env cls m =
     (if GUID_LIMIT \<le> rmGuids m then (None, m)
      else case map_of (rmRegister m) cls of
        Some r \<Rightarrow> if objUnique (rmObjects m r) then (None, m) else get_free_object env cls m
      | None \<Rightarrow> get_free_object env cls m)"

lemma init_and_use_class: "objClass (rmObjects (init_and_use env a m) b) = objClass (rmObjects m b)"
  by (simp add: init_and_use_def rpc_obj_init_def Let_def split: prod.split)

lemma get_instance_spec:
  assumes inv: "rpc_inv env m" and g: "get_instance env cls m = (ob, m')"
  shows "rpc_inv env m' \<and>
    (case ob of
       None \<Rightarrow> rpc_live m' = rpc_live m
     | Some a \<Rightarrow> a \<notin> rpc_live m \<and> rpc_live m' = insert a (rpc_live m) \<and> objClass (rmObjects m' a) = cls \<and>
         find_using_object (objID (rmObjects m' a)) m' = Some a)"
proof (cases "\<exists>a as. map_of (rmFree m) cls = Some (a # as)")
  case True
  then obtain a as where f: "map_of (rmFree m) cls = Some (a # as)" by blast
  let ?m = "m\<lparr>rmFree := AList.update cls as (rmFree m), rmFreeNum := rmFreeNum m - 1\<rparr>"
  note tf = rpc_inv_take_free [OF inv f]
  show ?thesis
  proof (cases "ob = None")
    case True
    then have "m' = m" using g f by (auto simp: get_instance_def get_free_object_def split: option.splits if_splits)
    then show ?thesis using True inv by simp
  next
    case False
    then have r: "ob = Some a" "m' = init_and_use env a ?m" "rmGuids m < GUID_LIMIT"
      using g f by (auto simp: get_instance_def get_free_object_def split: option.splits if_splits)
    have live: "rpc_live ?m = rpc_live m" by (simp add: rpc_live_def)
    show ?thesis
      using init_and_use_inv [OF tf(1), of a] tf(2-7) r live by (simp add: init_and_use_class)
  qed
next
  case False
  show ?thesis
  proof (cases ob)
    case None
    then have "m' = m"
      using g False by (auto simp: get_instance_def get_free_object_def split: option.splits if_splits list.splits)
    then show ?thesis using None inv by simp
  next
    case (Some a)
    then obtain r o1 where r: "map_of (rmRegister m) cls = Some r" "\<not> objUnique (rmObjects m r)"
        "envCreate env (rmObjects m r) = Some o1" "a = rmNext m"
        "m' = init_and_use env a (m\<lparr>rmObjects := (rmObjects m)(rmNext m := o1), rmNext := Suc (rmNext m)\<rparr>)"
        "rmGuids m < GUID_LIMIT"
      using g False by (auto simp: get_instance_def get_free_object_def split: option.splits if_splits list.splits)
    let ?m = "m\<lparr>rmObjects := (rmObjects m)(rmNext m := o1), rmNext := Suc (rmNext m)\<rparr>"
    note cr = rpc_inv_create [OF inv, of o1]
    have "objClass o1 = cls" "\<not> objUnique o1"
      using inv r(1-3) unfolding rpc_inv_def rpc_env_ok_def rpc_register_ok_def by metis+
    moreover have "rpc_live ?m = rpc_live m" by (simp add: rpc_live_def)
    ultimately show ?thesis
      using init_and_use_inv [OF cr(1), of a] cr(2-4) r(4-6) Some by (simp add: init_and_use_class)
  qed
qed

lemma free_object_spec:
  assumes inv: "rpc_inv env m" and a: "a \<in> rpc_live m"
  shows "rpc_inv env (free_object a m) \<and> rpc_live (free_object a m) = rpc_live m - {a} \<and>
    a \<in> set (free_list (free_object a m) (objClass (rmObjects m a)))"
proof -
  let ?c = "objClass (rmObjects m a)" and ?i = "objID (rmObjects m a)" and ?m = "free_object a m"
  have u: "rpc_using_ok env m" and f: "rpc_free_ok m" and r: "rpc_register_ok m" using inv by (simp_all add: rpc_inv_def)
  have i: "map_of (rmUsing m) ?i = Some a" "\<not> objUnique (rmObjects m a)" "a < rmNext m"
    using a u by (auto simp: rpc_live_def ran_def rpc_using_ok_def)
  have same: "rmObjects ?m = rmObjects m" "rmNext ?m = rmNext m" "rmGuids ?m = rmGuids m" "rmRegister ?m = rmRegister m"
      "map_of (rmUsing ?m) = (map_of (rmUsing m))(?i := None)"
      "\<And>c. free_list ?m c = (if c = ?c then free_list m c @ [a] else free_list m c)"
    using i by (auto simp: free_object_def Let_def free_list_def delete_conv' update_conv' split: option.splits)
  have inj: "\<forall>j. map_of (rmUsing m) j = Some a \<longrightarrow> j = ?i" using u unfolding rpc_using_ok_def by blast
  have live: "rpc_live ?m = rpc_live m - {a}"
    unfolding rpc_live_def same by (rule ran_upd_None [OF i(1) inj])
  have "rpc_using_ok env ?m"
    unfolding rpc_using_ok_def
  proof (intro allI impI)
    fix j b
    assume "map_of (rmUsing ?m) j = Some b"
    then have "map_of (rmUsing m) j = Some b" by (simp add: same split: if_splits)
    then show "b < rmNext ?m \<and> objID (rmObjects ?m b) = j \<and> \<not> objUnique (rmObjects ?m b) \<and> (\<exists>k<rmGuids ?m. j = new_id env k)"
      using u unfolding rpc_using_ok_def same by blast
  qed
  moreover have "rpc_free_ok ?m" using f a i unfolding rpc_free_ok_def same live by auto
  moreover have "rpc_register_ok ?m" using r a unfolding rpc_register_ok_def same live by auto
  ultimately show ?thesis using inv live by (simp add: rpc_inv_def same)
qed

interpretation rpc: allocator "rpc_inv env" rpc_live "get_instance env" "\<lambda>cls. free_object" for env
proof
  fix m cls a
  assume inv: "rpc_inv env m"
  obtain ob m' where g: "get_instance env cls m = (ob, m')" by (cases "get_instance env cls m")
  note get = get_instance_spec [OF inv g]
  show "rpc_inv env (snd (get_instance env cls m))" using get g by simp
  show "rpc_live (snd (get_instance env cls m)) = rpc_live m" if "fst (get_instance env cls m) = None"
    using get g that by simp
  show "a \<notin> rpc_live m \<and> rpc_live (snd (get_instance env cls m)) = insert a (rpc_live m)"
    if "fst (get_instance env cls m) = Some a"
    using get g that by simp
  show "rpc_inv env (free_object a m)" "rpc_live (free_object a m) = rpc_live m - {a}" if "a \<in> rpc_live m"
    using free_object_spec [OF inv that] by simp_all
qed


lemma rm_new_inv: "rpc_env_ok env \<Longrightarrow> rpc_inv env rm_new"
  by (simp add: rpc_inv_def rpc_using_ok_def rpc_free_ok_def rpc_register_ok_def rm_new_def free_list_def)

lemma rm_register_inv:
  assumes "rpc_inv env m" and "a < rmNext m" and "objClass (rmObjects m a) = cls" and "a \<notin> rpc_live m"
    and "\<forall>c. a \<notin> set (free_list m c)"
  shows "rpc_inv env (rm_register cls a m)"
proof -
  have fl: "free_list (rm_register cls a m) = free_list m" by (rule ext) (simp add: free_list_def rm_register_def)
  have "rpc_live (rm_register cls a m) = rpc_live m" by (simp add: rpc_live_def rm_register_def)
  then show ?thesis
    using assms by (auto simp: rpc_inv_def rpc_using_ok_def rpc_free_ok_def rpc_register_ok_def fl)
      (auto simp: rm_register_def update_conv' split: if_splits)
qed

text \<open>
  C16: no object for remote calls serves two holders.  Whatever the classes and the order in which
  objects are taken and given back, the objects held are different from each other and from those that
  others hold, and every one of them is found under its own identifier.
\<close>

theorem rpc_objects_handed_out_once:
  assumes "rpc_inv env m" and "rpc.serve env ops [] m = (objs, m')"
  shows "distinct objs \<and> set objs \<inter> rpc_live m = {} \<and> rpc_live m' = rpc_live m \<union> set objs \<and> rpc_inv env m' \<and>
    (\<forall>a\<in>set objs. find_using_object (objID (rmObjects m' a)) m' = Some a)"
proof -
  have s: "rpc_inv env m'" "distinct objs" "set objs \<inter> rpc_live m = {}" "rpc_live m' = rpc_live m \<union> set objs"
    using rpc.serve_fresh [OF assms] by simp_all
  have "find_using_object (objID (rmObjects m' a)) m' = Some a" if "a \<in> set objs" for a
  proof -
    have "a \<in> rpc_live m'" using that s(4) by simp
    then obtain i where "map_of (rmUsing m') i = Some a" by (auto simp: rpc_live_def ran_def)
    then show ?thesis using s(1) unfolding rpc_inv_def rpc_using_ok_def find_using_object_def by metis
  qed
  then show ?thesis using s by blast
qed

definition demo_rpc_env :: rpc_env where
  "demo_rpc_env = \<lparr>envGuid = le_enc 16, envUnparse = uuid_text, envCreate = Some, envDestroy = rpc_obj_reset\<rparr>"

definition demo_class :: string where
  "demo_class = ''{A888441E-F757-4775-B69A-CCEBD63156FB}''"

definition demo_rpc_manager :: rpc_manager where
  "demo_rpc_manager = rm_register demo_class 0 (rm_new\<lparr>rmObjects := (\<lambda>a. rpc_obj_new)(0 := get_class_guid ''CXFileTcpV1'' rpc_obj_new),
     rmNext := 1\<rparr>)"

lemma demo_rpc_env_ok: "rpc_env_ok demo_rpc_env"
proof -
  have "inj_on (le_enc 16) {..<GUID_LIMIT}"
  proof (rule inj_onI)
    fix x y :: nat
    assume l: "x \<in> {..<GUID_LIMIT}" "y \<in> {..<GUID_LIMIT}" and eq: "le_enc 16 x = le_enc 16 y"
    have "x mod 256 ^ 16 = y mod 256 ^ 16" using arg_cong [OF eq, of le_dec] unfolding le_dec_enc .
    moreover have "x < 256 ^ 16" "y < 256 ^ 16" using l by (simp_all add: GUID_LIMIT_def)
    ultimately show "x = y" by simp
  qed
  then show ?thesis by (simp add: rpc_env_ok_def demo_rpc_env_def unparses_def CX_GUID_LEN_def)
qed

lemma demo_rpc_inv: "rpc_inv demo_rpc_env demo_rpc_manager"
proof -
  have "rpc_inv demo_rpc_env (rm_new\<lparr>rmObjects := (\<lambda>a. rpc_obj_new)(0 := get_class_guid ''CXFileTcpV1'' rpc_obj_new), rmNext := 1\<rparr>)"
    using demo_rpc_env_ok
    by (simp add: rpc_inv_def rpc_using_ok_def rpc_free_ok_def rpc_register_ok_def rm_new_def free_list_def)
  then show ?thesis
    unfolding demo_rpc_manager_def
    by (rule rm_register_inv)
      (simp_all add: rm_new_def rpc_live_def free_list_def get_class_guid_def g_mapRPCObjectGuid_def demo_class_def)
qed

theorem rpc_objects_handed_out_once_witness:
  "let (objs, m') = rpc.serve demo_rpc_env [Take demo_class, Take demo_class, Give demo_class 1, Take demo_class] [] demo_rpc_manager
   in distinct objs \<and> (\<forall>a\<in>set objs. find_using_object (objID (rmObjects m' a)) m' = Some a)"
proof -
  obtain objs m' where r: "rpc.serve demo_rpc_env [Take demo_class, Take demo_class, Give demo_class 1, Take demo_class] [] demo_rpc_manager
      = (objs, m')" by (rule prod.exhaust)
  from rpc_objects_handed_out_once [OF demo_rpc_inv r] show ?thesis unfolding r Let_def prod.case by blast
qed

end
