(* ===== verification/Sessions.thy ===== *)
theory Sessions imports Main RPC_Objects begin

text \<open>
  Sessions: \<open>CXConnectionSession\<close> (src/CXCommunicationServer/src/CXConnectionSession.cpp), the connections
  and objects of one logged in user, and \<open>CXSessionsManager\<close> (src/CXSessionsManager.cpp), the pool of
  sessions and the map of those in use.  The pool keeps the contract of \<open>Contracts\<close>.  The objects of a
  closed session never go back to their pool, because \<open>Destroy\<close> clears the identifier by which
  \<open>FreeObject\<close> looks for them.
\<close>

section \<open>One session\<close>

text \<open>Connections and objects are known by their addresses; \<open>sesPool\<close> says whether the pool is set.\<close>

record session =
  sesMain :: "addr option"
  sesMessage :: "addr list"
  sesData :: "addr list"
  sesObject :: "addr list"
  sesGuid :: string
  sesCode :: string
  sesBegin :: int
  sesTimeout :: int
  sesObjects :: "(string \<times> addr) list"
  sesPool :: bool

definition session_new :: session where
  "session_new = \<lparr>sesMain = None, sesMessage = [], sesData = [], sesObject = [], sesGuid = [], sesCode = [],
     sesBegin = 0, sesTimeout = 0, sesObjects = [], sesPool = False\<rparr>"

definition add_main_connection :: "addr \<Rightarrow> session \<Rightarrow> session" where
  "add_main_connection c s = s\<lparr>sesMain := Some c\<rparr>"

definition add_message_connection :: "addr \<Rightarrow> session \<Rightarrow> session" where
  "add_message_connection c s = s\<lparr>sesMessage := sesMessage s @ [c]\<rparr>"

definition add_data_connection :: "addr \<Rightarrow> session \<Rightarrow> session" where
  "add_data_connection c s = s\<lparr>sesData := sesData s @ [c]\<rparr>"

definition remove_connection :: "addr \<Rightarrow> session \<Rightarrow> int \<times> session" where
  "remove_connection c s =
     (if sesMain s = Some c then (0, s\<lparr>sesMain := None\<rparr>)
      else if c \<in> set (sesMessage s) then (0, s\<lparr>sesMessage := remove1 c (sesMessage s)\<rparr>)
      else if c \<in> set (sesData s) then (0, s\<lparr>sesData := remove1 c (sesData s)\<rparr>)
      else if c \<in> set (sesObject s) then (0, s\<lparr>sesObject := remove1 c (sesObject s)\<rparr>)
      else (- 2, s))"

definition connection_number :: "session \<Rightarrow> int" where
  "connection_number s = (if sesMain s \<noteq> None then 1 else 0) + int (length (sesMessage s)) + int (length (sesData s))"

definition add_session_object :: "string \<Rightarrow> addr \<Rightarrow> session \<Rightarrow> session" where
  "add_session_object i a s = s\<lparr>sesObjects := AList.update i a (sesObjects s)\<rparr>"

definition find_session_object :: "string \<Rightarrow> session \<Rightarrow> addr option" where
  "find_session_object i s = map_of (sesObjects s) i"

definition remove_session_object :: "string \<Rightarrow> session \<Rightarrow> session" where
  "remove_session_object i s = s\<lparr>sesObjects := AList.delete i (sesObjects s)\<rparr>"

text \<open>
  \<open>Destroy\<close>: every object of the session is destroyed and, when the pool is set, freed.  The lists of
  connections, the times and the pool stay as they are.
\<close>

definition destroy_object :: "rpc_env \<Rightarrow> addr \<Rightarrow> rpc_manager \<Rightarrow> rpc_manager" where
  "destroy_object env a m = m\<lparr>rmObjects := (rmObjects m)(a := envDestroy env (rmObjects m a))\<rparr>"

definition session_destroy :: "rpc_env \<Rightarrow> session \<Rightarrow> rpc_manager \<Rightarrow> session \<times> rpc_manager" where
  "session_destroy env s m =
     (s\<lparr>sesMain := None, sesGuid := [], sesCode := [], sesObjects := []\<rparr>,
      fold (\<lambda>(i, a) m. if sesPool s then free_object a (destroy_object env a m) else destroy_object env a m)
        (sesObjects s) m)"

section \<open>The verification code\<close>

text \<open>
  \<open>ResetVerificationInfo\<close> seeds \<open>rand\<close> with the time in seconds; \<open>first_rand\<close> is what \<open>rand\<close> returns
  after that.  The code are eight decimal digits.
\<close>

definition code_text :: "nat \<Rightarrow> string" where
  "code_text n = map (\<lambda>i. digit (n div 10 ^ (7 - i))) [0..<8]"

definition reset_verification :: "(int \<Rightarrow> nat) \<Rightarrow> int \<Rightarrow> session \<Rightarrow> session" where
  "reset_verification first_rand now s =
     s\<lparr>sesCode := code_text (first_rand now mod 10000000), sesBegin := now, sesTimeout := 60\<rparr>"

definition verify_code :: "int \<Rightarrow> string \<Rightarrow> session \<Rightarrow> int" where
  "verify_code now code s =
     (if code \<noteq> sesCode s then - 1 else if sesTimeout s < now - sesBegin s then - 2 else 0)"

text \<open>
  A code is accepted for sixty seconds and no longer, and nothing but the code is accepted.
\<close>

theorem verification_code_lifetime:
  "verify_code later code (reset_verification first_rand now s) =
     (if code \<noteq> code_text (first_rand now mod 10000000) then - 1 else if later \<le> now + 60 then 0 else - 2) \<and>
   length (code_text (first_rand now mod 10000000)) = 8"
  by (simp add: verify_code_def reset_verification_def code_text_def)

section \<open>The sessions of a server\<close>

record ses_manager =
  smUsing :: "(string \<times> addr) list"
  smFree :: "addr list"
  smSessions :: "addr \<Rightarrow> session"
  smNext :: addr

definition sm_new :: ses_manager where
  "sm_new = \<lparr>smUsing = [], smFree = [], smSessions = (\<lambda>a. session_new), smNext = 0\<rparr>"

definition get_free_session :: "ses_manager \<Rightarrow> addr option \<times> ses_manager" where
  "get_free_session m =
     (let m = (if smFree m = []
               then m\<lparr>smFree := [smNext m..<smNext m + 1000],
                      smSessions := (\<lambda>a. if smNext m \<le> a \<and> a < smNext m + 1000 then session_new else smSessions m a),
                      smNext := smNext m + 1000\<rparr>
               else m)
      in case smFree m of [] \<Rightarrow> (None, m) | a # as \<Rightarrow> (Some a, m\<lparr>smFree := as\<rparr>))"

definition add_using_session :: "addr \<Rightarrow> ses_manager \<Rightarrow> int \<times> ses_manager" where
  "add_using_session a m =
     (if map_of (smUsing m) (sesGuid (smSessions m a)) \<noteq> None then (- 1, m)
      else (0, m\<lparr>smUsing := AList.update (sesGuid (smSessions m a)) a (smUsing m)\<rparr>))"

definition close_session :: "rpc_env \<Rightarrow> addr \<Rightarrow> ses_manager \<times> rpc_manager \<Rightarrow> ses_manager \<times> rpc_manager" where
  "close_session env a mr =
     (case mr of (m, r) \<Rightarrow>
        if map_of (smUsing m) (sesGuid (smSessions m a)) = None then (m, r)
        else case session_destroy env (smSessions m a) r of (s, r) \<Rightarrow>
          (m\<lparr>smUsing := AList.delete (sesGuid (smSessions m a)) (smUsing m),
             smSessions := (smSessions m)(a := s), smFree := smFree m @ [a]\<rparr>, r))"

definition find_using_session :: "string \<Rightarrow> ses_manager \<Rightarrow> addr option" where
  "find_using_session g m = map_of (smUsing m) g"

definition destroy_sessions :: "ses_manager \<Rightarrow> ses_manager" where
  "destroy_sessions m = m\<lparr>smUsing := [], smFree := []\<rparr>"

definition update_session :: "addr \<Rightarrow> (session \<Rightarrow> session) \<Rightarrow> ses_manager \<Rightarrow> ses_manager" where
  "update_session a f m = m\<lparr>smSessions := (smSessions m)(a := f (smSessions m a))\<rparr>"


text \<open>
  What \<open>CloseConnection\<close> (src/CXCommunicationServer/src/CXCommunicationServer.cpp) does with the session of a connection that is closed: it
  takes the connection out, and closes the session when it was the last one.
\<close>

definition leave_session :: "rpc_env \<Rightarrow> addr \<Rightarrow> addr \<Rightarrow> ses_manager \<times> rpc_manager \<Rightarrow> ses_manager \<times> rpc_manager" where
  "leave_session env c a mr =
     (case mr of (m, r) \<Rightarrow>
        let (_, s) = remove_connection c (smSessions m a);
            m = update_session a (\<lambda>_. s) m
        in if connection_number s = 0 then close_session env a (m, r) else (m, r))"

section \<open>The pool of sessions keeps the contract\<close>

text \<open>How the server opens a session: one from the pool, with a new identifier, added to those in use.\<close>

definition open_session :: "string \<Rightarrow> ses_manager \<Rightarrow> addr option \<times> ses_manager" where
  "open_session g m =
     (case get_free_session m of
        (None, m) \<Rightarrow> (None, m)
      | (Some a, m) \<Rightarrow>
          (case add_using_session a (update_session a (\<lambda>s. s\<lparr>sesGuid := g\<rparr>) m) of
             (r, m) \<Rightarrow> (if r = 0 then Some a else None, m)))"

definition ses_live :: "ses_manager \<Rightarrow> addr set" where
  "ses_live m = ran (map_of (smUsing m))"

definition ses_inv :: "ses_manager \<Rightarrow> bool" where
  "ses_inv m \<longleftrightarrow> (\<forall>g a. map_of (smUsing m) g = Some a \<longrightarrow> a < smNext m \<and> sesGuid (smSessions m a) = g) \<and>
     distinct (smFree m) \<and> (\<forall>a\<in>set (smFree m). a < smNext m \<and> a \<notin> ses_live m)"

lemma get_free_session_spec:
  assumes "ses_inv m" and "get_free_session m = (ob, m')"
  shows "\<exists>a. ob = Some a \<and> ses_inv m' \<and> smUsing m' = smUsing m \<and> a \<notin> ses_live m \<and> a < smNext m' \<and>
    a \<notin> set (smFree m')"
proof -
  define m1 where "m1 = (if smFree m = []
      then m\<lparr>smFree := [smNext m..<smNext m + 1000],
             smSessions := (\<lambda>a. if smNext m \<le> a \<and> a < smNext m + 1000 then session_new else smSessions m a),
             smNext := smNext m + 1000\<rparr>
      else m)"
  have live: "ses_live m1 = ses_live m" and using1: "smUsing m1 = smUsing m" by (simp_all add: m1_def ses_live_def)
  have old: "a < smNext m" if "a \<in> ses_live m" for a
    using assms(1) that by (auto simp: ses_inv_def ses_live_def ran_def)
  have lt: "a < smNext m + 1000 \<and> \<not> smNext m \<le> a \<and> sesGuid (smSessions m a) = g"
    if "map_of (smUsing m) g = Some a" for g a
    using assms(1) that unfolding ses_inv_def by fastforce
  have "ses_inv m1"
  proof (cases "smFree m = []")
    case True
    then show ?thesis unfolding ses_inv_def live by (auto simp: m1_def dest: lt old)
  next
    case False
    then show ?thesis using assms(1) by (simp add: m1_def)
  qed
  moreover obtain a as where f: "smFree m1 = a # as" by (cases "smFree m1") (auto simp: m1_def split: if_splits)
  moreover have "(ob, m') = (Some a, m1\<lparr>smFree := as\<rparr>)"
    using assms(2) f unfolding get_free_session_def m1_def [symmetric] Let_def by simp
  ultimately show ?thesis using live using1 by (auto simp: ses_inv_def ses_live_def)
qed

lemma open_session_spec:
  assumes inv: "ses_inv m" and r: "open_session g m = (ob, m')"
  shows "ses_inv m' \<and>
    (case ob of None \<Rightarrow> ses_live m' = ses_live m
     | Some a \<Rightarrow> a \<notin> ses_live m \<and> ses_live m' = insert a (ses_live m) \<and> find_using_session g m' = Some a)"
proof -
  obtain b m1 where g: "get_free_session m = (b, m1)" by (cases "get_free_session m")
  obtain a where a: "b = Some a" "ses_inv m1" "smUsing m1 = smUsing m" "a \<notin> ses_live m" "a < smNext m1"
      "a \<notin> set (smFree m1)"
    using get_free_session_spec [OF inv g] by blast
  let ?m2 = "update_session a (\<lambda>s. s\<lparr>sesGuid := g\<rparr>) m1"
  have live: "ses_live ?m2 = ses_live m" using a(3) by (simp add: ses_live_def update_session_def)
  have inv2: "ses_inv ?m2"
    using a(2,4) live by (auto simp: ses_inv_def update_session_def ses_live_def ran_def a(3))
  show ?thesis
  proof (cases "map_of (smUsing m) g = None")
    case True
    then have "ob = Some a" "m' = ?m2\<lparr>smUsing := AList.update g a (smUsing m)\<rparr>"
      using r g a(1,3) by (simp_all add: open_session_def add_using_session_def update_session_def)
    moreover from this have "ses_live m' = insert a (ses_live m)" using True by (simp add: ses_live_def update_conv' ran_upd_new)
    ultimately show ?thesis
      using inv2 a(4-6) True live
      by (auto simp: ses_inv_def find_using_session_def update_conv' update_session_def a(3))
  next
    case False
    then have "ob = None" "m' = ?m2"
      using r g a(1,3) by (simp_all add: open_session_def add_using_session_def update_session_def)
    then show ?thesis using inv2 live by simp
  qed
qed

lemma close_session_spec:
  assumes inv: "ses_inv m" and a: "a \<in> ses_live m" and c: "close_session env a (m, r) = (m', r')"
  shows "ses_inv m' \<and> ses_live m' = ses_live m - {a} \<and> a \<in> set (smFree m') \<and>
    find_using_session (sesGuid (smSessions m a)) m' = None"
proof -
  let ?g = "sesGuid (smSessions m a)"
  have g: "map_of (smUsing m) ?g = Some a" and "a < smNext m"
    using inv a by (auto simp: ses_inv_def ses_live_def ran_def)
  have inj: "\<forall>h. map_of (smUsing m) h = Some a \<longrightarrow> h = ?g" using inv unfolding ses_inv_def by blast
  obtain s r1 where d: "session_destroy env (smSessions m a) r = (s, r1)" by (cases "session_destroy env (smSessions m a) r")
  have m': "m' = m\<lparr>smUsing := AList.delete ?g (smUsing m), smSessions := (smSessions m)(a := s), smFree := smFree m @ [a]\<rparr>"
    using c g d by (simp add: close_session_def)
  have live: "ses_live m' = ses_live m - {a}"
    unfolding m' ses_live_def by (simp add: delete_conv' ran_upd_None [OF g inj])
  have "map_of (smUsing m') h = Some b \<longrightarrow> b < smNext m' \<and> sesGuid (smSessions m' b) = h" for h b
    using inv inj unfolding m' ses_inv_def by (auto simp: delete_conv')
  moreover have "a \<notin> set (smFree m)" using inv a by (auto simp: ses_inv_def)
  ultimately have "ses_inv m'"
    using inv \<open>a < smNext m\<close> live unfolding ses_inv_def by (auto simp: m')
  then show ?thesis using live by (simp add: m' find_using_session_def delete_conv')
qed

interpretation ses: allocator "\<lambda>(m, r). ses_inv m" "\<lambda>(m, r). ses_live m"
  "\<lambda>g (m, r). (case open_session g m of (ob, m) \<Rightarrow> (ob, (m, r)))" "\<lambda>g a. close_session env a" for env
proof
  fix x :: "ses_manager \<times> rpc_manager" and g a
  obtain m r where x: "x = (m, r)" by (cases x)
  assume "case x of (m, r) \<Rightarrow> ses_inv m"
  then have inv: "ses_inv m" using x by simp
  obtain ob m1 where o1: "open_session g m = (ob, m1)" by (cases "open_session g m")
  obtain m2 r2 where c: "close_session env a (m, r) = (m2, r2)" by (cases "close_session env a (m, r)")
  let ?get = "case x of (m, r) \<Rightarrow> (case open_session g m of (ob, m) \<Rightarrow> (ob, (m, r)))"
  show "case snd ?get of (m, r) \<Rightarrow> ses_inv m" using open_session_spec [OF inv o1] x o1 by simp
  show "(case snd ?get of (m, r) \<Rightarrow> ses_live m) = (case x of (m, r) \<Rightarrow> ses_live m)" if "fst ?get = None"
    using open_session_spec [OF inv o1] x o1 that by simp
  show "a \<notin> (case x of (m, r) \<Rightarrow> ses_live m) \<and> (case snd ?get of (m, r) \<Rightarrow> ses_live m) = insert a (case x of (m, r) \<Rightarrow> ses_live m)"
    if "fst ?get = Some a"
    using open_session_spec [OF inv o1] x o1 that by simp
  show "case close_session env a x of (m, r) \<Rightarrow> ses_inv m"
    "(case close_session env a x of (m, r) \<Rightarrow> ses_live m) = (case x of (m, r) \<Rightarrow> ses_live m) - {a}"
    if "a \<in> (case x of (m, r) \<Rightarrow> ses_live m)"
    using close_session_spec [OF inv _ c] x c that by simp_all
qed


text \<open>
  C18: no session object serves two users.  Whatever the order in which sessions are opened and closed,
  those that are open are different from each other and from the sessions of others, and each is found
  under its own identifier and no other.
\<close>

theorem sessions_handed_out_once:
  assumes "ses_inv m" and "ses.serve env ops [] (m, r) = (open, (m', r'))"
  shows "distinct open \<and> set open \<inter> ses_live m = {} \<and> ses_live m' = ses_live m \<union> set open \<and>
    (\<forall>a\<in>set open. \<forall>g. find_using_session g m' = Some a \<longleftrightarrow> g = sesGuid (smSessions m' a))"
proof -
  have s: "ses_inv m'" "distinct open" "set open \<inter> ses_live m = {}" "ses_live m' = ses_live m \<union> set open"
    using ses.serve_fresh [of "(m, r)" env ops "open" "(m', r')"] assms by simp_all
  have "find_using_session g m' = Some a \<longleftrightarrow> g = sesGuid (smSessions m' a)" if "a \<in> set open" for a g
  proof -
    have "a \<in> ses_live m'" using that s(4) by simp
    then obtain h where "map_of (smUsing m') h = Some a" by (auto simp: ses_live_def ran_def)
    then show ?thesis using s(1) unfolding ses_inv_def find_using_session_def by metis
  qed
  then show ?thesis using s by blast
qed

theorem sessions_handed_out_once_witness:
  "let (open, (m', r')) = ses.serve demo_rpc_env [Take ''a'', Take ''b'', Give ''x'' 1, Take ''c''] [] (sm_new, rm_new)
   in distinct open \<and> (\<forall>a\<in>set open. \<forall>g. find_using_session g m' = Some a \<longleftrightarrow> g = sesGuid (smSessions m' a))"
proof -
  have "ses_inv sm_new" by (simp add: ses_inv_def sm_new_def)
  moreover obtain "open" m' r' where r: "ses.serve demo_rpc_env [Take ''a'', Take ''b'', Give ''x'' 1, Take ''c''] [] (sm_new, rm_new)
      = (open, (m', r'))" by (metis prod.exhaust)
  ultimately show ?thesis using sessions_handed_out_once [OF _ r] unfolding r Let_def prod.case by blast
qed

section \<open>Objects that were destroyed never come back\<close>

text \<open>
  Every \<open>Destroy\<close> of the repository ends with \<open>Reset\<close>, which clears the identifier.  What the server does
  with objects: it takes them for a message, closes their session, or destroys and frees those that ask
  for it after a message (src/CXConnectionObject.cpp, \<open>ProcessUnpackedMessage\<close>).
\<close>

datatype object_use = TakeObject string | CloseSession session | DestroyAndFree addr

fun use_objects :: "rpc_env \<Rightarrow> object_use list \<Rightarrow> rpc_manager \<Rightarrow> rpc_manager" where
  "use_objects env [] m = m"
| "use_objects env (TakeObject cls # us) m = use_objects env us (snd (get_free_object env cls m))"
| "use_objects env (CloseSession s # us) m = use_objects env us (snd (session_destroy env s m))"
| "use_objects env (DestroyAndFree a # us) m = use_objects env us (free_object a (destroy_object env a m))"

definition never_free :: "rpc_manager \<Rightarrow> bool" where
  "never_free m \<longleftrightarrow> rmFree m = [] \<and> map_of (rmUsing m) [] = None"

lemma free_destroyed:
  assumes "never_free m" and "objID (envDestroy env (rmObjects m a)) = []"
  shows "free_object a (destroy_object env a m) = destroy_object env a m"
  using assms by (simp add: free_object_def destroy_object_def never_free_def)

lemma never_free_destroy: "never_free m \<Longrightarrow> never_free (destroy_object env a m)"
  by (simp add: never_free_def destroy_object_def)

lemma never_free_get:
  assumes "never_free m" and "\<forall>o1 o2. envCreate env o1 = Some o2 \<longrightarrow> \<not> objUnique o2"
  shows "never_free (snd (get_free_object env cls m))"
  using assms
  by (auto simp: never_free_def get_free_object_def init_and_use_def rpc_obj_init_def generate_new_guid_def Let_def
      update_conv' split: option.split)

lemma never_free_session:
  assumes "never_free m" and "\<forall>o1. objID (envDestroy env o1) = []"
  shows "never_free (snd (session_destroy env s m))"
proof -
  have "never_free (fold (\<lambda>(i, a) m. if sesPool s then free_object a (destroy_object env a m) else destroy_object env a m) xs m)" for xs
    using assms(1)
    by (induction xs arbitrary: m) (auto simp: free_destroyed assms(2) never_free_destroy)
  then show ?thesis by (simp add: session_destroy_def)
qed

text \<open>
  Objects are never used again.  When \<open>Destroy\<close> clears the identifier, as every class does, no history
  of a server puts an object into the pool of free objects: closing a session and freeing an object after
  a message leave it in the map of objects in use for ever, and every request makes a new object.
\<close>

theorem destroyed_objects_never_return:
  assumes "rmFree m = []" and "map_of (rmUsing m) [] = None"
    and "\<forall>o1. objID (envDestroy env o1) = []"
    and "\<forall>o1 o2. envCreate env o1 = Some o2 \<longrightarrow> \<not> objUnique o2"
  shows "rmFree (use_objects env us m) = [] \<and>
    (\<forall>cls r. map_of (rmRegister (use_objects env us m)) cls = Some r \<longrightarrow>
       \<not> objUnique (rmObjects (use_objects env us m) r) \<longrightarrow>
       envCreate env (rmObjects (use_objects env us m) r) \<noteq> None \<longrightarrow>
       fst (get_free_object env cls (use_objects env us m)) = Some (rmNext (use_objects env us m)))"
proof -
  have "never_free (use_objects env us m)"
    using assms(1,2)
  proof (induction us arbitrary: m)
    case Nil
    then show ?case by (simp add: never_free_def)
  next
    case (Cons u us)
    then have nf: "never_free m" by (simp add: never_free_def)
    have ih: "never_free (use_objects env us m1)" if "never_free m1" for m1
      using Cons.IH [of m1] that by (simp add: never_free_def)
    show ?case
      using ih never_free_get [OF nf assms(4)] never_free_session [OF nf assms(3)] never_free_destroy [OF nf]
        free_destroyed [OF nf, of env] assms(3)
      by (cases u) simp_all
  qed
  then show ?thesis by (auto simp: never_free_def get_free_object_def)
qed

text \<open>In this history the object of a session is destroyed with it, and the next request of the same
  class makes a second object.\<close>

definition demo_uses :: "object_use list" where
  "demo_uses = [TakeObject demo_class, CloseSession (session_new\<lparr>sesObjects := [(''o'', 1)], sesPool := True\<rparr>), TakeObject demo_class]"

theorem destroyed_objects_never_return_witness:
  "rmFree (use_objects (demo_rpc_env\<lparr>envCreate := (\<lambda>o1. if objUnique o1 then None else Some o1)\<rparr>) demo_uses demo_rpc_manager) = []"
proof -
  let ?env = "demo_rpc_env\<lparr>envCreate := (\<lambda>o1. if objUnique o1 then None else Some o1)\<rparr>"
  have "rmFree demo_rpc_manager = []" "map_of (rmUsing demo_rpc_manager) [] = None"
    by (simp_all add: demo_rpc_manager_def rm_register_def rm_new_def)
  moreover have "\<forall>o1. objID (envDestroy ?env o1) = []" "\<forall>o1 o2. envCreate ?env o1 = Some o2 \<longrightarrow> \<not> objUnique o2"
    by (auto simp: demo_rpc_env_def rpc_obj_reset_def split: if_splits)
  ultimately show ?thesis using destroyed_objects_never_return [of demo_rpc_manager ?env demo_uses] by blast
qed

end
