(* ===== verification/Login.thy ===== *)
theory Login imports Main Sessions Send begin

text \<open>
  The login of a connection: \<open>CXSessionLevelBase\<close> (src/CXCommunicationServer/src/CXSessionLevelBase.cpp),
  the object that turns the first connection of a user into a session and lets further connections join
  it with the verification code, and \<open>ProcessMessage\<close> of src/CXRPCObjectServer.cpp around it.  The lemmas
  show the whole exchange, a message that makes the server write outside its memory before anybody has
  logged in, and a kind of connection that outlives its session.
\<close>

section \<open>The login packet\<close>

text \<open>
  \<open>CXSessionLogin\<close> (src/CXCommon/include/CXSessionPacketStructure.h) behind the forty bytes of the body
  head; \<open>szUserData\<close> begins at offset 52 of the body.
\<close>

record login_packet =
  loginSessionType :: u32
  loginUserType :: byte
  loginConnectionType :: byte
  loginEncryptType :: byte
  loginReserve :: byte
  loginUserDataLen :: u32

definition offset_user_data :: nat where "offset_user_data = 52"
definition login_head :: nat where "login_head = 12"

definition login_of :: "byte list \<Rightarrow> login_packet" where
  "login_of bs = \<lparr>loginSessionType = word_of_nat (le_dec (take 4 bs)), loginUserType = bs ! 4,
     loginConnectionType = bs ! 5, loginEncryptType = bs ! 6, loginReserve = bs ! 7,
     loginUserDataLen = word_of_nat (le_dec (take 4 (drop 8 bs)))\<rparr>"

definition login_bytes :: "login_packet \<Rightarrow> byte list" where
  "login_bytes p = le_enc 4 (unat (loginSessionType p)) @
     [loginUserType p, loginConnectionType p, loginEncryptType p, loginReserve p] @
     le_enc 4 (unat (loginUserDataLen p))"

text \<open>
  The packet is read in place: a message shorter than the fixed part makes the fields come from memory
  that nobody wrote.  Writing the terminator of the user data writes one byte of the object; \<open>cap\<close> are the
  bytes the object has from its body on.
\<close>

definition read_login :: "message \<Rightarrow> login_packet res" where
  "read_login m = (if length (mesBody m) < offset_user_data then Inl OutOfBounds else Inr (login_of (drop 40 (mesBody m))))"

definition terminate_user_data :: "nat \<Rightarrow> u32 \<Rightarrow> message \<Rightarrow> message res" where
  "terminate_user_data cap n m =
     (let i = offset_user_data + unat n
      in if cap \<le> i then Inl HeapOverflow
         else if i < length (mesBody m) then Inr (m\<lparr>mesBody := (mesBody m)[i := 0]\<rparr>) else Inr m)"

definition c_string :: "byte list \<Rightarrow> string" where
  "c_string bs = map (\<lambda>b. char_of (unat b)) (takeWhile (\<lambda>b. b \<noteq> 0) bs)"

text \<open>The user data up to its first carriage return, and behind it.\<close>

definition CR :: char where "CR = CHR 0x0D"

definition split_user_data :: "message \<Rightarrow> (string \<times> string) option" where
  "split_user_data m =
     (let s = c_string (drop offset_user_data (mesBody m))
      in if CR \<in> set s then Some (takeWhile (\<lambda>c. c \<noteq> CR) s, tl (dropWhile (\<lambda>c. c \<noteq> CR) s)) else None)"

section \<open>The reply\<close>

definition show_int :: "int \<Rightarrow> string" where
  "show_int i = (if i < 0 then CHR 0x2D # show_nat (nat (- i)) else show_nat (nat i))"

definition length_error :: "u32 \<Rightarrow> u32 \<Rightarrow> string" where
  "length_error n dataLen = ''The login content length '' @ show_int (sint n) @
     '' is wrong, has exceeded allowable size '' @ show_int (sint (dataLen - word_of_nat login_head)) @ ''!''"

text \<open>
  What a login leads to: the return value, the code of the reply, its announced length and its text, the
  number of bytes that are sent, and the states.
\<close>

record login_result =
  lrRet :: int
  lrCode :: nat
  lrLen :: nat
  lrText :: string
  lrSend :: nat
  lrMes :: message
  lrCon :: connection
  lrSes :: ses_manager

definition sizeof_common_reply :: nat where "sizeof_common_reply = 17"

definition reply_bytes :: "login_result \<Rightarrow> byte list" where
  "reply_bytes r = take (lrSend r) (le_enc 4 (lrCode r) @ replicate 8 0 @ le_enc 4 (lrLen r) @
     map (\<lambda>c. word_of_nat (of_char c)) (lrText r) @ replicate 1024 0)"

definition no_reply_text :: "int \<Rightarrow> nat \<Rightarrow> message \<Rightarrow> connection \<Rightarrow> ses_manager \<Rightarrow> login_result" where
  "no_reply_text ret code m c sm = \<lparr>lrRet = ret, lrCode = code, lrLen = 0, lrText = [], lrSend = sizeof_common_reply,
     lrMes = m, lrCon = c, lrSes = sm\<rparr>"

definition error_text :: "int \<Rightarrow> nat \<Rightarrow> string \<Rightarrow> message \<Rightarrow> connection \<Rightarrow> ses_manager \<Rightarrow> login_result" where
  "error_text ret code text m c sm = (no_reply_text ret code m c sm)\<lparr>lrLen := length text + 1, lrText := text\<rparr>"

section \<open>Logging in\<close>

text \<open>
  From outside: whether the connection knows the sessions manager, the identifier that
  \<open>BuildSessionGuid\<close> returns, \<open>rand\<close>, the time, and the size of the message object.
\<close>

record login_env =
  lgManager :: bool
  lgGuid :: string
  lgRand :: "int \<Rightarrow> nat"
  lgNow :: int
  lgCap :: nat

text \<open>A main connection gets a new session, and the reply tells its identifier and code.\<close>

definition login_main :: "login_env \<Rightarrow> addr \<Rightarrow> message \<Rightarrow> connection \<Rightarrow> ses_manager \<Rightarrow> login_result" where
  "login_main env ca m c sm =
     (case get_free_session sm of
        (None, sm) \<Rightarrow> no_reply_text (- 7) 207 m c sm
      | (Some a, sm) \<Rightarrow>
          let sm = update_session a (add_main_connection ca) sm;
              sm = update_session a (\<lambda>s. s\<lparr>sesGuid := lgGuid env\<rparr>) sm;
              sm = update_session a (reset_verification (lgRand env) (lgNow env)) sm;
              (r, sm) = add_using_session a sm;
              sm = update_session a (\<lambda>s. s\<lparr>sesPool := True\<rparr>) sm;
              text = lgGuid env @ [CR] @ sesCode (smSessions sm a)
          in \<lparr>lrRet = 0, lrCode = 200, lrLen = length text + 1, lrText = text,
              lrSend = sizeof_common_reply + length text + 1, lrMes = m, lrCon = c\<lparr>conSession := Some a\<rparr>, lrSes = sm\<rparr>)"

text \<open>Any other connection joins the session that it names; only types 2 and 3 are entered in it.\<close>

definition login_join ::
  "login_env \<Rightarrow> addr \<Rightarrow> byte \<Rightarrow> string \<Rightarrow> string \<Rightarrow> message \<Rightarrow> connection \<Rightarrow> ses_manager \<Rightarrow> login_result" where
  "login_join env ca ty guid code m c sm =
     (case find_using_session guid sm of
        None \<Rightarrow> no_reply_text (- 2) 204 m c sm
      | Some a \<Rightarrow>
          let v = verify_code (lgNow env) code (smSessions sm a)
          in if v \<noteq> 0 then no_reply_text (- 6) (if v = - 1 then 205 else 206) m c sm
             else no_reply_text 0 200 m (c\<lparr>conSession := Some a\<rparr>)
               (if ty = 2 then update_session a (add_message_connection ca) sm
                else if ty = 3 then update_session a (add_data_connection ca) sm
                else sm))"

text \<open>The allowed size is computed in 64 bits, and wraps when the message is shorter than the fixed part.\<close>

definition login_check :: "login_env \<Rightarrow> addr \<Rightarrow> message \<Rightarrow> connection \<Rightarrow> ses_manager \<Rightarrow> login_result res" where
  "login_check env ca m c sm =
     bind_res (read_login m) (\<lambda>p.
       let n = loginUserDataLen p in
       if n = 0 \<or> mesDataLen m \<le> n then Inr (no_reply_text (- 3) 201 m c sm)
       else if \<not> lgManager env then Inr (no_reply_text (- 4) 202 m c sm)
       else if conSession c \<noteq> None then Inr (no_reply_text (- 4) 205 m c sm)
       else if (ucast (mesDataLen m) :: u64) - word_of_nat login_head < ucast n
         then Inr (error_text (- 5) 203 (length_error n (mesDataLen m)) m c sm)
       else bind_res (terminate_user_data (lgCap env) n m) (\<lambda>m.
         case split_user_data m of
           None \<Rightarrow> Inr (error_text (- 5) 203 ''The format of login content is wrong!'' m c sm)
         | Some (v1, v2) \<Rightarrow>
             if loginConnectionType p = 1 then Inr (login_main env ca m c sm)
             else Inr (login_join env ca (loginConnectionType p) v1 v2 m c sm)))"

definition CX_SESSION_LOGIN_CODE :: u32 where "CX_SESSION_LOGIN_CODE = 1"
definition CX_SESSION_LOGIN_REPLY_CODE :: u32 where "CX_SESSION_LOGIN_REPLY_CODE = 2"

text \<open>The states of a server that a message of a connection changes.\<close>

record login_state =
  lsMes :: message
  lsCon :: connection
  lsSock :: sock
  lsSes :: ses_manager

definition session_login :: "login_env \<Rightarrow> send_env \<Rightarrow> addr \<Rightarrow> login_state \<Rightarrow> (int \<times> login_state) res" where
  "session_login env senv ca st =
     bind_res (login_check env ca (lsMes st) (lsCon st) (lsSes st)) (\<lambda>r.
       bind_res (send_packet senv (reply_bytes r) CX_SESSION_LOGIN_REPLY_CODE (Some (lrMes r)) (lrCon r) (lsSock st))
         (\<lambda>(ok, c, s).
           Inr (if \<not> ok \<or> lrRet r = - 2 then - 2 else lrRet r,
                \<lparr>lsMes = lrMes r, lsCon = c, lsSock = s, lsSes = lrSes r\<rparr>)))"

text \<open>\<open>DispatchMes\<close>; logging out and the settings do nothing.\<close>

definition dispatch_login :: "login_env \<Rightarrow> send_env \<Rightarrow> addr \<Rightarrow> login_state \<Rightarrow> (int \<times> login_state) res" where
  "dispatch_login env senv ca st =
     (if dwMesCode (body_of (mesBody (lsMes st))) = CX_SESSION_LOGIN_CODE then session_login env senv ca st
      else Inr (0, st))"

text \<open>
  \<open>MessageToString\<close> ends the user data of a login message without looking at its length; what it prints is
  left out.
\<close>

definition message_to_string :: "nat \<Rightarrow> message \<Rightarrow> message res" where
  "message_to_string cap m =
     (if dwMesCode (body_of (mesBody m)) = CX_SESSION_LOGIN_CODE
      then bind_res (read_login m) (\<lambda>p. terminate_user_data cap (loginUserDataLen p) m)
      else Inr m)"

text \<open>\<open>ProcessMessage\<close>, and \<open>OutputResult\<close> for messages that are not asynchronous.\<close>

definition process_login_message :: "login_env \<Rightarrow> send_env \<Rightarrow> addr \<Rightarrow> login_state \<Rightarrow> (int \<times> login_state) res" where
  "process_login_message env senv ca st =
     bind_res (dispatch_login env senv ca (st\<lparr>lsMes := (lsMes st)\<lparr>mesBeginProcessTime := lgNow env\<rparr>\<rparr>)) (\<lambda>(r, st).
       let m = (lsMes st)\<lparr>mesProcessedRet := r\<rparr>
       in if conAsyncMes (lsCon st) then Inr (r, st\<lparr>lsMes := m\<rparr>)
          else bind_res (message_to_string (lgCap env) m) (\<lambda>m. Inr (r, st\<lparr>lsMes := m\<rparr>)))"


section \<open>A well-formed login\<close>

text \<open>The message that a client's login arrives as: its head with the code, the packet, the text, and the
  forty bytes that the object has more than the body.\<close>

definition login_message :: "message \<Rightarrow> byte \<Rightarrow> string \<Rightarrow> message" where
  "login_message m ty text = m\<lparr>mesDataLen := word_of_nat (52 + length text),
     mesBody := replicate 32 0 @ le_enc 4 1 @ replicate 4 0 @
       login_bytes \<lparr>loginSessionType = 1, loginUserType = 0, loginConnectionType = ty, loginEncryptType = 0,
         loginReserve = 0, loginUserDataLen = word_of_nat (length text)\<rparr> @
       map (\<lambda>c. word_of_nat (of_char c)) text @ replicate 40 0\<rparr>"

lemma login_round_trip: "login_of (login_bytes p @ rest) = p"
proof -
  have [simp]: "word_of_nat (le_dec (le_enc 4 (unat (x :: u32)))) = x" for x
    using unsigned_less [of x, where ?'a = nat] by (simp add: le_dec_enc)
  show ?thesis
    by (simp add: login_of_def login_bytes_def nth_append le_enc_numeral [of "num.Bit0 (num.Bit0 num.One)", symmetric])
qed

lemma login_bytes_length: "length (login_bytes p) = login_head"
  by (simp add: login_bytes_def login_head_def)

lemma char_byte: "char_of (unat (word_of_nat (of_char c) :: byte)) = c"
proof -
  have "of_char c < (256 :: nat)" by (metis of_char_mod_256 mod_less_divisor zero_less_numeral)
  then show ?thesis by (simp add: unat_of_nat)
qed

lemma byte_of_char_zero: "(word_of_nat (of_char c) :: byte) = 0 \<longleftrightarrow> c = CHR 0x00"
proof
  assume "(word_of_nat (of_char c) :: byte) = 0"
  then have "char_of (0 :: nat) = c" using char_byte [of c] by simp
  moreover have "char_of (0 :: nat) = CHR 0x00" by (simp add: char_of_def)
  ultimately show "c = CHR 0x00" by simp
qed simp

lemma c_string_text:
  "CHR 0x00 \<notin> set cs \<Longrightarrow> c_string (map (\<lambda>c. word_of_nat (of_char c)) cs @ 0 # rest) = cs"
proof (induction cs)
  case Nil
  then show ?case by (simp add: c_string_def)
next
  case (Cons c cs)
  then have "(word_of_nat (of_char c) :: byte) \<noteq> 0" by (auto simp: byte_of_char_zero)
  then show ?case using Cons by (simp add: c_string_def char_byte)
qed

lemma split_text:
  "CR \<notin> set v1 \<Longrightarrow> takeWhile (\<lambda>c. c \<noteq> CR) (v1 @ CR # v2) = v1 \<and> tl (dropWhile (\<lambda>c. c \<noteq> CR) (v1 @ CR # v2)) = v2"
  by (induction v1) auto

text \<open>What \<open>SessionLogin\<close> reads of such a message.\<close>

lemma login_check_message:
  assumes data: "text = v1 @ CR # v2" "CR \<notin> set v1" "CHR 0x00 \<notin> set text" "length text < 2 ^ 31"
    and env: "lgManager env" "conSession c = None" "52 + length text < lgCap env"
  shows "\<exists>m'. login_check env ca (login_message m ty text) c sm =
    Inr (if ty = 1 then login_main env ca m' c sm else login_join env ca ty v1 v2 m' c sm)"
proof -
  let ?m = "login_message m ty text"
  let ?p = "\<lparr>loginSessionType = 1, loginUserType = 0, loginConnectionType = ty, loginEncryptType = 0,
         loginReserve = 0, loginUserDataLen = word_of_nat (length text)\<rparr> :: login_packet"
  have n: "unat (word_of_nat (length text) :: u32) = length text" using data(4) by (simp add: unat_of_nat)
  have d: "unat (mesDataLen ?m) = 52 + length text"
  proof -
    have "mesDataLen ?m = word_of_nat (52 + length text)" by (simp add: login_message_def)
    then show ?thesis using data(4) by (simp only: unat_of_nat) simp
  qed
  have body: "mesBody ?m = (replicate 32 0 @ le_enc 4 1 @ replicate 4 0) @ login_bytes ?p @
      map (\<lambda>c. word_of_nat (of_char c)) text @ replicate 40 0" by (simp add: login_message_def)
  have len: "length (mesBody ?m) = 92 + length text"
    by (simp add: body login_bytes_length login_head_def)
  have "drop 40 (mesBody ?m) = login_bytes ?p @ map (\<lambda>c. word_of_nat (of_char c)) text @ replicate 40 0"
    unfolding body by (subst drop_append) simp
  then have rd: "read_login ?m = Inr ?p"
    using len by (simp add: read_login_def offset_user_data_def login_round_trip)
  have "0 < length text" using data(1) by simp
  then have "unat (0 :: u32) < unat (word_of_nat (length text) :: u32)"
      "unat (word_of_nat (length text) :: u32) < unat (mesDataLen ?m)" using n d by simp_all
  then have c1: "\<not> (word_of_nat (length text) = (0 :: u32) \<or> mesDataLen ?m \<le> word_of_nat (length text))"
    by (metis linorder_not_le word_less_nat_alt order_less_irrefl)
  have uc: "(ucast (w :: u32) :: u64) = word_of_nat (unat w)" for w by simp
  have "(ucast (mesDataLen ?m) :: u64) - word_of_nat login_head = word_of_nat (52 + length text) - word_of_nat login_head"
    by (simp only: uc d)
  then have "(ucast (mesDataLen ?m) :: u64) - word_of_nat login_head = word_of_nat (40 + length text)"
    by (simp add: login_head_def)
  moreover have "(ucast (word_of_nat (length text) :: u32) :: u64) = word_of_nat (length text)"
    by (simp only: uc n)
  moreover have "\<not> (word_of_nat (40 + length text) :: u64) < word_of_nat (length text)"
    using data(4) by (simp only: word_less_nat_alt unat_of_nat) simp
  ultimately have c2: "\<not> (ucast (mesDataLen ?m) :: u64) - word_of_nat login_head < ucast (word_of_nat (length text) :: u32)"
    by simp
  let ?t = "?m\<lparr>mesBody := (mesBody ?m)[52 + length text := 0]\<rparr>"
  have tm: "terminate_user_data (lgCap env) (word_of_nat (length text)) ?m = Inr ?t"
    using env(3) len n by (simp add: terminate_user_data_def offset_user_data_def)
  have pre: "length ((replicate 32 0 @ le_enc 4 1 @ replicate 4 0) @ login_bytes ?p) = 52"
    by (simp add: login_bytes_length login_head_def)
  have "mesBody ?t = ((replicate 32 0 @ le_enc 4 1 @ replicate 4 0) @ login_bytes ?p) @
      map (\<lambda>c. word_of_nat (of_char c)) text @ (replicate 40 0)[0 := 0]"
    using pre by (simp add: body list_update_append)
  moreover have "(replicate 40 (0 :: byte))[0 := 0] = 0 # replicate 39 0" by (simp add: numeral_eq_Suc)
  ultimately have "drop 52 (mesBody ?t) = map (\<lambda>c. word_of_nat (of_char c)) text @ 0 # replicate 39 0"
    using pre by (simp only: drop_append) simp
  then have sp: "split_user_data ?t = Some (v1, v2)"
    using c_string_text [OF data(3), of "replicate 39 0"] split_text [OF data(2), of v2] data(1)
    by (simp add: split_user_data_def offset_user_data_def Let_def)
  show ?thesis
    using rd c1 c2 tm sp env by (auto simp: login_check_def Let_def)
qed


section \<open>The exchange\<close>

lemma login_main_spec:
  assumes inv: "ses_inv sm" and new: "find_using_session (lgGuid env) sm = None"
  shows "\<exists>a. lrRet (login_main env ca m c sm) = 0 \<and> lrCode (login_main env ca m c sm) = 200 \<and>
    lrText (login_main env ca m c sm) = lgGuid env @ CR # code_text (lgRand env (lgNow env) mod 10000000) \<and>
    lrCon (login_main env ca m c sm) = c\<lparr>conSession := Some a\<rparr> \<and>
    a \<notin> ses_live sm \<and> find_using_session (lgGuid env) (lrSes (login_main env ca m c sm)) = Some a \<and>
    smSessions (lrSes (login_main env ca m c sm)) a =
      (reset_verification (lgRand env) (lgNow env)
        (smSessions (snd (get_free_session sm)) a\<lparr>sesMain := Some ca, sesGuid := lgGuid env\<rparr>))\<lparr>sesPool := True\<rparr> \<and>
    smFree (lrSes (login_main env ca m c sm)) = smFree (snd (get_free_session sm)) \<and>
    fst (get_free_session sm) = Some a"
proof -
  obtain ob sm1 where g: "get_free_session sm = (ob, sm1)" by (cases "get_free_session sm")
  then obtain a where a: "ob = Some a" "smUsing sm1 = smUsing sm" "a \<notin> ses_live sm"
    using get_free_session_spec [OF inv] by blast
  then show ?thesis
    using new g
    by (intro exI [of _ a])
      (simp add: login_main_def add_using_session_def update_session_def add_main_connection_def reset_verification_def
        find_using_session_def update_conv' Let_def)
qed

lemma code_text_chars: "CHR 0x00 \<notin> set (code_text n)" "CR \<notin> set (code_text n)"
proof -
  have "(of_char (digit k) :: nat) \<noteq> 0" "(of_char (digit k) :: nat) \<noteq> 13" for k
    by (simp_all add: digit_def of_char_of)
  moreover have "(of_char (CHR 0x00) :: nat) = 0" "(of_char CR :: nat) = 13"
    by (simp_all add: of_char_def CR_def)
  ultimately have "CHR 0x00 \<noteq> digit k" "CR \<noteq> digit k" for k by metis+
  then show "CHR 0x00 \<notin> set (code_text n)" "CR \<notin> set (code_text n)" by (auto simp: code_text_def)
qed

lemma code_text_length [simp]: "length (code_text n) = 8"
  by (simp add: code_text_def)

lemma login_join_code:
  assumes "find_using_session guid sm = Some a"
  shows "login_join env ca ty guid code m c sm =
    (let v = verify_code (lgNow env) code (smSessions sm a)
     in no_reply_text (if v = 0 then 0 else - 6) (if v = 0 then 200 else if v = - 1 then 205 else 206) m
       (if v = 0 then c\<lparr>conSession := Some a\<rparr> else c)
       (if v \<noteq> 0 then sm else if ty = 2 then update_session a (add_message_connection ca) sm
        else if ty = 3 then update_session a (add_data_connection ca) sm else sm))"
  using assms by (simp add: login_join_def Let_def)

text \<open>
  C20: the exchange of a login.  The first connection of a user gets a session that nobody else has, and
  a text; another connection that sends this text back joins the same session during the next sixty
  seconds and is refused after that; with any other code it is refused at any time, and nothing changes.
\<close>

theorem login_exchange:
  assumes "ses_inv sm" and "find_using_session (lgGuid e1) sm = None" and "lgManager e1" and "lgManager e2"
    and "conSession c1 = None" and "conSession c2 = None" and "ty \<noteq> 1"
    and "CR \<notin> set (lgGuid e1)" and "CHR 0x00 \<notin> set (lgGuid e1)" and "length (lgGuid e1) < 2 ^ 30"
    and "CR \<notin> set user" and "CHR 0x00 \<notin> set (user @ pwd)" and "length (user @ pwd) < 2 ^ 30"
    and "length (user @ pwd) + 53 < lgCap e1" and "length (lgGuid e1) + 61 < lgCap e2"
  shows "\<exists>r1 a. login_check e1 A (login_message m1 1 (user @ CR # pwd)) c1 sm = Inr r1 \<and>
    lrRet r1 = 0 \<and> lrCode r1 = 200 \<and> conSession (lrCon r1) = Some a \<and> a \<notin> ses_live sm \<and>
    (\<exists>r2. login_check e2 B (login_message m2 ty (lrText r1)) c2 (lrSes r1) = Inr r2 \<and>
       (if lgNow e2 \<le> lgNow e1 + 60 then lrCode r2 = 200 \<and> conSession (lrCon r2) = Some a
        else lrCode r2 = 206 \<and> conSession (lrCon r2) = None)) \<and>
    (\<forall>code. lgGuid e1 @ CR # code \<noteq> lrText r1 \<and> CHR 0x00 \<notin> set code \<and> length code \<le> 8 \<longrightarrow>
       (\<exists>r3. login_check e2 B (login_message m2 ty (lgGuid e1 @ CR # code)) c2 (lrSes r1) = Inr r3 \<and>
          lrCode r3 = 205 \<and> conSession (lrCon r3) = None \<and> lrSes r3 = lrSes r1))"
proof -
  let ?code = "code_text (lgRand e1 (lgNow e1) mod 10000000)"
  have "CHR 0x00 \<noteq> CR" by (simp add: CR_def)
  then obtain m' where c1: "login_check e1 A (login_message m1 1 (user @ CR # pwd)) c1 sm = Inr (login_main e1 A m' c1 sm)"
    using login_check_message [OF refl assms(11), of pwd e1 c1 A m1 1 sm] assms(3,5,12-14) by auto
  obtain a where a: "lrRet (login_main e1 A m' c1 sm) = 0" "lrCode (login_main e1 A m' c1 sm) = 200"
      "lrText (login_main e1 A m' c1 sm) = lgGuid e1 @ CR # ?code" "conSession (lrCon (login_main e1 A m' c1 sm)) = Some a"
      "a \<notin> ses_live sm" "find_using_session (lgGuid e1) (lrSes (login_main e1 A m' c1 sm)) = Some a"
      "sesCode (smSessions (lrSes (login_main e1 A m' c1 sm)) a) = ?code"
      "sesBegin (smSessions (lrSes (login_main e1 A m' c1 sm)) a) = lgNow e1"
      "sesTimeout (smSessions (lrSes (login_main e1 A m' c1 sm)) a) = 60"
    using login_main_spec [OF assms(1,2), of A m' c1] by (auto simp: reset_verification_def)
  have join: "\<exists>m''. login_check e2 B (login_message m2 ty (lgGuid e1 @ CR # code)) c2 sm' =
      Inr (login_join e2 B ty (lgGuid e1) code m'' c2 sm')" if "CHR 0x00 \<notin> set code" "length code \<le> 8" for code sm'
    using login_check_message [OF refl assms(8), of code e2 c2 B m2 ty sm'] assms(4,6,7,9,10,15) that \<open>CHR 0x00 \<noteq> CR\<close> by auto
  have "\<exists>r2. login_check e2 B (login_message m2 ty (lgGuid e1 @ CR # ?code)) c2 (lrSes (login_main e1 A m' c1 sm)) = Inr r2 \<and>
      (if lgNow e2 \<le> lgNow e1 + 60 then lrCode r2 = 200 \<and> conSession (lrCon r2) = Some a
       else lrCode r2 = 206 \<and> conSession (lrCon r2) = None)"
  proof -
    obtain m'' where "login_check e2 B (login_message m2 ty (lgGuid e1 @ CR # ?code)) c2 (lrSes (login_main e1 A m' c1 sm)) =
        Inr (login_join e2 B ty (lgGuid e1) ?code m'' c2 (lrSes (login_main e1 A m' c1 sm)))"
      using join [OF code_text_chars(1)] by auto
    then show ?thesis
      using assms(6) by (auto simp: login_join_code [OF a(6)] verify_code_def a(7-9) no_reply_text_def Let_def)
  qed
  moreover have "\<exists>r3. login_check e2 B (login_message m2 ty (lgGuid e1 @ CR # code)) c2 (lrSes (login_main e1 A m' c1 sm)) = Inr r3 \<and>
      lrCode r3 = 205 \<and> conSession (lrCon r3) = None \<and> lrSes r3 = lrSes (login_main e1 A m' c1 sm)"
    if other: "code \<noteq> ?code" "CHR 0x00 \<notin> set code" "length code \<le> 8" for code
  proof -
    obtain m'' where "login_check e2 B (login_message m2 ty (lgGuid e1 @ CR # code)) c2 (lrSes (login_main e1 A m' c1 sm)) =
        Inr (login_join e2 B ty (lgGuid e1) code m'' c2 (lrSes (login_main e1 A m' c1 sm)))"
      using join [OF other(2,3)] by auto
    then show ?thesis
      using other(1) assms(6) by (auto simp: login_join_code [OF a(6)] verify_code_def a(7-9) no_reply_text_def Let_def)
  qed
  ultimately show ?thesis using c1 a(1-5) by (intro exI [of _ "login_main e1 A m' c1 sm"] exI [of _ a]) simp
qed


definition demo_login_env :: "string \<Rightarrow> int \<Rightarrow> login_env" where
  "demo_login_env g now = \<lparr>lgManager = True, lgGuid = g, lgRand = (\<lambda>t. 1804289383), lgNow = now, lgCap = 256\<rparr>"

definition demo_message :: message where
  "demo_message = \<lparr>mesAddr = 1, mesType = 1, mesDataLen = 0, mesBeginTime = 0, mesBeginProcessTime = 0, mesSeq = 1,
     mesProcessedRet = 0, mesBody = []\<rparr>"

theorem login_exchange_witness:
  "\<exists>r1 a. login_check (demo_login_env ''5F0C'' 100) 1 (login_message demo_message 1 (''ann'' @ CR # ''secret'')) new_connection sm_new = Inr r1 \<and>
    conSession (lrCon r1) = Some a \<and>
    (\<exists>r2. login_check (demo_login_env [] 161) 2 (login_message demo_message 3 (lrText r1)) new_connection (lrSes r1) = Inr r2 \<and>
       lrCode r2 = 206 \<and> conSession (lrCon r2) = None)"
proof -
  have "ses_inv sm_new" "find_using_session (lgGuid (demo_login_env ''5F0C'' 100)) sm_new = None"
    by (simp_all add: ses_inv_def sm_new_def find_using_session_def)
  moreover have "conSession new_connection = None" by (simp add: new_connection_def reset_connection_def)
  moreover have "\<not> lgNow (demo_login_env [] 161) \<le> lgNow (demo_login_env ''5F0C'' 100) + 60"
    by (simp add: demo_login_env_def)
  ultimately show ?thesis
    using login_exchange [of sm_new "demo_login_env ''5F0C'' 100" "demo_login_env [] 161" new_connection new_connection 3
        "''ann''" "''secret''" 1 demo_message 2 demo_message]
    by (auto simp: demo_login_env_def CR_def)
qed

section \<open>A message that writes outside its memory\<close>

text \<open>
  C21: before anybody has logged in, a login message that announces more user data than it has is
  answered with an error, and then the server puts a zero behind the announced data: an announced length
  beyond the end of the message object is a write outside of it.
\<close>

theorem login_length_writes_outside:
  assumes "offset_user_data \<le> length (mesBody m)" and "dwMesCode (body_of (mesBody m)) = CX_SESSION_LOGIN_CODE"
    and "mesDataLen m \<le> loginUserDataLen (login_of (drop 40 (mesBody m)))"
    and "lgCap env \<le> offset_user_data + unat (loginUserDataLen (login_of (drop 40 (mesBody m))))"
    and "send_packet senv (reply_bytes (no_reply_text (- 3) 201 (m\<lparr>mesBeginProcessTime := lgNow env\<rparr>) c sm)) CX_SESSION_LOGIN_REPLY_CODE
           (Some (m\<lparr>mesBeginProcessTime := lgNow env\<rparr>)) c s = Inr (ok, c', s')"
    and "\<not> conAsyncMes c'"
  shows "process_login_message env senv ca \<lparr>lsMes = m, lsCon = c, lsSock = s, lsSes = sm\<rparr> = Inl HeapOverflow"
proof -
  let ?m = "m\<lparr>mesBeginProcessTime := lgNow env\<rparr>"
  let ?r = "if \<not> ok then - 2 else - 3 :: int"
  have rd: "read_login ?m = Inr (login_of (drop 40 (mesBody m)))" using assms(1) by (simp add: read_login_def)
  have chk: "login_check env ca ?m c sm = Inr (no_reply_text (- 3) 201 ?m c sm)"
    using rd assms(3) by (simp add: login_check_def Let_def)
  have fields: "lrMes (no_reply_text (- 3) 201 ?m c sm) = ?m" "lrCon (no_reply_text (- 3) 201 ?m c sm) = c"
      "lrRet (no_reply_text (- 3) 201 ?m c sm) = - 3" "lrSes (no_reply_text (- 3) 201 ?m c sm) = sm"
    by (simp_all add: no_reply_text_def)
  have "dispatch_login env senv ca \<lparr>lsMes = ?m, lsCon = c, lsSock = s, lsSes = sm\<rparr> =
      Inr (?r, \<lparr>lsMes = ?m, lsCon = c', lsSock = s', lsSes = sm\<rparr>)"
    using chk assms(2,5) by (simp add: dispatch_login_def session_login_def fields)
  moreover have "message_to_string (lgCap env) (?m\<lparr>mesProcessedRet := ?r\<rparr>) = Inl HeapOverflow"
    using assms(1,2,4) by (simp add: message_to_string_def read_login_def terminate_user_data_def Let_def)
  ultimately show ?thesis using assms(6) by (simp add: process_login_message_def Let_def)
qed

text \<open>A message of 52 bytes that announces a gigabyte, in an object of 256 bytes, on a connection whose
  answer finds no memory.\<close>

definition long_login :: message where
  "long_login = demo_message\<lparr>mesDataLen := 52, mesBody := replicate 32 0 @ le_enc 4 1 @ replicate 4 0 @
     login_bytes \<lparr>loginSessionType = 1, loginUserType = 0, loginConnectionType = 1, loginEncryptType = 0,
       loginReserve = 0, loginUserDataLen = 0x40000000\<rparr> @ replicate 40 0\<rparr>"

theorem login_length_writes_outside_witness:
  "let senv = \<lparr>senAlloc = (\<lambda>n. None), senThreadCache = (\<lambda>n. True), senPrepare = (\<lambda>e f bs n k. None),
         senPrepTask = False, senKernel = True, senWaitWriting = True, senClose = (\<lambda>t c. c)\<rparr>
   in process_login_message (demo_login_env ''g'' 0) senv 1
        \<lparr>lsMes = long_login, lsCon = new_connection, lsSock = \<lparr>sckOut = [], sckScript = []\<rparr>, lsSes = sm_new\<rparr> = Inl HeapOverflow"
proof -
  let ?senv = "\<lparr>senAlloc = (\<lambda>n. None), senThreadCache = (\<lambda>n. True), senPrepare = (\<lambda>e f bs n k. None),
         senPrepTask = False, senKernel = True, senWaitWriting = True, senClose = (\<lambda>t c. c)\<rparr>"
  have d: "drop 40 (mesBody long_login) = login_bytes \<lparr>loginSessionType = 1, loginUserType = 0, loginConnectionType = 1,
      loginEncryptType = 0, loginReserve = 0, loginUserDataLen = 0x40000000\<rparr> @ replicate 40 0"
    by (simp add: long_login_def)
  have "offset_user_data \<le> length (mesBody long_login)"
    by (simp add: long_login_def login_bytes_length login_head_def offset_user_data_def)
  moreover have "dwMesCode (body_of (mesBody long_login)) = CX_SESSION_LOGIN_CODE"
    by (simp add: long_login_def body_of_def CX_SESSION_LOGIN_CODE_def le_dec_enc)
  moreover have "mesDataLen long_login \<le> loginUserDataLen (login_of (drop 40 (mesBody long_login)))"
    unfolding d login_round_trip by (simp add: long_login_def)
  moreover have "lgCap (demo_login_env ''g'' 0) \<le> offset_user_data + unat (loginUserDataLen (login_of (drop 40 (mesBody long_login))))"
    unfolding d login_round_trip by (simp add: demo_login_env_def)
  moreover have "send_packet ?senv bs code om new_connection s = Inr (False, new_connection, s)" for bs code om s
    by (simp add: send_packet_def get_buffer_obj_def new_connection_def reset_connection_def)
  moreover have "\<not> conAsyncMes new_connection" by (simp add: new_connection_def reset_connection_def)
  ultimately show ?thesis
    using login_length_writes_outside [of long_login "demo_login_env ''g'' 0" ?senv new_connection sm_new
        "\<lparr>sckOut = [], sckScript = []\<rparr>" False new_connection "\<lparr>sckOut = [], sckScript = []\<rparr>" 1]
    unfolding Let_def by blast
qed


section \<open>A connection that outlives its session\<close>

lemma leave_main_session:
  assumes "sesMain (smSessions sm a) = Some A" and "sesMessage (smSessions sm a) = []" and "sesData (smSessions sm a) = []"
    and "find_using_session (sesGuid (smSessions sm a)) sm = Some a" and "smFree sm = []"
  shows "smFree (fst (leave_session env A a (sm, rm))) = [a] \<and>
    smUsing (fst (leave_session env A a (sm, rm))) = AList.delete (sesGuid (smSessions sm a)) (smUsing sm)"
  using assms
  by (simp add: leave_session_def remove_connection_def connection_number_def close_session_def update_session_def
      find_using_session_def Let_def split: prod.split)

text \<open>
  C22: a connection that joins a session with a type other than 1, 2 or 3 (type 4 is the documented
  object connection) is not counted among its connections.  When the user closes the others the session is closed and
  given to the next user who logs in, and the connection of the first user is then inside the session of
  the second one.
\<close>

theorem uncounted_connection_joins_stranger:
  assumes "ses_inv sm" and "smFree sm = [a]" and "sesMessage (smSessions sm a) = []" and "sesData (smSessions sm a) = []"
    and "find_using_session (lgGuid e1) sm = None" and "find_using_session (lgGuid e3) sm = None"
    and "lgGuid e1 \<noteq> lgGuid e3" and "ty \<notin> {1, 2, 3}"
    and "verify_code (lgNow e2) (code_text (lgRand e1 (lgNow e1) mod 10000000)) (reset_verification (lgRand e1) (lgNow e1) session_new) = 0"
  shows "\<exists>r1 r2 sm3 r3. r1 = login_main e1 A m1 c1 sm \<and>
    r2 = login_join e2 B ty (lgGuid e1) (code_text (lgRand e1 (lgNow e1) mod 10000000)) m2 c2 (lrSes r1) \<and> lrCode r2 = 200 \<and>
    sm3 = fst (leave_session env A a (lrSes r2, rm)) \<and> find_using_session (lgGuid e1) sm3 = None \<and>
    r3 = login_main e3 C m3 c3 sm3 \<and> lrCode r3 = 200 \<and> find_using_session (lgGuid e3) (lrSes r3) = Some a \<and>
    sesMain (smSessions (lrSes r3) a) = Some C \<and> conSession (lrCon r3) = Some a \<and> conSession (lrCon r2) = Some a"
proof -
  let ?r1 = "login_main e1 A m1 c1 sm"
  let ?r2 = "login_join e2 B ty (lgGuid e1) (code_text (lgRand e1 (lgNow e1) mod 10000000)) m2 c2 (lrSes ?r1)"
  let ?sm3 = "fst (leave_session env A a (lrSes ?r2, rm))"
  let ?r3 = "login_main e3 C m3 c3 ?sm3"
  have get: "get_free_session sm = (Some a, sm\<lparr>smFree := []\<rparr>)" using assms(2) by (simp add: get_free_session_def Let_def)
  have r1: "find_using_session (lgGuid e1) (lrSes ?r1) = Some a" "smFree (lrSes ?r1) = []"
      "smUsing (lrSes ?r1) = AList.update (lgGuid e1) a (smUsing sm)"
      "smSessions (lrSes ?r1) a = (reset_verification (lgRand e1) (lgNow e1)
        (smSessions sm a\<lparr>sesMain := Some A, sesGuid := lgGuid e1\<rparr>))\<lparr>sesPool := True\<rparr>"
    using get assms(5)
    by (simp_all add: login_main_def add_using_session_def update_session_def add_main_connection_def
        reset_verification_def find_using_session_def update_conv' Let_def)
  have v: "verify_code (lgNow e2) (code_text (lgRand e1 (lgNow e1) mod 10000000)) (smSessions (lrSes ?r1) a) = 0"
    using assms(9) by (simp add: r1(4) verify_code_def reset_verification_def)
  have r2: "lrCode ?r2 = 200" "lrSes ?r2 = lrSes ?r1" "conSession (lrCon ?r2) = Some a"
    using login_join_code [OF r1(1)] assms(8) v by (simp_all add: Let_def no_reply_text_def)
  have s: "sesGuid (smSessions (lrSes ?r1) a) = lgGuid e1" "sesMain (smSessions (lrSes ?r1) a) = Some A"
      "sesMessage (smSessions (lrSes ?r1) a) = []" "sesData (smSessions (lrSes ?r1) a) = []"
    using assms(3,4) by (simp_all add: r1(4) reset_verification_def)
  have sm3: "smFree ?sm3 = [a]" "smUsing ?sm3 = AList.delete (lgGuid e1) (AList.update (lgGuid e1) a (smUsing sm))"
    using leave_main_session [OF s(2-4), of env rm] r1(1,2,3) by (simp_all add: r2(2) s(1))
  have "find_using_session (lgGuid e1) ?sm3 = None" "find_using_session (lgGuid e3) ?sm3 = None"
    using sm3(2) assms(6,7) by (simp_all add: find_using_session_def delete_conv' update_conv')
  moreover have "get_free_session ?sm3 = (Some a, ?sm3\<lparr>smFree := []\<rparr>)" using sm3(1) by (simp add: get_free_session_def Let_def)
  ultimately have "find_using_session (lgGuid e1) ?sm3 = None" "lrCode ?r3 = 200"
      "find_using_session (lgGuid e3) (lrSes ?r3) = Some a" "sesMain (smSessions (lrSes ?r3) a) = Some C"
      "conSession (lrCon ?r3) = Some a"
    by (simp_all add: login_main_def add_using_session_def update_session_def add_main_connection_def
        reset_verification_def find_using_session_def update_conv' Let_def)
  then show ?thesis using r2 by blast
qed

theorem uncounted_connection_joins_stranger_witness:
  "let sm = sm_new\<lparr>smFree := [7], smNext := 8\<rparr>;
       r1 = login_main (demo_login_env ''first'' 100) 1 demo_message new_connection sm;
       r2 = login_join (demo_login_env [] 110) 2 4 ''first'' (code_text (1804289383 mod 10000000)) demo_message new_connection (lrSes r1);
       sm3 = fst (leave_session demo_rpc_env 1 7 (lrSes r2, rm_new));
       r3 = login_main (demo_login_env ''second'' 120) 3 demo_message new_connection sm3
   in conSession (lrCon r2) = Some 7 \<and> conSession (lrCon r3) = Some 7 \<and> find_using_session ''second'' (lrSes r3) = Some 7"
proof -
  let ?sm = "sm_new\<lparr>smFree := [7], smNext := 8\<rparr>"
  have "ses_inv ?sm" "smFree ?sm = [7]" "sesMessage (smSessions ?sm 7) = []" "sesData (smSessions ?sm 7) = []"
      "find_using_session (lgGuid (demo_login_env ''first'' 100)) ?sm = None"
      "find_using_session (lgGuid (demo_login_env ''second'' 120)) ?sm = None"
      "lgGuid (demo_login_env ''first'' 100) \<noteq> lgGuid (demo_login_env ''second'' 120)" "(4 :: byte) \<notin> {1, 2, 3}"
      "verify_code (lgNow (demo_login_env [] 110)) (code_text (lgRand (demo_login_env ''first'' 100) (lgNow (demo_login_env ''first'' 100)) mod 10000000))
        (reset_verification (lgRand (demo_login_env ''first'' 100)) (lgNow (demo_login_env ''first'' 100)) session_new) = 0"
    by (simp_all add: ses_inv_def sm_new_def find_using_session_def session_new_def ses_live_def demo_login_env_def
        verify_code_def reset_verification_def)
  from uncounted_connection_joins_stranger [OF this, where A = 1 and B = 2 and C = 3 and ?m1.0 = demo_message and
      ?m2.0 = demo_message and ?m3.0 = demo_message and ?c1.0 = new_connection and ?c2.0 = new_connection and
      ?c3.0 = new_connection and env = demo_rpc_env and rm = rm_new]
  show ?thesis by (auto simp: Let_def demo_login_env_def)
qed

end
