(* ===== verification/Messages.thy ===== *)
theory Messages imports Main Sessions Send begin

text \<open>
  The processing of complete messages: \<open>ProcessUnpackedMessage\<close>, \<open>PushMessage\<close>, \<open>ProcessAsyncMessageEnd\<close>,
  \<open>CallbackTaskProcess\<close> and the map of requests (src/CXCommunicationServer/src/CXConnectionObject.cpp), and
  the body of the message threads (src/CXMessageProcessLevelBase.cpp).  Several threads take the messages
  of a connection from its queue, so they arrive here in any order.  The objects that process them and
  the closing of the connection are parameters.
\<close>

section \<open>The states that a message can change\<close>

text \<open>A connection with the sessions and objects of its server, and the messages processed so far.\<close>

record world =
  wCon :: connection
  wSes :: ses_manager
  wRpc :: rpc_manager
  wDone :: "message list"

record mes_env =
  meRpc :: rpc_env
  meObject :: "addr \<Rightarrow> message \<Rightarrow> world \<Rightarrow> int \<times> world"
  meClose :: "closed_type \<Rightarrow> world \<Rightarrow> world"

definition on_con :: "(connection \<Rightarrow> connection) \<Rightarrow> world \<Rightarrow> world" where
  "on_con f w = w\<lparr>wCon := f (wCon w)\<rparr>"

section \<open>The requests of a connection\<close>

definition push_rpc_obj :: "string \<Rightarrow> addr \<Rightarrow> connection \<Rightarrow> connection" where
  "push_rpc_obj req a c = c\<lparr>conRPCObj := (conRPCObj c)(req \<mapsto> a)\<rparr>"

definition pop_rpc_obj :: "string \<Rightarrow> connection \<Rightarrow> addr option \<times> connection" where
  "pop_rpc_obj req c =
     (case conRPCObj c req of
        None \<Rightarrow> (None, c)
      | Some a \<Rightarrow> (Some a, c\<lparr>conRPCObj := (conRPCObj c)(req := None)\<rparr>))"

definition get_rpc_obj :: "string \<Rightarrow> connection \<Rightarrow> addr option" where
  "get_rpc_obj req c = conRPCObj c req"

section \<open>The list of messages\<close>

text \<open>\<open>PushMessage\<close>: the ordered insertion of \<open>Seq_List\<close>, by signed numbers.\<close>

definition push_message :: "message \<Rightarrow> connection \<Rightarrow> (bool \<times> connection) res" where
  "push_message m c =
     bind_res (push_seq mes_key mesAddr m (conMessages c) (conMessageEnd c))
       (\<lambda>(ok, ms, e). Inr (ok, c\<lparr>conMessages := ms, conMessageEnd := e\<rparr>))"

section \<open>The object for a message\<close>

definition unknown_object :: string where
  "unknown_object = ''{0307F567-72FC-4355-8192-9E37DC766D2E}''"

definition object_guid :: "mes_env \<Rightarrow> message \<Rightarrow> string" where
  "object_guid env m = guid_string (envUnparse (meRpc env)) (byObjectGuid (body_of (mesBody m)))"

definition request_id :: "mes_env \<Rightarrow> message \<Rightarrow> string" where
  "request_id env m = guid_string (envUnparse (meRpc env)) (byRequestID (body_of (mesBody m)))"

text \<open>
  An object of the session, by its identifier; on a connection to another server, the object that waits
  for this request, which from now on goes by the identifier that the server chose.
\<close>

definition align_object :: "mes_env \<Rightarrow> message \<Rightarrow> addr \<Rightarrow> addr \<Rightarrow> world \<Rightarrow> world" where
  "align_object env m sa a w =
     w\<lparr>wCon := (wCon w)\<lparr>conObjectID := byObjectGuid (body_of (mesBody m))\<rparr>,
       wSes := update_session sa (\<lambda>s. add_session_object (object_guid env m) a
                 (remove_session_object (objID (rmObjects (wRpc w) a)) s)) (wSes w),
       wRpc := (wRpc w)\<lparr>rmObjects := (rmObjects (wRpc w))(a := (rmObjects (wRpc w) a)\<lparr>objAligned := True\<rparr>)\<rparr>\<rparr>"

definition object_in_session :: "mes_env \<Rightarrow> message \<Rightarrow> world \<Rightarrow> addr option \<times> world" where
  "object_in_session env m w =
     (case conSession (wCon w) of
        None \<Rightarrow> (None, w)
      | Some sa \<Rightarrow>
          (case find_session_object (object_guid env m) (smSessions (wSes w) sa) of
             Some a \<Rightarrow> (Some a, w)
           | None \<Rightarrow>
               if conProxy (wCon w) then
                 (case pop_rpc_obj (request_id env m) (wCon w) of
                    (None, c) \<Rightarrow> (None, w\<lparr>wCon := c\<rparr>)
                  | (Some a, c) \<Rightarrow> (Some a, align_object env m sa a (w\<lparr>wCon := c\<rparr>)))
               else (None, w)))"

text \<open>
  Otherwise the identifier names a class: an object of the class is taken from the pool, put into the
  session, and its identifier written over the one in the message; when the class is not known, the
  object for unknown objects.
\<close>

definition object_of_class :: "mes_env \<Rightarrow> message \<Rightarrow> world \<Rightarrow> addr option \<times> message \<times> world" where
  "object_of_class env m w =
     (case get_free_object (meRpc env) (object_guid env m) (wRpc w) of
        (Some a, r) \<Rightarrow>
          let w = w\<lparr>wRpc := r\<rparr>; o1 = rmObjects r a in
          (case conSession (wCon w) of
             None \<Rightarrow> (Some a, m, w)
           | Some sa \<Rightarrow>
               if objUnique o1 then (Some a, m, w)
               else (Some a, m\<lparr>mesBody := memcpy (mesBody m) 0 (objIDBytes o1)\<rparr>,
                     w\<lparr>wSes := update_session sa (add_session_object (objID o1) a) (wSes w)\<rparr>))
      | (None, r) \<Rightarrow>
          (case get_free_object (meRpc env) unknown_object r of (ob, r) \<Rightarrow> (ob, m, w\<lparr>wRpc := r\<rparr>)))"

definition object_for :: "mes_env \<Rightarrow> message \<Rightarrow> world \<Rightarrow> addr option \<times> message \<times> world" where
  "object_for env m w =
     (case object_in_session env m w of
        (Some a, w) \<Rightarrow> (Some a, m, w)
      | (None, w) \<Rightarrow> object_of_class env m w)"

section \<open>Processing in order\<close>

text \<open>
  One turn of the loop up to the point where the message leaves the list: whether the call was
  asynchronous, the object, and the return value.
\<close>

definition call_object :: "mes_env \<Rightarrow> int \<Rightarrow> message \<Rightarrow> world \<Rightarrow> bool \<times> bool \<times> addr option \<times> int \<times> world" where
  "call_object env ret m w =
     (case object_for env m w of
        (None, m, w) \<Rightarrow> (False, False, None, ret, w\<lparr>wDone := wDone w @ [m]\<rparr>)
      | (Some a, m, w) \<Rightarrow>
          let w = on_con (\<lambda>c. c\<lparr>conAsyncMes := False,
                    conAsyncPrepare := conEncrypt c \<noteq> 0 \<or> conCompress c \<noteq> 0\<rparr>) w;
              (r, w) = meObject env a m (w\<lparr>wDone := wDone w @ [m]\<rparr>)
          in (r = CXRET_ASYNC_CALLBACK \<or> conAsyncMes (wCon w), r \<noteq> 0 \<and> r \<noteq> CXRET_ASYNC_CALLBACK, Some a, r, w))"

definition pop_message :: "connection \<Rightarrow> connection" where
  "pop_message c = c\<lparr>conMessages := tl (conMessages c),
     conMessageEnd := (if tl (conMessages c) = [] then None else conMessageEnd c)\<rparr>"

text \<open>What follows a message that is done: the object may ask to be destroyed, and the connection may have to
  be closed.\<close>

definition destroy_after :: "mes_env \<Rightarrow> addr option \<Rightarrow> world \<Rightarrow> world" where
  "destroy_after env ob w =
     (case ob of
        None \<Rightarrow> w
      | Some a \<Rightarrow> if objNeedDestroy (rmObjects (wRpc w) a)
                  then w\<lparr>wRpc := free_object a (destroy_object (meRpc env) a (wRpc w))\<rparr> else w)"

definition close_after :: "mes_env \<Rightarrow> bool \<Rightarrow> world \<Rightarrow> world" where
  "close_after env need w =
     (if need then meClose env ERROR_IN_PROCESS w
      else if conState (wCon w) = CLOSING then meClose env SOCKET_CLOSED w else w)"

text \<open>The wish to close is never taken back: after a message that failed, every later one closes again.\<close>

fun process_loop :: "mes_env \<Rightarrow> nat \<Rightarrow> bool \<Rightarrow> int \<Rightarrow> world \<Rightarrow> (int \<times> world) res" where
  "process_loop env 0 need ret w = Inr (ret, w)"
| "process_loop env (Suc n) need ret w =
     (case conMessages (wCon w) of
        [] \<Rightarrow> Inr (ret, w)
      | m # ms \<Rightarrow>
          if mesSeq m \<noteq> conLastProcessedSeq (wCon w) + 1 then Inr (ret, w)
          else case call_object env ret m w of
            (async, fails, ob, r, w) \<Rightarrow>
              let w = on_con pop_message w; need = (need \<or> fails)
              in if async then Inr (r, w)
                 else
                   let w = on_con (\<lambda>c. (reduce_received_packet_number c)\<lparr>conLastProcessedSeq := conLastProcessedSeq c + 1\<rparr>) w
                   in bind_res (free_message (mesAddr m) (wCon w)) (\<lambda>c.
                        process_loop env n need r (close_after env need (destroy_after env ob (w\<lparr>wCon := c\<rparr>)))))"

text \<open>\<open>ProcessUnpackedMessage\<close>, with a message or without one.\<close>

definition process_unpacked :: "mes_env \<Rightarrow> message option \<Rightarrow> world \<Rightarrow> (int \<times> world) res" where
  "process_unpacked env om w =
     (if \<not> conServer (wCon w) then Inr (INVALID_PARAMETER, w)
      else case om of
        None \<Rightarrow> process_loop env (length (conMessages (wCon w))) False 0 w
      | Some m \<Rightarrow>
          bind_res (push_message m (wCon w)) (\<lambda>(ok, c).
            if ok then process_loop env (length (conMessages c)) False 0 (w\<lparr>wCon := c\<rparr>)
            else Inr (- 2, meClose env ERROR_IN_PROCESS (w\<lparr>wCon := c\<rparr>))))"

text \<open>The end of an asynchronous message; what is logged about it is left out.\<close>

definition process_async_end :: "mes_env \<Rightarrow> message \<Rightarrow> world \<Rightarrow> int \<times> world" where
  "process_async_end env m w =
     (let w = on_con (\<lambda>c. (reduce_received_packet_number c)\<lparr>conLastProcessedSeq := conLastProcessedSeq c + 1\<rparr>) w
      in (0, if mesProcessedRet m = - 2 then meClose env ERROR_IN_PROCESS w
             else if state_code CLOSING \<le> state_code (conState (wCon w)) then meClose env SOCKET_CLOSED w else w))"

text \<open>
  What a message thread does with the next message of its queue: messages of type 2 are asynchronous ones
  that have ended.
\<close>

definition handle_message :: "mes_env \<Rightarrow> message \<Rightarrow> world \<Rightarrow> (int \<times> world) res" where
  "handle_message env m w =
     (if mesType m = 2 then
        case process_async_end env m w of (_, w) \<Rightarrow>
          bind_res (free_message (mesAddr m) (wCon w)) (\<lambda>c. process_unpacked env None (w\<lparr>wCon := c\<rparr>))
      else process_unpacked env (Some m) w)"

text \<open>
  \<open>CallbackTaskProcess\<close>: tasks of type 1 (parsing) close the connection when they failed, tasks of type 2
  (preparing) send their message back to the queue or forget their request.
\<close>

definition callback_task :: "mes_env \<Rightarrow> int \<Rightarrow> int \<Rightarrow> message option \<Rightarrow> string \<Rightarrow> world \<Rightarrow> world" where
  "callback_task env ret ty om req w =
     (if ty = 1 then
        (if ret \<noteq> 0 \<and> state_code (conState (wCon w)) < state_code CLOSED then meClose env ERROR_IN_PROCESS w else w)
      else if ty = 2 then
        (case om of
           Some m \<Rightarrow> on_con (push_received_message False (m\<lparr>mesType := 2\<rparr>)) w
         | None \<Rightarrow> if req = [] then w else on_con (\<lambda>c. snd (pop_rpc_obj req c)) w)
      else w)"


section \<open>Messages are processed in order, and as soon as possible\<close>

text \<open>
  What the lemmas need of the objects and of closing: they leave the list of messages, the number of the
  last one, the server and the message objects at the addresses \<open>P\<close> alone.
\<close>

definition mes_frame :: "addr set \<Rightarrow> world \<Rightarrow> world \<Rightarrow> bool" where
  "mes_frame P w w' \<longleftrightarrow> conMessages (wCon w') = conMessages (wCon w) \<and> conMessageEnd (wCon w') = conMessageEnd (wCon w) \<and>
     conLastProcessedSeq (wCon w') = conLastProcessedSeq (wCon w) \<and> conServer (wCon w') = conServer (wCon w) \<and>
     wDone w' = wDone w \<and> (\<forall>p\<in>P. count_list (conLive (wCon w')) p = count_list (conLive (wCon w)) p)"

definition mes_env_ok :: "addr set \<Rightarrow> mes_env \<Rightarrow> bool" where
  "mes_env_ok P env \<longleftrightarrow> (\<forall>a m w. mes_frame P w (snd (meObject env a m w))) \<and> (\<forall>t w. mes_frame P w (meClose env t w))"

lemma mes_frame_refl [simp]: "mes_frame P w w"
  by (simp add: mes_frame_def)

lemma mes_frame_trans: "mes_frame P w1 w2 \<Longrightarrow> mes_frame P w2 w3 \<Longrightarrow> mes_frame P w1 w3"
  by (simp add: mes_frame_def)

lemma object_for_frame:
  "object_for env m w = (ob, m', w') \<Longrightarrow> mes_frame P w w' \<and> mesSeq m' = mesSeq m \<and> mesAddr m' = mesAddr m"
  by (auto simp: object_for_def object_in_session_def object_of_class_def align_object_def pop_rpc_obj_def mes_frame_def
      Let_def split: option.splits prod.splits if_splits)

lemma call_object_frame:
  assumes "mes_env_ok P env" and "call_object env ret m w = (async, need, ob, r, w')"
  shows "\<exists>m'. mes_frame P (w\<lparr>wDone := wDone w @ [m']\<rparr>) w' \<and> mesSeq m' = mesSeq m \<and> mesAddr m' = mesAddr m"
proof -
  obtain ob2 m2 w2 where o1: "object_for env m w = (ob2, m2, w2)" by (cases "object_for env m w")
  note f = object_for_frame [OF o1, of P]
  show ?thesis
  proof (cases ob2)
    case None
    then have "w' = w2\<lparr>wDone := wDone w2 @ [m2]\<rparr>" using assms(2) o1 by (simp add: call_object_def)
    then show ?thesis using f by (intro exI [of _ m2]) (auto simp: mes_frame_def)
  next
    case (Some a)
    let ?w = "on_con (\<lambda>c. c\<lparr>conAsyncMes := False, conAsyncPrepare := conEncrypt c \<noteq> 0 \<or> conCompress c \<noteq> 0\<rparr>) w2"
    have "w' = snd (meObject env a m2 (?w\<lparr>wDone := wDone ?w @ [m2]\<rparr>))"
      using assms(2) o1 Some by (simp add: call_object_def Let_def split: prod.splits)
    moreover have "mes_frame P (w\<lparr>wDone := wDone w @ [m2]\<rparr>) (?w\<lparr>wDone := wDone ?w @ [m2]\<rparr>)"
      using f by (simp add: mes_frame_def on_con_def)
    moreover have "mes_frame P (?w\<lparr>wDone := wDone ?w @ [m2]\<rparr>) (snd (meObject env a m2 (?w\<lparr>wDone := wDone ?w @ [m2]\<rparr>)))"
      using assms(1) unfolding mes_env_ok_def by blast
    ultimately have "mes_frame P (w\<lparr>wDone := wDone w @ [m2]\<rparr>) w'" by (simp add: mes_frame_def)
    then show ?thesis using f by blast
  qed
qed


text \<open>The messages of a connection, numbered from one, and the list of those that wait.\<close>

definition numbered_messages :: "message list \<Rightarrow> bool" where
  "numbered_messages ms \<longleftrightarrow> (\<forall>i<length ms. mesSeq (ms ! i) = word_of_nat (Suc i) \<and> mesType (ms ! i) \<noteq> 2) \<and>
     distinct (map mesAddr ms) \<and> Suc (length ms) < 2 ^ 63"

abbreviation msg :: "message list \<Rightarrow> nat \<Rightarrow> message" where
  "msg ms s \<equiv> ms ! (s - 1)"

definition waiting :: "message list \<Rightarrow> nat set \<Rightarrow> message list" where
  "waiting ms B = map (msg ms) (sorted_list_of_set B)"

lemma msg_key:
  assumes "numbered_messages ms" and "s \<in> {1..length ms}"
  shows "mes_key (msg ms s) = int s" "mesSeq (msg ms s) = word_of_nat s"
proof -
  have s: "mesSeq (msg ms s) = word_of_nat s" using assms by (auto simp: numbered_messages_def)
  then show "mesSeq (msg ms s) = word_of_nat s" .
  have "int s < 2 ^ 63" using assms by (simp add: numbered_messages_def)
  then show "mes_key (msg ms s) = int s"
    unfolding mes_key_def s by (simp add: signed_of_nat signed_take_bit_int_eq_self)
qed

lemma word_of_nat_64_eq: "a < 2 ^ 63 \<Longrightarrow> b < 2 ^ 63 \<Longrightarrow> (word_of_nat a :: 64 word) = word_of_nat b \<longleftrightarrow> a = b"
  by (simp add: word_of_nat_eq_iff take_bit_nat_eq_self)

lemma waiting_set: "finite B \<Longrightarrow> set (waiting ms B) = msg ms ` B"
  by (simp add: waiting_def)

lemma waiting_ordered:
  assumes "numbered_messages ms" and "B \<subseteq> {1..length ms}"
  shows "ordered mes_key (waiting ms B)"
proof -
  have "finite B" using assms(2) finite_subset by blast
  then have B: "sorted_wrt (<) (sorted_list_of_set B)" "set (sorted_list_of_set B) = B" by simp_all
  have "mes_key (msg ms x) < mes_key (msg ms y)"
    if "x \<in> set (sorted_list_of_set B)" and "y \<in> set (sorted_list_of_set B)" and "x < y" for x y
  proof -
    have "x \<in> {1..length ms}" "y \<in> {1..length ms}" using that(1,2) B(2) assms(2) by blast+
    then show ?thesis using msg_key(1) [OF assms(1), of x] msg_key(1) [OF assms(1), of y] that(3) by linarith
  qed
  then show ?thesis
    unfolding ordered_def waiting_def sorted_wrt_map by (rule sorted_wrt_mono_rel [OF _ B(1)])
qed

lemma waiting_insert:
  assumes "numbered_messages ms" and "B \<subseteq> {1..length ms}" and "s \<in> {1..length ms}" and "s \<notin> B"
  shows "insert_by mes_key (msg ms s) (waiting ms B) = waiting ms (insert s B) \<and> mes_key (msg ms s) \<notin> mes_key ` set (waiting ms B)"
proof -
  have fin: "finite B" using assms(2) finite_subset by blast
  have new: "mes_key (msg ms s) \<notin> mes_key ` set (waiting ms B)"
  proof
    assume "mes_key (msg ms s) \<in> mes_key ` set (waiting ms B)"
    then obtain t where t: "t \<in> B" "mes_key (msg ms s) = mes_key (msg ms t)" using waiting_set [OF fin] by auto
    then have "int s = int t" using msg_key(1) [OF assms(1)] assms(2,3) by (metis subsetD)
    then show False using t(1) assms(4) by simp
  qed
  have "ordered mes_key (insert_by mes_key (msg ms s) (waiting ms B))"
    by (rule ordered_insert_by [OF waiting_ordered [OF assms(1,2)] new])
  moreover have "ordered mes_key (waiting ms (insert s B))"
    using assms(2,3) by (intro waiting_ordered [OF assms(1)]) simp
  ultimately have "insert_by mes_key (msg ms s) (waiting ms B) = waiting ms (insert s B)"
    by (rule ordered_unique) (simp add: waiting_set fin)
  then show ?thesis using new by simp
qed

lemma waiting_Cons:
  assumes "finite B" and "B \<noteq> {}"
  shows "waiting ms B = msg ms (Min B) # waiting ms (B - {Min B})"
  using assms by (simp add: waiting_def sorted_list_of_set_nonempty)

text \<open>
  What can happen to a connection: the message number \<open>s\<close> arrives, or the message that is processed
  asynchronously ends with a value, when there is one.
\<close>

datatype mes_event = Arrive nat | AsyncDone int

definition async_pending :: "world \<Rightarrow> bool" where
  "async_pending w \<longleftrightarrow> unat (conLastProcessedSeq (wCon w)) < length (wDone w)"

fun mes_run :: "mes_env \<Rightarrow> message list \<Rightarrow> mes_event list \<Rightarrow> world \<Rightarrow> world res" where
  "mes_run env ms [] w = Inr w"
| "mes_run env ms (Arrive s # es) w = bind_res (handle_message env (msg ms s) w) (\<lambda>(_, w). mes_run env ms es w)"
| "mes_run env ms (AsyncDone r # es) w =
     (if async_pending w
      then bind_res (handle_message env ((last (wDone w))\<lparr>mesType := 2, mesProcessedRet := r\<rparr>) w) (\<lambda>(_, w). mes_run env ms es w)
      else mes_run env ms es w)"

text \<open>The state when the messages \<open>A\<close> have arrived and the first \<open>k\<close> have been started, the last of them pending or not.\<close>

definition mes_list_at :: "message list \<Rightarrow> nat set \<Rightarrow> nat \<Rightarrow> bool \<Rightarrow> connection \<Rightarrow> bool" where
  "mes_list_at ms A k pend c \<longleftrightarrow> conServer c \<and>
     conMessages c = waiting ms {s\<in>A. k < s} \<and> conMessageEnd c = end_of mesAddr (conMessages c) \<and>
     conLastProcessedSeq c = word_of_nat (if pend then k - 1 else k)"

definition mes_live_at :: "message list \<Rightarrow> nat \<Rightarrow> bool \<Rightarrow> connection \<Rightarrow> bool" where
  "mes_live_at ms k pend c \<longleftrightarrow> (\<forall>s\<in>{1..length ms}.
     count_list (conLive c) (mesAddr (msg ms s)) = (if s < k \<or> s = k \<and> \<not> pend then 0 else 1))"

definition mes_at :: "message list \<Rightarrow> nat set \<Rightarrow> nat \<Rightarrow> bool \<Rightarrow> world \<Rightarrow> bool" where
  "mes_at ms A k pend w \<longleftrightarrow> A \<subseteq> {1..length ms} \<and> {1..k} \<subseteq> A \<and> (pend \<longrightarrow> 0 < k) \<and>
     mes_list_at ms A k pend (wCon w) \<and> mes_live_at ms k pend (wCon w) \<and>
     map mesAddr (wDone w) = map mesAddr (take k ms)"

lemma mes_at_frame:
  assumes "mes_at ms A k pend w" and "mes_frame (mesAddr ` set ms) w w'"
  shows "mes_at ms A k pend w'"
proof -
  have "count_list (conLive (wCon w')) (mesAddr (msg ms s)) = count_list (conLive (wCon w)) (mesAddr (msg ms s))"
    if "s \<in> {1..length ms}" for s using assms(2) that unfolding mes_frame_def by auto
  then have "mes_live_at ms k pend (wCon w')" using assms(1) unfolding mes_at_def mes_live_at_def by metis
  then show ?thesis using assms unfolding mes_at_def mes_frame_def mes_list_at_def by simp
qed

text \<open>One message is started: it leaves the list; when it ends, it is freed and the number moves on.\<close>

lemma mes_at_start:
  assumes "numbered_messages ms" and "mes_at ms A k False w" and "Suc k \<in> A"
    and "mesAddr m' = mesAddr (msg ms (Suc k))"
    and "mes_frame (mesAddr ` set ms) (w\<lparr>wDone := wDone w @ [m']\<rparr>) w'"
  shows "mes_at ms A (Suc k) True (on_con pop_message w')"
proof -
  have A: "A \<subseteq> {1..length ms}" "{1..k} \<subseteq> A" and fin: "finite A"
    using assms(2) finite_subset by (auto simp: mes_at_def)
  let ?B = "{s\<in>A. k < s}"
  have B: "Min ?B = Suc k" using fin assms(3) by (intro Min_eqI) auto
  have "?B - {Suc k} = {s\<in>A. Suc k < s}" by auto
  then have w: "waiting ms ?B = msg ms (Suc k) # waiting ms {s\<in>A. Suc k < s}"
    using waiting_Cons [of ?B ms] fin assms(3) B by auto
  have old: "mes_list_at ms A k False (wCon w')" and live: "mes_live_at ms k False (wCon w')"
    and d: "wDone w' = wDone w @ [m']"
  proof -
    have "mes_at ms A k False (w'\<lparr>wDone := wDone w\<rparr>)"
      by (rule mes_at_frame [OF assms(2)]) (use assms(5) in \<open>simp add: mes_frame_def\<close>)
    then show "mes_list_at ms A k False (wCon w')" "mes_live_at ms k False (wCon w')" by (simp_all add: mes_at_def)
    show "wDone w' = wDone w @ [m']" using assms(5) by (simp add: mes_frame_def)
  qed
  have "mes_list_at ms A (Suc k) True (pop_message (wCon w'))"
    using old unfolding mes_list_at_def pop_message_def by (simp add: w end_of_def split: if_splits)
  moreover have "mes_live_at ms (Suc k) True (pop_message (wCon w'))"
    using live unfolding mes_live_at_def pop_message_def by simp
  moreover have "{1..Suc k} \<subseteq> A" using A(2) assms(3) by (auto simp: le_Suc_eq)
  moreover have "map mesAddr (take k ms) @ [mesAddr (ms ! k)] = map mesAddr (take (Suc k) ms)"
    using A(1) assms(3) by (subst take_Suc_conv_app_nth) auto
  ultimately show ?thesis
    using assms(2,4) A(1) d unfolding mes_at_def on_con_def by simp
qed

lemma mes_at_end:
  assumes "numbered_messages ms" and "mes_at ms A k True w" and "mesAddr m = mesAddr (msg ms k)"
    and "mes_frame (mesAddr ` set ms) (on_con (\<lambda>c. (reduce_received_packet_number c)\<lparr>conLastProcessedSeq := conLastProcessedSeq c + 1\<rparr>) w) w'"
  shows "\<exists>c. free_message (mesAddr m) (wCon w') = Inr c \<and> mes_at ms A k False (w'\<lparr>wCon := c\<rparr>)"
proof -
  have A: "A \<subseteq> {1..length ms}" "{1..k} \<subseteq> A" "0 < k" using assms(2) by (auto simp: mes_at_def)
  then have "k \<in> {1..k}" by simp
  then have k: "k \<in> {1..length ms}" using A(1,2) by blast
  have cnt: "count_list (conLive (wCon w')) (mesAddr (msg ms s)) = (if s < k then 0 else 1)"
    if "s \<in> {1..length ms}" for s
    using assms(2,4) that unfolding mes_at_def mes_live_at_def mes_frame_def on_con_def
    by (auto simp: reduce_received_packet_number_def)
  then have in_live: "mesAddr m \<in> set (conLive (wCon w'))"
    using k assms(3) by (metis count_list_0_iff less_irrefl zero_neq_one)
  let ?c = "(wCon w')\<lparr>conLive := remove1 (mesAddr m) (conLive (wCon w'))\<rparr>"
  have other: "mesAddr (msg ms s) = mesAddr m \<longleftrightarrow> s = k" if "s \<in> {1..length ms}" for s
  proof -
    have "distinct (map mesAddr ms)" using assms(1) by (simp add: numbered_messages_def)
    then have "map mesAddr ms ! (s - 1) = map mesAddr ms ! (k - 1) \<longleftrightarrow> s - 1 = k - 1"
      by (rule nth_eq_iff_index_eq) (use that k in auto)
    then show ?thesis using that k assms(3) by auto
  qed
  have "mes_live_at ms k False ?c"
    unfolding mes_live_at_def
  proof
    fix s assume "s \<in> {1..length ms}"
    from cnt [OF this] other [OF this] in_live
    show "count_list (conLive ?c) (mesAddr (msg ms s)) = (if s < k \<or> s = k \<and> \<not> False then 0 else 1)"
      by (cases "s = k") simp_all
  qed
  moreover have "mes_list_at ms A k False ?c"
  proof -
    have "word_of_nat (k - Suc 0) + 1 = (word_of_nat k :: 64 word)" using A(3) by (metis Suc_diff_1 One_nat_def of_nat_Suc add.commute)
    then show ?thesis using assms(2,4) unfolding mes_at_def mes_list_at_def mes_frame_def on_con_def
      by (simp add: reduce_received_packet_number_def)
  qed
  moreover have "wDone w' = wDone w" using assms(4) by (simp add: mes_frame_def on_con_def)
  ultimately have "mes_at ms A k False (w'\<lparr>wCon := ?c\<rparr>)" using assms(2) by (simp add: mes_at_def)
  then show ?thesis using in_live by (simp add: free_message_def)
qed

lemma close_after_frame: "mes_env_ok P env \<Longrightarrow> mes_frame P w (close_after env need w)"
  by (simp add: close_after_def mes_env_ok_def)

lemma destroy_after_frame: "mes_frame P w (destroy_after env ob w)"
  by (simp add: destroy_after_def mes_frame_def split: option.splits)

text \<open>The loop stops at a gap in the numbers, and while a message is pending.\<close>

lemma process_loop_stops:
  assumes "numbered_messages ms" and "A \<subseteq> {1..length ms}" and ms: "conMessages (wCon w) = waiting ms {s\<in>A. k < s}"
    and seq: "conLastProcessedSeq (wCon w) = word_of_nat j" and "Suc j < 2 ^ 63" and "Suc j \<notin> A \<or> Suc j \<le> k"
  shows "process_loop env n need ret w = Inr (ret, w)"
proof (cases n)
  case (Suc i)
  let ?B = "{s\<in>A. k < s}"
  have fin: "finite A" using assms(2) finite_subset by blast
  show ?thesis
  proof (cases "?B = {}")
    case True
    then have "conMessages (wCon w) = []" unfolding ms True by (simp add: waiting_def)
    then show ?thesis using Suc by simp
  next
    case ne: False
    let ?s = "Min ?B"
    have "?s \<in> ?B" using fin ne by (intro Min_in) simp_all
    then have s: "?s \<in> {1..length ms}" "?s \<noteq> Suc j" using assms(2,6) by auto
    then have lt: "?s < 2 ^ 63" using assms(1) by (auto simp: numbered_messages_def)
    have "mesSeq (msg ms ?s) \<noteq> word_of_nat j + 1"
    proof
      assume "mesSeq (msg ms ?s) = word_of_nat j + 1"
      then have "(word_of_nat ?s :: 64 word) = word_of_nat (Suc j)" using msg_key(2) [OF assms(1) s(1)] by (simp add: add.commute)
      then show False using lt assms(5) s(2) by (simp only: word_of_nat_64_eq)
    qed
    then show ?thesis using fin ne Suc by (simp add: ms seq waiting_Cons)
  qed
qed simp

lemma mes_at_less:
  assumes "numbered_messages ms" and "mes_at ms A k pend w"
  shows "Suc k < 2 ^ 63" and "k \<le> length ms"
proof -
  show "k \<le> length ms"
  proof (cases "k = 0")
    case False
    have "{1..k} \<subseteq> {1..length ms}" using assms(2) unfolding mes_at_def by blast
    moreover have "k \<in> {1..k}" using False by simp
    ultimately have "k \<in> {1..length ms}" by (rule subsetD)
    then show ?thesis by simp
  qed simp
  then show "Suc k < 2 ^ 63" using assms(1) by (simp add: numbered_messages_def)
qed

lemma process_loop_gap:
  assumes "numbered_messages ms" and "mes_at ms A k False w" and "Suc k \<notin> A"
  shows "process_loop env n need ret w = Inr (ret, w)"
  by (rule process_loop_stops [OF assms(1)])
    (use assms(2,3) mes_at_less [OF assms(1,2)] in \<open>auto simp: mes_at_def mes_list_at_def\<close>)

lemma process_loop_pending:
  assumes "numbered_messages ms" and "mes_at ms A k True w"
  shows "process_loop env n need ret w = Inr (ret, w)"
  by (rule process_loop_stops [OF assms(1), where j = "k - 1"])
    (use assms(2) mes_at_less [OF assms] in \<open>auto simp: mes_at_def mes_list_at_def\<close>)

text \<open>One turn of the loop, when the next message is there.\<close>

abbreviation count_done :: "world \<Rightarrow> world" where
  "count_done \<equiv> on_con (\<lambda>c. (reduce_received_packet_number c)\<lparr>conLastProcessedSeq := conLastProcessedSeq c + 1\<rparr>)"

lemma process_turn:
  assumes "numbered_messages ms" and "mes_env_ok (mesAddr ` set ms) env" and "mes_at ms A k False w" and "Suc k \<in> A"
  obtains async fails ob r w1 c where
    "call_object env ret (msg ms (Suc k)) w = (async, fails, ob, r, w1)"
    "mes_at ms A (Suc k) True (on_con pop_message w1)"
    "free_message (mesAddr (msg ms (Suc k))) (wCon (count_done (on_con pop_message w1))) = Inr c"
    "mes_at ms A (Suc k) False (close_after env (need \<or> fails) (destroy_after env ob ((count_done (on_con pop_message w1))\<lparr>wCon := c\<rparr>)))"
    "process_loop env (Suc n) need ret w =
       (if async then Inr (r, on_con pop_message w1)
        else process_loop env n (need \<or> fails) r
          (close_after env (need \<or> fails) (destroy_after env ob ((count_done (on_con pop_message w1))\<lparr>wCon := c\<rparr>))))"
proof -
  let ?B = "{s\<in>A. k < s}"
  have A: "A \<subseteq> {1..length ms}" and fin: "finite A"
    using assms(3) finite_subset by (auto simp: mes_at_def)
  have ms: "conMessages (wCon w) = waiting ms ?B" and seq: "conLastProcessedSeq (wCon w) = word_of_nat k"
    using assms(3) by (simp_all add: mes_at_def mes_list_at_def)
  have B: "Min ?B = Suc k" and ne: "?B \<noteq> {}" using fin assms(4) by (auto intro: Min_eqI)
  have sk: "Suc k \<in> {1..length ms}" using A assms(4) by blast
  obtain async fails ob r w1 where call: "call_object env ret (msg ms (Suc k)) w = (async, fails, ob, r, w1)"
    by (cases "call_object env ret (msg ms (Suc k)) w") auto
  obtain m' where m': "mes_frame (mesAddr ` set ms) (w\<lparr>wDone := wDone w @ [m']\<rparr>) w1" "mesAddr m' = mesAddr (msg ms (Suc k))"
    using call_object_frame [OF assms(2) call] by blast
  have started: "mes_at ms A (Suc k) True (on_con pop_message w1)"
    by (rule mes_at_start [OF assms(1,3,4) m'(2,1)])
  let ?w3 = "count_done (on_con pop_message w1)"
  obtain c where c: "free_message (mesAddr (msg ms (Suc k))) (wCon ?w3) = Inr c" "mes_at ms A (Suc k) False (?w3\<lparr>wCon := c\<rparr>)"
    using mes_at_end [OF assms(1) started refl mes_frame_refl] by blast
  let ?w4 = "close_after env (need \<or> fails) (destroy_after env ob (?w3\<lparr>wCon := c\<rparr>))"
  have ended: "mes_at ms A (Suc k) False ?w4"
    by (rule mes_at_frame [OF c(2) mes_frame_trans [OF destroy_after_frame close_after_frame [OF assms(2)]]])
  have "process_loop env (Suc n) need ret w =
      (if async then Inr (r, on_con pop_message w1) else process_loop env n (need \<or> fails) r ?w4)"
    using fin ne B msg_key(2) [OF assms(1) sk] call c(1)
    by (simp add: ms seq waiting_Cons Let_def add.commute)
  then show ?thesis by (rule that [OF call started c(1) ended])
qed

text \<open>The loop goes on until a message is missing or one is asynchronous; there is fuel for every message of the list.\<close>

lemma process_loop_at:
  assumes "numbered_messages ms" and "mes_env_ok (mesAddr ` set ms) env"
  shows "mes_at ms A k False w \<Longrightarrow> card {s\<in>A. k < s} \<le> n \<Longrightarrow>
    \<exists>r k' pend w'. process_loop env n need ret w = Inr (r, w') \<and> mes_at ms A k' pend w' \<and> (pend \<or> Suc k' \<notin> A)"
proof (induction n arbitrary: k w need ret)
  case 0
  have "finite A" using 0 finite_subset by (auto simp: mes_at_def)
  then have "{s\<in>A. k < s} = {}" using 0 by simp
  then have "Suc k \<notin> A" by auto
  then show ?case using 0(1) by auto
next
  case (Suc n)
  show ?case
  proof (cases "Suc k \<in> A")
    case False
    then show ?thesis using process_loop_gap [OF assms(1) Suc.prems(1)] Suc.prems(1) by blast
  next
    case True
    show ?thesis
    proof (rule process_turn [OF assms Suc.prems(1) True, where ret = ret and need = need and n = n])
      fix async fails ob r w1 c
      let ?w2 = "on_con pop_message w1"
      let ?w4 = "close_after env (need \<or> fails) (destroy_after env ob ((count_done ?w2)\<lparr>wCon := c\<rparr>))"
      assume t: "mes_at ms A (Suc k) True ?w2" "mes_at ms A (Suc k) False ?w4"
        and run: "process_loop env (Suc n) need ret w = (if async then Inr (r, ?w2) else process_loop env n (need \<or> fails) r ?w4)"
      show ?thesis
      proof (cases async)
        case True
        then show ?thesis using t(1) run by auto
      next
        case False
        have "finite A" using Suc.prems(1) finite_subset by (auto simp: mes_at_def)
        moreover have "{s\<in>A. Suc k < s} = {s\<in>A. k < s} - {Suc k}" by auto
        ultimately have "card {s\<in>A. Suc k < s} \<le> n" using Suc.prems(2) True by (simp add: card_Diff_singleton)
        from Suc.IH [OF t(2) this] run False show ?thesis by auto
      qed
    qed
  qed
qed

text \<open>The two steps keep what is wanted: the next message has not arrived, or waits for one that is pending.\<close>

definition prompt_at :: "message list \<Rightarrow> nat set \<Rightarrow> world \<Rightarrow> bool" where
  "prompt_at ms A w \<longleftrightarrow> (\<exists>k pend. mes_at ms A k pend w \<and> (pend \<or> Suc k \<notin> A))"

lemma arrive_push:
  assumes "numbered_messages ms" and at: "mes_at ms A k pend w" and "s \<in> {1..length ms}" and "s \<notin> A"
  defines "c \<equiv> (wCon w)\<lparr>conMessages := waiting ms {x\<in>insert s A. k < x},
      conMessageEnd := end_of mesAddr (waiting ms {x\<in>insert s A. k < x})\<rparr>"
  shows "mes_at ms (insert s A) k pend (w\<lparr>wCon := c\<rparr>)"
    and "handle_message env (msg ms s) w = process_loop env (card {x\<in>insert s A. k < x}) False 0 (w\<lparr>wCon := c\<rparr>)"
proof -
  let ?B = "{x\<in>A. k < x}"
  have A: "A \<subseteq> {1..length ms}" "{1..k} \<subseteq> A" using at by (auto simp: mes_at_def)
  have "k < s" using A(2) assms(3,4) by (meson atLeastAtMost_iff not_le subsetD)
  then have B: "{x\<in>insert s A. k < x} = insert s ?B" by auto
  have la: "mes_list_at ms A k pend (wCon w)" using at by (simp add: mes_at_def)
  have sub: "?B \<subseteq> {1..length ms}" "s \<notin> ?B" using A assms(4) by auto
  note ins = waiting_insert [OF assms(1) sub(1) assms(3) sub(2)]
  have "push_seq mes_key mesAddr (msg ms s) (waiting ms ?B) (end_of mesAddr (waiting ms ?B)) =
      Inr (True, waiting ms (insert s ?B), end_of mesAddr (waiting ms (insert s ?B)))"
    using push_seq_insert [OF waiting_ordered [OF assms(1) sub(1)] conjunct2 [OF ins]] ins by simp
  then have push: "push_message (msg ms s) (wCon w) = Inr (True, c)"
    using la unfolding push_message_def mes_list_at_def c_def B by simp
  have "mes_list_at ms (insert s A) k pend c" using la by (simp add: mes_list_at_def c_def)
  moreover have "mes_live_at ms k pend c" using at by (simp add: mes_at_def mes_live_at_def c_def)
  ultimately show "mes_at ms (insert s A) k pend (w\<lparr>wCon := c\<rparr>)" using at assms(3) by (auto simp: mes_at_def)
  have ty: "mesType (msg ms s) \<noteq> 2" using assms(1,3) by (auto simp: numbered_messages_def)
  have "length (conMessages c) = card {x\<in>insert s A. k < x}" by (simp add: waiting_def c_def)
  then show "handle_message env (msg ms s) w = process_loop env (card {x\<in>insert s A. k < x}) False 0 (w\<lparr>wCon := c\<rparr>)"
    using ty la push by (simp add: handle_message_def process_unpacked_def mes_list_at_def)
qed

lemma arrive_prompt:
  assumes "numbered_messages ms" and "mes_env_ok (mesAddr ` set ms) env" and "prompt_at ms A w"
    and "s \<in> {1..length ms}" and "s \<notin> A"
  shows "\<exists>r w'. handle_message env (msg ms s) w = Inr (r, w') \<and> prompt_at ms (insert s A) w'"
proof -
  obtain k pend where at: "mes_at ms A k pend w" "pend \<or> Suc k \<notin> A"
    using assms(3) by (auto simp: prompt_at_def)
  note push = arrive_push [OF assms(1) at(1) assms(4,5)]
  show ?thesis
  proof (cases pend)
    case True
    then have "mes_at ms (insert s A) k True
        (w\<lparr>wCon := (wCon w)\<lparr>conMessages := waiting ms {x\<in>insert s A. k < x},
          conMessageEnd := end_of mesAddr (waiting ms {x\<in>insert s A. k < x})\<rparr>\<rparr>)" using push(1) by simp
    then show ?thesis unfolding push(2) prompt_at_def using process_loop_pending [OF assms(1)] by blast
  next
    case False
    then have "mes_at ms (insert s A) k False
        (w\<lparr>wCon := (wCon w)\<lparr>conMessages := waiting ms {x\<in>insert s A. k < x},
          conMessageEnd := end_of mesAddr (waiting ms {x\<in>insert s A. k < x})\<rparr>\<rparr>)" using push(1) by simp
    from process_loop_at [OF assms(1,2) this order_refl, of False 0]
    show ?thesis unfolding push(2) prompt_at_def by blast
  qed
qed

lemma mes_live_iff:
  assumes "mes_at ms A k pend w" and "s \<in> {1..length ms}"
  shows "mesAddr (msg ms s) \<in> set (conLive (wCon w)) \<longleftrightarrow> (if pend then k \<le> s else k < s)"
proof -
  have "count_list (conLive (wCon w)) (mesAddr (msg ms s)) = (if s < k \<or> s = k \<and> \<not> pend then 0 else 1)"
    using assms unfolding mes_at_def mes_live_at_def by blast
  then show ?thesis using count_list_0_iff [of "conLive (wCon w)" "mesAddr (msg ms s)"] by (auto split: if_splits)
qed

lemma async_pending_at:
  assumes "numbered_messages ms" and "mes_at ms A k pend w"
  shows "async_pending w \<longleftrightarrow> pend"
proof -
  have k: "k \<le> length ms" by (rule mes_at_less(2) [OF assms])
  then have "k < 2 ^ 63" using assms(1) by (simp add: numbered_messages_def)
  then have "unat (word_of_nat (if pend then k - 1 else k) :: 64 word) = (if pend then k - 1 else k)"
    by (simp add: unsigned_of_nat take_bit_nat_eq_self)
  moreover have "length (wDone w) = k"
    using assms(2) k by (metis length_map length_take mes_at_def min.absorb2)
  ultimately show ?thesis using assms(2) by (auto simp: async_pending_def mes_at_def mes_list_at_def)
qed

lemma async_done_prompt:
  assumes "numbered_messages ms" and "mes_env_ok (mesAddr ` set ms) env" and "prompt_at ms A w" and "async_pending w"
  shows "\<exists>r w'. handle_message env ((last (wDone w))\<lparr>mesType := 2, mesProcessedRet := v\<rparr>) w = Inr (r, w') \<and> prompt_at ms A w'"
proof -
  obtain k where at: "mes_at ms A k True w"
    using assms async_pending_at [OF assms(1)] unfolding prompt_at_def by metis
  let ?m = "(last (wDone w))\<lparr>mesType := 2, mesProcessedRet := v\<rparr>"
  have k: "0 < k" "k \<le> length ms" and d: "map mesAddr (wDone w) = map mesAddr (take k ms)"
    using at mes_at_less(2) [OF assms(1) at] by (simp_all add: mes_at_def)
  have m: "mesAddr ?m = mesAddr (msg ms k)"
  proof -
    have "last (map mesAddr (wDone w)) = mesAddr (msg ms k)"
      using k unfolding d by (subst last_conv_nth) auto
    moreover have "wDone w \<noteq> []" using d k by auto
    ultimately show ?thesis by (simp add: last_map)
  qed
  obtain r w1 where e: "process_async_end env ?m w = (r, w1)" by fastforce
  have "mes_frame (mesAddr ` set ms)
      (on_con (\<lambda>c. (reduce_received_packet_number c)\<lparr>conLastProcessedSeq := conLastProcessedSeq c + 1\<rparr>) w) w1"
    using e assms(2) by (auto simp: process_async_end_def Let_def mes_env_ok_def split: if_splits)
  from mes_at_end [OF assms(1) at m this]
  obtain c where c: "free_message (mesAddr ?m) (wCon w1) = Inr c" "mes_at ms A k False (w1\<lparr>wCon := c\<rparr>)" by blast
  then have la: "conServer c" "conMessages c = waiting ms {s\<in>A. k < s}" by (simp_all add: mes_at_def mes_list_at_def)
  have "handle_message env ?m w = process_loop env (card {s\<in>A. k < s}) False 0 (w1\<lparr>wCon := c\<rparr>)"
    using e c(1) la by (simp add: handle_message_def process_unpacked_def waiting_def)
  then show ?thesis
    using process_loop_at [OF assms(1,2) c(2) order_refl, of False 0] by (auto simp: prompt_at_def)
qed

fun arrivals :: "mes_event list \<Rightarrow> nat list" where
  "arrivals [] = []"
| "arrivals (Arrive s # es) = s # arrivals es"
| "arrivals (AsyncDone v # es) = arrivals es"

lemma mes_run_prompt:
  assumes "numbered_messages ms" and "mes_env_ok (mesAddr ` set ms) env"
  shows "prompt_at ms A w \<Longrightarrow> distinct (arrivals es) \<Longrightarrow> set (arrivals es) \<subseteq> {1..length ms} - A \<Longrightarrow>
    \<exists>w'. mes_run env ms es w = Inr w' \<and> prompt_at ms (A \<union> set (arrivals es)) w'"
proof (induction es arbitrary: A w rule: arrivals.induct)
  case 1
  then show ?case by simp
next
  case (2 s es)
  then obtain r w1 where w1: "handle_message env (msg ms s) w = Inr (r, w1)" "prompt_at ms (insert s A) w1"
    using arrive_prompt [OF assms, of A w s] by auto
  have "set (arrivals es) \<subseteq> {1..length ms} - insert s A" using 2 by auto
  from "2.IH" [OF w1(2) _ this] "2.prems"(2) w1(1) show ?case by simp
next
  case (3 v es)
  show ?case
  proof (cases "async_pending w")
    case True
    from async_done_prompt [OF assms "3.prems"(1) True, of v]
    obtain r w1 where "handle_message env ((last (wDone w))\<lparr>mesType := 2, mesProcessedRet := v\<rparr>) w = Inr (r, w1)"
      "prompt_at ms A w1" by blast
    then show ?thesis using 3 True by simp
  next
    case False
    then show ?thesis using 3 by simp
  qed
qed

text \<open>A connection whose messages have all been received and none processed.\<close>

definition unprocessed :: "message list \<Rightarrow> world \<Rightarrow> bool" where
  "unprocessed ms w \<longleftrightarrow> conServer (wCon w) \<and> conMessages (wCon w) = [] \<and> conMessageEnd (wCon w) = None \<and>
     conLastProcessedSeq (wCon w) = 0 \<and> wDone w = [] \<and> (\<forall>m\<in>set ms. count_list (conLive (wCon w)) (mesAddr m) = 1)"

text \<open>
  C23: The messages of a connection are numbered from one and taken from the queue in any order, while some of
  them end later, asynchronously, with any result.  Then no step fails: the objects are given the first
  messages, each once and in the order of the numbers; the next one has not arrived, or the last one has
  not ended; and exactly the messages that have ended are freed.
\<close>

theorem messages_in_order:
  assumes "numbered_messages ms" and "mes_env_ok (mesAddr ` set ms) env" and "unprocessed ms w"
    and "distinct (arrivals es)" and "set (arrivals es) \<subseteq> {1..length ms}"
  shows "\<exists>w' k. mes_run env ms es w = Inr w' \<and> k \<le> length ms \<and>
    map mesAddr (wDone w') = map mesAddr (take k ms) \<and> {1..k} \<subseteq> set (arrivals es) \<and>
    (async_pending w' \<or> Suc k \<notin> set (arrivals es)) \<and>
    (\<forall>s\<in>{1..length ms}. mesAddr (msg ms s) \<in> set (conLive (wCon w')) \<longleftrightarrow> (if async_pending w' then k \<le> s else k < s))"
proof -
  have "mes_at ms {} 0 False w"
    using assms(3) by (auto simp: unprocessed_def mes_at_def mes_list_at_def mes_live_at_def waiting_def end_of_def)
  then have "prompt_at ms {} w" unfolding prompt_at_def by blast
  from mes_run_prompt [OF assms(1,2) this assms(4)] assms(5)
  obtain w' where w': "mes_run env ms es w = Inr w'" "prompt_at ms (set (arrivals es)) w'" by auto
  then obtain k pend where at: "mes_at ms (set (arrivals es)) k pend w'" "pend \<or> Suc k \<notin> set (arrivals es)"
    by (auto simp: prompt_at_def)
  have "map mesAddr (wDone w') = map mesAddr (take k ms)" "{1..k} \<subseteq> set (arrivals es)"
    using at(1) by (simp_all add: mes_at_def)
  moreover note mes_at_less(2) [OF assms(1) at(1)]
  moreover have "\<forall>s\<in>{1..length ms}. mesAddr (msg ms s) \<in> set (conLive (wCon w')) \<longleftrightarrow>
      (if async_pending w' then k \<le> s else k < s)"
    using mes_live_iff [OF at(1)] async_pending_at [OF assms(1) at(1)] by blast
  ultimately show ?thesis using w'(1) at(2) async_pending_at [OF assms(1) at(1)] by blast
qed

definition demo_mes_env :: mes_env where
  "demo_mes_env = \<lparr>meRpc = demo_rpc_env, meObject = (\<lambda>a m w. (CXRET_ASYNC_CALLBACK, w)), meClose = (\<lambda>t w. w)\<rparr>"

definition demo_messages :: "message list" where
  "demo_messages = map (\<lambda>i. \<lparr>mesAddr = i, mesType = 1, mesDataLen = 0, mesBeginTime = 0, mesBeginProcessTime = 0,
     mesSeq = word_of_nat (Suc i), mesProcessedRet = 0, mesBody = replicate 40 0\<rparr>) [0, 1]"

definition demo_world :: world where
  "demo_world = \<lparr>wCon = new_connection\<lparr>conServer := True, conLive := [0, 1]\<rparr>, wSes = sm_new,
     wRpc = demo_rpc_manager, wDone = []\<rparr>"

theorem messages_in_order_witness:
  "\<exists>w' k. mes_run demo_mes_env demo_messages [Arrive 2, Arrive 1, AsyncDone 0] demo_world = Inr w' \<and>
     map mesAddr (wDone w') = map mesAddr (take k demo_messages) \<and> k \<le> 2 \<and> (async_pending w' \<or> k = 2)"
proof -
  have len: "length demo_messages = 2" by (simp add: demo_messages_def)
  have "numbered_messages demo_messages"
    by (simp add: numbered_messages_def demo_messages_def less_Suc_eq)
  moreover have "mes_env_ok (mesAddr ` set demo_messages) demo_mes_env"
    by (simp add: mes_env_ok_def demo_mes_env_def)
  moreover have "unprocessed demo_messages demo_world"
    by (simp add: unprocessed_def demo_world_def demo_messages_def new_connection_def reset_connection_def)
  ultimately obtain w' k where w': "mes_run demo_mes_env demo_messages [Arrive 2, Arrive 1, AsyncDone 0] demo_world = Inr w'"
    "k \<le> 2" "map mesAddr (wDone w') = map mesAddr (take k demo_messages)" "async_pending w' \<or> Suc k \<notin> {2, 1}"
    using messages_in_order [of demo_messages demo_mes_env demo_world "[Arrive 2, Arrive 1, AsyncDone 0]"] len by auto
  then have "async_pending w' \<or> k = 2" by auto
  then show ?thesis using w' by blast
qed

end
