(* ===== verification/Connections.thy ===== *)
theory Connections imports Main Connection Contracts "HOL-Library.AList" begin

text \<open>
  The manager of connection objects (src/CXCommunicationServer/src/CXConnectionsManager.cpp): the pool of
  free objects, the connections in use by their numbers, the released ones that wait to be used again, and
  the two pools of connections to other servers.  Objects are numbers; \<open>cgObjects\<close> is what they hold.  The
  order in which the hash maps list their entries is the order of the association lists here.
\<close>

section \<open>The manager\<close>

record con_manager =
  cgPending :: "u64 \<rightharpoonup> addr"
  cgUsing :: "(u64 \<times> addr) list"
  cgAttached :: "string \<rightharpoonup> (u64 \<rightharpoonup> addr)"
  cgDetached :: "string \<rightharpoonup> addr list"
  cgFree :: "addr list"
  cgReleased :: "addr list"
  cgIndex :: u64
  cgObjects :: "addr \<Rightarrow> connection"
  cgNext :: addr

definition cg_new :: con_manager where
  "cg_new = \<lparr>cgPending = Map.empty, cgUsing = [], cgAttached = Map.empty, cgDetached = Map.empty, cgFree = [],
     cgReleased = [], cgIndex = 0, cgObjects = (\<lambda>a. new_connection), cgNext = 0\<rparr>"

definition update_con :: "addr \<Rightarrow> (connection \<Rightarrow> connection) \<Rightarrow> con_manager \<Rightarrow> con_manager" where
  "update_con a f m = m\<lparr>cgObjects := (cgObjects m)(a := f (cgObjects m a))\<rparr>"

text \<open>Objects are allocated a thousand at a time; the one taken from the queue is written without a test.\<close>

definition allocate_connections :: "nat \<Rightarrow> con_manager \<Rightarrow> con_manager" where
  "allocate_connections n m =
     m\<lparr>cgFree := cgFree m @ [cgNext m..<cgNext m + n],
       cgObjects := (\<lambda>a. if cgNext m \<le> a \<and> a < cgNext m + n then new_connection else cgObjects m a),
       cgNext := cgNext m + n\<rparr>"

definition get_free_connection :: "con_manager \<Rightarrow> (addr \<times> con_manager) res" where
  "get_free_connection m =
     (let m = (if cgFree m = [] then allocate_connections 1000 m else m)
      in case cgFree m of
        [] \<Rightarrow> Inl NullDeref
      | a # as \<Rightarrow> Inr (a, update_con a (\<lambda>c. c\<lparr>conState := INITIALIZED\<rparr>) (m\<lparr>cgFree := as\<rparr>)))"

definition add_free_connection :: "addr \<Rightarrow> con_manager \<Rightarrow> con_manager" where
  "add_free_connection a m = m\<lparr>cgFree := cgFree m @ [a]\<rparr>"

definition next_index :: "con_manager \<Rightarrow> u64 \<times> con_manager" where
  "next_index m = (cgIndex m + 1, m\<lparr>cgIndex := cgIndex m + 1\<rparr>)"

section \<open>Pending connections\<close>

definition find_pending :: "u64 \<Rightarrow> con_manager \<Rightarrow> addr option" where
  "find_pending i m = cgPending m i"

definition add_pending :: "addr \<Rightarrow> con_manager \<Rightarrow> int \<times> con_manager" where
  "add_pending a m =
     (let i = conIndex (cgObjects m a)
      in if cgPending m i \<noteq> None then (- 1, m) else (0, m\<lparr>cgPending := (cgPending m)(i \<mapsto> a)\<rparr>))"

definition remove_pending :: "u64 \<Rightarrow> con_manager \<Rightarrow> con_manager" where
  "remove_pending i m = m\<lparr>cgPending := (cgPending m)(i := None)\<rparr>"

section \<open>Connections in use\<close>

text \<open>A connection to another server is not added, and neither is one whose number is there already.\<close>

definition add_using :: "addr \<Rightarrow> con_manager \<Rightarrow> con_manager" where
  "add_using a m =
     (let c = cgObjects m a
      in if conProxy c \<or> map_of (cgUsing m) (conIndex c) \<noteq> None then m
         else m\<lparr>cgUsing := AList.update (conIndex c) a (cgUsing m)\<rparr>)"

definition find_using :: "u64 \<Rightarrow> con_manager \<Rightarrow> addr option" where
  "find_using i m = map_of (cgUsing m) i"

definition total_connections :: "con_manager \<Rightarrow> nat" where
  "total_connections m = length (cgUsing m)"

definition destroy_connections :: "con_manager \<Rightarrow> con_manager" where
  "destroy_connections m = m\<lparr>cgUsing := []\<rparr>"

text \<open>The key of a peer, written by \<open>sprintf_s\<close> into 128 characters.\<close>

definition peer_key :: "string \<Rightarrow> u16 \<Rightarrow> string" where
  "peer_key ip port = take 127 (ip @ '':'' @ show_nat (unat port))"

definition key_of :: "connection \<Rightarrow> string" where
  "key_of c = peer_key (conRemoteIP c) (conRemotePort c)"

definition release_connection :: "addr \<Rightarrow> con_manager \<Rightarrow> con_manager" where
  "release_connection a m =
     (let c = cgObjects m a; i = conIndex c
      in if conProxy c then
           (case cgAttached m (key_of c) of
              None \<Rightarrow> m
            | Some cons \<Rightarrow>
                if cons i = None then m
                else m\<lparr>cgAttached := (cgAttached m)(key_of c \<mapsto> cons(i := None)), cgReleased := cgReleased m @ [a]\<rparr>)
         else if map_of (cgUsing m) i = None then m
         else m\<lparr>cgUsing := AList.delete i (cgUsing m), cgReleased := cgReleased m @ [a]\<rparr>)"

section \<open>The thread that looks for time outs\<close>

text \<open>
  A connection times out after twice its limit without a packet, counted in 32 bits; both operands of the
  comparison are unsigned.
\<close>

definition timed_out :: "int \<Rightarrow> connection \<Rightarrow> bool" where
  "timed_out now c =
     (conTimeOut c \<noteq> 0xffffffff \<and>
      (let begin = (if (word_of_int (conLastPacketTime c) :: u64) = 0 then word_of_int (conAcceptTime c) else word_of_int (conLastPacketTime c)) :: u64;
           cur = word_of_int now
       in begin < cur \<and> ucast (conTimeOut c * 2) < cur - begin))"

definition timeout_queue :: "int \<Rightarrow> con_manager \<Rightarrow> addr list" where
  "timeout_queue now m = filter (\<lambda>a. timed_out now (cgObjects m a)) (map snd (cgUsing m))"

text \<open>A released connection rests for more than two seconds before it is used again.\<close>

definition rested :: "int \<Rightarrow> connection \<Rightarrow> bool" where
  "rested now c \<longleftrightarrow> conReleasedTime c < now \<and> 2000 < now - conReleasedTime c"

definition travel_release_list :: "int \<Rightarrow> con_manager \<Rightarrow> con_manager" where
  "travel_release_list now m =
     m\<lparr>cgFree := cgFree m @ filter (\<lambda>a. rested now (cgObjects m a)) (cgReleased m),
       cgReleased := filter (\<lambda>a. \<not> rested now (cgObjects m a)) (cgReleased m)\<rparr>"

section \<open>Connections to other servers\<close>

definition attach_proxy :: "addr \<Rightarrow> con_manager \<Rightarrow> con_manager" where
  "attach_proxy a m =
     (let c = cgObjects m a; i = conIndex c
      in case cgAttached m (key_of c) of
           Some cons \<Rightarrow> m\<lparr>cgAttached := (cgAttached m)(key_of c \<mapsto> (if cons i = None then cons(i \<mapsto> a) else cons))\<rparr>
         | None \<Rightarrow> m\<lparr>cgAttached := (cgAttached m)(key_of c \<mapsto> [i \<mapsto> a])\<rparr>)"

text \<open>The whole entry of the peer is erased, not only the connection.\<close>

definition detach_proxy :: "addr \<Rightarrow> con_manager \<Rightarrow> con_manager" where
  "detach_proxy a m =
     (let k = key_of (cgObjects m a)
      in if cgAttached m k = None then m
         else m\<lparr>cgAttached := (cgAttached m)(k := None),
                cgDetached := (cgDetached m)(k \<mapsto> (case cgDetached m k of None \<Rightarrow> [a] | Some as \<Rightarrow> as @ [a]))\<rparr>)"

definition pop_detached :: "string \<Rightarrow> con_manager \<Rightarrow> addr option \<times> con_manager" where
  "pop_detached k m =
     (case cgDetached m k of
        Some (a # as) \<Rightarrow> (Some a, m\<lparr>cgDetached := (cgDetached m)(k \<mapsto> as)\<rparr>)
      | _ \<Rightarrow> (None, m))"

text \<open>A new object that belongs to no pool.\<close>

definition new_proxy :: "con_manager \<Rightarrow> addr \<times> con_manager" where
  "new_proxy m = (cgNext m, update_con (cgNext m) (\<lambda>_. new_connection\<lparr>conState := CREATING\<rparr>) (m\<lparr>cgNext := cgNext m + 1\<rparr>))"

end
