(* ===== verification/Server.thy ===== *)
theory Server imports Main Messages Connections begin

text \<open>
  The server (src/CXCommunicationServer/src/CXCommunicationServer.cpp): accepting, closing and releasing
  connections, the read callback, the time outs, and the connections to other servers that its own objects
  use.  Attaching a socket to the event model, new identifiers, random numbers and the clock are parameters.
\<close>

section \<open>The state of the server\<close>

text \<open>
  \<open>svParser\<close> tells whether a parser has been set; \<open>svClosed\<close> is not a member of the class: it lists the
  sockets given to \<open>closesocket\<close>.
\<close>

record server =
  svCons :: con_manager
  svSes :: ses_manager
  svRpc :: rpc_manager
  svBuffers :: u64
  svParser :: bool
  svClosed :: "int list"

record accept_env =
  aeAttach :: bool
  aeNow :: int
  aeSecs :: int
  aeRand :: "int \<Rightarrow> nat"
  aeGuid :: string
  aeQueue :: int

definition server_new :: "bool \<Rightarrow> server" where
  "server_new parser = \<lparr>svCons = cg_new, svSes = sm_new, svRpc = rm_new, svBuffers = 0, svParser = parser, svClosed = []\<rparr>"

definition con_of :: "server \<Rightarrow> addr \<Rightarrow> connection" where
  "con_of s a = cgObjects (svCons s) a"

definition on_cons :: "(con_manager \<Rightarrow> con_manager) \<Rightarrow> server \<Rightarrow> server" where
  "on_cons f s = s\<lparr>svCons := f (svCons s)\<rparr>"

definition set_state :: "addr \<Rightarrow> connection_state \<Rightarrow> server \<Rightarrow> server" where
  "set_state a st = on_cons (update_con a (\<lambda>c. c\<lparr>conState := st\<rparr>))"

section \<open>Closing\<close>

definition idle :: "connection \<Rightarrow> bool" where
  "idle c \<longleftrightarrow> conBuffersInList c = 0 \<and> conPostedSent c = 0 \<and> conPostedRecv c = 0 \<and> conPacketsInQueue c = 0"

text \<open>
  \<open>CloseConnection\<close> up to the release: closes the socket, and when nothing is left of the connection, makes it
  closed and takes it out of its session.
\<close>

definition close_core :: "rpc_env \<Rightarrow> int \<Rightarrow> addr \<Rightarrow> connection \<times> ses_manager \<times> rpc_manager \<Rightarrow>
    bool \<times> connection \<times> ses_manager \<times> rpc_manager" where
  "close_core env now a x =
     (case x of (c, mr) \<Rightarrow>
        if conState c = CLOSED then (False, c, mr)
        else
          let c = close_connection_object c
          in if idle c
             then (True, record_released_time now (c\<lparr>conState := CLOSED\<rparr>),
                   case conSession c of None \<Rightarrow> mr | Some sa \<Rightarrow> leave_session env a sa mr)
             else (False, c, mr))"

text \<open>The sockets that \<open>Close\<close> closes.\<close>

definition socket_closed :: "connection \<Rightarrow> int list" where
  "socket_closed c = (if state_code (conState c) < state_code CLOSING then [conSock c] else [])"

definition close_connection :: "rpc_env \<Rightarrow> int \<Rightarrow> addr \<Rightarrow> server \<Rightarrow> server" where
  "close_connection env now a s =
     (case close_core env now a (con_of s a, svSes s, svRpc s) of
        (released, c, ses, rpc) \<Rightarrow>
          let s1 = s\<lparr>svCons := update_con a (\<lambda>_. c) (svCons s), svSes := ses, svRpc := rpc,
                     svClosed := svClosed s @ (if conState (con_of s a) = CLOSED then [] else socket_closed (con_of s a))\<rparr>
          in if released then on_cons (release_connection a) s1 else s1)"

definition on_close :: "rpc_env \<Rightarrow> int \<Rightarrow> addr \<Rightarrow> server \<Rightarrow> server res" where
  "on_close env now a s =
     (if state_code CLOSED \<le> state_code (conState (con_of s a)) then Inr s
      else if \<not> conServer (con_of s a) then Inl NullDeref
      else Inr (close_connection env now a s))"

section \<open>Accepting\<close>

text \<open>
  What happens when the socket cannot be attached: \<open>AttachConnetionToModel\<close> closes it, \<open>Close\<close> closes it
  again, and the object goes back to the free ones.
\<close>

definition attach_failed :: "addr \<Rightarrow> server \<Rightarrow> server" where
  "attach_failed a s =
     on_cons (\<lambda>m. add_free_connection a (update_con a (\<lambda>c. (close_connection_object c)\<lparr>conState := CLOSED\<rparr>) m))
       (s\<lparr>svClosed := svClosed s @ [conSock (con_of s a)] @ socket_closed (con_of s a)\<rparr>)"

definition begin_session :: "accept_env \<Rightarrow> addr \<Rightarrow> session \<Rightarrow> session" where
  "begin_session env a z = reset_verification (aeRand env) (aeSecs env) ((add_main_connection a z)\<lparr>sesGuid := aeGuid env\<rparr>)"

definition build_for :: "accept_env \<Rightarrow> int \<Rightarrow> string \<Rightarrow> u16 \<Rightarrow> bool \<Rightarrow> server \<Rightarrow> (int \<times> addr option \<times> server) res" where
  "build_for env sock ip port proxy s =
     bind_res (get_free_connection (svCons s)) (\<lambda>(a, m).
       let (so, ses) = (if proxy then get_free_session (svSes s) else (None, svSes s));
           s = s\<lparr>svCons := m, svSes := ses\<rparr>
       in if proxy \<and> so = None then Inr (- 7, None, s\<lparr>svClosed := svClosed s @ [sock]\<rparr>)
       else
         let (i, m) = next_index m;
             s = s\<lparr>svCons := update_con a (\<lambda>c. serve_connection True (svParser s) proxy True (aeQueue env)
                               (build_connection (aeNow env) sock i ip port c)) m\<rparr>
         in if \<not> aeAttach env then Inr (- 4, None, attach_failed a s)
            else
              let s = set_state a ESTABLISHED (on_cons (add_using a) s)
              in case so of
                   None \<Rightarrow> Inr (0, Some a, s)
                 | Some sa \<Rightarrow>
                     Inr (0, Some a, on_cons (update_con a (\<lambda>c. c\<lparr>conSession := Some sa\<rparr>))
                       (s\<lparr>svSes := snd (add_using_session sa (update_session sa (begin_session env a) (svSes s)))\<rparr>)))"

text \<open>The four bytes of an address, and the callback of the listening thread, which closes the socket when it fails.\<close>

definition ip_text :: "byte list \<Rightarrow> string" where
  "ip_text bs = take 63 (concat (map (\<lambda>i. (if i = 0 then [] else ''.'') @ show_nat (unat (bs ! i))) [0, 1, 2, 3]))"

definition on_accept :: "accept_env \<Rightarrow> int \<Rightarrow> byte list \<Rightarrow> u16 \<Rightarrow> server \<Rightarrow> (int \<times> addr option \<times> server) res" where
  "on_accept env sock bs port s = build_for env sock (ip_text bs) port False s"

definition accept_socket :: "accept_env \<Rightarrow> int \<Rightarrow> byte list \<Rightarrow> u16 \<Rightarrow> server \<Rightarrow> (addr option \<times> server) res" where
  "accept_socket env sock bs port s =
     bind_res (on_accept env sock bs port s) (\<lambda>(r, ob, s).
       Inr (ob, if r \<noteq> 0 then s\<lparr>svClosed := svClosed s @ [sock]\<rparr> else s))"

section \<open>The read callback and the time outs\<close>

definition on_recv :: "rpc_env \<Rightarrow> recv_env \<Rightarrow> addr \<Rightarrow> buffer_obj \<Rightarrow> server \<Rightarrow> (int \<times> server) res option" where
  "on_recv env renv a b s =
     (if \<not> conServer (con_of s a) then Some (Inr (- 1, s))
      else
        let s = s\<lparr>svBuffers := svBuffers s + 1\<rparr>
        in case recv_packet renv (Some b) (con_of s a) of
             None \<Rightarrow> None
           | Some (Inl e) \<Rightarrow> Some (Inl e)
           | Some (Inr (r, c)) \<Rightarrow>
               let s = on_cons (update_con a (\<lambda>_. c)) s
               in Some (Inr (0, if (r \<noteq> 0 \<or> conState c = CLOSING) \<and> state_code (conState c) < state_code CLOSED
                                then close_connection env (envNow renv) a s else s)))"

definition detect_timeouts_of :: "rpc_env \<Rightarrow> int \<Rightarrow> server \<Rightarrow> server res" where
  "detect_timeouts_of env now s =
     fold (\<lambda>a r. bind_res r (on_close env now a)) (timeout_queue now (svCons s)) (Inr s)"

text \<open>One turn of the thread: time outs, released connections, late requests.\<close>

definition detect_turn :: "rpc_env \<Rightarrow> int \<Rightarrow> server \<Rightarrow> (message list \<times> server) res" where
  "detect_turn env now s =
     bind_res (detect_timeouts_of env now s) (\<lambda>s.
       let s = on_cons (travel_release_list now) s in Inr (travel_timeouts now (svRpc s), s))"

section \<open>Connections to other servers\<close>

text \<open>
  \<open>GetFreeProxyClient\<close> takes the first detached connection of the peer that is still established and closes
  those before it; when the last one of the list is not established either, it is closed and returned.
\<close>

fun take_detached :: "rpc_env \<Rightarrow> int \<Rightarrow> string \<Rightarrow> nat \<Rightarrow> addr option \<Rightarrow> server \<Rightarrow> (addr option \<times> server) res" where
  "take_detached env now k 0 found s = Inr (found, s)"
| "take_detached env now k (Suc n) found s =
     (case pop_detached k (svCons s) of
        (None, m) \<Rightarrow> Inr (found, s\<lparr>svCons := m\<rparr>)
      | (Some a, m) \<Rightarrow>
          let s = s\<lparr>svCons := m\<rparr>
          in if conState (con_of s a) = ESTABLISHED then Inr (Some a, s)
             else bind_res (on_close env now a s) (take_detached env now k n (Some a)))"

definition get_free_proxy :: "rpc_env \<Rightarrow> int \<Rightarrow> string \<Rightarrow> u16 \<Rightarrow> server \<Rightarrow> (addr \<times> server) res" where
  "get_free_proxy env now ip port s =
     (let k = peer_key ip port
      in bind_res (take_detached env now k (Suc (case cgDetached (svCons s) k of None \<Rightarrow> 0 | Some as \<Rightarrow> length as)) None s)
           (\<lambda>(ob, s). case ob of
              Some a \<Rightarrow> Inr (a, s)
            | None \<Rightarrow> (case new_proxy (svCons s) of (a, m) \<Rightarrow> Inr (a, s\<lparr>svCons := m\<rparr>))))"

definition get_proxy_connection :: "accept_env \<Rightarrow> rpc_env \<Rightarrow> string \<Rightarrow> u16 \<Rightarrow> server \<Rightarrow> (addr option \<times> server) res" where
  "get_proxy_connection env renv ip port s =
     bind_res (get_free_proxy renv (aeNow env) ip port s) (\<lambda>(a, s).
       if conState (con_of s a) = ESTABLISHED then Inr (Some a, s)
       else case get_free_session (svSes s) of
         (None, ses) \<Rightarrow> Inr (None, on_cons (add_free_connection a) (s\<lparr>svSes := ses\<rparr>))
       | (Some sa, ses) \<Rightarrow>
           let (i, m) = next_index (svCons s);
               m = update_con a (\<lambda>c. (serve_connection True (svParser s) True True (aeQueue env)
                     (build_connection (aeNow env) 0 i ip port c))\<lparr>conState := CREATING, conSession := Some sa\<rparr>) m;
               ses = update_session sa (\<lambda>z. reset_verification (aeRand env) (aeSecs env) (z\<lparr>sesGuid := aeGuid env\<rparr>)) ses
           in Inr (Some a, s\<lparr>svCons := m, svSes := ses\<rparr>))"

definition on_proxy_created :: "bool \<Rightarrow> addr \<Rightarrow> server \<Rightarrow> (int \<times> server) res" where
  "on_proxy_created attach a s =
     (if attach then
        case conSession (con_of s a) of
          None \<Rightarrow> Inl NullDeref
        | Some sa \<Rightarrow>
            let s = set_state a ESTABLISHED (on_cons (attach_proxy a) s)
            in Inr (0, s\<lparr>svSes := snd (add_using_session sa (update_session sa (add_main_connection a) (svSes s)))\<rparr>)
      else Inr (- 4, attach_failed a s))"

section \<open>Two errors\<close>

text \<open>
  When the event model refuses a new socket, the socket is closed three times: by the kernel, with the
  connection object, and by the thread that listens; by then the number may be the socket of somebody else.
\<close>

theorem refused_socket_closed_three_times:
  assumes "\<not> aeAttach e" and "sock \<noteq> 0"
  shows "\<exists>s'. accept_socket e sock bs port s = Inr (None, s') \<and> svClosed s' = svClosed s @ [sock, sock, sock]"
proof -
  define m1 where "m1 = (if cgFree (svCons s) = [] then allocate_connections 1000 (svCons s) else svCons s)"
  obtain a as where "cgFree m1 = a # as" by (cases "cgFree m1") (auto simp: m1_def allocate_connections_def split: if_splits)
  then obtain a m where "get_free_connection (svCons s) = Inr (a, m)"
    unfolding get_free_connection_def m1_def [symmetric] Let_def by simp
  then show ?thesis
    using assms by (simp add: accept_socket_def on_accept_def build_for_def next_index_def attach_failed_def on_cons_def
        socket_closed_def con_of_def update_con_def serve_connection_def build_connection_def reset_connection_def Let_def)
qed

definition demo_accept :: "int \<Rightarrow> accept_env" where
  "demo_accept now = \<lparr>aeAttach = True, aeNow = now, aeSecs = now div 1000, aeRand = (\<lambda>t. 7), aeGuid = ''5F0C'', aeQueue = 0\<rparr>"

theorem refused_socket_closed_three_times_witness:
  "\<exists>s'. accept_socket (demo_accept 0\<lparr>aeAttach := False\<rparr>) 5 [10, 0, 0, 1] 80
      (server_new False) = Inr (None, s') \<and> svClosed s' = [5, 5, 5]"
  using refused_socket_closed_three_times [of "demo_accept 0\<lparr>aeAttach := False\<rparr>" 5
      "[10, 0, 0, 1]" 80 "server_new False"]
  by (simp add: server_new_def)

text \<open>
  A connection to another server is used again at most once: after it was given back and taken again, to
  give it back or to release it does nothing, so no pool has it any more and nobody can take it.
\<close>

theorem proxy_reused_at_most_once:
  assumes "conState (con_of s a) = ESTABLISHED" and "conProxy (con_of s a)"
    and "conRemoteIP (con_of s a) = ip" and "conRemotePort (con_of s a) = port"
    and "cgAttached (svCons s) (peer_key ip port) \<noteq> None" and "cgDetached (svCons s) (peer_key ip port) = None"
  shows "\<exists>s'. get_proxy_connection env renv ip port (on_cons (detach_proxy a) s) = Inr (Some a, s') \<and>
    cgDetached (svCons s') (peer_key ip port) = Some [] \<and>
    detach_proxy a (svCons s') = svCons s' \<and> release_connection a (svCons s') = svCons s'"
proof -
  have k: "key_of (cgObjects (svCons s) a) = peer_key ip port"
    using assms(3,4) by (simp add: key_of_def con_of_def)
  let ?m = "(svCons s)\<lparr>cgAttached := (cgAttached (svCons s))(peer_key ip port := None),
    cgDetached := (cgDetached (svCons s))(peer_key ip port \<mapsto> [a])\<rparr>"
  let ?m' = "?m\<lparr>cgDetached := (cgDetached ?m)(peer_key ip port \<mapsto> [])\<rparr>"
  have "detach_proxy a (svCons s) = ?m" using assms(5,6) k by (auto simp: detach_proxy_def Let_def)
  then have "get_proxy_connection env renv ip port (on_cons (detach_proxy a) s) = Inr (Some a, s\<lparr>svCons := ?m'\<rparr>)"
    using assms(1) by (simp add: get_proxy_connection_def get_free_proxy_def on_cons_def pop_detached_def con_of_def Let_def)
  moreover have "detach_proxy a ?m' = ?m'" "release_connection a ?m' = ?m'"
    using k assms(2) by (simp_all add: detach_proxy_def release_connection_def con_of_def Let_def)
  ultimately show ?thesis by (intro exI [of _ "s\<lparr>svCons := ?m'\<rparr>"]) simp
qed

definition demo_proxy :: connection where
  "demo_proxy = new_connection\<lparr>conState := ESTABLISHED, conProxy := True, conIndex := 7, conRemoteIP := ''10.0.0.2'', conRemotePort := 80\<rparr>"

theorem proxy_reused_at_most_once_witness:
  "\<exists>s'. get_proxy_connection (demo_accept 1000) demo_rpc_env ''10.0.0.2'' 80
      (on_cons (detach_proxy 0 \<circ> attach_proxy 0 \<circ> update_con 0 (\<lambda>_. demo_proxy)) (server_new True)) = Inr (Some 0, s') \<and>
    detach_proxy 0 (svCons s') = svCons s'"
proof -
  let ?s = "on_cons (attach_proxy 0 \<circ> update_con 0 (\<lambda>_. demo_proxy)) (server_new True)"
  have c: "con_of ?s 0 = demo_proxy"
    by (simp add: con_of_def on_cons_def attach_proxy_def update_con_def Let_def split: option.splits)
  have "cgAttached (svCons ?s) (peer_key ''10.0.0.2'' 80) \<noteq> None" "cgDetached (svCons ?s) (peer_key ''10.0.0.2'' 80) = None"
    by (simp_all add: on_cons_def attach_proxy_def update_con_def server_new_def cg_new_def key_of_def demo_proxy_def Let_def)
  from proxy_reused_at_most_once [of ?s 0 "''10.0.0.2''" 80, OF _ _ _ _ this]
  show ?thesis unfolding c by (auto simp: demo_proxy_def on_cons_def)
qed

end
