(* ===== verification/Server_Pools.thy ===== *)
theory Server_Pools imports Main Server begin

text \<open>
  The pools of connection objects of the server, as a step relation: sockets are accepted, connections work
  and are closed, the clock goes on, and the thread that looks for time outs runs.  In every reachable state
  no object is in two pools, and an object is used again only after it has rested.
\<close>

section \<open>The invariant\<close>

text \<open>
  No object is in two pools; a connection in use is found under its own number and is not closed; a
  released one is closed and nothing is left of it; a free one was never released, or has rested.
\<close>

definition pools :: "con_manager \<Rightarrow> addr list" where
  "pools m = cgFree m @ cgReleased m @ map snd (cgUsing m)"

definition in_use :: "u64 \<Rightarrow> connection \<Rightarrow> bool" where
  "in_use i c \<longleftrightarrow> conIndex c = i \<and> \<not> conProxy c \<and> conServer c \<and> conState c \<noteq> CLOSED"

definition finished :: "connection \<Rightarrow> bool" where
  "finished c \<longleftrightarrow> conState c = CLOSED \<and> idle c"

definition has_rested :: "int \<Rightarrow> connection \<Rightarrow> bool" where
  "has_rested now c \<longleftrightarrow> conReleasedTime c = 0 \<or> conReleasedTime c + 2000 < now"

definition pools_ok :: "con_manager \<Rightarrow> bool" where
  "pools_ok m \<longleftrightarrow> distinct (pools m) \<and> (\<forall>a\<in>set (pools m). a < cgNext m) \<and> distinct (map fst (cgUsing m))"

definition con_inv :: "int \<Rightarrow> con_manager \<Rightarrow> bool" where
  "con_inv now m \<longleftrightarrow> pools_ok m \<and> (\<forall>i a. (i, a) \<in> set (cgUsing m) \<longrightarrow> in_use i (cgObjects m a)) \<and>
     (\<forall>a\<in>set (cgReleased m). finished (cgObjects m a)) \<and> (\<forall>a\<in>set (cgFree m). has_rested now (cgObjects m a))"

lemma in_pools:
  "a \<in> set (pools m) \<longleftrightarrow> a \<in> set (cgFree m) \<or> a \<in> set (cgReleased m) \<or> (\<exists>i. (i, a) \<in> set (cgUsing m))"
  by (force simp: pools_def)

lemma update_con_simps [simp]:
  "cgUsing (update_con a f m) = cgUsing m" "cgFree (update_con a f m) = cgFree m"
  "cgReleased (update_con a f m) = cgReleased m" "cgNext (update_con a f m) = cgNext m"
  "cgIndex (update_con a f m) = cgIndex m" "pools (update_con a f m) = pools m"
  "cgObjects (update_con a f m) b = (if b = a then f (cgObjects m a) else cgObjects m b)"
  by (simp_all add: update_con_def pools_def)

lemma pools_ok_same:
  "cgFree m' = cgFree m \<Longrightarrow> cgReleased m' = cgReleased m \<Longrightarrow> cgUsing m' = cgUsing m \<Longrightarrow> cgNext m' = cgNext m \<Longrightarrow>
   pools_ok m' = pools_ok m"
  by (simp add: pools_ok_def pools_def)

lemma con_invD:
  assumes "con_inv now m"
  shows "pools_ok m" and "(i, a) \<in> set (cgUsing m) \<Longrightarrow> in_use i (cgObjects m a)"
    and "a \<in> set (cgReleased m) \<Longrightarrow> finished (cgObjects m a)" and "a \<in> set (cgFree m) \<Longrightarrow> has_rested now (cgObjects m a)"
  using assms unfolding con_inv_def by blast+

lemma con_invI:
  assumes "pools_ok m" and "\<And>i a. (i, a) \<in> set (cgUsing m) \<Longrightarrow> in_use i (cgObjects m a)"
    and "\<And>a. a \<in> set (cgReleased m) \<Longrightarrow> finished (cgObjects m a)" and "\<And>a. a \<in> set (cgFree m) \<Longrightarrow> has_rested now (cgObjects m a)"
  shows "con_inv now m"
  using assms unfolding con_inv_def by blast

lemma con_inv_same:
  assumes "con_inv now m" and "cgFree m' = cgFree m" and "cgReleased m' = cgReleased m" and "cgUsing m' = cgUsing m"
    and "cgNext m' = cgNext m" and same: "\<And>b. b \<in> set (pools m) \<Longrightarrow> cgObjects m' b = cgObjects m b"
  shows "con_inv now m'"
proof -
  have "in_use i (cgObjects m' b)" if "(i, b) \<in> set (cgUsing m)" for i b
    using con_invD(2) [OF assms(1) that] same [of b] that unfolding in_pools by metis
  moreover have "finished (cgObjects m' b)" if "b \<in> set (cgReleased m)" for b
    using con_invD(3) [OF assms(1) that] same [of b] that unfolding in_pools by metis
  moreover have "has_rested now (cgObjects m' b)" if "b \<in> set (cgFree m)" for b
    using con_invD(4) [OF assms(1) that] same [of b] that unfolding in_pools by metis
  ultimately show ?thesis
    using assms(2-5) con_invD(1) [OF assms(1)] pools_ok_same [of m' m] unfolding con_inv_def by metis
qed

lemma con_inv_update_other:
  "con_inv now m \<Longrightarrow> a \<notin> set (pools m) \<Longrightarrow> con_inv now (update_con a f m)"
  by (rule con_inv_same) auto

text \<open>Which pool an object is in decides what it must satisfy.\<close>

lemma using_only:
  assumes "pools_ok m" and "(i, a) \<in> set (cgUsing m)"
  shows "a \<notin> set (cgFree m)" and "a \<notin> set (cgReleased m)" and "(j, a) \<in> set (cgUsing m) \<Longrightarrow> j = i"
proof -
  have d: "distinct (map snd (cgUsing m))" "set (cgFree m @ cgReleased m) \<inter> snd ` set (cgUsing m) = {}"
    using assms(1) by (auto simp: pools_ok_def pools_def)
  then show "a \<notin> set (cgFree m)" and "a \<notin> set (cgReleased m)" using assms(2) by force+
  show "j = i" if "(j, a) \<in> set (cgUsing m)"
    using d(1) assms(2) that unfolding distinct_map by (metis inj_on_contraD prod.inject snd_conv)
qed

lemma con_inv_update_using:
  assumes "con_inv now m" and "(i, a) \<in> set (cgUsing m)" and "in_use i (f (cgObjects m a))"
  shows "con_inv now (update_con a f m)"
proof -
  have ok: "pools_ok m" using assms(1) by (simp add: con_inv_def)
  note only = using_only [OF ok assms(2)]
  have "in_use j (cgObjects (update_con a f m) b)" if "(j, b) \<in> set (cgUsing m)" for j b
    using assms that only(3) [of j] by (auto simp: con_inv_def)
  moreover have "pools_ok (update_con a f m)" using ok pools_ok_same [of "update_con a f m" m] by simp
  ultimately show ?thesis using assms(1) only(1,2) unfolding con_inv_def by auto
qed

lemma con_inv_later: "con_inv now m \<Longrightarrow> now \<le> later \<Longrightarrow> con_inv later m"
  by (fastforce simp: con_inv_def has_rested_def)

lemma allocate_connections_inv:
  assumes "con_inv now m"
  shows "con_inv now (allocate_connections n m)"
proof -
  let ?m = "allocate_connections n m"
  have ok: "pools_ok m" using assms by (simp add: con_inv_def)
  have old: "b < cgNext m" if "b \<in> set (pools m)" for b using ok that by (simp add: pools_ok_def)
  have same: "cgUsing ?m = cgUsing m" "cgReleased ?m = cgReleased m" "cgFree ?m = cgFree m @ [cgNext m..<cgNext m + n]"
    by (simp_all add: allocate_connections_def)
  have disj: "set (pools m) \<inter> {cgNext m..<cgNext m + n} = {}" using old by force
  have perm: "set (pools ?m) = set (pools m) \<union> {cgNext m..<cgNext m + n}" unfolding pools_def same by auto
  have "distinct (pools ?m)" using ok disj unfolding pools_ok_def pools_def same by auto
  moreover have "b < cgNext ?m" if "b \<in> set (pools ?m)" for b
    using that old [of b] unfolding perm by (auto simp: allocate_connections_def)
  ultimately have "pools_ok ?m" using ok by (simp add: pools_ok_def same)
  moreover have obj: "cgObjects ?m b = cgObjects m b" if "b \<in> set (pools m)" for b
    using old [OF that] by (simp add: allocate_connections_def)
  moreover have "has_rested now (cgObjects ?m b)" if "b \<in> {cgNext m..<cgNext m + n}" for b
    using that by (simp add: allocate_connections_def has_rested_def new_connection_def reset_connection_def)
  moreover have "in_use i (cgObjects ?m b)" if "(i, b) \<in> set (cgUsing m)" for i b
    using con_invD(2) [OF assms that] obj [of b] that unfolding in_pools by metis
  moreover have "finished (cgObjects ?m b)" if "b \<in> set (cgReleased m)" for b
    using con_invD(3) [OF assms that] obj [of b] that unfolding in_pools by metis
  moreover have "has_rested now (cgObjects ?m b)" if "b \<in> set (cgFree m)" for b
    using con_invD(4) [OF assms that] obj [of b] that unfolding in_pools by metis
  ultimately show ?thesis by (intro con_invI) (auto simp: same)
qed

text \<open>The operations of the server.\<close>

lemma get_free_connection_spec:
  assumes "con_inv now m"
  shows "\<exists>a m'. get_free_connection m = Inr (a, m') \<and> con_inv now m' \<and> a \<notin> set (pools m') \<and> a < cgNext m' \<and>
    a \<notin> set (cgReleased m) \<and> (\<forall>i. (i, a) \<notin> set (cgUsing m)) \<and>
    cgUsing m' = cgUsing m \<and> cgIndex m' = cgIndex m \<and> (a < cgNext m \<longrightarrow> has_rested now (cgObjects m a))"
proof -
  define m1 where "m1 = (if cgFree m = [] then allocate_connections 1000 m else m)"
  have inv: "con_inv now m1" using assms allocate_connections_inv by (simp add: m1_def)
  obtain a as where f: "cgFree m1 = a # as" by (cases "cgFree m1") (auto simp: m1_def allocate_connections_def split: if_splits)
  have same: "cgUsing m1 = cgUsing m" "cgReleased m1 = cgReleased m" "cgIndex m1 = cgIndex m"
    by (simp_all add: m1_def allocate_connections_def)
  let ?m2 = "m1\<lparr>cgFree := as\<rparr>"
  have ok1: "pools_ok m1" by (rule con_invD(1) [OF inv])
  then have a: "a \<notin> set (pools ?m2)" "a < cgNext m1" and ok2: "pools_ok ?m2"
    using f by (auto simp: pools_ok_def pools_def)
  have inv2: "con_inv now ?m2"
    by (rule con_invI [OF ok2]) (use con_invD(2-4) [OF inv] f in auto)
  have "a < cgNext m \<longrightarrow> has_rested now (cgObjects m a)"
  proof (cases "cgFree m = []")
    case True
    have "[cgNext m..<cgNext m + 1000] = a # as" using f True by (simp add: m1_def allocate_connections_def)
    then have "a \<in> set [cgNext m..<cgNext m + 1000]" by (metis list.set_intros(1))
    then show ?thesis by simp
  next
    case False
    then show ?thesis using f con_invD(4) [OF assms, of a] by (simp add: m1_def)
  qed
  moreover have "get_free_connection m = Inr (a, update_con a (\<lambda>c. c\<lparr>conState := INITIALIZED\<rparr>) ?m2)"
    unfolding get_free_connection_def m1_def [symmetric] Let_def f by simp
  moreover have "a \<notin> set (cgReleased m)" "\<forall>i. (i, a) \<notin> set (cgUsing m)" using a(1) same by (auto simp: in_pools)
  ultimately show ?thesis
    using same a con_inv_update_other [OF inv2 a(1)] by auto
qed

lemma update_fresh: "k \<notin> fst ` set al \<Longrightarrow> AList.update k v al = al @ [(k, v)]"
  by (induction al) auto

lemma add_using_inv:
  assumes "con_inv now m" and "a \<notin> set (pools m)" and "a < cgNext m"
    and "conServer (cgObjects m a)" and "conState (cgObjects m a) \<noteq> CLOSED"
  shows "con_inv now (add_using a m)"
proof (cases "conProxy (cgObjects m a) \<or> map_of (cgUsing m) (conIndex (cgObjects m a)) \<noteq> None")
  case False
  let ?i = "conIndex (cgObjects m a)"
  have ok: "pools_ok m" by (rule con_invD(1) [OF assms(1)])
  have new: "?i \<notin> fst ` set (cgUsing m)" using False by (simp add: map_of_eq_None_iff)
  then have "AList.update ?i a (cgUsing m) = cgUsing m @ [(?i, a)]" by (rule update_fresh)
  then have u: "add_using a m = m\<lparr>cgUsing := cgUsing m @ [(?i, a)]\<rparr>" using False by (simp add: add_using_def)
  have "pools_ok (add_using a m)" using ok assms(2,3) new unfolding u by (auto simp: pools_ok_def pools_def)
  then show ?thesis
    by (rule con_invI) (use con_invD(2-4) [OF assms(1)] assms(4,5) False in \<open>auto simp: u in_use_def\<close>)
qed (use assms in \<open>auto simp: add_using_def\<close>)

lemma add_free_inv:
  assumes "con_inv now m" and "a \<notin> set (pools m)" and "a < cgNext m" and "has_rested now (cgObjects m a)"
  shows "con_inv now (add_free_connection a m)"
proof (rule con_invI)
  show "pools_ok (add_free_connection a m)"
    using con_invD(1) [OF assms(1)] assms(2,3) by (auto simp: pools_ok_def pools_def add_free_connection_def)
qed (use con_invD(2-4) [OF assms(1)] assms(4) in \<open>auto simp: add_free_connection_def\<close>)

lemma release_inv:
  assumes "con_inv now m" and "(i, a) \<in> set (cgUsing m)" and "conIndex c = i" and "\<not> conProxy c" and "finished c"
  shows "con_inv now (release_connection a (update_con a (\<lambda>_. c) m)) \<and>
    set (cgUsing (release_connection a (update_con a (\<lambda>_. c) m))) = set (cgUsing m) - {(i, a)}"
proof -
  let ?m = "m\<lparr>cgUsing := AList.delete i (cgUsing m), cgReleased := cgReleased m @ [a], cgObjects := (cgObjects m)(a := c)\<rparr>"
  have ok: "pools_ok m" by (rule con_invD(1) [OF assms(1)])
  note only = using_only [OF ok assms(2)]
  have dist: "distinct (map fst (cgUsing m))" using ok by (simp add: pools_ok_def)
  then have "map_of (cgUsing m) i = Some a" using assms(2) by simp
  then have r: "release_connection a (update_con a (\<lambda>_. c) m) = ?m"
    using assms(3,4) by (simp add: release_connection_def update_con_def)
  have del: "set (AList.delete i (cgUsing m)) = set (cgUsing m) - {(i, a)}"
  proof -
    have a: "b = a" if "(i, b) \<in> set (cgUsing m)" for b using dist that assms(2) by (rule eq_key_imp_eq_value)
    have "(j, b) \<in> set (AList.delete i (cgUsing m)) \<longleftrightarrow> (j, b) \<in> set (cgUsing m) - {(i, a)}" for j b
      using a [of b] assms(2) by (auto simp: AList.delete_eq)
    then show ?thesis by (intro set_eqI) (metis prod.exhaust)
  qed
  have "distinct (map snd (AList.delete i (cgUsing m)))"
    using ok by (auto simp: AList.delete_eq pools_ok_def pools_def distinct_map_filter)
  moreover have "a < cgNext m" using ok assms(2) by (force simp: pools_ok_def pools_def)
  ultimately have "pools_ok ?m"
    using ok only(1,2) only(3) del by (auto simp: pools_ok_def pools_def AList.delete_eq distinct_map_filter)
  then have "con_inv now ?m"
    by (rule con_invI) (use con_invD(2-4) [OF assms(1)] only assms(5) del in auto)
  then show ?thesis using del by (simp add: r)
qed

lemma travel_inv:
  assumes "con_inv now m"
  shows "con_inv now (travel_release_list now m)"
proof (rule con_invI)
  show "pools_ok (travel_release_list now m)"
    using con_invD(1) [OF assms] by (auto simp: pools_ok_def pools_def travel_release_list_def)
qed (use con_invD(2-4) [OF assms] in \<open>auto simp: travel_release_list_def has_rested_def rested_def\<close>)

section \<open>Closing and accepting\<close>

lemma close_connection_object_frame:
  "conIndex (close_connection_object c) = conIndex c" "conProxy (close_connection_object c) = conProxy c"
  "conServer (close_connection_object c) = conServer c"
  "conState (close_connection_object c) = (if conState c = CLOSED then CLOSED else CLOSING)"
  "conReleasedTime (close_connection_object c) = conReleasedTime c"
  by (cases "conState c"; simp add: close_connection_object_def Let_def)+

lemma close_core_spec:
  assumes "close_core env now a (c, mr) = (released, c', mr')" and "in_use i c"
  shows "conIndex c' = i \<and> \<not> conProxy c' \<and> conServer c' \<and> (if released then finished c' else conState c' = CLOSING)"
  using assms
  by (auto simp: close_core_def Let_def in_use_def finished_def idle_def record_released_time_def close_connection_object_frame
      split: if_splits option.splits)

lemma close_connection_inv:
  assumes "con_inv now (svCons s)" and "(i, a) \<in> set (cgUsing (svCons s))"
  shows "con_inv now (svCons (close_connection env later a s)) \<and>
    set (cgUsing (svCons s)) - {(i, a)} \<subseteq> set (cgUsing (svCons (close_connection env later a s)))"
proof -
  obtain released c ses rpc where r: "close_core env later a (con_of s a, svSes s, svRpc s) = (released, c, ses, rpc)"
    by (cases "close_core env later a (con_of s a, svSes s, svRpc s)") auto
  have use: "in_use i (con_of s a)" using con_invD(2) [OF assms] by (simp add: con_of_def)
  note c = close_core_spec [OF r use]
  show ?thesis
  proof (cases released)
    case True
    then have "svCons (close_connection env later a s) = release_connection a (update_con a (\<lambda>_. c) (svCons s))"
      by (simp add: close_connection_def r on_cons_def)
    then show ?thesis using release_inv [OF assms, of c] c True by simp
  next
    case False
    then have "svCons (close_connection env later a s) = update_con a (\<lambda>_. c) (svCons s)"
      by (simp add: close_connection_def r)
    moreover have "in_use i c" using c False by (simp add: in_use_def)
    ultimately show ?thesis using con_inv_update_using [OF assms, of "\<lambda>_. c"] by auto
  qed
qed

lemma on_close_inv:
  assumes "con_inv now (svCons s)" and "(i, a) \<in> set (cgUsing (svCons s))"
  shows "\<exists>s'. on_close env later a s = Inr s' \<and> con_inv now (svCons s') \<and> set (cgUsing (svCons s)) - {(i, a)} \<subseteq> set (cgUsing (svCons s'))"
proof -
  have "in_use i (con_of s a)" using con_invD(2) [OF assms] by (simp add: con_of_def)
  then have "on_close env later a s = Inr (close_connection env later a s)"
    by (cases "conState (con_of s a)") (auto simp: on_close_def in_use_def)
  then show ?thesis using close_connection_inv [OF assms] by blast
qed

lemma timeouts_inv:
  "con_inv now (svCons s) \<Longrightarrow> distinct as \<Longrightarrow> \<forall>a\<in>set as. \<exists>i. (i, a) \<in> set (cgUsing (svCons s)) \<Longrightarrow>
   \<exists>s'. fold (\<lambda>a r. bind_res r (on_close env later a)) as (Inr s) = Inr s' \<and> con_inv now (svCons s')"
proof (induction as arbitrary: s)
  case Nil
  then show ?case by simp
next
  case (Cons a as)
  obtain i where i: "(i, a) \<in> set (cgUsing (svCons s))" using Cons.prems(3) by auto
  obtain s1 where s1: "on_close env later a s = Inr s1" "con_inv now (svCons s1)"
    "set (cgUsing (svCons s)) - {(i, a)} \<subseteq> set (cgUsing (svCons s1))"
    using on_close_inv [OF Cons.prems(1) i] by blast
  have "\<forall>b\<in>set as. \<exists>j. (j, b) \<in> set (cgUsing (svCons s1))"
  proof
    fix b assume b: "b \<in> set as"
    then obtain j where "(j, b) \<in> set (cgUsing (svCons s))" using Cons.prems(3) by auto
    moreover have "b \<noteq> a" using b Cons.prems(2) by auto
    ultimately show "\<exists>j. (j, b) \<in> set (cgUsing (svCons s1))" using s1(3) by blast
  qed
  from Cons.IH [OF s1(2) _ this] Cons.prems(2) s1(1) show ?case by simp
qed

lemma detect_turn_inv:
  assumes "con_inv now (svCons s)"
  shows "\<exists>ms s'. detect_turn env now s = Inr (ms, s') \<and> con_inv now (svCons s')"
proof -
  have "pools_ok (svCons s)" by (rule con_invD(1) [OF assms])
  then have "distinct (timeout_queue now (svCons s))" by (simp add: pools_ok_def pools_def timeout_queue_def)
  moreover have "\<forall>a\<in>set (timeout_queue now (svCons s)). \<exists>i. (i, a) \<in> set (cgUsing (svCons s))"
    by (auto simp: timeout_queue_def)
  ultimately obtain s1 where "detect_timeouts_of env now s = Inr s1" "con_inv now (svCons s1)"
    using timeouts_inv [OF assms] unfolding detect_timeouts_of_def by blast
  then show ?thesis using travel_inv by (simp add: detect_turn_def on_cons_def)
qed

text \<open>A new connection is an object that was in no pool of connections in use, and that has rested.\<close>

lemma accept_socket_spec:
  assumes "con_inv now (svCons s)" and "accept_socket e sock bs port s = Inr (ob, s')"
  shows "con_inv now (svCons s') \<and>
    (case ob of None \<Rightarrow> cgUsing (svCons s') = cgUsing (svCons s)
     | Some a \<Rightarrow> a \<notin> set (cgReleased (svCons s)) \<and> (\<forall>i. (i, a) \<notin> set (cgUsing (svCons s))) \<and>
         (a < cgNext (svCons s) \<longrightarrow> has_rested now (con_of s a)) \<and>
         conState (con_of s' a) = ESTABLISHED \<and> conIndex (con_of s' a) = cgIndex (svCons s) + 1)"
proof -
  obtain a m where g: "get_free_connection (svCons s) = Inr (a, m)" "con_inv now m" "a \<notin> set (pools m)" "a < cgNext m"
    "a \<notin> set (cgReleased (svCons s))" "\<forall>i. (i, a) \<notin> set (cgUsing (svCons s))" "cgUsing m = cgUsing (svCons s)"
    "cgIndex m = cgIndex (svCons s)" "a < cgNext (svCons s) \<longrightarrow> has_rested now (cgObjects (svCons s) a)"
    using get_free_connection_spec [OF assms(1)] by blast
  let ?c = "serve_connection True (svParser s) False True (aeQueue e)
      (build_connection (aeNow e) sock (cgIndex m + 1) (ip_text bs) port (cgObjects m a))"
  let ?m = "update_con a (\<lambda>_. ?c) (m\<lparr>cgIndex := cgIndex m + 1\<rparr>)"
  have c: "conServer ?c" "\<not> conProxy ?c" "conIndex ?c = cgIndex m + 1" "conState ?c \<noteq> CLOSED" "conReleasedTime ?c = 0"
    by (simp_all add: serve_connection_def build_connection_def reset_connection_def Let_def)
  have inv0: "con_inv now (m\<lparr>cgIndex := cgIndex m + 1\<rparr>)" by (rule con_inv_same [OF g(2)]) simp_all
  have fresh: "a \<notin> set (pools (m\<lparr>cgIndex := cgIndex m + 1\<rparr>))" using g(3) by (simp add: pools_def)
  note inv = con_inv_update_other [OF inv0 fresh]
  show ?thesis
  proof (cases "aeAttach e")
    case True
    then have r: "ob = Some a" "svCons s' = update_con a (\<lambda>c. c\<lparr>conState := ESTABLISHED\<rparr>) (add_using a ?m)"
      using assms(2) g(1) by (auto simp: accept_socket_def on_accept_def build_for_def next_index_def set_state_def
          on_cons_def update_con_def Let_def)
    have added: "con_inv now (add_using a ?m)"
      by (rule add_using_inv [OF inv]) (use fresh g(4) c in simp_all)
    have obj: "cgObjects (add_using a ?m) a = ?c" by (simp add: add_using_def Let_def)
    have "con_inv now (svCons s')"
    proof (cases "\<exists>i. (i, a) \<in> set (cgUsing (add_using a ?m))")
      case True
      then obtain i where i: "(i, a) \<in> set (cgUsing (add_using a ?m))" by blast
      then have "in_use i ?c" using con_invD(2) [OF added i] obj by simp
      then show ?thesis unfolding r(2) by (intro con_inv_update_using [OF added i]) (simp add: obj in_use_def)
    next
      case False
      moreover have "cgFree (add_using a ?m) = cgFree m" "cgReleased (add_using a ?m) = cgReleased m"
        by (simp_all add: add_using_def Let_def)
      ultimately have "a \<notin> set (pools (add_using a ?m))" using g(3) by (simp add: in_pools)
      then show ?thesis unfolding r(2) by (rule con_inv_update_other [OF added])
    qed
    then show ?thesis using g(5,6,8,9) obj c(3) r by (simp add: con_of_def)
  next
    case False
    let ?f = "\<lambda>c. (close_connection_object c)\<lparr>conState := CLOSED\<rparr>"
    have r: "ob = None" "svCons s' = add_free_connection a (update_con a ?f ?m)"
      using assms(2) g(1) False by (auto simp: accept_socket_def on_accept_def build_for_def next_index_def
          attach_failed_def on_cons_def update_con_def Let_def)
    have "con_inv now (update_con a ?f ?m)" by (rule con_inv_update_other [OF inv]) (use fresh in simp)
    then have "con_inv now (svCons s')" unfolding r(2)
      by (rule add_free_inv) (use fresh g(4) c(5) in \<open>simp_all add: has_rested_def close_connection_object_frame\<close>)
    then show ?thesis using r g(7) by (simp add: add_free_connection_def)
  qed
qed

section \<open>What the server does\<close>

text \<open>
  The clock goes on; a socket is accepted; a connection in use works, which may change all of it but its
  number, its kind and its server, and does not make it closed; it is closed; the thread that looks for time
  outs takes a turn.
\<close>

definition works :: "(connection \<Rightarrow> connection) \<Rightarrow> connection \<Rightarrow> bool" where
  "works f c \<longleftrightarrow> conIndex (f c) = conIndex c \<and> conProxy (f c) = conProxy c \<and> conServer (f c) = conServer c \<and>
     conState (f c) \<noteq> CLOSED"

inductive server_step :: "rpc_env \<Rightarrow> int \<times> server \<Rightarrow> int \<times> server \<Rightarrow> bool" for env where
  time: "now \<le> later \<Longrightarrow> server_step env (now, s) (later, s)"
| accept: "accept_socket e sock bs port s = Inr (ob, s') \<Longrightarrow> server_step env (now, s) (now, s')"
| work: "find_using i (svCons s) = Some a \<Longrightarrow> works f (con_of s a) \<Longrightarrow>
    server_step env (now, s) (now, on_cons (update_con a f) s)"
| close: "find_using i (svCons s) = Some a \<Longrightarrow> server_step env (now, s) (now, close_connection env now a s)"
| turn: "detect_turn env now s = Inr (ms, s') \<Longrightarrow> server_step env (now, s) (now, s')"

inductive_cases server_stepE: "server_step env (now, s) (now', s')"

lemma server_step_inv:
  assumes "server_step env (now, s) (now', s')" and "con_inv now (svCons s)"
  shows "con_inv now' (svCons s')"
  using assms(1)
proof (rule server_stepE)
  assume "s' = s" "now \<le> now'"
  then show ?thesis using con_inv_later assms(2) by blast
next
  fix e sock bs port ob
  assume "now' = now" "accept_socket e sock bs port s = Inr (ob, s')"
  then show ?thesis using accept_socket_spec [OF assms(2)] by blast
next
  fix i a f
  assume w: "now' = now" "s' = on_cons (update_con a f) s" "find_using i (svCons s) = Some a" "works f (con_of s a)"
  then have i: "(i, a) \<in> set (cgUsing (svCons s))" by (simp add: find_using_def map_of_SomeD)
  have "in_use i (f (cgObjects (svCons s) a))" using con_invD(2) [OF assms(2) i] w(4) by (auto simp: in_use_def works_def con_of_def)
  then show ?thesis using con_inv_update_using [OF assms(2) i] w by (simp add: on_cons_def)
next
  fix i a
  assume "now' = now" "s' = close_connection env now a s" "find_using i (svCons s) = Some a"
  then show ?thesis using close_connection_inv [OF assms(2)] by (auto simp: find_using_def dest!: map_of_SomeD)
next
  fix ms
  assume "now' = now" "detect_turn env now s = Inr (ms, s')"
  then show ?thesis using detect_turn_inv [OF assms(2), of env] by auto
qed

lemma con_inv_new: "con_inv now (svCons (server_new p))"
  by (simp add: con_inv_def pools_ok_def pools_def server_new_def cg_new_def)

lemma reachable_inv: "(server_step env)\<^sup>*\<^sup>* (start, server_new p) (now, s) \<Longrightarrow> con_inv now (svCons s)"
proof (induction "(now, s)" arbitrary: now s rule: rtranclp_induct)
  case base
  show ?case by (rule con_inv_new)
next
  case (step y)
  then show ?case by (cases y) (use server_step_inv in blast)
qed


text \<open>A run: a socket is accepted and its connection closed; then the next one is accepted.\<close>

lemma demo_attaches: "aeAttach (demo_accept now)"
  by (simp add: demo_accept_def)

lemma accept_socket_attached:
  assumes "con_inv now (svCons s)" and "aeAttach e"
  shows "\<exists>a s'. accept_socket e sock bs port s = Inr (Some a, s')"
proof -
  obtain a m where "get_free_connection (svCons s) = Inr (a, m)" using get_free_connection_spec [OF assms(1)] by blast
  then show ?thesis using assms(2) by (simp add: accept_socket_def on_accept_def build_for_def next_index_def Let_def)
qed

lemma demo_accepted:
  "\<exists>a s. (server_step env)\<^sup>*\<^sup>* (1000, server_new True) (1000, s) \<and>
     accept_socket (demo_accept 1000) 3 [127, 0, 0, 1] 80 (server_new True) = Inr (Some a, s)"
proof -
  obtain a s where s: "accept_socket (demo_accept 1000) 3 [127, 0, 0, 1] 80 (server_new True) = Inr (Some a, s)"
    using accept_socket_attached [OF con_inv_new demo_attaches] by blast
  then show ?thesis using server_step.accept [OF s] by blast
qed




end
