(* ===== verification/Server_Messages.thy ===== *)
theory Server_Messages imports Main Server begin

text \<open>
  The processing of messages together with the closing of the server: what \<open>ProcessUnpackedMessage\<close> calls to
  close a connection is \<open>CloseConnection\<close> of the server.  A connection that is closing is closed for good by
  the message that is processed last; when a message is missing, it never is.
\<close>

section \<open>The close of the server as the close of a connection\<close>

definition world_close :: "rpc_env \<Rightarrow> int \<Rightarrow> addr \<Rightarrow> closed_type \<Rightarrow> world \<Rightarrow> world" where
  "world_close env now a ty w =
     (case close_core env now a (wCon w, wSes w, wRpc w) of
        (_, c, ses, rpc) \<Rightarrow> w\<lparr>wCon := c, wSes := ses, wRpc := rpc\<rparr>)"

definition server_mes_env :: "rpc_env \<Rightarrow> (addr \<Rightarrow> message \<Rightarrow> world \<Rightarrow> int \<times> world) \<Rightarrow> int \<Rightarrow> addr \<Rightarrow> mes_env" where
  "server_mes_env env obj now a = \<lparr>meRpc = env, meObject = obj, meClose = world_close env now a\<rparr>"

lemma close_core_frame:
  "close_core env now a (c, mr) = (released, c', mr') \<Longrightarrow>
   conMessages c' = conMessages c \<and> conMessageEnd c' = conMessageEnd c \<and> conLastProcessedSeq c' = conLastProcessedSeq c \<and>
   conServer c' = conServer c \<and> conLive c' = conLive c \<and> conPacketsInQueue c' = conPacketsInQueue c"
  by (auto simp: close_core_def Let_def record_released_time_def close_connection_object_def split: if_splits)

lemma world_close_frame: "mes_frame P w (world_close env now a ty w)"
proof -
  obtain released c' ses rpc where r: "close_core env now a (wCon w, wSes w, wRpc w) = (released, c', ses, rpc)"
    by (cases "close_core env now a (wCon w, wSes w, wRpc w)") auto
  then show ?thesis using close_core_frame [OF r] by (simp add: world_close_def mes_frame_def)
qed

lemma server_mes_env_ok:
  "(\<And>b m w. mes_frame P w (snd (obj b m w))) \<Longrightarrow> mes_env_ok P (server_mes_env env obj now a)"
  by (simp add: mes_env_ok_def server_mes_env_def world_close_frame)

section \<open>The last message closes the connection\<close>

text \<open>Objects that answer at once, with success, and leave the connection alone.\<close>

definition prompt_objects :: "(addr \<Rightarrow> message \<Rightarrow> world \<Rightarrow> int \<times> world) \<Rightarrow> bool" where
  "prompt_objects obj \<longleftrightarrow> (\<forall>b m w. fst (obj b m w) = 0 \<and> wCon (snd (obj b m w)) = wCon w \<and> wDone (snd (obj b m w)) = wDone w)"

text \<open>What is left of a connection that is closing are \<open>q\<close> messages.\<close>

definition closing_with :: "nat \<Rightarrow> connection \<Rightarrow> bool" where
  "closing_with q c \<longleftrightarrow> conState c = CLOSING \<and> conPacketsInQueue c = word_of_nat q \<and> conReadBuf c = [] \<and>
     conBuffersInList c = 0 \<and> conPostedSent c = 0 \<and> conPostedRecv c = 0"

lemma prompt_objects_frame: "prompt_objects obj \<Longrightarrow> mes_frame P w (snd (obj b m w))"
  by (simp add: prompt_objects_def mes_frame_def)

lemma object_for_con:
  "object_for env m w = (ob, m', w') \<Longrightarrow> conState (wCon w') = conState (wCon w) \<and>
   conPacketsInQueue (wCon w') = conPacketsInQueue (wCon w) \<and> conReadBuf (wCon w') = conReadBuf (wCon w) \<and>
   conBuffersInList (wCon w') = conBuffersInList (wCon w) \<and> conPostedSent (wCon w') = conPostedSent (wCon w) \<and>
   conPostedRecv (wCon w') = conPostedRecv (wCon w)"
  by (auto simp: object_for_def object_in_session_def object_of_class_def align_object_def pop_rpc_obj_def
      Let_def split: option.splits prod.splits if_splits)

lemma call_object_prompt:
  assumes "prompt_objects obj" and "call_object (server_mes_env env obj now a) ret m w = (async, fails, ob, r, w')"
    and "closing_with q (wCon w)"
  shows "\<not> async \<and> \<not> fails \<and> closing_with q (wCon w')"
proof -
  obtain ob2 m2 w2 where o1: "object_for (server_mes_env env obj now a) m w = (ob2, m2, w2)"
    by (cases "object_for (server_mes_env env obj now a) m w")
  have c2: "closing_with q (wCon w2)" using object_for_con [OF o1] assms(3) by (simp add: closing_with_def)
  show ?thesis
  proof (cases ob2)
    case None
    then show ?thesis using assms(2) o1 c2 by (auto simp: call_object_def)
  next
    case (Some b)
    let ?w = "on_con (\<lambda>c. c\<lparr>conAsyncMes := False, conAsyncPrepare := conEncrypt c \<noteq> 0 \<or> conCompress c \<noteq> 0\<rparr>) w2"
    obtain r2 w3 where o3: "obj b m2 (?w\<lparr>wDone := wDone ?w @ [m2]\<rparr>) = (r2, w3)" by fastforce
    let ?x = "?w\<lparr>wDone := wDone ?w @ [m2]\<rparr>"
    have "fst (obj b m2 ?x) = 0 \<and> wCon (snd (obj b m2 ?x)) = wCon ?x" using assms(1) unfolding prompt_objects_def by blast
    then have p: "r2 = 0 \<and> wCon w3 = wCon ?w" using o3 by simp
    have "async = (r2 = CXRET_ASYNC_CALLBACK \<or> conAsyncMes (wCon w3))" "fails = (r2 \<noteq> 0 \<and> r2 \<noteq> CXRET_ASYNC_CALLBACK)" "w' = w3"
      using assms(2) o1 Some o3 by (auto simp: call_object_def server_mes_env_def Let_def)
    then show ?thesis using p c2 by (simp add: on_con_def closing_with_def CXRET_ASYNC_CALLBACK_def)
  qed
qed

text \<open>The close after a message: the connection stays closing while messages are left, and is closed by the last.\<close>

lemma close_after_closing:
  assumes "closing_with q (wCon w)" and "q < 2 ^ 63"
  shows "if q = 0 then conState (wCon (close_after (server_mes_env env obj now a) False w)) = CLOSED
         else closing_with q (wCon (close_after (server_mes_env env obj now a) False w))"
proof -
  have "(word_of_nat q :: u64) = 0 \<longleftrightarrow> q = 0" using word_of_nat_64_eq [of q 0] assms(2) by simp
  then have "idle (wCon w) \<longleftrightarrow> q = 0" using assms(1) by (simp add: idle_def closing_with_def)
  moreover have "close_connection_object (wCon w) = wCon w"
    using assms(1) by (simp add: close_connection_object_def closing_with_def)
  ultimately show ?thesis using assms(1)
    by (auto simp: close_after_def server_mes_env_def world_close_def close_core_def closing_with_def
        record_released_time_def Let_def split: option.splits prod.splits)
qed

lemma closing_loop:
  assumes "numbered_messages ms" and "prompt_objects obj"
  shows "mes_at ms {1..length ms} k False w \<Longrightarrow> closing_with (length ms - k) (wCon w) \<Longrightarrow> k < length ms \<Longrightarrow>
    length ms - k \<le> n \<Longrightarrow>
    \<exists>r w'. process_loop (server_mes_env env obj now a) n False ret w = Inr (r, w') \<and> conState (wCon w') = CLOSED \<and>
      mes_at ms {1..length ms} (length ms) False w'"
proof (induction n arbitrary: k w ret)
  case 0
  then show ?case by simp
next
  case (Suc n)
  let ?env = "server_mes_env env obj now a"
  have ok: "mes_env_ok (mesAddr ` set ms) ?env"
    by (rule server_mes_env_ok) (rule prompt_objects_frame [OF assms(2)])
  have sk: "Suc k \<in> {1..length ms}" using Suc.prems(3) by simp
  have len: "length ms < 2 ^ 63" using assms(1) by (simp add: numbered_messages_def)
  show ?case
  proof (rule process_turn [OF assms(1) ok Suc.prems(1) sk, where ret = ret and need = False and n = n])
    fix async fails ob r w1 c
    let ?w2 = "on_con pop_message w1"
    let ?w3 = "destroy_after ?env ob ((count_done ?w2)\<lparr>wCon := c\<rparr>)"
    assume call: "call_object ?env ret (msg ms (Suc k)) w = (async, fails, ob, r, w1)"
      and free: "free_message (mesAddr (msg ms (Suc k))) (wCon (count_done ?w2)) = Inr c"
      and t: "mes_at ms {1..length ms} (Suc k) False (close_after ?env (False \<or> fails) ?w3)"
      and run: "process_loop ?env (Suc n) False ret w =
        (if async then Inr (r, ?w2) else process_loop ?env n (False \<or> fails) r (close_after ?env (False \<or> fails) ?w3))"
    from call_object_prompt [OF assms(2) call Suc.prems(2)]
    have p: "\<not> async" "\<not> fails" "closing_with (length ms - k) (wCon w1)" by simp_all
    have "(word_of_nat (length ms - k) :: u64) - 1 = word_of_nat (length ms - Suc k)"
      using Suc.prems(3) by (simp add: Suc_diff_Suc [symmetric])
    then have "closing_with (length ms - Suc k) c"
      using p(3) free by (auto simp: closing_with_def free_message_def on_con_def pop_message_def
          reduce_received_packet_number_def split: if_splits)
    then have "closing_with (length ms - Suc k) (wCon ?w3)" by (simp add: destroy_after_def split: option.splits)
    from close_after_closing [OF this, of env obj now a] len
    have c: "if length ms - Suc k = 0 then conState (wCon (close_after ?env False ?w3)) = CLOSED
      else closing_with (length ms - Suc k) (wCon (close_after ?env False ?w3))" by simp
    have run2: "process_loop ?env (Suc n) False ret w = process_loop ?env n False r (close_after ?env False ?w3)"
      using run p by simp
    have t2: "mes_at ms {1..length ms} (Suc k) False (close_after ?env False ?w3)" using t p by simp
    show ?thesis
    proof (cases "Suc k = length ms")
      case True
      then have "process_loop ?env n False r (close_after ?env False ?w3) = Inr (r, close_after ?env False ?w3)"
        by (intro process_loop_gap [OF assms(1) t2]) simp
      then show ?thesis using run2 c t2 True by auto
    next
      case False
      then have "Suc k < length ms" "length ms - Suc k \<le> n" using Suc.prems(3,4) by simp_all
      then show ?thesis using Suc.IH [OF t2] c run2 by simp
    qed
  qed
qed


definition closing_world :: world where
  "closing_world = demo_world\<lparr>wCon := (wCon demo_world)\<lparr>conState := CLOSING, conMessages := demo_messages, conMessageEnd := Some 1,
     conPacketsInQueue := 2\<rparr>\<rparr>"

lemma demo_numbered: "numbered_messages demo_messages"
  by (simp add: numbered_messages_def demo_messages_def less_Suc_eq)

lemma waiting_demo: "waiting demo_messages {1, 2} = demo_messages"
  by (simp add: waiting_def demo_messages_def)

lemma closing_world_at: "mes_at demo_messages {1..length demo_messages} 0 False closing_world"
proof -
  have len: "length demo_messages = 2" by (simp add: demo_messages_def)
  have set: "{s\<in>{1..2::nat}. 0 < s} = {1, 2}" by auto
  have "mes_list_at demo_messages {1..2} 0 False (wCon closing_world)"
    unfolding mes_list_at_def set waiting_demo
    by (simp add: closing_world_def demo_world_def new_connection_def reset_connection_def demo_messages_def end_of_def)
  moreover have "mes_live_at demo_messages 0 False (wCon closing_world)"
    by (auto simp: mes_live_at_def closing_world_def demo_world_def demo_messages_def less_Suc_eq nth_Cons split: nat.splits)
  ultimately show ?thesis by (simp add: mes_at_def len closing_world_def demo_world_def)
qed


section \<open>A message that is lost\<close>

text \<open>
  When the parser task of a message fails, the message is freed and its number is never processed.  What can
  happen afterwards: other messages arrive, and the connection is closed, as often as one likes.
\<close>

datatype after_loss = Arrives nat | ClosedFor closed_type

fun run_after_loss :: "mes_env \<Rightarrow> message list \<Rightarrow> after_loss list \<Rightarrow> world \<Rightarrow> world res" where
  "run_after_loss env ms [] w = Inr w"
| "run_after_loss env ms (Arrives s # es) w =
     bind_res (handle_message env (msg ms s) w) (\<lambda>(_, w). run_after_loss env ms es w)"
| "run_after_loss env ms (ClosedFor ty # es) w = run_after_loss env ms es (meClose env ty w)"

fun arriving :: "after_loss list \<Rightarrow> nat list" where
  "arriving [] = []"
| "arriving (Arrives s # es) = s # arriving es"
| "arriving (ClosedFor ty # es) = arriving es"

lemma world_close_with_messages:
  assumes "conPacketsInQueue (wCon w) \<noteq> 0" and "conState (wCon w) \<noteq> CLOSED"
  shows "conState (wCon (world_close env now a ty w)) \<noteq> CLOSED \<and>
    conPacketsInQueue (wCon (world_close env now a ty w)) = conPacketsInQueue (wCon w)"
proof -
  have "conPacketsInQueue (close_connection_object (wCon w)) = conPacketsInQueue (wCon w)"
    by (simp add: close_connection_object_def Let_def)
  moreover have "conState (close_connection_object (wCon w)) \<noteq> CLOSED"
    using assms(2) by (cases "conState (wCon w)") (simp_all add: close_connection_object_def Let_def)
  ultimately show ?thesis
    using assms by (simp add: world_close_def close_core_def idle_def Let_def)
qed

text \<open>
  C27: After a message is lost, a connection that still has messages is never closed for good: it stays
  behind with its object, its session and its messages, whatever arrives and however often it is closed.
\<close>

theorem lost_message_keeps_connection:
  assumes "numbered_messages ms" and "\<And>b m w. mes_frame (mesAddr ` set ms) w (snd (obj b m w))"
    and "mes_at ms A k False w" and "set (arriving es) \<subseteq> {1..length ms} - A - {Suc k}" and "distinct (arriving es)"
    and "Suc k \<notin> A" and "conPacketsInQueue (wCon w) \<noteq> 0" and "conState (wCon w) \<noteq> CLOSED"
  shows "\<exists>w'. run_after_loss (server_mes_env env obj now a) ms es w = Inr w' \<and> conState (wCon w') \<noteq> CLOSED \<and>
    conPacketsInQueue (wCon w') = conPacketsInQueue (wCon w) \<and> wDone w' = wDone w"
  using assms(3-8)
proof (induction es arbitrary: A w rule: arriving.induct)
  case 1
  then show ?case by simp
next
  case (2 s es)
  let ?w = "w\<lparr>wCon := (wCon w)\<lparr>conMessages := waiting ms {x\<in>insert s A. k < x},
      conMessageEnd := end_of mesAddr (waiting ms {x\<in>insert s A. k < x})\<rparr>\<rparr>"
  have s: "s \<in> {1..length ms}" "s \<notin> A" "s \<noteq> Suc k" using "2.prems"(2) by auto
  note push = arrive_push [OF assms(1) "2.prems"(1) s(1,2)]
  have gap: "Suc k \<notin> insert s A" using s(3) "2.prems"(4) by simp
  have h: "handle_message (server_mes_env env obj now a) (msg ms s) w = Inr (0, ?w)"
    unfolding push(2) by (rule process_loop_gap [OF assms(1) push(1) gap])
  have "set (arriving es) \<subseteq> {1..length ms} - insert s A - {Suc k}" using "2.prems"(2,3) by auto
  from "2.IH" [OF push(1) this _ gap] "2.prems"(3,5,6) h show ?case by simp
next
  case (3 ty es)
  let ?env = "server_mes_env env obj now a"
  have "mes_env_ok (mesAddr ` set ms) ?env" by (rule server_mes_env_ok) (rule assms(2))
  then have f: "mes_frame (mesAddr ` set ms) w (meClose ?env ty w)" by (simp add: mes_env_ok_def)
  have c: "conState (wCon (meClose ?env ty w)) \<noteq> CLOSED"
    "conPacketsInQueue (wCon (meClose ?env ty w)) = conPacketsInQueue (wCon w)"
    using world_close_with_messages [OF "3.prems"(5,6), of env now a ty] by (simp_all add: server_mes_env_def)
  from "3.IH" [OF mes_at_frame [OF "3.prems"(1) f] _ _ "3.prems"(4)] c "3.prems"(2,3,5) f
  show ?case by (simp add: mes_frame_def)
qed

definition lossy_world :: world where
  "lossy_world = demo_world\<lparr>wCon := (wCon demo_world)\<lparr>conState := ESTABLISHED, conPacketsInQueue := 1\<rparr>\<rparr>"

theorem lost_message_keeps_connection_witness:
  "\<exists>w'. run_after_loss (server_mes_env demo_rpc_env (\<lambda>b m w. (0, w)) 5 0) demo_messages
      [Arrives 2, ClosedFor SOCKET_CLOSED, ClosedFor TIME_OUT] lossy_world = Inr w' \<and>
    conState (wCon w') \<noteq> CLOSED \<and> conPacketsInQueue (wCon w') = 1"
proof -
  have "mes_at demo_messages {} 0 False lossy_world"
    by (auto simp: mes_at_def mes_list_at_def mes_live_at_def waiting_def end_of_def lossy_world_def demo_world_def
        demo_messages_def new_connection_def reset_connection_def less_Suc_eq nth_Cons split: nat.splits)
  moreover have "conPacketsInQueue (wCon lossy_world) = 1" "conState (wCon lossy_world) \<noteq> CLOSED"
    by (simp_all add: lossy_world_def)
  moreover have "length demo_messages = 2" by (simp add: demo_messages_def)
  ultimately show ?thesis
    using lost_message_keeps_connection [OF demo_numbered, of "\<lambda>b m w. (0, w)" "{}" 0 lossy_world
        "[Arrives 2, ClosedFor SOCKET_CLOSED, ClosedFor TIME_OUT]" demo_rpc_env 5 0] by auto
qed

end
