(* ===== verification/Queue.thy ===== *)
theory Queue imports Main Contracts begin

text \<open>
  The queue of message pointers and tasks: doubly linked lists in memory blocks
  (src/CXContainer/src/CXQueueData.cpp), two of them with a swap (src/CXContainer/src/CXQueue.cpp), and the
  queue of a dispatcher on top (src/CXCommunicationServer/src/CXMessageQueue.cpp).  Nodes are numbers and the
  links are maps from nodes; whether the system has memory for a block is a parameter.
\<close>

section \<open>Linked lists in blocks\<close>

record 'a queue_data =
  qdNext :: "addr \<Rightarrow> addr option"
  qdPrev :: "addr \<Rightarrow> addr option"
  qdVal :: "addr \<Rightarrow> 'a option"
  qdHead :: "addr option"
  qdEnd :: "addr option"
  qdEmptyHead :: "addr option"
  qdEmptyEnd :: "addr option"
  qdBlockList :: "addr list"
  qdUsing :: u32
  qdEmpty :: u32
  qdBlocks :: u32
  qdInitSize :: u32
  qdInited :: bool
  qdTop :: addr

definition qd_new :: "'a queue_data" where
  "qd_new = \<lparr>qdNext = (\<lambda>a. None), qdPrev = (\<lambda>a. None), qdVal = (\<lambda>a. None), qdHead = None, qdEnd = None,
     qdEmptyHead = None, qdEmptyEnd = None, qdBlockList = [], qdUsing = 0, qdEmpty = 0, qdBlocks = 0, qdInitSize = 10240,
     qdInited = False, qdTop = 0\<rparr>"

definition set_next :: "addr \<Rightarrow> addr option \<Rightarrow> 'a queue_data \<Rightarrow> 'a queue_data" where
  "set_next a p q = q\<lparr>qdNext := (qdNext q)(a := p)\<rparr>"

definition set_prev :: "addr \<Rightarrow> addr option \<Rightarrow> 'a queue_data \<Rightarrow> 'a queue_data" where
  "set_prev a p q = q\<lparr>qdPrev := (qdPrev q)(a := p)\<rparr>"

text \<open>The loop that links the nodes of a block from its third node on; \<open>b\<close> is the first one.\<close>

function link_nodes :: "addr \<Rightarrow> nat \<Rightarrow> nat \<Rightarrow> 'a queue_data \<Rightarrow> 'a queue_data" where
  "link_nodes b i n q =
     (if i < n then link_nodes b (Suc i) n (set_prev (b + i - 1) (Some (b + i - 2)) (set_next (b + i - 1) (Some (b + i)) q))
      else set_prev (b + i - 1) (Some (b + i - 2)) (set_next (b + i - 1) None q))"
  by auto
termination by (relation "measure (\<lambda>(b, i, n, q). n - i)") auto

declare link_nodes.simps [simp del]

text \<open>
  \<open>AllocateMemoryBlock\<close>: a node has 24 bytes and the header 16, computed in 32 bits; the links are written for
  at least two nodes.
\<close>

definition allocate_queue_block :: "bool \<Rightarrow> 'a queue_data \<Rightarrow> (int \<times> 'a queue_data) res" where
  "allocate_queue_block memory q =
     (let n = unat (qdInitSize q); b = qdTop q
      in if \<not> memory then Inr (- 1, q)
         else if n < 2 \<or> 2 ^ 32 \<le> 24 * n then Inl HeapOverflow
         else
           let q = q\<lparr>qdTop := b + n, qdBlockList := qdBlockList q @ [b],
                     qdVal := (\<lambda>a. if b \<le> a \<and> a < b + n then None else qdVal q a)\<rparr>;
               q = link_nodes b 2 n (set_next b (Some (b + 1)) (set_prev b None q));
               q = q\<lparr>qdBlocks := qdBlocks q + 1, qdEmpty := qdEmpty q + qdInitSize q\<rparr>;
               q' = (case qdEmptyHead q of
                      None \<Rightarrow> Inr (q\<lparr>qdEmptyHead := Some b\<rparr>)
                    | Some h \<Rightarrow> (case qdEmptyEnd q of
                        None \<Rightarrow> Inl NullDeref
                      | Some e \<Rightarrow> Inr (set_prev b (Some e) (set_next e (Some b) q))))
           in bind_res q' (\<lambda>q. Inr (0, q\<lparr>qdEmptyEnd := Some (b + n - 1)\<rparr>)))"

definition qd_init :: "bool \<Rightarrow> u32 \<Rightarrow> 'a queue_data \<Rightarrow> (int \<times> 'a queue_data) res" where
  "qd_init memory n q =
     (if qdInited q then Inr (0, q)
      else bind_res (allocate_queue_block memory (q\<lparr>qdInitSize := n\<rparr>)) (\<lambda>(r, q).
        Inr (r, if r = 0 then q\<lparr>qdInited := True\<rparr> else q)))"

definition qd_destroy :: "'a queue_data \<Rightarrow> 'a queue_data" where
  "qd_destroy q =
     (if qdInited q
      then q\<lparr>qdEmptyHead := None, qdEmptyEnd := None, qdHead := None, qdEnd := None, qdBlockList := [], qdUsing := 0,
             qdEmpty := 0, qdBlocks := 0, qdInited := False, qdInitSize := 10240\<rparr>
      else q)"

text \<open>
  \<open>GetNode\<close>.  When the last empty node is taken, the end pointer of the empty list stays as it is.
\<close>

definition get_node :: "bool \<Rightarrow> 'a queue_data \<Rightarrow> (addr option \<times> 'a queue_data) res" where
  "get_node memory q =
     (if \<not> qdInited q then Inr (None, q)
      else
        let got = (case qdEmptyHead q of
              Some a \<Rightarrow> Inr (Some a, (case qdNext q a of
                                None \<Rightarrow> q\<lparr>qdEmptyHead := None\<rparr>
                              | Some a' \<Rightarrow> set_prev a' None (q\<lparr>qdEmptyHead := Some a'\<rparr>)))
            | None \<Rightarrow> bind_res (allocate_queue_block memory q) (\<lambda>(r, q).
                if r \<noteq> 0 then Inr (None, q)
                else case qdEmptyHead q of
                  None \<Rightarrow> Inl NullDeref
                | Some a \<Rightarrow> (case qdNext q a of
                    None \<Rightarrow> Inl NullDeref
                  | Some a' \<Rightarrow> Inr (Some a, set_prev a' None (q\<lparr>qdEmptyHead := Some a'\<rparr>)))))
        in bind_res got (\<lambda>(oa, q). Inr (oa, case oa of
             None \<Rightarrow> q
           | Some a \<Rightarrow> set_prev a None (set_next a None (q\<lparr>qdVal := (qdVal q)(a := None), qdEmpty := qdEmpty q - 1\<rparr>)))))"

text \<open>\<open>FreeNode\<close> asks for the end of the empty list, not for its head.\<close>

definition free_node :: "addr \<Rightarrow> 'a queue_data \<Rightarrow> 'a queue_data" where
  "free_node a q =
     (if \<not> qdInited q then q
      else
        let q = set_next a None q;
            q = (case qdEmptyEnd q of
                   Some e \<Rightarrow> (set_next e (Some a) (set_prev a (Some e) q))\<lparr>qdEmptyEnd := Some a\<rparr>
                 | None \<Rightarrow> set_prev a None (q\<lparr>qdEmptyHead := Some a\<rparr>))
        in q\<lparr>qdEmpty := qdEmpty q + 1\<rparr>)"

definition qd_push :: "bool \<Rightarrow> 'a \<Rightarrow> 'a queue_data \<Rightarrow> (bool \<times> 'a queue_data) res" where
  "qd_push memory x q =
     bind_res (if qdInited q then Inr (0, q) else qd_init memory 10240 q) (\<lambda>(r, q).
       if r \<noteq> 0 then Inr (False, q)
       else bind_res (get_node memory q) (\<lambda>(oa, q). Inr (case oa of
         None \<Rightarrow> (False, q)
       | Some a \<Rightarrow>
           let q = q\<lparr>qdVal := (qdVal q)(a := Some x)\<rparr>;
               q = (case qdEnd q of
                      Some e \<Rightarrow> (set_next e (Some a) (set_prev a (Some e) q))\<lparr>qdEnd := Some a\<rparr>
                    | None \<Rightarrow> q\<lparr>qdHead := Some a, qdEnd := Some a\<rparr>)
           in (True, q\<lparr>qdUsing := qdUsing q + 1\<rparr>))))"

definition qd_pop_front :: "'a queue_data \<Rightarrow> 'a option \<times> 'a queue_data" where
  "qd_pop_front q =
     (case qdHead q of
        None \<Rightarrow> (None, q)
      | Some a \<Rightarrow>
          let q1 = (case qdNext q a of
                      None \<Rightarrow> q\<lparr>qdHead := None, qdEnd := None\<rparr>
                    | Some a' \<Rightarrow> set_prev a' None (q\<lparr>qdHead := Some a'\<rparr>))
          in (qdVal q a, free_node a (q1\<lparr>qdUsing := qdUsing q1 - 1\<rparr>)))"

definition qd_front :: "'a queue_data \<Rightarrow> 'a option" where
  "qd_front q = (case qdHead q of None \<Rightarrow> None | Some a \<Rightarrow> qdVal q a)"

definition qd_clear :: "'a queue_data \<Rightarrow> 'a queue_data res" where
  "qd_clear q =
     bind_res (case qdEmptyHead q of
         None \<Rightarrow> Inr (q\<lparr>qdEmptyHead := qdHead q\<rparr>)
       | Some h \<Rightarrow> (case qdEmptyEnd q of
           None \<Rightarrow> Inl NullDeref
         | Some e \<Rightarrow> (case qdHead q of
             None \<Rightarrow> Inl NullDeref
           | Some a \<Rightarrow> Inr (set_prev a (Some e) (set_next e (Some a) q)))))
       (\<lambda>q. Inr (q\<lparr>qdEmptyEnd := qdEnd q, qdHead := None, qdEnd := None, qdEmpty := qdEmpty q + qdUsing q, qdUsing := 0\<rparr>))"

section \<open>Two lists with a swap\<close>

record 'a cx_queue =
  cqData :: "'a queue_data"
  cqBak :: "'a queue_data"
  cqInited :: bool
  cqInitSize :: u32
  cqAuto :: bool
  cqSwapping :: bool

definition cq_new :: "'a cx_queue" where
  "cq_new = \<lparr>cqData = qd_new, cqBak = qd_new, cqInited = False, cqInitSize = 10240, cqAuto = True, cqSwapping = False\<rparr>"

definition cq_init :: "bool \<Rightarrow> u32 \<Rightarrow> 'a cx_queue \<Rightarrow> (int \<times> 'a cx_queue) res" where
  "cq_init memory n q =
     (if cqInited q then Inr (0, q)
      else bind_res (qd_init memory n (cqData q)) (\<lambda>(r, d).
        Inr (r, q\<lparr>cqData := d, cqInited := (if r = 0 then True else cqInited q), cqInitSize := n\<rparr>)))"

text \<open>With ten blocks or more the numbers of nodes are divided, also when no node is in use.\<close>

definition cq_compact :: "'a cx_queue \<Rightarrow> 'a cx_queue res" where
  "cq_compact q =
     (if \<not> cqSwapping q \<and> 10 \<le> qdBlocks (cqData q) \<and> qdUsing (cqBak q) = 0 then
        if qdUsing (cqData q) = 0 then Inl DivByZero
        else if 2 < qdEmpty (cqData q) div qdUsing (cqData q)
             then Inr (q\<lparr>cqData := cqBak q, cqBak := cqData q, cqSwapping := True\<rparr>)
             else Inr q
      else Inr q)"

definition cq_end_swap :: "'a cx_queue \<Rightarrow> 'a cx_queue" where
  "cq_end_swap q =
     (if cqSwapping q \<and> qdUsing (cqBak q) = 0 then q\<lparr>cqBak := qd_destroy (cqBak q), cqSwapping := False\<rparr> else q)"

definition cq_push :: "bool \<Rightarrow> 'a \<Rightarrow> 'a cx_queue \<Rightarrow> (bool \<times> 'a cx_queue) res" where
  "cq_push memory x q =
     bind_res (if cqInited q then Inr (0, q) else cq_init memory 10240 q) (\<lambda>(r, q).
       if r \<noteq> 0 then Inr (False, q)
       else bind_res (if cqAuto q then cq_compact q else Inr q) (\<lambda>q.
         let q = cq_end_swap q
         in bind_res (qd_push memory x (cqData q)) (\<lambda>(ok, d). Inr (ok, q\<lparr>cqData := d\<rparr>))))"

definition cq_pop_front :: "'a cx_queue \<Rightarrow> ('a option \<times> 'a cx_queue) res" where
  "cq_pop_front q =
     bind_res (if cqAuto q then cq_compact q else Inr q) (\<lambda>q.
       let q = cq_end_swap q
       in Inr (if cqSwapping q
               then case qd_pop_front (cqBak q) of (x, d) \<Rightarrow> (x, q\<lparr>cqBak := d\<rparr>)
               else case qd_pop_front (cqData q) of (x, d) \<Rightarrow> (x, q\<lparr>cqData := d\<rparr>)))"

definition cq_pop :: "'a cx_queue \<Rightarrow> 'a cx_queue res" where
  "cq_pop q = bind_res (cq_pop_front q) (\<lambda>(_, q). Inr q)"

definition cq_front :: "'a cx_queue \<Rightarrow> 'a option" where
  "cq_front q = (if cqSwapping q then qd_front (cqBak q) else qd_front (cqData q))"

definition cq_size :: "'a cx_queue \<Rightarrow> u32" where
  "cq_size q = qdUsing (cqData q) + qdUsing (cqBak q)"

definition cq_clear :: "'a cx_queue \<Rightarrow> 'a cx_queue res" where
  "cq_clear q =
     bind_res (qd_clear (cqBak q)) (\<lambda>b. bind_res (qd_clear (cqData q)) (\<lambda>d.
       Inr (if cqSwapping q then q\<lparr>cqData := d, cqBak := qd_destroy b, cqSwapping := False\<rparr> else q\<lparr>cqData := d, cqBak := b\<rparr>)))"

section \<open>The queue of a dispatcher\<close>

definition mq_get :: "'a cx_queue \<Rightarrow> ('a option \<times> 'a cx_queue) res" where
  "mq_get q = (if 0 <s cq_size q then cq_pop_front q else Inr (None, q))"

section \<open>Paths\<close>

primrec path :: "(addr \<Rightarrow> addr option) \<Rightarrow> addr option \<Rightarrow> addr list \<Rightarrow> bool" where
  "path h x [] \<longleftrightarrow> x = None"
| "path h x (a # as) \<longleftrightarrow> x = Some a \<and> path h (h a) as"

lemma path_update [simp]: "a \<notin> set as \<Longrightarrow> path (h(a := v)) x as = path h x as"
  by (induction as arbitrary: x) auto

lemma path_snoc:
  "path h x as \<Longrightarrow> as \<noteq> [] \<Longrightarrow> distinct (as @ [a]) \<Longrightarrow> h a = None \<Longrightarrow> path (h(last as := Some a)) x (as @ [a])"
proof (induction as arbitrary: x)
  case (Cons b as)
  then show ?case by (cases "as = []") auto
qed simp

lemma path_upt: "(\<And>j. b \<le> j \<Longrightarrow> Suc j < c \<Longrightarrow> h j = Some (Suc j)) \<Longrightarrow> (b < c \<Longrightarrow> h (c - 1) = None) \<Longrightarrow>
  path h (if b < c then Some b else None) [b..<c]"
proof (induction "c - b" arbitrary: b)
  case 0
  then show ?case by simp
next
  case (Suc k)
  then have b: "b < c" by simp
  have "path h (if Suc b < c then Some (Suc b) else None) [Suc b..<c]" using Suc by (intro Suc.hyps(1)) auto
  moreover have "h b = (if Suc b < c then Some (Suc b) else None)"
    using Suc.prems b by (cases "Suc b < c") (auto simp: less_Suc_eq_le not_less le_Suc_eq dest: le_antisym)
  ultimately show ?case using b by (simp add: upt_conv_Cons)
qed

text \<open>The nodes that a pointer leads to.\<close>

fun follow :: "(addr \<Rightarrow> addr option) \<Rightarrow> nat \<Rightarrow> addr option \<Rightarrow> addr list" where
  "follow h 0 x = []"
| "follow h (Suc n) None = []"
| "follow h (Suc n) (Some a) = a # follow h n (h a)"

lemma follow_path: "path h x as \<Longrightarrow> follow h (length as) x = as"
  by (induction as arbitrary: x) auto

lemma set_simps [simp]:
  "qdNext (set_next a p q) = (qdNext q)(a := p)" "qdVal (set_next a p q) = qdVal q" "qdHead (set_next a p q) = qdHead q"
  "qdEnd (set_next a p q) = qdEnd q" "qdEmptyHead (set_next a p q) = qdEmptyHead q" "qdEmptyEnd (set_next a p q) = qdEmptyEnd q"
  "qdUsing (set_next a p q) = qdUsing q" "qdInited (set_next a p q) = qdInited q" "qdBlocks (set_next a p q) = qdBlocks q"
  "qdNext (set_prev a p q) = qdNext q" "qdVal (set_prev a p q) = qdVal q" "qdHead (set_prev a p q) = qdHead q"
  "qdEnd (set_prev a p q) = qdEnd q" "qdEmptyHead (set_prev a p q) = qdEmptyHead q" "qdEmptyEnd (set_prev a p q) = qdEmptyEnd q"
  "qdUsing (set_prev a p q) = qdUsing q" "qdInited (set_prev a p q) = qdInited q" "qdBlocks (set_prev a p q) = qdBlocks q"
  "qdTop (set_next a p q) = qdTop q" "qdInitSize (set_next a p q) = qdInitSize q"
  "qdTop (set_prev a p q) = qdTop q" "qdInitSize (set_prev a p q) = qdInitSize q"
  by (simp_all add: set_next_def set_prev_def)

lemma link_nodes_spec:
  "2 \<le> i \<Longrightarrow> i \<le> n \<Longrightarrow>
   qdNext (link_nodes b i n q) = (\<lambda>a. if b + i - 1 \<le> a \<and> a < b + n - 1 then Some (Suc a) else if a = b + n - 1 then None else qdNext q a) \<and>
   qdVal (link_nodes b i n q) = qdVal q \<and> qdHead (link_nodes b i n q) = qdHead q \<and> qdEnd (link_nodes b i n q) = qdEnd q \<and>
   qdEmptyHead (link_nodes b i n q) = qdEmptyHead q \<and> qdUsing (link_nodes b i n q) = qdUsing q \<and>
   qdBlocks (link_nodes b i n q) = qdBlocks q \<and> qdTop (link_nodes b i n q) = qdTop q \<and>
   qdInitSize (link_nodes b i n q) = qdInitSize q \<and> qdInited (link_nodes b i n q) = qdInited q"
proof (induction b i n q rule: link_nodes.induct)
  case (1 b i n q)
  show ?case
  proof (cases "i < n")
    case True
    show ?thesis using 1 True unfolding link_nodes.simps [of b i] by (auto simp: fun_eq_iff)
  next
    case False
    then show ?thesis using 1(2,3) unfolding link_nodes.simps [of b i] by (auto simp: fun_eq_iff)
  qed
qed

section \<open>A list that is never full keeps the contract\<close>

text \<open>
  The nodes in use and the empty ones are two paths without common nodes, and there is always an empty node
  left; then both end pointers are right.
\<close>

definition qd_lists :: "nat \<Rightarrow> 'a queue_data \<Rightarrow> addr list \<Rightarrow> addr list \<Rightarrow> bool" where
  "qd_lists n q us es \<longleftrightarrow> qdInited q \<and> path (qdNext q) (qdHead q) us \<and> path (qdNext q) (qdEmptyHead q) es \<and>
     distinct (us @ es) \<and> length us + length es = n \<and> es \<noteq> [] \<and>
     qdEnd q = (if us = [] then None else Some (last us)) \<and> qdEmptyEnd q = Some (last es) \<and>
     qdUsing q = word_of_nat (length us) \<and> (\<forall>a\<in>set us. qdVal q a \<noteq> None) \<and> qdBlocks q = 1 \<and>
     (\<forall>a\<in>set us \<union> set es. a < qdTop q) \<and> unat (qdInitSize q) = n"

definition qd_content :: "'a queue_data \<Rightarrow> 'a list" where
  "qd_content q = map (\<lambda>a. the (qdVal q a)) (follow (qdNext q) (unat (qdUsing q)) (qdHead q))"

lemma qd_content_lists:
  assumes "qd_lists n q us es" and "n < 2 ^ 31"
  shows "qd_content q = map (\<lambda>a. the (qdVal q a)) us" and "unat (qdUsing q) = length us"
proof -
  have "length us < 2 ^ 32" using assms by (simp add: qd_lists_def)
  then show u: "unat (qdUsing q) = length us" using assms(1) by (simp add: qd_lists_def unsigned_of_nat take_bit_nat_eq_self)
  have "path (qdNext q) (qdHead q) us" using assms(1) by (simp add: qd_lists_def)
  then show "qd_content q = map (\<lambda>a. the (qdVal q a)) us" by (simp add: qd_content_def u follow_path)
qed

lemma qd_push_lists:
  assumes "qd_lists n q us (a # a' # es)"
  shows "\<exists>q'. qd_push memory x q = Inr (True, q') \<and> qd_lists n q' (us @ [a]) (a' # es) \<and>
    (\<forall>b\<in>set us. qdVal q' b = qdVal q b) \<and> qdVal q' a = Some x"
proof -
  have q: "qdInited q" "path (qdNext q) (qdHead q) us" "qdEmptyHead q = Some a" "qdNext q a = Some a'"
    "path (qdNext q) (Some a') (a' # es)" "distinct (us @ a # a' # es)" "qdEmptyEnd q = Some (last (a' # es))"
    "qdEnd q = (if us = [] then None else Some (last us))" "qdUsing q = word_of_nat (length us)"
    "\<forall>a\<in>set us. qdVal q a \<noteq> None" "Suc (Suc (length us + length es)) = n" "qdBlocks q = 1"
    "\<forall>b\<in>set us \<union> set (a # a' # es). b < qdTop q" "unat (qdInitSize q) = n"
    using assms by (simp_all add: qd_lists_def)
  let ?q1 = "set_prev a None (set_next a None ((set_prev a' None (q\<lparr>qdEmptyHead := Some a'\<rparr>))\<lparr>qdVal := (qdVal q)(a := None), qdEmpty := qdEmpty q - 1\<rparr>))"
  have g: "get_node memory q = Inr (Some a, ?q1)" using q by (simp add: get_node_def set_prev_def)
  let ?q2 = "?q1\<lparr>qdVal := (qdVal ?q1)(a := Some x)\<rparr>"
  let ?q3 = "case qdEnd ?q2 of Some e \<Rightarrow> (set_next e (Some a) (set_prev a (Some e) ?q2))\<lparr>qdEnd := Some a\<rparr>
      | None \<Rightarrow> ?q2\<lparr>qdHead := Some a, qdEnd := Some a\<rparr>"
  have r: "qd_push memory x q = Inr (True, ?q3\<lparr>qdUsing := qdUsing ?q3 + 1\<rparr>)" using q(1) g by (simp add: qd_push_def Let_def)
  have us: "path ((qdNext q)(a := None)) (qdHead q) us" using q(2,6) by simp
  have "qd_lists n (?q3\<lparr>qdUsing := qdUsing ?q3 + 1\<rparr>) (us @ [a]) (a' # es)"
  proof (cases "us = []")
    case True
    then show ?thesis using q by (simp add: qd_lists_def)
  next
    case False
    then have "last us \<notin> set (a' # es)" "last us \<noteq> a" using q(6) by (auto dest!: last_in_set)
    moreover have "path (((qdNext q)(a := None))(last us := Some a)) (qdHead q) (us @ [a])"
      using us False q(6) by (intro path_snoc) auto
    ultimately show ?thesis using q False by (auto simp: qd_lists_def)
  qed
  moreover have "\<forall>b\<in>set us. qdVal (?q3\<lparr>qdUsing := qdUsing ?q3 + 1\<rparr>) b = qdVal q b" "qdVal (?q3\<lparr>qdUsing := qdUsing ?q3 + 1\<rparr>) a = Some x"
    using q(6) by (auto split: option.splits)
  ultimately show ?thesis using r by blast
qed

lemma qd_pop_lists:
  assumes "qd_lists n q (u # us) es"
  shows "fst (qd_pop_front q) = qdVal q u \<and> qd_lists n (snd (qd_pop_front q)) us (es @ [u]) \<and>
    qdVal (snd (qd_pop_front q)) = qdVal q"
proof -
  have q: "qdInited q" "qdHead q = Some u" "path (qdNext q) (qdNext q u) us" "path (qdNext q) (qdEmptyHead q) es"
    "distinct (u # us @ es)" "es \<noteq> []" "qdEmptyEnd q = Some (last es)" "qdUsing q = word_of_nat (Suc (length us))"
    "qdEnd q = Some (if us = [] then u else last us)" "\<forall>a\<in>set us. qdVal q a \<noteq> None" "Suc (length us + length es) = n" "qdBlocks q = 1"
    "\<forall>b\<in>set (u # us) \<union> set es. b < qdTop q" "unat (qdInitSize q) = n"
    using assms by (simp_all add: qd_lists_def)
  have e: "last es \<noteq> u" "last es \<notin> set us" using q(5,6) by (auto dest!: last_in_set)
  have "path ((qdNext q)(u := None)) (qdEmptyHead q) es" using q(4,5) by simp
  then have es: "path (((qdNext q)(u := None))(last es := Some u)) (qdEmptyHead q) (es @ [u])"
    using q(5,6) by (intro path_snoc) auto
  have us: "path (((qdNext q)(u := None))(last es := Some u)) (qdNext q u) us" using q(3,5) e by simp
  have nx: "qdNext q u = (if us = [] then None else Some (hd us))" using q(3) by (cases us) auto
  show ?thesis
    using q e es us by (auto simp: qd_pop_front_def nx free_node_def Let_def qd_lists_def)
qed

text \<open>A new block becomes the list of empty nodes when that list has no head.\<close>

lemma allocate_first:
  assumes "qdEmptyHead q = None" and "2 \<le> unat (qdInitSize q)" and "24 * unat (qdInitSize q) < 2 ^ 32"
  defines "b \<equiv> qdTop q" and "c \<equiv> qdTop q + unat (qdInitSize q)"
  shows "\<exists>q'. allocate_queue_block True q = Inr (0, q') \<and>
    (\<forall>a. qdNext q' a = (if b \<le> a \<and> Suc a < c then Some (Suc a) else if a = c - 1 then None else qdNext q a)) \<and>
    (\<forall>a. a < b \<longrightarrow> qdVal q' a = qdVal q a) \<and> qdHead q' = qdHead q \<and> qdEnd q' = qdEnd q \<and> qdEmptyHead q' = Some b \<and>
    qdEmptyEnd q' = Some (c - 1) \<and> qdUsing q' = qdUsing q \<and> qdInited q' = qdInited q \<and> qdBlocks q' = qdBlocks q + 1 \<and>
    qdInitSize q' = qdInitSize q \<and> qdTop q' = c"
proof -
  define n where "n = unat (qdInitSize q)"
  define q1 where "q1 = set_next b (Some (b + 1)) (set_prev b None (q\<lparr>qdTop := b + n, qdBlockList := qdBlockList q @ [b],
      qdVal := (\<lambda>a. if b \<le> a \<and> a < b + n then None else qdVal q a)\<rparr>))"
  define q2 where "q2 = link_nodes b 2 n q1"
  let ?q3 = "q2\<lparr>qdBlocks := qdBlocks q2 + 1, qdEmpty := qdEmpty q2 + qdInitSize q2, qdEmptyHead := Some b, qdEmptyEnd := Some (b + n - 1)\<rparr>"
  have n: "2 \<le> n" "\<not> 2 ^ 32 \<le> 24 * n" "c = b + n" using assms by (simp_all add: n_def)
  note l = link_nodes_spec [of 2 n b q1, OF order_refl n(1), folded q2_def]
  have h: "qdEmptyHead q2 = None" using l assms(1) by (simp add: q1_def)
  have "allocate_queue_block True q = Inr (0, ?q3)"
    using n(1,2) h unfolding allocate_queue_block_def Let_def n_def [symmetric] b_def [symmetric] q1_def [symmetric] q2_def [symmetric]
    by simp
  then show ?thesis
  proof (rule exI [of _ ?q3, OF conjI])
    show "(\<forall>a. qdNext ?q3 a = (if b \<le> a \<and> Suc a < c then Some (Suc a) else if a = c - 1 then None else qdNext q a)) \<and>
      (\<forall>a. a < b \<longrightarrow> qdVal ?q3 a = qdVal q a) \<and> qdHead ?q3 = qdHead q \<and> qdEnd ?q3 = qdEnd q \<and> qdEmptyHead ?q3 = Some b \<and>
      qdEmptyEnd ?q3 = Some (c - 1) \<and> qdUsing ?q3 = qdUsing q \<and> qdInited ?q3 = qdInited q \<and> qdBlocks ?q3 = qdBlocks q + 1 \<and>
      qdInitSize ?q3 = qdInitSize q \<and> qdTop ?q3 = c"
      using l n by (auto simp: q1_def)
  qed
qed

text \<open>A new list has all its nodes empty.\<close>

lemma qd_init_lists:
  assumes "2 \<le> unat n" and "24 * unat n < 2 ^ 32"
  shows "\<exists>q :: 'a queue_data. qd_init True n qd_new = Inr (0, q) \<and> qd_lists (unat n) q [] [0..<unat n]"
proof -
  let ?q0 = "qd_new\<lparr>qdInitSize := n\<rparr> :: 'a queue_data"
  have "qdEmptyHead ?q0 = None" "2 \<le> unat (qdInitSize ?q0)" "24 * unat (qdInitSize ?q0) < 2 ^ 32"
    using assms by (simp_all add: qd_new_def)
  from allocate_first [OF this] obtain q where a: "allocate_queue_block True ?q0 = Inr (0, q)"
    and nx: "\<forall>a. qdNext q a = (if qdTop ?q0 \<le> a \<and> Suc a < qdTop ?q0 + unat (qdInitSize ?q0) then Some (Suc a)
        else if a = qdTop ?q0 + unat (qdInitSize ?q0) - 1 then None else qdNext ?q0 a)"
    and f: "qdHead q = qdHead ?q0" "qdEnd q = qdEnd ?q0" "qdEmptyHead q = Some (qdTop ?q0)"
      "qdEmptyEnd q = Some (qdTop ?q0 + unat (qdInitSize ?q0) - 1)" "qdUsing q = qdUsing ?q0" "qdBlocks q = qdBlocks ?q0 + 1"
      "qdInitSize q = qdInitSize ?q0" "qdTop q = qdTop ?q0 + unat (qdInitSize ?q0)"
    by (elim exE conjE)
  have p: "path (qdNext q) (if 0 < unat n then Some 0 else None) [0..<unat n]"
  proof (rule path_upt)
    show "\<And>j. 0 \<le> j \<Longrightarrow> Suc j < unat n \<Longrightarrow> qdNext q j = Some (Suc j)" using nx by (simp add: qd_new_def)
    show "0 < unat n \<Longrightarrow> qdNext q (unat n - 1) = None" using nx by (simp add: qd_new_def)
  qed
  have l: "last [0..<unat n] = unat n - 1" "0 < unat n" using assms(1) by (simp_all add: last_upt)
  have "qd_lists (unat n) (q\<lparr>qdInited := True\<rparr>) [] [0..<unat n]" using p f l by (simp add: qd_lists_def qd_new_def)
  moreover have "qd_init True n qd_new = Inr (0, (q\<lparr>qdInited := True\<rparr>))"
    using a by (simp add: qd_init_def qd_new_def)
  ultimately show ?thesis by blast
qed

definition cq_ok :: "nat \<Rightarrow> 'a cx_queue \<Rightarrow> bool" where
  "cq_ok n q \<longleftrightarrow> cqInited q \<and> \<not> cqSwapping q \<and> qdUsing (cqBak q) = 0 \<and> n < 2 ^ 31 \<and> (\<exists>us es. qd_lists n (cqData q) us es)"

definition cq_content :: "'a cx_queue \<Rightarrow> 'a list" where
  "cq_content q = qd_content (cqData q)"

lemma cq_calm:
  assumes "cqInited q" and "\<not> cqSwapping q" and "qdBlocks (cqData q) < 10"
  shows "cq_push memory x q = bind_res (qd_push memory x (cqData q)) (\<lambda>(ok, d). Inr (ok, q\<lparr>cqData := d\<rparr>))"
    and "cq_pop_front q = Inr (fst (qd_pop_front (cqData q)), q\<lparr>cqData := snd (qd_pop_front (cqData q))\<rparr>)"
proof -
  have "\<not> 10 \<le> qdBlocks (cqData q)" using assms(3) by (simp add: not_le)
  then have "cq_compact q = Inr q" by (simp add: cq_compact_def)
  then show "cq_push memory x q = bind_res (qd_push memory x (cqData q)) (\<lambda>(ok, d). Inr (ok, q\<lparr>cqData := d\<rparr>))"
    "cq_pop_front q = Inr (fst (qd_pop_front (cqData q)), q\<lparr>cqData := snd (qd_pop_front (cqData q))\<rparr>)"
    using assms by (simp_all add: cq_push_def cq_pop_front_def cq_end_swap_def split: prod.splits)
qed

lemma cq_size_pos:
  assumes "qdUsing (cqBak q) = 0" and "qdUsing (cqData q) = word_of_nat k" and "k < 2 ^ 31"
  shows "0 <s cq_size q \<longleftrightarrow> 0 < k"
proof -
  have "sint (word_of_nat k :: u32) = int k" using assms(3) by (simp add: signed_of_nat signed_take_bit_int_eq_self)
  then show ?thesis using assms(1,2) by (simp add: cq_size_def word_sless_alt)
qed

lemma cq_push_ok:
  assumes "cq_ok n q" and "length (cq_content q) < n - 1"
  shows "\<exists>q'. cq_push memory x q = Inr (True, q') \<and> cq_ok n q' \<and> cq_content q' = cq_content q @ [x]"
proof -
  obtain us es where l: "qd_lists n (cqData q) us es" and n: "n < 2 ^ 31" using assms(1) by (auto simp: cq_ok_def)
  note c = qd_content_lists [OF l n]
  have "length us < n - 1" using assms(2) c(1) by (simp add: cq_content_def)
  moreover have "length us + length es = n" using l by (simp add: qd_lists_def)
  ultimately have "2 \<le> length es" by linarith
  then obtain a a' es' where es: "es = a # a' # es'" by (cases es; cases "tl es") auto
  obtain d where d: "qd_push memory x (cqData q) = Inr (True, d)" "qd_lists n d (us @ [a]) (a' # es')"
    "\<forall>b\<in>set us. qdVal d b = qdVal (cqData q) b" "qdVal d a = Some x"
    using qd_push_lists [OF l [unfolded es]] by blast
  have "cq_content (q\<lparr>cqData := d\<rparr>) = cq_content q @ [x]"
    using qd_content_lists(1) [OF d(2) n] c(1) d(3,4) by (simp add: cq_content_def)
  moreover have "cq_ok n (q\<lparr>cqData := d\<rparr>)" using assms(1) d(2) by (auto simp: cq_ok_def)
  moreover have "cq_push memory x q = Inr (True, q\<lparr>cqData := d\<rparr>)"
    using cq_calm(1) [of q memory x] assms(1) l d(1) by (simp add: cq_ok_def qd_lists_def)
  ultimately show ?thesis by blast
qed

lemma mq_get_ok:
  assumes "cq_ok n q"
  shows "mq_get q = Inr (None, q) \<and> cq_content q = [] \<or>
    (\<exists>x xs q'. cq_content q = x # xs \<and> mq_get q = Inr (Some x, q') \<and> cq_ok n q' \<and> cq_content q' = xs)"
proof -
  obtain us es where l: "qd_lists n (cqData q) us es" and n: "n < 2 ^ 31" using assms(1) by (auto simp: cq_ok_def)
  note c = qd_content_lists [OF l n]
  have len: "qdUsing (cqData q) = word_of_nat (length us)" "length us < 2 ^ 31" using l n by (simp_all add: qd_lists_def)
  have size: "0 <s cq_size q \<longleftrightarrow> 0 < length us"
    by (rule cq_size_pos) (use assms len in \<open>simp_all add: cq_ok_def\<close>)
  show ?thesis
  proof (cases us)
    case Nil
    then show ?thesis using size c(1) by (simp add: mq_get_def cq_content_def)
  next
    case (Cons u us')
    let ?d = "snd (qd_pop_front (cqData q))"
    have p: "fst (qd_pop_front (cqData q)) = qdVal (cqData q) u" "qd_lists n ?d us' (es @ [u])" "qdVal ?d = qdVal (cqData q)"
      using qd_pop_lists [OF l [unfolded Cons]] by auto
    obtain x where x: "qdVal (cqData q) u = Some x" using l Cons by (auto simp: qd_lists_def)
    have "cq_pop_front q = Inr (fst (qd_pop_front (cqData q)), q\<lparr>cqData := ?d\<rparr>)"
      by (rule cq_calm(2)) (use assms l in \<open>simp_all add: cq_ok_def qd_lists_def\<close>)
    then have "mq_get q = Inr (Some x, q\<lparr>cqData := ?d\<rparr>)" using size Cons p(1) x by (simp add: mq_get_def)
    moreover have "cq_ok n (q\<lparr>cqData := ?d\<rparr>)" using assms p(2) by (auto simp: cq_ok_def)
    moreover have "cq_content q = x # map (\<lambda>a. the (qdVal (cqData q) a)) us'" using c(1) Cons x by (simp add: cq_content_def)
    moreover have "cq_content (q\<lparr>cqData := ?d\<rparr>) = map (\<lambda>a. the (qdVal (cqData q) a)) us'"
      using qd_content_lists(1) [OF p(2) n] p(3) by (simp add: cq_content_def)
    ultimately show ?thesis by blast
  qed
qed

interpretation cq: fifo "n - 1" "cq_ok n" cq_content "cq_push memory" mq_get for n memory
proof
  fix s :: "'a cx_queue" and x xs
  show "cq_ok n s \<Longrightarrow> length (cq_content s) < n - 1 \<Longrightarrow>
      \<exists>s'. cq_push memory x s = Inr (True, s') \<and> cq_ok n s' \<and> cq_content s' = cq_content s @ [x]"
    by (rule cq_push_ok)
  show "cq_ok n s \<Longrightarrow> cq_content s = [] \<Longrightarrow> \<exists>s'. mq_get s = Inr (None, s') \<and> cq_ok n s' \<and> cq_content s' = []"
    using mq_get_ok [of n s] by auto
  show "cq_ok n s \<Longrightarrow> cq_content s = x # xs \<Longrightarrow> \<exists>s'. mq_get s = Inr (Some x, s') \<and> cq_ok n s' \<and> cq_content s' = xs"
    using mq_get_ok [of n s] by auto
qed

lemma cq_init_ok:
  assumes "2 \<le> unat n" and "24 * unat n < 2 ^ 32"
  shows "\<exists>q :: 'a cx_queue. cq_init True n cq_new = Inr (0, q) \<and> cq_ok (unat n) q \<and> cq_content q = []"
proof -
  obtain d :: "'a queue_data" where d: "qd_init True n qd_new = Inr (0, d)" "qd_lists (unat n) d [] [0..<unat n]"
    using qd_init_lists [OF assms] by blast
  have "unat n < 2 ^ 31" using assms(2) by simp
  then have "cq_ok (unat n) (cq_new\<lparr>cqData := d, cqInited := True, cqInitSize := n\<rparr>)"
    "cq_content (cq_new\<lparr>cqData := d, cqInited := True, cqInitSize := n\<rparr>) = []"
    using d(2) qd_content_lists(1) [OF d(2)] by (auto simp: cq_ok_def cq_new_def qd_new_def cq_content_def)
  then show ?thesis using d(1) by (auto simp: cq_init_def cq_new_def)
qed

text \<open>
  C30: A queue that was initialised for \<open>n\<close> nodes and never holds more than \<open>n - 1\<close> elements gives back what
  was put into it, each once and in that order, without an error: the linked lists implement a queue.
\<close>

theorem queue_is_fifo:
  fixes ops :: "'a queue_op list"
  assumes "2 \<le> unat n" and "24 * unat n < 2 ^ 32" and "fits (unat n - 1) ops 0"
  shows "\<exists>q q'. cq_init True n cq_new = Inr (0, q) \<and>
    cq.run_queue memory ops q = Inr (fst (run_list ops []), q') \<and> cq_content q' = snd (run_list ops [])"
proof -
  obtain q :: "'a cx_queue" where q: "cq_init True n cq_new = Inr (0, q)" "cq_ok (unat n) q" "cq_content q = []"
    using cq_init_ok [OF assms(1,2)] by blast
  from cq.run_queue_spec [OF q(2), of ops memory] assms(3) q show ?thesis by auto
qed

theorem queue_is_fifo_witness:
  "\<exists>q q'. cq_init True 10240 cq_new = Inr (0, q) \<and>
     cq.run_queue False [Put ''a'', Put ''b'', Get, Get, Get, Put ''c'', Get] q = Inr ([Some ''a'', Some ''b'', None, Some ''c''], q')"
  using queue_is_fifo [of 10240 "[Put ''a'', Put ''b'', Get, Get, Get, Put ''c'', Get]" False]
  by (simp del: fifo.run_queue.simps) blast

section \<open>A list that was full\<close>

text \<open>
  When the last empty node is taken the end pointer of the empty list keeps pointing to it.  The nodes that are
  freed later are linked behind the last element and never become the head of an empty list: the nodes form one
  path that is rotated by each element taken out.
\<close>

definition qd_ring :: "nat \<Rightarrow> 'a queue_data \<Rightarrow> addr list \<Rightarrow> nat \<Rightarrow> bool" where
  "qd_ring n q us k \<longleftrightarrow> qdInited q \<and> path (qdNext q) (qdHead q) us \<and> distinct us \<and> length us = n \<and> 2 \<le> n \<and>
     qdEmptyHead q = None \<and> qdEmptyEnd q = Some (last us) \<and> (\<exists>e\<in>set us. qdEnd q = Some e) \<and> qdUsing q = word_of_nat k \<and>
     qdBlocks q = 1 \<and> (\<forall>a\<in>set us. a < qdTop q) \<and> unat (qdInitSize q) = n"

lemma qd_push_last:
  assumes "qd_lists n q us [a]" and "2 \<le> n"
  shows "\<exists>q'. qd_push memory x q = Inr (True, q') \<and> qd_ring n q' (us @ [a]) n \<and> qdVal q' = (qdVal q)(a := Some x)"
proof -
  have q: "qdInited q" "path (qdNext q) (qdHead q) us" "qdEmptyHead q = Some a" "qdNext q a = None" "distinct (us @ [a])"
    "qdEmptyEnd q = Some a" "qdEnd q = (if us = [] then None else Some (last us))" "qdUsing q = word_of_nat (length us)"
    "Suc (length us) = n" "qdBlocks q = 1" "\<forall>b\<in>set us. b < qdTop q" "a < qdTop q" "unat (qdInitSize q) = n"
    using assms by (simp_all add: qd_lists_def)
  have "us \<noteq> []" using q(9) assms(2) by auto
  then have ne: "us \<noteq> []" "last us \<noteq> a" using q(5) last_in_set [of us] by auto
  let ?q1 = "set_prev a None (set_next a None (q\<lparr>qdEmptyHead := None, qdVal := (qdVal q)(a := None), qdEmpty := qdEmpty q - 1\<rparr>))"
  let ?q2 = "(set_next (last us) (Some a) (set_prev a (Some (last us)) (?q1\<lparr>qdVal := (qdVal ?q1)(a := Some x)\<rparr>)))\<lparr>qdEnd := Some a\<rparr>"
  have "get_node memory q = Inr (Some a, ?q1)" using q by (simp add: get_node_def)
  then have "qd_push memory x q = Inr (True, ?q2\<lparr>qdUsing := qdUsing ?q2 + 1\<rparr>)"
    using q ne by (simp add: qd_push_def Let_def)
  moreover have "path (((qdNext q)(a := None))(last us := Some a)) (qdHead q) (us @ [a])"
    using q(2,5) ne(1) by (intro path_snoc) auto
  then have "qd_ring n (?q2\<lparr>qdUsing := qdUsing ?q2 + 1\<rparr>) (us @ [a]) n"
    using q ne assms(2) by (auto simp: qd_ring_def)
  ultimately show ?thesis by (intro exI [of _ "?q2\<lparr>qdUsing := qdUsing ?q2 + 1\<rparr>"]) (simp add: fun_eq_iff)
qed

lemma qd_pop_ring:
  assumes "qd_ring n q us (Suc k)"
  shows "fst (qd_pop_front q) = qdVal q (hd us) \<and> qd_ring n (snd (qd_pop_front q)) (rotate1 us) k \<and>
    qdVal (snd (qd_pop_front q)) = qdVal q"
proof -
  obtain u v vs where us: "us = u # v # vs" using assms by (cases us; cases "tl us") (auto simp: qd_ring_def)
  have q: "qdInited q" "qdHead q = Some u" "qdNext q u = Some v" "path (qdNext q) (Some v) (v # vs)" "distinct (v # vs @ [u])"
    "qdEmptyEnd q = Some (last (v # vs))"
    using assms us by (auto simp: qd_ring_def)
  have e: "last (v # vs) \<noteq> u" using q(5) by (metis distinct_append Un_iff append_Cons disjoint_iff last_in_set list.distinct(1) list.set_intros(1))
  have "path ((qdNext q)(u := None)) (Some v) (v # vs)" using q(4,5) by (subst path_update) auto
  then have "path (((qdNext q)(u := None))(last (v # vs) := Some u)) (Some v) ((v # vs) @ [u])"
    using q(5) e by (intro path_snoc) auto
  then show ?thesis using assms us q e by (auto simp: qd_pop_front_def free_node_def Let_def qd_ring_def)
qed

text \<open>The next element goes into a new block, and the head still points to the first node that was used.\<close>

lemma qd_push_ring:
  assumes "qd_ring n q us 0" and "24 * n < 2 ^ 32"
  shows "\<exists>q'. qd_push True x q = Inr (True, q') \<and> qdHead q' = Some (hd us) \<and> qdVal q' (hd us) = qdVal q (hd us) \<and>
    qdUsing q' = 1 \<and> qdBlocks q' = 2"
proof -
  have q: "qdInited q" "qdHead q = Some (hd us)" "2 \<le> n" "qdEmptyHead q = None" "qdUsing q = 0" "qdBlocks q = 1"
    "hd us < qdTop q" "unat (qdInitSize q) = n"
    using assms(1) by (cases us; simp add: qd_ring_def)+
  obtain e where e: "qdEnd q = Some e" using assms(1) by (auto simp: qd_ring_def)
  have s: "2 \<le> unat (qdInitSize q)" "24 * unat (qdInitSize q) < 2 ^ 32" using q assms(2) by simp_all
  from allocate_first [OF q(4) s] obtain q1 where a: "allocate_queue_block True q = Inr (0, q1)"
    and nx: "\<forall>a. qdNext q1 a = (if qdTop q \<le> a \<and> Suc a < qdTop q + unat (qdInitSize q) then Some (Suc a)
        else if a = qdTop q + unat (qdInitSize q) - 1 then None else qdNext q a)"
    and v: "\<forall>a. a < qdTop q \<longrightarrow> qdVal q1 a = qdVal q a"
    and f: "qdHead q1 = qdHead q" "qdEnd q1 = qdEnd q" "qdEmptyHead q1 = Some (qdTop q)" "qdUsing q1 = qdUsing q"
      "qdInited q1 = qdInited q" "qdBlocks q1 = qdBlocks q + 1"
    by (elim exE conjE)
  have nb: "qdNext q1 (qdTop q) = Some (Suc (qdTop q))" using nx q(3,8) by simp
  let ?b = "qdTop q"
  let ?q2 = "set_prev ?b None (set_next ?b None ((set_prev (Suc ?b) None (q1\<lparr>qdEmptyHead := Some (Suc ?b)\<rparr>))
      \<lparr>qdVal := (qdVal q1)(?b := None), qdEmpty := qdEmpty q1 - 1\<rparr>))"
  have g: "get_node True q = Inr (Some ?b, ?q2)" using q a f nb by (simp add: get_node_def set_prev_def)
  let ?q3 = "(set_next e (Some ?b) (set_prev ?b (Some e) (?q2\<lparr>qdVal := (qdVal ?q2)(?b := Some x)\<rparr>)))\<lparr>qdEnd := Some ?b\<rparr>"
  have "qd_push True x q = Inr (True, ?q3\<lparr>qdUsing := qdUsing ?q3 + 1\<rparr>)" using q g e f by (simp add: qd_push_def Let_def)
  then show ?thesis using q f v by auto
qed

text \<open>The same of the queue of a dispatcher.\<close>

definition cq_ring :: "nat \<Rightarrow> 'a cx_queue \<Rightarrow> addr list \<Rightarrow> nat \<Rightarrow> bool" where
  "cq_ring n q us k \<longleftrightarrow> cqInited q \<and> \<not> cqSwapping q \<and> qdUsing (cqBak q) = 0 \<and> n < 2 ^ 31 \<and> k \<le> n \<and> qd_ring n (cqData q) us k"

lemma cq_push_last:
  assumes "cq_ok n q" and "length (cq_content q) = n - 1" and "2 \<le> n"
  shows "\<exists>q' us. cq_push memory x q = Inr (True, q') \<and> cq_ring n q' us n \<and>
    map (qdVal (cqData q')) us = map Some (cq_content q @ [x])"
proof -
  obtain us es where l: "qd_lists n (cqData q) us es" and n: "n < 2 ^ 31" using assms(1) by (auto simp: cq_ok_def)
  note c = qd_content_lists [OF l n]
  have "length es = 1" using assms(2,3) c(1) l by (auto simp: cq_content_def qd_lists_def)
  then obtain a where es: "es = [a]" by (cases es) auto
  obtain d where d: "qd_push memory x (cqData q) = Inr (True, d)" "qd_ring n d (us @ [a]) n" "qdVal d = (qdVal (cqData q))(a := Some x)"
    using qd_push_last [OF l [unfolded es] assms(3)] by blast
  have "a \<notin> set us" using l es by (simp add: qd_lists_def)
  moreover have "\<forall>b\<in>set us. qdVal (cqData q) b \<noteq> None" using l by (simp add: qd_lists_def)
  ultimately have "map (qdVal d) (us @ [a]) = map Some (cq_content q @ [x])" using c(1) d(3) by (auto simp: cq_content_def)
  moreover have "cq_push memory x q = Inr (True, q\<lparr>cqData := d\<rparr>)"
    using cq_calm(1) [of q memory x] assms(1) l d(1) by (simp add: cq_ok_def qd_lists_def)
  moreover have "cq_ring n (q\<lparr>cqData := d\<rparr>) (us @ [a]) n" using assms(1) d(2) n by (simp add: cq_ring_def cq_ok_def)
  ultimately show ?thesis by (intro exI [of _ "q\<lparr>cqData := d\<rparr>"] exI [of _ "us @ [a]"]) simp
qed

lemma mq_get_ring:
  assumes "cq_ring n q us (Suc k)"
  shows "\<exists>q'. mq_get q = Inr (qdVal (cqData q) (hd us), q') \<and> cq_ring n q' (rotate1 us) k \<and> qdVal (cqData q') = qdVal (cqData q)"
proof -
  have r: "qd_ring n (cqData q) us (Suc k)" using assms by (simp add: cq_ring_def)
  have "0 <s cq_size q \<longleftrightarrow> 0 < Suc k"
    by (rule cq_size_pos) (use assms r in \<open>simp_all add: cq_ring_def qd_ring_def\<close>)
  moreover have "cq_pop_front q = Inr (fst (qd_pop_front (cqData q)), q\<lparr>cqData := snd (qd_pop_front (cqData q))\<rparr>)"
    by (rule cq_calm(2)) (use assms r in \<open>simp_all add: cq_ring_def qd_ring_def\<close>)
  ultimately show ?thesis using qd_pop_ring [OF r] assms by (simp add: mq_get_def cq_ring_def)
qed

lemma put_get_ring:
  assumes "cq_ring n q us 0" and "24 * n < 2 ^ 32"
  shows "\<exists>q1 q2. cq_push True x q = Inr (True, q1) \<and> mq_get q1 = Inr (qdVal (cqData q) (hd us), q2)"
proof -
  have r: "qd_ring n (cqData q) us 0" using assms by (simp add: cq_ring_def)
  obtain d where d: "qd_push True x (cqData q) = Inr (True, d)" "qdHead d = Some (hd us)"
    "qdVal d (hd us) = qdVal (cqData q) (hd us)" "qdUsing d = 1" "qdBlocks d = 2"
    using qd_push_ring [OF r assms(2)] by blast
  have "cq_push True x q = Inr (True, q\<lparr>cqData := d\<rparr>)"
    using cq_calm(1) [of q True x] assms(1) r d(1) by (simp add: cq_ring_def qd_ring_def)
  moreover have "0 <s cq_size (q\<lparr>cqData := d\<rparr>)" using assms(1) d(4) by (simp add: cq_size_def cq_ring_def word_sless_alt)
  moreover have "cq_pop_front (q\<lparr>cqData := d\<rparr>) = Inr (fst (qd_pop_front d), q\<lparr>cqData := snd (qd_pop_front d)\<rparr>)"
    using cq_calm(2) [of "q\<lparr>cqData := d\<rparr>"] assms(1) d(5) by (simp add: cq_ring_def)
  moreover have "fst (qd_pop_front d) = qdVal (cqData q) (hd us)" using d(2,3) by (simp add: qd_pop_front_def Let_def)
  ultimately show ?thesis by (simp add: mq_get_def)
qed

lemma gets_ring:
  "cq_ring n q us k \<Longrightarrow> us \<noteq> [] \<Longrightarrow>
   \<exists>q'. cq.run_queue memory (replicate k Get) q = Inr (map (qdVal (cqData q)) (map (\<lambda>i. us ! (i mod length us)) [0..<k]), q') \<and>
     cq_ring n q' (rotate k us) 0 \<and> qdVal (cqData q') = qdVal (cqData q)"
proof (induction k arbitrary: q us)
  case 0
  then show ?case by simp
next
  case (Suc k)
  obtain q1 where q1: "mq_get q = Inr (qdVal (cqData q) (hd us), q1)" "cq_ring n q1 (rotate1 us) k" "qdVal (cqData q1) = qdVal (cqData q)"
    using mq_get_ring [OF Suc.prems(1)] by blast
  have "rotate1 us \<noteq> []" using Suc.prems(2) by simp
  from Suc.IH [OF q1(2) this] obtain q2 where
    "cq.run_queue memory (replicate k Get) q1 = Inr (map (qdVal (cqData q)) (map (\<lambda>i. rotate1 us ! (i mod length us)) [0..<k]), q2)"
    "cq_ring n q2 (rotate k (rotate1 us)) 0" "qdVal (cqData q2) = qdVal (cqData q)"
    unfolding q1(3) by auto
  moreover have "rotate1 us ! (i mod length us) = us ! (Suc i mod length us)" for i
    using Suc.prems(2) by (simp add: nth_rotate1 mod_Suc_eq)
  moreover have "map (\<lambda>i. us ! (i mod length us)) [0..<Suc k] = hd us # map (\<lambda>i. us ! (Suc i mod length us)) [0..<k]"
    using Suc.prems(2) by (simp add: upt_conv_Cons hd_conv_nth map_Suc_upt [symmetric] del: upt_Suc)
  ultimately show ?case using q1 by (simp add: rotate_Suc rotate1_rotate_swap)
qed

text \<open>
  C31: When a queue initialised for \<open>n\<close> nodes is filled with \<open>n\<close> elements and emptied again, the next element put
  into it is not the next one taken out: the queue gives the oldest element a second time.
\<close>

theorem full_queue_returns_old:
  fixes xs :: "'a list"
  assumes "2 \<le> unat n" and "24 * unat n < 2 ^ 32" and "length xs = unat n"
  shows "\<exists>q q'. cq_init True n cq_new = Inr (0, q) \<and>
    cq.run_queue True (map Put xs @ replicate (unat n) Get @ [Put y, Get]) q = Inr (map Some xs @ [Some (hd xs)], q')"
proof -
  obtain q :: "'a cx_queue" where q: "cq_init True n cq_new = Inr (0, q)" "cq_ok (unat n) q" "cq_content q = []"
    using cq_init_ok [OF assms(1,2)] by blast
  have xs: "xs = butlast xs @ [last xs]" using assms(1,3) by (cases xs rule: rev_cases) auto
  have puts: "run_list (map Put zs) cs = ([], cs @ zs)" "fits c (map Put zs) m \<longleftrightarrow> zs = [] \<or> m + length zs \<le> c"
    for zs cs :: "'a list" and c m by (induction zs arbitrary: cs m) auto
  obtain q1 where q1: "cq.run_queue True (map Put (butlast xs)) q = Inr ([], q1)" "cq_ok (unat n) q1" "cq_content q1 = butlast xs"
    using cq.run_queue_spec [OF q(2), of "map Put (butlast xs)" True] assms(3) q(3) by (auto simp: puts)
  obtain q2 us where q2: "cq_push True (last xs) q1 = Inr (True, q2)" "cq_ring (unat n) q2 us (unat n)"
    "map (qdVal (cqData q2)) us = map Some (butlast xs @ [last xs])"
    using cq_push_last [OF q1(2) _ assms(1)] q1(3) assms(3) by fastforce
  have us: "length us = unat n" "us \<noteq> []" using q2(2) assms(1) by (auto simp: cq_ring_def qd_ring_def)
  obtain q3 where q3: "cq.run_queue True (replicate (unat n) Get) q2 =
      Inr (map (qdVal (cqData q2)) (map (\<lambda>i. us ! (i mod length us)) [0..<unat n]), q3)"
    "cq_ring (unat n) q3 us 0" "qdVal (cqData q3) = qdVal (cqData q2)"
    using gets_ring [OF q2(2) us(2), of True] us(1) by auto
  have "map (\<lambda>i. us ! (i mod length us)) [0..<unat n] = us" using us(1) by (intro nth_equalityI) auto
  then have gets: "cq.run_queue True (replicate (unat n) Get) q2 = Inr (map Some xs, q3)" using q3(1) q2(3) xs by simp
  obtain q4 q5 where q4: "cq_push True y q3 = Inr (True, q4)" "mq_get q4 = Inr (qdVal (cqData q3) (hd us), q5)"
    using put_get_ring [OF q3(2) assms(2)] by blast
  have "map (qdVal (cqData q2)) us = map Some xs" using q2(3) xs by simp
  then have old: "qdVal (cqData q3) (hd us) = Some (hd xs)" using us(2) q3(3) by (cases us; cases xs) auto
  have "map Put xs = map Put (butlast xs) @ [Put (last xs)]" using xs by (metis list.simps(8,9) map_append)
  then have "map Put xs @ replicate (unat n) Get @ [Put y, Get] =
      map Put (butlast xs) @ ([Put (last xs)] @ (replicate (unat n) Get @ [Put y, Get]))" by simp
  then have "cq.run_queue True (map Put xs @ replicate (unat n) Get @ [Put y, Get]) q = Inr (map Some xs @ [Some (hd xs)], q5)"
    using q1(1) q2(1) gets q4 old by (simp add: cq.run_queue_append)
  then show ?thesis using q(1) by blast
qed

theorem full_queue_returns_old_witness:
  "\<exists>q q'. cq_init True 2 cq_new = Inr (0, q) \<and>
     cq.run_queue True [Put ''a'', Put ''b'', Get, Get, Put ''c'', Get] q = Inr ([Some ''a'', Some ''b'', Some ''a''], q')"
proof -
  have "unat (2 :: u32) = 2" by simp
  then have "replicate (unat (2 :: u32)) (Get :: string queue_op) = [Get, Get]"
    by (simp only: numeral_2_eq_2 replicate_Suc replicate_0)
  with full_queue_returns_old [of 2 "[''a'', ''b'']" "''c''"] show ?thesis
    by (simp del: fifo.run_queue.simps)
qed

end
