(* ===== verification/Data_Parser.thy ===== *)
theory Data_Parser imports Main Prelude Packet begin

text \<open>
  \<open>CXFastDataParserHandle\<close> (src/CXDataParser/src/CXFastDataParserHandle.cpp): compressing and encrypting the body
  of a packet, and the way back.  Crypto++ and snappy are parameters: what their functions return on an input, or
  that they throw.  Buffers are lists as long as the memory they stand for, so a result that is longer than its
  buffer shows.
\<close>

section \<open>The libraries\<close>

text \<open>
  RSA: whether a key can be decoded, the longest text of one block, the length of its cipher text, a block
  encrypted (with the position as the state of the random pool); for a private key the length of a block, how
  many bytes it can hold, and the decoded block, which may be invalid.  EAX with Blowfish under a key and an
  initial vector.  The two deflate formats with the number of bytes not consumed.  Snappy.
\<close>

record crypto =
  crKeyOk :: "string \<Rightarrow> bool"
  crMaxPlain :: "string \<Rightarrow> nat"
  crCipherLen :: "string \<Rightarrow> nat \<Rightarrow> nat"
  crEncrypt :: "string \<Rightarrow> nat \<Rightarrow> byte list \<Rightarrow> byte list option"
  crFixedCipher :: "string \<Rightarrow> nat"
  crMaxDecoded :: "string \<Rightarrow> nat \<Rightarrow> nat"
  crDecrypt :: "string \<Rightarrow> byte list \<Rightarrow> byte list option option"
  crSeal :: "byte list \<Rightarrow> byte list \<Rightarrow> byte list \<Rightarrow> byte list option"
  crUnseal :: "byte list \<Rightarrow> byte list \<Rightarrow> byte list \<Rightarrow> byte list option"
  crGzip :: "byte list \<Rightarrow> (byte list \<times> nat) option"
  crGunzip :: "byte list \<Rightarrow> (byte list \<times> nat) option"
  crZlib :: "byte list \<Rightarrow> (byte list \<times> nat) option"
  crUnzlib :: "byte list \<Rightarrow> (byte list \<times> nat) option"
  crSnappy :: "byte list \<Rightarrow> byte list"
  crSnappyLen :: "byte list \<Rightarrow> nat option"
  crUnsnappy :: "byte list \<Rightarrow> byte list option"

section \<open>The keys\<close>

record data_parser =
  dpPubKey :: string
  dpPrivKey :: string
  dpKey :: "byte list"
  dpIv :: "byte list"
  dpKeyLen :: nat
  dpIvLen :: nat

definition data_parser_new :: data_parser where
  "data_parser_new = \<lparr>dpPubKey = '''', dpPrivKey = '''', dpKey = replicate 128 0, dpIv = replicate 128 0,
     dpKeyLen = 0, dpIvLen = 0\<rparr>"

text \<open>A key is set also when the initial vector is refused.\<close>

definition set_blowfish_info :: "byte list option \<Rightarrow> byte list option \<Rightarrow> data_parser \<Rightarrow> bool \<times> data_parser" where
  "set_blowfish_info ok ov p =
     (case (ok, ov) of
        (Some k, Some v) \<Rightarrow>
          if k = [] \<or> v = [] then (False, p)
          else if 128 < length k then (False, p)
          else
            let p = p\<lparr>dpKey := memcpy (dpKey p) 0 k, dpKeyLen := length k\<rparr>
            in if 128 < length v then (False, p)
               else (True, p\<lparr>dpIv := memcpy (dpIv p) 0 v, dpIvLen := length v\<rparr>)
      | _ \<Rightarrow> (False, p))"

text \<open>
  Reading a key file.  Its parts are appended as C strings; a part that fills the array has no terminator.
  The number of bytes read so far is never advanced, so the loop ends at the end of the file.
\<close>

function read_key_loop :: "nat \<Rightarrow> byte list \<Rightarrow> string \<Rightarrow> string res" where
  "read_key_loop once rest acc =
     (let n = min once (length rest); buf = take n rest @ replicate (CX_BUF_SIZE - n) 0
      in if n = 0 then Inr acc
         else if 0 \<notin> set buf then Inl OutOfBounds
         else read_key_loop once (drop n rest) (acc @ map (\<lambda>b. char_of (unat b)) (takeWhile (\<lambda>b. b \<noteq> 0) buf)))"
  by auto
termination by (relation "measure (\<lambda>(once, rest, acc). length rest)") auto

declare read_key_loop.simps [simp del]

definition read_key_file :: "(string \<Rightarrow> byte list option) \<Rightarrow> string \<Rightarrow> string option res" where
  "read_key_file files name =
     (case files name of
        None \<Rightarrow> Inr None
      | Some bs \<Rightarrow> bind_res (read_key_loop (min CX_BUF_SIZE (length bs)) bs []) (\<lambda>k. Inr (Some k)))"

definition load_rsa_key_files :: "(string \<Rightarrow> byte list option) \<Rightarrow> string \<Rightarrow> string \<Rightarrow> data_parser \<Rightarrow> (bool \<times> data_parser) res" where
  "load_rsa_key_files files priv pub p =
     bind_res (if priv = [] then Inr (True, p)
               else bind_res (read_key_file files priv) (\<lambda>ok. Inr (case ok of
                  None \<Rightarrow> (False, p\<lparr>dpPrivKey := []\<rparr>)
                | Some k \<Rightarrow> (True, p\<lparr>dpPrivKey := k\<rparr>)))) (\<lambda>(ok, p).
       if \<not> ok then Inr (False, p)
       else if pub = [] then Inr (True, p)
       else bind_res (read_key_file files pub) (\<lambda>ok. Inr (case ok of
              None \<Rightarrow> (False, p\<lparr>dpPubKey := []\<rparr>)
            | Some k \<Rightarrow> (True, p\<lparr>dpPubKey := k\<rparr>))))"

definition load_blowfish_key_files :: "(string \<Rightarrow> byte list option) \<Rightarrow> string \<Rightarrow> string \<Rightarrow> data_parser \<Rightarrow> bool \<times> data_parser" where
  "load_blowfish_key_files files key iv p =
     (let (ok, p) = (if key = [] then (True, p)
                     else case files key of
                       None \<Rightarrow> (False, p)
                     | Some k \<Rightarrow> if 128 < length k then (False, p)
                                 else (True, p\<lparr>dpKey := memcpy (dpKey p) 0 k, dpKeyLen := length k\<rparr>))
      in if \<not> ok then (False, p)
         else if iv = [] then (True, p)
         else case files iv of
           None \<Rightarrow> (False, p)
         | Some v \<Rightarrow> if 128 < length v then (False, p)
                     else (True, p\<lparr>dpIv := memcpy (dpIv p) 0 v, dpIvLen := length v\<rparr>))"

section \<open>RSA in blocks\<close>

text \<open>
  The loops run over the input in steps of the length of a block; a key for which that length is 0 makes the
  first one run until the output is full, or for ever.  The result is the code, the number of bytes in the output
  and the output.
\<close>

partial_function (option) rsa_encrypt_loop ::
  "crypto \<Rightarrow> string \<Rightarrow> byte list \<Rightarrow> nat \<Rightarrow> nat \<Rightarrow> byte list \<Rightarrow> (int \<times> nat \<times> byte list) res option" where
  "rsa_encrypt_loop cr key inp i used out =
     (if i < length inp then
        let n = min (crMaxPlain cr key) (length inp - i); outLen = crCipherLen cr key n
        in if length out - used < outLen then Some (Inr (- 2, length out, out))
           else case crEncrypt cr key i (take n (drop i inp)) of
             None \<Rightarrow> Some (Inr (- 3, length out, out))
           | Some c \<Rightarrow> (case put_at out used c of
               Inl e \<Rightarrow> Some (Inl e)
             | Inr out \<Rightarrow> rsa_encrypt_loop cr key inp (i + crMaxPlain cr key) (used + outLen) out)
      else Some (Inr (0, used, out)))"

definition rsa_encrypt :: "crypto \<Rightarrow> string \<Rightarrow> byte list \<Rightarrow> byte list \<Rightarrow> (int \<times> nat \<times> byte list) res option" where
  "rsa_encrypt cr key inp out =
     (if \<not> crKeyOk cr key then Some (Inr (- 3, length out, out)) else rsa_encrypt_loop cr key inp 0 0 out)"

text \<open>A decoded block is written before its length is compared.\<close>

partial_function (option) rsa_decrypt_loop ::
  "crypto \<Rightarrow> string \<Rightarrow> byte list \<Rightarrow> nat \<Rightarrow> nat \<Rightarrow> byte list \<Rightarrow> (int \<times> nat \<times> byte list) res option" where
  "rsa_decrypt_loop cr key inp i used out =
     (if i < length inp then
        let n = min (crFixedCipher cr key) (length inp - i); outLen = crMaxDecoded cr key n
        in if length out - used < outLen then Some (Inr (- 2, length out, out))
           else case crDecrypt cr key (take n (drop i inp)) of
             None \<Rightarrow> Some (Inr (- 3, length out, out))
           | Some None \<Rightarrow> Some (Inr (- 4, length out, out))
           | Some (Some m) \<Rightarrow> (case put_at out used m of
               Inl e \<Rightarrow> Some (Inl e)
             | Inr out \<Rightarrow>
                 if outLen < length m then Some (Inr (- 5, length out, out))
                 else rsa_decrypt_loop cr key inp (i + crFixedCipher cr key) (used + length m) out)
      else Some (Inr (0, used, out)))"

definition rsa_decrypt :: "crypto \<Rightarrow> string \<Rightarrow> byte list \<Rightarrow> byte list \<Rightarrow> (int \<times> nat \<times> byte list) res option" where
  "rsa_decrypt cr key inp out =
     (if \<not> crKeyOk cr key then Some (Inr (- 3, length out, out)) else rsa_decrypt_loop cr key inp 0 0 out)"

section \<open>Blowfish and the compressors\<close>

text \<open>An \<open>ArraySink\<close> keeps what fits and counts all bytes put; the count is stored in 32 bits.\<close>

definition dword :: "nat \<Rightarrow> nat" where
  "dword n = n mod 2 ^ 32"

definition array_sink :: "byte list \<Rightarrow> byte list \<Rightarrow> nat \<times> byte list" where
  "array_sink bs out = (dword (length bs), memcpy out 0 (take (length out) bs))"

definition blowfish :: "(byte list \<Rightarrow> byte list \<Rightarrow> byte list \<Rightarrow> byte list option) \<Rightarrow> data_parser \<Rightarrow>
    byte list \<Rightarrow> byte list \<Rightarrow> int \<times> nat \<times> byte list" where
  "blowfish f p inp out =
     (if dpKeyLen p = 0 \<or> dpIvLen p = 0 \<or> inp = [] \<or> out = [] then (- 1, length out, out)
      else case f (take (dpKeyLen p) (dpKey p)) (take (dpIvLen p) (dpIv p)) inp of
        None \<Rightarrow> (- 2, length out, out)
      | Some bs \<Rightarrow> (0, array_sink bs out))"

definition blowfish_encrypt :: "crypto \<Rightarrow> data_parser \<Rightarrow> byte list \<Rightarrow> byte list \<Rightarrow> int \<times> nat \<times> byte list" where
  "blowfish_encrypt cr = blowfish (crSeal cr)"

definition blowfish_decrypt :: "crypto \<Rightarrow> data_parser \<Rightarrow> byte list \<Rightarrow> byte list \<Rightarrow> int \<times> nat \<times> byte list" where
  "blowfish_decrypt cr = blowfish (crUnseal cr)"

text \<open>\<open>GzipCompressData\<close> and \<open>ZlibCompressData\<close>: the output has to be longer than the result.\<close>

definition deflate :: "(byte list \<Rightarrow> (byte list \<times> nat) option) \<Rightarrow> byte list \<Rightarrow> byte list \<Rightarrow> bool \<times> nat \<times> byte list" where
  "deflate f inp out =
     (case f inp of
        None \<Rightarrow> (False, length out, out)
      | Some (c, remaining) \<Rightarrow>
          if 0 < remaining then (False, length out, out)
          else if 0 < length c \<and> length c < length out then (True, length c, memcpy out 0 c)
          else (False, length out, out))"

definition inflate :: "(byte list \<Rightarrow> (byte list \<times> nat) option) \<Rightarrow> byte list \<Rightarrow> byte list \<Rightarrow> bool \<times> nat \<times> byte list" where
  "inflate f inp out =
     (case f inp of
        None \<Rightarrow> (False, length out, out)
      | Some (bs, remaining) \<Rightarrow>
          case array_sink bs out of (n, out) \<Rightarrow> (\<not> (n = 0 \<or> 0 < remaining), n, out))"

text \<open>Snappy writes its result without a bound.\<close>

definition snappy_compress :: "crypto \<Rightarrow> byte list \<Rightarrow> byte list \<Rightarrow> (bool \<times> nat \<times> byte list) res" where
  "snappy_compress cr inp out = bind_res (put_at out 0 (crSnappy cr inp)) (\<lambda>out. Inr (True, dword (length (crSnappy cr inp)), out))"

definition snappy_uncompress :: "crypto \<Rightarrow> byte list \<Rightarrow> byte list \<Rightarrow> (bool \<times> nat \<times> byte list) res" where
  "snappy_uncompress cr inp out =
     (case crSnappyLen cr inp of
        None \<Rightarrow> Inr (False, length out, out)
      | Some n \<Rightarrow>
          if length out < n then Inr (False, length out, out)
          else case crUnsnappy cr inp of
            None \<Rightarrow> Inr (False, length out, out)
          | Some bs \<Rightarrow> bind_res (put_at out 0 bs) (\<lambda>out. Inr (True, n, out)))"

section \<open>PrepareData and ParseData\<close>

definition CXENCRYPT_TYPE_RSA_PKCS1v15 :: byte where "CXENCRYPT_TYPE_RSA_PKCS1v15 = 0x81"
definition CXENCRYPT_TYPE_RSA_OAEP :: byte where "CXENCRYPT_TYPE_RSA_OAEP = 0x82"
definition CXENCRYPT_TYPE_BLOWFISH :: byte where "CXENCRYPT_TYPE_BLOWFISH = 0x83"
definition CXCOMPRESS_TYPE_GZIP :: byte where "CXCOMPRESS_TYPE_GZIP = 0x81"
definition CXCOMPRESS_TYPE_SNAPPY :: byte where "CXCOMPRESS_TYPE_SNAPPY = 0x82"
definition CXCOMPRESS_TYPE_ZLIB :: byte where "CXCOMPRESS_TYPE_ZLIB = 0x83"

lemmas codec_types = CXENCRYPT_TYPE_RSA_PKCS1v15_def CXENCRYPT_TYPE_RSA_OAEP_def CXENCRYPT_TYPE_BLOWFISH_def
  CXCOMPRESS_TYPE_GZIP_def CXCOMPRESS_TYPE_SNAPPY_def CXCOMPRESS_TYPE_ZLIB_def

text \<open>The switches.  A type that is not known succeeds with no bytes.\<close>

definition compress_step :: "crypto \<Rightarrow> byte \<Rightarrow> byte list \<Rightarrow> byte list \<Rightarrow> (bool \<times> nat \<times> byte list) res" where
  "compress_step cr z inp out =
     (if z = CXCOMPRESS_TYPE_GZIP then Inr (deflate (crGzip cr) inp out)
      else if z = CXCOMPRESS_TYPE_SNAPPY then snappy_compress cr inp out
      else if z = CXCOMPRESS_TYPE_ZLIB then Inr (deflate (crZlib cr) inp out)
      else Inr (True, 0, out))"

definition uncompress_step :: "crypto \<Rightarrow> byte \<Rightarrow> byte list \<Rightarrow> byte list \<Rightarrow> (bool \<times> nat \<times> byte list) res" where
  "uncompress_step cr z inp out =
     (if z = CXCOMPRESS_TYPE_GZIP then Inr (inflate (crGunzip cr) inp out)
      else if z = CXCOMPRESS_TYPE_SNAPPY then snappy_uncompress cr inp out
      else if z = CXCOMPRESS_TYPE_ZLIB then Inr (inflate (crUnzlib cr) inp out)
      else Inr (True, 0, out))"

definition succeeded :: "(int \<times> nat \<times> byte list) res option \<Rightarrow> (bool \<times> nat \<times> byte list) res option" where
  "succeeded r = map_option (\<lambda>r. bind_res r (\<lambda>(ret, n, out). Inr (ret = 0, n, out))) r"

definition encrypt_step :: "crypto \<Rightarrow> data_parser \<Rightarrow> byte \<Rightarrow> byte list \<Rightarrow> byte list \<Rightarrow> (bool \<times> nat \<times> byte list) res option" where
  "encrypt_step cr p e inp out =
     (if e = CXENCRYPT_TYPE_RSA_PKCS1v15 \<or> e = CXENCRYPT_TYPE_RSA_OAEP then succeeded (rsa_encrypt cr (dpPubKey p) inp out)
      else if e = CXENCRYPT_TYPE_BLOWFISH then succeeded (Some (Inr (blowfish_encrypt cr p inp out)))
      else Some (Inr (True, 0, out)))"

text \<open>For the OAEP type the data are decrypted with the public key.\<close>

definition decrypt_step :: "crypto \<Rightarrow> data_parser \<Rightarrow> byte \<Rightarrow> byte list \<Rightarrow> byte list \<Rightarrow> (bool \<times> nat \<times> byte list) res option" where
  "decrypt_step cr p e inp out =
     (if e = CXENCRYPT_TYPE_RSA_PKCS1v15 then succeeded (rsa_decrypt cr (dpPrivKey p) inp out)
      else if e = CXENCRYPT_TYPE_RSA_OAEP then succeeded (rsa_decrypt cr (dpPubKey p) inp out)
      else if e = CXENCRYPT_TYPE_BLOWFISH then succeeded (Some (Inr (blowfish_decrypt cr p inp out)))
      else Some (Inr (True, 0, out)))"

text \<open>
  The first step writes to the destination, or to the cache when a second one follows; the second one reads as
  many bytes as the first one reported.  The results are whether it succeeded, the length reported and the
  destination; a step that fails ends the function with the length 0.
\<close>

definition last_step :: "(bool \<times> nat \<times> byte list) res option \<Rightarrow> (bool \<times> nat \<times> byte list) res option" where
  "last_step r = map_option (\<lambda>r. bind_res r (\<lambda>(ok, n, out). Inr (ok, if ok then n else 0, out))) r"

definition read_front :: "nat \<Rightarrow> byte list \<Rightarrow> byte list res" where
  "read_front n buf = (if length buf < n then Inl OutOfBounds else Inr (take n buf))"

definition first_step :: "(bool \<times> nat \<times> byte list) res option \<Rightarrow> byte list \<Rightarrow>
    (byte list \<Rightarrow> (bool \<times> nat \<times> byte list) res option) \<Rightarrow> (bool \<times> nat \<times> byte list) res option" where
  "first_step r dest f =
     (case r of
        None \<Rightarrow> None
      | Some (Inl e) \<Rightarrow> Some (Inl e)
      | Some (Inr (ok, n, cache)) \<Rightarrow>
          if \<not> ok then Some (Inr (False, 0, dest))
          else case read_front n cache of Inl e \<Rightarrow> Some (Inl e) | Inr inp \<Rightarrow> f inp)"

definition prepare_data :: "crypto \<Rightarrow> data_parser \<Rightarrow> byte \<Rightarrow> byte \<Rightarrow> byte list \<Rightarrow> byte list \<Rightarrow> byte list \<Rightarrow>
    (bool \<times> nat \<times> byte list) res option" where
  "prepare_data cr p e z src dest cache =
     (let encrypt = (\<lambda>inp. if length dest < length inp then Some (Inr (False, 0, dest))
                           else last_step (encrypt_step cr p e inp dest))
      in if z \<noteq> 0 then
           if length cache < length src then Some (Inr (False, 0, dest))
           else if e = 0 then last_step (Some (compress_step cr z src dest))
           else first_step (Some (compress_step cr z src cache)) dest encrypt
         else if e \<noteq> 0 then encrypt src
         else Some (Inr (True, length dest, dest)))"

definition parse_data :: "crypto \<Rightarrow> data_parser \<Rightarrow> byte \<Rightarrow> byte \<Rightarrow> byte list \<Rightarrow> byte list \<Rightarrow> byte list \<Rightarrow>
    (bool \<times> nat \<times> byte list) res option" where
  "parse_data cr p e z src dest cache =
     (let uncompress = (\<lambda>inp. last_step (Some (uncompress_step cr z inp dest)))
      in if e \<noteq> 0 then
           if z = 0 then last_step (decrypt_step cr p e src dest)
           else first_step (decrypt_step cr p e src cache) dest uncompress
         else if z \<noteq> 0 then uncompress src
         else Some (Inr (True, length dest, dest)))"

end
