(* ===== verification/Data_Parser_Correct.thy ===== *)
theory Data_Parser_Correct imports Main Data_Parser begin

text \<open>
  What the libraries promise, and that \<open>ParseData\<close> undoes \<open>PrepareData\<close> under these promises.
\<close>

section \<open>The promises of the libraries\<close>

definition rsa_pair :: "crypto \<Rightarrow> string \<Rightarrow> string \<Rightarrow> bool" where
  "rsa_pair cr pub priv \<longleftrightarrow> crKeyOk cr pub \<and> crKeyOk cr priv \<and> 0 < crMaxPlain cr pub \<and> 0 < crFixedCipher cr priv \<and>
     crMaxPlain cr pub \<le> crMaxDecoded cr priv (crFixedCipher cr priv) \<and>
     (\<forall>n. 0 < n \<and> n \<le> crMaxPlain cr pub \<longrightarrow> crCipherLen cr pub n = crFixedCipher cr priv) \<and>
     (\<forall>i m. m \<noteq> [] \<and> length m \<le> crMaxPlain cr pub \<longrightarrow> (\<exists>c. crEncrypt cr pub i m = Some c \<and>
        length c = crFixedCipher cr priv \<and> crDecrypt cr priv c = Some (Some m)))"

definition seal_ok :: "crypto \<Rightarrow> bool" where
  "seal_ok cr \<longleftrightarrow> (\<forall>k v bs. bs \<noteq> [] \<longrightarrow> (\<exists>c. crSeal cr k v bs = Some c \<and> length c = length bs + 8 \<and> crUnseal cr k v c = Some bs))"

definition lossless :: "(byte list \<Rightarrow> (byte list \<times> nat) option) \<Rightarrow> (byte list \<Rightarrow> (byte list \<times> nat) option) \<Rightarrow> bool" where
  "lossless f g \<longleftrightarrow> (\<forall>bs. bs \<noteq> [] \<longrightarrow> (\<exists>c. f bs = Some (c, 0) \<and> c \<noteq> [] \<and> g c = Some (bs, 0)))"

definition snappy_ok :: "crypto \<Rightarrow> bool" where
  "snappy_ok cr \<longleftrightarrow> (\<forall>bs. bs \<noteq> [] \<longrightarrow> crSnappy cr bs \<noteq> [] \<and> crSnappyLen cr (crSnappy cr bs) = Some (length bs) \<and>
     crUnsnappy cr (crSnappy cr bs) = Some bs)"

text \<open>The two ends use the same keys.\<close>

definition same_keys :: "crypto \<Rightarrow> data_parser \<Rightarrow> data_parser \<Rightarrow> bool" where
  "same_keys cr p q \<longleftrightarrow> rsa_pair cr (dpPubKey p) (dpPrivKey q) \<and> 0 < dpKeyLen p \<and> 0 < dpIvLen p \<and>
     dpKeyLen q = dpKeyLen p \<and> dpIvLen q = dpIvLen p \<and> dpKey q = dpKey p \<and> dpIv q = dpIv p"

definition crypto_ok :: "crypto \<Rightarrow> bool" where
  "crypto_ok cr \<longleftrightarrow> seal_ok cr \<and> lossless (crGzip cr) (crGunzip cr) \<and> lossless (crZlib cr) (crUnzlib cr) \<and> snappy_ok cr"

section \<open>RSA\<close>

text \<open>The cipher text as a function of the text, block by block.\<close>

function rsa_cipher :: "crypto \<Rightarrow> string \<Rightarrow> nat \<Rightarrow> byte list \<Rightarrow> byte list" where
  "rsa_cipher cr key i bs =
     (if bs = [] \<or> crMaxPlain cr key = 0 then []
      else the (crEncrypt cr key i (take (crMaxPlain cr key) bs)) @
        rsa_cipher cr key (i + crMaxPlain cr key) (drop (crMaxPlain cr key) bs))"
  by auto
termination by (relation "measure (\<lambda>(cr, key, i, bs). length bs)") (auto intro!: diff_less)

declare rsa_cipher.simps [simp del]

lemma memcpy_memcpy:
  "u + length a + length b \<le> length out \<Longrightarrow> memcpy (memcpy out u a) (u + length a) b = memcpy out u (a @ b)"
  by (simp add: memcpy_def min_absorb1 min_absorb2 ac_simps)

lemma memcpy_Nil [simp]: "memcpy out u [] = out"
  by (simp add: memcpy_def)

text \<open>Each call of the encryption loop ends, with the whole cipher text or without room for it.\<close>

lemma rsa_encrypt_loop_spec:
  assumes "rsa_pair cr key priv" and "u \<le> length out"
  shows "\<exists>out'. rsa_encrypt_loop cr key inp i u out =
      (let c = rsa_cipher cr key i (drop i inp)
       in if u + length c \<le> length out then Some (Inr (0, u + length c, memcpy out u c))
          else Some (Inr (- 2, length out, out'))) \<and> length out' = length out"
  using assms(2)
proof (induction "length inp - i" arbitrary: i u out rule: less_induct)
  case less
  let ?m = "crMaxPlain cr key"
  have m: "0 < ?m" using assms(1) by (simp add: rsa_pair_def)
  show ?case
  proof (cases "i < length inp")
    case False
    then show ?thesis using less.prems
      by (intro exI [of _ out]) (simp add: rsa_encrypt_loop.simps [of cr key inp i] rsa_cipher.simps [of cr key i])
  next
    case True
    let ?n = "min ?m (length inp - i)"
    have n: "0 < ?n" "?n \<le> ?m" using m True by auto
    have blk: "take ?n (drop i inp) = take ?m (drop i inp)" by (simp add: min_def)
    have "take ?m (drop i inp) \<noteq> []" "length (take ?m (drop i inp)) \<le> ?m" using m True by auto
    then obtain c where c: "crEncrypt cr key i (take ?m (drop i inp)) = Some c" "length c = crFixedCipher cr priv"
      using assms(1) unfolding rsa_pair_def by blast
    have len: "crCipherLen cr key ?n = length c" using assms(1) n c(2) unfolding rsa_pair_def by metis
    have C: "rsa_cipher cr key i (drop i inp) = c @ rsa_cipher cr key (i + ?m) (drop (i + ?m) inp)"
      using m True c(1) by (simp add: rsa_cipher.simps [of cr key i] add.commute)
    show ?thesis
    proof (cases "u + length c \<le> length out")
      case False
      have "length out - u < length c" using False less.prems by linarith
      then have "rsa_encrypt_loop cr key inp i u out = Some (Inr (- 2, length out, out))"
        using True len by (subst rsa_encrypt_loop.simps) (simp add: Let_def)
      then show ?thesis using False C by (intro exI [of _ out]) (simp add: Let_def)
    next
      case fits: True
      then have room: "\<not> length out - u < length c" by linarith
      let ?out = "memcpy out u c"
      have step: "rsa_encrypt_loop cr key inp i u out = rsa_encrypt_loop cr key inp (i + ?m) (u + length c) ?out"
        using fits room True len c(1) by (subst rsa_encrypt_loop.simps) (simp add: Let_def blk put_at_def)
      have "length inp - (i + ?m) < length inp - i" using True m by simp
      moreover have "u + length c \<le> length ?out" using fits by simp
      ultimately obtain out' where o: "rsa_encrypt_loop cr key inp (i + ?m) (u + length c) ?out =
          (let c' = rsa_cipher cr key (i + ?m) (drop (i + ?m) inp)
           in if u + length c + length c' \<le> length ?out then Some (Inr (0, u + length c + length c', memcpy ?out (u + length c) c'))
              else Some (Inr (- 2, length ?out, out')))" "length out' = length ?out"
        using less.hyps by blast
      have "length ?out = length out" using fits by simp
      then show ?thesis using step o C
        by (intro exI [of _ out']) (auto simp: Let_def add.assoc memcpy_memcpy)
    qed
  qed
qed

lemma rsa_decrypt_loop_ok:
  assumes "rsa_pair cr pub priv"
  shows "drop i inp = rsa_cipher cr pub j bs \<Longrightarrow> u + length bs + crMaxDecoded cr priv (crFixedCipher cr priv) \<le> length out \<Longrightarrow>
    rsa_decrypt_loop cr priv inp i u out = Some (Inr (0, u + length bs, memcpy out u bs))"
proof (induction "length bs" arbitrary: i j u out bs rule: less_induct)
  case less
  let ?m = "crMaxPlain cr pub" and ?k = "crFixedCipher cr priv"
  have m: "0 < ?m" "0 < ?k" using assms by (simp_all add: rsa_pair_def)
  show ?case
  proof (cases "bs = []")
    case True
    then have "\<not> i < length inp" using less.prems(1) by (simp add: rsa_cipher.simps)
    then show ?thesis using True by (simp add: rsa_decrypt_loop.simps [of cr priv inp i])
  next
    case False
    let ?b = "take ?m bs" and ?r = "drop ?m bs"
    have b: "?b \<noteq> []" "length ?b \<le> ?m" using m False by auto
    then obtain c where c: "crEncrypt cr pub j ?b = Some c" "length c = ?k" "crDecrypt cr priv c = Some (Some ?b)"
      using assms unfolding rsa_pair_def by blast
    have d: "drop i inp = c @ rsa_cipher cr pub (j + ?m) ?r"
      using less.prems(1) c(1) False m by (simp add: rsa_cipher.simps [of cr pub j])
    have il: "i < length inp" "?k \<le> length inp - i"
      using arg_cong [OF d, of length] c(2) m by auto
    have tk: "take ?k (drop i inp) = c" "drop (i + ?k) inp = rsa_cipher cr pub (j + ?m) ?r"
      using d c(2) by (simp_all add: add.commute [of i] drop_drop [symmetric])
    have room: "crMaxDecoded cr priv ?k \<le> length out - u" "u + length ?b \<le> length out" "?m \<le> crMaxDecoded cr priv ?k"
      using less.prems(2) assms b(2) unfolding rsa_pair_def by auto
    let ?out = "memcpy out u ?b"
    have "rsa_decrypt_loop cr priv inp i u out = rsa_decrypt_loop cr priv inp (i + ?k) (u + length ?b) ?out"
      using il tk(1) c(3) room by (subst rsa_decrypt_loop.simps) (simp add: Let_def min_absorb1 put_at_def not_less)
    also have "\<dots> = Some (Inr (0, u + length ?b + length ?r, memcpy ?out (u + length ?b) ?r))"
    proof (rule less.hyps)
      show "length ?r < length bs" using False m by simp
      show "drop (i + ?k) inp = rsa_cipher cr pub (j + ?m) ?r" by (rule tk(2))
      have "length ?b + length ?r = length bs" by simp
      then show "u + length ?b + length ?r + crMaxDecoded cr priv ?k \<le> length ?out" using less.prems(2) room(2) by simp
    qed
    also have "memcpy ?out (u + length ?b) ?r = memcpy out u bs"
      using memcpy_memcpy [of u ?b ?r out] less.prems(2) by simp
    also have "u + length ?b + length ?r = u + length bs" by simp
    finally show ?thesis .
  qed
qed

text \<open>With the OAEP type the private key plays no part at all.\<close>

lemma oaep_ignores_private_key:
  "parse_data cr (q\<lparr>dpPrivKey := k\<rparr>) CXENCRYPT_TYPE_RSA_OAEP z src dest cache = parse_data cr q CXENCRYPT_TYPE_RSA_OAEP z src dest cache"
  by (simp add: parse_data_def decrypt_step_def codec_types)

lemma rsa_cipher_Nil_iff: "rsa_pair cr pub priv \<Longrightarrow> rsa_cipher cr pub i bs = [] \<longleftrightarrow> bs = []"
proof -
  assume r: "rsa_pair cr pub priv"
  show ?thesis
  proof (cases "bs = []")
    case False
    let ?b = "take (crMaxPlain cr pub) bs"
    have "?b \<noteq> []" "length ?b \<le> crMaxPlain cr pub" using r False by (auto simp: rsa_pair_def)
    then obtain c where "crEncrypt cr pub i ?b = Some c" "length c = crFixedCipher cr priv"
      using r unfolding rsa_pair_def by blast
    then show ?thesis using r False by (auto simp: rsa_cipher.simps [of cr pub i] rsa_pair_def)
  qed (simp add: rsa_cipher.simps)
qed

section \<open>Each step and its inverse\<close>

definition supported_encryption :: "byte \<Rightarrow> bool" where
  "supported_encryption e \<longleftrightarrow> e = CXENCRYPT_TYPE_RSA_PKCS1v15 \<or> e = CXENCRYPT_TYPE_BLOWFISH"

definition supported_compression :: "byte \<Rightarrow> bool" where
  "supported_compression z \<longleftrightarrow> z = CXCOMPRESS_TYPE_GZIP \<or> z = CXCOMPRESS_TYPE_SNAPPY \<or> z = CXCOMPRESS_TYPE_ZLIB"

text \<open>The room that the decryption asks for beyond the text: a whole block with RSA.\<close>

definition decrypt_slack :: "crypto \<Rightarrow> data_parser \<Rightarrow> byte \<Rightarrow> nat" where
  "decrypt_slack cr q e = (if e = CXENCRYPT_TYPE_RSA_PKCS1v15 then crMaxDecoded cr (dpPrivKey q) (crFixedCipher cr (dpPrivKey q)) else 0)"

lemma dword_small [simp]: "n < 2 ^ 32 \<Longrightarrow> dword n = n"
  by (simp add: dword_def)

lemma take_memcpy_0: "length bs \<le> length out \<Longrightarrow> take (length bs) (memcpy out 0 bs) = bs"
  by (simp add: memcpy_def)

lemma compress_inverse:
  assumes "crypto_ok cr" and "supported_compression z" and "inp \<noteq> []" and "length out < 2 ^ 31" and "length inp < 2 ^ 31"
    and "compress_step cr z inp out = Inr (True, n, out')"
  shows "n \<le> length out \<and> length out' = length out \<and> take n out' \<noteq> [] \<and>
    (\<forall>out2. length inp \<le> length out2 \<longrightarrow>
       uncompress_step cr z (take n out') out2 = Inr (True, length inp, memcpy out2 0 inp))"
proof -
  have deflated: ?thesis if lossless: "lossless f g" and f: "deflate f inp out = (True, n, out')"
    and g: "\<And>c o2. uncompress_step cr z c o2 = Inr (inflate g c o2)" for f g
  proof -
    obtain c where c: "f inp = Some (c, 0)" "c \<noteq> []" "g c = Some (inp, 0)" using lossless assms(3) by (auto simp: lossless_def)
    have o: "n = length c" "out' = memcpy out 0 c" "length c < length out"
      using f c(1) by (auto simp: deflate_def split: if_splits)
    then show ?thesis using c assms(3,5) by (auto simp: g take_memcpy_0 inflate_def array_sink_def)
  qed
  show ?thesis
  proof (cases "z = CXCOMPRESS_TYPE_SNAPPY")
    case True
    let ?c = "crSnappy cr inp"
    have c: "?c \<noteq> []" "crSnappyLen cr ?c = Some (length inp)" "crUnsnappy cr ?c = Some inp"
      using assms(1,3) by (auto simp: crypto_ok_def snappy_ok_def)
    have "length ?c \<le> length out" "n = dword (length ?c)" "out' = memcpy out 0 ?c"
      using assms(6) True by (auto simp: compress_step_def codec_types snappy_compress_def put_at_def bind_res_Inr_iff split: if_splits)
    then show ?thesis using c True assms(4)
      by (simp add: take_memcpy_0 uncompress_step_def codec_types snappy_uncompress_def put_at_def)
  next
    case False
    with assms(2) consider "z = CXCOMPRESS_TYPE_GZIP" | "z = CXCOMPRESS_TYPE_ZLIB" by (auto simp: supported_compression_def)
    then show ?thesis
    proof cases
      case 1
      show ?thesis
        by (rule deflated [of "crGzip cr" "crGunzip cr"])
          (use assms(1,6) 1 in \<open>simp_all add: crypto_ok_def compress_step_def uncompress_step_def codec_types\<close>)
    next
      case 2
      show ?thesis
        by (rule deflated [of "crZlib cr" "crUnzlib cr"])
          (use assms(1,6) 2 in \<open>simp_all add: crypto_ok_def compress_step_def uncompress_step_def codec_types\<close>)
    qed
  qed
qed

lemma encrypt_inverse:
  assumes "crypto_ok cr" and "same_keys cr p q" and "supported_encryption e" and "inp \<noteq> []"
    and "length inp \<le> length out" and "length out < 2 ^ 31"
    and "encrypt_step cr p e inp out = Some (Inr (True, n, out'))" and "n \<le> length out"
  shows "length out' = length out \<and> (\<forall>out2. length inp + decrypt_slack cr q e \<le> length out2 \<longrightarrow>
       decrypt_step cr q e (take n out') out2 = Some (Inr (True, length inp, memcpy out2 0 inp)))"
proof (cases "e = CXENCRYPT_TYPE_BLOWFISH")
  case True
  let ?k = "take (dpKeyLen p) (dpKey p)" and ?v = "take (dpIvLen p) (dpIv p)"
  obtain c where c: "crSeal cr ?k ?v inp = Some c" "length c = length inp + 8" "crUnseal cr ?k ?v c = Some inp"
    using assms(1,4) unfolding crypto_ok_def seal_ok_def by blast
  have ne: "out \<noteq> []" using assms(4,5) by auto
  have "n = length c" "out' = memcpy out 0 (take (length out) c)"
    using assms(2,4,5,6,7) c(1,2) True ne
    by (auto simp: encrypt_step_def codec_types succeeded_def blowfish_encrypt_def blowfish_def same_keys_def array_sink_def)
  then have o: "take n out' = c" "length out' = length out" using assms(8) by (simp_all add: take_memcpy_0)
  have "c \<noteq> []" using c(2) by auto
  moreover have "length inp < 2 ^ 32" using assms(5,6) by simp
  ultimately show ?thesis using True o c(3) assms(2,4)
    by (auto simp: decrypt_step_def codec_types succeeded_def blowfish_decrypt_def blowfish_def same_keys_def array_sink_def)
next
  case False
  then have e: "e = CXENCRYPT_TYPE_RSA_PKCS1v15" using assms(3) by (simp add: supported_encryption_def)
  have r: "rsa_pair cr (dpPubKey p) (dpPrivKey q)" using assms(2) by (simp add: same_keys_def)
  let ?c = "rsa_cipher cr (dpPubKey p) 0 inp"
  obtain o1 where "rsa_encrypt_loop cr (dpPubKey p) inp 0 0 out =
      (if length ?c \<le> length out then Some (Inr (0, length ?c, memcpy out 0 ?c)) else Some (Inr (- 2, length out, o1)))"
    using rsa_encrypt_loop_spec [OF r, of 0 out inp 0] unfolding Let_def add_0 drop_0 by blast
  then have o: "length ?c \<le> length out" "n = length ?c" "out' = memcpy out 0 ?c"
    using assms(7) r e by (auto simp: encrypt_step_def rsa_encrypt_def rsa_pair_def succeeded_def split: if_splits)
  have "decrypt_step cr q e (take n out') out2 = Some (Inr (True, length inp, memcpy out2 0 inp))"
    if "length inp + decrypt_slack cr q e \<le> length out2" for out2
    using rsa_decrypt_loop_ok [OF r, of 0 ?c 0 inp 0 out2] that o e r
    by (simp add: decrypt_step_def take_memcpy_0 rsa_decrypt_def rsa_pair_def succeeded_def decrypt_slack_def)
  then show ?thesis using o by simp
qed

lemma prepare_parse:
  assumes "crypto_ok cr" and "same_keys cr p q" and "src \<noteq> []"
    and "e = 0 \<or> supported_encryption e" and "z = 0 \<or> supported_compression z" and "e \<noteq> 0 \<or> z \<noteq> 0"
    and "length dest < 2 ^ 31" and "length cache < 2 ^ 31" and "length src < 2 ^ 31"
    and "prepare_data cr p e z src dest cache = Some (Inr (True, n, dest'))" and "n \<le> length dest"
    and "length src + decrypt_slack cr q e \<le> length dest2" and "length cache + decrypt_slack cr q e \<le> length cache2"
  shows "parse_data cr q e z (take n dest') dest2 cache2 = Some (Inr (True, length src, memcpy dest2 0 src))"
proof (cases "z = 0")
  case True
  then have e: "e \<noteq> 0" "supported_encryption e" using assms(4,6) by auto
  obtain out n' where enc: "length src \<le> length dest" "encrypt_step cr p e src dest = Some (Inr (True, n', out))"
    "n = n'" "dest' = out"
    using assms(10) True e(1) by (auto simp: prepare_data_def Let_def last_step_def bind_res_Inr_iff split: if_splits)
  then show ?thesis
    using encrypt_inverse [OF assms(1,2) e(2) assms(3) enc(1) assms(7) enc(2)] assms(11,12) True e(1)
    by (simp add: parse_data_def last_step_def)
next
  case z: False
  then have zs: "supported_compression z" using assms(5) by blast
  show ?thesis
  proof (cases "e = 0")
    case True
    have "compress_step cr z src dest = Inr (True, n, dest')"
      using assms(10) z True by (auto simp: prepare_data_def Let_def last_step_def bind_res_Inr_iff split: if_splits)
    from compress_inverse [OF assms(1) zs assms(3,7,9) this] show ?thesis
      using assms(12) z True by (simp add: parse_data_def last_step_def)
  next
    case False
    then have es: "supported_encryption e" using assms(4) by blast
    obtain m cache' where c: "compress_step cr z src cache = Inr (True, m, cache')" "m \<le> length cache'"
      "length (take m cache') \<le> length dest" "encrypt_step cr p e (take m cache') dest = Some (Inr (True, n, dest'))"
      using assms(10) z False
      by (auto simp: prepare_data_def Let_def first_step_def last_step_def read_front_def bind_res_Inr_iff
          split: if_splits sum.splits option.splits)
    note inv = compress_inverse [OF assms(1) zs assms(3,8,9) c(1)]
    let ?t = "take m cache'"
    have t: "?t \<noteq> []" "length ?t \<le> length cache" using inv c(2) by auto
    have d: "decrypt_step cr q e (take n dest') cache2 = Some (Inr (True, length ?t, memcpy cache2 0 ?t))"
      using encrypt_inverse [OF assms(1,2) es t(1) c(3) assms(7) c(4) assms(11)] t(2) assms(13) by simp
    have "length ?t \<le> length cache2" using t(2) assms(13) by simp
    then have "read_front (length ?t) (memcpy cache2 0 ?t) = Inr ?t" by (simp add: read_front_def take_memcpy_0 del: length_take)
    then show ?thesis using d inv z False assms(12)
      by (simp add: parse_data_def first_step_def last_step_def del: length_take)
  qed
qed

text \<open>
  C32: What \<open>PrepareData\<close> makes of a body with any of the supported combinations of encryption and compression,
  \<open>ParseData\<close> at the other end turns back into that body, given the promises of the libraries and room for it.
\<close>

theorem prepare_parse_round_trip:
  assumes "crypto_ok cr" and "same_keys cr p q" and "src \<noteq> []"
    and "e = 0 \<or> supported_encryption e" and "z = 0 \<or> supported_compression z" and "e \<noteq> 0 \<or> z \<noteq> 0"
    and "length dest < 2 ^ 31" and "length cache < 2 ^ 31" and "length src < 2 ^ 31"
    and "prepare_data cr p e z src dest cache = Some (Inr (True, n, dest'))" and "n \<le> length dest"
    and "length src + decrypt_slack cr q e \<le> length dest2" and "length cache + decrypt_slack cr q e \<le> length cache2"
  shows "parse_data cr q e z (take n dest') dest2 cache2 = Some (Inr (True, length src, memcpy dest2 0 src))"
  by (rule prepare_parse [OF assms])

text \<open>
  C33: With a proper pair of keys the block loops of RSA end, however long the input is: the encryption gives the
  cipher text of the blocks one after the other, or -2 when the output has no room for it, and the decryption of
  that cipher text gives the text back.
\<close>

theorem rsa_blocks:
  assumes "rsa_pair cr pub priv"
  shows "(\<exists>out'. rsa_encrypt cr pub inp out =
      Some (Inr (if length (rsa_cipher cr pub 0 inp) \<le> length out
                 then (0, length (rsa_cipher cr pub 0 inp), memcpy out 0 (rsa_cipher cr pub 0 inp))
                 else (- 2, length out, out')))) \<and>
    (length inp + crMaxDecoded cr priv (crFixedCipher cr priv) \<le> length out2 \<longrightarrow>
      rsa_decrypt cr priv (rsa_cipher cr pub 0 inp) out2 = Some (Inr (0, length inp, memcpy out2 0 inp)))"
proof (intro conjI impI)
  show "\<exists>out'. rsa_encrypt cr pub inp out =
      Some (Inr (if length (rsa_cipher cr pub 0 inp) \<le> length out
                 then (0, length (rsa_cipher cr pub 0 inp), memcpy out 0 (rsa_cipher cr pub 0 inp))
                 else (- 2, length out, out')))"
    using rsa_encrypt_loop_spec [OF assms, of 0 out inp 0] assms
    by (auto simp: rsa_encrypt_def rsa_pair_def Let_def)
next
  assume "length inp + crMaxDecoded cr priv (crFixedCipher cr priv) \<le> length out2"
  then show "rsa_decrypt cr priv (rsa_cipher cr pub 0 inp) out2 = Some (Inr (0, length inp, memcpy out2 0 inp))"
    using rsa_decrypt_loop_ok [OF assms, of 0 _ 0 inp 0 out2] assms by (simp add: rsa_decrypt_def rsa_pair_def)
qed

section \<open>Libraries that keep the promises\<close>

text \<open>RSA with blocks of two bytes, padded to four; a seal of eight bytes; compression by a leading mark.\<close>

definition demo_crypto :: crypto where
  "demo_crypto = \<lparr>crKeyOk = (\<lambda>k. k = ''key''), crMaxPlain = (\<lambda>k. 2), crCipherLen = (\<lambda>k n. if n \<le> 2 then 4 else 0),
     crEncrypt = (\<lambda>k i m. if length m \<le> 2 then Some (word_of_nat (length m) # 7 # m @ replicate (2 - length m) 0) else None),
     crFixedCipher = (\<lambda>k. 4), crMaxDecoded = (\<lambda>k n. if n = 4 then 2 else 0),
     crDecrypt = (\<lambda>k c. if length c \<noteq> 4 then None else Some (Some (take (unat (c ! 0)) (drop 2 c)))),
     crSeal = (\<lambda>k v bs. Some (bs @ [1, 1, 1, 1, 1, 1, 1, 1])),
     crUnseal = (\<lambda>k v c. if length c < 8 then None else Some (take (length c - 8) c)),
     crGzip = (\<lambda>bs. Some (1 # bs, 0)), crGunzip = (\<lambda>c. Some (tl c, 0)), crZlib = (\<lambda>bs. Some (2 # bs, 0)),
     crUnzlib = (\<lambda>c. Some (tl c, 0)), crSnappy = (\<lambda>bs. 3 # bs), crSnappyLen = (\<lambda>c. Some (length c - 1)),
     crUnsnappy = (\<lambda>c. Some (tl c))\<rparr>"

definition demo_parser :: data_parser where
  "demo_parser = data_parser_new\<lparr>dpPubKey := ''key'', dpPrivKey := ''key'', dpKeyLen := 8, dpIvLen := 8\<rparr>"

lemma demo_crypto_ok: "crypto_ok demo_crypto"
  by (simp add: crypto_ok_def seal_ok_def lossless_def snappy_ok_def demo_crypto_def)

lemma demo_rsa_pair: "rsa_pair demo_crypto ''key'' ''key''"
proof -
  have "\<exists>c. crEncrypt demo_crypto ''key'' i m = Some c \<and> length c = 4 \<and> crDecrypt demo_crypto ''key'' c = Some (Some m)"
    if "m \<noteq> []" "length m \<le> 2" for i m
  proof -
    have "unat (word_of_nat (length m) :: byte) = length m" using that(2) by (simp add: unat_of_nat)
    then show ?thesis using that(2) by (simp add: demo_crypto_def)
  qed
  then show ?thesis by (simp add: rsa_pair_def) (simp add: demo_crypto_def)
qed

lemma demo_same_keys: "same_keys demo_crypto demo_parser demo_parser"
  using demo_rsa_pair by (simp add: same_keys_def demo_parser_def data_parser_new_def)

theorem prepare_parse_round_trip_witness:
  "parse_data demo_crypto demo_parser CXENCRYPT_TYPE_BLOWFISH CXCOMPRESS_TYPE_ZLIB ([2, 10, 20, 30] @ [1, 1, 1, 1, 1, 1, 1, 1])
     [0, 0, 0, 0] [0, 0, 0, 0, 0, 0] = Some (Inr (True, 3, [10, 20, 30, 0]))"
proof -
  have "prepare_data demo_crypto demo_parser CXENCRYPT_TYPE_BLOWFISH CXCOMPRESS_TYPE_ZLIB [10, 20, 30] [0, 0, 0, 0, 0, 0, 0, 0, 0, 0, 0, 0, 0, 0] [0, 0, 0, 0, 0, 0]
      = Some (Inr (True, 12, [2, 10, 20, 30] @ [1, 1, 1, 1, 1, 1, 1, 1] @ [0, 0]))"
    by (simp add: prepare_data_def compress_step_def encrypt_step_def codec_types first_step_def last_step_def
        succeeded_def deflate_def blowfish_encrypt_def blowfish_def array_sink_def read_front_def memcpy_def
        demo_crypto_def demo_parser_def data_parser_new_def)
  from prepare_parse_round_trip [OF demo_crypto_ok demo_same_keys _ _ _ _ _ _ _ this, of "[0, 0, 0, 0]" "[0, 0, 0, 0, 0, 0]"]
  show ?thesis
    by (simp add: supported_encryption_def supported_compression_def decrypt_slack_def codec_types memcpy_def)
qed

theorem rsa_blocks_witness:
  "rsa_decrypt demo_crypto ''key'' (rsa_cipher demo_crypto ''key'' 0 [5, 6, 7]) [0, 0, 0, 0, 0] = Some (Inr (0, 3, [5, 6, 7, 0, 0]))"
  using rsa_blocks [OF demo_rsa_pair, of "[5, 6, 7]" "[]" "[0, 0, 0, 0, 0]"]
  by (simp add: demo_crypto_def memcpy_def)

end
