(* ===== verification/Coded_Packets.thy ===== *)
theory Coded_Packets imports Main End_To_End Receive_Faults Data_Parser_Correct begin

text \<open>
  Encrypted and compressed packets between two connections: \<open>PreparedAndSendPacket\<close> of
  src/CXCommunicationServer/src/CXConnectionObject.cpp on one side, the receive path with \<open>ParseMessage\<close> on the
  other, with the data parser of src/CXDataParser in between.  The interface between connections and data parser
  is a locale.
\<close>

section \<open>The contract of a data parser\<close>

text \<open>
  The connection relies on this: what was prepared in buffers of \<open>n\<close> bytes fits in them, and is parsed back into the
  body with the same size of cache and any output that holds the body.
\<close>

locale codec =
  fixes prepare :: "byte \<Rightarrow> byte \<Rightarrow> byte list \<Rightarrow> nat \<Rightarrow> nat \<Rightarrow> byte list option"
    and parse :: "byte \<Rightarrow> byte \<Rightarrow> byte list \<Rightarrow> nat \<Rightarrow> int \<Rightarrow> byte list option"
    and good :: "byte \<Rightarrow> byte \<Rightarrow> bool"
  assumes prepared_fits: "prepare e z body n n = Some out \<Longrightarrow> length out \<le> n"
    and parse_prepared: "good e z \<Longrightarrow> body \<noteq> [] \<Longrightarrow> n < 2 ^ 31 \<Longrightarrow> length body \<le> n \<Longrightarrow> length body \<le> m \<Longrightarrow>
      prepare e z body n n = Some out \<Longrightarrow> parse e z out m (int n) = Some body"
    and good_flags: "good e z \<Longrightarrow> e \<noteq> 0 \<or> z \<noteq> 0"

text \<open>The packet for a body and what was prepared from it.\<close>

definition coded_packet :: "byte \<Rightarrow> byte \<Rightarrow> nat \<Rightarrow> byte list \<Rightarrow> packet_header \<times> byte list" where
  "coded_packet e z orig out =
     (\<lparr>wFlag = CX_PACKET_HEADER_FLAG, byCompressFlag = z, byEncryptFlag = e, dwDataLen = word_of_nat (length out),
       dwCheckSum = check_sum out, dwOrignDataLen = word_of_nat orig\<rparr>, out)"

definition buffer_body :: "buffer_obj \<Rightarrow> byte list" where
  "buffer_body b = take (bufLen b - sizeof_header) (drop sizeof_header (bufData b))"

definition cache_size :: "nat \<Rightarrow> nat" where
  "cache_size n = unat (prepare_cache_len (word_of_nat n))"

text \<open>The memory that preparing a body of \<open>n\<close> bytes takes, on a connection whose input buffer is live.\<close>

definition can_prepare :: "send_env \<Rightarrow> buffer_obj \<Rightarrow> connection \<Rightarrow> bool" where
  "can_prepare env b c \<longleftrightarrow>
     (let n = length (buffer_body b); k = unat (prepare_buffer_len (word_of_nat n))
      in 0 < n \<and> n \<le> CX_MAX_CHACHE_SIZE \<and> bufLen b = sizeof_header + n \<and> bufAddr b \<in> set (conLive c) \<and>
         (senThreadCache env (int (cache_size n)) \<or> senAlloc env (cache_size n) \<noteq> None) \<and>
         (case senAlloc env k of None \<Rightarrow> False | Some cap \<Rightarrow> k \<le> cap))"

lemma cache_size_eq: "n \<le> CX_MAX_CHACHE_SIZE \<Longrightarrow> cache_size n = max 256 (2 * n)"
proof -
  assume n: "n \<le> CX_MAX_CHACHE_SIZE"
  have "unat (word_of_nat n * 2 :: u32) = 2 * n"
    using n by (simp add: unat_word_ariths unat_of_nat CX_MAX_CHACHE_SIZE_def)
  then show ?thesis by (simp add: cache_size_def prepare_cache_len_def word_less_nat_alt)
qed

lemma prepare_buffer_eq:
  "n \<le> CX_MAX_CHACHE_SIZE \<Longrightarrow> unat (prepare_buffer_len (word_of_nat n)) = (if 2 * n + 72 < 512 then 512 else 2 * n + 328)"
proof -
  assume n: "n \<le> CX_MAX_CHACHE_SIZE"
  have e: "word_of_nat n * 2 + 16 + 56 = (word_of_nat (2 * n + 72) :: u32)" by (simp add: mult.commute)
  have u: "unat (word_of_nat (2 * n + 72) :: u32) = 2 * n + 72" "unat (word_of_nat (2 * n + 328) :: u32) = 2 * n + 328"
    using n by (simp_all only: unat_of_nat CX_MAX_CHACHE_SIZE_def) simp_all
  have "word_of_nat (2 * n + 72) + 256 = (word_of_nat (2 * n + 328) :: u32)" by simp
  then show ?thesis
    unfolding prepare_buffer_len_def Let_def using u
    by (simp add: sizes buffer_head_def e word_less_nat_alt del: of_nat_add)
qed

text \<open>
  The sender: the buffer it posts holds exactly the coded packet.
\<close>

lemma prepared_and_posted:
  assumes "can_prepare env b c" and "conEncrypt c = e" and "conCompress c = z"
    and "senPrepare env e z (buffer_body b) (cache_size (length (buffer_body b))) (cache_size (length (buffer_body b))) = Some out"
    and "length out \<le> cache_size (length (buffer_body b))"
  shows "\<exists>b' c'. prepare_and_send_packet env b c s = bind_res (post_send env b' c' s) (\<lambda>(r, c, s). Inr (r = 0, c, s)) \<and>
    buffer_wf b' \<and> bufSeq b' = bufSeq b \<and> buffer_left b' = wire (coded_packet e z (length (buffer_body b)) out) \<and>
    bufAddr b' = conNextAddr c \<and> bufLen b' = length out + sizeof_header \<and>
    c' = c\<lparr>conNextAddr := Suc (conNextAddr c), conLive := remove1 (bufAddr b) (conNextAddr c # conLive c)\<rparr>"
proof -
  let ?n = "length (buffer_body b)"
  let ?k = "unat (prepare_buffer_len (word_of_nat ?n))"
  have n: "0 < ?n" "?n \<le> CX_MAX_CHACHE_SIZE" "bufLen b = 16 + ?n" "bufAddr b \<in> set (conLive c)"
    and cache: "senThreadCache env (int (cache_size ?n)) \<or> senAlloc env (cache_size ?n) \<noteq> None"
    using assms(1) by (simp_all add: can_prepare_def Let_def sizes)
  obtain cap where cap: "senAlloc env ?k = Some cap" "?k \<le> cap"
    using assms(1) by (auto simp: can_prepare_def Let_def split: option.splits)
  have out: "length out \<le> max 256 (2 * ?n)" using assms(5) cache_size_eq [OF n(2)] by simp
  have room: "16 + length out \<le> cap - 52"
    using cap(2) out prepare_buffer_eq [OF n(2)] by (auto split: if_splits)
  have len: "word_of_nat (bufLen b) - word_of_nat sizeof_header = (word_of_nat ?n :: u32)"
    using n(3) by (simp add: sizes)
  have body: "take (bufLen b - sizeof_header) (drop sizeof_header (bufData b)) = buffer_body b"
    by (simp add: buffer_body_def)
  let ?c = "snd (new_message_addr c)"
  let ?c2 = "?c\<lparr>conLive := remove1 (bufAddr b) (conLive ?c)\<rparr>"
  let ?b1 = "\<lparr>bufAddr = conNextAddr c, bufSeq = 0, bufData = replicate (cap - 52) 0, bufCur = 0, bufLen = CX_BUF_SIZE\<rparr> :: buffer_obj"
  have get: "get_buffer_obj env (prepare_buffer_len (word_of_nat ?n)) c = Some (?b1, ?c)"
    using cap(1) by (simp add: get_buffer_obj_def new_message_addr_def sizes)
  let ?b2 = "?b1\<lparr>bufData := memcpy (replicate (cap - 52) 0) 16 out\<rparr>"
  have w: "write_buffer sizeof_header out ?b1 = Inr ?b2"
    using room by (simp add: write_buffer_def sizes)
  have free: "free_message (bufAddr b) ?c = Inr ?c2" using n(4) by (simp add: free_message_def new_message_addr_def)
  let ?b3 = "?b2\<lparr>bufSeq := bufSeq b, bufLen := length out + 16\<rparr>"
  let ?h = "fst (coded_packet e z ?n out)"
  let ?b4 = "?b3\<lparr>bufData := memcpy (memcpy (replicate (cap - 52) 0) 16 out) 0 (header_bytes ?h)\<rparr>"
  have l: "length (memcpy (replicate (cap - 52) 0) 16 out) = cap - 52" using room by simp
  have part: "take (length out) (drop 16 (memcpy (replicate (cap - 52) 0) 16 out)) = out"
    using room by (simp add: memcpy_def)
  have hl: "length (header_bytes ?h) = 16" by (simp add: sizes)
  have flags: "conEncrypt ?c2 = e" "conCompress ?c2 = z" using assms(2,3) by (simp_all add: new_message_addr_def)
  have "send_assembled_packet env ?b3 (word_of_nat ?n) ?c2 s = bind_res (post_send env ?b4 ?c2 s) (\<lambda>(r, c, s). Inr (r = 0, c, s))"
    using room l part flags hl
    by (simp add: send_assembled_packet_def Let_def write_buffer_def sizes coded_packet_def)
  moreover have "prepare_and_send_packet env b c s = send_assembled_packet env ?b3 (word_of_nat ?n) ?c2 s"
  proof -
    have ci: "uint (prepare_cache_len (word_of_nat ?n)) = int (cache_size ?n)" by (simp add: cache_size_def)
    have fl: "conEncrypt (snd (new_message_addr c)) = conEncrypt c" "conCompress (snd (new_message_addr c)) = conCompress c"
      by (simp_all add: new_message_addr_def)
    show ?thesis
      unfolding prepare_and_send_packet_def Let_def body len ci get cache_size_def [symmetric]
      using cache assms(2,3,4) w free fl by (auto simp: sizes)
  qed
  moreover have "buffer_wf ?b4" using room l hl by (simp add: buffer_wf_def)
  moreover have "take (16 + length out) (memcpy (memcpy (replicate (cap - 52) 0) 16 out) 0 (header_bytes ?h)) = header_bytes ?h @ out"
    using memcpy_layers [of "header_bytes ?h" 16 out "length out" "[]" "cap - 52"] room hl by simp
  then have "buffer_left ?b4 = wire (coded_packet e z ?n out)"
    by (simp add: buffer_left_def wire_def coded_packet_def add.commute)
  moreover have "?c2 = c\<lparr>conNextAddr := Suc (conNextAddr c), conLive := remove1 (bufAddr b) (conNextAddr c # conLive c)\<rparr>"
    by (simp add: new_message_addr_def)
  ultimately show ?thesis by (intro exI [of _ ?b4] exI [of _ ?c2]) (simp add: sizes)
qed

text \<open>The memory that receiving it takes.\<close>

definition can_parse :: "recv_env \<Rightarrow> nat \<Rightarrow> nat \<Rightarrow> bool" where
  "can_parse env n k \<longleftrightarrow> k \<le> CX_MAX_CHACHE_SIZE \<and> alloc_ok env (sizeof_message_data - 1 + k) \<and>
     (envThreadCache env (int (cache_size n)) \<or> envAlloc env (cache_size n) \<noteq> None) \<and>
     alloc_ok env (unat (parse_output_len (word_of_nat n)))"

lemma parse_sizes:
  assumes "n \<le> CX_MAX_CHACHE_SIZE"
  shows "parse_buffer_len (word_of_nat n) = int (cache_size n)"
    and "unat (parse_output_len (word_of_nat n)) = (if n + 92 < 512 then 512 else n + 348)"
    and "unat (parse_output_len (word_of_nat n) - (word_of_nat sizeof_message_data - 1)) = (if n + 92 < 512 then 420 else n + 256)"
proof -
  have "word_of_nat n * 2 = (word_of_nat (2 * n) :: u32)" by (simp add: mult.commute)
  moreover have "sint (word_of_nat (2 * n) :: u32) = int (2 * n)"
    using assms by (simp only: signed_of_nat) (simp add: CX_MAX_CHACHE_SIZE_def signed_take_bit_int_eq_self)
  ultimately have "sint (word_of_nat n * 2 :: u32) = 2 * int n" by (simp add: mult.commute)
  then show "parse_buffer_len (word_of_nat n) = int (cache_size n)"
    using cache_size_eq [OF assms] by (simp add: parse_buffer_len_def Let_def)
  have e: "word_of_nat n + 93 - 1 = (word_of_nat (n + 92) :: u32)" by simp
  have u: "unat (word_of_nat (n + 92) :: u32) = n + 92" "unat (word_of_nat (n + 348) :: u32) = n + 348"
    "unat (word_of_nat (n + 256) :: u32) = n + 256"
    using assms by (simp_all only: unat_of_nat CX_MAX_CHACHE_SIZE_def) simp_all
  have o: "parse_output_len (word_of_nat n) = (if n + 92 < 512 then 512 else word_of_nat (n + 348))"
    unfolding parse_output_len_def Let_def using u(1) by (simp add: sizes e word_less_nat_alt del: of_nat_add) simp
  then show "unat (parse_output_len (word_of_nat n)) = (if n + 92 < 512 then 512 else n + 348)" using u(2) by simp
  have "word_of_nat (n + 348) - 92 = (word_of_nat (n + 256) :: u32)" by simp
  then show "unat (parse_output_len (word_of_nat n) - (word_of_nat sizeof_message_data - 1)) = (if n + 92 < 512 then 420 else n + 256)"
    using o u(3) by (simp add: sizes del: of_nat_add)
qed

context codec begin

text \<open>The receiver accepts the packet and decodes it into the body.\<close>

lemma coded_packet_decodes:
  assumes "good e z" and "body \<noteq> []" and "length body \<le> CX_MAX_CHACHE_SIZE"
    and "prepare e z body (cache_size (length body)) (cache_size (length body)) = Some out"
    and "envParse env = parse" and "can_parse env (length body) (length out)"
  shows "packet_ok env (coded_packet e z (length body) out) \<and> decode env (coded_packet e z (length body) out) = Some body"
proof -
  let ?n = "length body"
  let ?p = "coded_packet e z ?n out"
  have k: "length out \<le> CX_MAX_CHACHE_SIZE" using assms(6) by (simp add: can_parse_def)
  have u: "unat (word_of_nat (length out) :: u32) = length out" "unat (word_of_nat ?n :: u32) = ?n"
    using k assms(3) by (simp_all only: unat_of_nat CX_MAX_CHACHE_SIZE_def) simp_all
  have np: "\<not> plain (fst ?p)" using good_flags [OF assms(1)] by (auto simp: plain_def coded_packet_def)
  have room: "?n \<le> parse_room (fst ?p)"
    using parse_sizes(3) [OF assms(3)] by (simp add: parse_room_def coded_packet_def)
  have "cache_size ?n < 2 ^ 31" "?n \<le> cache_size ?n"
    using cache_size_eq [OF assms(3)] assms(3) by (simp_all add: CX_MAX_CHACHE_SIZE_def)
  then have "parse e z out (parse_room (fst ?p)) (int (cache_size ?n)) = Some body"
    using parse_prepared [OF assms(1,2) _ _ room assms(4)] by blast
  then have d: "decode env ?p = Some body"
    using np assms(5) parse_sizes(1) [OF assms(3)] by (simp add: decode_def) (simp add: coded_packet_def)
  moreover have "framed env ?p" using u k assms(6) by (simp add: framed_def coded_packet_def can_parse_def)
  moreover have "alloc_ok env (unat (parse_output_len (word_of_nat ?n)))" using assms(6) by (simp add: can_parse_def)
  ultimately show ?thesis
    using np u assms(6) parse_sizes(1,2) [OF assms(3)]
    by (auto simp: packet_ok_def Let_def can_parse_def coded_packet_def alloc_ok_def sizes split: option.splits if_splits)
qed

end

section \<open>The data parser of the program keeps the contract\<close>

text \<open>The calls of the connections: fresh buffers of the given sizes, and the bytes the length reports.\<close>

definition codec_result :: "nat \<Rightarrow> (bool \<times> nat \<times> byte list) res option \<Rightarrow> byte list option" where
  "codec_result n r = (case r of Some (Inr (True, k, d)) \<Rightarrow> if k \<le> n then Some (take k d) else None | _ \<Rightarrow> None)"

definition codec_prepare :: "crypto \<Rightarrow> data_parser \<Rightarrow> byte \<Rightarrow> byte \<Rightarrow> byte list \<Rightarrow> nat \<Rightarrow> nat \<Rightarrow> byte list option" where
  "codec_prepare cr p e z body n k = codec_result n (prepare_data cr p e z body (replicate n 0) (replicate k 0))"

definition codec_parse :: "crypto \<Rightarrow> data_parser \<Rightarrow> byte \<Rightarrow> byte \<Rightarrow> byte list \<Rightarrow> nat \<Rightarrow> int \<Rightarrow> byte list option" where
  "codec_parse cr q e z bs n k = codec_result n (parse_data cr q e z bs (replicate n 0) (replicate (nat k) 0))"

definition codec_good :: "crypto \<Rightarrow> data_parser \<Rightarrow> data_parser \<Rightarrow> byte \<Rightarrow> byte \<Rightarrow> bool" where
  "codec_good cr p q e z \<longleftrightarrow> crypto_ok cr \<and> same_keys cr p q \<and> (e = 0 \<or> e = CXENCRYPT_TYPE_BLOWFISH) \<and>
     (z = 0 \<or> supported_compression z) \<and> (e \<noteq> 0 \<or> z \<noteq> 0)"

lemma codec_result_Some:
  "codec_result n r = Some bs \<longleftrightarrow> (\<exists>k d. r = Some (Inr (True, k, d)) \<and> k \<le> n \<and> bs = take k d)"
  by (auto simp: codec_result_def split: option.splits sum.splits bool.splits if_splits)

interpretation parser: codec "codec_prepare cr p" "codec_parse cr q" "codec_good cr p q" for cr p q
proof
  fix e z body n out
  show "codec_prepare cr p e z body n n = Some out \<Longrightarrow> length out \<le> n"
    by (auto simp: codec_prepare_def codec_result_Some)
next
  fix e z body n m out
  assume good: "codec_good cr p q e z" and body: "body \<noteq> []" and n: "n < 2 ^ 31" "length body \<le> n" "length body \<le> m"
    and "codec_prepare cr p e z body n n = Some out"
  then obtain k d where k: "prepare_data cr p e z body (replicate n 0) (replicate n 0) = Some (Inr (True, k, d))"
    "k \<le> n" "out = take k d"
    by (auto simp: codec_prepare_def codec_result_Some)
  have slack: "decrypt_slack cr q e = 0" using good by (auto simp: decrypt_slack_def codec_good_def codec_types)
  have "parse_data cr q e z out (replicate m 0) (replicate n 0) = Some (Inr (True, length body, memcpy (replicate m 0) 0 body))"
    unfolding k(3)
    by (rule prepare_parse [OF _ _ body _ _ _ _ _ _ k(1)])
      (use good n k(2) slack in \<open>auto simp: codec_good_def supported_encryption_def\<close>)
  then show "codec_parse cr q e z out m (int n) = Some body"
    using n by (simp add: codec_parse_def codec_result_def take_memcpy_0)
next
  show "codec_good cr p q e z \<Longrightarrow> e \<noteq> 0 \<or> z \<noteq> 0" for e z by (simp add: codec_good_def)
qed

text \<open>
  An encrypted (Blowfish) or compressed packet arrives: the buffer that \<open>PreparedAndSendPacket\<close> posts holds a
  packet which the receiver, getting its bytes in any pieces and order, decodes and delivers with the sender's body.
\<close>

lemma coded_packet_arrives:
  assumes "codec_good cr p q e z" and "can_prepare senv b c" and "conEncrypt c = e" and "conCompress c = z"
    and "senPrepare senv = codec_prepare cr p" and "envParse renv = codec_parse cr q"
    and "body = buffer_body b" and "n = cache_size (length body)"
    and "codec_prepare cr p e z body n n = Some out" and "can_parse renv (length body) (length out)"
    and "fresh_receiver rc"
  shows "\<exists>b' c'. prepare_and_send_packet senv b c s = bind_res (post_send senv b' c' s) (\<lambda>(r, c, s). Inr (r = 0, c, s)) \<and>
    buffer_wf b' \<and> bufSeq b' = bufSeq b \<and>
    (\<forall>bs calls. numbered bs \<and> (\<forall>b\<in>set bs. buffer_wf b \<and> 0 < bufLen b) \<and> left_bytes bs = buffer_left b' \<and>
       mset (map snd calls) = mset bs \<longrightarrow>
       (\<exists>rc' m. recv_calls renv calls rc = Some (Inr (0, rc')) \<and> conDelivered rc' = conDelivered rc @ [m] \<and>
          mes_payload m = body))"
proof -
  let ?p = "coded_packet e z (length body) out"
  have body: "body \<noteq> []" "length body \<le> CX_MAX_CHACHE_SIZE"
    using assms(2,7) by (auto simp: can_prepare_def Let_def)
  obtain b' c' where b': "prepare_and_send_packet senv b c s = bind_res (post_send senv b' c' s) (\<lambda>(r, c, s). Inr (r = 0, c, s))"
    "buffer_wf b'" "bufSeq b' = bufSeq b" "buffer_left b' = wire ?p"
    using prepared_and_posted [OF assms(2-4), of out s] assms(5,7-9) parser.prepared_fits [of cr p e z body n out] by auto
  have p: "packet_ok renv ?p" "decode renv ?p = Some body"
    using parser.coded_packet_decodes [OF assms(1) body _ assms(6,10)] assms(8,9) by auto
  have "\<exists>rc' m. recv_calls renv calls rc = Some (Inr (0, rc')) \<and> conDelivered rc' = conDelivered rc @ [m] \<and> mes_payload m = body"
    if bs: "numbered bs" "\<forall>b\<in>set bs. buffer_wf b \<and> 0 < bufLen b" "left_bytes bs = buffer_left b'"
      "mset (map snd calls) = mset bs" for bs calls
    using recv_all_arrivals [OF assms(11) bs(1,2) _ _ bs(4), of "[?p]" renv] p bs(3) b'(4)
    by (auto simp: received_def stream_of_def map_eq_Cons_conv)
  then show ?thesis using b' by blast
qed

section \<open>Packets that RSA loses\<close>

lemma rsa_decrypt_no_room:
  assumes "rsa_pair cr pub priv" and "crMaxPlain cr pub = d" and "crMaxDecoded cr priv (crFixedCipher cr priv) = d"
    and "d < length body" and "d \<le> length out" and "length out < 2 * d"
  shows "\<exists>k out'. rsa_decrypt cr priv (rsa_cipher cr pub 0 body) out = Some (Inr (- 2, k, out'))"
proof -
  let ?k = "crFixedCipher cr priv"
  have d: "0 < d" "0 < ?k" "crKeyOk cr priv" using assms(1,2) by (simp_all add: rsa_pair_def)
  have blk: "\<exists>c. crEncrypt cr pub i m = Some c \<and> length c = ?k \<and> crDecrypt cr priv c = Some (Some m)"
    if "m \<noteq> []" "length m \<le> d" for i m using assms(1,2) that unfolding rsa_pair_def by blast
  let ?r = "drop d body"
  have "take d body \<noteq> []" "take d ?r \<noteq> []" "?r \<noteq> []" using assms(4) d(1) by auto
  then obtain c1 c2 where c: "crEncrypt cr pub 0 (take d body) = Some c1" "length c1 = ?k" "crDecrypt cr priv c1 = Some (Some (take d body))"
    "crEncrypt cr pub d (take d ?r) = Some c2" "length c2 = ?k"
    using blk [of "take d body" 0] blk [of "take d ?r" d] by auto
  define c3 where "c3 = rsa_cipher cr pub (d + d) (drop d ?r)"
  have inp: "rsa_cipher cr pub 0 body = c1 @ c2 @ c3"
    using assms(2,4) d(1) c(1,4) \<open>?r \<noteq> []\<close>
    by (subst rsa_cipher.simps, subst rsa_cipher.simps) (auto simp: c3_def)
  have len: "length (take d body) = d" using assms(4) by simp
  have "rsa_decrypt_loop cr priv (c1 @ c2 @ c3) 0 0 out = rsa_decrypt_loop cr priv (c1 @ c2 @ c3) ?k d (memcpy out 0 (take d body))"
    using assms(3,5) c(2,3,5) d len by (subst rsa_decrypt_loop.simps) (simp add: Let_def put_at_def)
  also have "\<dots> = Some (Inr (- 2, length (memcpy out 0 (take d body)), memcpy out 0 (take d body)))"
  proof -
    have "length (memcpy out 0 (take d body)) = length out" using len assms(5) by (subst length_memcpy) auto
    moreover have "length out - d < d" using assms(5,6) by linarith
    ultimately have "length (memcpy out 0 (take d body)) - d < d" by simp
    then show ?thesis using assms(3) c(2,5) d by (subst rsa_decrypt_loop.simps) (simp add: Let_def)
  qed
  finally show ?thesis using inp d(3) by (simp add: rsa_decrypt_def)
qed

text \<open>
  C35: With an RSA key of 2048 bits, whose blocks hold 245 bytes, a proper packet with a body of 246 to 419 bytes is
  not decoded: the output that \<open>ParseMessage\<close> gives has less room than the block loop asks for.  The message is then
  freed twice.
\<close>

theorem rsa_packet_frees_twice:
  assumes "rsa_pair cr pub (dpPrivKey q)" and "crMaxPlain cr pub = 245"
    and "crMaxDecoded cr (dpPrivKey q) (crFixedCipher cr (dpPrivKey q)) = 245"
    and "245 < length body" and "length body < 420"
    and "h = fst (coded_packet CXENCRYPT_TYPE_RSA_PKCS1v15 0 (length body) out)" and "out = rsa_cipher cr pub 0 body"
    and "fresh_receiver rc" and "conLive rc = []" and "envParse renv = codec_parse cr q"
    and "buffer_wf b" and "bufSeq b = 1" and "buffer_left b = wire (h, out) @ rest" and "framed renv (h, out)"
  shows "recv_packet renv (Some b) rc = Some (Inl DoubleFree)"
proof (rule recv_undecodable_frees_twice [OF assms(8,11-14)])
  show "check_sum out = dwCheckSum h" "\<not> plain h" by (simp_all add: assms(6) coded_packet_def plain_def codec_types)
  have n: "length body \<le> CX_MAX_CHACHE_SIZE" using assms(5) by (simp add: CX_MAX_CHACHE_SIZE_def)
  have room: "parse_room h = 420" using parse_sizes(3) [OF n] assms(5) by (simp add: parse_room_def assms(6) coded_packet_def)
  obtain k out' where "rsa_decrypt cr (dpPrivKey q) out (replicate 420 0) = Some (Inr (- 2, k, out'))"
    using rsa_decrypt_no_room [OF assms(1-4), of "replicate 420 0"] assms(7) by auto
  then have "codec_parse cr q CXENCRYPT_TYPE_RSA_PKCS1v15 0 out 420 j = None" for j
    by (simp add: codec_parse_def codec_result_def parse_data_def decrypt_step_def codec_types succeeded_def last_step_def)
  then show "decode renv (h, out) = None"
    using \<open>\<not> plain h\<close> room by (simp add: decode_def assms(10)) (simp add: assms(6) coded_packet_def)
  show "conLive rc = []" by fact
qed

section \<open>Witnesses\<close>

definition coding_env :: send_env where
  "coding_env = demo_send_env\<lparr>senPrepare := codec_prepare demo_crypto demo_parser\<rparr>"

definition coding_connection :: connection where
  "coding_connection = demo_sender\<lparr>conEncrypt := CXENCRYPT_TYPE_BLOWFISH, conCompress := CXCOMPRESS_TYPE_ZLIB, conLive := [9]\<rparr>"

definition coding_buffer :: buffer_obj where
  "coding_buffer = \<lparr>bufAddr = 9, bufSeq = 1, bufData = replicate 16 0 @ [10, 20, 30], bufCur = 0, bufLen = 19\<rparr>"

definition parsing_env :: recv_env where
  "parsing_env = demo_env\<lparr>envParse := codec_parse demo_crypto demo_parser\<rparr>"

lemma coding_body: "buffer_body coding_buffer = [10, 20, 30]"
  by (simp add: buffer_body_def coding_buffer_def sizes)

lemma cache_size_3: "cache_size 3 = 256"
  by (simp add: cache_size_eq CX_MAX_CHACHE_SIZE_def)

lemma coding_prepared:
  "codec_prepare demo_crypto demo_parser CXENCRYPT_TYPE_BLOWFISH CXCOMPRESS_TYPE_ZLIB [10, 20, 30] 256 256 =
     Some ([2, 10, 20, 30] @ [1, 1, 1, 1, 1, 1, 1, 1])"
  by (simp add: codec_prepare_def codec_result_def prepare_data_def compress_step_def encrypt_step_def codec_types first_step_def
      last_step_def succeeded_def deflate_def blowfish_encrypt_def blowfish_def array_sink_def read_front_def memcpy_def
      demo_crypto_def demo_parser_def data_parser_new_def)

lemma coded_packet_arrives_example:
  "\<exists>b' c'. prepare_and_send_packet coding_env coding_buffer coding_connection demo_sock =
      bind_res (post_send coding_env b' c' demo_sock) (\<lambda>(r, c, s). Inr (r = 0, c, s)) \<and>
    buffer_wf b' \<and> bufSeq b' = 1 \<and>
    (\<forall>bs calls. numbered bs \<and> (\<forall>b\<in>set bs. buffer_wf b \<and> 0 < bufLen b) \<and> left_bytes bs = buffer_left b' \<and>
       mset (map snd calls) = mset bs \<longrightarrow>
       (\<exists>rc' m. recv_calls parsing_env calls demo_connection = Some (Inr (0, rc')) \<and>
          conDelivered rc' = conDelivered demo_connection @ [m] \<and> mes_payload m = [10, 20, 30]))"
proof -
  have good: "codec_good demo_crypto demo_parser demo_parser CXENCRYPT_TYPE_BLOWFISH CXCOMPRESS_TYPE_ZLIB"
    using demo_crypto_ok demo_same_keys by (simp add: codec_good_def codec_types supported_compression_def)
  have "unat (prepare_buffer_len 3) = 512"
    using prepare_buffer_eq [of 3] by (simp add: CX_MAX_CHACHE_SIZE_def)
  then have prep: "can_prepare coding_env coding_buffer coding_connection"
    by (simp add: can_prepare_def coding_body Let_def CX_MAX_CHACHE_SIZE_def coding_env_def demo_send_env_def)
      (simp add: coding_buffer_def coding_connection_def sizes)
  have con: "conEncrypt coding_connection = CXENCRYPT_TYPE_BLOWFISH" "conCompress coding_connection = CXCOMPRESS_TYPE_ZLIB"
    "senPrepare coding_env = codec_prepare demo_crypto demo_parser" "envParse parsing_env = codec_parse demo_crypto demo_parser"
    by (simp_all add: coding_connection_def coding_env_def parsing_env_def)
  have n: "256 = cache_size (length [10 :: byte, 20, 30])" using cache_size_3 by (simp add: numeral_3_eq_3)
  have "cache_size (Suc (Suc (Suc 0))) = 256" using cache_size_3 by (simp add: numeral_3_eq_3)
  then have parse: "can_parse parsing_env (length [10 :: byte, 20, 30]) (length ([2, 10, 20, 30] @ [1, 1, 1, 1, 1, 1, 1, 1 :: byte]))"
    using parse_sizes(2) [of 3]
    by (simp add: can_parse_def parsing_env_def demo_env_def alloc_ok_def CX_MAX_CHACHE_SIZE_def sizes)
  have seq: "bufSeq coding_buffer = 1" by (simp add: coding_buffer_def)
  show ?thesis
    using coded_packet_arrives [OF good prep con coding_body [symmetric] n coding_prepared parse demo_fresh, of demo_sock]
    unfolding seq .
qed

text \<open>An RSA key of 2048 bits in the role of the library: blocks of 245 bytes in 256.\<close>

definition rsa_crypto :: crypto where
  "rsa_crypto = demo_crypto\<lparr>crMaxPlain := (\<lambda>k. 245), crCipherLen := (\<lambda>k n. 256),
     crEncrypt := (\<lambda>k i m. Some (word_of_nat (length m) # m @ replicate (255 - length m) 0)),
     crFixedCipher := (\<lambda>k. 256), crMaxDecoded := (\<lambda>k n. 245),
     crDecrypt := (\<lambda>k c. Some (Some (take (unat (c ! 0)) (drop 1 c))))\<rparr>"

lemma rsa_crypto_pair: "rsa_pair rsa_crypto ''key'' ''key''"
proof -
  have "\<exists>c. crEncrypt rsa_crypto ''key'' i m = Some c \<and> length c = 256 \<and> crDecrypt rsa_crypto ''key'' c = Some (Some m)"
    if "m \<noteq> []" "length m \<le> 245" for i m
  proof -
    have "unat (word_of_nat (length m) :: byte) = length m" using that(2) by (simp add: unat_of_nat)
    then show ?thesis using that(2) by (simp add: rsa_crypto_def)
  qed
  then show ?thesis by (simp add: rsa_pair_def) (simp add: rsa_crypto_def demo_crypto_def)
qed

lemma rsa_length:
  "length bs \<le> 490 \<Longrightarrow> 245 < length bs \<Longrightarrow> length (rsa_cipher rsa_crypto ''key'' 0 bs) = 512"
proof -
  assume n: "length bs \<le> 490" "245 < length bs"
  then have "bs \<noteq> []" "drop 245 bs \<noteq> []" "drop 245 (drop 245 bs) = []" by auto
  then show ?thesis using n
    by (subst rsa_cipher.simps, subst rsa_cipher.simps, subst rsa_cipher.simps) (simp add: rsa_crypto_def min_def)
qed

theorem rsa_packet_frees_twice_witness:
  "\<exists>h out. out = rsa_cipher rsa_crypto ''key'' 0 (replicate 300 7) \<and>
     h = fst (coded_packet CXENCRYPT_TYPE_RSA_PKCS1v15 0 300 out) \<and>
     recv_packet (demo_env\<lparr>envParse := codec_parse rsa_crypto demo_parser\<rparr>) (Some (demo_buffer 1 (wire (h, out)))) demo_connection =
       Some (Inl DoubleFree)"
proof -
  define out where "out = rsa_cipher rsa_crypto ''key'' 0 (replicate 300 7)"
  define h where "h = fst (coded_packet CXENCRYPT_TYPE_RSA_PKCS1v15 0 300 out)"
  let ?env = "demo_env\<lparr>envParse := codec_parse rsa_crypto demo_parser\<rparr>"
  have len: "length out = 512" using rsa_length [of "replicate 300 7"] by (simp add: out_def)
  have "framed ?env (h, out)"
    by (simp add: framed_def h_def coded_packet_def len demo_env_def alloc_ok_def CX_MAX_CHACHE_SIZE_def sizes)
  moreover have "buffer_wf (demo_buffer 1 (wire (h, out)))" "bufSeq (demo_buffer 1 (wire (h, out))) = 1"
    "buffer_left (demo_buffer 1 (wire (h, out))) = wire (h, out) @ []"
    by (simp_all add: demo_buffer_def buffer_wf_def buffer_left_def)
  moreover have "conLive demo_connection = []"
    by (simp add: demo_connection_def serve_connection_def build_connection_def reset_connection_def new_connection_def Let_def)
  moreover have "rsa_pair rsa_crypto ''key'' (dpPrivKey demo_parser)" "crMaxPlain rsa_crypto ''key'' = 245"
    "crMaxDecoded rsa_crypto (dpPrivKey demo_parser) (crFixedCipher rsa_crypto (dpPrivKey demo_parser)) = 245"
    using rsa_crypto_pair by (simp_all add: demo_parser_def rsa_crypto_def)
  ultimately have "recv_packet ?env (Some (demo_buffer 1 (wire (h, out)))) demo_connection = Some (Inl DoubleFree)"
    using rsa_packet_frees_twice [where body = "replicate 300 7" and h = h and out = out and q = demo_parser and
        cr = rsa_crypto and pub = "''key''" and rest = "[]" and renv = ?env and rc = demo_connection] demo_fresh
    by (simp add: out_def h_def)
  then show ?thesis using out_def h_def by blast
qed

end
