(* ===== verification/IO_Stat.thy ===== *)
theory IO_Stat imports Main Prelude "HOL-Library.RBT" "HOL-Library.List_Lexorder" "HOL-Library.Char_ord" "HOL-Library.Signed_Division" begin

text \<open>
  \<open>CXIOStat\<close> (src/CXCommunicationServer/src/CXIOStat.cpp): the times that requests take, by kind, and the thread that
  writes their count, average, minimum and maximum to the log.  The two levels of \<open>std::map\<close> are search trees over the
  order of strings, in which the loops of the code run.
\<close>

section \<open>State\<close>

record io_node =
  ioUsed :: "64 word"
  ioEnd :: bool

type_synonym io_nodes = "(string, io_node) RBT.rbt"

record io_stat =
  iosRunning :: bool
  iosStat :: "(string, io_nodes) RBT.rbt"
  iosLogHandle :: bool
  iosLog :: "string list"

definition io_stat_new :: io_stat where
  "io_stat_new = \<lparr>iosRunning = False, iosStat = RBT.empty, iosLogHandle = False, iosLog = []\<rparr>"

text \<open>\<open>Start\<close>, given whether the thread starts, and \<open>Stop\<close>.\<close>

definition io_start :: "bool \<Rightarrow> io_stat \<Rightarrow> bool \<times> io_stat" where
  "io_start started s = (started, s\<lparr>iosRunning := started\<rparr>)"

definition io_stop :: "io_stat \<Rightarrow> io_stat" where
  "io_stop s = s\<lparr>iosRunning := False\<rparr>"

section \<open>Noting times\<close>

definition begin_io_stat :: "string \<Rightarrow> string \<Rightarrow> 64 word \<Rightarrow> io_stat \<Rightarrow> io_stat" where
  "begin_io_stat flag guid t s =
     (if \<not> iosRunning s then s
      else case RBT.lookup (iosStat s) flag of
        Some m \<Rightarrow> s\<lparr>iosStat := RBT.insert flag (RBT.insert guid \<lparr>ioUsed = t, ioEnd = False\<rparr> m) (iosStat s)\<rparr>
      | None \<Rightarrow> s\<lparr>iosStat := RBT.insert flag (RBT.insert guid \<lparr>ioUsed = t, ioEnd = False\<rparr> RBT.empty) (iosStat s)\<rparr>)"

definition end_io_stat :: "string \<Rightarrow> string \<Rightarrow> 64 word \<Rightarrow> io_stat \<Rightarrow> io_stat" where
  "end_io_stat flag guid t s =
     (if \<not> iosRunning s then s
      else case RBT.lookup (iosStat s) flag of
        Some m \<Rightarrow>
          (case RBT.lookup m guid of
             Some n \<Rightarrow> s\<lparr>iosStat := RBT.insert flag (RBT.insert guid \<lparr>ioUsed = t - ioUsed n, ioEnd = True\<rparr> m) (iosStat s)\<rparr>
           | None \<Rightarrow> s)
      | None \<Rightarrow> s)"

text \<open>The first time of a kind is stored as \<open>true\<close>, which is 1.\<close>

definition push_io_stat :: "string \<Rightarrow> string \<Rightarrow> 64 word \<Rightarrow> io_stat \<Rightarrow> io_stat" where
  "push_io_stat flag guid t s =
     (if \<not> iosRunning s then s
      else case RBT.lookup (iosStat s) flag of
        Some m \<Rightarrow> s\<lparr>iosStat := RBT.insert flag (RBT.insert guid \<lparr>ioUsed = t, ioEnd = True\<rparr> m) (iosStat s)\<rparr>
      | None \<Rightarrow> s\<lparr>iosStat := RBT.insert flag (RBT.insert guid \<lparr>ioUsed = 1, ioEnd = True\<rparr> RBT.empty) (iosStat s)\<rparr>)"

section \<open>The log\<close>

definition show_int64 :: "64 word \<Rightarrow> string" where
  "show_int64 w = (if sint w < 0 then ''-'' @ show_nat (nat (- sint w)) else show_nat (nat (sint w)))"

record io_sums =
  sumNumber :: "64 word"
  sumTotal :: "64 word"
  sumMin :: "64 word"
  sumMax :: "64 word"
  sumOld :: io_nodes

fun io_sum_loop :: "(string \<times> io_node) list \<Rightarrow> io_sums \<Rightarrow> io_sums" where
  "io_sum_loop [] u = u"
| "io_sum_loop ((guid, n) # es) u =
     (if ioEnd n then
        let u = (if ioUsed n <s sumMin u then u\<lparr>sumMin := ioUsed n\<rparr> else u);
            u = (if sumMax u <s ioUsed n then u\<lparr>sumMax := ioUsed n\<rparr> else u)
        in io_sum_loop es (u\<lparr>sumNumber := sumNumber u + 1, sumTotal := sumTotal u + ioUsed n\<rparr>)
      else io_sum_loop es (u\<lparr>sumOld := RBT.insert guid n (sumOld u)\<rparr>))"

definition io_line :: "string \<Rightarrow> io_sums \<Rightarrow> string" where
  "io_line flag u =
     (let avg = (if 0 <s sumNumber u then word_of_int (sint (sumTotal u) sdiv sint (sumNumber u)) else 0)
      in ''used_time_stat,mark:'' @ flag @ '',count:'' @ show_int64 (sumNumber u) @ '',avg:'' @ show_int64 avg
         @ '',min:'' @ show_int64 (sumMin u) @ '',max:'' @ show_int64 (sumMax u))"

fun io_output_loop :: "(string \<times> io_nodes) list \<Rightarrow> io_stat \<Rightarrow> io_stat res" where
  "io_output_loop [] s = Inr s"
| "io_output_loop ((flag, m) # fs) s =
     (let u = io_sum_loop (RBT.entries m) \<lparr>sumNumber = 0, sumTotal = 0, sumMin = 0, sumMax = 0, sumOld = RBT.empty\<rparr>;
          s = s\<lparr>iosStat := RBT.insert flag (sumOld u) (iosStat s)\<rparr>
      in if \<not> iosLogHandle s then Inl NullDeref
         else io_output_loop fs (s\<lparr>iosLog := iosLog s @ [io_line flag u]\<rparr>))"

text \<open>One round of \<open>Output\<close>, and the thread: after each wait it goes on only while it is running.\<close>

definition io_output_round :: "io_stat \<Rightarrow> io_stat res" where
  "io_output_round s = io_output_loop (RBT.entries (iosStat s)) s"

text \<open>The thread, where the calls of the other threads between two rounds are the elements of the list.\<close>

fun io_output :: "(io_stat \<Rightarrow> io_stat) list \<Rightarrow> io_stat \<Rightarrow> io_stat res" where
  "io_output [] s = Inr s"
| "io_output (f # fs) s =
     (if \<not> iosRunning s then Inr s
      else let s = f s in if \<not> iosRunning s then Inr s else bind_res (io_output_round s) (io_output fs))"

section \<open>The reference\<close>

definition stat_of :: "io_stat \<Rightarrow> string \<Rightarrow> string \<Rightarrow> io_node option" where
  "stat_of s flag guid = (case RBT.lookup (iosStat s) flag of None \<Rightarrow> None | Some m \<Rightarrow> RBT.lookup m guid)"

definition ended_times :: "(string \<times> io_node) list \<Rightarrow> int list" where
  "ended_times es = [sint (ioUsed (snd e)). e \<leftarrow> es, ioEnd (snd e)]"

definition show_integer :: "int \<Rightarrow> string" where
  "show_integer z = (if z < 0 then ''-'' @ show_nat (nat (- z)) else show_nat (nat z))"

definition stat_line :: "string \<Rightarrow> int list \<Rightarrow> string" where
  "stat_line flag ts =
     ''used_time_stat,mark:'' @ flag @ '',count:'' @ show_integer (int (length ts))
     @ '',avg:'' @ show_integer (if ts = [] then 0 else sum_list ts sdiv int (length ts))
     @ '',min:'' @ show_integer (Min (insert 0 (set ts))) @ '',max:'' @ show_integer (Max (insert 0 (set ts)))"

definition times_fit :: "int list \<Rightarrow> bool" where
  "times_fit ts \<longleftrightarrow> - (2 ^ 63) \<le> sum_list ts \<and> sum_list ts < 2 ^ 63 \<and> length ts < 2 ^ 63"

section \<open>The loops compute it\<close>

lemma ended_times_simps [simp]:
  "ended_times [] = []"
  "ended_times ((g, n) # es) = (if ioEnd n then sint (ioUsed n) # ended_times es else ended_times es)"
  by (simp_all add: ended_times_def)

lemma sint_min: "sint (if a <s b then a else b) = min (sint a) (sint b)" for a b :: "64 word"
  by (auto simp: word_sless_alt)

lemma sint_max: "sint (if b <s a then a else b) = max (sint a) (sint b)" for a b :: "64 word"
  by (auto simp: word_sless_alt)

lemma Min_insert2: "Min (insert a (insert b (set xs))) = Min (insert (min a b) (set xs))" for a b :: "'a::linorder"
  by (cases "xs = []") (simp_all add: min.assoc)

lemma Max_insert2: "Max (insert a (insert b (set xs))) = Max (insert (max a b) (set xs))" for a b :: "'a::linorder"
  by (cases "xs = []") (simp_all add: max.assoc)

lemma io_sum_step:
  assumes "ioEnd n"
  shows "io_sum_loop ((g, n) # es) u = io_sum_loop es (u\<lparr>sumMin := (if ioUsed n <s sumMin u then ioUsed n else sumMin u),
    sumMax := (if sumMax u <s ioUsed n then ioUsed n else sumMax u), sumNumber := sumNumber u + 1, sumTotal := sumTotal u + ioUsed n\<rparr>)"
  using assms by (simp add: Let_def)

lemma io_sum_loop_spec:
  "sumNumber (io_sum_loop es u) = sumNumber u + word_of_nat (length (ended_times es)) \<and>
   sumTotal (io_sum_loop es u) = sumTotal u + word_of_int (sum_list (ended_times es)) \<and>
   sint (sumMin (io_sum_loop es u)) = Min (insert (sint (sumMin u)) (set (ended_times es))) \<and>
   sint (sumMax (io_sum_loop es u)) = Max (insert (sint (sumMax u)) (set (ended_times es)))"
proof (induction es arbitrary: u)
  case (Cons e es)
  obtain g n where e: "e = (g, n)" by (cases e)
  show ?case
  proof (cases "ioEnd n")
    case True
    show ?thesis unfolding e io_sum_step [OF True]
      using True by (simp add: Cons.IH Min_insert2 Max_insert2 sint_min sint_max add.assoc min.commute max.commute del: Min_insert Max_insert split del: if_split)
  next
    case False
    then show ?thesis unfolding e using Cons.IH by simp
  qed
qed simp

abbreviation no_sums :: io_sums where
  "no_sums \<equiv> \<lparr>sumNumber = 0, sumTotal = 0, sumMin = 0, sumMax = 0, sumOld = RBT.empty\<rparr>"

lemma show_int64_eq: "sint w = z \<Longrightarrow> show_int64 w = show_integer z"
  by (simp add: show_int64_def show_integer_def del: show_nat.simps)

lemma sint_small: "- (2 ^ 63) \<le> z \<Longrightarrow> z < 2 ^ 63 \<Longrightarrow> sint (word_of_int z :: 64 word) = z"
  by (simp add: signed_of_int signed_take_bit_int_eq_self)

lemma sdiv_bounds:
  fixes a n :: int
  assumes "0 < n" and "- b \<le> a" and "a < b"
  shows "- b \<le> a sdiv n" "a sdiv n < b"
proof -
  have d: "\<bar>a\<bar> div n \<le> \<bar>a\<bar>" "0 \<le> \<bar>a\<bar> div n" using assms(1) zdiv_mono2 [of "\<bar>a\<bar>" 1 n] by (simp_all add: pos_imp_zdiv_nonneg_iff)
  have s: "a sdiv n = sgn a * (\<bar>a\<bar> div n)" using assms(1) by (simp add: signed_divide_int_def)
  show "- b \<le> a sdiv n" "a sdiv n < b" using d assms unfolding s by (auto simp: sgn_if)
qed

lemma io_line_eq:
  assumes "times_fit (ended_times es)"
  shows "io_line flag (io_sum_loop es no_sums) = stat_line flag (ended_times es)"
proof -
  let ?ts = "ended_times es" and ?u = "io_sum_loop es no_sums"
  have fit: "- (2 ^ 63) \<le> sum_list ?ts" "sum_list ?ts < 2 ^ 63" "length ?ts < 2 ^ 63" using assms by (simp_all add: times_fit_def)
  have num: "sumNumber ?u = word_of_int (int (length ?ts))" and tot: "sumTotal ?u = word_of_int (sum_list ?ts)"
    using io_sum_loop_spec [of es no_sums] by simp_all
  have n: "sint (sumNumber ?u) = int (length ?ts)" unfolding num using fit(3) by (intro sint_small) simp_all
  have t: "sint (sumTotal ?u) = sum_list ?ts" unfolding tot by (rule sint_small [OF fit(1,2)])
  have avg: "sint (if 0 <s sumNumber ?u then word_of_int (sint (sumTotal ?u) sdiv sint (sumNumber ?u)) else 0 :: 64 word)
      = (if ?ts = [] then 0 else sum_list ?ts sdiv int (length ?ts))"
  proof (cases "?ts = []")
    case True
    then show ?thesis using num by simp
  next
    case False
    then have pos: "0 < int (length ?ts)" by simp
    have "sint (word_of_int (sum_list ?ts sdiv int (length ?ts)) :: 64 word) = sum_list ?ts sdiv int (length ?ts)"
      by (intro sint_small sdiv_bounds [OF pos fit(1,2)])
    then show ?thesis using False n t by (simp add: word_sless_alt)
  qed
  have mm: "sint (sumMin ?u) = Min (insert 0 (set ?ts))" "sint (sumMax ?u) = Max (insert 0 (set ?ts))"
    using io_sum_loop_spec [of es no_sums] by simp_all
  show ?thesis
    unfolding io_line_def stat_line_def Let_def show_int64_eq [OF n] show_int64_eq [OF avg] show_int64_eq [OF mm(1)] show_int64_eq [OF mm(2)] ..
qed

lemma io_sum_loop_old:
  "distinct (map fst es) \<Longrightarrow> RBT.lookup (sumOld (io_sum_loop es u)) g =
     (case map_of es g of Some n \<Rightarrow> if ioEnd n then RBT.lookup (sumOld u) g else Some n | None \<Rightarrow> RBT.lookup (sumOld u) g)"
proof (induction es arbitrary: u)
  case (Cons e es)
  obtain k n where e: "e = (k, n)" by (cases e)
  have "map_of es k = None" using Cons.prems e by (simp add: map_of_eq_None_iff)
  moreover have IH: "RBT.lookup (sumOld (io_sum_loop es v)) g = (case map_of es g of Some n \<Rightarrow> if ioEnd n then RBT.lookup (sumOld v) g else Some n
      | None \<Rightarrow> RBT.lookup (sumOld v) g)" for v using Cons by simp
  ultimately show ?case
    by (cases "ioEnd n") (auto simp: e Let_def IH split: option.splits)
qed simp

lemma io_output_loop_spec:
  assumes "iosLogHandle s" and "distinct (map fst fs)"
  shows "\<exists>s'. io_output_loop fs s = Inr s' \<and> iosRunning s' = iosRunning s \<and> iosLogHandle s' \<and>
    iosLog s' = iosLog s @ map (\<lambda>(flag, m). io_line flag (io_sum_loop (RBT.entries m) no_sums)) fs \<and>
    (\<forall>flag. RBT.lookup (iosStat s') flag = (case map_of fs flag of
        Some m \<Rightarrow> Some (sumOld (io_sum_loop (RBT.entries m) no_sums)) | None \<Rightarrow> RBT.lookup (iosStat s) flag))"
  using assms
proof (induction fs arbitrary: s)
  case (Cons fm fs)
  obtain flag m where fm: "fm = (flag, m)" by (cases fm)
  let ?u = "io_sum_loop (RBT.entries m) no_sums"
  let ?s = "s\<lparr>iosStat := RBT.insert flag (sumOld ?u) (iosStat s), iosLog := iosLog s @ [io_line flag ?u]\<rparr>"
  obtain s' where s': "io_output_loop fs ?s = Inr s'" "iosRunning s' = iosRunning s" "iosLogHandle s'"
      "iosLog s' = iosLog ?s @ map (\<lambda>(flag, m). io_line flag (io_sum_loop (RBT.entries m) no_sums)) fs"
      "\<forall>f. RBT.lookup (iosStat s') f = (case map_of fs f of
        Some m \<Rightarrow> Some (sumOld (io_sum_loop (RBT.entries m) no_sums)) | None \<Rightarrow> RBT.lookup (iosStat ?s) f)"
    using Cons.IH [of ?s] Cons.prems by auto
  have "map_of fs flag = None" using Cons.prems(2) fm by (simp add: map_of_eq_None_iff)
  then show ?case using s' Cons.prems(1) by (auto simp: fm Let_def split: option.splits)
qed simp

lemma io_output_round_spec:
  assumes "iosLogHandle s" and "\<forall>(flag, m)\<in>set (RBT.entries (iosStat s)). times_fit (ended_times (RBT.entries m))"
  shows "\<exists>s'. io_output_round s = Inr s' \<and>
    iosLog s' = iosLog s @ map (\<lambda>(flag, m). stat_line flag (ended_times (RBT.entries m))) (RBT.entries (iosStat s)) \<and>
    (\<forall>flag guid. stat_of s' flag guid = (case stat_of s flag guid of None \<Rightarrow> None | Some n \<Rightarrow> if ioEnd n then None else Some n))"
proof -
  obtain s' where s': "io_output_loop (RBT.entries (iosStat s)) s = Inr s'"
      "iosLog s' = iosLog s @ map (\<lambda>(flag, m). io_line flag (io_sum_loop (RBT.entries m) no_sums)) (RBT.entries (iosStat s))"
      "\<forall>flag. RBT.lookup (iosStat s') flag = (case RBT.lookup (iosStat s) flag of
        Some m \<Rightarrow> Some (sumOld (io_sum_loop (RBT.entries m) no_sums)) | None \<Rightarrow> RBT.lookup (iosStat s) flag)"
    using io_output_loop_spec [OF assms(1) RBT.distinct_entries] by auto
  have "map (\<lambda>(flag, m). io_line flag (io_sum_loop (RBT.entries m) no_sums)) (RBT.entries (iosStat s))
      = map (\<lambda>(flag, m). stat_line flag (ended_times (RBT.entries m))) (RBT.entries (iosStat s))"
    using assms(2) by (auto simp: io_line_eq)
  moreover have "stat_of s' flag guid = (case stat_of s flag guid of None \<Rightarrow> None | Some n \<Rightarrow> if ioEnd n then None else Some n)" for flag guid
    using s'(3) io_sum_loop_old [OF RBT.distinct_entries]
    by (auto simp: stat_of_def split: option.splits)
  ultimately show ?thesis using s'(1,2) by (auto simp: io_output_round_def)
qed

section \<open>What is noted\<close>

lemma stat_of_begin:
  "iosRunning s \<Longrightarrow> stat_of (begin_io_stat flag guid t s) f g =
     (if f = flag \<and> g = guid then Some \<lparr>ioUsed = t, ioEnd = False\<rparr> else stat_of s f g)"
  by (auto simp: begin_io_stat_def stat_of_def split: option.splits)

lemma stat_of_end:
  "iosRunning s \<Longrightarrow> stat_of (end_io_stat flag guid t s) f g =
     (if f = flag \<and> g = guid then map_option (\<lambda>n. \<lparr>ioUsed = t - ioUsed n, ioEnd = True\<rparr>) (stat_of s f g) else stat_of s f g)"
  by (auto simp: end_io_stat_def stat_of_def split: option.splits)

lemma stat_of_push:
  "iosRunning s \<Longrightarrow> stat_of (push_io_stat flag guid t s) f g =
     (if f = flag \<and> g = guid then Some \<lparr>ioUsed = (if RBT.lookup (iosStat s) flag = None then 1 else t), ioEnd = True\<rparr> else stat_of s f g)"
  by (auto simp: push_io_stat_def stat_of_def split: option.splits)

lemma push_first_stores_one:
  "iosRunning s \<Longrightarrow> RBT.lookup (iosStat s) flag = None \<Longrightarrow>
   stat_of (push_io_stat flag guid t s) flag guid = Some \<lparr>ioUsed = 1, ioEnd = True\<rparr>"
  by (simp add: stat_of_push)

text \<open>The minimum in the log is 0 whenever no time is negative.\<close>

lemma logged_minimum_zero: "\<forall>t\<in>set ts. 0 \<le> t \<Longrightarrow> Min (insert 0 (set ts)) = (0 :: int)"
  by (intro Min_eqI) auto

text \<open>
  C40: a round of \<open>Output\<close> writes one line for every kind of request, in ascending order of their names, with the number
  of the requests that have ended, the quotient of the sum of their times and their number, and the least and the greatest
  of the times and 0, as the specification computes them without a loop and without overflow; then exactly the requests
  that have not ended remain.
\<close>

theorem io_output_equals_reference:
  assumes "iosLogHandle s" and "\<forall>(flag, m)\<in>set (RBT.entries (iosStat s)). times_fit (ended_times (RBT.entries m))"
  shows "sorted (map fst (RBT.entries (iosStat s))) \<and> (\<exists>s'. io_output_round s = Inr s' \<and>
    iosLog s' = iosLog s @ map (\<lambda>(flag, m). stat_line flag (ended_times (RBT.entries m))) (RBT.entries (iosStat s)) \<and>
    (\<forall>flag guid. stat_of s' flag guid = (case stat_of s flag guid of None \<Rightarrow> None | Some n \<Rightarrow> if ioEnd n then None else Some n)))"
  using io_output_round_spec [OF assms] RBT.sorted_entries by blast

definition demo_io_stat :: io_stat where
  "demo_io_stat = begin_io_stat ''b'' ''3'' 9 (end_io_stat ''b'' ''2'' 30 (end_io_stat ''b'' ''1'' 25
     (begin_io_stat ''b'' ''2'' 20 (begin_io_stat ''b'' ''1'' 20 (snd (io_start True (io_stat_new\<lparr>iosLogHandle := True\<rparr>)))))))"

theorem io_output_equals_reference_witness:
  "case io_output_round demo_io_stat of Inl e \<Rightarrow> False
   | Inr s \<Rightarrow> iosLog s = [''used_time_stat,mark:b,count:2,avg:7,min:0,max:10''] \<and> stat_of s ''b'' ''1'' = None"
proof -
  have s: "iosLogHandle demo_io_stat" "iosLog demo_io_stat = []" by code_simp+
  have e: "map (\<lambda>(flag, m). (flag, ended_times (RBT.entries m))) (RBT.entries (iosStat demo_io_stat)) = [(''b'', [5, 10])]"
    and old: "map_option ioEnd (stat_of demo_io_stat ''b'' ''1'') = Some True" by code_simp+
  obtain m where m: "RBT.entries (iosStat demo_io_stat) = [(''b'', m)]" "ended_times (RBT.entries m) = [5, 10]"
    using e by (auto simp: map_eq_Cons_conv)
  then have "\<forall>(flag, m)\<in>set (RBT.entries (iosStat demo_io_stat)). times_fit (ended_times (RBT.entries m))"
    by (simp add: times_fit_def)
  from io_output_equals_reference [OF s(1) this]
  obtain s' where s': "io_output_round demo_io_stat = Inr s'" "iosLog s' = [stat_line ''b'' [5, 10]]" "stat_of s' ''b'' ''1'' = None"
    using m s(2) old by auto
  have "stat_line ''b'' [5, 10] = ''used_time_stat,mark:b,count:2,avg:7,min:0,max:10''" by code_simp
  then show ?thesis using s' by simp
qed

end
