(* ===== verification/Tcp_Client.thy ===== *)
theory Tcp_Client imports Main Send begin

text \<open>
  \<open>CXTcpClient\<close> (src/CXCommunicationClient/src/CXTcpClient.cpp): the client's end of a connection, with blocking
  calls on one socket and its own buffers.
\<close>

section \<open>State\<close>

definition CLIENT_BUF_SIZE :: u32 where
  "CLIENT_BUF_SIZE = 4096"

text \<open>
  Three buffers are replaced together: the one for the plain data, the one that goes to or comes from the codec, and
  the codec's cache; they come from \<open>new\<close> or from the pool of the server.
\<close>

record client_bufs =
  cbMain :: "byte list"
  cbReal :: "byte list"
  cbCache :: "byte list"
  cbPool :: bool

text \<open>
  The socket of the model: the bytes sent, what the next calls of \<open>send\<close> and \<open>recv\<close> return, and the bytes the peer
  sends before it closes.
\<close>

record tcp_client =
  tcCreated :: bool
  tcConnected :: bool
  tcClosing :: bool
  tcOpen :: bool
  tcPacketNumber :: u32
  tcSend :: "client_bufs option"
  tcSendLen :: u32
  tcRealSendLen :: u32
  tcCacheSendLen :: u32
  tcRecv :: "client_bufs option"
  tcRecvLen :: u32
  tcParserLen :: u32
  tcCacheRecvLen :: u32
  tcParser :: bool
  tcEncrypt :: byte
  tcCompress :: byte
  tcLeftPos :: u32
  tcLeftLen :: u32
  tcObjectID :: "byte list"
  tcRequestID :: "byte list"
  tcUsePool :: bool
  tcRealObject :: bool
  tcOut :: "byte list"
  tcSendScript :: "send_result list"
  tcIn :: "byte list"
  tcRecvScript :: "recv_result list"

definition tcp_client_new :: tcp_client where
  "tcp_client_new = \<lparr>tcCreated = False, tcConnected = False, tcClosing = False, tcOpen = False, tcPacketNumber = 0,
     tcSend = None, tcSendLen = 0, tcRealSendLen = 0, tcCacheSendLen = 0, tcRecv = None, tcRecvLen = 0, tcParserLen = 0,
     tcCacheRecvLen = 0, tcParser = False, tcEncrypt = 0, tcCompress = 0, tcLeftPos = 0, tcLeftLen = 0,
     tcObjectID = replicate 16 0, tcRequestID = replicate 16 0, tcUsePool = False, tcRealObject = False,
     tcOut = [], tcSendScript = [], tcIn = [], tcRecvScript = []\<rparr>"

text \<open>
  The environment of a call: what \<open>new byte[n]\<close> and the pool give, memory with some contents or nothing, a new
  identifier, and \<open>PrepareData\<close> and \<open>ParseData\<close> of the data parser on a source, a destination and a cache.
\<close>

record client_env =
  cliFresh :: "nat \<Rightarrow> byte list option"
  cliPool :: "nat \<Rightarrow> byte list option"
  cliGuid :: "byte list"
  cliPrepare :: "byte \<Rightarrow> byte \<Rightarrow> byte list \<Rightarrow> byte list \<Rightarrow> byte list \<Rightarrow> (bool \<times> nat \<times> byte list) res option"
  cliParse :: "byte \<Rightarrow> byte \<Rightarrow> byte list \<Rightarrow> byte list \<Rightarrow> byte list \<Rightarrow> (bool \<times> nat \<times> byte list) res option"

section \<open>Buffers\<close>

text \<open>The old buffers are deleted with \<open>delete[]\<close> wherever they came from.\<close>

definition set_buffers :: "client_env \<Rightarrow> bool \<Rightarrow> u32 \<Rightarrow> client_bufs option \<Rightarrow> client_bufs option res" where
  "set_buffers env pool n old =
     (let get = (if pool then cliPool env else cliFresh env)
      in case (get (unat n), get (unat (n * 2)), get (unat (n * 2))) of
           (Some a, Some b, Some c) \<Rightarrow>
             (case old of
                Some bufs \<Rightarrow> if cbPool bufs then Inl InvalidFree
                              else Inr (Some \<lparr>cbMain = a, cbReal = b, cbCache = c, cbPool = pool\<rparr>)
              | None \<Rightarrow> Inr (Some \<lparr>cbMain = a, cbReal = b, cbCache = c, cbPool = pool\<rparr>))
         | _ \<Rightarrow> Inr None)"

definition set_send_buffer_size :: "client_env \<Rightarrow> u32 \<Rightarrow> tcp_client \<Rightarrow> (bool \<times> tcp_client) res" where
  "set_send_buffer_size env n c =
     (let n = n + (word_of_nat sizeof_packet_data - 1)
      in if 0 < n \<and> n \<le> tcSendLen c then Inr (True, c)
         else bind_res (set_buffers env (tcUsePool c) n (tcSend c)) (\<lambda>ob. Inr (case ob of
           None \<Rightarrow> (False, c)
         | Some b \<Rightarrow> (True, c\<lparr>tcSend := Some b, tcSendLen := n, tcRealSendLen := n * 2, tcCacheSendLen := n * 2\<rparr>))))"

definition set_recv_buffer_size :: "client_env \<Rightarrow> u32 \<Rightarrow> tcp_client \<Rightarrow> (bool \<times> tcp_client) res" where
  "set_recv_buffer_size env n c =
     (let n = n + (word_of_nat sizeof_body - 1)
      in if 0 < n \<and> n \<le> tcRecvLen c then Inr (True, c)
         else bind_res (set_buffers env (tcUsePool c) n (tcRecv c)) (\<lambda>ob. Inr (case ob of
           None \<Rightarrow> (False, c)
         | Some b \<Rightarrow> (True, c\<lparr>tcRecv := Some b, tcRecvLen := n, tcParserLen := n * 2, tcCacheRecvLen := n * 2\<rparr>))))"

text \<open>The room that a caller gets in them.\<close>

definition get_send_buffer_room :: "tcp_client \<Rightarrow> u32" where
  "get_send_buffer_room c = tcSendLen c - (word_of_nat sizeof_packet_data - 1)"

definition get_recv_buffer_room :: "tcp_client \<Rightarrow> u32" where
  "get_recv_buffer_room c = tcRecvLen c - (word_of_nat sizeof_body - 1)"

definition get_real_recv_buffer_room :: "tcp_client \<Rightarrow> u32" where
  "get_real_recv_buffer_room c = tcParserLen c - (word_of_nat sizeof_body - 1)"

section \<open>Creating, connecting, closing\<close>

text \<open>The setters: the codec, the pool (used when there is one), the identifier of the object.\<close>

definition tc_set_parser :: "bool \<Rightarrow> byte \<Rightarrow> byte \<Rightarrow> tcp_client \<Rightarrow> tcp_client" where
  "tc_set_parser handle e z c = c\<lparr>tcParser := handle, tcEncrypt := e, tcCompress := z\<rparr>"

definition tc_set_object_id :: "byte list \<Rightarrow> tcp_client \<Rightarrow> tcp_client" where
  "tc_set_object_id g c = c\<lparr>tcObjectID := take CX_GUID_LEN g\<rparr>"

definition tc_use_pool :: "bool \<Rightarrow> tcp_client \<Rightarrow> tcp_client" where
  "tc_use_pool u c = c\<lparr>tcUsePool := u\<rparr>"

text \<open>\<open>made\<close> is whether the system call succeeds.\<close>

definition tc_create :: "client_env \<Rightarrow> bool \<Rightarrow> int \<Rightarrow> bool \<Rightarrow> tcp_client \<Rightarrow> (int \<times> tcp_client) res" where
  "tc_create env accepted sck made c =
     (if accepted \<and> sck \<le> 0 then Inr (INVALID_PARAMETER, c)
      else bind_res (set_send_buffer_size env CLIENT_BUF_SIZE c) (\<lambda>(ok, c).
        if \<not> ok then Inr (- 3, c)
        else bind_res (set_recv_buffer_size env CLIENT_BUF_SIZE c) (\<lambda>(ok, c).
          if \<not> ok then Inr (- 3, c)
          else
            let c = (if accepted then c\<lparr>tcOpen := True, tcConnected := True, tcCreated := True\<rparr>
                     else if made then c\<lparr>tcOpen := True, tcCreated := True\<rparr>
                     else c\<lparr>tcOpen := False\<rparr>)
            in Inr (if tcCreated c then 0 else - 2, c))))"

definition tc_close :: "tcp_client \<Rightarrow> tcp_client" where
  "tc_close c =
     (let c = (if tcConnected c \<or> tcCreated c then c\<lparr>tcOpen := False\<rparr> else c)
      in c\<lparr>tcClosing := False, tcConnected := False, tcLeftPos := 0, tcLeftLen := 0, tcRealObject := False\<rparr>)"

definition tc_connect :: "bool \<Rightarrow> tcp_client \<Rightarrow> int \<times> tcp_client" where
  "tc_connect made c =
     (if tcConnected c then (0, c)
      else if \<not> tcCreated c then (- 2, c)
      else if tcOpen c \<and> made then (0, c\<lparr>tcConnected := True\<rparr>)
      else (- 3, tc_close c))"

section \<open>Reading and writing the socket\<close>

datatype transfer_end = Complete | EndOfStream | Failed

fun tc_recv_loop :: "recv_result list \<Rightarrow> byte list \<Rightarrow> nat \<Rightarrow> transfer_end \<times> byte list \<times> byte list \<times> recv_result list" where
  "tc_recv_loop [] net left = (if left \<le> length net then (Complete, take left net, drop left net, []) else (EndOfStream, net, [], []))"
| "tc_recv_loop (r # rs) net left =
     (if left = 0 then (Complete, [], net, r # rs)
      else case r of
        GotUpTo k \<Rightarrow>
          let n = min k (min left (length net)) in
          if n = 0 then (EndOfStream, [], net, rs)
          else (case tc_recv_loop rs (drop n net) (left - n) of (e, bs, net', rs) \<Rightarrow> (e, take n net @ bs, net', rs))
      | PeerClosed \<Rightarrow> (EndOfStream, [], net, rs)
      | _ \<Rightarrow> (Failed, [], net, rs))"

text \<open>\<open>Recv\<close>: its code and the bytes it put into the caller's memory.\<close>

definition tc_recv :: "int \<Rightarrow> tcp_client \<Rightarrow> int \<times> byte list \<times> tcp_client" where
  "tc_recv want c =
     (if want \<le> 0 then (INVALID_PARAMETER, [], c)
      else if \<not> tcConnected c \<or> \<not> tcCreated c \<or> tcClosing c then (- 2, [], c)
      else case tc_recv_loop (tcRecvScript c) (tcIn c) (nat want) of (e, bs, net, rs) \<Rightarrow>
        let c = c\<lparr>tcIn := net, tcRecvScript := rs\<rparr>
        in case e of
             Complete \<Rightarrow> (int (length bs), bs, c)
           | EndOfStream \<Rightarrow> (0, bs, tc_close c)
           | Failed \<Rightarrow> (- 3, bs, tc_close c))"

fun tc_send_loop :: "send_result list \<Rightarrow> nat \<Rightarrow> transfer_end \<times> nat \<times> send_result list" where
  "tc_send_loop [] left = (Complete, left, [])"
| "tc_send_loop (r # rs) left =
     (case r of
        Wrote k \<Rightarrow>
          if k = 0 then (EndOfStream, 0, rs)
          else if left \<le> k then (Complete, left, rs)
          else (case tc_send_loop rs (left - k) of (e, n, rs) \<Rightarrow> (e, k + n, rs))
      | _ \<Rightarrow> (Failed, 0, rs))"

definition tc_send :: "byte list \<Rightarrow> tcp_client \<Rightarrow> int \<times> tcp_client" where
  "tc_send bs c =
     (if bs = [] then (INVALID_PARAMETER, c)
      else if \<not> tcConnected c \<or> \<not> tcCreated c \<or> tcClosing c then (- 2, c)
      else case tc_send_loop (tcSendScript c) (length bs) of (e, n, rs) \<Rightarrow>
        let c = c\<lparr>tcOut := tcOut c @ take n bs, tcSendScript := rs\<rparr>
        in (case e of Complete \<Rightarrow> int n | EndOfStream \<Rightarrow> 0 | Failed \<Rightarrow> - 3, c))"

section \<open>Sending a packet\<close>

text \<open>The caller's data: memory of its own, or a place in the send buffer.\<close>

datatype client_data = External "byte list" | InSendBuffer nat

text \<open>The fields in front of the data; the packet number is advanced.\<close>

definition client_head :: "u32 \<Rightarrow> tcp_client \<Rightarrow> byte list" where
  "client_head code c = tcObjectID c @ tcRequestID c @ le_enc 4 (unat code) @ le_enc 4 (unat (tcPacketNumber c))"

text \<open>
  With a codec the packet is put together in the send buffer and prepared from there.  The result is the length of
  the prepared body and the buffers, or nothing when the codec refuses.
\<close>

definition prepare_client_body ::
  "client_env \<Rightarrow> client_data \<Rightarrow> nat \<Rightarrow> u32 \<Rightarrow> tcp_client \<Rightarrow> client_bufs \<Rightarrow> (nat \<times> client_bufs) option res option" where
  "prepare_client_body env d n code c b =
     bind_run (Some (put_at (cbMain b) sizeof_header (client_head code c))) (\<lambda>main.
     bind_run (Some (case d of External bs \<Rightarrow> put_at main (sizeof_packet_data - 1) (take n bs) | InSendBuffer k \<Rightarrow> Inr main)) (\<lambda>main.
     bind_run (Some (get_at main sizeof_header (n + sizeof_body - 1))) (\<lambda>src.
     bind_run (cliPrepare env (tcEncrypt c) (tcCompress c) src (drop sizeof_header (cbReal b)) (cbCache b)) (\<lambda>(ok, k, dest).
       Some (Inr (if ok then Some (k, b\<lparr>cbMain := main, cbReal := take sizeof_header (cbReal b) @ dest\<rparr>) else None))))))"

definition plain_client_body :: "client_data \<Rightarrow> nat \<Rightarrow> u32 \<Rightarrow> tcp_client \<Rightarrow> client_bufs \<Rightarrow> (nat \<times> client_bufs) option res option" where
  "plain_client_body d n code c b =
     bind_run (Some (put_at (cbReal b) sizeof_header (client_head code c))) (\<lambda>real.
     bind_run (Some (case d of External bs \<Rightarrow> Inr (take n bs) | InSendBuffer k \<Rightarrow> get_at (cbMain b) k n)) (\<lambda>bs.
     bind_run (Some (put_at real (sizeof_packet_data - 1) bs)) (\<lambda>real.
       Some (Inr (Some (n + sizeof_body - 1, b\<lparr>cbReal := real\<rparr>))))))"

text \<open>The last part of \<open>SendPacket\<close>, from the check sum on.\<close>

definition post_client_body :: "u32 \<Rightarrow> tcp_client \<Rightarrow> (nat \<times> client_bufs) option \<Rightarrow> (int \<times> tcp_client) res option" where
  "post_client_body n c ob =
     (case ob of
        None \<Rightarrow> Some (Inr (- 3, c))
      | Some (k, b) \<Rightarrow>
          bind_run (Some (get_at (cbReal b) sizeof_header k)) (\<lambda>body.
          let h = \<lparr>wFlag = CX_PACKET_HEADER_FLAG, byCompressFlag = tcCompress c, byEncryptFlag = tcEncrypt c,
                   dwDataLen = word_of_nat k, dwCheckSum = check_sum body,
                   dwOrignDataLen = n + word_of_nat sizeof_packet_data - 1 - word_of_nat sizeof_header\<rparr>;
              real = memcpy (cbReal b) 0 (header_bytes h);
              c = c\<lparr>tcSend := Some (b\<lparr>cbReal := real\<rparr>)\<rparr>
          in case tc_send (take (k + sizeof_header) real) c of (r, c) \<Rightarrow>
               Some (Inr (if r \<noteq> int (k + sizeof_header) then (- 6, tc_close c) else (0, c)))))"

text \<open>
  \<open>SendPacket\<close>.  The pointer to the body is taken from the buffers of the moment of the call; the buffers may be
  replaced after that, and the pointer is used for the prepared data and for the check sum.
\<close>

definition tc_send_packet :: "client_env \<Rightarrow> client_data option \<Rightarrow> u32 \<Rightarrow> u32 \<Rightarrow> tcp_client \<Rightarrow> (int \<times> tcp_client) res option" where
  "tc_send_packet env od n code c =
     (case od of
        None \<Rightarrow> Some (Inr (INVALID_PARAMETER, c))
      | Some d \<Rightarrow>
          let coded = (tcEncrypt c \<noteq> 0 \<or> tcCompress c \<noteq> 0)
          in if 1024 * 1024 * 1024 < n \<or> coded \<and> \<not> tcParser c then Some (Inr (INVALID_PARAMETER, c))
             else bind_run (Some (case d of
                 InSendBuffer k \<Rightarrow> Inr (True, c\<lparr>tcRequestID := cliGuid env\<rparr>)
               | External bs \<Rightarrow> set_send_buffer_size env n (c\<lparr>tcRequestID := cliGuid env\<rparr>))) (\<lambda>(ok, c2).
               if \<not> ok then Some (Inr (- 2, c2))
               else case tcSend c2 of
                 None \<Rightarrow> Some (Inl NullDeref)
               | Some b \<Rightarrow>
                   if tcSend c = None then Some (Inl NullDeref)
                   else if tcSendLen c2 \<noteq> tcSendLen c then Some (Inl UseAfterFree)
                   else
                     let c3 = c2\<lparr>tcPacketNumber := tcPacketNumber c2 + 1\<rparr>
                     in bind_run (if coded then prepare_client_body env d (unat n) code c3 b
                                  else plain_client_body d (unat n) code c3 b) (post_client_body n c3)))"

section \<open>Receiving a packet\<close>

text \<open>
  The body in front of the receive buffer: its message code and identifiers.  The new identifier of the object is
  taken over once.
\<close>

definition take_object_id :: "byte list \<Rightarrow> tcp_client \<Rightarrow> tcp_client" where
  "take_object_id buf c =
     (let b = body_of buf
      in if \<not> tcRealObject c \<and> byObjectGuid b \<noteq> tcObjectID c \<and> byRequestID b = tcRequestID c
         then c\<lparr>tcObjectID := byObjectGuid b, tcRealObject := True\<rparr> else c)"

text \<open>
  \<open>RecvPacket\<close> into the own buffer.  The results are the code, the number of bytes of data and the message code.
  The check sum is not compared.  First what happens to the body of \<open>bs\<close> bytes in front of the receive buffer, then
  to a header.
\<close>

definition unpack_client_body :: "client_env \<Rightarrow> packet_header \<Rightarrow> byte list \<Rightarrow> client_bufs \<Rightarrow> tcp_client \<Rightarrow>
    (int \<times> u32 \<times> u32 \<times> tcp_client) res option" where
  "unpack_client_body env h bs b c =
     (if byEncryptFlag h \<noteq> 0 \<or> byCompressFlag h \<noteq> 0 then
        if \<not> tcParser c then Some (Inr (- 3, 0, 0, c))
        else bind_run (cliParse env (byEncryptFlag h) (byCompressFlag h) bs (cbReal b) (cbCache b)) (\<lambda>(ok, n, dest).
          if \<not> ok then Some (Inr (- 3, 0, 0, c))
          else bind_run (Some (get_at dest 0 n)) (\<lambda>out.
            bind_run (Some (put_at (cbMain b) 0 out)) (\<lambda>main.
              Some (Inr (0, word_of_nat n - (word_of_nat sizeof_body - 1), dwMesCode (body_of main),
                         take_object_id main (c\<lparr>tcRecv := Some (b\<lparr>cbMain := main, cbReal := dest\<rparr>)\<rparr>))))))
      else Some (Inr (0, word_of_nat (length bs) - (word_of_nat sizeof_body - 1), dwMesCode (body_of (cbMain b)),
                      take_object_id (cbMain b) c)))"

definition recv_client_body :: "client_env \<Rightarrow> packet_header \<Rightarrow> tcp_client \<Rightarrow> (int \<times> u32 \<times> u32 \<times> tcp_client) res option" where
  "recv_client_body env h c =
     bind_run (Some (set_recv_buffer_size env (dwDataLen h) c)) (\<lambda>(ok, c).
       if \<not> ok then Some (Inr (- 6, 0, 0, c))
       else case tcRecv c of
         None \<Rightarrow> Some (Inl NullDeref)
       | Some b \<Rightarrow>
           (case tc_recv (uint (dwDataLen h)) c of (r, bs, c) \<Rightarrow>
              let b = b\<lparr>cbMain := memcpy (cbMain b) 0 bs\<rparr>; c = c\<lparr>tcRecv := Some b\<rparr>
              in if r \<noteq> uint (dwDataLen h) then Some (Inr (- 7, 0, 0, c)) else unpack_client_body env h bs b c))"

definition tc_recv_packet :: "client_env \<Rightarrow> tcp_client \<Rightarrow> (int \<times> u32 \<times> u32 \<times> tcp_client) res option" where
  "tc_recv_packet env c =
     (if \<not> tcConnected c \<or> \<not> tcCreated c \<or> tcClosing c then Some (Inr (- 2, 0, 0, c))
      else case tc_recv (int sizeof_header) (c\<lparr>tcLeftPos := 0, tcLeftLen := 0\<rparr>) of (r, hb, c) \<Rightarrow>
        let h = header_of hb
        in if r \<le> 0 then Some (Inr (- 3, 0, 0, c))
           else if 1024 * 1024 * 1024 < dwDataLen h then Some (Inr (- 4, 0, 0, tc_close c))
           else if wFlag h \<noteq> CX_PACKET_HEADER_FLAG then Some (Inr (- 5, 0, 0, tc_close c))
           else recv_client_body env h c)"

text \<open>
  \<open>RecvPacket\<close> into the caller's memory of \<open>room\<close> bytes: the code, the bytes written there, the number reported
  when it is set, the message code.
\<close>

definition tc_recv_packet_into :: "client_env \<Rightarrow> nat option \<Rightarrow> tcp_client \<Rightarrow> (int \<times> byte list \<times> u32 option \<times> u32 \<times> tcp_client) res option" where
  "tc_recv_packet_into env room c =
     (case room of
        None \<Rightarrow> Some (Inr (INVALID_PARAMETER, [], None, 0, c))
      | Some room \<Rightarrow>
          bind_run (tc_recv_packet env (c\<lparr>tcLeftPos := 0, tcLeftLen := 0\<rparr>)) (\<lambda>(r, len, code, c).
            if r = 0 \<and> 0 <s len then
              (case tcRecv c of
                 None \<Rightarrow> Some (Inl NullDeref)
               | Some b \<Rightarrow>
                   let n = unat len in
                   if room < n then
                     bind_run (Some (get_at (cbMain b) (sizeof_body - 1) room)) (\<lambda>bs.
                       Some (Inr (- 8, bs, Some (word_of_nat room), code,
                                  c\<lparr>tcLeftLen := len - word_of_nat room, tcLeftPos := word_of_nat room\<rparr>)))
                   else
                     bind_run (Some (get_at (cbMain b) (sizeof_body - 1) n)) (\<lambda>bs. Some (Inr (r, bs, Some len, code, c))))
            else Some (Inr (r, [], None, code, c))))"

text \<open>\<open>ReadLeftData\<close>: whether it succeeds, the bytes and the number reported when it is set.\<close>

definition tc_read_left_data :: "nat \<Rightarrow> tcp_client \<Rightarrow> (bool \<times> byte list \<times> u32 option \<times> tcp_client) res" where
  "tc_read_left_data room c =
     (if tcLeftLen c = 0 then Inr (True, [], None, c)
      else if room < unat (tcLeftLen c) then Inr (False, [], Some 0, c)
      else case tcRecv c of
        None \<Rightarrow> Inl NullDeref
      | Some b \<Rightarrow>
          bind_res (get_at (cbMain b) (sizeof_body - 1 + unat (tcLeftPos c)) (unat (tcLeftLen c))) (\<lambda>bs.
            Inr (True, bs, Some (tcLeftLen c), c\<lparr>tcLeftLen := 0, tcLeftPos := 0\<rparr>)))"

end
