(* ===== verification/Tcp_Client_Buffers.thy ===== *)
theory Tcp_Client_Buffers imports Main Tcp_Client begin

text \<open>
  The buffers of a client always have the sizes it notes for them, and what is left of a packet lies inside of them.
\<close>

section \<open>The sizes of the buffers\<close>

definition bufs_wf :: "client_bufs option \<Rightarrow> u32 \<Rightarrow> u32 \<Rightarrow> u32 \<Rightarrow> bool" where
  "bufs_wf ob n rn cn \<longleftrightarrow> (case ob of
     None \<Rightarrow> n = 0 \<and> rn = 0 \<and> cn = 0
   | Some b \<Rightarrow> length (cbMain b) = unat n \<and> length (cbReal b) = unat rn \<and> length (cbCache b) = unat cn \<and> rn = n * 2 \<and> cn = n * 2)"

text \<open>What is left of a packet lies in the receive buffer.\<close>

definition left_wf :: "tcp_client \<Rightarrow> bool" where
  "left_wf c \<longleftrightarrow> tcLeftLen c = 0 \<or>
     (\<exists>b. tcRecv c = Some b \<and> sizeof_body - 1 + unat (tcLeftPos c) + unat (tcLeftLen c) \<le> length (cbMain b))"

definition client_wf :: "tcp_client \<Rightarrow> bool" where
  "client_wf c \<longleftrightarrow> bufs_wf (tcSend c) (tcSendLen c) (tcRealSendLen c) (tcCacheSendLen c) \<and>
     bufs_wf (tcRecv c) (tcRecvLen c) (tcParserLen c) (tcCacheRecvLen c) \<and> left_wf c \<and>
     length (tcObjectID c) = CX_GUID_LEN \<and> length (tcRequestID c) = CX_GUID_LEN \<and> (tcConnected c \<longrightarrow> tcCreated c) \<and> \<not> tcClosing c"

text \<open>Allocators give memory of the size asked for, and the codec leaves a buffer its size.\<close>

definition env_wf :: "client_env \<Rightarrow> bool" where
  "env_wf env \<longleftrightarrow> (\<forall>n bs. cliFresh env n = Some bs \<or> cliPool env n = Some bs \<longrightarrow> length bs = n) \<and> length (cliGuid env) = CX_GUID_LEN \<and>
     (\<forall>e z src dest cache ok n dest'. cliPrepare env e z src dest cache = Some (Inr (ok, n, dest')) \<or>
        cliParse env e z src dest cache = Some (Inr (ok, n, dest')) \<longrightarrow> length dest' = length dest)"

lemma set_buffers_wf:
  "env_wf env \<Longrightarrow> set_buffers env pool n old = Inr (Some b) \<Longrightarrow> bufs_wf (Some b) n (n * 2) (n * 2)"
  by (auto simp: set_buffers_def bufs_wf_def env_wf_def Let_def split: option.splits if_splits)

lemma set_buffers_fresh:
  assumes "\<forall>k. cliFresh env k \<noteq> None" and "case old of None \<Rightarrow> True | Some b \<Rightarrow> \<not> cbPool b"
  shows "\<exists>b. set_buffers env False n old = Inr (Some b)"
proof -
  obtain x y where "cliFresh env (unat n) = Some x" "cliFresh env (unat (n * 2)) = Some y" using assms(1) by blast
  then show ?thesis using assms(2) by (auto simp: set_buffers_def Let_def split: option.splits)
qed

lemma set_send_buffer_size_cases:
  assumes "set_send_buffer_size env n c = Inr (ok, c')"
  obtains "c' = c"
  | b m where "ok" "m = n + (word_of_nat sizeof_packet_data - 1)" "\<not> (0 < m \<and> m \<le> tcSendLen c)"
      "set_buffers env (tcUsePool c) m (tcSend c) = Inr (Some b)"
      "c' = c\<lparr>tcSend := Some b, tcSendLen := m, tcRealSendLen := m * 2, tcCacheSendLen := m * 2\<rparr>"
proof -
  define m where "m = n + (word_of_nat sizeof_packet_data - 1)"
  show ?thesis
  proof (cases "0 < m \<and> m \<le> tcSendLen c")
    case True
    then show ?thesis using assms that(1) unfolding set_send_buffer_size_def Let_def m_def [symmetric] by simp
  next
    case False
    have "bind_res (set_buffers env (tcUsePool c) m (tcSend c)) (\<lambda>ob. Inr (case ob of None \<Rightarrow> (False, c)
        | Some b \<Rightarrow> (True, c\<lparr>tcSend := Some b, tcSendLen := m, tcRealSendLen := m * 2, tcCacheSendLen := m * 2\<rparr>))) = Inr (ok, c')"
      using assms unfolding set_send_buffer_size_def Let_def m_def [symmetric] if_not_P [OF False] .
    then obtain ob where ob: "set_buffers env (tcUsePool c) m (tcSend c) = Inr ob" "(ok, c') = (case ob of None \<Rightarrow> (False, c)
        | Some b \<Rightarrow> (True, c\<lparr>tcSend := Some b, tcSendLen := m, tcRealSendLen := m * 2, tcCacheSendLen := m * 2\<rparr>))"
      unfolding bind_res_Inr_iff by (elim exE conjE) simp
    show ?thesis
    proof (cases ob)
      case None
      then show ?thesis using ob(2) that(1) by simp
    next
      case (Some b)
      then show ?thesis using ob False by (intro that(2) [OF _ m_def]) simp_all
    qed
  qed
qed

lemma set_recv_buffer_size_cases:
  assumes "set_recv_buffer_size env n c = Inr (ok, c')"
  obtains "c' = c" "ok \<longrightarrow> 0 < n + (word_of_nat sizeof_body - 1) \<and> n + (word_of_nat sizeof_body - 1) \<le> tcRecvLen c"
  | b m where "ok" "m = n + (word_of_nat sizeof_body - 1)" "\<not> (0 < m \<and> m \<le> tcRecvLen c)" "set_buffers env (tcUsePool c) m (tcRecv c) = Inr (Some b)"
      "c' = c\<lparr>tcRecv := Some b, tcRecvLen := m, tcParserLen := m * 2, tcCacheRecvLen := m * 2\<rparr>"
proof -
  define m where "m = n + (word_of_nat sizeof_body - 1)"
  show ?thesis
  proof (cases "0 < m \<and> m \<le> tcRecvLen c")
    case True
    then show ?thesis using assms that(1) unfolding set_recv_buffer_size_def Let_def m_def [symmetric] by simp
  next
    case False
    have "bind_res (set_buffers env (tcUsePool c) m (tcRecv c)) (\<lambda>ob. Inr (case ob of None \<Rightarrow> (False, c)
        | Some b \<Rightarrow> (True, c\<lparr>tcRecv := Some b, tcRecvLen := m, tcParserLen := m * 2, tcCacheRecvLen := m * 2\<rparr>))) = Inr (ok, c')"
      using assms unfolding set_recv_buffer_size_def Let_def m_def [symmetric] if_not_P [OF False] .
    then obtain ob where ob: "set_buffers env (tcUsePool c) m (tcRecv c) = Inr ob" "(ok, c') = (case ob of None \<Rightarrow> (False, c)
        | Some b \<Rightarrow> (True, c\<lparr>tcRecv := Some b, tcRecvLen := m, tcParserLen := m * 2, tcCacheRecvLen := m * 2\<rparr>))"
      unfolding bind_res_Inr_iff by (elim exE conjE) simp
    show ?thesis
    proof (cases ob)
      case None
      then show ?thesis using ob(2) that(1) by simp
    next
      case (Some b)
      then show ?thesis using ob False by (intro that(2) [OF _ m_def]) simp_all
    qed
  qed
qed

lemma set_send_buffer_size_wf:
  assumes "env_wf env" and "client_wf c" and "set_send_buffer_size env n c = Inr (ok, c')"
  shows "client_wf c'"
  by (rule set_send_buffer_size_cases [OF assms(3)])
    (use assms(2) in \<open>auto simp: client_wf_def left_wf_def dest!: set_buffers_wf [OF assms(1)]\<close>)

lemma set_recv_buffer_size_wf:
  assumes "env_wf env" and "client_wf c" and "0 < n + (word_of_nat sizeof_body - 1)" and "set_recv_buffer_size env n c = Inr (ok, c')"
  shows "client_wf c' \<and> tcLeftLen c' = tcLeftLen c"
proof (rule set_recv_buffer_size_cases [OF assms(4)])
  fix b m
  assume m: "m = n + (word_of_nat sizeof_body - 1)" "\<not> (0 < m \<and> m \<le> tcRecvLen c)"
    and set: "set_buffers env (tcUsePool c) m (tcRecv c) = Inr (Some b)"
    and c': "c' = c\<lparr>tcRecv := Some b, tcRecvLen := m, tcParserLen := m * 2, tcCacheRecvLen := m * 2\<rparr>"
  have new: "bufs_wf (Some b) m (m * 2) (m * 2)" by (rule set_buffers_wf [OF assms(1) set])
  have "unat (tcRecvLen c) \<le> unat m" using m assms(3) by (auto simp: word_le_nat_alt)
  then have "left_wf c'" using assms(2) new unfolding c'
    by (auto simp: client_wf_def left_wf_def bufs_wf_def)
  then show ?thesis using assms(2) new c' by (simp add: client_wf_def)
qed (use assms(2) in simp)

lemma tc_close_wf: "client_wf c \<Longrightarrow> client_wf (tc_close c)"
  by (simp add: tc_close_def client_wf_def left_wf_def Let_def)

lemma tc_send_wf: "client_wf c \<Longrightarrow> tc_send bs c = (r, c') \<Longrightarrow> client_wf c'"
  by (auto simp: tc_send_def client_wf_def left_wf_def Let_def split: if_splits prod.splits)

lemma tc_recv_wf: "client_wf c \<Longrightarrow> tc_recv n c = (r, bs, c') \<Longrightarrow> client_wf c'"
  using tc_close_wf [of "c\<lparr>tcIn := _, tcRecvScript := _\<rparr>"]
  by (auto simp: tc_recv_def Let_def client_wf_def left_wf_def split: if_splits prod.splits transfer_end.splits)

lemma tc_recv_loop_length: "tc_recv_loop rs net left = (e, bs, net', rs') \<Longrightarrow> length bs \<le> left \<and> (e = Complete \<longrightarrow> length bs = left)"
proof (induction rs net left arbitrary: e bs net' rs' rule: tc_recv_loop.induct)
  case (2 r rs net left)
  show ?case
  proof (cases r)
    case (GotUpTo k)
    define n where "n = min k (min left (length net))"
    show ?thesis
    proof (cases "left = 0 \<or> n = 0")
      case False
      obtain e2 bs2 net2 rs2 where rec: "tc_recv_loop rs (drop n net) (left - n) = (e2, bs2, net2, rs2)" by (metis prod_cases4)
      have n: "n \<le> left" "n \<le> length net" by (simp_all add: n_def)
      have "length bs2 \<le> left - n \<and> (e2 = Complete \<longrightarrow> length bs2 = left - n)"
        using "2.IH" [OF _ GotUpTo n_def _ rec] False by simp
      moreover have "bs = take n net @ bs2" "e = e2"
        using "2.prems" GotUpTo False rec by (simp_all add: n_def [symmetric] Let_def)
      ultimately show ?thesis using n by auto
    next
      case True
      then show ?thesis using "2.prems" GotUpTo by (auto simp: n_def [symmetric] Let_def split: if_splits)
    qed
  qed (use "2.prems" in \<open>auto split: if_splits\<close>)
qed (auto split: if_splits)

lemma tc_recv_length:
  "tc_recv n c = (r, bs, c') \<Longrightarrow> length bs \<le> nat n \<and> tcRecv c' = tcRecv c \<and> tcRecvLen c' = tcRecvLen c \<and>
     (0 < r \<longrightarrow> r = n \<and> int (length bs) = n \<and> tcLeftLen c' = tcLeftLen c)"
  by (auto simp: tc_recv_def Let_def tc_close_def INVALID_PARAMETER_def dest!: tc_recv_loop_length
      split: if_splits prod.splits transfer_end.splits)

lemma client_data_cases_Inr:
  "(case d of External bs \<Rightarrow> put_at main k (take n bs) | InSendBuffer j \<Rightarrow> Inr main) = Inr main' \<Longrightarrow> length main' = length main"
  by (cases d) (auto simp: put_at_Inr_iff)

lemma prepare_client_body_wf:
  assumes "env_wf env" and "client_wf c" and "tcSend c = Some b" and "prepare_client_body env d n code c b = Some (Inr (Some (k, b')))"
  shows "bufs_wf (Some b') (tcSendLen c) (tcRealSendLen c) (tcCacheSendLen c)"
proof -
  obtain main main' src dest where m: "put_at (cbMain b) sizeof_header (client_head code c) = Inr main"
    "(case d of External bs \<Rightarrow> put_at main (sizeof_packet_data - 1) (take n bs) | InSendBuffer k \<Rightarrow> Inr main) = Inr main'"
    "cliPrepare env (tcEncrypt c) (tcCompress c) src (drop sizeof_header (cbReal b)) (cbCache b) = Some (Inr (True, k, dest))"
    "b' = b\<lparr>cbMain := main', cbReal := take sizeof_header (cbReal b) @ dest\<rparr>"
    using assms(4) by (auto simp: prepare_client_body_def bind_run_Inr_iff split: if_splits)
  have "length main' = length (cbMain b)" using client_data_cases_Inr [OF m(2)] m(1) by (auto simp: put_at_Inr_iff)
  moreover have "length dest = length (drop sizeof_header (cbReal b))" using assms(1) m(3) by (auto simp: env_wf_def)
  ultimately show ?thesis using assms(2,3) m(4) by (auto simp: client_wf_def bufs_wf_def)
qed

lemma plain_client_body_wf:
  assumes "client_wf c" and "tcSend c = Some b" and "plain_client_body d n code c b = Some (Inr (Some (k, b')))"
  shows "bufs_wf (Some b') (tcSendLen c) (tcRealSendLen c) (tcCacheSendLen c)"
proof -
  obtain real bs real' where m: "put_at (cbReal b) sizeof_header (client_head code c) = Inr real"
    "put_at real (sizeof_packet_data - 1) bs = Inr real'" "b' = b\<lparr>cbReal := real'\<rparr>"
    using assms(3) by (auto simp: plain_client_body_def bind_run_Inr_iff)
  then have "length real' = length (cbReal b)" by (auto simp: put_at_Inr_iff)
  then show ?thesis using assms(1,2) m(3) by (auto simp: client_wf_def bufs_wf_def)
qed

lemma tc_send_packet_eq:
  assumes "n \<le> 1024 * 1024 * 1024" and "\<not> ((tcEncrypt c \<noteq> 0 \<or> tcCompress c \<noteq> 0) \<and> \<not> tcParser c)"
  shows "tc_send_packet env (Some d) n code c =
     bind_run (Some (case d of InSendBuffer k \<Rightarrow> Inr (True, c\<lparr>tcRequestID := cliGuid env\<rparr>)
       | External bs \<Rightarrow> set_send_buffer_size env n (c\<lparr>tcRequestID := cliGuid env\<rparr>))) (\<lambda>(ok, c2).
       if \<not> ok then Some (Inr (- 2, c2))
       else case tcSend c2 of
         None \<Rightarrow> Some (Inl NullDeref)
       | Some b \<Rightarrow>
           if tcSend c = None then Some (Inl NullDeref)
           else if tcSendLen c2 \<noteq> tcSendLen c then Some (Inl UseAfterFree)
           else
             let c3 = c2\<lparr>tcPacketNumber := tcPacketNumber c2 + 1\<rparr>
             in bind_run (if tcEncrypt c \<noteq> 0 \<or> tcCompress c \<noteq> 0 then prepare_client_body env d (unat n) code c3 b
                          else plain_client_body d (unat n) code c3 b) (post_client_body n c3))"
proof -
  have no: "\<not> (1024 * 1024 * 1024 < n \<or> (tcEncrypt c \<noteq> 0 \<or> tcCompress c \<noteq> 0) \<and> \<not> tcParser c)"
    using assms by (auto simp: not_less)
  show ?thesis unfolding tc_send_packet_def Let_def option.case if_not_P [OF no] ..
qed

lemma post_client_body_wf:
  assumes "client_wf c" and "tcSend c = Some b0" and "\<And>k b. ob = Some (k, b) \<Longrightarrow> bufs_wf (Some b) (tcSendLen c) (tcRealSendLen c) (tcCacheSendLen c)"
    and "post_client_body n c ob = Some (Inr (r, c'))"
  shows "client_wf c'"
proof (cases ob)
  case None
  then show ?thesis using assms by (simp add: post_client_body_def)
next
  case (Some kb)
  obtain k b where kb: "kb = (k, b)" by (cases kb)
  define h where "h = \<lparr>wFlag = CX_PACKET_HEADER_FLAG, byCompressFlag = tcCompress c, byEncryptFlag = tcEncrypt c,
                   dwDataLen = word_of_nat k, dwCheckSum = check_sum (take k (drop sizeof_header (cbReal b))),
                   dwOrignDataLen = n + word_of_nat sizeof_packet_data - 1 - word_of_nat sizeof_header\<rparr>"
  define real where "real = memcpy (cbReal b) 0 (header_bytes h)"
  let ?c = "c\<lparr>tcSend := Some (b\<lparr>cbReal := real\<rparr>)\<rparr>"
  obtain r1 c1 where s: "tc_send (take (k + sizeof_header) real) ?c = (r1, c1)" by (cases "tc_send (take (k + sizeof_header) real) ?c")
  have len: "sizeof_header + k \<le> length (cbReal b)" and c': "c' = (if r1 \<noteq> int (k + sizeof_header) then tc_close c1 else c1)"
    using assms(4) s unfolding Some kb post_client_body_def Let_def
    by (auto simp: bind_run_Inr_iff get_at_Inr_iff h_def [symmetric] real_def [symmetric] split: if_splits)
  have "length real = length (cbReal b)" using len by (simp add: real_def)
  then have "client_wf ?c" using assms(1,2) assms(3) [of k b] Some kb by (simp add: client_wf_def bufs_wf_def left_wf_def)
  then have "client_wf c1" using s by (rule tc_send_wf)
  then show ?thesis using c' tc_close_wf by auto
qed

lemma tc_send_packet_wf:
  assumes "env_wf env" and "client_wf c" and "tc_send_packet env od n code c = Some (Inr (r, c'))"
  shows "client_wf c'"
proof (cases "od = None \<or> \<not> n \<le> 1024 * 1024 * 1024 \<or> (tcEncrypt c \<noteq> 0 \<or> tcCompress c \<noteq> 0) \<and> \<not> tcParser c")
  case True
  then show ?thesis using assms(2,3) by (auto simp: tc_send_packet_def not_le split: if_splits option.splits)
next
  case False
  then obtain d where d: "od = Some d" by auto
  let ?c1 = "c\<lparr>tcRequestID := cliGuid env\<rparr>"
  have c1: "client_wf ?c1" using assms(1,2) by (simp add: client_wf_def left_wf_def env_wf_def)
  have call: "tc_send_packet env (Some d) n code c = Some (Inr (r, c'))" using assms(3) d by simp
  have eq: "n \<le> 1024 * 1024 * 1024" "\<not> ((tcEncrypt c \<noteq> 0 \<or> tcCompress c \<noteq> 0) \<and> \<not> tcParser c)" using False by blast+
  obtain ok c2 where c2: "(case d of InSendBuffer k \<Rightarrow> Inr (True, ?c1) | External bs \<Rightarrow> set_send_buffer_size env n ?c1) = Inr (ok, c2)"
    and rest: "(if \<not> ok then Some (Inr (- 2, c2)) else case tcSend c2 of None \<Rightarrow> Some (Inl NullDeref)
       | Some b \<Rightarrow> if tcSend c = None then Some (Inl NullDeref) else if tcSendLen c2 \<noteq> tcSendLen c then Some (Inl UseAfterFree)
           else let c3 = c2\<lparr>tcPacketNumber := tcPacketNumber c2 + 1\<rparr>
             in bind_run (if tcEncrypt c \<noteq> 0 \<or> tcCompress c \<noteq> 0 then prepare_client_body env d (unat n) code c3 b
                          else plain_client_body d (unat n) code c3 b) (post_client_body n c3)) = Some (Inr (r, c'))"
    using call unfolding tc_send_packet_eq [OF eq] bind_run_Inr_iff by (elim exE conjE) (auto split: prod.splits)
  have wf2: "client_wf c2"
  proof (cases d)
    case (External bs)
    then show ?thesis using c2 set_send_buffer_size_wf [OF assms(1) c1] by auto
  next
    case (InSendBuffer k)
    then show ?thesis using c2 c1 by simp
  qed
  show ?thesis
  proof (cases "ok \<and> tcSend c2 \<noteq> None")
    case False
    then show ?thesis using rest wf2 by (auto split: if_splits option.splits)
  next
    case True
    then obtain b where b: "ok" "tcSend c2 = Some b" by blast
    let ?c3 = "c2\<lparr>tcPacketNumber := tcPacketNumber c2 + 1\<rparr>"
    have wf3: "client_wf ?c3" using wf2 by (simp add: client_wf_def left_wf_def)
    obtain ob where ob: "(if tcEncrypt c \<noteq> 0 \<or> tcCompress c \<noteq> 0 then prepare_client_body env d (unat n) code ?c3 b
        else plain_client_body d (unat n) code ?c3 b) = Some (Inr ob)" "post_client_body n ?c3 ob = Some (Inr (r, c'))"
      using rest b by (auto simp: bind_run_Inr_iff Let_def split: if_splits)
    show ?thesis
    proof (rule post_client_body_wf [OF wf3 _ _ ob(2)])
      show "tcSend ?c3 = Some b" using b by simp
      show "bufs_wf (Some b') (tcSendLen ?c3) (tcRealSendLen ?c3) (tcCacheSendLen ?c3)" if "ob = Some (k, b')" for k b'
        using ob(1) that b(2) prepare_client_body_wf [OF assms(1) wf3, of b d "unat n" code k b']
          plain_client_body_wf [OF wf3, of b d "unat n" code k b'] by (auto split: if_splits)
    qed
  qed
qed

text \<open>Receiving.  A packet that was received entirely lies in the receive buffer with all its data.\<close>

definition whole :: "int \<Rightarrow> u32 \<Rightarrow> tcp_client \<Rightarrow> bool" where
  "whole r len c \<longleftrightarrow> client_wf c \<and> tcLeftLen c = 0 \<and>
     (r = 0 \<and> 0 <s len \<longrightarrow> (\<exists>b. tcRecv c = Some b \<and> sizeof_body - 1 + unat len \<le> length (cbMain b)))"

lemma whole_failed: "client_wf c \<Longrightarrow> tcLeftLen c = 0 \<Longrightarrow> r \<noteq> 0 \<Longrightarrow> whole r len c"
  by (simp add: whole_def)

lemma take_object_id_wf: "client_wf c \<Longrightarrow> CX_GUID_LEN \<le> length buf \<Longrightarrow> client_wf (take_object_id buf c)"
  by (simp add: take_object_id_def Let_def client_wf_def left_wf_def body_of_def CX_GUID_LEN_def)

lemma take_object_id_same [simp]: "tcRecv (take_object_id buf c) = tcRecv c" "tcLeftLen (take_object_id buf c) = tcLeftLen c"
  by (simp_all add: take_object_id_def Let_def)

text \<open>The length that is reported, 40 less than the body, is positive as a signed number only when there is so much.\<close>

lemma reported_length:
  assumes "0 <s (word_of_nat n - (word_of_nat sizeof_body - 1) :: u32)" and "n < 2 ^ 32"
  shows "sizeof_body - 1 + unat (word_of_nat n - (word_of_nat sizeof_body - 1) :: u32) = n"
proof (cases "40 \<le> n")
  case True
  then have "(word_of_nat n - (word_of_nat sizeof_body - 1) :: u32) = word_of_nat (n - 40)" by (simp add: sizes)
  moreover have "unat (word_of_nat (n - 40) :: u32) = n - 40" using assms(2) by (simp only: unat_of_nat) simp
  ultimately show ?thesis using True by (simp add: sizes)
next
  case False
  then have "(word_of_nat n - (word_of_nat sizeof_body - 1) :: u32) = - word_of_nat (40 - n)" by (simp add: sizes)
  moreover have "sint (- word_of_nat (40 - n) :: u32) = - int (40 - n)"
  proof -
    have "(- word_of_nat (40 - n) :: u32) = word_of_int (- int (40 - n))" by simp
    then show ?thesis using False by (simp only: signed_of_int) (simp add: signed_take_bit_int_eq_self)
  qed
  ultimately show ?thesis using assms(1) False by (simp add: word_sless_alt)
qed

lemma length_main: "client_wf c \<Longrightarrow> tcRecv c = Some b \<Longrightarrow> length (cbMain b) < 2 ^ 32"
  using unsigned_less [of "tcRecvLen c", where ?'a = nat] by (simp add: client_wf_def bufs_wf_def)

lemma unpack_client_body_wf:
  assumes "env_wf env" and "client_wf c" and "tcLeftLen c = 0" and "tcRecv c = Some b" and "length bs \<le> length (cbMain b)"
    and "CX_GUID_LEN \<le> length (cbMain b)" and "unpack_client_body env h bs b c = Some (Inr (r, len, code, c'))"
  shows "whole r len c'"
proof (cases "byEncryptFlag h \<noteq> 0 \<or> byCompressFlag h \<noteq> 0")
  case False
  then have c': "r = 0" "len = word_of_nat (length bs) - (word_of_nat sizeof_body - 1)" "c' = take_object_id (cbMain b) c"
    using assms(7) by (auto simp: unpack_client_body_def)
  then show ?thesis
    using take_object_id_wf [OF assms(2,6)] assms(3-5) reported_length [of "length bs"] length_main [OF assms(2,4)]
    by (auto simp: whole_def)
next
  case True
  show ?thesis
  proof (cases "r = 0")
    case False
    then show ?thesis using assms(2,3,7) True
      by (intro whole_failed) (auto simp: unpack_client_body_def bind_run_Inr_iff split: if_splits)
  next
    case ok: True
    obtain n dest main where m: "cliParse env (byEncryptFlag h) (byCompressFlag h) bs (cbReal b) (cbCache b) = Some (Inr (True, n, dest))"
      "n \<le> length dest" "length (take n dest) \<le> length (cbMain b)" "main = memcpy (cbMain b) 0 (take n dest)"
      "len = word_of_nat n - (word_of_nat sizeof_body - 1)"
      "c' = take_object_id main (c\<lparr>tcRecv := Some (b\<lparr>cbMain := main, cbReal := dest\<rparr>)\<rparr>)"
      using assms(7) True ok
      by (auto simp: unpack_client_body_def bind_run_Inr_iff get_at_Inr_iff put_at_Inr_iff split: if_splits)
    have l: "length main = length (cbMain b)" "length dest = length (cbReal b)" "n \<le> length (cbMain b)"
      using m assms(1) by (auto simp: env_wf_def)
    then have "client_wf (c\<lparr>tcRecv := Some (b\<lparr>cbMain := main, cbReal := dest\<rparr>)\<rparr>)"
      using assms(2-4) by (simp add: client_wf_def bufs_wf_def left_wf_def)
    then show ?thesis
      using take_object_id_wf [of _ main] l assms(3,6) m(5,6) reported_length [of n] length_main [OF assms(2,4)]
      by (auto simp: whole_def)
  qed
qed

lemma recv_client_body_wf:
  assumes "env_wf env" and "client_wf c" and "tcLeftLen c = 0" and "dwDataLen h \<le> 1024 * 1024 * 1024"
    and "recv_client_body env h c = Some (Inr (r, len, code, c'))"
  shows "whole r len c'"
proof -
  have n: "unat (dwDataLen h + (word_of_nat sizeof_body - 1)) = unat (dwDataLen h) + 40"
    using assms(4) by (simp add: sizes word_le_nat_alt unat_word_ariths)
  then have pos: "0 < dwDataLen h + (word_of_nat sizeof_body - 1)" by (simp add: word_less_nat_alt)
  obtain ok c1 where s: "set_recv_buffer_size env (dwDataLen h) c = Inr (ok, c1)" using assms(5)
    by (auto simp: recv_client_body_def bind_run_Inr_iff)
  have c1: "client_wf c1" "tcLeftLen c1 = 0" using set_recv_buffer_size_wf [OF assms(1,2) pos s] assms(3) by auto
  show ?thesis
  proof (cases "ok \<and> tcRecv c1 \<noteq> None")
    case False
    then show ?thesis using assms(5) s c1 by (auto simp: recv_client_body_def bind_run_Inr_iff intro: whole_failed split: if_splits option.splits)
  next
    case True
    then obtain b where b: "ok" "tcRecv c1 = Some b" by blast
    have "dwDataLen h + (word_of_nat sizeof_body - 1) \<le> tcRecvLen c1"
      by (rule set_recv_buffer_size_cases [OF s]) (use b(1) in auto)
    then have room: "unat (dwDataLen h) + 40 \<le> length (cbMain b)"
      using n c1(1) b(2) by (simp add: client_wf_def bufs_wf_def word_le_nat_alt)
    obtain r2 bs c2 where rv: "tc_recv (uint (dwDataLen h)) c1 = (r2, bs, c2)" by (cases "tc_recv (uint (dwDataLen h)) c1")
    have bs: "length bs \<le> unat (dwDataLen h)" "tcRecv c2 = Some b" using tc_recv_length [OF rv] b(2) by simp_all
    let ?b = "b\<lparr>cbMain := memcpy (cbMain b) 0 bs\<rparr>"
    let ?c = "c2\<lparr>tcRecv := Some ?b\<rparr>"
    have l: "length (cbMain ?b) = length (cbMain b)" using bs room by simp
    have c2: "client_wf c2" "tcLeftLen c2 = 0"
      using tc_recv_wf [OF c1(1) rv] c1(2) rv by (auto simp: tc_recv_def tc_close_def Let_def split: if_splits prod.splits transfer_end.splits)
    then have c3: "client_wf ?c" "tcLeftLen ?c = 0" using l bs(2) by (simp_all add: client_wf_def bufs_wf_def left_wf_def)
    have "(if r2 \<noteq> uint (dwDataLen h) then Some (Inr (- 7, 0, 0, ?c)) else unpack_client_body env h bs ?b ?c) = Some (Inr (r, len, code, c'))"
      using assms(5) s b rv by (simp add: recv_client_body_def Let_def)
    then show ?thesis
      using c3 unpack_client_body_wf [OF assms(1) c3, of ?b bs h r len code c'] l bs room
      by (auto simp: CX_GUID_LEN_def intro: whole_failed split: if_splits)
  qed
qed

lemma tc_recv_packet_wf:
  assumes "env_wf env" and "client_wf c" and "tcLeftLen c = 0" and "tc_recv_packet env c = Some (Inr (r, len, code, c'))"
  shows "whole r len c'"
proof (cases "tcConnected c \<and> tcCreated c \<and> \<not> tcClosing c")
  case False
  then show ?thesis using assms(2-4) by (auto simp: tc_recv_packet_def intro: whole_failed)
next
  case True
  let ?c = "c\<lparr>tcLeftPos := 0, tcLeftLen := 0\<rparr>"
  have wf: "client_wf ?c" using assms(2) by (simp add: client_wf_def left_wf_def)
  obtain r1 hb c1 where rv: "tc_recv (int sizeof_header) ?c = (r1, hb, c1)" by (cases "tc_recv (int sizeof_header) ?c")
  have c1: "client_wf c1" "tcLeftLen c1 = 0"
    using tc_recv_wf [OF wf rv] rv by (auto simp: tc_recv_def tc_close_def Let_def split: if_splits prod.splits transfer_end.splits)
  have close: "client_wf (tc_close c1)" "tcLeftLen (tc_close c1) = 0" using tc_close_wf [OF c1(1)] by (simp_all add: tc_close_def Let_def)
  have "(if r1 \<le> 0 then Some (Inr (- 3, 0, 0, c1)) else if 1024 * 1024 * 1024 < dwDataLen (header_of hb) then Some (Inr (- 4, 0, 0, tc_close c1))
      else if wFlag (header_of hb) \<noteq> CX_PACKET_HEADER_FLAG then Some (Inr (- 5, 0, 0, tc_close c1))
      else recv_client_body env (header_of hb) c1) = Some (Inr (r, len, code, c'))"
    using assms(4) True rv by (simp add: tc_recv_packet_def Let_def)
  then show ?thesis
    using c1 close recv_client_body_wf [OF assms(1) c1, of "header_of hb" r len code c']
    by (auto simp: not_less intro: whole_failed split: if_splits)
qed


section \<open>Every operation\<close>

lemma tc_recv_packet_into_wf:
  assumes "env_wf env" and "client_wf c" and "tc_recv_packet_into env room c = Some (Inr (r, bs, read, code, c'))"
  shows "client_wf c'"
proof (cases room)
  case None
  then show ?thesis using assms(2,3) by (simp add: tc_recv_packet_into_def)
next
  case (Some k)
  have "client_wf (c\<lparr>tcLeftPos := 0, tcLeftLen := 0\<rparr>)" using assms(2) by (simp add: client_wf_def left_wf_def)
  note wf = tc_recv_packet_wf [OF assms(1) this]
  obtain r1 len code1 c1 where rv: "tc_recv_packet env (c\<lparr>tcLeftPos := 0, tcLeftLen := 0\<rparr>) = Some (Inr (r1, len, code1, c1))"
    using assms(3) Some by (auto simp: tc_recv_packet_into_def bind_run_Inr_iff)
  have w: "whole r1 len c1" using wf rv by simp
  then have c1: "client_wf c1" "tcLeftLen c1 = 0" by (simp_all add: whole_def)
  show ?thesis
  proof (cases "r1 = 0 \<and> 0 <s len")
    case False
    then show ?thesis using assms(3) Some rv c1 by (auto simp: tc_recv_packet_into_def)
  next
    case True
    then obtain b where b: "tcRecv c1 = Some b" "sizeof_body - 1 + unat len \<le> length (cbMain b)" using w by (auto simp: whole_def)
    show ?thesis
    proof (cases "k < unat len")
      case False
      then show ?thesis using assms(3) Some rv True b c1 by (simp add: tc_recv_packet_into_def Let_def bind_run_Inr_iff)
    next
      case short: True
      have bounds: "k < 2 ^ 32" using short unsigned_less [of len, where ?'a = nat] by simp
      then have k: "unat (word_of_nat k :: u32) = k" by (simp only: unat_of_nat) simp
      then have "unat (len - word_of_nat k) = unat len - k" using short by (simp add: unat_sub word_le_nat_alt)
      moreover have "c' = c1\<lparr>tcLeftLen := len - word_of_nat k, tcLeftPos := word_of_nat k\<rparr>"
        using assms(3) Some rv True b short by (simp add: tc_recv_packet_into_def Let_def bind_run_Inr_iff)
      ultimately show ?thesis using c1 b short k by (simp add: client_wf_def left_wf_def)
    qed
  qed
qed

lemma tc_read_left_data_wf:
  "client_wf c \<Longrightarrow> tc_read_left_data room c = Inr (ok, bs, read, c') \<Longrightarrow> client_wf c'"
  by (auto simp: tc_read_left_data_def bind_res_Inr_iff client_wf_def left_wf_def split: if_splits option.splits)

text \<open>What is left can always be read: no access past the end of the buffer.\<close>

lemma tc_read_left_data_total: "client_wf c \<Longrightarrow> tc_read_left_data room c \<noteq> Inl e"
  by (auto simp: tc_read_left_data_def client_wf_def left_wf_def bind_res_def get_at_def split: option.splits sum.splits)

lemma tc_connect_wf: "client_wf c \<Longrightarrow> tc_connect made c = (r, c') \<Longrightarrow> client_wf c'"
  using tc_close_wf [of c] by (auto simp: tc_connect_def client_wf_def left_wf_def split: if_splits)

lemma tc_create_wf:
  assumes "env_wf env" and "client_wf c" and "tc_create env accepted sck made c = Inr (r, c')"
  shows "client_wf c'"
proof (cases "accepted \<and> sck \<le> 0")
  case True
  then show ?thesis using assms by (simp add: tc_create_def)
next
  case False
  obtain ok1 c1 where c1: "set_send_buffer_size env CLIENT_BUF_SIZE c = Inr (ok1, c1)"
    using assms(3) False by (auto simp: tc_create_def bind_res_Inr_iff)
  have wf1: "client_wf c1" by (rule set_send_buffer_size_wf [OF assms(1,2) c1])
  show ?thesis
  proof (cases ok1)
    case False
    then show ?thesis using assms(3) c1 wf1 \<open>\<not> (accepted \<and> sck \<le> 0)\<close> by (simp add: tc_create_def)
  next
    case True
    obtain ok2 c2 where c2: "set_recv_buffer_size env CLIENT_BUF_SIZE c1 = Inr (ok2, c2)"
      using assms(3) False c1 True by (auto simp: tc_create_def bind_res_Inr_iff)
    have "client_wf c2"
      using set_recv_buffer_size_wf [OF assms(1) wf1 _ c2] by (simp add: CLIENT_BUF_SIZE_def sizes)
    then show ?thesis using assms(3) False c1 c2 True
      by (auto simp: tc_create_def client_wf_def left_wf_def Let_def split: if_splits)
  qed
qed

text \<open>
  The calls of a client, in any order, with what the outside does in between: the peer sends, and the results of the
  system calls are whatever they are.
\<close>

inductive client_call :: "tcp_client \<Rightarrow> tcp_client \<Rightarrow> bool" where
  network: "client_call c (c\<lparr>tcIn := net, tcSendScript := ss, tcRecvScript := rs\<rparr>)"
| set_parser: "client_call c (tc_set_parser handle e z c)"
| set_object_id: "CX_GUID_LEN \<le> length g \<Longrightarrow> client_call c (tc_set_object_id g c)"
| use_pool: "client_call c (tc_use_pool u c)"
| create: "env_wf env \<Longrightarrow> tc_create env accepted sck made c = Inr (r, c') \<Longrightarrow> client_call c c'"
| connect: "tc_connect made c = (r, c') \<Longrightarrow> client_call c c'"
| close: "client_call c (tc_close c)"
| set_send: "env_wf env \<Longrightarrow> set_send_buffer_size env n c = Inr (ok, c') \<Longrightarrow> client_call c c'"
| set_recv: "env_wf env \<Longrightarrow> 0 < n + (word_of_nat sizeof_body - 1) \<Longrightarrow> set_recv_buffer_size env n c = Inr (ok, c') \<Longrightarrow> client_call c c'"
| send: "tc_send bs c = (r, c') \<Longrightarrow> client_call c c'"
| recv: "tc_recv k c = (r, bs, c') \<Longrightarrow> client_call c c'"
| send_packet: "env_wf env \<Longrightarrow> tc_send_packet env od n code c = Some (Inr (r, c')) \<Longrightarrow> client_call c c'"
| recv_packet: "env_wf env \<Longrightarrow> tc_recv_packet env c = Some (Inr (r, len, code, c')) \<Longrightarrow> client_call c c'"
| recv_packet_into: "env_wf env \<Longrightarrow> tc_recv_packet_into env room c = Some (Inr (r, bs, read, code, c')) \<Longrightarrow> client_call c c'"
| read_left: "tc_read_left_data room c = Inr (ok, bs, read, c') \<Longrightarrow> client_call c c'"

lemma tc_recv_packet_keeps:
  assumes "env_wf env" and "client_wf c" and "tc_recv_packet env c = Some (Inr (r, len, code, c'))"
  shows "client_wf c'"
proof (cases "tcConnected c \<and> tcCreated c \<and> \<not> tcClosing c")
  case True
  let ?c = "c\<lparr>tcLeftPos := 0, tcLeftLen := 0\<rparr>"
  have "tc_recv_packet env ?c = Some (Inr (r, len, code, c'))" using assms(3) True by (simp add: tc_recv_packet_def)
  moreover have "client_wf ?c" using assms(2) by (simp add: client_wf_def left_wf_def)
  ultimately show ?thesis using tc_recv_packet_wf [OF assms(1), of ?c] by (simp add: whole_def)
qed (use assms(2,3) in \<open>auto simp: tc_recv_packet_def\<close>)

lemma settings_wf:
  "client_wf c \<Longrightarrow> client_wf (c\<lparr>tcIn := net, tcSendScript := ss, tcRecvScript := rs\<rparr>)"
  "client_wf c \<Longrightarrow> client_wf (tc_set_parser handle e z c)"
  "client_wf c \<Longrightarrow> client_wf (tc_use_pool u c)"
  "client_wf c \<Longrightarrow> CX_GUID_LEN \<le> length g \<Longrightarrow> client_wf (tc_set_object_id g c)"
  by (simp_all add: client_wf_def left_wf_def tc_set_parser_def tc_set_object_id_def tc_use_pool_def)

lemma client_call_wf: "client_call c c' \<Longrightarrow> client_wf c \<Longrightarrow> client_wf c'"
  by (induction rule: client_call.induct)
    (blast intro: settings_wf tc_create_wf tc_connect_wf tc_close_wf set_send_buffer_size_wf tc_send_wf tc_recv_wf
      tc_send_packet_wf tc_recv_packet_keeps tc_recv_packet_into_wf tc_read_left_data_wf
      dest: set_recv_buffer_size_wf)+

lemma tcp_client_new_wf: "client_wf tcp_client_new"
  by (simp add: tcp_client_new_def client_wf_def left_wf_def bufs_wf_def CX_GUID_LEN_def)

lemma client_calls_wf: "client_call\<^sup>*\<^sup>* c c' \<Longrightarrow> client_wf c \<Longrightarrow> client_wf c'"
  by (induction rule: rtranclp_induct) (auto intro: client_call_wf)

end
