(* ===== verification/File64.thy ===== *)
theory File64 imports Main Prelude "HOL-Library.AList" begin

text \<open>
  \<open>CXFile64\<close> (src/CXFile/src/CXFile64.cpp), in the branch for Linux: files opened, read, written and moved in through
  the calls of POSIX.  These come first, on a state of files and descriptors; how much a call of \<open>read\<close> or \<open>write\<close>
  moves, or that it fails, is a script.
\<close>

section \<open>The calls of the system\<close>

datatype io_result = Moves nat | Fails

record os_file =
  osPath :: string
  osPos :: nat
  osReads :: bool
  osWrites :: bool

record os =
  osFiles :: "(string \<times> byte list) list"
  osTable :: "(nat \<times> os_file) list"
  osScript :: "io_result list"

record open_flags =
  flRead :: bool
  flWrite :: bool
  flTrunc :: bool
  flCreat :: bool

text \<open>The lowest descriptor that is not in use.\<close>

definition free_fd :: "os \<Rightarrow> nat" where
  "free_fd s = hd (filter (\<lambda>i. i \<notin> fst ` set (osTable s)) [0..<Suc (length (osTable s))])"

definition sys_open :: "string \<Rightarrow> open_flags \<Rightarrow> os \<Rightarrow> int \<times> os" where
  "sys_open path fl s =
     (case map_of (osFiles s) path of
        None \<Rightarrow>
          if \<not> flCreat fl then (- 1, s)
          else (int (free_fd s), s\<lparr>osFiles := AList.update path [] (osFiles s),
                  osTable := AList.update (free_fd s) \<lparr>osPath = path, osPos = 0, osReads = flRead fl, osWrites = flWrite fl\<rparr> (osTable s)\<rparr>)
      | Some bs \<Rightarrow> (int (free_fd s), s\<lparr>osFiles := (if flTrunc fl then AList.update path [] (osFiles s) else osFiles s),
                  osTable := AList.update (free_fd s) \<lparr>osPath = path, osPos = 0, osReads = flRead fl, osWrites = flWrite fl\<rparr> (osTable s)\<rparr>))"

text \<open>The open file behind a descriptor with its bytes.\<close>

definition os_file_of :: "os \<Rightarrow> int \<Rightarrow> (os_file \<times> byte list) option" where
  "os_file_of s fd = (if fd < 0 then None else case map_of (osTable s) (nat fd) of
     None \<Rightarrow> None | Some d \<Rightarrow> (case map_of (osFiles s) (osPath d) of None \<Rightarrow> None | Some bs \<Rightarrow> Some (d, bs)))"

definition set_pos :: "int \<Rightarrow> nat \<Rightarrow> os_file \<Rightarrow> os \<Rightarrow> os" where
  "set_pos fd p d s = s\<lparr>osTable := AList.update (nat fd) (d\<lparr>osPos := p\<rparr>) (osTable s)\<rparr>"

definition next_io :: "nat \<Rightarrow> os \<Rightarrow> nat option \<times> os" where
  "next_io n s = (case osScript s of [] \<Rightarrow> (Some n, s) | Moves k # rs \<Rightarrow> (Some (min k n), s\<lparr>osScript := rs\<rparr>)
     | Fails # rs \<Rightarrow> (None, s\<lparr>osScript := rs\<rparr>))"

definition sys_read :: "int \<Rightarrow> nat \<Rightarrow> os \<Rightarrow> int \<times> byte list \<times> os" where
  "sys_read fd n s =
     (case os_file_of s fd of
        None \<Rightarrow> (- 1, [], s)
      | Some (d, bs) \<Rightarrow>
          if \<not> osReads d then (- 1, [], s)
          else (case next_io n s of
                  (None, s) \<Rightarrow> (- 1, [], s)
                | (Some k, s) \<Rightarrow>
                    let out = take k (drop (osPos d) bs)
                    in (int (length out), out, set_pos fd (osPos d + length out) d s)))"

text \<open>Bytes written at a place; a gap in front of it is filled with zeros.\<close>

definition write_at :: "byte list \<Rightarrow> nat \<Rightarrow> byte list \<Rightarrow> byte list" where
  "write_at bs p xs = (if xs = [] then bs else take p (bs @ replicate (p - length bs) 0) @ xs @ drop (p + length xs) bs)"

definition sys_write :: "int \<Rightarrow> byte list \<Rightarrow> os \<Rightarrow> int \<times> os" where
  "sys_write fd xs s =
     (case os_file_of s fd of
        None \<Rightarrow> (- 1, s)
      | Some (d, bs) \<Rightarrow>
          if \<not> osWrites d then (- 1, s)
          else (case next_io (length xs) s of
                  (None, s) \<Rightarrow> (- 1, s)
                | (Some k, s) \<Rightarrow>
                    let xs = take k xs;
                        s = s\<lparr>osFiles := AList.update (osPath d) (write_at bs (osPos d) xs) (osFiles s)\<rparr>
                    in (int (length xs), set_pos fd (osPos d + length xs) d s)))"

text \<open>
  \<open>lseek\<close> with its arguments in the order of POSIX: the offset, then from where.  3 and 4 are \<open>SEEK_DATA\<close> and
  \<open>SEEK_HOLE\<close> of Linux, for files without holes.
\<close>

definition sys_lseek :: "int \<Rightarrow> int \<Rightarrow> int \<Rightarrow> os \<Rightarrow> int \<times> os" where
  "sys_lseek fd off whence s =
     (case os_file_of s fd of
        None \<Rightarrow> (- 1, s)
      | Some (d, bs) \<Rightarrow>
          let target = (if whence = 0 then Some off
                        else if whence = 1 then Some (int (osPos d) + off)
                        else if whence = 2 then Some (int (length bs) + off)
                        else if whence = 3 \<and> 0 \<le> off \<and> off < int (length bs) then Some off
                        else if whence = 4 \<and> 0 \<le> off \<and> off < int (length bs) then Some (int (length bs))
                        else None)
          in case target of
               None \<Rightarrow> (- 1, s)
             | Some t \<Rightarrow> if t < 0 then (- 1, s) else (t, set_pos fd (nat t) d s))"

definition sys_stat :: "string \<Rightarrow> os \<Rightarrow> nat option" where
  "sys_stat path s = map_option length (map_of (osFiles s) path)"

definition sys_ftruncate :: "int \<Rightarrow> nat \<Rightarrow> os \<Rightarrow> int \<times> os" where
  "sys_ftruncate fd n s =
     (case os_file_of s fd of
        None \<Rightarrow> (- 1, s)
      | Some (d, bs) \<Rightarrow>
          if \<not> osWrites d then (- 1, s)
          else (0, s\<lparr>osFiles := AList.update (osPath d) (take n (bs @ replicate (n - length bs) 0)) (osFiles s)\<rparr>))"

definition sys_close :: "int \<Rightarrow> os \<Rightarrow> os" where
  "sys_close fd s = s\<lparr>osTable := AList.delete (nat fd) (osTable s)\<rparr>"

section \<open>CXFile64\<close>

datatype seek_type = seek_begin | seek_current | seek_end | seek_unknown

datatype open_type = modeRead | modeWrite | modeReadWrite | modeNoTruncateWrite | modeNoTruncateReadWrite | mode_unknown

record file64 =
  f64Path :: string
  f64Open :: bool
  f64Handle :: int

definition file64_new :: file64 where
  "file64_new = \<lparr>f64Path = [], f64Open = False, f64Handle = - 1\<rparr>"

text \<open>An unknown type opens with the flags 0, which is reading only.\<close>

definition flags_of :: "open_type \<Rightarrow> open_flags" where
  "flags_of t = (case t of
     modeRead \<Rightarrow> \<lparr>flRead = True, flWrite = False, flTrunc = False, flCreat = False\<rparr>
   | modeWrite \<Rightarrow> \<lparr>flRead = False, flWrite = True, flTrunc = True, flCreat = True\<rparr>
   | modeReadWrite \<Rightarrow> \<lparr>flRead = True, flWrite = True, flTrunc = True, flCreat = True\<rparr>
   | modeNoTruncateWrite \<Rightarrow> \<lparr>flRead = False, flWrite = True, flTrunc = False, flCreat = True\<rparr>
   | modeNoTruncateReadWrite \<Rightarrow> \<lparr>flRead = True, flWrite = True, flTrunc = False, flCreat = True\<rparr>
   | mode_unknown \<Rightarrow> \<lparr>flRead = True, flWrite = False, flTrunc = False, flCreat = False\<rparr>)"

text \<open>The descriptor is kept also when it is refused; that only existing files are wanted is not looked at.\<close>

definition f64_open :: "string \<Rightarrow> open_type \<Rightarrow> bool \<Rightarrow> file64 \<Rightarrow> os \<Rightarrow> bool \<times> file64 \<times> os" where
  "f64_open path t only_existing f s =
     (case sys_open path (flags_of t) s of (fd, s) \<Rightarrow>
        let f = f\<lparr>f64Handle := fd\<rparr>
        in if fd \<le> 0 then (False, f, s) else (True, f\<lparr>f64Path := path, f64Open := True\<rparr>, s))"

text \<open>The results of \<open>read\<close> and \<open>write\<close> are stored in an unsigned integer of 32 bits.\<close>

definition f64_read :: "u32 \<Rightarrow> file64 \<Rightarrow> os \<Rightarrow> bool \<times> u32 \<times> byte list \<times> os" where
  "f64_read n f s =
     (if f64Handle f \<le> 0 then (False, 0, [], s)
      else case sys_read (f64Handle f) (unat n) s of (r, bs, s) \<Rightarrow>
        let k = word_of_int r :: u32 in (0 < k, k, bs, s))"

definition f64_write :: "byte list \<Rightarrow> file64 \<Rightarrow> os \<Rightarrow> bool \<times> u32 \<times> os" where
  "f64_write bs f s =
     (if f64Handle f \<le> 0 then (False, 0, s)
      else case sys_write (f64Handle f) bs s of (r, s) \<Rightarrow>
        let k = word_of_int r :: u32 in (0 < k, k, s))"

definition f64_length :: "file64 \<Rightarrow> os \<Rightarrow> u64 option" where
  "f64_length f s = (if f64Handle f \<le> 0 then None else map_option word_of_nat (sys_stat (f64Path f) s))"

definition whence_of :: "seek_type \<Rightarrow> int" where
  "whence_of t = (case t of seek_begin \<Rightarrow> 0 | seek_current \<Rightarrow> 1 | seek_end \<Rightarrow> 2 | seek_unknown \<Rightarrow> 0)"

text \<open>
  The calls of \<open>lseek\<close> have the offset and the place to count from in each other's place; the position becomes an
  \<open>int\<close> that way.  It is compared with the length as an unsigned number.
\<close>

definition f64_seek :: "64 word \<Rightarrow> seek_type \<Rightarrow> file64 \<Rightarrow> os \<Rightarrow> bool \<times> os" where
  "f64_seek pos t f s =
     (case f64_length f s of
        None \<Rightarrow> (False, s)
      | Some len \<Rightarrow>
          if len < pos then (False, s)
          else case sys_lseek (f64Handle f) 1 0 s of (old, s) \<Rightarrow>
               (case sys_lseek (f64Handle f) (whence_of t) (sint (ucast pos :: u32)) s of (r, s) \<Rightarrow> (r \<noteq> - 1, s)))"

definition f64_position :: "file64 \<Rightarrow> os \<Rightarrow> u64 option \<times> os" where
  "f64_position f s =
     (if f64Handle f \<le> 0 then (None, s)
      else case sys_lseek (f64Handle f) 1 0 s of (r, s) \<Rightarrow> (Some (word_of_int r), s))"

text \<open>The test of the result is the wrong way round.\<close>

definition f64_truncate :: "u64 \<Rightarrow> file64 \<Rightarrow> os \<Rightarrow> bool \<times> os" where
  "f64_truncate n f s =
     (if f64Handle f \<le> 0 then (False, s)
      else case sys_ftruncate (f64Handle f) (unat n) s of (r, s) \<Rightarrow> (r < 0, s))"

definition f64_close :: "file64 \<Rightarrow> os \<Rightarrow> bool \<times> file64 \<times> os" where
  "f64_close f s =
     (if \<not> f64Open f then (True, f, s)
      else if f64Handle f \<le> 0 then (True, f, s)
      else (True, f\<lparr>f64Handle := - 1, f64Open := False\<rparr>, sys_close (f64Handle f) s))"

end
