(* ===== verification/File_Server.thy ===== *)
theory File_Server imports Main File64 Login begin

text \<open>
  \<open>CXFileRPCServer\<close> (src/CXCommunicationServerTest/src/CXFileRPCServer.cpp): the object that opens, reads and writes a
  file for a client.  Every handler first works out its reply, which is then sent on the connection of the message.
\<close>

section \<open>Messages and replies\<close>

definition CX_HEAERT_BEAT_CODE :: u32 where "CX_HEAERT_BEAT_CODE = 7"
definition CX_HEAERT_BEAT_REPLY_CODE :: u32 where "CX_HEAERT_BEAT_REPLY_CODE = 8"
definition CX_FILE_OPEN_CODE :: u32 where "CX_FILE_OPEN_CODE = 2001"
definition CX_FILE_OPEN_REPLY_CODE :: u32 where "CX_FILE_OPEN_REPLY_CODE = 2002"
definition CX_FILE_SEEK_CODE :: u32 where "CX_FILE_SEEK_CODE = 2003"
definition CX_FILE_SEEK_REPLY_CODE :: u32 where "CX_FILE_SEEK_REPLY_CODE = 2004"
definition CX_FILE_READ_CODE :: u32 where "CX_FILE_READ_CODE = 2005"
definition CX_FILE_READ_REPLY_CODE :: u32 where "CX_FILE_READ_REPLY_CODE = 2006"
definition CX_FILE_WRITE_CODE :: u32 where "CX_FILE_WRITE_CODE = 2007"
definition CX_FILE_WRITE_REPLY_CODE :: u32 where "CX_FILE_WRITE_REPLY_CODE = 2008"
definition CX_FILE_CLOSE_CODE :: u32 where "CX_FILE_CLOSE_CODE = 2009"
definition CX_FILE_CLOSE_REPLY_CODE :: u32 where "CX_FILE_CLOSE_REPLY_CODE = 2010"
definition CX_FILE_GET_LENGTH_CODE :: u32 where "CX_FILE_GET_LENGTH_CODE = 2011"
definition CX_FILE_GET_LENGTH_REPLY_CODE :: u32 where "CX_FILE_GET_LENGTH_REPLY_CODE = 2012"
definition CX_FILE_GET_CUR_POS_CODE :: u32 where "CX_FILE_GET_CUR_POS_CODE = 2013"
definition CX_FILE_GET_CUR_POS_REPLY_CODE :: u32 where "CX_FILE_GET_CUR_POS_REPLY_CODE = 2014"

text \<open>The reply of every operation but reading; its data is a text.\<close>

record common_reply =
  crCode :: u32
  crValue1 :: u32
  crValue2 :: u32
  crDataLen :: u32
  crData :: string

definition common_reply_new :: common_reply where
  "common_reply_new = \<lparr>crCode = 0, crValue1 = 0, crValue2 = 0, crDataLen = 0, crData = []\<rparr>"

definition text_bytes :: "string \<Rightarrow> byte list" where
  "text_bytes cs = map (\<lambda>c. word_of_nat (of_char c)) cs"

definition common_reply_bytes :: "nat \<Rightarrow> common_reply \<Rightarrow> byte list" where
  "common_reply_bytes n r = take n (le_enc 4 (unat (crCode r)) @ le_enc 4 (unat (crValue1 r)) @ le_enc 4 (unat (crValue2 r)) @
     le_enc 4 (unat (crDataLen r)) @ text_bytes (crData r) @ replicate 1024 0)"

definition text_reply :: "u32 \<Rightarrow> string \<Rightarrow> common_reply" where
  "text_reply code t = common_reply_new\<lparr>crCode := code, crDataLen := word_of_nat (length t + 1), crData := t\<rparr>"

record read_reply =
  rrCode :: u32
  rrDataLen :: u32
  rrData :: "byte list"

definition read_reply_bytes :: "nat \<Rightarrow> read_reply \<Rightarrow> byte list" where
  "read_reply_bytes n r = take n (le_enc 4 (unat (rrCode r)) @ le_enc 4 (unat (rrDataLen r)) @ rrData r @ replicate 1024 0)"

definition read_text_reply :: "u32 \<Rightarrow> string \<Rightarrow> read_reply" where
  "read_text_reply code t = \<lparr>rrCode = code, rrDataLen = word_of_nat (length t + 1), rrData = text_bytes t\<rparr>"

text \<open>
  Numbers in a message, at a place behind the forty bytes in front of its data; reading beyond what the memory of the
  message holds is an error of the model.
\<close>

definition mes_u32 :: "message \<Rightarrow> nat \<Rightarrow> u32 res" where
  "mes_u32 m k = bind_res (get_at (mesBody m) (40 + k) 4) (\<lambda>bs. Inr (word_of_nat (le_dec bs)))"

definition mes_u64 :: "message \<Rightarrow> nat \<Rightarrow> u64 res" where
  "mes_u64 m k = bind_res (get_at (mesBody m) (40 + k) 8) (\<lambda>bs. Inr (word_of_nat (le_dec bs)))"

definition mes_byte :: "message \<Rightarrow> nat \<Rightarrow> byte res" where
  "mes_byte m k = bind_res (get_at (mesBody m) (40 + k) 1) (\<lambda>bs. Inr (hd bs))"

definition mes_c_string :: "message \<Rightarrow> nat \<Rightarrow> string res" where
  "mes_c_string m k = (if 0 \<in> set (drop (40 + k) (mesBody m)) then Inr (c_string (drop (40 + k) (mesBody m))) else Inl OutOfBounds)"

text \<open>The length of the data of a message as the handlers compute it.\<close>

definition mes_data_len :: "message \<Rightarrow> u32" where
  "mes_data_len m = mesDataLen m - (word_of_nat sizeof_body - 1)"

section \<open>State\<close>

record file_server =
  srvFile :: file64
  srvPath :: string

text \<open>The error number and its description after a failure of the system.\<close>

record file_env =
  feError :: string
  feErrno :: u32

definition open_type_of :: "byte \<Rightarrow> open_type" where
  "open_type_of b = (if b = 0 then modeRead else if b = 1 then modeWrite else if b = 2 then modeReadWrite
     else if b = 3 then modeNoTruncateWrite else if b = 4 then modeNoTruncateReadWrite else mode_unknown)"

definition seek_type_of :: "u32 \<Rightarrow> seek_type" where
  "seek_type_of w = (if w = 0 then seek_begin else if w = 1 then seek_current else if w = 2 then seek_end else seek_unknown)"

section \<open>What the handlers work out\<close>

definition close_file :: "file_server \<Rightarrow> os \<Rightarrow> file_server \<times> os" where
  "close_file v s = (if f64Open (srvFile v) then (case f64_close (srvFile v) s of (_, f, s) \<Rightarrow> (v\<lparr>srvFile := f\<rparr>, s)) else (v, s))"

definition file_open_work :: "file_env \<Rightarrow> message \<Rightarrow> file_server \<Rightarrow> os \<Rightarrow> (byte list \<times> file_server \<times> os) res" where
  "file_open_work env m v s =
     bind_res (mes_u32 m 4) (\<lambda>n.
       if n = 0 \<or> mes_data_len m < n then Inr (common_reply_bytes 16 (common_reply_new\<lparr>crCode := 201\<rparr>), v, s)
       else
         case close_file v s of (v, s) \<Rightarrow>
         bind_res (mes_byte m 0) (\<lambda>ty. bind_res (mes_byte m 1) (\<lambda>existed. bind_res (mes_c_string m 8) (\<lambda>path.
           case f64_open path (open_type_of ty) (existed = 1) (srvFile v) s of (ok, f, s) \<Rightarrow>
             if \<not> ok then Inr (common_reply_bytes (16 + length (feError env) + 1) (text_reply 202 (feError env)), v\<lparr>srvFile := f, srvPath := []\<rparr>, s)
             else Inr (common_reply_bytes 16 (common_reply_new\<lparr>crCode := 200\<rparr>), v\<lparr>srvFile := f, srvPath := path\<rparr>, s)))))"

definition file_close_work :: "file_server \<Rightarrow> os \<Rightarrow> byte list \<times> file_server \<times> os" where
  "file_close_work v s = (case close_file v s of (v, s) \<Rightarrow> (common_reply_bytes 17 (common_reply_new\<lparr>crCode := 200\<rparr>), v, s))"

definition CLOSED_TEXT :: string where "CLOSED_TEXT = ''The file is closed!'' @ [CHR 0x0A]"

definition seek_error :: "u64 \<Rightarrow> u32 \<Rightarrow> string" where
  "seek_error pos ty = ''Failed to seek to a new position '' @ show_int (sint pos) @ '', seek type is '' @ show_int (sint ty) @ ''!''"

definition write_error :: "u64 \<Rightarrow> u32 \<Rightarrow> u32 \<Rightarrow> u32 \<Rightarrow> string" where
  "write_error pos n k er = ''Failed to write data to file, in position '' @ show_int (sint pos) @ '', the size needed to write is '' @
     show_int (sint n) @ '', had written '' @ show_int (sint k) @ '',error code='' @ show_int (sint er) @ ''!''"

text \<open>Moving in the file is left out for the current position and the offset 0.\<close>

definition seek_asked :: "u64 \<Rightarrow> u32 \<Rightarrow> file64 \<Rightarrow> os \<Rightarrow> bool \<times> os" where
  "seek_asked pos ty f s = (if ty = 1 \<and> pos = 0 then (True, s) else f64_seek pos (seek_type_of ty) f s)"

text \<open>Nothing compares the announced length of the data with that of the message.\<close>

definition file_write_work :: "file_env \<Rightarrow> message \<Rightarrow> file_server \<Rightarrow> os \<Rightarrow> (byte list \<times> os) res" where
  "file_write_work env m v s =
     (let reply = (\<lambda>r. common_reply_bytes (17 + unat (crDataLen r)) r)
      in if \<not> f64Open (srvFile v) then Inr (reply (text_reply 412 CLOSED_TEXT), s)
         else bind_res (mes_u32 m 0) (\<lambda>ty. bind_res (mes_u64 m 4) (\<lambda>pos. bind_res (mes_u32 m 12) (\<lambda>n.
           case seek_asked pos ty (srvFile v) s of (ok, s) \<Rightarrow>
             if \<not> ok then Inr (reply (text_reply 501 (seek_error pos ty)), s)
             else bind_res (get_at (mesBody m) (40 + 16) (unat n)) (\<lambda>bs.
               case f64_write bs (srvFile v) s of (ok, k, s) \<Rightarrow>
                 if \<not> ok \<or> k \<noteq> n then
                   (case f64_position (srvFile v) s of (p, s) \<Rightarrow>
                      Inr (reply (text_reply 502 (write_error (case p of None \<Rightarrow> 0 | Some p \<Rightarrow> p) n k (feErrno env))), s))
                 else Inr (reply (common_reply_new\<lparr>crCode := 200\<rparr>), s))))))"

definition file_seek_work :: "message \<Rightarrow> file_server \<Rightarrow> os \<Rightarrow> (byte list \<times> os) res" where
  "file_seek_work m v s =
     (let reply = (\<lambda>r. common_reply_bytes (16 + unat (crDataLen r)) r)
      in if \<not> f64Open (srvFile v) then Inr (reply (text_reply 412 CLOSED_TEXT), s)
         else bind_res (mes_u32 m 0) (\<lambda>ty. bind_res (mes_u64 m 4) (\<lambda>pos.
           case seek_asked pos ty (srvFile v) s of (ok, s) \<Rightarrow>
             if \<not> ok then Inr (reply (text_reply 501 (seek_error pos ty)), s)
             else Inr (reply (common_reply_new\<lparr>crCode := 200\<rparr>), s))))"

definition file_length_work :: "file_server \<Rightarrow> os \<Rightarrow> byte list" where
  "file_length_work v s =
     (let reply = (\<lambda>r. common_reply_bytes (16 + unat (crDataLen r)) r)
      in if \<not> f64Open (srvFile v) then reply (text_reply 412 CLOSED_TEXT)
         else case f64_length (srvFile v) s of
           None \<Rightarrow> reply (common_reply_new\<lparr>crCode := 201\<rparr>)
         | Some n \<Rightarrow> reply (common_reply_new\<lparr>crCode := 200, crValue1 := word_of_nat (unat n div 2 ^ 32), crValue2 := word_of_nat (unat n mod 2 ^ 32)\<rparr>))"

definition position_error :: "u32 \<Rightarrow> string" where
  "position_error er = ''Failed to get the current position of the file,error code is '' @ show_int (sint er) @ ''!''"

definition file_position_work :: "file_env \<Rightarrow> file_server \<Rightarrow> os \<Rightarrow> byte list \<times> os" where
  "file_position_work env v s =
     (let reply = (\<lambda>r. common_reply_bytes (16 + unat (crDataLen r)) r)
      in if \<not> f64Open (srvFile v) then (reply (text_reply 412 CLOSED_TEXT), s)
         else case f64_position (srvFile v) s of
           (None, s) \<Rightarrow> (reply (text_reply 201 (position_error (feErrno env))), s)
         | (Some p, s) \<Rightarrow> (reply (common_reply_new\<lparr>crCode := 200, crValue1 := word_of_nat (unat p div 2 ^ 32), crValue2 := word_of_nat (unat p mod 2 ^ 32)\<rparr>), s))"

text \<open>
  Reading: the reply that is built without the file, or the one that is read into a buffer for sending.  The loop over
  \<open>Read\<close> goes on only after a read of all that was asked for, and that ends it; asking for the length and the position
  for the log moves in the file.
\<close>

definition read_length_error :: "u32 \<Rightarrow> string" where
  "read_length_error n = ''Failed to read data,the need read length '' @ show_int (sint n) @ '' is a invalid value''"

definition read_memory_error :: "u32 \<Rightarrow> string" where
  "read_memory_error n = ''Failed to read data,an error occur in allocating memory '' @ show_int (sint n) @ '' bytes''"

definition READ_CLOSED_TEXT :: string where "READ_CLOSED_TEXT = ''The file had been closed!'' @ [CHR 0x0A]"

function file_read_loop :: "file_env \<Rightarrow> u32 \<Rightarrow> u32 \<Rightarrow> file64 \<Rightarrow> read_reply \<Rightarrow> os \<Rightarrow> read_reply \<times> os" where
  "file_read_loop env want got f r s =
     (if \<not> got < want then (r, s)
      else
        let need = want - got
        in case f64_read need f s of (ok, k, bs, s) \<Rightarrow>
             if ok then
               let r = r\<lparr>rrDataLen := rrDataLen r + k, rrData := rrData r @ bs\<rparr>
               in if k \<noteq> need then (r\<lparr>rrCode := 204\<rparr>, snd (f64_position f s)) else file_read_loop env want (got + k) f r s
             else (\<lparr>rrCode = 205, rrDataLen = word_of_nat (length (feError env) + 1),
                     rrData = text_bytes (feError env) @ [0] @ drop (length (feError env) + 1) (rrData r)\<rparr>, snd (f64_position f s)))"
  by pat_completeness auto

termination
  by (relation "measure (\<lambda>(env, want, got, f, r, s). unat (want - got))")
    (auto simp: unat_gt_0)

declare file_read_loop.simps [simp del]

datatype read_work = Reply read_reply | FromFile read_reply

definition file_read_work :: "file_env \<Rightarrow> message \<Rightarrow> (u32 \<Rightarrow> bool) \<Rightarrow> file_server \<Rightarrow> os \<Rightarrow> (read_work \<times> os) res" where
  "file_read_work env m memory v s =
     bind_res (mes_u32 m 12) (\<lambda>n. Inr (
       if n = 0 \<or> 1024 * 10240 < n then (Reply (read_text_reply 201 (read_length_error n)), s)
       else if \<not> f64Open (srvFile v) then (Reply (read_text_reply 202 READ_CLOSED_TEXT), s)
       else if \<not> memory (n + 8) then (Reply (read_text_reply 203 (read_memory_error (n + 8))), s)
       else case file_read_loop env n 0 (srvFile v) \<lparr>rrCode = 200, rrDataLen = 0, rrData = []\<rparr> s of (r, s) \<Rightarrow> (FromFile r, s)))"

text \<open>
  The handlers up to sending, by the code of the message: no reply, a reply to send, or what was read into a buffer of
  so many bytes.  There is no case for \<open>GetCurrentFilePosition\<close>.
\<close>

datatype file_reply = No_Reply | Send_Reply "byte list" u32 | Send_Buffer u32 read_reply

definition file_work :: "file_env \<Rightarrow> message \<Rightarrow> (u32 \<Rightarrow> bool) \<Rightarrow> file_server \<Rightarrow> os \<Rightarrow> (file_reply \<times> file_server \<times> os) res" where
  "file_work env m memory v s =
     (let code = dwMesCode (body_of (mesBody m)) in
      if code = CX_HEAERT_BEAT_CODE then Inr (Send_Reply (common_reply_bytes 17 (common_reply_new\<lparr>crCode := 200\<rparr>)) CX_HEAERT_BEAT_REPLY_CODE, v, s)
      else if code = CX_FILE_OPEN_CODE then
        bind_res (file_open_work env m v s) (\<lambda>(bs, v, s). Inr (Send_Reply bs CX_FILE_OPEN_REPLY_CODE, v, s))
      else if code = CX_FILE_SEEK_CODE then
        bind_res (file_seek_work m v s) (\<lambda>(bs, s). Inr (Send_Reply bs CX_FILE_SEEK_REPLY_CODE, v, s))
      else if code = CX_FILE_READ_CODE then
        bind_res (file_read_work env m memory v s) (\<lambda>(w, s). bind_res (mes_u32 m 12) (\<lambda>n. Inr (case w of
          Reply r \<Rightarrow> (Send_Reply (read_reply_bytes (unat (rrDataLen r + 8)) r) CX_FILE_READ_REPLY_CODE, v, s)
        | FromFile r \<Rightarrow> (Send_Buffer n r, v, s))))
      else if code = CX_FILE_WRITE_CODE then
        bind_res (file_write_work env m v s) (\<lambda>(bs, s). Inr (Send_Reply bs CX_FILE_WRITE_REPLY_CODE, v, s))
      else if code = CX_FILE_CLOSE_CODE then
        (case file_close_work v s of (bs, v, s) \<Rightarrow> Inr (Send_Reply bs CX_FILE_CLOSE_REPLY_CODE, v, s))
      else if code = CX_FILE_GET_LENGTH_CODE then Inr (Send_Reply (file_length_work v s) CX_FILE_GET_LENGTH_REPLY_CODE, v, s)
      else Inr (No_Reply, v, s))"

section \<open>The handlers\<close>

record file_state =
  fstServer :: file_server
  fstOs :: os
  fstCon :: connection
  fstSock :: sock

text \<open>Sending a reply: -2 closes the connection.  What was read goes out in the buffer it was read into.\<close>

definition send_file_reply :: "send_env \<Rightarrow> file_reply \<Rightarrow> message \<Rightarrow> file_state \<Rightarrow> (int \<times> file_state) res" where
  "send_file_reply senv reply m st =
     (case reply of
        No_Reply \<Rightarrow> Inr (0, st)
      | Send_Reply bs code \<Rightarrow>
          bind_res (send_packet senv bs code (Some m) (fstCon st) (fstSock st)) (\<lambda>(ok, c, s).
            Inr (if ok then 0 else - 2, st\<lparr>fstCon := c, fstSock := s\<rparr>))
      | Send_Buffer want r \<Rightarrow>
          (case get_send_buffer_obj senv (want + 8) (fstCon st) of
             None \<Rightarrow> Inl NullDeref
           | Some (b, c) \<Rightarrow>
               bind_res (write_buffer (sizeof_packet_data - 1) (read_reply_bytes (8 + length (rrData r)) r) b) (\<lambda>b.
               bind_res (send_packet_buffer senv b (unat (rrDataLen r + 8)) CX_FILE_READ_REPLY_CODE (Some m) c (fstSock st)) (\<lambda>(ok, c, s).
                 Inr (if ok then 0 else - 2, st\<lparr>fstCon := c, fstSock := s\<rparr>)))))"

text \<open>\<open>DispatchMes\<close>.\<close>

definition file_dispatch :: "file_env \<Rightarrow> send_env \<Rightarrow> message \<Rightarrow> file_state \<Rightarrow> (int \<times> file_state) res" where
  "file_dispatch env senv m st =
     (if conSession (fstCon st) = None then Inr (- 1, st)
      else bind_res (file_work env m (\<lambda>n. get_send_buffer_obj senv n (fstCon st) \<noteq> None) (fstServer st) (fstOs st)) (\<lambda>(reply, v, s).
        send_file_reply senv reply m (st\<lparr>fstServer := v, fstOs := s\<rparr>)))"

text \<open>\<open>Destroy\<close> closes the file when it is not open.\<close>

definition file_destroy :: "file_server \<Rightarrow> os \<Rightarrow> file_server \<times> os" where
  "file_destroy v s =
     (case (if \<not> f64Open (srvFile v) then (case f64_close (srvFile v) s of (_, f, s) \<Rightarrow> (f, s)) else (srvFile v, s)) of
        (f, s) \<Rightarrow> (v\<lparr>srvFile := f, srvPath := []\<rparr>, s))"

text \<open>
  \<open>MessageToString\<close> ends the path of a message that opens a file; \<open>cap\<close> are the bytes that the message has from its
  body on.  The length of the path is compared with that of the whole body.
\<close>

definition file_message_to_string :: "nat \<Rightarrow> message \<Rightarrow> message res" where
  "file_message_to_string cap m =
     (if dwMesCode (body_of (mesBody m)) = CX_FILE_OPEN_CODE then
        bind_res (mes_u32 m 4) (\<lambda>n.
          let i = (if n = 0 \<or> mesDataLen m < n then 48 else 48 + (unat n - 1))
          in if cap \<le> i then Inl HeapOverflow
             else Inr (if i < length (mesBody m) then m\<lparr>mesBody := (mesBody m)[i := 0]\<rparr> else m))
      else Inr m)"

end
