(* ===== verification/Client_Channel.thy ===== *)
theory Client_Channel imports Main Tcp_Client_Buffers File_Server begin

text \<open>
  \<open>CXClientSocketChannel\<close> and \<open>CXClientConnectionSession\<close> (src/CXCommunicationClient/src): the connections of a
  client that log in to a server, and the session they belong to.  The network is a parameter: what the system
  calls that open a connection return, and the bytes that come back from the peer for those that were sent.
\<close>

section \<open>Channels\<close>

datatype channel_type = MAJOR_MES | MINOR_MES | DATA_CHANNEL | OBJECT_CHANNEL | OTHER_CHANNEL byte

definition channel_code :: "channel_type \<Rightarrow> byte" where
  "channel_code t = (case t of MAJOR_MES \<Rightarrow> 1 | MINOR_MES \<Rightarrow> 2 | DATA_CHANNEL \<Rightarrow> 3 | OBJECT_CHANNEL \<Rightarrow> 4 | OTHER_CHANNEL b \<Rightarrow> b)"

record channel =
  chTcp :: tcp_client
  chType :: channel_type
  chSession :: string
  chVerify :: string
  chOpened :: bool
  chUser :: string
  chPassword :: string
  chLoginGuid :: "byte list"

definition LOGIN_CLASS :: string where "LOGIN_CLASS = ''{6E34084E-970B-427F-A973-2763A19D7C07}''"

definition channel_new :: channel where
  "channel_new = \<lparr>chTcp = tcp_client_new, chType = MAJOR_MES, chSession = [], chVerify = [], chOpened = False,
     chUser = [], chPassword = [], chLoginGuid = guid_bytes LOGIN_CLASS\<rparr>"

definition channel_set_user :: "string \<Rightarrow> string \<Rightarrow> channel \<Rightarrow> channel" where
  "channel_set_user u p ch = ch\<lparr>chUser := u, chPassword := p\<rparr>"

text \<open>
  The channels are in a store, by their numbers, with the state of everything outside.  A network gives the memory and
  the identifiers of a call, whether a socket can be made, whether it connects, and what the peer answers on a channel.
\<close>

record 'p client_world =
  cwChannels :: "nat \<Rightarrow> channel"
  cwPeer :: 'p

record 'p network =
  netEnv :: "'p \<Rightarrow> client_env"
  netSocket :: "nat \<Rightarrow> 'p \<Rightarrow> bool \<times> 'p"
  netConnect :: "nat \<Rightarrow> 'p \<Rightarrow> bool \<times> 'p"
  netReact :: "nat \<Rightarrow> byte list \<Rightarrow> 'p \<Rightarrow> byte list \<times> 'p"

definition on_channel :: "nat \<Rightarrow> (channel \<Rightarrow> channel) \<Rightarrow> 'p client_world \<Rightarrow> 'p client_world" where
  "on_channel i f w = w\<lparr>cwChannels := (cwChannels w)(i := f (cwChannels w i))\<rparr>"

definition set_tcp :: "nat \<Rightarrow> tcp_client \<Rightarrow> 'p client_world \<Rightarrow> 'p client_world" where
  "set_tcp i c = on_channel i (\<lambda>ch. ch\<lparr>chTcp := c\<rparr>)"

abbreviation tcp_of :: "nat \<Rightarrow> 'p client_world \<Rightarrow> tcp_client" where
  "tcp_of i w \<equiv> chTcp (cwChannels w i)"

definition channel_close :: "nat \<Rightarrow> 'p client_world \<Rightarrow> 'p client_world" where
  "channel_close i w = set_tcp i (tc_close (tcp_of i w)) w"

definition channel_object_id :: "nat \<Rightarrow> byte list \<Rightarrow> 'p client_world \<Rightarrow> 'p client_world" where
  "channel_object_id i g w = set_tcp i (tc_set_object_id g (tcp_of i w)) w"

text \<open>The bytes that leave reach the peer, whose answer waits to be read.\<close>

definition channel_send :: "'p network \<Rightarrow> nat \<Rightarrow> client_data \<Rightarrow> u32 \<Rightarrow> u32 \<Rightarrow> 'p client_world \<Rightarrow> (int \<times> 'p client_world) res option" where
  "channel_send net i d n code w =
     bind_run (tc_send_packet (netEnv net (cwPeer w)) (Some d) n code (tcp_of i w)) (\<lambda>(r, c).
       case netReact net i (tcOut c) (cwPeer w) of (ins, p) \<Rightarrow>
         Some (Inr (r, (set_tcp i (c\<lparr>tcOut := [], tcIn := tcIn c @ ins\<rparr>) w)\<lparr>cwPeer := p\<rparr>)))"

definition channel_recv :: "'p network \<Rightarrow> nat \<Rightarrow> nat \<Rightarrow> 'p client_world \<Rightarrow> (int \<times> byte list \<times> u32 \<times> 'p client_world) res option" where
  "channel_recv net i room w =
     bind_run (tc_recv_packet_into (netEnv net (cwPeer w)) (Some room) (tcp_of i w)) (\<lambda>(r, bs, _, code, c).
       Some (Inr (r, bs, code, set_tcp i c w)))"

text \<open>The memory that a packet is received into is zero behind its data.\<close>

definition packet_memory :: "byte list \<Rightarrow> byte list" where
  "packet_memory bs = bs @ replicate (unat CLIENT_BUF_SIZE - length bs) 0"

definition field :: "byte list \<Rightarrow> nat \<Rightarrow> u32" where
  "field buf k = word_of_nat (le_dec (take 4 (drop k buf)))"

section \<open>Logging in\<close>

text \<open>
  The text of the reply up to its first carriage return is the identifier of the session, the rest its verification
  code.  Both are C strings in memory that need not have an end.
\<close>

definition login_ids :: "byte list \<Rightarrow> (string \<times> string) res" where
  "login_ids buf =
     (let d = drop 16 buf; k = length (takeWhile (\<lambda>b. b \<noteq> 0 \<and> b \<noteq> 13) d)
      in if length d \<le> k then Inl OutOfBounds
         else if d ! k = 0 \<or> field buf 12 - 1 < word_of_nat k then Inr ([], [])
         else if 0 \<notin> set (drop (Suc k) d) then Inl OutOfBounds
         else Inr (map (\<lambda>b. char_of (unat b)) (take k d), c_string (drop (Suc k) d)))"

definition login_request :: "channel_type \<Rightarrow> byte \<Rightarrow> u32 \<Rightarrow> string \<Rightarrow> string \<Rightarrow> byte list" where
  "login_request t user_type session_type user password =
     login_bytes \<lparr>loginSessionType = session_type, loginUserType = user_type, loginConnectionType = channel_code t, loginEncryptType = 0,
       loginReserve = 0, loginUserDataLen = word_of_nat (length (user @ [CR] @ password) + 1)\<rparr> @ text_bytes (user @ [CR] @ password) @ [0]"

text \<open>What \<open>Login\<close> does with the reply; every failure closes the connection.\<close>

definition login_reply :: "nat \<Rightarrow> byte list \<Rightarrow> u32 \<Rightarrow> 'p client_world \<Rightarrow> (int \<times> 'p client_world) res" where
  "login_reply i bs code w =
     (let buf = packet_memory bs in
      if code \<noteq> CX_SESSION_LOGIN_REPLY_CODE then Inr (- 5, channel_close i w)
      else if field buf 0 \<noteq> 200 then Inr (- 6, channel_close i w)
      else if chType (cwChannels w i) = MAJOR_MES then
        bind_res (login_ids buf) (\<lambda>(ses, ver). Inr (0, on_channel i (\<lambda>ch. ch\<lparr>chSession := ses, chVerify := ver\<rparr>) w))
      else Inr (0, w))"

definition channel_login :: "'p network \<Rightarrow> nat \<Rightarrow> string \<Rightarrow> string \<Rightarrow> byte \<Rightarrow> u32 \<Rightarrow> 'p client_world \<Rightarrow> (int \<times> 'p client_world) res option" where
  "channel_login net i user password user_type session_type w =
     (if user = [] \<or> 128 < length user \<or> password = [] \<or> 256 < length password then Some (Inr (INVALID_PARAMETER, w))
      else
        let ch = cwChannels w i; old = tcObjectID (chTcp ch);
            mes = login_request (chType ch) user_type session_type user password
        in bind_run (channel_send net i (External mes) (word_of_nat (length mes)) CX_SESSION_LOGIN_CODE
                       (channel_object_id i (chLoginGuid ch) w)) (\<lambda>(r, w).
             if r \<noteq> 0 then Some (Inr (- 3, channel_object_id i old (channel_close i w)))
             else bind_run (channel_recv net i (unat CLIENT_BUF_SIZE) w) (\<lambda>(r, bs, code, w).
               if r \<noteq> 0 then Some (Inr (- 4, channel_close i (channel_object_id i old w)))
               else Some (login_reply i bs code (channel_object_id i old w)))))"

section \<open>Opening a channel\<close>

definition channel_connect :: "'p network \<Rightarrow> nat \<Rightarrow> 'p client_world \<Rightarrow> (int \<times> 'p client_world) res" where
  "channel_connect net i w =
     (case netSocket net i (cwPeer w) of (made, p) \<Rightarrow>
        bind_res (tc_create (netEnv net (cwPeer w)) False (- 1) made (tcp_of i w)) (\<lambda>(r, c).
          let w = (set_tcp i c w)\<lparr>cwPeer := p\<rparr>
          in if r \<noteq> 0 then Inr (- 2, w)
             else case netConnect net i (cwPeer w) of (made, p) \<Rightarrow>
               (case tc_connect made (tcp_of i w) of (r, c) \<Rightarrow>
                  Inr (if r \<noteq> 0 then - 2 else 0, (set_tcp i c w)\<lparr>cwPeer := p\<rparr>))))"

text \<open>
  \<open>OpenChannel\<close>.  The main channel logs in as the user, the other ones with the identifiers of the session.  That the
  channel is open is noted once and never taken back.
\<close>

definition open_channel :: "'p network \<Rightarrow> nat \<Rightarrow> 'p client_world \<Rightarrow> (int \<times> 'p client_world) res option" where
  "open_channel net i w =
     (let ch = cwChannels w i in
      if chType ch \<noteq> MAJOR_MES \<and> (chSession ch = [] \<or> chVerify ch = []) then Some (Inr (- 1, w))
      else if chOpened ch then Some (Inr (0, w))
      else bind_run (Some (channel_connect net i w)) (\<lambda>(r, w).
        if r \<noteq> 0 then Some (Inr (- 2, w))
        else bind_run (if chType ch = MAJOR_MES then channel_login net i (chUser ch) (chPassword ch) 1 1 w
                       else channel_login net i (chSession ch) (chVerify ch) 1 1 w) (\<lambda>(r, w).
          if r \<noteq> 0 then Some (Inr (- 3, w))
          else if chSession (cwChannels w i) = [] \<or> chVerify (cwChannels w i) = [] then Some (Inr (- 1, w))
          else Some (Inr (0, on_channel i (\<lambda>ch. ch\<lparr>chOpened := True\<rparr>) w)))))"

definition heart_beat :: "'p network \<Rightarrow> nat \<Rightarrow> 'p client_world \<Rightarrow> (int \<times> 'p client_world) res option" where
  "heart_beat net i w =
     bind_run (channel_send net i (External []) 0 CX_HEAERT_BEAT_CODE w) (\<lambda>(r, w).
       if r \<noteq> 0 then Some (Inr (- 3, channel_close i w))
       else bind_run (channel_recv net i (unat CLIENT_BUF_SIZE) w) (\<lambda>(r, bs, code, w).
         if r \<noteq> 0 then Some (Inr (- 4, channel_close i w))
         else if code \<noteq> CX_HEAERT_BEAT_REPLY_CODE then Some (Inr (- 5, channel_close i w))
         else Some (Inr (0, w))))"

section \<open>The session of a client\<close>

text \<open>The values that programs keep in a session are addresses, 0 for none.\<close>

record client_session =
  csMain :: "nat option"
  csMessages :: "nat list"
  csData :: "nat list"
  csObjects :: "nat list"
  csID :: string
  csVerify :: string
  csMap :: "(string \<times> nat) list"
  csAddress :: bool
  csUser :: string
  csPassword :: string

definition client_session_new :: client_session where
  "client_session_new = \<lparr>csMain = None, csMessages = [], csData = [], csObjects = [], csID = [], csVerify = [], csMap = [],
     csAddress = False, csUser = [], csPassword = []\<rparr>"

definition cs_add_main :: "nat \<Rightarrow> client_session \<Rightarrow> client_session" where
  "cs_add_main i s = s\<lparr>csMain := Some i\<rparr>"

definition cs_add_message :: "nat \<Rightarrow> client_session \<Rightarrow> client_session" where
  "cs_add_message i s = s\<lparr>csMessages := csMessages s @ [i]\<rparr>"

definition cs_add_data :: "nat \<Rightarrow> client_session \<Rightarrow> client_session" where
  "cs_add_data i s = s\<lparr>csData := csData s @ [i]\<rparr>"

text \<open>The connections of objects are not looked at.\<close>

definition cs_remove :: "nat \<Rightarrow> client_session \<Rightarrow> int \<times> client_session" where
  "cs_remove i s =
     (if csMain s = Some i then (0, s\<lparr>csMain := None\<rparr>)
      else if i \<in> set (csMessages s) then (0, s\<lparr>csMessages := remove1 i (csMessages s)\<rparr>)
      else if i \<in> set (csData s) then (0, s\<lparr>csData := remove1 i (csData s)\<rparr>)
      else (- 2, s))"

definition cs_close :: "client_session \<Rightarrow> 'p client_world \<Rightarrow> client_session \<times> 'p client_world" where
  "cs_close s w =
     (s\<lparr>csMain := None, csMessages := [], csData := [], csID := [], csVerify := []\<rparr>,
      fold channel_close (csData s) (fold channel_close (csMessages s) (case csMain s of None \<Rightarrow> w | Some i \<Rightarrow> channel_close i w)))"

definition cs_set_data :: "string \<Rightarrow> nat \<Rightarrow> client_session \<Rightarrow> client_session" where
  "cs_set_data k v s = s\<lparr>csMap := AList.update k v (csMap s)\<rparr>"

text \<open>A key that is asked for is put into the map.\<close>

definition cs_get_data :: "string \<Rightarrow> client_session \<Rightarrow> nat \<times> client_session" where
  "cs_get_data k s = (case map_of (csMap s) k of Some v \<Rightarrow> (v, s) | None \<Rightarrow> (0, s\<lparr>csMap := AList.update k 0 (csMap s)\<rparr>))"

definition cs_remove_data :: "string \<Rightarrow> client_session \<Rightarrow> client_session" where
  "cs_remove_data k s = s\<lparr>csMap := AList.delete k (csMap s)\<rparr>"

definition cs_connection_number :: "client_session \<Rightarrow> nat" where
  "cs_connection_number s = (if csMain s = None then 0 else 1) + length (csMessages s) + length (csData s)"

definition cs_set_user :: "string \<Rightarrow> string \<Rightarrow> client_session \<Rightarrow> client_session" where
  "cs_set_user u p s = s\<lparr>csUser := u, csPassword := p\<rparr>"

definition cs_open_channel ::
  "'p network \<Rightarrow> nat \<Rightarrow> channel_type \<Rightarrow> client_session \<Rightarrow> 'p client_world \<Rightarrow> (int \<times> client_session \<times> 'p client_world) res option" where
  "cs_open_channel net i ty s w =
     (if \<not> csAddress s then Some (Inr (INVALID_PARAMETER, s, w))
      else if ty = MAJOR_MES \<and> (case csMain s of None \<Rightarrow> False | Some j \<Rightarrow> chOpened (cwChannels w j)) then Some (Inr (- 4, s, w))
      else
        let w = on_channel i (\<lambda>ch. (channel_set_user (csUser s) (csPassword s) ch)\<lparr>chType := ty, chSession := csID s, chVerify := csVerify s\<rparr>) w
        in bind_run (open_channel net i w) (\<lambda>(r, w).
             if r \<noteq> 0 then Some (Inr (r, s, channel_close i w))
             else case ty of
               MAJOR_MES \<Rightarrow> Some (Inr (0, s\<lparr>csMain := Some i, csID := chSession (cwChannels w i), csVerify := chVerify (cwChannels w i)\<rparr>, w))
             | MINOR_MES \<Rightarrow> Some (Inr (0, cs_add_message i s, w))
             | DATA_CHANNEL \<Rightarrow> Some (Inr (0, cs_add_data i s, w))
             | OBJECT_CHANNEL \<Rightarrow> Some (Inr (0, s\<lparr>csObjects := csObjects s @ [i]\<rparr>, w))
             | OTHER_CHANNEL b \<Rightarrow> Some (Inr (- 5, s, w))))"

end
