(* ===== verification/File_Client.thy ===== *)
theory File_Client imports Main Client_Channel begin

text \<open>
  \<open>CXFileTcpClient\<close> (src/CXCommunicationClient/src/CXFileTcpClient.cpp) with its base class \<open>CXRPCObjectClient\<close>: a
  file of a server, on two channels, one for commands and one for data.  Every operation is a request and its reply.
\<close>

section \<open>State\<close>

text \<open>The channels: \<open>m_cmmClient\<close> and \<open>m_dataClient\<close>.\<close>

abbreviation (input) CMM :: nat where "CMM \<equiv> 0"
abbreviation (input) DATA :: nat where "DATA \<equiv> 1"

definition FILE_CLASS :: string where "FILE_CLASS = ''{A888441E-F757-4775-B69A-CCEBD63156FB}''"

record 'p file_client =
  fcWorld :: "'p client_world"
  fcSession :: client_session
  fcIP :: string
  fcPort :: u16
  fcUser :: string
  fcPassword :: string
  fcPath :: string
  fcOpened :: bool

definition file_client_new :: "'p \<Rightarrow> 'p file_client" where
  "file_client_new p = \<lparr>fcWorld = channel_object_id DATA (guid_bytes FILE_CLASS) (channel_object_id CMM (guid_bytes FILE_CLASS)
       \<lparr>cwChannels = (\<lambda>i. channel_new), cwPeer = p\<rparr>),
     fcSession = client_session_new, fcIP = [], fcPort = 0, fcUser = [], fcPassword = [], fcPath = [], fcOpened = False\<rparr>"

definition set_remote_server :: "string \<Rightarrow> u16 \<Rightarrow> string \<Rightarrow> string \<Rightarrow> 'p file_client \<Rightarrow> 'p file_client" where
  "set_remote_server ip port user password fc = fc\<lparr>fcIP := ip, fcPort := port, fcUser := user, fcPassword := password,
     fcSession := (cs_set_user user password (fcSession fc))\<lparr>csAddress := True\<rparr>\<rparr>"

text \<open>The codec and the pool of memory, for both channels.\<close>

definition on_channels :: "(tcp_client \<Rightarrow> tcp_client) \<Rightarrow> 'p file_client \<Rightarrow> 'p file_client" where
  "on_channels f fc = (let w = fcWorld fc in fc\<lparr>fcWorld := set_tcp DATA (f (tcp_of DATA w)) (set_tcp CMM (f (tcp_of CMM w)) w)\<rparr>)"

definition fc_set_parser :: "bool \<Rightarrow> byte \<Rightarrow> byte \<Rightarrow> 'p file_client \<Rightarrow> 'p file_client" where
  "fc_set_parser handle e z = on_channels (tc_set_parser handle e z)"

definition fc_use_pool :: "bool \<Rightarrow> 'p file_client \<Rightarrow> 'p file_client" where
  "fc_use_pool u = on_channels (tc_use_pool u)"

definition close_both :: "'p file_client \<Rightarrow> 'p file_client" where
  "close_both fc = fc\<lparr>fcWorld := channel_close DATA (channel_close CMM (fcWorld fc))\<rparr>"

section \<open>A request and its reply\<close>

text \<open>
  The steps that all operations but reading share: \<open>- 3\<close> when sending fails, \<open>- 4\<close> when receiving does, \<open>- 5\<close> for another
  message, \<open>- 6\<close> for a reply that is not 200; what is done about it differs.
\<close>

definition fc_answer :: "'p network \<Rightarrow> nat \<Rightarrow> u32 \<Rightarrow> 'p file_client \<Rightarrow> (int \<times> byte list \<times> 'p file_client) res option" where
  "fc_answer net i answer fc =
     bind_run (channel_recv net i (unat CLIENT_BUF_SIZE) (fcWorld fc)) (\<lambda>(r, bs, code, w).
       let fc = fc\<lparr>fcWorld := w\<rparr>; buf = packet_memory bs
       in Some (Inr (if r \<noteq> 0 then - 4 else if code \<noteq> answer then - 5 else if field buf 0 \<noteq> 200 then - 6 else 0, buf, fc)))"

definition fc_talk :: "'p network \<Rightarrow> nat \<Rightarrow> client_data \<Rightarrow> u32 \<Rightarrow> u32 \<Rightarrow> u32 \<Rightarrow> 'p file_client \<Rightarrow> (int \<times> byte list \<times> 'p file_client) res option" where
  "fc_talk net i d n code answer fc =
     bind_run (channel_send net i d n code (fcWorld fc)) (\<lambda>(r, w).
       let fc = fc\<lparr>fcWorld := w\<rparr>
       in if r \<noteq> 0 then Some (Inr (- 3, [], fc)) else fc_answer net i answer fc)"

definition fc_close :: "'p network \<Rightarrow> 'p file_client \<Rightarrow> (int \<times> 'p file_client) res option" where
  "fc_close net fc =
     (if \<not> fcOpened fc then Some (Inr (0, fc))
      else bind_run (fc_talk net CMM (External (replicate 9 0)) 9 CX_FILE_CLOSE_CODE CX_FILE_CLOSE_REPLY_CODE fc) (\<lambda>(r, _, fc).
        Some (Inr (r, (if r = 0 then fc else close_both fc)\<lparr>fcOpened := False\<rparr>))))"

text \<open>An operation that fails closes the file first; what that returns is not looked at.\<close>

definition fc_fail :: "'p network \<Rightarrow> int \<Rightarrow> 'p file_client \<Rightarrow> (int \<times> 'p file_client) res option" where
  "fc_fail net r fc = bind_run (fc_close net fc) (\<lambda>(_, fc). Some (Inr (r, fc)))"

section \<open>Opening\<close>

definition open_code :: "open_type \<Rightarrow> byte" where
  "open_code t = (case t of modeRead \<Rightarrow> 0 | modeWrite \<Rightarrow> 1 | modeReadWrite \<Rightarrow> 2 | modeNoTruncateWrite \<Rightarrow> 3 | modeNoTruncateReadWrite \<Rightarrow> 4
     | mode_unknown \<Rightarrow> 5)"

definition client_open_data :: "string \<Rightarrow> open_type \<Rightarrow> bool \<Rightarrow> byte list" where
  "client_open_data path t existed =
     [open_code t, if existed then 1 else 0, 0, 0] @ le_enc 4 (length path + 1) @ text_bytes path @ [0]"

text \<open>The channels are opened when they are not connected.\<close>

definition fc_channel :: "'p network \<Rightarrow> nat \<Rightarrow> channel_type \<Rightarrow> 'p file_client \<Rightarrow> (int \<times> 'p file_client) res option" where
  "fc_channel net i ty fc =
     (if tcConnected (tcp_of i (fcWorld fc)) then Some (Inr (0, fc))
      else bind_run (cs_open_channel net i ty (fcSession fc) (fcWorld fc)) (\<lambda>(r, s, w). Some (Inr (r, fc\<lparr>fcSession := s, fcWorld := w\<rparr>))))"

text \<open>The path is copied into a memory of 4096 bytes whatever its length.\<close>

definition fc_open_file :: "'p network \<Rightarrow> string \<Rightarrow> open_type \<Rightarrow> bool \<Rightarrow> 'p file_client \<Rightarrow> (int \<times> 'p file_client) res option" where
  "fc_open_file net path t existed fc =
     (let mes = client_open_data path t existed in
      if unat CLIENT_BUF_SIZE < length mes then Some (Inl HeapOverflow)
      else bind_run (fc_talk net CMM (External mes) (word_of_nat (length mes)) CX_FILE_OPEN_CODE CX_FILE_OPEN_REPLY_CODE fc) (\<lambda>(r, _, fc).
        if r \<noteq> 0 then Some (Inr (r - 2, close_both fc))
        else Some (Inr (0, fc\<lparr>fcOpened := True,
               fcWorld := channel_object_id DATA (tcObjectID (tcp_of CMM (fcWorld fc))) (fcWorld fc)\<rparr>))))"

definition fc_open :: "'p network \<Rightarrow> string \<Rightarrow> open_type \<Rightarrow> bool \<Rightarrow> 'p file_client \<Rightarrow> (int \<times> 'p file_client) res option" where
  "fc_open net path t existed fc =
     (if path = [] then Some (Inr (INVALID_PARAMETER, fc))
      else if fcIP fc = [] \<or> fcPort fc = 0 \<or> fcUser fc = [] \<or> fcPassword fc = [] then Some (Inr (- 2, fc))
      else if fcOpened fc \<and> path = fcPath fc then Some (Inr (0, fc))
      else bind_run (fc_close net fc) (\<lambda>(_, fc).
        bind_run (fc_channel net CMM MAJOR_MES (fc\<lparr>fcOpened := False\<rparr>)) (\<lambda>(r, fc).
          if r \<noteq> 0 then Some (Inr (- 3, fc))
          else bind_run (fc_channel net DATA DATA_CHANNEL fc) (\<lambda>(r, fc).
            if r \<noteq> 0 then Some (Inr (- 4, fc)) else fc_open_file net path t existed fc))))"

section \<open>Reading\<close>

text \<open>
  What \<open>Read\<close> does with the first eight bytes of the reply.  \<open>prior\<close> is the number that the caller's variable for the
  length holds; it is compared also when nothing was left to read.
\<close>

definition client_read_data :: "u32 \<Rightarrow> byte list" where
  "client_read_data want = le_enc 4 1 @ le_enc 8 0 @ le_enc 4 (unat want)"

definition read_code :: "u32 \<Rightarrow> int" where
  "read_code code = (if code = 203 then - 9 else if code = 204 then - 10 else if code = 205 then - 11 else 0)"

definition fc_read_reply :: "'p network \<Rightarrow> u32 \<Rightarrow> u32 \<Rightarrow> byte list \<Rightarrow> 'p file_client \<Rightarrow> (int \<times> byte list \<times> u32 \<times> 'p file_client) res option" where
  "fc_read_reply net want prior buf fc =
     (let fail = (\<lambda>r out n fc. bind_run (fc_fail net r fc) (\<lambda>(r, fc). Some (Inr (r, out, n, fc)))) in
      if field buf 0 \<notin> {200, 204, 205} then fail (- 6) [] prior fc
      else if want < field buf 4 then fail (- 7) [] prior fc
      else if 0 < field buf 4 then
        bind_run (Some (tc_read_left_data (unat want) (tcp_of DATA (fcWorld fc)))) (\<lambda>(ok, out, k, c).
          let fc = fc\<lparr>fcWorld := set_tcp DATA c (fcWorld fc)\<rparr>; n = (case k of None \<Rightarrow> prior | Some k \<Rightarrow> k)
          in if \<not> ok then fail (- 8) out n fc
             else if want \<noteq> n then fail (- 12) out n fc
             else Some (Inr (read_code (field buf 0), out, n, fc)))
      else Some (Inr (read_code (field buf 0), [], prior, fc)))"

definition fc_read :: "'p network \<Rightarrow> u32 \<Rightarrow> u32 \<Rightarrow> 'p file_client \<Rightarrow> (int \<times> byte list \<times> u32 \<times> 'p file_client) res option" where
  "fc_read net want prior fc =
     (let fail = (\<lambda>r fc. bind_run (fc_fail net r fc) (\<lambda>(r, fc). Some (Inr (r, [], prior, fc)))) in
      if \<not> fcOpened fc then Some (Inr (- 2, [], prior, fc))
      else bind_run (channel_send net DATA (External (client_read_data want)) 16 CX_FILE_READ_CODE (fcWorld fc)) (\<lambda>(r, w).
        let fc = fc\<lparr>fcWorld := w\<rparr>
        in if r \<noteq> 0 then fail (- 3) fc
           else bind_run (Some (set_recv_buffer_size (netEnv net (cwPeer w)) (want + 8) (tcp_of DATA w))) (\<lambda>(ok, c).
             let fc = fc\<lparr>fcWorld := set_tcp DATA c w\<rparr>
             in if \<not> ok then Some (Inr (- 6, [], prior, fc))
                else bind_run (channel_recv net DATA 8 (fcWorld fc)) (\<lambda>(r, bs, code, w).
                  let fc = fc\<lparr>fcWorld := w\<rparr>
                  in if r \<noteq> 0 \<and> r \<noteq> - 8 then fail (- 4) fc
                     else if code \<noteq> CX_FILE_READ_REPLY_CODE then fail (- 5) fc
                     else fc_read_reply net want prior (packet_memory bs) fc))))"

section \<open>Writing\<close>

text \<open>
  The data is put behind the place for the head in the send buffer of the data channel, unless it is there already; the
  head is written in front of it.
\<close>

definition write_head :: "seek_type \<Rightarrow> u64 \<Rightarrow> u32 \<Rightarrow> byte list" where
  "write_head t off n = le_enc 4 (case t of seek_begin \<Rightarrow> 0 | seek_current \<Rightarrow> 1 | seek_end \<Rightarrow> 2 | seek_unknown \<Rightarrow> 3) @
     le_enc 8 (unat off) @ le_enc 4 (unat n)"

definition fill_send_buffer :: "client_env \<Rightarrow> client_data \<Rightarrow> u32 \<Rightarrow> byte list \<Rightarrow> tcp_client \<Rightarrow> (bool \<times> tcp_client) res" where
  "fill_send_buffer env d n head c =
     bind_res (case d of
         External bs \<Rightarrow> if get_send_buffer_room c < n + 16 then set_send_buffer_size env (n + 16) c else Inr (True, c)
       | InSendBuffer k \<Rightarrow> Inr (True, c)) (\<lambda>(ok, c).
       if \<not> ok then Inr (False, c)
       else case tcSend c of
         None \<Rightarrow> Inl NullDeref
       | Some b \<Rightarrow>
           bind_res (case d of External bs \<Rightarrow> put_at (cbMain b) (sizeof_packet_data - 1 + 16) (take (unat n) bs) | InSendBuffer k \<Rightarrow> Inr (cbMain b)) (\<lambda>main.
           bind_res (put_at main (sizeof_packet_data - 1) head) (\<lambda>main. Inr (True, c\<lparr>tcSend := Some (b\<lparr>cbMain := main\<rparr>)\<rparr>))))"

definition fc_write :: "'p network \<Rightarrow> client_data \<Rightarrow> u32 \<Rightarrow> u64 \<Rightarrow> seek_type \<Rightarrow> 'p file_client \<Rightarrow> (int \<times> 'p file_client) res option" where
  "fc_write net d n off t fc =
     (if \<not> fcOpened fc then Some (Inr (- 2, fc))
      else
        let w = fcWorld fc
        in bind_run (Some (fill_send_buffer (netEnv net (cwPeer w)) d n (write_head t off n) (tcp_of DATA w))) (\<lambda>(ok, c).
             let fc = fc\<lparr>fcWorld := set_tcp DATA c w\<rparr>
             in if \<not> ok then Some (Inr (- 7, fc))
                else bind_run (fc_talk net DATA (InSendBuffer (sizeof_packet_data - 1)) (n + 16) CX_FILE_WRITE_CODE CX_FILE_WRITE_REPLY_CODE fc) (\<lambda>(r, _, fc).
                  if r \<noteq> 0 then fc_fail net r fc else Some (Inr (0, fc)))))"

section \<open>Moving, the length, the position\<close>

text \<open>The operations that are one exchange of the commands' channel; the words of the reply are the result.\<close>

definition fc_command :: "'p network \<Rightarrow> byte list \<Rightarrow> u32 \<Rightarrow> u32 \<Rightarrow> 'p file_client \<Rightarrow> (int \<times> byte list \<times> 'p file_client) res option" where
  "fc_command net mes code answer fc =
     bind_run (fc_talk net CMM (External mes) (word_of_nat (length mes)) code answer fc) (\<lambda>(r, buf, fc).
       if r \<noteq> 0 then bind_run (fc_fail net r fc) (\<lambda>(r, fc). Some (Inr (r, [], fc))) else Some (Inr (0, buf, fc)))"

definition client_seek_data :: "u64 \<Rightarrow> u32 \<Rightarrow> byte list" where
  "client_seek_data pos ty = le_enc 4 (unat ty) @ le_enc 8 (unat pos)"

definition fc_seek :: "'p network \<Rightarrow> u64 \<Rightarrow> u32 \<Rightarrow> 'p file_client \<Rightarrow> (int \<times> 'p file_client) res option" where
  "fc_seek net pos ty fc =
     (if \<not> fcOpened fc then Some (Inr (- 2, fc))
      else bind_run (fc_command net (client_seek_data pos ty) CX_FILE_SEEK_CODE CX_FILE_SEEK_REPLY_CODE fc) (\<lambda>(r, _, fc). Some (Inr (r, fc))))"

definition value64 :: "byte list \<Rightarrow> u64" where
  "value64 buf = word_of_nat (unat (field buf 4) * 2 ^ 32 + unat (field buf 8))"

text \<open>Without an open file \<open>GetFileLength\<close> returns success and no length.\<close>

definition fc_length :: "'p network \<Rightarrow> 'p file_client \<Rightarrow> (int \<times> u64 option \<times> 'p file_client) res option" where
  "fc_length net fc =
     (if \<not> fcOpened fc then Some (Inr (0, None, fc))
      else bind_run (fc_command net (replicate 12 0) CX_FILE_GET_LENGTH_CODE CX_FILE_GET_LENGTH_REPLY_CODE fc) (\<lambda>(r, buf, fc).
        Some (Inr (r, if r = 0 then Some (value64 buf) else None, fc))))"

definition fc_position :: "'p network \<Rightarrow> 'p file_client \<Rightarrow> (int \<times> u64 option \<times> 'p file_client) res option" where
  "fc_position net fc =
     (if \<not> fcOpened fc then Some (Inr (- 2, None, fc))
      else bind_run (fc_command net [] CX_FILE_GET_CUR_POS_CODE CX_FILE_GET_CUR_POS_REPLY_CODE fc) (\<lambda>(r, buf, fc).
        Some (Inr (r, if r = 0 then Some (value64 buf) else None, fc))))"

definition CX_SET_RECV_BUF_SIZE_CODE :: u32 where "CX_SET_RECV_BUF_SIZE_CODE = 9"
definition CX_SET_RECV_BUF_SIZE_REPLY_CODE :: u32 where "CX_SET_RECV_BUF_SIZE_REPLY_CODE = 10"

definition fc_peer_buffer :: "'p network \<Rightarrow> u32 \<Rightarrow> 'p file_client \<Rightarrow> (int \<times> 'p file_client) res option" where
  "fc_peer_buffer net n fc =
     bind_run (fc_command net (replicate 4 0 @ le_enc 4 (unat n) @ replicate 9 0) CX_SET_RECV_BUF_SIZE_CODE CX_SET_RECV_BUF_SIZE_REPLY_CODE fc)
       (\<lambda>(r, _, fc). Some (Inr (r, fc)))"

text \<open>The end of the object.\<close>

definition fc_destroy :: "'p network \<Rightarrow> 'p file_client \<Rightarrow> 'p file_client res option" where
  "fc_destroy net fc = bind_run (fc_close net fc) (\<lambda>(_, fc).
     case cs_close (fcSession fc) (fcWorld fc) of (s, w) \<Rightarrow> Some (Inr (fc\<lparr>fcSession := s, fcWorld := w\<rparr>)))"

end
