(* ===== verification/File_Client_Faults.thy ===== *)
theory File_Client_Faults imports Main File_Client begin

text \<open>
  A channel notes for ever that it has been opened.  Once the connection of a client of files has been closed, which
  every failure does, the client never opens a file again.
\<close>

section \<open>Any operations on a client\<close>

datatype client_op = Do_Open string open_type bool | Do_Read u32 u32 | Do_Write client_data u32 u64 seek_type | Do_Seek u64 u32
  | Do_Length | Do_Position | Do_Peer_Buffer u32 | Do_Close

definition fc_do :: "'p network \<Rightarrow> client_op \<Rightarrow> 'p file_client \<Rightarrow> (int \<times> 'p file_client) res option" where
  "fc_do net op fc =
     (case op of
        Do_Open path t existed \<Rightarrow> fc_open net path t existed fc
      | Do_Read want prior \<Rightarrow> bind_run (fc_read net want prior fc) (\<lambda>(r, _, _, fc). Some (Inr (r, fc)))
      | Do_Write d n off t \<Rightarrow> fc_write net d n off t fc
      | Do_Seek pos ty \<Rightarrow> fc_seek net pos ty fc
      | Do_Length \<Rightarrow> bind_run (fc_length net fc) (\<lambda>(r, _, fc). Some (Inr (r, fc)))
      | Do_Position \<Rightarrow> bind_run (fc_position net fc) (\<lambda>(r, _, fc). Some (Inr (r, fc)))
      | Do_Peer_Buffer n \<Rightarrow> fc_peer_buffer net n fc
      | Do_Close \<Rightarrow> fc_close net fc)"

fun fc_run :: "'p network \<Rightarrow> client_op list \<Rightarrow> 'p file_client \<Rightarrow> (int list \<times> 'p file_client) res option" where
  "fc_run net [] fc = Some (Inr ([], fc))"
| "fc_run net (op # ops) fc = bind_run (fc_do net op fc) (\<lambda>(r, fc). bind_run (fc_run net ops fc) (\<lambda>(rs, fc). Some (Inr (r # rs, fc))))"

section \<open>What the operations leave alone\<close>

lemma tc_close_connected [simp]: "\<not> tcConnected (tc_close c)"
  by (simp add: tc_close_def Let_def)

lemma tc_send_connected [simp]: "tcConnected (snd (tc_send bs c)) = tcConnected c"
  by (simp add: tc_send_def Let_def case_prod_unfold)

lemma tc_recv_connected: "tc_recv n c = (r, bs, c') \<Longrightarrow> tcConnected c' \<Longrightarrow> tcConnected c"
  by (auto simp: tc_recv_def Let_def split: if_splits prod.splits transfer_end.splits)

lemma set_size_connected:
  "set_send_buffer_size env n c = Inr (ok, c') \<Longrightarrow> tcConnected c' = tcConnected c"
  "set_recv_buffer_size env n c = Inr (ok, c') \<Longrightarrow> tcConnected c' = tcConnected c"
  by (auto simp: set_send_buffer_size_def set_recv_buffer_size_def Let_def bind_res_Inr_iff split: if_splits option.splits)

lemma post_client_body_connected: "post_client_body n c ob = Some (Inr (r, c')) \<Longrightarrow> tcConnected c' \<Longrightarrow> tcConnected c"
  by (auto simp: post_client_body_def bind_run_Inr_iff Let_def case_prod_unfold split: option.splits if_splits)

lemma tc_send_packet_connected:
  assumes "tc_send_packet env od n code c = Some (Inr (r, c'))" and "tcConnected c'"
  shows "tcConnected c"
proof (cases od)
  case None
  then show ?thesis using assms by (simp add: tc_send_packet_def)
next
  case (Some d)
  show ?thesis
  proof (cases "1024 * 1024 * 1024 < n \<or> (tcEncrypt c \<noteq> 0 \<or> tcCompress c \<noteq> 0) \<and> \<not> tcParser c")
    case True
    then show ?thesis using assms Some by (simp add: tc_send_packet_def Let_def)
  next
    case False
    then obtain ok c2 where s: "(case d of InSendBuffer k \<Rightarrow> Inr (True, c\<lparr>tcRequestID := cliGuid env\<rparr>)
          | External bs \<Rightarrow> set_send_buffer_size env n (c\<lparr>tcRequestID := cliGuid env\<rparr>)) = Inr (ok, c2)"
      using assms(1) Some by (auto simp: tc_send_packet_def Let_def bind_run_Inr_iff)
    then have "tcConnected c2 = tcConnected c" by (cases d) (auto dest: set_size_connected(1))
    moreover have "tcConnected c2" using assms s False Some
      by (auto simp: tc_send_packet_def Let_def bind_run_Inr_iff dest: post_client_body_connected split: if_splits option.splits)
    ultimately show ?thesis by simp
  qed
qed

lemma take_object_id_connected [simp]: "tcConnected (take_object_id buf c) = tcConnected c"
  by (simp add: take_object_id_def Let_def)

lemma unpack_client_body_connected:
  "unpack_client_body env h bs b c = Some (Inr (r, n, code, c')) \<Longrightarrow> tcConnected c' \<Longrightarrow> tcConnected c"
  by (auto simp: unpack_client_body_def bind_run_Inr_iff split: if_splits prod.splits)

lemma recv_client_body_connected:
  assumes "recv_client_body env h c = Some (Inr (r, n, code, c'))" and "tcConnected c'"
  shows "tcConnected c"
proof -
  obtain ok c1 where s: "set_recv_buffer_size env (dwDataLen h) c = Inr (ok, c1)"
      "(if \<not> ok then Some (Inr (- 6, 0, 0, c1)) else case tcRecv c1 of None \<Rightarrow> Some (Inl NullDeref) | Some b \<Rightarrow>
         (case tc_recv (uint (dwDataLen h)) c1 of (r, bs, c) \<Rightarrow>
            let b = b\<lparr>cbMain := memcpy (cbMain b) 0 bs\<rparr>; c = c\<lparr>tcRecv := Some b\<rparr>
            in if r \<noteq> uint (dwDataLen h) then Some (Inr (- 7, 0, 0, c)) else unpack_client_body env h bs b c)) = Some (Inr (r, n, code, c'))"
    using assms(1) by (auto simp: recv_client_body_def bind_run_Inr_iff)
  have "tcConnected c1" using s(2) assms(2)
    by (fastforce simp: Let_def dest: tc_recv_connected unpack_client_body_connected split: if_splits option.splits prod.splits)
  then show ?thesis using set_size_connected(2) [OF s(1)] by simp
qed

lemma tc_recv_packet_connected:
  assumes "tc_recv_packet env c = Some (Inr (r, n, code, c'))" and "tcConnected c'"
  shows "tcConnected c"
  using assms by (auto simp: tc_recv_packet_def Let_def split: if_splits prod.splits)

lemma tc_recv_packet_into_connected:
  assumes "tc_recv_packet_into env room c = Some (Inr (r, bs, k, code, c'))" and "tcConnected c'"
  shows "tcConnected c"
proof (cases room)
  case None
  then show ?thesis using assms by (simp add: tc_recv_packet_into_def)
next
  case (Some n)
  then obtain r1 len code1 c1 where c1: "tc_recv_packet env (c\<lparr>tcLeftPos := 0, tcLeftLen := 0\<rparr>) = Some (Inr (r1, len, code1, c1))"
    using assms(1) by (auto simp: tc_recv_packet_into_def bind_run_Inr_iff)
  then have "tcConnected c1" using assms Some
    by (auto simp: tc_recv_packet_into_def Let_def bind_run_Inr_iff split: if_splits option.splits)
  then show ?thesis using tc_recv_packet_connected [OF c1] by simp
qed

lemma tc_read_left_data_connected: "tc_read_left_data room c = Inr (ok, bs, k, c') \<Longrightarrow> tcConnected c' = tcConnected c"
  by (auto simp: tc_read_left_data_def bind_res_Inr_iff split: if_splits option.splits)

section \<open>The invariant\<close>

text \<open>
  The frame of everything but opening: the channels stay what they are but for their connections, which may be lost.
\<close>

definition calmer :: "'p file_client \<Rightarrow> 'p file_client \<Rightarrow> bool" where
  "calmer fc fc' \<longleftrightarrow> fcSession fc' = fcSession fc \<and> fcIP fc' = fcIP fc \<and> fcPort fc' = fcPort fc \<and> fcUser fc' = fcUser fc \<and>
     fcPassword fc' = fcPassword fc \<and> fcPath fc' = fcPath fc \<and> (fcOpened fc' \<longrightarrow> fcOpened fc) \<and>
     (\<forall>i. chOpened (cwChannels (fcWorld fc') i) = chOpened (cwChannels (fcWorld fc) i) \<and>
        (tcConnected (tcp_of i (fcWorld fc')) \<longrightarrow> tcConnected (tcp_of i (fcWorld fc))))"

lemma calmer_refl [simp]: "calmer fc fc"
  by (simp add: calmer_def)

lemma calmer_trans [trans]: "calmer fc fc1 \<Longrightarrow> calmer fc1 fc2 \<Longrightarrow> calmer fc fc2"
  by (auto simp: calmer_def)

lemma calmer_set_tcp:
  "(tcConnected c \<longrightarrow> tcConnected (tcp_of i (fcWorld fc))) \<Longrightarrow> calmer fc (fc\<lparr>fcWorld := set_tcp i c (fcWorld fc)\<rparr>)"
  by (simp add: calmer_def set_tcp_def on_channel_def)

lemma calmer_opened: "calmer fc fc' \<Longrightarrow> calmer fc (fc'\<lparr>fcOpened := False\<rparr>)"
  by (simp add: calmer_def)

lemma channel_send_cases:
  assumes "channel_send net i d n code w = Some (Inr (r, w'))"
  obtains c ins p where "tc_send_packet (netEnv net (cwPeer w)) (Some d) n code (tcp_of i w) = Some (Inr (r, c))"
    and "w' = (set_tcp i (c\<lparr>tcOut := [], tcIn := tcIn c @ ins\<rparr>) w)\<lparr>cwPeer := p\<rparr>"
  using assms by (auto simp: channel_send_def bind_run_Inr_iff case_prod_unfold)

lemma channel_recv_cases:
  assumes "channel_recv net i room w = Some (Inr (r, bs, code, w'))"
  obtains c k where "tc_recv_packet_into (netEnv net (cwPeer w)) (Some room) (tcp_of i w) = Some (Inr (r, bs, k, code, c))"
    and "w' = set_tcp i c w"
  using assms by (auto simp: channel_recv_def bind_run_Inr_iff)

lemma calmer_send:
  assumes "channel_send net i d n code (fcWorld fc) = Some (Inr (r, w))"
  shows "calmer fc (fc\<lparr>fcWorld := w\<rparr>)"
  using assms by (rule channel_send_cases) (auto simp: calmer_def set_tcp_def on_channel_def dest: tc_send_packet_connected)

lemma calmer_recv:
  assumes "channel_recv net i room (fcWorld fc) = Some (Inr (r, bs, code, w))"
  shows "calmer fc (fc\<lparr>fcWorld := w\<rparr>)"
  using assms by (rule channel_recv_cases) (auto simp: calmer_def set_tcp_def on_channel_def dest: tc_recv_packet_into_connected)

lemma calmer_close_both: "calmer fc (close_both fc) \<and> \<not> tcConnected (tcp_of i (fcWorld (close_both fc))) \<or> 1 < i"
  by (auto simp: calmer_def close_both_def channel_close_def set_tcp_def on_channel_def)

lemma calmer_answer: "fc_answer net i answer fc = Some (Inr (r, buf, fc')) \<Longrightarrow> calmer fc fc'"
  by (auto simp: fc_answer_def bind_run_Inr_iff Let_def intro: calmer_recv)

lemma calmer_talk:
  assumes "fc_talk net i d n code answer fc = Some (Inr (r, buf, fc'))"
  shows "calmer fc fc'"
proof -
  obtain r1 w where s: "channel_send net i d n code (fcWorld fc) = Some (Inr (r1, w))"
      "(if r1 \<noteq> 0 then Some (Inr (- 3, [], fc\<lparr>fcWorld := w\<rparr>)) else fc_answer net i answer (fc\<lparr>fcWorld := w\<rparr>)) = Some (Inr (r, buf, fc'))"
    using assms by (auto simp: fc_talk_def bind_run_Inr_iff Let_def)
  then have "calmer (fc\<lparr>fcWorld := w\<rparr>) fc'" by (auto intro: calmer_answer split: if_splits)
  with calmer_send [OF s(1)] show ?thesis by (rule calmer_trans)
qed

lemma calmer_close:
  assumes "fc_close net fc = Some (Inr (r, fc'))"
  shows "calmer fc fc' \<and> \<not> fcOpened fc'"
proof (cases "fcOpened fc")
  case True
  then obtain buf fc1 where t: "fc_talk net 0 (External (replicate 9 0)) 9 CX_FILE_CLOSE_CODE CX_FILE_CLOSE_REPLY_CODE fc = Some (Inr (r, buf, fc1))"
      "fc' = (if r = 0 then fc1 else close_both fc1)\<lparr>fcOpened := False\<rparr>"
    using assms by (auto simp: fc_close_def bind_run_Inr_iff)
  have "calmer fc1 (if r = 0 then fc1 else close_both fc1)" using calmer_close_both [of fc1 0] by auto
  then have "calmer fc (if r = 0 then fc1 else close_both fc1)" using calmer_talk [OF t(1)] calmer_trans by blast
  then show ?thesis using calmer_opened unfolding t(2) by auto
qed (use assms in \<open>auto simp: fc_close_def\<close>)

lemma calmer_fail: "fc_fail net r fc = Some (Inr (r', fc')) \<Longrightarrow> calmer fc fc' \<and> r' = r"
  by (auto simp: fc_fail_def bind_run_Inr_iff dest: calmer_close)

lemma calmer_command:
  assumes "fc_command net mes code answer fc = Some (Inr (r, buf, fc'))"
  shows "calmer fc fc'"
proof -
  obtain r1 b1 fc1 where t: "fc_talk net 0 (External mes) (word_of_nat (length mes)) code answer fc = Some (Inr (r1, b1, fc1))"
      "(if r1 \<noteq> 0 then bind_run (fc_fail net r1 fc1) (\<lambda>(r, fc). Some (Inr (r, [], fc))) else Some (Inr (0, b1, fc1))) = Some (Inr (r, buf, fc'))"
    using assms by (auto simp: fc_command_def bind_run_Inr_iff)
  have "calmer fc1 fc'" using t(2) by (auto simp: bind_run_Inr_iff dest: calmer_fail split: if_splits)
  with calmer_talk [OF t(1)] show ?thesis by (rule calmer_trans)
qed

lemma calmer_fail_with: "bind_run (fc_fail net r fc) (\<lambda>(r, fc). Some (Inr (r, out, n, fc))) = Some (Inr (r', out', n', fc')) \<Longrightarrow> calmer fc fc'"
  by (auto simp: bind_run_Inr_iff dest: calmer_fail)

lemma calmer_read_reply:
  assumes "fc_read_reply net want prior buf fc = Some (Inr (r, out, n, fc'))"
  shows "calmer fc fc'"
proof (cases "field buf 0 \<notin> {200, 204, 205} \<or> want < field buf 4 \<or> field buf 4 = 0")
  case True
  then show ?thesis using assms by (auto simp: fc_read_reply_def Let_def dest: calmer_fail_with split: if_splits)
next
  case False
  then have eq: "fc_read_reply net want prior buf fc =
      bind_run (Some (tc_read_left_data (unat want) (tcp_of 1 (fcWorld fc)))) (\<lambda>(ok, out, k, c).
          let fc = fc\<lparr>fcWorld := set_tcp 1 c (fcWorld fc)\<rparr>; n = (case k of None \<Rightarrow> prior | Some k \<Rightarrow> k)
          in if \<not> ok then bind_run (fc_fail net (- 8) fc) (\<lambda>(r, fc). Some (Inr (r, out, n, fc)))
             else if want \<noteq> n then bind_run (fc_fail net (- 12) fc) (\<lambda>(r, fc). Some (Inr (r, out, n, fc)))
             else Some (Inr (read_code (field buf 0), out, n, fc)))"
    by (auto simp: fc_read_reply_def Let_def word_gt_0)
  obtain ok out1 k c where l: "tc_read_left_data (unat want) (tcp_of 1 (fcWorld fc)) = Inr (ok, out1, k, c)"
    using assms unfolding eq by (auto simp: bind_run_Inr_iff)
  have "calmer fc (fc\<lparr>fcWorld := set_tcp 1 c (fcWorld fc)\<rparr>)" using tc_read_left_data_connected [OF l] by (intro calmer_set_tcp) simp
  moreover have "calmer (fc\<lparr>fcWorld := set_tcp 1 c (fcWorld fc)\<rparr>) fc'"
    using assms l unfolding eq by (auto simp: Let_def dest: calmer_fail_with split: if_splits)
  ultimately show ?thesis by (rule calmer_trans)
qed

lemma calmer_read:
  assumes "fc_read net want prior fc = Some (Inr (r, out, n, fc'))"
  shows "calmer fc fc'"
proof (cases "fcOpened fc")
  case True
  obtain r1 w1 where s: "channel_send net 1 (External (client_read_data want)) 16 CX_FILE_READ_CODE (fcWorld fc) = Some (Inr (r1, w1))"
    using assms True by (auto simp: fc_read_def Let_def bind_run_Inr_iff)
  note c1 = calmer_send [OF s]
  show ?thesis
  proof (cases "r1 = 0")
    case False
    then have "calmer (fc\<lparr>fcWorld := w1\<rparr>) fc'" using assms True s
      by (auto simp: fc_read_def Let_def bind_run_Inr_iff dest: calmer_fail)
    with c1 show ?thesis by (rule calmer_trans)
  next
    case True
    then obtain ok c where b: "set_recv_buffer_size (netEnv net (cwPeer w1)) (want + 8) (tcp_of 1 w1) = Inr (ok, c)"
      using assms \<open>fcOpened fc\<close> s by (auto simp: fc_read_def Let_def bind_run_Inr_iff)
    have "calmer (fc\<lparr>fcWorld := w1\<rparr>) (fc\<lparr>fcWorld := w1\<rparr>\<lparr>fcWorld := set_tcp 1 c (fcWorld (fc\<lparr>fcWorld := w1\<rparr>))\<rparr>)"
      using set_size_connected(2) [OF b] by (intro calmer_set_tcp) simp
    with c1 have c2: "calmer fc (fc\<lparr>fcWorld := set_tcp 1 c w1\<rparr>)" using calmer_trans by fastforce
    show ?thesis
    proof (cases ok)
      case False
      then show ?thesis using assms \<open>fcOpened fc\<close> s True b c2 by (simp add: fc_read_def Let_def)
    next
      case True
      then obtain r3 bs code w3 where v: "channel_recv net 1 8 (set_tcp 1 c w1) = Some (Inr (r3, bs, code, w3))"
        using assms \<open>fcOpened fc\<close> s \<open>r1 = 0\<close> b by (auto simp: fc_read_def Let_def bind_run_Inr_iff)
      have c3: "calmer fc (fc\<lparr>fcWorld := w3\<rparr>)"
        using calmer_trans [OF c2, of "fc\<lparr>fcWorld := w3\<rparr>"] calmer_recv [of net 1 8 "fc\<lparr>fcWorld := set_tcp 1 c w1\<rparr>" r3 bs code w3] v by simp
      have "calmer (fc\<lparr>fcWorld := w3\<rparr>) fc'" using assms \<open>fcOpened fc\<close> s \<open>r1 = 0\<close> b True v
        by (auto simp: fc_read_def Let_def bind_run_Inr_iff dest: calmer_fail calmer_read_reply split: if_splits)
      with c3 show ?thesis by (rule calmer_trans)
    qed
  qed
qed (use assms in \<open>simp add: fc_read_def\<close>)

lemma fill_send_buffer_connected: "fill_send_buffer env d n head c = Inr (ok, c') \<Longrightarrow> tcConnected c' = tcConnected c"
  by (auto simp: fill_send_buffer_def bind_res_Inr_iff split: client_data.splits option.splits if_splits dest: set_size_connected(1))

lemma calmer_write:
  assumes "fc_write net d n off t fc = Some (Inr (r, fc'))"
  shows "calmer fc fc'"
proof (cases "fcOpened fc")
  case True
  let ?w = "fcWorld fc"
  obtain ok c where b: "fill_send_buffer (netEnv net (cwPeer ?w)) d n (write_head t off n) (tcp_of 1 ?w) = Inr (ok, c)"
    using assms True by (auto simp: fc_write_def Let_def bind_run_Inr_iff)
  have c1: "calmer fc (fc\<lparr>fcWorld := set_tcp 1 c ?w\<rparr>)" using fill_send_buffer_connected [OF b] by (intro calmer_set_tcp) simp
  have "calmer (fc\<lparr>fcWorld := set_tcp 1 c ?w\<rparr>) fc'"
  proof (cases ok)
    case True
    then obtain r1 b1 fc1 where t: "fc_talk net 1 (InSendBuffer (sizeof_packet_data - 1)) (n + 16) CX_FILE_WRITE_CODE CX_FILE_WRITE_REPLY_CODE
          (fc\<lparr>fcWorld := set_tcp 1 c ?w\<rparr>) = Some (Inr (r1, b1, fc1))"
        "(if r1 \<noteq> 0 then fc_fail net r1 fc1 else Some (Inr (0, fc1))) = Some (Inr (r, fc'))"
      using assms \<open>fcOpened fc\<close> b by (auto simp: fc_write_def Let_def bind_run_Inr_iff)
    have "calmer fc1 fc'" using t(2) by (auto dest: calmer_fail split: if_splits)
    with calmer_talk [OF t(1)] show ?thesis by (rule calmer_trans)
  qed (use assms True b in \<open>simp add: fc_write_def Let_def\<close>)
  with c1 show ?thesis by (rule calmer_trans)
qed (use assms in \<open>simp add: fc_write_def\<close>)

lemma calmer_do:
  assumes "fc_do net op fc = Some (Inr (r, fc'))" and "\<And>path t existed. op \<noteq> Do_Open path t existed"
  shows "calmer fc fc'"
proof (cases op)
  case (Do_Open path t existed)
  then show ?thesis using assms(2) by blast
qed (use assms(1) in \<open>auto simp: fc_do_def fc_seek_def fc_length_def fc_position_def fc_peer_buffer_def bind_run_Inr_iff
  dest: calmer_read calmer_write calmer_command calmer_close split: if_splits\<close>)

section \<open>Opening\<close>

text \<open>Opening a channel leaves the other ones alone, and notes that it is open only at its end.\<close>

definition only_channel :: "nat \<Rightarrow> 'p client_world \<Rightarrow> 'p client_world \<Rightarrow> bool" where
  "only_channel i w w' \<longleftrightarrow> (\<forall>j. j \<noteq> i \<longrightarrow> cwChannels w' j = cwChannels w j)"

lemma only_channel_simps [simp]:
  "only_channel i w w" "only_channel i w (set_tcp i c w')  = only_channel i w w'" "only_channel i w (on_channel i f w') = only_channel i w w'"
  "only_channel i w (w'\<lparr>cwPeer := p\<rparr>) = only_channel i w w'" "only_channel i w (channel_close i w') = only_channel i w w'"
  "only_channel i w (channel_object_id i g w') = only_channel i w w'"
  by (auto simp: only_channel_def set_tcp_def on_channel_def channel_close_def channel_object_id_def)

lemma only_channel_trans: "only_channel i w w1 \<Longrightarrow> only_channel i w1 w2 \<Longrightarrow> only_channel i w w2"
  by (simp add: only_channel_def)

lemma only_channel_send: "channel_send net i d n code w = Some (Inr (r, w')) \<Longrightarrow> only_channel i w w'"
  by (elim channel_send_cases) simp

lemma only_channel_recv: "channel_recv net i room w = Some (Inr (r, bs, code, w')) \<Longrightarrow> only_channel i w w'"
  by (elim channel_recv_cases) simp

lemma only_channel_login_reply: "login_reply i bs code w = Inr (r, w') \<Longrightarrow> only_channel i w w'"
  by (auto simp: login_reply_def Let_def bind_res_Inr_iff split: if_splits)

lemma only_channel_login:
  assumes "channel_login net i user password ut st w = Some (Inr (r, w'))"
  shows "only_channel i w w'"
proof (cases "user = [] \<or> 128 < length user \<or> password = [] \<or> 256 < length password")
  case False
  let ?ch = "cwChannels w i" and ?w0 = "channel_object_id i (chLoginGuid (cwChannels w i)) w"
  let ?mes = "login_request (chType ?ch) ut st user password" and ?old = "tcObjectID (chTcp ?ch)"
  obtain r1 w1 where s: "channel_send net i (External ?mes) (word_of_nat (length ?mes)) CX_SESSION_LOGIN_CODE ?w0 = Some (Inr (r1, w1))"
    using assms False by (auto simp: channel_login_def Let_def bind_run_Inr_iff)
  have w1: "only_channel i w w1" using only_channel_trans [OF _ only_channel_send [OF s], of w] by simp
  show ?thesis
  proof (cases "r1 = 0")
    case True
    then obtain r2 bs code w2 where v: "channel_recv net i (unat CLIENT_BUF_SIZE) w1 = Some (Inr (r2, bs, code, w2))"
        "(if r2 \<noteq> 0 then Some (Inr (- 4, channel_close i (channel_object_id i ?old w2)))
          else Some (login_reply i bs code (channel_object_id i ?old w2))) = Some (Inr (r, w'))"
      using assms False s by (auto simp: channel_login_def Let_def bind_run_Inr_iff)
    have "only_channel i w w2" using only_channel_trans [OF w1 only_channel_recv [OF v(1)]] .
    moreover have "only_channel i w2 w'" using v(2) only_channel_login_reply [of i bs code "channel_object_id i ?old w2" r w']
      by (auto simp: only_channel_def channel_object_id_def set_tcp_def on_channel_def channel_close_def split: if_splits)
    ultimately show ?thesis by (rule only_channel_trans)
  qed (use assms False s w1 in \<open>auto simp: channel_login_def Let_def\<close>)
qed (use assms in \<open>simp add: channel_login_def\<close>)

lemma only_channel_connect: "channel_connect net i w = Inr (r, w') \<Longrightarrow> only_channel i w w'"
  by (auto simp: channel_connect_def bind_res_Inr_iff Let_def case_prod_unfold split: if_splits)

lemma open_channel_effect:
  assumes "open_channel net i w = Some (Inr (r, w'))"
  shows "only_channel i w w' \<and> (r = 0 \<longrightarrow> chOpened (cwChannels w' i))"
proof (cases "chType (cwChannels w i) \<noteq> MAJOR_MES \<and> (chSession (cwChannels w i) = [] \<or> chVerify (cwChannels w i) = []) \<or> chOpened (cwChannels w i)")
  case True
  then show ?thesis using assms by (auto simp: open_channel_def Let_def split: if_splits)
next
  case False
  let ?ch = "cwChannels w i"
  obtain r1 w1 where c: "channel_connect net i w = Inr (r1, w1)"
    using assms False by (auto simp: open_channel_def Let_def bind_run_Inr_iff split: if_splits)
  note w1 = only_channel_connect [OF c]
  show ?thesis
  proof (cases "r1 = 0")
    case True
    then obtain r2 w2 where l: "(if chType ?ch = MAJOR_MES then channel_login net i (chUser ?ch) (chPassword ?ch) 1 1 w1
          else channel_login net i (chSession ?ch) (chVerify ?ch) 1 1 w1) = Some (Inr (r2, w2))"
      using assms False c by (auto simp: open_channel_def Let_def bind_run_Inr_iff split: if_splits)
    then have "only_channel i w w2" using only_channel_trans [OF w1 only_channel_login] by (auto split: if_splits)
    moreover have "only_channel i w2 w' \<and> (r = 0 \<longrightarrow> chOpened (cwChannels w' i))"
    proof -
      have no: "\<not> (chType ?ch \<noteq> MAJOR_MES \<and> (chSession ?ch = [] \<or> chVerify ?ch = []))" "\<not> chOpened ?ch" using False by auto
      have "(if r2 \<noteq> 0 then Some (Inr (- 3, w2)) else if chSession (cwChannels w2 i) = [] \<or> chVerify (cwChannels w2 i) = [] then Some (Inr (- 1, w2))
          else Some (Inr (0, on_channel i (\<lambda>ch. ch\<lparr>chOpened := True\<rparr>) w2))) = Some (Inr (r, w'))"
        using assms c \<open>r1 = 0\<close> l unfolding open_channel_def Let_def if_not_P [OF no(1)] if_not_P [OF no(2)] by (auto split: if_splits)
      then show ?thesis by (auto simp: on_channel_def only_channel_def split: if_splits)
    qed
    ultimately show ?thesis using only_channel_trans by blast
  qed (use assms False c w1 in \<open>auto simp: open_channel_def Let_def split: if_splits\<close>)
qed

lemma cs_open_channel_effect:
  assumes "cs_open_channel net i ty s w = Some (Inr (r, s', w'))" and "\<not> tcConnected (tcp_of i w)"
  shows "only_channel i w w'" and "ty = MAJOR_MES \<and> r = 0 \<longrightarrow> csMain s' = Some i \<and> chOpened (cwChannels w' i)"
    and "ty = MAJOR_MES \<and> r \<noteq> 0 \<longrightarrow> s' = s \<and> \<not> tcConnected (tcp_of i w')" and "ty \<noteq> MAJOR_MES \<longrightarrow> csMain s' = csMain s"
proof -
  let ?w = "on_channel i (\<lambda>ch. (channel_set_user (csUser s) (csPassword s) ch)\<lparr>chType := ty, chSession := csID s, chVerify := csVerify s\<rparr>) w"
  let ?early = "\<not> csAddress s \<or> ty = MAJOR_MES \<and> (case csMain s of None \<Rightarrow> False | Some j \<Rightarrow> chOpened (cwChannels w j))"
  have "only_channel i w w' \<and> (ty = MAJOR_MES \<and> r = 0 \<longrightarrow> csMain s' = Some i \<and> chOpened (cwChannels w' i)) \<and>
      (ty = MAJOR_MES \<and> r \<noteq> 0 \<longrightarrow> s' = s \<and> \<not> tcConnected (tcp_of i w')) \<and> (ty \<noteq> MAJOR_MES \<longrightarrow> csMain s' = csMain s)"
  proof (cases ?early)
    case True
    then show ?thesis using assms by (auto simp: cs_open_channel_def INVALID_PARAMETER_def split: if_splits)
  next
    case False
    then obtain r1 w1 where o1: "open_channel net i ?w = Some (Inr (r1, w1))"
      using assms(1) by (auto simp: cs_open_channel_def Let_def bind_run_Inr_iff split: if_splits)
    have e: "only_channel i w w1" "r1 = 0 \<longrightarrow> chOpened (cwChannels w1 i)"
      using open_channel_effect [OF o1] by (auto simp: only_channel_def on_channel_def)
    have closed: "\<not> tcConnected (tcp_of i (channel_close i w1))" by (simp add: channel_close_def set_tcp_def on_channel_def)
    show ?thesis using assms(1) False o1 e closed
      by (auto simp: cs_open_channel_def Let_def cs_add_message_def cs_add_data_def split: if_splits channel_type.splits)
  qed
  then show "only_channel i w w'" "ty = MAJOR_MES \<and> r = 0 \<longrightarrow> csMain s' = Some i \<and> chOpened (cwChannels w' i)"
    "ty = MAJOR_MES \<and> r \<noteq> 0 \<longrightarrow> s' = s \<and> \<not> tcConnected (tcp_of i w')" "ty \<noteq> MAJOR_MES \<longrightarrow> csMain s' = csMain s" by blast+
qed

section \<open>No way back\<close>

text \<open>The main channel belongs to the session and has been opened; a client is lost when its connection is gone.\<close>

definition tied :: "'p file_client \<Rightarrow> bool" where
  "tied fc \<longleftrightarrow> csMain (fcSession fc) = Some CMM \<and> chOpened (cwChannels (fcWorld fc) CMM)"

definition linked :: "'p file_client \<Rightarrow> bool" where
  "linked fc \<longleftrightarrow> (fcOpened fc \<or> tcConnected (tcp_of CMM (fcWorld fc)) \<longrightarrow> tied fc)"

definition lost :: "'p file_client \<Rightarrow> bool" where
  "lost fc \<longleftrightarrow> tied fc \<and> \<not> tcConnected (tcp_of CMM (fcWorld fc)) \<and> \<not> fcOpened fc"

lemma calmer_keeps:
  assumes "calmer fc fc'"
  shows "tied fc' = tied fc" "linked fc \<Longrightarrow> linked fc'" "lost fc \<Longrightarrow> lost fc'"
  using assms by (auto simp: calmer_def tied_def linked_def lost_def)

definition open_refused :: "string \<Rightarrow> 'p file_client \<Rightarrow> int" where
  "open_refused path fc = (if path = [] then - 1
     else if fcIP fc = [] \<or> fcPort fc = 0 \<or> fcUser fc = [] \<or> fcPassword fc = [] then - 2 else - 3)"

lemma lost_open: "lost fc \<Longrightarrow> fc_open net path t existed fc = Some (Inr (open_refused path fc, fc))"
  by (cases fc) (auto simp: lost_def tied_def fc_open_def open_refused_def fc_close_def fc_channel_def cs_open_channel_def INVALID_PARAMETER_def)

lemma lost_do: "lost fc \<Longrightarrow> fc_do net op fc = Some (Inr (r, fc')) \<Longrightarrow> lost fc'"
  using calmer_do [of net op fc r fc'] calmer_keeps(3) lost_open [of fc] by (cases op) (auto simp: fc_do_def)

lemma lost_run: "lost fc \<Longrightarrow> fc_run net ops fc = Some (Inr (rs, fc')) \<Longrightarrow> lost fc'"
  by (induction ops arbitrary: fc rs) (auto simp: bind_run_Inr_iff dest: lost_do)

lemma fc_channel_main:
  assumes "fc_channel net CMM MAJOR_MES fc = Some (Inr (r, fc'))" and "linked fc" and "\<not> fcOpened fc"
  shows "linked fc' \<and> \<not> fcOpened fc' \<and> (r = 0 \<longrightarrow> tied fc')"
proof (cases "tcConnected (tcp_of CMM (fcWorld fc))")
  case True
  then show ?thesis using assms by (auto simp: fc_channel_def linked_def)
next
  case False
  then obtain s w where o1: "cs_open_channel net CMM MAJOR_MES (fcSession fc) (fcWorld fc) = Some (Inr (r, s, w))"
      "fc' = fc\<lparr>fcSession := s, fcWorld := w\<rparr>"
    using assms(1) by (auto simp: fc_channel_def bind_run_Inr_iff)
  then show ?thesis using cs_open_channel_effect [OF o1(1) False] assms(3) by (auto simp: linked_def tied_def)
qed

lemma fc_channel_data:
  assumes "fc_channel net DATA DATA_CHANNEL fc = Some (Inr (r, fc'))"
  shows "tied fc' = tied fc \<and> fcOpened fc' = fcOpened fc"
proof (cases "tcConnected (tcp_of DATA (fcWorld fc))")
  case True
  then show ?thesis using assms by (simp add: fc_channel_def)
next
  case False
  then obtain s w where o1: "cs_open_channel net DATA DATA_CHANNEL (fcSession fc) (fcWorld fc) = Some (Inr (r, s, w))"
      "fc' = fc\<lparr>fcSession := s, fcWorld := w\<rparr>"
    using assms by (auto simp: fc_channel_def bind_run_Inr_iff)
  then show ?thesis using cs_open_channel_effect [OF o1(1) False] by (auto simp: tied_def only_channel_def)
qed

lemma fc_open_file_effect:
  assumes "fc_open_file net path t existed fc = Some (Inr (r, fc'))" and "tied fc" and "\<not> fcOpened fc"
  shows "tied fc' \<and> r \<le> 0 \<and> (r < 0 \<longrightarrow> lost fc')"
proof -
  let ?mes = "client_open_data path t existed"
  obtain r1 buf fc1 where t: "fc_talk net CMM (External ?mes) (word_of_nat (length ?mes)) CX_FILE_OPEN_CODE CX_FILE_OPEN_REPLY_CODE fc = Some (Inr (r1, buf, fc1))"
      "(if r1 \<noteq> 0 then Some (Inr (r1 - 2, close_both fc1)) else Some (Inr (0, fc1\<lparr>fcOpened := True,
          fcWorld := channel_object_id DATA (tcObjectID (tcp_of CMM (fcWorld fc1))) (fcWorld fc1)\<rparr>))) = Some (Inr (r, fc'))"
    using assms(1) by (auto simp: fc_open_file_def Let_def bind_run_Inr_iff split: if_splits)
  have r1: "r1 \<le> 0" using t(1) by (auto simp: fc_talk_def fc_answer_def Let_def bind_run_Inr_iff split: if_splits)
  note k = calmer_talk [OF t(1)]
  then have "tied fc1" "\<not> fcOpened fc1" using calmer_keeps(1) [OF k] assms(2,3) by (auto simp: calmer_def)
  moreover have "lost (close_both fc1)" if "tied fc1" "\<not> fcOpened fc1"
    using that by (simp add: lost_def tied_def close_both_def channel_close_def set_tcp_def on_channel_def)
  ultimately show ?thesis using t(2) r1
    by (auto simp: lost_def tied_def channel_object_id_def set_tcp_def on_channel_def split: if_splits)
qed

lemma fc_open_effect:
  assumes "fc_open net path t existed fc = Some (Inr (r, fc'))" and "linked fc"
  shows "linked fc' \<and> (r < - 4 \<longrightarrow> lost fc')"
proof (cases "path = [] \<or> fcIP fc = [] \<or> fcPort fc = 0 \<or> fcUser fc = [] \<or> fcPassword fc = [] \<or> fcOpened fc \<and> path = fcPath fc")
  case True
  then show ?thesis using assms by (auto simp: fc_open_def INVALID_PARAMETER_def split: if_splits)
next
  case False
  then obtain r0 fc0 r1 fc1 where c: "fc_close net fc = Some (Inr (r0, fc0))"
      "fc_channel net CMM MAJOR_MES (fc0\<lparr>fcOpened := False\<rparr>) = Some (Inr (r1, fc1))"
    and rest: "(if r1 \<noteq> 0 then Some (Inr (- 3, fc1)) else bind_run (fc_channel net DATA DATA_CHANNEL fc1) (\<lambda>(r, fc).
            if r \<noteq> 0 then Some (Inr (- 4, fc)) else fc_open_file net path t existed fc)) = Some (Inr (r, fc'))"
    using assms(1) by (auto simp: fc_open_def bind_run_Inr_iff split: if_splits)
  have "linked (fc0\<lparr>fcOpened := False\<rparr>)" using calmer_close [OF c(1)] calmer_keeps(2) [OF _ assms(2)] calmer_opened by blast
  then have fc1: "linked fc1" "\<not> fcOpened fc1" "r1 = 0 \<Longrightarrow> tied fc1" using fc_channel_main [OF c(2)] by simp_all
  show ?thesis
  proof (cases "r1 = 0")
    case True
    then obtain r2 fc2 where d: "fc_channel net DATA DATA_CHANNEL fc1 = Some (Inr (r2, fc2))"
        "(if r2 \<noteq> 0 then Some (Inr (- 4, fc2)) else fc_open_file net path t existed fc2) = Some (Inr (r, fc'))"
      using rest by (auto simp: bind_run_Inr_iff)
    have fc2: "tied fc2" "\<not> fcOpened fc2" using fc_channel_data [OF d(1)] fc1 True by simp_all
    show ?thesis using d(2) fc2 fc_open_file_effect [of net path t existed fc2 r fc'] by (auto simp: linked_def split: if_splits)
  qed (use rest fc1 in \<open>auto split: if_splits\<close>)
qed

lemma linked_do:
  assumes "fc_do net op fc = Some (Inr (r, fc'))" and "linked fc"
  shows "linked fc'"
proof (cases op)
  case (Do_Open path t existed)
  then show ?thesis using assms fc_open_effect [of net path t existed fc r fc'] by (simp add: fc_do_def)
qed (use calmer_keeps(2) [OF calmer_do [OF assms(1)] assms(2)] in auto)

lemma linked_run: "fc_run net ops fc = Some (Inr (rs, fc')) \<Longrightarrow> linked fc \<Longrightarrow> linked fc'"
  by (induction ops arbitrary: fc rs) (auto simp: bind_run_Inr_iff dest: linked_do)

lemma linked_new: "linked (set_remote_server ip port user password (file_client_new p))"
  by (simp add: linked_def set_remote_server_def file_client_new_def channel_object_id_def set_tcp_def on_channel_def tc_set_object_id_def
      channel_new_def tcp_client_new_def)

end
