(* ===== verification/File_Service.thy ===== *)
theory File_Service imports Main File_Server begin

text \<open>
  What the server of files does for its clients: opening, writing, reading, asking for the length and closing are those
  of a file that is bytes and a position, where a read that meets the end, and a write that fails, leave the position at 1.
  Moving in a file does not work.
\<close>

section \<open>The calls of the system\<close>

lemma free_fd_new: "map_of (osTable s) (free_fd s) = None"
proof -
  let ?used = "dom (map_of (osTable s))" and ?all = "[0..<Suc (length (osTable s))]"
  have "card ?used \<le> length (osTable s)" by (metis dom_map_of_conv_image_fst card_image_le card_length le_trans List.finite_set)
  then have "\<not> set ?all \<subseteq> ?used"
    by (metis card_atLeastLessThan card_mono diff_zero finite_dom_map_of not_less_eq_eq set_upt)
  then have "filter (\<lambda>i. i \<notin> ?used) ?all \<noteq> []" by (auto simp: filter_empty_conv simp del: upt_Suc)
  from hd_in_set [OF this] have "free_fd s \<notin> ?used" unfolding free_fd_def dom_map_of_conv_image_fst by (simp del: upt_Suc)
  then show ?thesis by blast
qed

text \<open>The descriptor 0 is in use.\<close>

definition std_taken :: "os \<Rightarrow> bool" where
  "std_taken s \<longleftrightarrow> map_of (osTable s) 0 \<noteq> None"

lemma free_fd_pos: "std_taken s \<Longrightarrow> 0 < free_fd s"
  using free_fd_new [of s] by (metis gr0I std_taken_def)

section \<open>The abstract file\<close>

text \<open>The files by name, and the open one: its name, its position, whether it can be read and written.\<close>

record files =
  flsContent :: "string \<Rightarrow> byte list option"
  flsOpen :: "(string \<times> nat \<times> bool \<times> bool) option"

datatype file_op = Op_Open string open_type bool | Op_Write "byte list" | Op_Read nat | Op_Length | Op_Close

datatype file_answer = Ans_Ok | Ans_Data "byte list" | Ans_Short "byte list" | Ans_End | Ans_Size nat | Ans_Failed u32

definition file_step :: "file_op \<Rightarrow> files \<Rightarrow> file_answer \<times> files" where
  "file_step op a =
     (case op of
        Op_Open path t existed \<Rightarrow>
          let fl = flags_of t; a = a\<lparr>flsOpen := None\<rparr> in
          (case flsContent a path of
             None \<Rightarrow> if \<not> flCreat fl then (Ans_Failed 202, a)
                     else (Ans_Ok, a\<lparr>flsContent := (flsContent a)(path \<mapsto> []), flsOpen := Some (path, 0, flRead fl, flWrite fl)\<rparr>)
           | Some bs \<Rightarrow> (Ans_Ok, a\<lparr>flsContent := (flsContent a)(path \<mapsto> if flTrunc fl then [] else bs),
                                  flsOpen := Some (path, 0, flRead fl, flWrite fl)\<rparr>))
      | Op_Write xs \<Rightarrow>
          (case flsOpen a of
             None \<Rightarrow> (Ans_Failed 412, a)
           | Some (path, pos, r, w) \<Rightarrow>
               (case flsContent a path of
                  None \<Rightarrow> (Ans_Failed 502, a)
                | Some bs \<Rightarrow>
                    if \<not> w \<or> xs = [] then (Ans_Failed 502, a\<lparr>flsOpen := Some (path, 1, r, w)\<rparr>)
                    else (Ans_Ok, a\<lparr>flsContent := (flsContent a)(path \<mapsto> write_at bs pos xs), flsOpen := Some (path, pos + length xs, r, w)\<rparr>)))
      | Op_Read n \<Rightarrow>
          (case flsOpen a of
             None \<Rightarrow> (Ans_Failed 202, a)
           | Some (path, pos, r, w) \<Rightarrow>
               (case flsContent a path of
                  None \<Rightarrow> (Ans_Failed 205, a)
                | Some bs \<Rightarrow>
                    let xs = take n (drop pos bs) in
                    if xs = [] then (Ans_End, a\<lparr>flsOpen := Some (path, 1, r, w)\<rparr>)
                    else if length xs < n then (Ans_Short xs, a\<lparr>flsOpen := Some (path, 1, r, w)\<rparr>)
                    else (Ans_Data xs, a\<lparr>flsOpen := Some (path, pos + n, r, w)\<rparr>)))
      | Op_Length \<Rightarrow>
          (case flsOpen a of
             None \<Rightarrow> (Ans_Failed 412, a)
           | Some (path, pos, r, w) \<Rightarrow> (case flsContent a path of None \<Rightarrow> (Ans_Failed 201, a) | Some bs \<Rightarrow> (Ans_Size (length bs), a)))
      | Op_Close \<Rightarrow> (Ans_Ok, a\<lparr>flsOpen := None\<rparr>))"

lemma file_step_read:
  assumes "flsOpen a = Some (path, pos, r, w)" and "flsContent a path = Some bs" and "xs = take n (drop pos bs)"
  shows "file_step (Op_Read n) a =
    (if xs = [] then (Ans_End, a\<lparr>flsOpen := Some (path, 1, r, w)\<rparr>)
     else if length xs < n then (Ans_Short xs, a\<lparr>flsOpen := Some (path, 1, r, w)\<rparr>)
     else (Ans_Data xs, a\<lparr>flsOpen := Some (path, pos + n, r, w)\<rparr>))"
  unfolding file_step_def Let_def assms(3) using assms(1,2) by simp

text \<open>The server is in such a state.\<close>

definition file_sim :: "file_server \<Rightarrow> os \<Rightarrow> files \<Rightarrow> bool" where
  "file_sim v s a \<longleftrightarrow> osScript s = [] \<and> std_taken s \<and> map_of (osFiles s) = flsContent a \<and>
     (case flsOpen a of
        None \<Rightarrow> \<not> f64Open (srvFile v)
      | Some (path, pos, r, w) \<Rightarrow> f64Open (srvFile v) \<and> 0 < f64Handle (srvFile v) \<and> f64Path (srvFile v) = path \<and>
          map_of (osTable s) (nat (f64Handle (srvFile v))) = Some \<lparr>osPath = path, osPos = pos, osReads = r, osWrites = w\<rparr> \<and>
          flsContent a path \<noteq> None)"

lemma file_sim_open:
  assumes "file_sim v s a" and "flsOpen a = Some (path, pos, r, w)"
  shows "\<exists>bs. f64Open (srvFile v) \<and> 0 < f64Handle (srvFile v) \<and> f64Path (srvFile v) = path \<and> flsContent a path = Some bs \<and>
    os_file_of s (f64Handle (srvFile v)) = Some (\<lparr>osPath = path, osPos = pos, osReads = r, osWrites = w\<rparr>, bs) \<and> osScript s = []"
  using assms by (auto simp: file_sim_def os_file_of_def)

lemma file_sim_closed: "file_sim v s a \<Longrightarrow> flsOpen a = None \<longleftrightarrow> \<not> f64Open (srvFile v)"
  by (auto simp: file_sim_def split: option.splits)

text \<open>Moving the open file to a place, and changing its bytes.\<close>

lemma file_sim_set_pos:
  assumes "file_sim v s a" and "flsOpen a = Some (path, pos, r, w)"
  shows "file_sim v (set_pos (f64Handle (srvFile v)) p \<lparr>osPath = path, osPos = pos, osReads = r, osWrites = w\<rparr> s)
    (a\<lparr>flsOpen := Some (path, p, r, w)\<rparr>)"
  using assms by (auto simp: file_sim_def set_pos_def std_taken_def AList.update_conv')

lemma file_sim_content:
  assumes "file_sim v s a" and "flsOpen a = Some (path, pos, r, w)"
  shows "file_sim v (s\<lparr>osFiles := AList.update path bs (osFiles s)\<rparr>) (a\<lparr>flsContent := (flsContent a)(path \<mapsto> bs)\<rparr>)"
  using assms by (auto simp: file_sim_def std_taken_def AList.update_conv')

section \<open>The file\<close>

lemma close_file_sim: "file_sim v s a \<Longrightarrow> \<exists>v' s'. close_file v s = (v', s') \<and> file_sim v' s' (a\<lparr>flsOpen := None\<rparr>) \<and> \<not> f64Open (srvFile v')"
proof (cases "flsOpen a")
  case None
  moreover assume "file_sim v s a"
  ultimately show ?thesis by (auto simp: close_file_def file_sim_def)
next
  case (Some o1)
  assume sim: "file_sim v s a"
  obtain path pos r w where o1: "flsOpen a = Some (path, pos, r, w)" using Some by (cases o1) auto
  have "0 < f64Handle (srvFile v)" "f64Open (srvFile v)" using file_sim_open [OF sim o1] by auto
  then show ?thesis using sim by (auto simp: close_file_def f64_close_def file_sim_def sys_close_def std_taken_def AList.delete_conv')
qed

lemma sys_open_sim:
  assumes "file_sim v s a" and "flsOpen a = None"
  shows "(case flsContent a path of
      None \<Rightarrow> if flCreat fl then \<exists>s'. sys_open path fl s = (int (free_fd s), s') \<and> 0 < free_fd s \<and>
          file_sim (v\<lparr>srvFile := (srvFile v)\<lparr>f64Handle := int (free_fd s), f64Path := path, f64Open := True\<rparr>, srvPath := path\<rparr>) s'
            (a\<lparr>flsContent := (flsContent a)(path \<mapsto> []), flsOpen := Some (path, 0, flRead fl, flWrite fl)\<rparr>)
        else sys_open path fl s = (- 1, s)
    | Some bs \<Rightarrow> \<exists>s'. sys_open path fl s = (int (free_fd s), s') \<and> 0 < free_fd s \<and>
          file_sim (v\<lparr>srvFile := (srvFile v)\<lparr>f64Handle := int (free_fd s), f64Path := path, f64Open := True\<rparr>, srvPath := path\<rparr>) s'
            (a\<lparr>flsContent := (flsContent a)(path \<mapsto> if flTrunc fl then [] else bs), flsOpen := Some (path, 0, flRead fl, flWrite fl)\<rparr>))"
proof -
  have s: "osScript s = []" "std_taken s" "map_of (osFiles s) = flsContent a" using assms(1) by (simp_all add: file_sim_def)
  have "flsContent a path = Some bs \<Longrightarrow> (flsContent a)(path \<mapsto> bs) = flsContent a" for bs by (rule map_upd_triv)
  then show ?thesis using s free_fd_pos [OF s(2)]
    by (auto simp: sys_open_def file_sim_def std_taken_def AList.update_conv' split: option.splits)
qed

lemma f64_write_sim:
  assumes "file_sim v s a" and "flsOpen a = Some (path, pos, r, w)" and "flsContent a path = Some bs" and "length xs < 2 ^ 32 - 1"
  shows "\<exists>s' ok k. f64_write xs (srvFile v) s = (ok, k, s') \<and> ((ok \<and> k = word_of_nat (length xs)) \<longleftrightarrow> w \<and> xs \<noteq> []) \<and>
    file_sim v s' (if w \<and> xs \<noteq> [] then a\<lparr>flsContent := (flsContent a)(path \<mapsto> write_at bs pos xs), flsOpen := Some (path, pos + length xs, r, w)\<rparr> else a)"
proof -
  let ?d = "\<lparr>osPath = path, osPos = pos, osReads = r, osWrites = w\<rparr>"
  have o: "0 < f64Handle (srvFile v)" "os_file_of s (f64Handle (srvFile v)) = Some (?d, bs)" "osScript s = []"
    using file_sim_open [OF assms(1,2)] assms(3) by auto
  have small: "unat (word_of_nat (length xs) :: u32) = length xs" using assms(4) by (simp only: unat_of_nat) simp
  show ?thesis
  proof (cases w)
    case False
    have "word_of_nat (length xs) \<noteq> (- 1 :: u32)"
    proof
      assume "word_of_nat (length xs) = (- 1 :: u32)"
      then have "unat (word_of_nat (length xs) :: u32) = unat (- 1 :: u32)" by simp
      then show False using small assms(4) by (simp add: unsigned_minus_1_eq_mask mask_eq_exp_minus_1)
    qed
    then show ?thesis using False o assms(1) by (auto simp: f64_write_def sys_write_def Let_def)
  next
    case True
    let ?s = "s\<lparr>osFiles := AList.update path (write_at bs pos xs) (osFiles s)\<rparr>"
    let ?a = "a\<lparr>flsContent := (flsContent a)(path \<mapsto> write_at bs pos xs)\<rparr>"
    have sim: "file_sim v (set_pos (f64Handle (srvFile v)) (pos + length xs) ?d ?s) (?a\<lparr>flsOpen := Some (path, pos + length xs, r, w)\<rparr>)"
      by (rule file_sim_set_pos [OF file_sim_content [OF assms(1,2)]]) (simp add: assms(2))
    have "f64_write xs (srvFile v) s = (0 < (word_of_nat (length xs) :: u32), word_of_nat (length xs), set_pos (f64Handle (srvFile v)) (pos + length xs) ?d ?s)"
      using o True by (simp add: f64_write_def sys_write_def next_io_def Let_def)
    moreover have "0 < (word_of_nat (length xs) :: u32) \<longleftrightarrow> xs \<noteq> []" using small by (auto simp: word_less_nat_alt)
    moreover have "xs = [] \<Longrightarrow> ?a\<lparr>flsOpen := Some (path, pos, r, w)\<rparr> = a"
      using assms(2,3) by (simp add: write_at_def map_upd_triv)
    ultimately show ?thesis using sim True by auto
  qed
qed

lemma f64_position_sim:
  assumes "file_sim v s a" and "flsOpen a = Some (path, pos, r, w)"
  shows "\<exists>s'. f64_position (srvFile v) s = (Some 1, s') \<and> file_sim v s' (a\<lparr>flsOpen := Some (path, 1, r, w)\<rparr>)"
proof -
  obtain bs where o: "0 < f64Handle (srvFile v)" "os_file_of s (f64Handle (srvFile v)) = Some (\<lparr>osPath = path, osPos = pos, osReads = r, osWrites = w\<rparr>, bs)"
    using file_sim_open [OF assms] by auto
  then show ?thesis using file_sim_set_pos [OF assms, of 1] by (simp add: f64_position_def sys_lseek_def Let_def)
qed

lemma f64_read_sim:
  assumes "file_sim v s a" and "flsOpen a = Some (path, pos, True, w)" and "flsContent a path = Some bs" and "xs = take (unat n) (drop pos bs)"
  shows "\<exists>s'. f64_read n (srvFile v) s = (xs \<noteq> [], word_of_nat (length xs), xs, s') \<and>
    file_sim v s' (a\<lparr>flsOpen := Some (path, pos + length xs, True, w)\<rparr>)"
proof -
  have o: "0 < f64Handle (srvFile v)" "os_file_of s (f64Handle (srvFile v)) = Some (\<lparr>osPath = path, osPos = pos, osReads = True, osWrites = w\<rparr>, bs)"
      "osScript s = []"
    using file_sim_open [OF assms(1,2)] assms(3) by auto
  have "length xs \<le> unat n" using assms(4) by simp
  then have "length xs < 2 ^ 32" using unsigned_less [of n, where ?'a = nat] by simp
  then have "unat (word_of_nat (length xs) :: u32) = length xs" by (simp only: unat_of_nat) simp
  then have "0 < (word_of_nat (length xs) :: u32) \<longleftrightarrow> xs \<noteq> []" by (auto simp: word_less_nat_alt)
  then show ?thesis using o file_sim_set_pos [OF assms(1,2), of "pos + length xs"] assms(4)
    by (simp add: f64_read_def sys_read_def next_io_def Let_def)
qed

lemma f64_length_sim:
  assumes "file_sim v s a" and "flsOpen a = Some (path, pos, r, w)" and "flsContent a path = Some bs"
  shows "f64_length (srvFile v) s = Some (word_of_nat (length bs))"
  using file_sim_open [OF assms(1,2)] assms by (auto simp: f64_length_def sys_stat_def file_sim_def)

section \<open>Requests\<close>

text \<open>The data of the packets that a client sends, and a message that has arrived with such data.\<close>

definition byte_of_open_type :: "open_type \<Rightarrow> byte" where
  "byte_of_open_type t = (case t of modeRead \<Rightarrow> 0 | modeWrite \<Rightarrow> 1 | modeReadWrite \<Rightarrow> 2 | modeNoTruncateWrite \<Rightarrow> 3
     | modeNoTruncateReadWrite \<Rightarrow> 4 | mode_unknown \<Rightarrow> 5)"

definition open_request :: "string \<Rightarrow> open_type \<Rightarrow> bool \<Rightarrow> byte list" where
  "open_request path t existed = [byte_of_open_type t, if existed then 1 else 0, 0, 0] @ le_enc 4 (length path + 1) @ text_bytes path @ [0]"

definition read_request :: "nat \<Rightarrow> byte list" where
  "read_request n = le_enc 4 1 @ le_enc 8 0 @ le_enc 4 n"

definition write_request :: "u32 \<Rightarrow> u64 \<Rightarrow> byte list \<Rightarrow> byte list" where
  "write_request ty pos bs = le_enc 4 (unat ty) @ le_enc 8 (unat pos) @ le_enc 4 (length bs) @ bs"

definition seek_request :: "u32 \<Rightarrow> u64 \<Rightarrow> byte list" where
  "seek_request ty pos = le_enc 4 (unat ty) @ le_enc 8 (unat pos)"

definition file_message :: "u32 \<Rightarrow> byte list \<Rightarrow> message \<Rightarrow> bool" where
  "file_message code req m \<longleftrightarrow> dwMesCode (body_of (mesBody m)) = code \<and> mesDataLen m = word_of_nat (40 + length req) \<and>
     (\<exists>h rest. length h = 40 \<and> mesBody m = h @ req @ rest)"

lemma file_messageI:
  "dwMesCode (body_of (mesBody m)) = code \<Longrightarrow> mesDataLen m = word_of_nat (40 + length req) \<Longrightarrow> mesBody m = h @ req @ rest \<Longrightarrow>
   length h = 40 \<Longrightarrow> file_message code req m"
  by (auto simp: file_message_def)

lemma get_at_request:
  "length h = 40 \<Longrightarrow> mesBody m = h @ pre @ xs @ rest \<Longrightarrow> length pre = k \<Longrightarrow> length xs = n \<Longrightarrow> get_at (mesBody m) (40 + k) n = Inr xs"
  by (simp add: get_at_def)

lemma mes_u32_request: "length h = 40 \<Longrightarrow> mesBody m = h @ pre @ le_enc 4 x @ rest \<Longrightarrow> length pre = k \<Longrightarrow> x < 2 ^ 32 \<Longrightarrow> mes_u32 m k = Inr (word_of_nat x)"
  using get_at_request [of h m pre "le_enc 4 x" rest k 4] by (simp add: mes_u32_def le_dec_enc)

lemma mes_u64_request: "length h = 40 \<Longrightarrow> mesBody m = h @ pre @ le_enc 8 x @ rest \<Longrightarrow> length pre = k \<Longrightarrow> x < 2 ^ 64 \<Longrightarrow> mes_u64 m k = Inr (word_of_nat x)"
  using get_at_request [of h m pre "le_enc 8 x" rest k 8] by (simp add: mes_u64_def le_dec_enc)

lemma mes_byte_request: "length h = 40 \<Longrightarrow> mesBody m = h @ pre @ [x] @ rest \<Longrightarrow> length pre = k \<Longrightarrow> mes_byte m k = Inr x"
  using get_at_request [of h m pre "[x]" rest k 1] by (simp add: mes_byte_def)

section \<open>Replies\<close>

text \<open>What a reply says; at most so many bytes of it are a text.\<close>

definition reply_code :: "byte list \<Rightarrow> u32" where
  "reply_code bs = word_of_nat (le_dec (take 4 bs))"

definition reply_u32 :: "nat \<Rightarrow> byte list \<Rightarrow> nat" where
  "reply_u32 k bs = le_dec (take 4 (drop k bs))"

definition reply_answer :: "file_op \<Rightarrow> byte list \<Rightarrow> file_answer" where
  "reply_answer op bs =
     (case op of
        Op_Read n \<Rightarrow>
          if reply_code bs = 200 then Ans_Data (take (reply_u32 4 bs) (drop 8 bs))
          else if reply_code bs = 204 then Ans_Short (take (reply_u32 4 bs) (drop 8 bs))
          else if reply_code bs = 205 then Ans_End else Ans_Failed (reply_code bs)
      | Op_Length \<Rightarrow> if reply_code bs = 200 then Ans_Size (reply_u32 4 bs * 2 ^ 32 + reply_u32 8 bs) else Ans_Failed (reply_code bs)
      | _ \<Rightarrow> if reply_code bs = 200 then Ans_Ok else Ans_Failed (reply_code bs))"

lemma reply_code_common: "4 \<le> n \<Longrightarrow> reply_code (common_reply_bytes n r) = crCode r"
  by (simp add: reply_code_def common_reply_bytes_def take_Cons' le_enc_numeral [of "num.Bit0 (num.Bit0 num.One)", symmetric] word32_le_roundtrip min_def)

lemma length_common_reply_bytes: "n \<le> 1040 \<Longrightarrow> length (common_reply_bytes n r) = n"
  unfolding common_reply_bytes_def length_take length_append length_replicate by (simp add: min_def)

lemma text_reply_simps [simp]:
  "crCode (text_reply code t) = code" "crDataLen (text_reply code t) = word_of_nat (length t + 1)"
  by (simp_all add: text_reply_def common_reply_new_def)

lemma reply_values_common:
  "16 \<le> n \<Longrightarrow> reply_u32 4 (common_reply_bytes n r) = unat (crValue1 r) \<and> reply_u32 8 (common_reply_bytes n r) = unat (crValue2 r)"
proof -
  assume n: "16 \<le> n"
  have e: "common_reply_bytes n r = le_enc 4 (unat (crCode r)) @ le_enc 4 (unat (crValue1 r)) @ le_enc 4 (unat (crValue2 r)) @
      take (n - 12) (le_enc 4 (unat (crDataLen r)) @ text_bytes (crData r) @ replicate 1024 0)"
    using n by (simp add: common_reply_bytes_def)
  have d: "le_dec (le_enc 4 (unat (w :: u32))) = unat w" for w using unsigned_less [of w, where ?'a = nat] by (simp add: le_dec_enc)
  show ?thesis unfolding e by (simp add: reply_u32_def d)
qed

lemma reply_code_read: "4 \<le> n \<Longrightarrow> reply_code (read_reply_bytes n r) = rrCode r"
  by (simp add: reply_code_def read_reply_bytes_def min_def word32_le_roundtrip)

lemma reply_data_read:
  assumes "n = 8 + length xs" and "rrData r = xs" and "unat (rrDataLen r) = length xs"
  shows "reply_u32 4 (read_reply_bytes n r) = length xs \<and> take (length xs) (drop 8 (read_reply_bytes n r)) = xs"
proof -
  have "read_reply_bytes n r = le_enc 4 (unat (rrCode r)) @ le_enc 4 (unat (rrDataLen r)) @ xs"
    using assms by (simp add: read_reply_bytes_def)
  moreover have "le_dec (le_enc 4 (unat (rrDataLen r))) = unat (rrDataLen r)"
    using unsigned_less [of "rrDataLen r", where ?'a = nat] by (simp add: le_dec_enc)
  ultimately show ?thesis using assms(3) by (simp add: reply_u32_def)
qed

section \<open>The handlers do what the file does\<close>

lemma open_type_of_byte [simp]: "open_type_of (byte_of_open_type t) = t"
  by (cases t) (simp_all add: open_type_of_def byte_of_open_type_def)

lemma mes_data_len_request: "n < 2 ^ 31 \<Longrightarrow> mesDataLen m = word_of_nat (40 + n) \<Longrightarrow> unat (mes_data_len m) = n"
proof -
  assume n: "n < 2 ^ 31" "mesDataLen m = word_of_nat (40 + n)"
  then have "mes_data_len m = word_of_nat n" by (simp add: mes_data_len_def sizes)
  then show ?thesis using n(1) by (simp only: unat_of_nat) simp
qed

lemma file_open_fields:
  assumes "file_message code (open_request path t existed) m" and "CHR 0x00 \<notin> set path" and "length path < 2 ^ 30"
  shows "mes_u32 m 4 = Inr (word_of_nat (length path + 1)) \<and> mes_byte m 0 = Inr (byte_of_open_type t) \<and>
    mes_byte m 1 = Inr (if existed then 1 else 0) \<and> mes_c_string m 8 = Inr path \<and> unat (mes_data_len m) = 9 + length path"
proof -
  obtain h rest where m: "length h = 40" "mesBody m = h @ open_request path t existed @ rest" "mesDataLen m = word_of_nat (40 + (9 + length path))"
    using assms(1) by (auto simp: file_message_def open_request_def text_bytes_def)
  let ?ty = "byte_of_open_type t" and ?e = "if existed then 1 else 0 :: byte"
  have "mesBody m = h @ [?ty, ?e, 0, 0] @ le_enc 4 (length path + 1) @ text_bytes path @ [0] @ rest" using m(2) by (simp add: open_request_def)
  from mes_u32_request [OF m(1) this, of 4] have n: "mes_u32 m 4 = Inr (word_of_nat (length path + 1))" using assms(3) by simp
  have "mesBody m = h @ [] @ [?ty] @ [?e, 0, 0] @ le_enc 4 (length path + 1) @ text_bytes path @ [0] @ rest" using m(2) by (simp add: open_request_def)
  from mes_byte_request [OF m(1) this] have ty: "mes_byte m 0 = Inr ?ty" by simp
  have "mesBody m = h @ [?ty] @ [?e] @ [0, 0] @ le_enc 4 (length path + 1) @ text_bytes path @ [0] @ rest" using m(2) by (simp add: open_request_def)
  from mes_byte_request [OF m(1) this] have e: "mes_byte m 1 = Inr ?e" by simp
  have "drop 48 (mesBody m) = text_bytes path @ 0 # rest" using m by (simp add: open_request_def)
  then have "mes_c_string m 8 = Inr path" using c_string_text [OF assms(2), of rest] by (simp add: mes_c_string_def text_bytes_def)
  then show ?thesis using n ty e mes_data_len_request [OF _ m(3)] assms(3) by simp
qed

lemma file_open_work_sim:
  assumes "file_sim v s a" and "file_message CX_FILE_OPEN_CODE (open_request path t existed) m" and "CHR 0x00 \<notin> set path" and "length path < 2 ^ 30"
    and "length (feError env) \<le> 1000"
  shows "\<exists>bs v' s'. file_open_work env m v s = Inr (bs, v', s') \<and> 16 \<le> length bs \<and> length bs \<le> 1040 \<and>
    reply_answer (Op_Open path t existed) bs = fst (file_step (Op_Open path t existed) a) \<and>
    file_sim v' s' (snd (file_step (Op_Open path t existed) a))"
proof -
  note fld = file_open_fields [OF assms(2-4)]
  obtain v1 s1 where c: "close_file v s = (v1, s1)" "file_sim v1 s1 (a\<lparr>flsOpen := None\<rparr>)" "\<not> f64Open (srvFile v1)"
    using close_file_sim [OF assms(1)] by blast
  have n: "unat (word_of_nat (length path + 1) :: u32) = length path + 1" using assms(4) by (simp only: unat_of_nat) simp
  then have ok: "\<not> (word_of_nat (length path + 1) = (0 :: u32) \<or> mes_data_len m < word_of_nat (length path + 1))"
    using fld by (auto simp: word_less_nat_alt dest: arg_cong [where f = unat])
  have "file_open_work env m v s =
      (case f64_open path t existed (srvFile v1) s1 of (ok, f, s) \<Rightarrow>
         if \<not> ok then Inr (common_reply_bytes (16 + length (feError env) + 1) (text_reply 202 (feError env)), v1\<lparr>srvFile := f, srvPath := []\<rparr>, s)
         else Inr (common_reply_bytes 16 (common_reply_new\<lparr>crCode := 200\<rparr>), v1\<lparr>srvFile := f, srvPath := path\<rparr>, s))"
    using fld c(1) unfolding file_open_work_def by (simp add: if_not_P [OF ok] del: One_nat_def of_nat_add)
  note work = this
  let ?t = "text_reply 202 (feError env)"
  show ?thesis
  proof (cases "flsContent a path = None \<and> \<not> flCreat (flags_of t)")
    case True
    then have "sys_open path (flags_of t) s1 = (- 1, s1)" using sys_open_sim [OF c(2), where path = path and fl = "flags_of t"] by simp
    then have "file_open_work env m v s = Inr (common_reply_bytes (16 + length (feError env) + 1) ?t,
        v1\<lparr>srvFile := (srvFile v1)\<lparr>f64Handle := - 1\<rparr>, srvPath := []\<rparr>, s1)"
      using work by (simp add: f64_open_def)
    moreover have "file_sim (v1\<lparr>srvFile := (srvFile v1)\<lparr>f64Handle := - 1\<rparr>, srvPath := []\<rparr>) s1 (a\<lparr>flsOpen := None\<rparr>)"
      using c by (simp add: file_sim_def)
    ultimately show ?thesis using True assms(5)
      by (simp add: file_step_def Let_def reply_answer_def reply_code_common length_common_reply_bytes)
  next
    case False
    let ?ok = "common_reply_bytes 16 (common_reply_new\<lparr>crCode := 200\<rparr>)"
    have "16 \<le> length ?ok \<and> length ?ok \<le> 1040 \<and> reply_answer (Op_Open path t existed) ?ok = Ans_Ok"
      by (simp add: reply_answer_def reply_code_common length_common_reply_bytes)
    moreover obtain s' where "sys_open path (flags_of t) s1 = (int (free_fd s1), s')" "0 < free_fd s1"
        "file_sim (v1\<lparr>srvFile := (srvFile v1)\<lparr>f64Handle := int (free_fd s1), f64Path := path, f64Open := True\<rparr>, srvPath := path\<rparr>) s'
           (snd (file_step (Op_Open path t existed) a))" "fst (file_step (Op_Open path t existed) a) = Ans_Ok"
      using False sys_open_sim [OF c(2), where path = path and fl = "flags_of t"]
      by (auto simp: file_step_def Let_def split: option.splits if_splits)
    ultimately show ?thesis using work by (simp add: f64_open_def Let_def)
  qed
qed


lemma file_write_fields:
  assumes "file_message code (write_request ty pos bs) m" and "length bs < 2 ^ 31"
  shows "mes_u32 m 0 = Inr ty \<and> mes_u64 m 4 = Inr pos \<and> mes_u32 m 12 = Inr (word_of_nat (length bs)) \<and> get_at (mesBody m) 56 (length bs) = Inr bs"
proof -
  obtain h rest where m: "length h = 40" "mesBody m = h @ write_request ty pos bs @ rest" using assms(1) by (auto simp: file_message_def)
  let ?a = "le_enc 4 (unat ty)" and ?b = "le_enc 8 (unat pos)" and ?c = "le_enc 4 (length bs)"
  have "mesBody m = h @ [] @ ?a @ ?b @ ?c @ bs @ rest" using m(2) by (simp add: write_request_def)
  from mes_u32_request [OF m(1) this] have 1: "mes_u32 m 0 = Inr ty" using unsigned_less [of ty, where ?'a = nat] by simp
  have "mesBody m = h @ ?a @ ?b @ ?c @ bs @ rest" using m(2) by (simp add: write_request_def)
  from mes_u64_request [OF m(1) this] have 2: "mes_u64 m 4 = Inr pos" using unsigned_less [of pos, where ?'a = nat] by simp
  have "mesBody m = h @ (?a @ ?b) @ ?c @ bs @ rest" using m(2) by (simp add: write_request_def)
  from mes_u32_request [OF m(1) this] have 3: "mes_u32 m 12 = Inr (word_of_nat (length bs))" using assms(2) by simp
  have "mesBody m = h @ (?a @ ?b @ ?c) @ bs @ rest" using m(2) by (simp add: write_request_def)
  from get_at_request [OF m(1) this] have "get_at (mesBody m) 56 (length bs) = Inr bs" by simp
  then show ?thesis using 1 2 3 by simp
qed

lemma length_show_nat: "n < 10 ^ k \<Longrightarrow> 0 < k \<Longrightarrow> length (show_nat n) \<le> k"
proof (induction k arbitrary: n)
  case (Suc k)
  show ?case
  proof (cases "n < 10")
    case False
    then have "n div 10 < 10 ^ k" "0 < k" using Suc.prems by (auto simp: less_mult_imp_div_less intro: gr0I)
    then have "length (show_nat (n div 10)) \<le> k" using Suc.IH by blast
    then show ?thesis using False by (subst show_nat.simps) (simp del: show_nat.simps)
  qed (subst show_nat.simps, simp del: show_nat.simps)
qed simp

lemma length_show_int: "length (show_int (sint (w :: 64 word))) \<le> 21" "length (show_int (sint (x :: u32))) \<le> 21"
proof -
  have big: "\<bar>z\<bar> \<le> 2 ^ 63 \<Longrightarrow> length (show_int z) \<le> 21" for z :: int
    using length_show_nat [of "nat \<bar>z\<bar>" 20] by (simp add: show_int_def abs_if nat_less_iff del: show_nat.simps split: if_splits)
  show "length (show_int (sint w)) \<le> 21" using sint_greater_eq [of w] sint_lt [of w] by (intro big) simp
  show "length (show_int (sint x)) \<le> 21" using sint_greater_eq [of x] sint_lt [of x] by (intro big) simp
qed

lemma length_texts:
  "length (write_error pos n k er) \<le> 250" "length (seek_error pos ty) \<le> 250" "length (position_error er) \<le> 250"
  "length (read_length_error n) \<le> 250" "length (read_memory_error n) \<le> 250" "length CLOSED_TEXT \<le> 250" "length READ_CLOSED_TEXT \<le> 250"
  using length_show_int(1) [of pos] length_show_int(2) [of n] length_show_int(2) [of k] length_show_int(2) [of er] length_show_int(2) [of ty]
  by (simp_all add: write_error_def seek_error_def position_error_def read_length_error_def read_memory_error_def CLOSED_TEXT_def READ_CLOSED_TEXT_def del: show_nat.simps)

lemma text_length_word: "length t \<le> 1000 \<Longrightarrow> unat (word_of_nat (length t + 1) :: u32) = length t + 1"
  by (simp only: unat_of_nat) simp

lemma file_write_work_sim:
  assumes "file_sim v s a" and "file_message CX_FILE_WRITE_CODE (write_request 1 0 xs) m" and "length xs < 2 ^ 31"
  shows "\<exists>bs s'. file_write_work env m v s = Inr (bs, s') \<and> 17 \<le> length bs \<and> length bs \<le> 1040 \<and>
    reply_answer (Op_Write xs) bs = fst (file_step (Op_Write xs) a) \<and> file_sim v s' (snd (file_step (Op_Write xs) a))"
proof (cases "flsOpen a")
  case None
  then have "\<not> f64Open (srvFile v)" using file_sim_closed [OF assms(1)] by simp
  then show ?thesis using None assms(1) length_texts(6)
    by (simp add: file_write_work_def Let_def file_step_def reply_answer_def reply_code_common length_common_reply_bytes text_length_word del: of_nat_add One_nat_def)
next
  case (Some o1)
  then obtain path pos r w where o1: "flsOpen a = Some (path, pos, r, w)" by (cases o1) auto
  obtain bs where bs: "f64Open (srvFile v)" "flsContent a path = Some bs" using file_sim_open [OF assms(1) o1] by auto
  note fld = file_write_fields [OF assms(2,3)]
  obtain s1 ok k where wr: "f64_write xs (srvFile v) s = (ok, k, s1)" "(ok \<and> k = word_of_nat (length xs)) \<longleftrightarrow> w \<and> xs \<noteq> []"
      "file_sim v s1 (if w \<and> xs \<noteq> [] then a\<lparr>flsContent := (flsContent a)(path \<mapsto> write_at bs pos xs), flsOpen := Some (path, pos + length xs, r, w)\<rparr> else a)"
    using f64_write_sim [OF assms(1) o1 bs(2), of xs] assms(3) by auto
  have un: "unat (word_of_nat (length xs) :: u32) = length xs" using assms(3) by (simp only: unat_of_nat) simp
  have work: "file_write_work env m v s = (if \<not> ok \<or> k \<noteq> word_of_nat (length xs) then
        (case f64_position (srvFile v) s1 of (p, s) \<Rightarrow>
           Inr (common_reply_bytes (17 + unat (crDataLen (text_reply 502 (write_error (case p of None \<Rightarrow> 0 | Some p \<Rightarrow> p) (word_of_nat (length xs)) k (feErrno env)))))
             (text_reply 502 (write_error (case p of None \<Rightarrow> 0 | Some p \<Rightarrow> p) (word_of_nat (length xs)) k (feErrno env))), s))
      else Inr (common_reply_bytes (17 + unat (crDataLen (common_reply_new\<lparr>crCode := 200\<rparr>))) (common_reply_new\<lparr>crCode := 200\<rparr>), s1))"
    unfolding file_write_work_def Let_def using fld bs(1) un wr(1) by (simp add: seek_asked_def)
  show ?thesis
  proof (cases "w \<and> xs \<noteq> []")
    case True
    then show ?thesis using work wr o1 bs(2)
      by (simp add: file_step_def reply_answer_def reply_code_common length_common_reply_bytes common_reply_new_def)
  next
    case False
    then have fail: "\<not> ok \<or> k \<noteq> word_of_nat (length xs)" and sim: "file_sim v s1 a" using wr(2,3) by auto
    obtain s2 where p: "f64_position (srvFile v) s1 = (Some 1, s2)" "file_sim v s2 (a\<lparr>flsOpen := Some (path, 1, r, w)\<rparr>)"
      using f64_position_sim [OF sim o1] by blast
    let ?t = "write_error 1 (word_of_nat (length xs)) k (feErrno env)"
    have "file_write_work env m v s = Inr (common_reply_bytes (17 + (length ?t + 1)) (text_reply 502 ?t), s2)"
      using work fail p(1) length_texts(1) [of 1 "word_of_nat (length xs)" k "feErrno env"] text_length_word [of ?t] by simp
    then show ?thesis using p(2) o1 bs(2) False length_texts(1) [of 1 "word_of_nat (length xs)" k "feErrno env"]
      by (auto simp: file_step_def reply_answer_def reply_code_common length_common_reply_bytes)
  qed
qed


text \<open>Reading: once through the loop, or once and the second turn ends it.\<close>

definition read_result :: "file_env \<Rightarrow> nat \<Rightarrow> byte list \<Rightarrow> read_reply" where
  "read_result env n xs =
     (if xs = [] then \<lparr>rrCode = 205, rrDataLen = word_of_nat (length (feError env) + 1), rrData = text_bytes (feError env) @ [0]\<rparr>
      else \<lparr>rrCode = (if length xs = n then 200 else 204), rrDataLen = word_of_nat (length xs), rrData = xs\<rparr>)"

lemma file_read_loop_end: "\<not> got < want \<Longrightarrow> file_read_loop env want got f r s = (r, s)"
  by (simp add: file_read_loop.simps)

lemma file_read_loop_sim:
  assumes "file_sim v s a" and "flsOpen a = Some (path, pos, True, w)" and "flsContent a path = Some bs" and "n \<noteq> 0"
  shows "\<exists>s'. file_read_loop env n 0 (srvFile v) \<lparr>rrCode = 200, rrDataLen = 0, rrData = []\<rparr> s =
      (read_result env (unat n) (take (unat n) (drop pos bs)), s') \<and>
    file_sim v s' (snd (file_step (Op_Read (unat n)) a))"
proof -
  define xs where "xs = take (unat n) (drop pos bs)"
  obtain s1 where rd: "f64_read n (srvFile v) s = (xs \<noteq> [], word_of_nat (length xs), xs, s1)"
      "file_sim v s1 (a\<lparr>flsOpen := Some (path, pos + length xs, True, w)\<rparr>)"
    using f64_read_sim [OF assms(1-3) xs_def] by blast
  have "flsOpen (a\<lparr>flsOpen := Some (path, pos + length xs, True, w)\<rparr>) = Some (path, pos + length xs, True, w)" by simp
  from f64_position_sim [OF rd(2) this]
  obtain s2 where p: "f64_position (srvFile v) s1 = (Some 1, s2)" "file_sim v s2 (a\<lparr>flsOpen := Some (path, 1, True, w)\<rparr>)" by auto
  have n: "0 < n" using assms(4) by (simp add: word_gt_0)
  have le: "length xs \<le> unat n" by (simp add: xs_def)
  have eq: "word_of_nat (length xs) = n \<longleftrightarrow> length xs = unat n"
  proof
    assume "word_of_nat (length xs) = n"
    moreover have "length xs < 2 ^ 32" using le unsigned_less [of n, where ?'a = nat] by simp
    then have "unat (word_of_nat (length xs) :: u32) = length xs" by (simp only: unat_of_nat) simp
    ultimately show "length xs = unat n" by simp
  qed simp
  show ?thesis
  proof (cases "length xs = unat n")
    case True
    have "xs \<noteq> []" using True n by (auto simp: word_less_nat_alt)
    then have "file_read_loop env n 0 (srvFile v) \<lparr>rrCode = 200, rrDataLen = 0, rrData = []\<rparr> s =
        (\<lparr>rrCode = 200, rrDataLen = n, rrData = xs\<rparr>, s1)"
      using rd(1) n True by (subst file_read_loop.simps) (simp add: eq file_read_loop_end Let_def)
    then show ?thesis using True rd(2) \<open>xs \<noteq> []\<close>
      unfolding file_step_read [OF assms(2,3) xs_def] xs_def [symmetric] by (simp add: read_result_def)
  next
    case False
    then have "file_read_loop env n 0 (srvFile v) \<lparr>rrCode = 200, rrDataLen = 0, rrData = []\<rparr> s = (read_result env (unat n) xs, s2)"
      using rd(1) n p(1) eq by (subst file_read_loop.simps) (simp add: read_result_def Let_def)
    then show ?thesis using False p(2) le unfolding file_step_read [OF assms(2,3) xs_def] xs_def [symmetric] by simp
  qed
qed

lemma read_result_reply:
  assumes "xs = take n (drop pos bs)" and "n \<le> 1024 * 10240" and "0 < n" and "length (feError env) \<le> 1000" and "r = read_result env n xs"
  shows "8 \<le> unat (rrDataLen r + 8) \<and> unat (rrDataLen r + 8) \<le> 1024 * 10240 + 1024 \<and> length (read_reply_bytes (unat (rrDataLen r + 8)) r) = unat (rrDataLen r + 8) \<and>
    reply_answer (Op_Read n) (read_reply_bytes (unat (rrDataLen r + 8)) r) = (if xs = [] then Ans_End else if length xs < n then Ans_Short xs else Ans_Data xs) \<and>
    reply_u32 4 (read_reply_bytes (unat (rrDataLen r + 8)) r) = unat (rrDataLen r)"
proof -
  let ?ys = "rrData r"
  have lx: "length xs \<le> n" using assms(1) by simp
  have ys: "length ?ys \<le> 1024 * 10240" "rrDataLen r = word_of_nat (length ?ys)"
    using lx assms(2,4,5) by (auto simp: read_result_def text_bytes_def)
  then have un: "unat (rrDataLen r) = length ?ys" by (simp only: unat_of_nat) simp
  have "unat (word_of_nat (length ?ys + 8) :: u32) = length ?ys + 8" using ys(1) by (simp only: unat_of_nat) simp
  then have un8: "unat (rrDataLen r + 8) = 8 + length ?ys" using ys(2) by (simp add: add.commute)
  have d: "reply_u32 4 (read_reply_bytes (8 + length ?ys) r) = length ?ys \<and> take (length ?ys) (drop 8 (read_reply_bytes (8 + length ?ys) r)) = ?ys"
    by (rule reply_data_read [OF refl refl un])
  have "length (read_reply_bytes (8 + length ?ys) r) = 8 + length ?ys" by (simp add: read_reply_bytes_def min_def)
  then show ?thesis
    using d un un8 ys(1) lx assms(5) by (auto simp: reply_answer_def reply_code_read read_result_def)
qed

lemma file_read_fields:
  assumes "file_message code (read_request n) m" and "n < 2 ^ 32"
  shows "mes_u32 m 12 = Inr (word_of_nat n)"
proof -
  obtain h rest where m: "length h = 40" "mesBody m = h @ read_request n @ rest" using assms(1) by (auto simp: file_message_def)
  then have "mesBody m = h @ (le_enc 4 1 @ le_enc 8 0) @ le_enc 4 n @ rest" by (simp add: read_request_def)
  from mes_u32_request [OF m(1) this _ assms(2)] show ?thesis by simp
qed

lemma file_read_work_sim:
  assumes "file_sim v s a" and "file_message CX_FILE_READ_CODE (read_request n) m" and "0 < n" and "n \<le> 1024 * 10240"
    and "\<And>path pos r w. flsOpen a = Some (path, pos, r, w) \<Longrightarrow> r" and "\<forall>k. memory k" and "length (feError env) \<le> 1000"
  shows "\<exists>work r s'. file_read_work env m memory v s = Inr (work, s') \<and> (work = Reply r \<or> work = FromFile r) \<and>
    8 \<le> unat (rrDataLen r + 8) \<and> length (read_reply_bytes (unat (rrDataLen r + 8)) r) = unat (rrDataLen r + 8) \<and>
    unat (rrDataLen r + 8) \<le> 1024 * 10240 + 1024 \<and>
    reply_answer (Op_Read n) (read_reply_bytes (unat (rrDataLen r + 8)) r) = fst (file_step (Op_Read n) a) \<and>
    file_sim v s' (snd (file_step (Op_Read n) a))"
proof -
  have u: "mes_u32 m 12 = Inr (word_of_nat n)" using file_read_fields [OF assms(2)] assms(4) by simp
  have un: "unat (word_of_nat n :: u32) = n" using assms(4) by (simp only: unat_of_nat) simp
  have n: "\<not> (word_of_nat n = (0 :: u32) \<or> 1024 * 10240 < (word_of_nat n :: u32))"
    using assms(3,4) un by (auto simp: word_less_nat_alt)
  then have nz: "word_of_nat n \<noteq> (0 :: u32)" and small: "\<not> 10485760 < (word_of_nat n :: u32)" by auto
  show ?thesis
  proof (cases "flsOpen a")
    case None
    let ?r = "read_text_reply 202 READ_CLOSED_TEXT"
    have "\<not> f64Open (srvFile v)" using file_sim_closed [OF assms(1)] None by simp
    then have w: "file_read_work env m memory v s = Inr (Reply ?r, s)" using u nz small by (simp add: file_read_work_def)
    have "rrDataLen ?r = 27" "rrCode ?r = 202" by (simp_all add: read_text_reply_def READ_CLOSED_TEXT_def)
    then have "8 \<le> unat (rrDataLen ?r + 8) \<and> length (read_reply_bytes (unat (rrDataLen ?r + 8)) ?r) = unat (rrDataLen ?r + 8) \<and>
        unat (rrDataLen ?r + 8) \<le> 1024 * 10240 + 1024 \<and>
        reply_answer (Op_Read n) (read_reply_bytes (unat (rrDataLen ?r + 8)) ?r) = fst (file_step (Op_Read n) a)"
      using None by (simp add: reply_answer_def reply_code_read file_step_def) (simp add: read_reply_bytes_def)
    moreover have "file_sim v s (snd (file_step (Op_Read n) a))" using None assms(1) by (simp add: file_step_def)
    ultimately show ?thesis using w by blast
  next
    case (Some o1)
    then obtain path pos w where o1: "flsOpen a = Some (path, pos, True, w)" using assms(5) by (cases o1) auto
    obtain bs where bs: "f64Open (srvFile v)" "flsContent a path = Some bs" using file_sim_open [OF assms(1) o1] by auto
    define xs where "xs = take n (drop pos bs)"
    let ?r = "read_result env n xs"
    obtain s' where l: "file_read_loop env (word_of_nat n) 0 (srvFile v) \<lparr>rrCode = 200, rrDataLen = 0, rrData = []\<rparr> s = (?r, s')"
        "file_sim v s' (snd (file_step (Op_Read n) a))"
      using file_read_loop_sim [OF assms(1) o1 bs(2) nz, of env] unfolding un xs_def [symmetric] by blast
    have "file_read_work env m memory v s = Inr (FromFile ?r, s')"
      using u bs(1) assms(6) l(1) nz small by (simp add: file_read_work_def)
    moreover have "(if xs = [] then Ans_End else if length xs < n then Ans_Short xs else Ans_Data xs) = fst (file_step (Op_Read n) a)"
      unfolding file_step_read [OF o1 bs(2) xs_def] by simp
    ultimately show ?thesis using read_result_reply [OF xs_def assms(4,3,7) refl] l(2) by metis
  qed
qed

lemma file_length_work_sim:
  assumes "file_sim v s a" and "\<forall>path bs. flsContent a path = Some bs \<longrightarrow> length bs < 2 ^ 64"
  shows "16 \<le> length (file_length_work v s) \<and> length (file_length_work v s) \<le> 1040 \<and>
    reply_answer Op_Length (file_length_work v s) = fst (file_step Op_Length a) \<and> snd (file_step Op_Length a) = a"
proof (cases "flsOpen a")
  case None
  then have "\<not> f64Open (srvFile v)" using file_sim_closed [OF assms(1)] by simp
  then show ?thesis using None length_texts(6)
    by (simp add: file_length_work_def Let_def file_step_def reply_answer_def reply_code_common length_common_reply_bytes text_length_word del: of_nat_add One_nat_def)
next
  case (Some o1)
  then obtain path pos r w where o1: "flsOpen a = Some (path, pos, r, w)" by (cases o1) auto
  obtain bs where bs: "f64Open (srvFile v)" "flsContent a path = Some bs" using file_sim_open [OF assms(1) o1] by auto
  let ?n = "length bs"
  have un: "unat (word_of_nat ?n :: u64) = ?n" using assms(2) bs(2) by (simp only: unat_of_nat) simp
  have "?n div 2 ^ 32 < 2 ^ 32" using assms(2) bs(2) by (simp add: less_mult_imp_div_less)
  then have v: "unat (word_of_nat (?n div 2 ^ 32) :: u32) = ?n div 2 ^ 32" "unat (word_of_nat (?n mod 2 ^ 32) :: u32) = ?n mod 2 ^ 32"
    by (simp_all only: unat_of_nat) simp_all
  let ?r = "common_reply_new\<lparr>crCode := 200, crValue1 := word_of_nat (?n div 2 ^ 32), crValue2 := word_of_nat (?n mod 2 ^ 32)\<rparr>"
  have "file_length_work v s = common_reply_bytes 16 ?r"
    using bs(1) f64_length_sim [OF assms(1) o1 bs(2)] un by (simp add: file_length_work_def Let_def common_reply_new_def)
  moreover have "reply_u32 4 (common_reply_bytes 16 ?r) * 2 ^ 32 + reply_u32 8 (common_reply_bytes 16 ?r) = ?n"
    using reply_values_common [of 16 ?r] v by simp
  ultimately show ?thesis using o1 bs(2)
    by (simp add: file_step_def reply_answer_def reply_code_common length_common_reply_bytes del: power_numeral)
qed

lemma file_close_work_sim:
  assumes "file_sim v s a"
  shows "\<exists>bs v' s'. file_close_work v s = (bs, v', s') \<and> length bs = 17 \<and> reply_answer Op_Close bs = fst (file_step Op_Close a) \<and>
    file_sim v' s' (snd (file_step Op_Close a))"
  using close_file_sim [OF assms]
  by (auto simp: file_close_work_def file_step_def reply_answer_def reply_code_common length_common_reply_bytes)

section \<open>Any sequence of requests\<close>

text \<open>The request of an operation, and when it can be made: the texts and lengths that clients use, no reading of a file
  that is open for writing only.\<close>

definition op_code :: "file_op \<Rightarrow> u32" where
  "op_code op = (case op of Op_Open path t e \<Rightarrow> CX_FILE_OPEN_CODE | Op_Write xs \<Rightarrow> CX_FILE_WRITE_CODE | Op_Read n \<Rightarrow> CX_FILE_READ_CODE
     | Op_Length \<Rightarrow> CX_FILE_GET_LENGTH_CODE | Op_Close \<Rightarrow> CX_FILE_CLOSE_CODE)"

definition op_request :: "file_op \<Rightarrow> byte list" where
  "op_request op = (case op of Op_Open path t e \<Rightarrow> open_request path t e | Op_Write xs \<Rightarrow> write_request 1 0 xs | Op_Read n \<Rightarrow> read_request n
     | Op_Length \<Rightarrow> replicate 12 0 | Op_Close \<Rightarrow> replicate 9 0)"

definition op_ok :: "file_op \<Rightarrow> files \<Rightarrow> bool" where
  "op_ok op a = (case op of
     Op_Open path t e \<Rightarrow> CHR 0x00 \<notin> set path \<and> length path < 2 ^ 30
   | Op_Write xs \<Rightarrow> length xs < 2 ^ 31
   | Op_Read n \<Rightarrow> 0 < n \<and> n \<le> 1024 * 10240 \<and> (case flsOpen a of None \<Rightarrow> True | Some (path, pos, r, w) \<Rightarrow> r)
   | Op_Length \<Rightarrow> \<forall>bs \<in> ran (flsContent a). length bs < 2 ^ 64
   | Op_Close \<Rightarrow> True)"

fun ops_ok :: "file_op list \<Rightarrow> files \<Rightarrow> bool" where
  "ops_ok [] a = True"
| "ops_ok (op # ops) a = (op_ok op a \<and> ops_ok ops (snd (file_step op a)))"

fun file_steps :: "file_op list \<Rightarrow> files \<Rightarrow> file_answer list \<times> files" where
  "file_steps [] a = ([], a)"
| "file_steps (op # ops) a = (let (x, a) = file_step op a; (xs, a) = file_steps ops a in (x # xs, a))"

text \<open>The bytes of a reply, and the server at work on one message after the other.\<close>

definition sent_bytes :: "file_reply \<Rightarrow> byte list" where
  "sent_bytes reply = (case reply of No_Reply \<Rightarrow> [] | Send_Reply bs code \<Rightarrow> bs | Send_Buffer n r \<Rightarrow> read_reply_bytes (unat (rrDataLen r + 8)) r)"

fun serve_files :: "file_env \<Rightarrow> (u32 \<Rightarrow> bool) \<Rightarrow> message list \<Rightarrow> file_server \<Rightarrow> os \<Rightarrow> (file_reply list \<times> file_server \<times> os) res" where
  "serve_files env memory [] v s = Inr ([], v, s)"
| "serve_files env memory (m # ms) v s = bind_res (file_work env m memory v s) (\<lambda>(r, v, s).
     bind_res (serve_files env memory ms v s) (\<lambda>(rs, v, s). Inr (r # rs, v, s)))"

lemmas file_codes = CX_HEAERT_BEAT_CODE_def CX_FILE_OPEN_CODE_def CX_FILE_SEEK_CODE_def CX_FILE_READ_CODE_def CX_FILE_WRITE_CODE_def
  CX_FILE_CLOSE_CODE_def CX_FILE_GET_LENGTH_CODE_def

lemma reply_u32_read:
  assumes "8 \<le> n"
  shows "reply_u32 4 (read_reply_bytes n r) = unat (rrDataLen r)"
proof -
  have "read_reply_bytes n r = le_enc 4 (unat (rrCode r)) @ le_enc 4 (unat (rrDataLen r)) @ take (n - 8) (rrData r @ replicate 1024 0)"
    using assms by (simp add: read_reply_bytes_def)
  moreover have "le_dec (le_enc 4 (unat (rrDataLen r))) = unat (rrDataLen r)"
    using unsigned_less [of "rrDataLen r", where ?'a = nat] by (simp add: le_dec_enc)
  ultimately show ?thesis by (simp add: reply_u32_def)
qed

lemma unat_plus_8: "8 \<le> unat (x + 8 :: u32) \<Longrightarrow> unat (x + 8) = unat x + 8"
  using unsigned_less [of x, where ?'a = nat] by (simp add: unat_word_ariths mod_if split: if_splits)

lemma file_work_sim:
  assumes "file_sim v s a" and "file_message (op_code op) (op_request op) m" and "op_ok op a" and "\<forall>k. memory k" and "length (feError env) \<le> 1000"
  shows "\<exists>r v' s'. file_work env m memory v s = Inr (r, v', s') \<and> r \<noteq> No_Reply \<and> 8 \<le> length (sent_bytes r) \<and>
    length (sent_bytes r) \<le> 1024 * 10240 + 1024 \<and>
    (if \<exists>n. op = Op_Read n then length (sent_bytes r) = reply_u32 4 (sent_bytes r) + 8 else 16 \<le> length (sent_bytes r) \<and> length (sent_bytes r) \<le> 1040) \<and>
    reply_answer op (sent_bytes r) = fst (file_step op a) \<and> file_sim v' s' (snd (file_step op a))"
proof -
  have code: "dwMesCode (body_of (mesBody m)) = op_code op" using assms(2) by (simp add: file_message_def)
  show ?thesis
  proof (cases op)
    case (Op_Open path t e)
    have "\<exists>bs v' s'. file_open_work env m v s = Inr (bs, v', s') \<and> 16 \<le> length bs \<and> length bs \<le> 1040 \<and> reply_answer op bs = fst (file_step op a) \<and>
        file_sim v' s' (snd (file_step op a))"
      unfolding Op_Open using assms Op_Open by (intro file_open_work_sim) (auto simp: op_code_def op_request_def op_ok_def)
    then show ?thesis using code Op_Open by (fastforce simp: file_work_def op_code_def file_codes sent_bytes_def)
  next
    case (Op_Write xs)
    have "\<exists>bs s'. file_write_work env m v s = Inr (bs, s') \<and> 17 \<le> length bs \<and> length bs \<le> 1040 \<and> reply_answer op bs = fst (file_step op a) \<and>
        file_sim v s' (snd (file_step op a))"
      unfolding Op_Write using assms Op_Write by (intro file_write_work_sim) (auto simp: op_code_def op_request_def op_ok_def)
    then show ?thesis using code Op_Write by (fastforce simp: file_work_def op_code_def file_codes sent_bytes_def)
  next
    case (Op_Read n)
    have n: "n \<le> 1024 * 10240" using assms(3) Op_Read by (simp add: op_ok_def)
    have "\<exists>work r s'. file_read_work env m memory v s = Inr (work, s') \<and> (work = Reply r \<or> work = FromFile r) \<and>
        8 \<le> unat (rrDataLen r + 8) \<and> length (read_reply_bytes (unat (rrDataLen r + 8)) r) = unat (rrDataLen r + 8) \<and>
        unat (rrDataLen r + 8) \<le> 1024 * 10240 + 1024 \<and>
        reply_answer op (read_reply_bytes (unat (rrDataLen r + 8)) r) = fst (file_step op a) \<and> file_sim v s' (snd (file_step op a))"
      unfolding Op_Read using assms Op_Read by (intro file_read_work_sim) (auto simp: op_code_def op_request_def op_ok_def)
    then obtain work r s' where w: "file_read_work env m memory v s = Inr (work, s')" "work = Reply r \<or> work = FromFile r"
        "8 \<le> unat (rrDataLen r + 8)" "length (read_reply_bytes (unat (rrDataLen r + 8)) r) = unat (rrDataLen r + 8)"
        "unat (rrDataLen r + 8) \<le> 1024 * 10240 + 1024"
        "reply_answer op (read_reply_bytes (unat (rrDataLen r + 8)) r) = fst (file_step op a)" "file_sim v s' (snd (file_step op a))"
      by blast
    have u: "mes_u32 m 12 = Inr (word_of_nat n)" using file_read_fields [of _ n m] assms(2) Op_Read n by (simp add: op_request_def)
    have k: "length (read_reply_bytes (unat (rrDataLen r + 8)) r) = reply_u32 4 (read_reply_bytes (unat (rrDataLen r + 8)) r) + 8"
      using w(3,4) reply_u32_read [OF w(3)] unat_plus_8 by simp
    show ?thesis using w(2)
    proof
      assume "work = Reply r"
      then show ?thesis using w k code Op_Read u by (simp add: file_work_def op_code_def file_codes sent_bytes_def)
    next
      assume "work = FromFile r"
      then show ?thesis using w k code Op_Read u by (simp add: file_work_def op_code_def file_codes sent_bytes_def)
    qed
  next
    case Op_Length
    then have "\<forall>path bs. flsContent a path = Some bs \<longrightarrow> length bs < 2 ^ 64" using assms(3) by (auto simp: op_ok_def intro: ranI)
    from file_length_work_sim [OF assms(1) this] show ?thesis using assms(1) code Op_Length
      by (simp add: file_work_def op_code_def file_codes sent_bytes_def)
  next
    case Op_Close
    then show ?thesis using file_close_work_sim [OF assms(1)] code
      by (auto simp: file_work_def op_code_def file_codes sent_bytes_def)
  qed
qed

lemma serve_files_sim:
  assumes "file_sim v s a" and "list_all2 (\<lambda>op m. file_message (op_code op) (op_request op) m) ops ms" and "ops_ok ops a"
    and "\<forall>k. memory k" and "length (feError env) \<le> 1000"
  shows "\<exists>rs v' s'. serve_files env memory ms v s = Inr (rs, v', s') \<and> length rs = length ops \<and>
    map2 reply_answer ops (map sent_bytes rs) = fst (file_steps ops a) \<and> file_sim v' s' (snd (file_steps ops a))"
  using assms(2,1,3)
proof (induction ops ms arbitrary: v s a rule: list_all2_induct)
  case (Cons op ops m ms)
  obtain r v1 s1 where 1: "file_work env m memory v s = Inr (r, v1, s1)" "reply_answer op (sent_bytes r) = fst (file_step op a)"
      "file_sim v1 s1 (snd (file_step op a))"
    using file_work_sim [OF Cons.prems(1) Cons.hyps(1) _ assms(4,5)] Cons.prems(2) by auto
  obtain rs v' s' where "serve_files env memory ms v1 s1 = Inr (rs, v', s')" "length rs = length ops"
      "map2 reply_answer ops (map sent_bytes rs) = fst (file_steps ops (snd (file_step op a)))"
      "file_sim v' s' (snd (file_steps ops (snd (file_step op a))))"
    using Cons.IH [OF 1(3)] Cons.prems(2) by auto
  then show ?case using 1 by (auto simp: Let_def split: prod.splits)
qed simp


definition demo_os :: os where
  "demo_os = \<lparr>osFiles = [], osTable = map (\<lambda>i. (i, \<lparr>osPath = ''tty'', osPos = 0, osReads = True, osWrites = True\<rparr>)) [0, 1, 2], osScript = []\<rparr>"

definition demo_request :: "file_op \<Rightarrow> message" where
  "demo_request op = \<lparr>mesAddr = 0, mesType = 1, mesDataLen = word_of_nat (40 + length (op_request op)), mesBeginTime = 0, mesBeginProcessTime = 0,
     mesSeq = 1, mesProcessedRet = 0, mesBody = replicate 32 0 @ le_enc 4 (unat (op_code op)) @ replicate 4 0 @ op_request op @ replicate 40 0\<rparr>"

definition demo_ops :: "file_op list" where
  "demo_ops = [Op_Open ''f'' modeWrite False, Op_Write [1, 2, 3], Op_Write [4], Op_Open ''f'' modeRead False, Op_Read 2, Op_Length, Op_Read 5, Op_Close]"

lemma demo_request_ok: "file_message (op_code op) (op_request op) (demo_request op)"
proof (rule file_messageI)
  show "dwMesCode (body_of (mesBody (demo_request op))) = op_code op" by (simp add: demo_request_def body_of_def word32_le_roundtrip)
  show "mesBody (demo_request op) = (replicate 32 0 @ le_enc 4 (unat (op_code op)) @ replicate 4 0) @ op_request op @ replicate 40 0"
    by (simp add: demo_request_def)
qed (simp_all add: demo_request_def)


section \<open>What goes wrong\<close>

text \<open>\<open>Destroy\<close> leaves an open file open: the object of another user of it can read and write it.\<close>

lemma file_destroy_keeps_open:
  "f64Open (srvFile v) \<Longrightarrow> file_destroy v s = (v\<lparr>srvPath := []\<rparr>, s)"
  "file_sim v s a \<Longrightarrow> flsOpen a = Some d \<Longrightarrow> file_destroy v s = (v', s') \<Longrightarrow> file_sim v' s' a"
proof -
  show *: "f64Open (srvFile v) \<Longrightarrow> file_destroy v s = (v\<lparr>srvPath := []\<rparr>, s)" for v s by (simp add: file_destroy_def)
  show "file_sim v s a \<Longrightarrow> flsOpen a = Some d \<Longrightarrow> file_destroy v s = (v', s') \<Longrightarrow> file_sim v' s' a"
    using * [of v s] file_sim_closed [of v s a] by (auto simp: file_sim_def split: option.splits)
qed

text \<open>A request to write more than the message holds reads memory behind it.\<close>

lemma file_write_outside:
  assumes "f64Open (srvFile v)" and "mesBody m = h @ le_enc 4 1 @ le_enc 8 0 @ le_enc 4 n @ rest" and "length h = 40" and "n < 2 ^ 31" and "length rest < n"
  shows "file_write_work env m v s = Inl OutOfBounds"
proof -
  have "mesBody m = h @ [] @ le_enc 4 1 @ le_enc 8 0 @ le_enc 4 n @ rest" using assms(2) by simp
  from mes_u32_request [OF assms(3) this] have 1: "mes_u32 m 0 = Inr 1" by simp
  from mes_u64_request [OF assms(3,2)] have 2: "mes_u64 m 4 = Inr 0" by simp
  have "mesBody m = h @ (le_enc 4 1 @ le_enc 8 0) @ le_enc 4 n @ rest" using assms(2) by simp
  from mes_u32_request [OF assms(3) this] have 3: "mes_u32 m 12 = Inr (word_of_nat n)" using assms(4) by simp
  have "unat (word_of_nat n :: u32) = n" using assms(4) by (simp only: unat_of_nat) simp
  then have "get_at (mesBody m) 56 (unat (word_of_nat n :: u32)) = Inl OutOfBounds" using assms(2,3,5) by (simp add: get_at_def)
  then show ?thesis using assms(1) 1 2 3 by (simp add: file_write_work_def Let_def seek_asked_def)
qed

section \<open>Moving in a file\<close>

lemma file_seek_fields:
  assumes "file_message code (seek_request ty pos) m"
  shows "mes_u32 m 0 = Inr ty \<and> mes_u64 m 4 = Inr pos"
proof -
  obtain h rest where m: "length h = 40" "mesBody m = h @ seek_request ty pos @ rest" using assms(1) by (auto simp: file_message_def)
  have "mesBody m = h @ [] @ le_enc 4 (unat ty) @ le_enc 8 (unat pos) @ rest" using m(2) by (simp add: seek_request_def)
  from mes_u32_request [OF m(1) this] have 1: "mes_u32 m 0 = Inr ty" using unsigned_less [of ty, where ?'a = nat] by simp
  have "mesBody m = h @ le_enc 4 (unat ty) @ le_enc 8 (unat pos) @ rest" using m(2) by (simp add: seek_request_def)
  from mes_u64_request [OF m(1) this] show ?thesis using 1 unsigned_less [of pos, where ?'a = nat] by simp
qed

lemma f64_seek_fails:
  assumes "file_sim v s a" and "flsOpen a = Some (path, pos, r, w)" and "flsContent a path = Some bs" and "length bs < 2 ^ 64"
    and "4 < unat p" and "unat p < 2 ^ 31" and "unat p \<le> length bs"
  shows "\<exists>s'. f64_seek p t (srvFile v) s = (False, s') \<and> file_sim v s' (a\<lparr>flsOpen := Some (path, 1, r, w)\<rparr>)"
proof -
  let ?d = "\<lparr>osPath = path, osPos = pos, osReads = r, osWrites = w\<rparr>"
  have o: "0 < f64Handle (srvFile v)" "os_file_of s (f64Handle (srvFile v)) = Some (?d, bs)"
    using file_sim_open [OF assms(1,2)] assms(3) by auto
  let ?s = "set_pos (f64Handle (srvFile v)) 1 ?d s"
  have sim: "file_sim v ?s (a\<lparr>flsOpen := Some (path, 1, r, w)\<rparr>)" by (rule file_sim_set_pos [OF assms(1,2)])
  then have o2: "os_file_of ?s (f64Handle (srvFile v)) = Some (\<lparr>osPath = path, osPos = 1, osReads = r, osWrites = w\<rparr>, bs)"
    using file_sim_open [OF sim, of path 1 r w] assms(3) by auto
  have len: "f64_length (srvFile v) s = Some (word_of_nat (length bs))" by (rule f64_length_sim [OF assms(1-3)])
  have "unat (word_of_nat (length bs) :: u64) = length bs" using assms(4) by (simp only: unat_of_nat) simp
  then have nl: "\<not> word_of_nat (length bs) < p" using assms(7) by (simp add: word_less_nat_alt)
  have "uint p < 2 ^ 31" using assms(6) by (metis uint_nat of_nat_less_iff of_nat_numeral of_nat_power)
  moreover have "- (2 ^ 31) \<le> uint p" by (rule order_trans [OF _ unsigned_greater_eq]) simp
  ultimately have "sint (word_of_int (uint p) :: u32) = uint p" by (simp only: signed_of_int) (simp add: signed_take_bit_int_eq_self)
  moreover have "(ucast p :: u32) = word_of_int (uint p)" by simp
  ultimately have "sint (ucast p :: u32) = uint p" by (simp only:)
  then have "4 < sint (ucast p :: u32)" using assms(5) by (metis uint_nat of_nat_less_iff of_nat_numeral)
  then have "sys_lseek (f64Handle (srvFile v)) (whence_of t) (sint (ucast p :: u32)) ?s = (- 1, ?s)"
    using o2 by (simp add: sys_lseek_def Let_def)
  moreover have "sys_lseek (f64Handle (srvFile v)) 1 0 s = (1, ?s)" using o by (simp add: sys_lseek_def Let_def)
  ultimately show ?thesis using sim len nl by (simp add: f64_seek_def)
qed

text \<open>
  C28: moving in a file does not work on Linux.  The calls of \<open>lseek\<close> have two arguments in each other's place: for every
  position from 5 on (and below $2^{31}$) inside of the file, from whatever place it counts, the request to move is answered
  with 501, the position is 1 instead, and the same happens when one only asks for the position, which is always given as 1.
\<close>

theorem file_seek_never_moves:
  assumes "file_sim v s a" and "flsOpen a = Some (path, pos, r, w)" and "flsContent a path = Some bs" and "length bs < 2 ^ 64"
    and "4 < unat p" and "unat p < 2 ^ 31" and "unat p \<le> length bs" and "file_message CX_FILE_SEEK_CODE (seek_request ty p) m"
  shows "\<exists>rep s'. file_work env m memory v s = Inr (Send_Reply rep CX_FILE_SEEK_REPLY_CODE, v, s') \<and> reply_code rep = 501 \<and>
      file_sim v s' (a\<lparr>flsOpen := Some (path, 1, r, w)\<rparr>) \<and>
    (\<exists>s'. f64_position (srvFile v) s = (Some 1, s') \<and> file_sim v s' (a\<lparr>flsOpen := Some (path, 1, r, w)\<rparr>))"
proof -
  obtain s' where s': "f64_seek p (seek_type_of ty) (srvFile v) s = (False, s')" "file_sim v s' (a\<lparr>flsOpen := Some (path, 1, r, w)\<rparr>)"
    using f64_seek_fails [OF assms(1-7)] by blast
  have "p \<noteq> 0" using assms(5) by auto
  moreover have "f64Open (srvFile v)" using file_sim_open [OF assms(1,2)] by auto
  ultimately have "file_seek_work m v s = Inr (common_reply_bytes (16 + unat (crDataLen (text_reply 501 (seek_error p ty)))) (text_reply 501 (seek_error p ty)), s')"
    using file_seek_fields [OF assms(8)] s'(1) by (simp add: file_seek_work_def Let_def seek_asked_def)
  then show ?thesis using assms(8) s'(2) f64_position_sim [OF assms(1,2)]
    by (simp add: file_work_def file_message_def file_codes reply_code_common)
qed

theorem file_seek_never_moves_witness:
  "let v = \<lparr>srvFile = \<lparr>f64Path = ''f'', f64Open = True, f64Handle = 3\<rparr>, srvPath = ''f''\<rparr>;
       s = \<lparr>osFiles = [(''f'', [1, 2, 3, 4, 5, 6])], osTable = (3, \<lparr>osPath = ''f'', osPos = 0, osReads = True, osWrites = False\<rparr>) # osTable demo_os, osScript = []\<rparr>
   in \<exists>rep s'. file_work \<lparr>feError = ''no'', feErrno = 2\<rparr> (demo_request Op_Close\<lparr>mesDataLen := 52, mesBody :=
        replicate 32 0 @ le_enc 4 2003 @ replicate 4 0 @ seek_request 0 5 @ replicate 40 0\<rparr>) (\<lambda>k. True) v s = Inr (Send_Reply rep CX_FILE_SEEK_REPLY_CODE, v, s') \<and>
        reply_code rep = 501"
proof -
  let ?v = "\<lparr>srvFile = \<lparr>f64Path = ''f'', f64Open = True, f64Handle = 3\<rparr>, srvPath = ''f''\<rparr>"
  let ?s = "\<lparr>osFiles = [(''f'', [1, 2, 3, 4, 5, 6 :: byte])], osTable = (3, \<lparr>osPath = ''f'', osPos = 0, osReads = True, osWrites = False\<rparr>) # osTable demo_os, osScript = []\<rparr>"
  let ?a = "\<lparr>flsContent = [''f'' \<mapsto> [1, 2, 3, 4, 5, 6]], flsOpen = Some (''f'', 0, True, False)\<rparr>"
  let ?m = "demo_request Op_Close\<lparr>mesDataLen := 52, mesBody := replicate 32 0 @ le_enc 4 2003 @ replicate 4 0 @ seek_request 0 5 @ replicate 40 0\<rparr>"
  have sim: "file_sim ?v ?s ?a" by (auto simp: file_sim_def demo_os_def std_taken_def)
  have m: "file_message CX_FILE_SEEK_CODE (seek_request 0 5) ?m"
  proof (rule file_messageI)
    show "mesBody ?m = (replicate 32 0 @ le_enc 4 2003 @ replicate 4 0) @ seek_request 0 5 @ replicate 40 0" by simp
    show "dwMesCode (body_of (mesBody ?m)) = CX_FILE_SEEK_CODE" by (simp add: body_of_def le_dec_enc CX_FILE_SEEK_CODE_def)
  qed (simp_all add: seek_request_def)
  from file_seek_never_moves [OF sim _ _ _ _ _ _ m, of "''f''" 0 True False "[1, 2, 3, 4, 5, 6]" "\<lparr>feError = ''no'', feErrno = 2\<rparr>" "\<lambda>k. True"]
  show ?thesis unfolding Let_def by force
qed

end
