(* ===== verification/Tcp_Client_Correct.thy ===== *)
theory Tcp_Client_Correct imports Main Tcp_Client_Buffers End_To_End begin

text \<open>
  What goes between a client and the server: a packet of the client is the bytes of its header, its identifiers and
  its data, the receiver of the server takes it apart again, and the client reads what the server sends.
\<close>

section \<open>Sending\<close>

text \<open>The socket takes at least one byte with every call.\<close>

definition taking :: "send_result \<Rightarrow> bool" where
  "taking r \<longleftrightarrow> (case r of Wrote k \<Rightarrow> 0 < k | _ \<Rightarrow> False)"

lemma tc_send_loop_taking:
  "\<forall>r\<in>set rs. taking r \<Longrightarrow> \<exists>rs'. tc_send_loop rs left = (Complete, left, rs') \<and> set rs' \<subseteq> set rs"
proof (induction rs arbitrary: left)
  case (Cons r rs)
  then obtain k where k: "r = Wrote k" "0 < k" by (auto simp: taking_def split: send_result.splits)
  show ?case
  proof (cases "left \<le> k")
    case False
    obtain rs' where "tc_send_loop rs (left - k) = (Complete, left - k, rs')" "set rs' \<subseteq> set rs"
      using Cons.IH [of "left - k"] Cons.prems by (auto simp del: tc_send_loop.simps)
    then show ?thesis using k False by auto
  qed (use k in auto)
qed simp

definition client_ready :: "tcp_client \<Rightarrow> bool" where
  "client_ready c \<longleftrightarrow> client_wf c \<and> tcConnected c \<and> tcSend c \<noteq> None \<and> tcEncrypt c = 0 \<and> tcCompress c = 0 \<and>
     (\<forall>r\<in>set (tcSendScript c). taking r)"

text \<open>The two sides of a client; each transfer leaves the other one alone.\<close>

definition send_side :: "tcp_client \<Rightarrow> client_bufs option \<times> u32 \<times> u32 \<times> u32 \<times> byte \<times> byte \<times> send_result list \<times> byte list \<times> bool" where
  "send_side c = (tcSend c, tcSendLen c, tcRealSendLen c, tcCacheSendLen c, tcEncrypt c, tcCompress c, tcSendScript c, tcOut c, tcUsePool c)"

definition recv_side :: "tcp_client \<Rightarrow> client_bufs option \<times> u32 \<times> recv_result list \<times> byte list \<times> bool" where
  "recv_side c = (tcRecv c, tcRecvLen c, tcRecvScript c, tcIn c, tcUsePool c)"

text \<open>No buffer comes from the pool.\<close>

definition unpooled :: "tcp_client \<Rightarrow> bool" where
  "unpooled c \<longleftrightarrow> \<not> tcUsePool c \<and> (\<forall>b. tcSend c = Some b \<or> tcRecv c = Some b \<longrightarrow> \<not> cbPool b)"

lemma left_sides [simp]:
  "send_side (c\<lparr>tcLeftPos := p, tcLeftLen := n\<rparr>) = send_side c" "unpooled (c\<lparr>tcLeftPos := p, tcLeftLen := n\<rparr>) = unpooled c"
  "send_side (c\<lparr>tcLeftLen := n, tcLeftPos := p\<rparr>) = send_side c" "unpooled (c\<lparr>tcLeftLen := n, tcLeftPos := p\<rparr>) = unpooled c"
  by (simp_all add: send_side_def unpooled_def)

text \<open>The data of a call, and that the buffers of the client are large enough for it.\<close>

definition client_bytes :: "tcp_client \<Rightarrow> client_data \<Rightarrow> nat \<Rightarrow> byte list" where
  "client_bytes c d n = (case d of External bs \<Rightarrow> take n bs
     | InSendBuffer k \<Rightarrow> (case tcSend c of None \<Rightarrow> [] | Some b \<Rightarrow> take n (drop k (cbMain b))))"

definition client_fits :: "tcp_client \<Rightarrow> client_data \<Rightarrow> nat \<Rightarrow> bool" where
  "client_fits c d n \<longleftrightarrow> sizeof_packet_data - 1 + n \<le> unat (tcRealSendLen c) \<and> sizeof_packet_data - 1 + n \<le> CX_MAX_CHACHE_SIZE \<and>
     (case d of External bs \<Rightarrow> length bs = n \<and> sizeof_packet_data - 1 + n \<le> unat (tcSendLen c)
      | InSendBuffer k \<Rightarrow> k + n \<le> unat (tcSendLen c))"

lemma client_bytes_cong:
  "map_option cbMain (tcSend c') = map_option cbMain (tcSend c) \<Longrightarrow> client_bytes c' d n = client_bytes c d n"
  by (cases d) (auto simp: client_bytes_def split: option.splits)

lemma client_fits_cong:
  "tcSendLen c' = tcSendLen c \<Longrightarrow> tcRealSendLen c' = tcRealSendLen c \<Longrightarrow> client_fits c' d n = client_fits c d n"
  by (cases d) (simp_all add: client_fits_def)

definition client_packet :: "byte list \<Rightarrow> u32 \<Rightarrow> byte list \<Rightarrow> tcp_client \<Rightarrow> packet_header \<times> byte list" where
  "client_packet guid code bs c =
     (let body = client_head code (c\<lparr>tcRequestID := guid, tcPacketNumber := tcPacketNumber c + 1\<rparr>) @ bs in
      (\<lparr>wFlag = CX_PACKET_HEADER_FLAG, byCompressFlag = 0, byEncryptFlag = 0, dwDataLen = word_of_nat (length body),
        dwCheckSum = check_sum body, dwOrignDataLen = word_of_nat (length body)\<rparr>, body))"

lemma length_client_head [simp]:
  "length (tcObjectID c) = CX_GUID_LEN \<Longrightarrow> length (tcRequestID c) = CX_GUID_LEN \<Longrightarrow> length (client_head code c) = 40"
  by (simp add: client_head_def CX_GUID_LEN_def)

lemma plain_client_body_run:
  assumes "tcSend c = Some b" and "client_wf c" and "client_fits c d n"
  shows "\<exists>real. plain_client_body d n code c b = Some (Inr (Some (n + 40, b\<lparr>cbReal := real\<rparr>))) \<and>
    length real = length (cbReal b) \<and> take (n + 40) (drop 16 real) = client_head code c @ client_bytes c d n"
proof -
  let ?head = "client_head code c" and ?bs = "client_bytes c d n"
  have b: "length (cbMain b) = unat (tcSendLen c)" "length (cbReal b) = unat (tcRealSendLen c)"
    using assms(1,2) by (simp_all add: client_wf_def bufs_wf_def)
  have room: "56 + n \<le> length (cbReal b)" using assms(3) b by (simp add: client_fits_def sizes)
  have len: "length ?head = 40" "length ?bs = n" using assms b
    by (auto simp: client_wf_def client_bytes_def client_fits_def split: client_data.splits)
  have bs: "(case d of External bs \<Rightarrow> Inr (take n bs) | InSendBuffer k \<Rightarrow> get_at (cbMain b) k n) = Inr ?bs"
    using assms b by (auto simp: client_bytes_def client_fits_def get_at_def split: client_data.splits)
  let ?r1 = "memcpy (cbReal b) 16 ?head"
  let ?r2 = "memcpy ?r1 56 ?bs"
  have "put_at (cbReal b) 16 ?head = Inr ?r1" "put_at ?r1 56 ?bs = Inr ?r2" using room len by (simp_all add: put_at_def)
  moreover have "length ?r2 = length (cbReal b)" using room len by simp
  moreover have "take (n + 40) (drop 16 ?r2) = ?head @ ?bs" using room len by (simp add: memcpy_def min_def)
  moreover have "plain_client_body d n code c b = Some (Inr (Some (n + 40, b\<lparr>cbReal := ?r2\<rparr>)))"
    using calculation(1,2) bs by (simp add: plain_client_body_def sizes)
  ultimately show ?thesis by blast
qed

lemma post_client_body_run:
  assumes "tcConnected c" and "client_wf c" and "\<forall>r\<in>set (tcSendScript c). taking r" and "tcEncrypt c = 0" and "tcCompress c = 0"
    and "tcSend c \<noteq> None" and "length (cbReal b) = unat (tcRealSendLen c)" and "length (cbMain b) = unat (tcSendLen c)"
    and "length (cbCache b) = unat (tcCacheSendLen c)"
    and "k + 16 \<le> length (cbReal b)" and "take k (drop 16 (cbReal b)) = body" and "n + 40 = word_of_nat k"
  shows "\<exists>rs' real. post_client_body n c (Some (k, b)) = Some (Inr (0, c\<lparr>tcSend := Some (b\<lparr>cbReal := real\<rparr>),
      tcOut := tcOut c @ wire (\<lparr>wFlag = CX_PACKET_HEADER_FLAG, byCompressFlag = 0, byEncryptFlag = 0, dwDataLen = word_of_nat k,
        dwCheckSum = check_sum body, dwOrignDataLen = word_of_nat k\<rparr>, body), tcSendScript := rs'\<rparr>)) \<and> set rs' \<subseteq> set (tcSendScript c) \<and>
      length real = length (cbReal b)"
proof -
  define h where "h = \<lparr>wFlag = CX_PACKET_HEADER_FLAG, byCompressFlag = 0, byEncryptFlag = 0,
      dwDataLen = word_of_nat k, dwCheckSum = check_sum body, dwOrignDataLen = word_of_nat k\<rparr>"
  define real where "real = memcpy (cbReal b) 0 (header_bytes h)"
  have orign: "n + word_of_nat sizeof_packet_data - 1 - word_of_nat sizeof_header = word_of_nat k"
    using assms(12) by (simp add: sizes add.commute)
  have get: "get_at (cbReal b) sizeof_header k = Inr body" using assms(10,11) by (simp add: get_at_def sizes)
  have len: "length (header_bytes h) = 16" "length body = k" using assms(10) unfolding assms(11) [symmetric] by (simp_all add: sizes)
  have out: "take (k + sizeof_header) real = wire (h, body)"
    using len assms(10,11) by (simp add: real_def memcpy_def wire_def sizes)
  have wl: "length (wire (h, body)) = k + 16" using len by (simp add: wire_def)
  have "wire (h, body) \<noteq> []"
  proof
    assume e: "wire (h, body) = []"
    show False using wl unfolding e by simp
  qed
  let ?c = "c\<lparr>tcSend := Some (b\<lparr>cbReal := real\<rparr>)\<rparr>"
  obtain rs' where s: "tc_send_loop (tcSendScript c) (k + 16) = (Complete, k + 16, rs')" "set rs' \<subseteq> set (tcSendScript c)"
    using tc_send_loop_taking [OF assms(3)] by blast
  have "tc_send (wire (h, body)) ?c = (int (k + 16), ?c\<lparr>tcOut := tcOut c @ wire (h, body), tcSendScript := rs'\<rparr>)"
    using s(1) wl \<open>wire (h, body) \<noteq> []\<close> assms(1,2) by (auto simp: tc_send_def Let_def client_wf_def)
  then have "post_client_body n c (Some (k, b)) = Some (Inr (0, ?c\<lparr>tcOut := tcOut c @ wire (h, body), tcSendScript := rs'\<rparr>))"
    unfolding post_client_body_def option.case prod.case get bind_run_simps Let_def assms(4,5) orign
      h_def [symmetric] real_def [symmetric] out by (simp add: sizes)
  moreover have "length real = length (cbReal b)" using len assms(10) by (simp add: real_def sizes)
  ultimately show ?thesis using s(2) unfolding h_def by auto
qed

text \<open>A packet that fits goes out as its bytes, and the buffers stay.\<close>

lemma tc_send_packet_plain:
  assumes "env_wf env" and "client_ready c" and "client_fits c d (unat n)"
  shows "\<exists>c'. tc_send_packet env (Some d) n code c = Some (Inr (0, c')) \<and> client_ready c' \<and>
    tcOut c' = tcOut c @ wire (client_packet (cliGuid env) code (client_bytes c d (unat n)) c) \<and>
    tcPacketNumber c' = tcPacketNumber c + 1 \<and> tcObjectID c' = tcObjectID c \<and>
    tcSendLen c' = tcSendLen c \<and> tcRealSendLen c' = tcRealSendLen c \<and>
    map_option cbMain (tcSend c') = map_option cbMain (tcSend c) \<and> recv_side c' = recv_side c \<and> (unpooled c \<longrightarrow> unpooled c') \<and>
    tcRealObject c' = tcRealObject c \<and> tcRequestID c' = cliGuid env"
proof -
  have r: "client_wf c" "tcConnected c" "tcEncrypt c = 0" "tcCompress c = 0" "\<forall>r\<in>set (tcSendScript c). taking r"
    using assms(2) by (simp_all add: client_ready_def)
  obtain b where b: "tcSend c = Some b" using assms(2) by (auto simp: client_ready_def)
  have nb: "unat n + 56 \<le> 1048576" "unat n + 56 \<le> unat (tcRealSendLen c)"
    using assms(3) by (simp_all add: client_fits_def sizes CX_MAX_CHACHE_SIZE_def)
  then have small: "n \<le> 1024 * 1024 * 1024" by (simp add: word_le_nat_alt)
  let ?c1 = "c\<lparr>tcRequestID := cliGuid env\<rparr>"
  let ?c3 = "?c1\<lparr>tcPacketNumber := tcPacketNumber c + 1\<rparr>"
  have c3: "client_wf ?c3" using r(1) assms(1) by (simp add: client_wf_def left_wf_def env_wf_def)
  have bw: "length (cbMain b) = unat (tcSendLen c)" "length (cbReal b) = unat (tcRealSendLen c)" "length (cbCache b) = unat (tcCacheSendLen c)"
    using r(1) b by (simp_all add: client_wf_def bufs_wf_def)
  have size: "(case d of InSendBuffer k \<Rightarrow> Inr (True, ?c1) | External bs \<Rightarrow> set_send_buffer_size env n ?c1) = Inr (True, ?c1)"
  proof (cases d)
    case (External bs)
    have "unat (n + 56) = unat n + 56" using nb(1) by (simp add: unat_word_ariths)
    moreover have "56 + unat n \<le> unat (tcSendLen c)" using assms(3) External by (simp add: client_fits_def sizes)
    ultimately have "0 < n + 56 \<and> n + 56 \<le> tcSendLen c" by (simp add: word_le_nat_alt word_less_nat_alt)
    then show ?thesis using External by (simp add: set_send_buffer_size_def sizes)
  qed simp
  have fits3: "client_fits ?c3 d (unat n)" using assms(3) client_fits_cong [of ?c3 c] by simp
  obtain real where body: "plain_client_body d (unat n) code ?c3 b = Some (Inr (Some (unat n + 40, b\<lparr>cbReal := real\<rparr>)))"
    "length real = length (cbReal b)" "take (unat n + 40) (drop 16 real) = client_head code ?c3 @ client_bytes ?c3 d (unat n)"
    using plain_client_body_run [OF _ c3 fits3, of b] b by auto
  let ?body = "client_head code ?c3 @ client_bytes c d (unat n)"
  have body3: "take (unat n + 40) (drop 16 real) = ?body" using body(3) client_bytes_cong [of ?c3 c] by simp
  have lb: "length ?body = unat n + 40" using nb bw body(2) unfolding body3 [symmetric] by simp
  obtain rs' real' where post: "post_client_body n ?c3 (Some (unat n + 40, b\<lparr>cbReal := real\<rparr>)) =
      Some (Inr (0, ?c3\<lparr>tcSend := Some (b\<lparr>cbReal := real'\<rparr>),
      tcOut := tcOut c @ wire (\<lparr>wFlag = CX_PACKET_HEADER_FLAG, byCompressFlag = 0, byEncryptFlag = 0, dwDataLen = word_of_nat (unat n + 40),
        dwCheckSum = check_sum ?body, dwOrignDataLen = word_of_nat (unat n + 40)\<rparr>, ?body), tcSendScript := rs'\<rparr>))" "set rs' \<subseteq> set (tcSendScript c)"
      "length real' = length real"
    using post_client_body_run [of ?c3 "b\<lparr>cbReal := real\<rparr>" "unat n + 40" ?body n] r c3 b bw body(2) body3 nb by auto
  have "\<not> ((tcEncrypt c \<noteq> 0 \<or> tcCompress c \<noteq> 0) \<and> \<not> tcParser c)" using r by simp
  note eq = tc_send_packet_eq [OF small this, of env d code]
  have "tc_send_packet env (Some d) n code c = post_client_body n ?c3 (Some (unat n + 40, b\<lparr>cbReal := real\<rparr>))"
    unfolding eq size using r b body(1) by (simp add: Let_def)
  moreover have "client_ready (?c3\<lparr>tcSend := Some (b\<lparr>cbReal := real'\<rparr>), tcOut := out, tcSendScript := rs'\<rparr>)" for out
    using c3 r b bw post(2,3) body(2) by (auto simp: client_ready_def client_wf_def bufs_wf_def left_wf_def)
  ultimately show ?thesis using post(1) b lb by (simp add: client_packet_def Let_def recv_side_def unpooled_def)
qed

text \<open>Several packets: the environment, the data, their length and the message code of each.\<close>

type_synonym client_message = "client_env \<times> client_data \<times> u32 \<times> u32"

fun tc_send_packets :: "client_message list \<Rightarrow> tcp_client \<Rightarrow> (int list \<times> tcp_client) res option" where
  "tc_send_packets [] c = Some (Inr ([], c))"
| "tc_send_packets ((env, d, n, code) # ms) c = bind_run (tc_send_packet env (Some d) n code c) (\<lambda>(r, c).
     bind_run (tc_send_packets ms c) (\<lambda>(rs, c). Some (Inr (r # rs, c))))"

fun client_packets :: "client_message list \<Rightarrow> tcp_client \<Rightarrow> (packet_header \<times> byte list) list" where
  "client_packets [] c = []"
| "client_packets ((env, d, n, code) # ms) c = client_packet (cliGuid env) code (client_bytes c d (unat n)) c #
     client_packets ms (c\<lparr>tcPacketNumber := tcPacketNumber c + 1\<rparr>)"

lemma client_packets_cong:
  "tcPacketNumber c' = tcPacketNumber c \<Longrightarrow> tcObjectID c' = tcObjectID c \<Longrightarrow>
   map_option cbMain (tcSend c') = map_option cbMain (tcSend c) \<Longrightarrow> client_packets ms c' = client_packets ms c"
proof (induction ms arbitrary: c c')
  case (Cons m ms)
  obtain env d n code where m: "m = (env, d, n, code)" by (cases m)
  have "client_bytes c' d k = client_bytes c d k" for k
    by (rule client_bytes_cong [OF Cons.prems(3)])
  moreover have "client_packet g code bs c' = client_packet g code bs c" for g bs
    using Cons.prems by (simp add: client_packet_def client_head_def)
  ultimately show ?case using Cons.IH [of "c'\<lparr>tcPacketNumber := tcPacketNumber c' + 1\<rparr>" "c\<lparr>tcPacketNumber := tcPacketNumber c + 1\<rparr>"]
    Cons.prems by (simp add: m)
qed simp

lemma tc_send_packets_plain:
  assumes "client_ready c" and "\<forall>(env, d, n, code)\<in>set ms. env_wf env \<and> client_fits c d (unat n)"
  shows "\<exists>c'. tc_send_packets ms c = Some (Inr (replicate (length ms) 0, c')) \<and> client_ready c' \<and>
    tcOut c' = tcOut c @ stream_of (client_packets ms c)"
  using assms
proof (induction ms arbitrary: c)
  case (Cons m ms)
  obtain env d n code where m: "m = (env, d, n, code)" by (cases m)
  obtain c1 where c1: "tc_send_packet env (Some d) n code c = Some (Inr (0, c1))" "client_ready c1"
      "tcOut c1 = tcOut c @ wire (client_packet (cliGuid env) code (client_bytes c d (unat n)) c)"
      "tcPacketNumber c1 = tcPacketNumber c + 1" "tcObjectID c1 = tcObjectID c" "tcSendLen c1 = tcSendLen c"
      "tcRealSendLen c1 = tcRealSendLen c" "map_option cbMain (tcSend c1) = map_option cbMain (tcSend c)"
    using tc_send_packet_plain [of env c d n code] Cons.prems m by auto
  have "client_fits c1 d k = client_fits c d k" for d k using c1 by (intro client_fits_cong)
  then obtain c' where "tc_send_packets ms c1 = Some (Inr (replicate (length ms) 0, c'))" "client_ready c'"
      "tcOut c' = tcOut c1 @ stream_of (client_packets ms c1)"
    using Cons.IH [OF c1(2)] Cons.prems(2) by auto
  moreover have "client_packets ms c1 = client_packets ms (c\<lparr>tcPacketNumber := tcPacketNumber c + 1\<rparr>)"
    by (rule client_packets_cong) (use c1 in simp_all)
  ultimately show ?case using c1 m by simp
qed simp

lemma client_packet_ok:
  assumes "length (tcObjectID c) = CX_GUID_LEN" and "length guid = CX_GUID_LEN" and "56 + length bs \<le> CX_MAX_CHACHE_SIZE"
    and "alloc_ok renv (sizeof_message_data - 1 + (40 + length bs))"
  shows "packet_ok renv (client_packet guid code bs c) \<and> plain (fst (client_packet guid code bs c))"
proof -
  have "unat (word_of_nat (40 + length bs) :: u32) = 40 + length bs"
    using assms(3) by (simp only: unat_of_nat CX_MAX_CHACHE_SIZE_def) simp
  then show ?thesis using assms
    by (simp add: client_packet_def Let_def packet_ok_def framed_def plain_def CX_MAX_CHACHE_SIZE_def)
qed

lemma client_packets_ok:
  assumes "length (tcObjectID c) = CX_GUID_LEN"
    and "\<forall>(env, d, n, code)\<in>set ms. env_wf env \<and> length (client_bytes c d (unat n)) = unat n \<and> 56 + unat n \<le> CX_MAX_CHACHE_SIZE \<and>
      alloc_ok renv (sizeof_message_data - 1 + (40 + unat n))"
  shows "\<forall>p\<in>set (client_packets ms c). packet_ok renv p \<and> plain (fst p)"
  using assms
proof (induction ms arbitrary: c)
  case (Cons m ms)
  obtain env d n code where m: "m = (env, d, n, code)" by (cases m)
  have "packet_ok renv (client_packet (cliGuid env) code (client_bytes c d (unat n)) c) \<and>
      plain (fst (client_packet (cliGuid env) code (client_bytes c d (unat n)) c))"
    using Cons.prems m by (intro client_packet_ok) (auto simp: env_wf_def)
  moreover have "client_bytes (c\<lparr>tcPacketNumber := k\<rparr>) = client_bytes c" for k by (intro ext client_bytes_cong) simp
  ultimately show ?case using Cons.IH [of "c\<lparr>tcPacketNumber := tcPacketNumber c + 1\<rparr>"] Cons.prems m by auto
qed simp

lemma length_client_bytes: "client_wf c \<Longrightarrow> tcSend c \<noteq> None \<Longrightarrow> client_fits c d n \<Longrightarrow> length (client_bytes c d n) = n"
  by (auto simp: client_wf_def bufs_wf_def client_bytes_def client_fits_def split: client_data.splits)


text \<open>
  C37: data that does not fit.  When the data of the caller is longer than the send buffer, the buffers are replaced in the
  middle of \<open>SendPacket\<close>, which goes on with the pointer into the old one: it reads freed memory, whatever the data, the
  codec and the socket.
\<close>

theorem client_large_data_use_after_free:
  assumes "tcSend c = Some b" and "\<not> cbPool b" and "\<not> tcUsePool c" and "\<forall>k. cliFresh env k \<noteq> None"
    and "tcEncrypt c \<noteq> 0 \<or> tcCompress c \<noteq> 0 \<longrightarrow> tcParser c"
    and "n \<le> 1024 * 1024 * 1024" and "unat (tcSendLen c) < sizeof_packet_data - 1 + unat n"
  shows "tc_send_packet env (Some (External bs)) n code c = Some (Inl UseAfterFree)"
proof -
  let ?c = "c\<lparr>tcRequestID := cliGuid env\<rparr>" and ?m = "n + (word_of_nat sizeof_packet_data - 1)"
  have m: "unat ?m = unat n + 56" using assms(6) by (simp add: sizes word_le_nat_alt unat_word_ariths)
  then have no: "\<not> (0 < ?m \<and> ?m \<le> tcSendLen ?c)" using assms(7) by (simp add: word_le_nat_alt sizes)
  obtain b' where "set_buffers env (tcUsePool ?c) ?m (tcSend ?c) = Inr (Some b')"
    using set_buffers_fresh [OF assms(4), of "tcSend c" ?m] assms(1-3) by auto
  then have set: "set_send_buffer_size env n ?c =
      Inr (True, ?c\<lparr>tcSend := Some b', tcSendLen := ?m, tcRealSendLen := ?m * 2, tcCacheSendLen := ?m * 2\<rparr>)"
    unfolding set_send_buffer_size_def Let_def if_not_P [OF no] by simp
  have "?m \<noteq> tcSendLen c" using m assms(7) by (auto simp: sizes)
  moreover have coded: "\<not> ((tcEncrypt c \<noteq> 0 \<or> tcCompress c \<noteq> 0) \<and> \<not> tcParser c)" using assms(5) by blast
  ultimately show ?thesis using assms(1) set unfolding tc_send_packet_eq [OF assms(6) coded] by simp
qed

section \<open>Receiving\<close>

definition giving :: "recv_result \<Rightarrow> bool" where
  "giving r \<longleftrightarrow> (case r of GotUpTo k \<Rightarrow> 0 < k | _ \<Rightarrow> False)"

lemma tc_recv_loop_giving:
  "\<forall>r\<in>set rs. giving r \<Longrightarrow> left \<le> length net \<Longrightarrow>
   \<exists>rs'. tc_recv_loop rs net left = (Complete, take left net, drop left net, rs') \<and> set rs' \<subseteq> set rs"
proof (induction rs arbitrary: net left)
  case (Cons r rs)
  then obtain k where k: "r = GotUpTo k" "0 < k" by (auto simp: giving_def split: recv_result.splits)
  define n where "n = min k (min left (length net))"
  show ?case
  proof (cases "left = 0")
    case False
    then have n: "n \<noteq> 0" "n \<le> left" using Cons.prems(2) k by (auto simp: n_def)
    obtain rs' where r: "tc_recv_loop rs (drop n net) (left - n) = (Complete, take (left - n) (drop n net), drop (left - n) (drop n net), rs')"
        "set rs' \<subseteq> set rs"
      using Cons.IH [of "left - n" "drop n net"] Cons.prems unfolding length_drop by (meson diff_le_mono list.set_intros(2))
    have "tc_recv_loop (r # rs) net left = (Complete, take n net @ take (left - n) (drop n net), drop (left - n) (drop n net), rs')"
      using False k n r(1) by (simp add: n_def [symmetric] Let_def)
    then show ?thesis using r(2) n(2) take_append_take_drop [of n net "left - n"] by auto
  qed (auto simp: k)
qed simp

text \<open>A client that can read, and that gets memory for a body of \<open>n\<close> bytes.\<close>

definition client_reading :: "tcp_client \<Rightarrow> bool" where
  "client_reading c \<longleftrightarrow> client_wf c \<and> tcConnected c \<and> (\<forall>r\<in>set (tcRecvScript c). giving r)"

definition recv_room :: "client_env \<Rightarrow> u32 \<Rightarrow> tcp_client \<Rightarrow> bool" where
  "recv_room env n c \<longleftrightarrow> n + (word_of_nat sizeof_body - 1) \<le> tcRecvLen c \<or>
     (\<forall>k. cliFresh env k \<noteq> None) \<and> \<not> tcUsePool c \<and> (case tcRecv c of None \<Rightarrow> True | Some b \<Rightarrow> \<not> cbPool b)"

lemma tc_recv_giving:
  assumes "client_reading c" and "0 < n" and "n \<le> length (tcIn c)"
  shows "\<exists>rs'. tc_recv (int n) c = (int n, take n (tcIn c), c\<lparr>tcIn := drop n (tcIn c), tcRecvScript := rs'\<rparr>) \<and> set rs' \<subseteq> set (tcRecvScript c)"
proof -
  obtain rs' where r: "tc_recv_loop (tcRecvScript c) (tcIn c) n = (Complete, take n (tcIn c), drop n (tcIn c), rs')" "set rs' \<subseteq> set (tcRecvScript c)"
    using tc_recv_loop_giving [OF _ assms(3), of "tcRecvScript c"] assms(1) unfolding client_reading_def by blast
  then show ?thesis using assms by (auto simp: tc_recv_def Let_def client_reading_def client_wf_def)
qed

lemma body_of_prefix:
  assumes "40 \<le> length body"
  shows "byObjectGuid (body_of (body @ x)) = byObjectGuid (body_of body)" "byRequestID (body_of (body @ x)) = byRequestID (body_of body)"
    "dwMesCode (body_of (body @ x)) = dwMesCode (body_of body)"
  using assms by (simp_all add: body_of_def)

definition adopt_id :: "byte list \<Rightarrow> tcp_client \<Rightarrow> byte list" where
  "adopt_id body c = (if \<not> tcRealObject c \<and> byRequestID (body_of body) = tcRequestID c then byObjectGuid (body_of body) else tcObjectID c)"

lemma adopt_id_simps [simp]:
  "adopt_id body (c\<lparr>tcIn := net\<rparr>) = adopt_id body c" "adopt_id body (c\<lparr>tcRecvScript := rs\<rparr>) = adopt_id body c"
  "adopt_id body (c\<lparr>tcRecv := b\<rparr>) = adopt_id body c" "adopt_id body (c\<lparr>tcLeftPos := p\<rparr>) = adopt_id body c"
  "adopt_id body (c\<lparr>tcLeftLen := k\<rparr>) = adopt_id body c"
  by (simp_all add: adopt_id_def)

lemma take_object_id_adopt: "40 \<le> length body \<Longrightarrow> tcObjectID (take_object_id (body @ x) c) = adopt_id body c"
  by (simp add: take_object_id_def Let_def adopt_id_def body_of_prefix)

lemma take_object_id_in [simp]: "tcIn (take_object_id buf c) = tcIn c"
  by (simp add: take_object_id_def Let_def)

lemma set_recv_buffer_size_room:
  assumes "recv_room env n c" and "n \<le> 1024 * 1024 * 1024" and "env_wf env" and "client_reading c"
  shows "\<exists>c' b. set_recv_buffer_size env n c = Inr (True, c') \<and> client_reading c' \<and> tcRecv c' = Some b \<and>
    unat n + 40 \<le> length (cbMain b) \<and> tcIn c' = tcIn c \<and> tcLeftLen c' = tcLeftLen c \<and> adopt_id body c' = adopt_id body c \<and>
    send_side c' = send_side c \<and> (unpooled c \<longrightarrow> unpooled c')"
proof -
  let ?m = "n + (word_of_nat sizeof_body - 1)"
  have m: "unat ?m = unat n + 40" using assms(2) by (simp add: sizes word_le_nat_alt unat_word_ariths)
  then have pos: "0 < ?m" by (simp add: word_less_nat_alt)
  have wf: "client_wf c" using assms(4) by (simp add: client_reading_def)
  show ?thesis
  proof (cases "?m \<le> tcRecvLen c")
    case True
    then have set: "set_recv_buffer_size env n c = Inr (True, c)" using pos unfolding set_recv_buffer_size_def Let_def by simp
    have len: "unat n + 40 \<le> unat (tcRecvLen c)" using True m by (simp add: word_le_nat_alt)
    then obtain b where "tcRecv c = Some b" "length (cbMain b) = unat (tcRecvLen c)"
      using wf by (cases "tcRecv c") (auto simp: client_wf_def bufs_wf_def)
    then show ?thesis using set len assms(4) by auto
  next
    case False
    then have no: "\<not> (0 < ?m \<and> ?m \<le> tcRecvLen c)" by simp
    obtain b where b: "set_buffers env (tcUsePool c) ?m (tcRecv c) = Inr (Some b)"
      using assms(1) False set_buffers_fresh [of env "tcRecv c" ?m] by (auto simp: recv_room_def)
    let ?c = "c\<lparr>tcRecv := Some b, tcRecvLen := ?m, tcParserLen := ?m * 2, tcCacheRecvLen := ?m * 2\<rparr>"
    have set: "set_recv_buffer_size env n c = Inr (True, ?c)"
      using b unfolding set_recv_buffer_size_def Let_def if_not_P [OF no] by simp
    have "client_wf ?c" using set_recv_buffer_size_wf [OF assms(3) wf pos set] by simp
    moreover have "length (cbMain b) = unat n + 40" using set_buffers_wf [OF assms(3) b] m by (simp add: bufs_wf_def)
    moreover have "adopt_id body ?c = adopt_id body c" by (simp add: adopt_id_def)
    moreover have "unpooled ?c" if "unpooled c" using that b by (auto simp: unpooled_def set_buffers_def Let_def split: option.splits if_splits)
    ultimately show ?thesis using set assms(4) by (auto simp: client_reading_def send_side_def)
  qed
qed

text \<open>A packet that stands in front of the incoming bytes.\<close>

lemma tc_recv_packet_plain:
  assumes "env_wf env" and "client_reading c" and "tcIn c = wire (h, body) @ rest"
    and "wFlag h = CX_PACKET_HEADER_FLAG" and "plain h" and "length body = unat (dwDataLen h)" and "dwDataLen h \<le> 1024 * 1024 * 1024"
    and "40 \<le> length body" and "recv_room env (dwDataLen h) c"
  shows "\<exists>c' b x. tc_recv_packet env c = Some (Inr (0, word_of_nat (length body - 40), dwMesCode (body_of body), c')) \<and>
    tcRecv c' = Some b \<and> cbMain b = body @ x \<and> tcIn c' = rest \<and> tcLeftLen c' = 0 \<and> tcObjectID c' = adopt_id body c \<and>
    client_reading c' \<and> send_side c' = send_side c \<and> (unpooled c \<longrightarrow> unpooled c')"
proof -
  let ?c = "c\<lparr>tcLeftPos := 0, tcLeftLen := 0\<rparr>"
  have rd: "client_reading ?c" using assms(2) by (simp add: client_reading_def client_wf_def left_wf_def)
  have hl: "length (header_bytes h) = 16" by (simp add: sizes)
  obtain rs1 where r1: "tc_recv (int 16) ?c = (16, header_bytes h, ?c\<lparr>tcIn := body @ rest, tcRecvScript := rs1\<rparr>)"
      "set rs1 \<subseteq> set (tcRecvScript c)"
    using tc_recv_giving [OF rd, of 16] assms(3) hl by (auto simp: wire_def)
  let ?c1 = "?c\<lparr>tcIn := body @ rest, tcRecvScript := rs1\<rparr>"
  have rd1: "client_reading ?c1" using rd r1(2) by (auto simp: client_reading_def client_wf_def left_wf_def)
  have room1: "recv_room env (dwDataLen h) ?c1" using assms(9) by (simp add: recv_room_def)
  obtain c2 b where c2: "set_recv_buffer_size env (dwDataLen h) ?c1 = Inr (True, c2)" "client_reading c2" "tcRecv c2 = Some b"
      "unat (dwDataLen h) + 40 \<le> length (cbMain b)" "tcIn c2 = body @ rest" "tcLeftLen c2 = 0" "adopt_id body c2 = adopt_id body ?c1"
      "send_side c2 = send_side ?c1" "unpooled ?c1 \<longrightarrow> unpooled c2"
    using set_recv_buffer_size_room [OF room1 assms(7,1) rd1, of body] by auto
  obtain rs2 where r2: "tc_recv (int (length body)) c2 = (int (length body), body, c2\<lparr>tcIn := rest, tcRecvScript := rs2\<rparr>)"
      "set rs2 \<subseteq> set (tcRecvScript c2)"
    using tc_recv_giving [OF c2(2), of "length body"] c2(5) assms(8) by (cases "body = []") auto
  have ub: "uint (dwDataLen h) = int (length body)" using assms(6) by simp
  let ?b = "b\<lparr>cbMain := memcpy (cbMain b) 0 body\<rparr>"
  let ?c3 = "c2\<lparr>tcIn := rest, tcRecvScript := rs2, tcRecv := Some ?b\<rparr>"
  have main: "cbMain ?b = body @ drop (length body) (cbMain b)" using c2(4) assms(6) by (simp add: memcpy_def)
  have "recv_client_body env h ?c1 = unpack_client_body env h body ?b ?c3"
    using c2(1,3) r2 by (simp add: recv_client_body_def ub Let_def)
  also have "\<dots> = Some (Inr (0, word_of_nat (length body - 40), dwMesCode (body_of body), take_object_id (cbMain ?b) ?c3))"
    using assms(5,8) by (simp add: unpack_client_body_def plain_def main body_of_prefix sizes)
  finally have body: "recv_client_body env h ?c1 = \<dots>" .
  have hd: "header_of (header_bytes h) = h" using header_of_bytes [of h "[]"] by simp
  have "tc_recv_packet env c = recv_client_body env h ?c1"
    using rd assms(4) leD [OF assms(7)] r1(1) unfolding tc_recv_packet_def sizeof_header_def
    by (simp add: client_reading_def client_wf_def hd)
  moreover have "tcObjectID (take_object_id (cbMain ?b) ?c3) = adopt_id body ?c3"
    unfolding main by (rule take_object_id_adopt [OF assms(8)])
  moreover have "adopt_id body ?c3 = adopt_id body c" using c2(7) by simp
  moreover have "client_reading (take_object_id (cbMain ?b) ?c3)"
  proof -
    have "length (cbMain ?b) = length (cbMain b)" unfolding main using c2(4) assms(6) by simp
    then have "client_wf ?c3" using c2(2,3,6) by (auto simp: client_reading_def client_wf_def bufs_wf_def left_wf_def)
    then have "client_wf (take_object_id (cbMain ?b) ?c3)" by (rule take_object_id_wf) (use main assms(8) in \<open>simp add: CX_GUID_LEN_def\<close>)
    then show ?thesis using c2(2) r2(2) by (auto simp: client_reading_def take_object_id_def Let_def)
  qed
  moreover have "send_side (take_object_id (cbMain ?b) ?c3) = send_side c"
    using c2(8) by (simp add: send_side_def take_object_id_def Let_def)
  moreover have "unpooled (take_object_id (cbMain ?b) ?c3)" if "unpooled c"
    using that c2(3,9) by (auto simp: unpooled_def take_object_id_def Let_def)
  ultimately show ?thesis using body c2(6) main by auto
qed

lemma tc_recv_into_plain:
  assumes "env_wf env" and "client_reading c" and "tcIn c = wire (h, body) @ rest"
    and "wFlag h = CX_PACKET_HEADER_FLAG" and "plain h" and "length body = unat (dwDataLen h)" and "dwDataLen h \<le> 1024 * 1024 * 1024"
    and "40 < length body" and "recv_room env (dwDataLen h) c"
  shows "\<exists>c'. tc_recv_packet_into env (Some room) c = Some (Inr (if room < length body - 40 then - 8 else 0,
      take room (drop 40 body), Some (word_of_nat (min room (length body - 40))), dwMesCode (body_of body), c')) \<and>
    tcIn c' = rest \<and> tcObjectID c' = adopt_id body c \<and> client_reading c' \<and> send_side c' = send_side c \<and> (unpooled c \<longrightarrow> unpooled c') \<and>
    (length body - 40 - room \<le> room2 \<longrightarrow> (\<exists>read c2. tc_read_left_data room2 c' = Inr (True, drop room (drop 40 body), read, c2) \<and>
      (room < length body - 40 \<longrightarrow> read = Some (word_of_nat (length body - 40 - room))) \<and> tcLeftLen c2 = 0 \<and> client_reading c2 \<and>
      send_side c2 = send_side c \<and> (unpooled c \<longrightarrow> unpooled c2) \<and> tcIn c2 = rest \<and> tcObjectID c2 = adopt_id body c))"
proof -
  let ?c = "c\<lparr>tcLeftPos := 0, tcLeftLen := 0\<rparr>" and ?n = "length body - 40"
  have rd: "client_reading ?c" using assms(2) by (simp add: client_reading_def client_wf_def left_wf_def)
  have room: "recv_room env (dwDataLen h) ?c" using assms(9) by (simp add: recv_room_def)
  obtain c1 b x where r: "tc_recv_packet env ?c = Some (Inr (0, word_of_nat ?n, dwMesCode (body_of body), c1))"
      "tcRecv c1 = Some b" "cbMain b = body @ x" "tcIn c1 = rest" "tcLeftLen c1 = 0" "tcObjectID c1 = adopt_id body c"
      "client_reading c1" "send_side c1 = send_side c" "unpooled c \<longrightarrow> unpooled c1"
    using tc_recv_packet_plain [OF assms(1) rd, of h body rest] assms(3-8) room unfolding left_sides by auto
  have big: "length body \<le> 1073741824" using assms(6,7) by (simp add: word_le_nat_alt)
  then have un: "unat (word_of_nat ?n :: u32) = ?n" by (simp only: unat_of_nat) simp
  have pos: "0 <s (word_of_nat ?n :: u32)"
  proof -
    have "sint (word_of_nat ?n :: u32) = int ?n"
      using big by (simp only: signed_of_nat) (simp add: signed_take_bit_int_eq_self)
    then show ?thesis using assms(8) by (simp add: word_sless_alt)
  qed
  show ?thesis
  proof (cases "room < ?n")
    case False
    have "tc_recv_packet_into env (Some room) c = Some (Inr (0, take ?n (drop 40 body), Some (word_of_nat ?n), dwMesCode (body_of body), c1))"
      using r pos un False assms(8) by (simp add: tc_recv_packet_into_def Let_def get_at_def sizes)
    moreover have "tc_read_left_data room2 c1 = Inr (True, [], None, c1)" using r(5) by (simp add: tc_read_left_data_def)
    ultimately show ?thesis using False r(4-9) by (simp add: min_def)
  next
    case True
    let ?c' = "c1\<lparr>tcLeftLen := word_of_nat ?n - word_of_nat room, tcLeftPos := word_of_nat room\<rparr>"
    have ur: "unat (word_of_nat room :: u32) = room" using True big by (simp only: unat_of_nat) simp
    have left: "unat (word_of_nat ?n - word_of_nat room :: u32) = ?n - room"
      using True un ur by (simp add: unat_sub word_le_nat_alt)
    have into: "tc_recv_packet_into env (Some room) c = Some (Inr (- 8, take room (drop 40 body), Some (word_of_nat room), dwMesCode (body_of body), ?c'))"
      using r pos un True by (simp add: tc_recv_packet_into_def Let_def get_at_def sizes)
    have nz: "word_of_nat ?n - word_of_nat room \<noteq> (0 :: u32)" using left True by (metis unat_0 zero_less_diff less_irrefl)
    have inside: "40 + (?n - room + room) \<le> length (cbMain b)" using r(3) True by simp
    have wf: "client_reading ?c'" "client_reading (c1\<lparr>tcLeftLen := 0, tcLeftPos := 0\<rparr>)"
      using r(2,7) left ur inside by (auto simp: client_reading_def client_wf_def left_wf_def sizes)
    have num: "word_of_nat ?n - word_of_nat room = (word_of_nat (?n - room) :: u32)" using True by (simp add: of_nat_diff)
    have "tc_read_left_data room2 ?c' = Inr (True, drop room (drop 40 body), Some (word_of_nat (?n - room)), c1\<lparr>tcLeftLen := 0, tcLeftPos := 0\<rparr>)"
      if "?n - room \<le> room2"
      using that r(2,3) left ur True nz num by (simp add: tc_read_left_data_def get_at_def sizes not_less add.commute)
    then show ?thesis using into True r(4,6,8,9) wf by (simp add: min_def)
  qed
qed

text \<open>
  C38: reading what the server sends.  When the bytes of a packet without codec are in front of the incoming ones, in any
  pieces, \<open>RecvPacket\<close> takes exactly these, gives the message code, and puts the data into the memory of the caller;
  when that is too small it says so with -8, and \<open>ReadLeftData\<close> gives the rest.  The identifier of the object is taken
  over when the packet answers the last request.
\<close>

theorem client_reads_packet:
  assumes "env_wf env" and "client_reading c" and "tcIn c = wire (h, body) @ rest"
    and "wFlag h = CX_PACKET_HEADER_FLAG" and "plain h" and "length body = unat (dwDataLen h)" and "dwDataLen h \<le> 1024 * 1024 * 1024"
    and "40 < length body" and "recv_room env (dwDataLen h) c"
  shows "\<exists>c'. tc_recv_packet_into env (Some room) c = Some (Inr (if room < length body - 40 then - 8 else 0,
      take room (drop 40 body), Some (word_of_nat (min room (length body - 40))), dwMesCode (body_of body), c')) \<and>
    tcIn c' = rest \<and> tcObjectID c' = adopt_id body c \<and>
    (length body - 40 - room \<le> room2 \<longrightarrow> (\<exists>read c2. tc_read_left_data room2 c' = Inr (True, drop room (drop 40 body), read, c2) \<and> tcLeftLen c2 = 0))"
  using tc_recv_into_plain [OF assms, of room room2] by blast

section \<open>Every client\<close>


section \<open>Inputs for the properties\<close>

definition demo_client_env :: client_env where
  "demo_client_env = \<lparr>cliFresh = (\<lambda>n. Some (replicate n 0)), cliPool = (\<lambda>n. None), cliGuid = replicate 16 9,
     cliPrepare = (\<lambda>e z src dest cache. None), cliParse = (\<lambda>e z src dest cache. None)\<rparr>"

definition demo_bufs :: "nat \<Rightarrow> client_bufs" where
  "demo_bufs n = \<lparr>cbMain = replicate n 0, cbReal = replicate (n * 2) 0, cbCache = replicate (n * 2) 0, cbPool = False\<rparr>"

definition demo_client :: tcp_client where
  "demo_client = tcp_client_new\<lparr>tcCreated := True, tcConnected := True, tcOpen := True, tcSend := Some (demo_bufs 64), tcSendLen := 64,
     tcRealSendLen := 128, tcCacheSendLen := 128, tcSendScript := [Wrote 5, Wrote 30], tcRecvScript := [GotUpTo 7, GotUpTo 20]\<rparr>"

lemma demo_client_env_wf: "env_wf demo_client_env"
  by (simp add: env_wf_def demo_client_env_def CX_GUID_LEN_def)

lemma demo_client_wf: "client_wf demo_client"
  by (simp add: client_wf_def demo_client_def tcp_client_new_def left_wf_def bufs_wf_def demo_bufs_def CX_GUID_LEN_def)


theorem client_large_data_use_after_free_witness:
  "tc_send_packet demo_client_env (Some (External [7])) 9 16 demo_client = Some (Inl UseAfterFree)"
  by (rule client_large_data_use_after_free [of _ "demo_bufs 64"])
    (simp_all add: demo_client_def tcp_client_new_def demo_bufs_def demo_client_env_def sizes)

definition demo_reply :: "packet_header \<times> byte list" where
  "demo_reply = (\<lparr>wFlag = CX_PACKET_HEADER_FLAG, byCompressFlag = 0, byEncryptFlag = 0, dwDataLen = 43, dwCheckSum = 0, dwOrignDataLen = 43\<rparr>,
     replicate 40 0 @ [1, 2, 3])"

theorem client_reads_packet_witness:
  "let c = demo_client\<lparr>tcIn := wire demo_reply @ [5]\<rparr> in
   \<exists>c'. tc_recv_packet_into demo_client_env (Some 2) c = Some (Inr (- 8, [1, 2], Some 2, 0, c')) \<and> tcIn c' = [5] \<and>
     (\<exists>read c2. tc_read_left_data 1 c' = Inr (True, [3], read, c2))"
proof -
  let ?c = "demo_client\<lparr>tcIn := wire demo_reply @ [5]\<rparr>"
  have "client_reading ?c" using settings_wf(1) [OF demo_client_wf, where net = "wire demo_reply @ [5]" and ss = "tcSendScript demo_client" and rs = "tcRecvScript demo_client"]
    by (simp add: client_reading_def demo_client_def tcp_client_new_def giving_def)
  moreover have "recv_room demo_client_env 43 ?c"
    by (simp add: recv_room_def demo_client_env_def demo_client_def tcp_client_new_def)
  ultimately have "\<exists>c'. tc_recv_packet_into demo_client_env (Some 2) ?c = Some (Inr (- 8, [1, 2], Some 2, dwMesCode (body_of (replicate 40 0 @ [1, 2, 3])), c')) \<and>
      tcIn c' = [5] \<and> (\<exists>read c2. tc_read_left_data 1 c' = Inr (True, [3], read, c2))"
    using client_reads_packet [OF demo_client_env_wf, of ?c "fst demo_reply" "snd demo_reply" "[5]" 2 1]
    by (auto simp: demo_reply_def plain_def)
  moreover have "dwMesCode (body_of (replicate 40 0 @ [1, 2, 3])) = 0" by code_simp
  ultimately show ?thesis unfolding Let_def by simp
qed


end
