(* ===== verification/Remote_File.thy ===== *)
theory Remote_File imports Main File_Client_Faults File_Service Tcp_Client_Correct begin

text \<open>
  A client of files and the server of files on both ends of a network that loses nothing: what the program at the client
  sees is the file of \<open>File_Service\<close>.  The server is its handlers, with packets without codec around their messages.
\<close>

section \<open>The server as a peer\<close>

definition reply_packet :: "byte list \<Rightarrow> u32 \<Rightarrow> byte list \<Rightarrow> packet_header \<times> byte list" where
  "reply_packet req code bs =
     (let body = take 32 req @ le_enc 4 (unat code) @ le_enc 4 0 @ bs in
      (\<lparr>wFlag = CX_PACKET_HEADER_FLAG, byCompressFlag = 0, byEncryptFlag = 0, dwDataLen = word_of_nat (length body),
        dwCheckSum = check_sum body, dwOrignDataLen = word_of_nat (length body)\<rparr>, body))"

definition peer_message :: "byte list \<Rightarrow> message" where
  "peer_message body = \<lparr>mesAddr = 0, mesType = 1, mesDataLen = word_of_nat (length body), mesBeginTime = 0, mesBeginProcessTime = 0,
     mesSeq = 1, mesProcessedRet = 0, mesBody = body\<rparr>"

definition reply_type :: "file_reply \<Rightarrow> u32" where
  "reply_type reply = (case reply of No_Reply \<Rightarrow> 0 | Send_Reply bs code \<Rightarrow> code | Send_Buffer n r \<Rightarrow> CX_FILE_READ_REPLY_CODE)"

text \<open>Every login is accepted, with the same identifiers.\<close>

definition login_answer :: "string \<Rightarrow> string \<Rightarrow> byte list" where
  "login_answer ses ver = common_reply_bytes (16 + (length (ses @ [CR] @ ver) + 1)) (text_reply 200 (ses @ [CR] @ ver))"

definition file_peer :: "file_env \<Rightarrow> string \<Rightarrow> string \<Rightarrow> byte list \<Rightarrow> file_server \<times> os \<Rightarrow> byte list \<times> file_server \<times> os" where
  "file_peer fenv ses ver out st =
     (let body = drop sizeof_header out in
      if dwMesCode (body_of body) = CX_SESSION_LOGIN_CODE then (wire (reply_packet body CX_SESSION_LOGIN_REPLY_CODE (login_answer ses ver)), st)
      else case file_work fenv (peer_message body) (\<lambda>k. True) (fst st) (snd st) of
        Inl e \<Rightarrow> ([], st)
      | Inr (reply, st) \<Rightarrow> (if reply = No_Reply then [] else wire (reply_packet body (reply_type reply) (sent_bytes reply)), st))"

definition file_net :: "client_env \<Rightarrow> file_env \<Rightarrow> string \<Rightarrow> string \<Rightarrow> (file_server \<times> os) network" where
  "file_net env fenv ses ver = \<lparr>netEnv = (\<lambda>p. env), netSocket = (\<lambda>i p. (True, p)), netConnect = (\<lambda>i p. (True, p)),
     netReact = (\<lambda>i out p. file_peer fenv ses ver out p)\<rparr>"

section \<open>One exchange on a channel\<close>

text \<open>A connected channel without a codec, whose buffers hold a packet of 4096 bytes, and in which nothing is left.\<close>

definition channel_good :: "tcp_client \<Rightarrow> bool" where
  "channel_good c \<longleftrightarrow> client_ready c \<and> client_reading c \<and> unpooled c \<and> tcOut c = [] \<and> 4152 \<le> unat (tcSendLen c) \<and> unat (tcSendLen c) < 2 ^ 31"

definition client_env_good :: "client_env \<Rightarrow> bool" where
  "client_env_good env \<longleftrightarrow> env_wf env \<and> (\<forall>k. cliFresh env k \<noteq> None)"

lemma channel_good_real: "channel_good c \<Longrightarrow> unat (tcRealSendLen c) = 2 * unat (tcSendLen c)"
proof -
  assume g: "channel_good c"
  then obtain b where "tcSend c = Some b" by (auto simp: channel_good_def client_ready_def)
  then have "tcRealSendLen c = tcSendLen c * 2" using g by (simp add: channel_good_def client_ready_def client_wf_def bufs_wf_def)
  then show ?thesis using g by (simp add: channel_good_def unat_word_ariths)
qed

lemma external_fits: "channel_good c \<Longrightarrow> length bs = n \<Longrightarrow> n \<le> 4096 \<Longrightarrow> client_fits c (External bs) n"
  using channel_good_real [of c] by (simp add: client_fits_def channel_good_def sizes CX_MAX_CHACHE_SIZE_def)

lemma channel_good_in [simp]: "channel_good (c\<lparr>tcOut := [], tcIn := net\<rparr>) = channel_good (c\<lparr>tcOut := []\<rparr>)"
  by (simp add: channel_good_def client_ready_def client_reading_def unpooled_def client_wf_def left_wf_def)

lemma channel_send_plain:
  assumes "client_env_good env" and "netEnv net = (\<lambda>p. env)" and "channel_good (tcp_of i w)" and "tcIn (tcp_of i w) = []"
    and "client_fits (tcp_of i w) d (unat n)"
    and "netReact net i (wire (client_packet (cliGuid env) code (client_bytes (tcp_of i w) d (unat n)) (tcp_of i w))) (cwPeer w) = (ins, p)"
  shows "\<exists>c. channel_send net i d n code w = Some (Inr (0, (set_tcp i c w)\<lparr>cwPeer := p\<rparr>)) \<and> channel_good c \<and> tcIn c = ins"
proof -
  let ?c = "tcp_of i w"
  have g: "client_ready ?c" "client_reading ?c" "unpooled ?c" "tcOut ?c = []" "env_wf env"
    using assms(1,3) by (simp_all add: channel_good_def client_env_good_def)
  obtain c' where c': "tc_send_packet env (Some d) n code ?c = Some (Inr (0, c'))" "client_ready c'"
      "tcOut c' = wire (client_packet (cliGuid env) code (client_bytes ?c d (unat n)) ?c)" "tcSendLen c' = tcSendLen ?c"
      "recv_side c' = recv_side ?c" "unpooled c'"
    using tc_send_packet_plain [OF g(5,1) assms(5), of code] g(3,4) by auto
  let ?c' = "c'\<lparr>tcOut := [], tcIn := tcIn c' @ ins\<rparr>"
  have side: "tcRecvScript c' = tcRecvScript ?c" "tcIn c' = []" using c'(5) assms(4) by (simp_all add: recv_side_def)
  have "client_ready ?c'" using c'(2) by (simp add: client_ready_def client_wf_def left_wf_def)
  moreover have "client_reading ?c'" using c'(2) g(2) side(1) by (simp add: client_ready_def client_reading_def client_wf_def left_wf_def)
  moreover have "unpooled ?c'" using c'(6) by (simp add: unpooled_def)
  ultimately have "channel_good ?c'" using c'(4) assms(3) by (simp add: channel_good_def)
  then show ?thesis using c'(1,3) side(2) assms(2,6) by (auto simp: channel_send_def)
qed

lemma reply_packet_simps:
  assumes "length bs \<le> 1024 * 10240 + 1024" and "32 \<le> length req"
  shows "length (snd (reply_packet req code bs)) = 40 + length bs" "drop 40 (snd (reply_packet req code bs)) = bs"
    "wFlag (fst (reply_packet req code bs)) = CX_PACKET_HEADER_FLAG" "plain (fst (reply_packet req code bs))"
    "unat (dwDataLen (fst (reply_packet req code bs))) = 40 + length bs" "dwMesCode (body_of (snd (reply_packet req code bs))) = code"
proof -
  show "length (snd (reply_packet req code bs)) = 40 + length bs" "drop 40 (snd (reply_packet req code bs)) = bs"
    "wFlag (fst (reply_packet req code bs)) = CX_PACKET_HEADER_FLAG" "plain (fst (reply_packet req code bs))"
    using assms(2) by (simp_all add: reply_packet_def Let_def plain_def)
  have "unat (word_of_nat (40 + length bs) :: u32) = 40 + length bs" using assms(1) by (simp only: unat_of_nat) simp
  then show "unat (dwDataLen (fst (reply_packet req code bs))) = 40 + length bs" using assms(2) by (simp add: reply_packet_def Let_def)
  show "dwMesCode (body_of (snd (reply_packet req code bs))) = code" using assms(2) by (simp add: reply_packet_def Let_def body_of_def word32_le_roundtrip)
qed

lemma channel_recv_plain:
  assumes "client_env_good env" and "netEnv net = (\<lambda>p. env)" and "channel_good (tcp_of i w)"
    and "tcIn (tcp_of i w) = wire (reply_packet req code bs)" and "length bs \<le> 1024 * 10240 + 1024" and "32 \<le> length req" and "bs \<noteq> []"
  shows "\<exists>c. channel_recv net i room w = Some (Inr (if room < length bs then - 8 else 0, take room bs, code, set_tcp i c w)) \<and>
    channel_good c \<and> tcIn c = [] \<and>
    (room < length bs \<and> length bs - room \<le> room2 \<longrightarrow> (\<exists>c2. tc_read_left_data room2 c = Inr (True, drop room bs, Some (word_of_nat (length bs - room)), c2) \<and>
      channel_good c2 \<and> tcIn c2 = []))"
proof -
  let ?c = "tcp_of i w" and ?h = "fst (reply_packet req code bs)" and ?b = "snd (reply_packet req code bs)"
  note s = reply_packet_simps [OF assms(5,6), of code]
  have g: "client_reading ?c" "unpooled ?c" "env_wf env" "client_ready ?c" using assms(1,3) by (simp_all add: channel_good_def client_env_good_def)
  have room: "recv_room env (dwDataLen ?h) ?c" using assms(1) g(2) by (auto simp: recv_room_def client_env_good_def unpooled_def split: option.splits)
  have small: "dwDataLen ?h \<le> 1024 * 1024 * 1024" using s(5) assms(5) by (simp add: word_le_nat_alt)
  have inn: "tcIn ?c = wire (?h, ?b) @ []" using assms(4) by simp
  have good: "channel_good c'" if "client_reading c'" "send_side c' = send_side ?c" "unpooled ?c \<longrightarrow> unpooled c'" for c'
    using that g assms(3) by (auto simp: channel_good_def client_ready_def client_reading_def send_side_def)
  from tc_recv_into_plain [OF g(3,1) inn s(3,4) _ small _ room, of room room2] s(1,2,5,6) assms(7)
  obtain c' where "tc_recv_packet_into env (Some room) ?c = Some (Inr (if room < length bs then - 8 else 0, take room bs, Some (word_of_nat (min room (length bs))), code, c'))"
      "tcIn c' = []" "client_reading c'" "send_side c' = send_side ?c" "unpooled ?c \<longrightarrow> unpooled c'"
      "length bs - room \<le> room2 \<longrightarrow> (\<exists>read c2. tc_read_left_data room2 c' = Inr (True, drop room bs, read, c2) \<and>
        (room < length bs \<longrightarrow> read = Some (word_of_nat (length bs - room))) \<and> tcLeftLen c2 = 0 \<and> client_reading c2 \<and>
        send_side c2 = send_side ?c \<and> (unpooled ?c \<longrightarrow> unpooled c2) \<and> tcIn c2 = [])"
    by auto
  then show ?thesis using good assms(2) by (auto simp: channel_recv_def)
qed

section \<open>A request and its reply\<close>

definition op_reply :: "file_op \<Rightarrow> u32" where
  "op_reply op = (case op of Op_Open path t e \<Rightarrow> CX_FILE_OPEN_REPLY_CODE | Op_Write xs \<Rightarrow> CX_FILE_WRITE_REPLY_CODE
     | Op_Read n \<Rightarrow> CX_FILE_READ_REPLY_CODE | Op_Length \<Rightarrow> CX_FILE_GET_LENGTH_REPLY_CODE | Op_Close \<Rightarrow> CX_FILE_CLOSE_REPLY_CODE)"

lemma file_work_reply_type:
  assumes "file_work fenv m memory v s = Inr (r, v', s')" and "dwMesCode (body_of (mesBody m)) = op_code op"
  shows "reply_type r = op_reply op"
proof (cases op)
  case (Op_Read n)
  then obtain work s1 k where "(case work of Reply r \<Rightarrow> (Send_Reply (read_reply_bytes (unat (rrDataLen r + 8)) r) CX_FILE_READ_REPLY_CODE, v, s1)
      | FromFile r \<Rightarrow> (Send_Buffer k r, v, s1)) = (r, v', s')"
    using assms by (auto simp: file_work_def op_code_def file_codes bind_res_Inr_iff case_prod_unfold simp del: split_paired_Ex)
  then show ?thesis using Op_Read by (cases work) (auto simp: op_reply_def reply_type_def)
qed (use assms in \<open>auto simp: file_work_def op_code_def op_reply_def file_codes reply_type_def bind_res_Inr_iff case_prod_unfold\<close>)

lemma op_code_not_login [simp]: "op_code op \<noteq> CX_SESSION_LOGIN_CODE"
  by (cases op) (simp_all add: op_code_def file_codes CX_SESSION_LOGIN_CODE_def)

lemma client_packet_simps:
  assumes "client_wf c" and "env_wf env"
  shows "drop 16 (wire (client_packet (cliGuid env) code bs c)) = snd (client_packet (cliGuid env) code bs c)"
    "\<exists>h. length h = 40 \<and> snd (client_packet (cliGuid env) code bs c) = h @ bs"
    "dwMesCode (body_of (snd (client_packet (cliGuid env) code bs c))) = code"
    "length (snd (client_packet (cliGuid env) code bs c)) = 40 + length bs"
proof -
  let ?c = "c\<lparr>tcRequestID := cliGuid env, tcPacketNumber := tcPacketNumber c + 1\<rparr>"
  have ids: "length (tcObjectID ?c) = CX_GUID_LEN" "length (tcRequestID ?c) = CX_GUID_LEN" using assms by (simp_all add: client_wf_def env_wf_def)
  have b: "snd (client_packet (cliGuid env) code bs c) = client_head code ?c @ bs" by (simp add: client_packet_def Let_def)
  show "drop 16 (wire (client_packet (cliGuid env) code bs c)) = snd (client_packet (cliGuid env) code bs c)" by (simp add: wire_def sizes)
  show "\<exists>h. length h = 40 \<and> snd (client_packet (cliGuid env) code bs c) = h @ bs" "length (snd (client_packet (cliGuid env) code bs c)) = 40 + length bs"
    using ids b by auto
  show "dwMesCode (body_of (snd (client_packet (cliGuid env) code bs c))) = code"
    using ids unfolding b by (simp add: client_head_def body_of_def CX_GUID_LEN_def word32_le_roundtrip)
qed

text \<open>At the end of the file the reply to reading carries the text of an error.\<close>

lemma file_work_end:
  assumes "file_sim v s a" and "file_message (op_code op) (op_request op) m" and "op_ok op a" and "length (feError env) \<le> 1000"
    and "fst (file_step op a) = Ans_End" and "file_work env m (\<lambda>k. True) v s = Inr (r, v', s')"
  shows "reply_u32 4 (sent_bytes r) = length (feError env) + 1"
proof -
  obtain n where op: "op = Op_Read n" using assms(5) by (cases op) (auto simp: file_step_def Let_def split: option.splits if_splits)
  have n: "0 < n" "n \<le> 1024 * 10240" using assms(3) op by (simp_all add: op_ok_def)
  then have un: "unat (word_of_nat n :: u32) = n" by (simp only: unat_of_nat) simp
  then have nz: "word_of_nat n \<noteq> (0 :: u32)" "\<not> 10485760 < (word_of_nat n :: u32)" using n by (auto simp: word_less_nat_alt)
  obtain path pos re w where o1: "flsOpen a = Some (path, pos, re, w)" using assms(5) op by (auto simp: file_step_def split: option.splits)
  then have o1: "flsOpen a = Some (path, pos, True, w)" using assms(3) op by (simp add: op_ok_def)
  obtain bs where bs: "f64Open (srvFile v)" "flsContent a path = Some bs" using file_sim_open [OF assms(1) o1] by auto
  obtain s' where l: "file_read_loop env (word_of_nat n) 0 (srvFile v) \<lparr>rrCode = 200, rrDataLen = 0, rrData = []\<rparr> s = (read_result env n (take n (drop pos bs)), s')"
    using file_read_loop_sim [OF assms(1) o1 bs(2) nz(1), of env] unfolding un by blast
  have e: "take n (drop pos bs) = []" using assms(5) op file_step_read [OF o1 bs(2) refl, of n] by (auto split: if_splits)
  then have l: "file_read_loop env (word_of_nat n) 0 (srvFile v) \<lparr>rrCode = 200, rrDataLen = 0, rrData = []\<rparr> s = (read_result env n [], s')" using l by (simp only: e)
  have u: "mes_u32 m 12 = Inr (word_of_nat n)" using file_read_fields [of _ n m] assms(2) op n(2) by (simp add: op_request_def)
  have code: "dwMesCode (body_of (mesBody m)) = CX_FILE_READ_CODE" using assms(2) op by (simp add: file_message_def op_code_def)
  have "r = Send_Buffer (word_of_nat n) (read_result env n [])"
    using assms(6) code u nz bs(1) l by (simp add: file_work_def file_codes file_read_work_def)
  moreover have "reply_u32 4 (read_reply_bytes (unat (rrDataLen (read_result env n []) + 8)) (read_result env n [])) = unat (rrDataLen (read_result env n []))"
    using read_result_reply [OF _ n(2,1) assms(4) refl, of "[]" 0 "[]"] by simp
  moreover have "unat (word_of_nat (length (feError env) + 1) :: u32) = length (feError env) + 1" using assms(4) by (simp only: unat_of_nat) simp
  ultimately show ?thesis by (simp add: sent_bytes_def read_result_def)
qed

text \<open>The peer answers the packet of a request.\<close>

lemma file_peer_answers:
  assumes "client_wf c" and "env_wf env" and "file_sim v s a" and "op_ok op a" and "length (feError fenv) \<le> 1000"
  shows "\<exists>req bs v' s'. file_peer fenv ses ver (wire (client_packet (cliGuid env) (op_code op) (op_request op) c)) (v, s) =
      (wire (reply_packet req (op_reply op) bs), v', s') \<and> 32 \<le> length req \<and> 8 \<le> length bs \<and> length bs \<le> 1024 * 10240 + 1024 \<and>
    (if \<exists>n. op = Op_Read n then length bs = reply_u32 4 bs + 8 else 16 \<le> length bs \<and> length bs \<le> 1040) \<and>
    reply_answer op bs = fst (file_step op a) \<and> file_sim v' s' (snd (file_step op a)) \<and>
    (fst (file_step op a) = Ans_End \<longrightarrow> reply_u32 4 bs = length (feError fenv) + 1)"
proof -
  let ?p = "client_packet (cliGuid env) (op_code op) (op_request op) c"
  note p = client_packet_simps [OF assms(1,2), of "op_code op" "op_request op"]
  have mes: "file_message (op_code op) (op_request op) (peer_message (snd ?p))"
  proof -
    obtain h where "length h = 40" "snd ?p = h @ op_request op" using p(2) by blast
    then show ?thesis using p(3) by (intro file_messageI [where h = h and rest = "[]"]) (simp_all add: peer_message_def)
  qed
  from file_work_sim [OF assms(3) mes assms(4) _ assms(5), of "\<lambda>k. True"]
  obtain r v' s' where w: "file_work fenv (peer_message (snd ?p)) (\<lambda>k. True) v s = Inr (r, v', s')" "r \<noteq> No_Reply" "8 \<le> length (sent_bytes r)"
      "length (sent_bytes r) \<le> 1024 * 10240 + 1024"
      "if \<exists>n. op = Op_Read n then length (sent_bytes r) = reply_u32 4 (sent_bytes r) + 8 else 16 \<le> length (sent_bytes r) \<and> length (sent_bytes r) \<le> 1040"
      "reply_answer op (sent_bytes r) = fst (file_step op a)" "file_sim v' s' (snd (file_step op a))"
    by auto
  have "reply_type r = op_reply op" by (rule file_work_reply_type [OF w(1)]) (use p(3) in \<open>simp add: peer_message_def\<close>)
  then have "file_peer fenv ses ver (wire ?p) (v, s) = (wire (reply_packet (snd ?p) (op_reply op) (sent_bytes r)), v', s')"
    using w(1,2) p(1,3) by (simp add: file_peer_def Let_def sizes)
  moreover have "32 \<le> length (snd ?p)" using p(4) by simp
  ultimately show ?thesis using w(3-7) file_work_end [OF assms(3) mes assms(4,5) _ w(1)] by blast
qed

lemma field_memory: "k + 4 \<le> length bs \<Longrightarrow> field (packet_memory bs) k = word_of_nat (reply_u32 k bs)"
  by (simp add: field_def packet_memory_def reply_u32_def min_def)

lemma reply_code_u32: "reply_code bs = word_of_nat (reply_u32 0 bs)"
  by (simp add: reply_code_def reply_u32_def)

text \<open>Every request but reading: its reply is received as a whole.\<close>

definition plain_request :: "file_op \<Rightarrow> bool" where
  "plain_request op \<longleftrightarrow> (\<forall>n. op \<noteq> Op_Read n)"

lemma fc_talk_good:
  assumes "client_env_good env" and "channel_good (tcp_of i (fcWorld fc))" and "tcIn (tcp_of i (fcWorld fc)) = []"
    and "client_fits (tcp_of i (fcWorld fc)) d (unat n)" and "client_bytes (tcp_of i (fcWorld fc)) d (unat n) = op_request op"
    and "cwPeer (fcWorld fc) = (v, s)" and "file_sim v s a" and "op_ok op a" and "length (feError fenv) \<le> 1000" and "plain_request op"
  shows "\<exists>bs c v' s'. fc_talk (file_net env fenv ses ver) i d n (op_code op) (op_reply op) fc =
      Some (Inr (if reply_code bs = 200 then 0 else - 6, packet_memory bs, fc\<lparr>fcWorld := (set_tcp i c (fcWorld fc))\<lparr>cwPeer := (v', s')\<rparr>\<rparr>)) \<and>
    channel_good c \<and> tcIn c = [] \<and> 16 \<le> length bs \<and> reply_answer op bs = fst (file_step op a) \<and> file_sim v' s' (snd (file_step op a))"
proof -
  let ?c = "tcp_of i (fcWorld fc)" and ?net = "file_net env fenv ses ver"
  have wf: "client_wf ?c" "env_wf env" using assms(1,2) by (simp_all add: channel_good_def client_ready_def client_env_good_def)
  obtain req bs v' s' where p: "file_peer fenv ses ver (wire (client_packet (cliGuid env) (op_code op) (op_request op) ?c)) (v, s) =
      (wire (reply_packet req (op_reply op) bs), v', s')" "32 \<le> length req" "16 \<le> length bs" "length bs \<le> 1040"
      "reply_answer op bs = fst (file_step op a)" "file_sim v' s' (snd (file_step op a))"
    using file_peer_answers [OF wf assms(7,8,9), of ses ver] assms(10) unfolding plain_request_def by auto
  have net: "netEnv ?net = (\<lambda>p. env)" by (simp add: file_net_def)
  have "netReact ?net i (wire (client_packet (cliGuid env) (op_code op) (client_bytes ?c d (unat n)) ?c)) (cwPeer (fcWorld fc)) =
      (wire (reply_packet req (op_reply op) bs), v', s')"
    using p(1) assms(5,6) by (simp add: file_net_def)
  from channel_send_plain [OF assms(1) net assms(2,3,4) this]
  obtain c1 where c1: "channel_send ?net i d n (op_code op) (fcWorld fc) = Some (Inr (0, (set_tcp i c1 (fcWorld fc))\<lparr>cwPeer := (v', s')\<rparr>))"
      "channel_good c1" "tcIn c1 = wire (reply_packet req (op_reply op) bs)" by blast
  let ?w = "(set_tcp i c1 (fcWorld fc))\<lparr>cwPeer := (v', s')\<rparr>"
  have t: "tcp_of i ?w = c1" by (simp add: set_tcp_def on_channel_def)
  have ne: "bs \<noteq> []" using p(3) by auto
  have "length bs \<le> 1024 * 10240 + 1024" using p(4) by simp
  from channel_recv_plain [OF assms(1) net, of ?w i req "op_reply op" bs "unat CLIENT_BUF_SIZE" 0, unfolded t, OF c1(2,3) this p(2) ne]
  obtain c2 where c2: "channel_recv ?net i (unat CLIENT_BUF_SIZE) ?w = Some (Inr (0, bs, op_reply op, set_tcp i c2 ?w))" "channel_good c2" "tcIn c2 = []"
    using p(4) by (auto simp: CLIENT_BUF_SIZE_def)
  have w2: "set_tcp i c2 ?w = (set_tcp i c2 (fcWorld fc))\<lparr>cwPeer := (v', s')\<rparr>" by (simp add: set_tcp_def on_channel_def)
  have "fc_talk ?net i d n (op_code op) (op_reply op) fc =
      Some (Inr (if reply_code bs = 200 then 0 else - 6, packet_memory bs, fc\<lparr>fcWorld := (set_tcp i c2 (fcWorld fc))\<lparr>cwPeer := (v', s')\<rparr>\<rparr>))"
    using c1(1) c2(1) p(3) by (simp add: fc_talk_def fc_answer_def Let_def field_memory reply_code_u32 w2)
  then show ?thesis using c2(2,3) p(3,5,6) by blast
qed

section \<open>The client is the file\<close>

definition channel_idle :: "tcp_client \<Rightarrow> bool" where
  "channel_idle c \<longleftrightarrow> channel_good c \<and> tcIn c = []"

definition remote :: "(file_server \<times> os) file_client \<Rightarrow> files \<Rightarrow> bool" where
  "remote fc a \<longleftrightarrow> (\<exists>v s. cwPeer (fcWorld fc) = (v, s) \<and> file_sim v s a) \<and> channel_idle (tcp_of CMM (fcWorld fc)) \<and>
     channel_idle (tcp_of DATA (fcWorld fc)) \<and> (fcOpened fc \<longleftrightarrow> flsOpen a \<noteq> None) \<and>
     fcIP fc \<noteq> [] \<and> fcPort fc \<noteq> 0 \<and> fcUser fc \<noteq> [] \<and> fcPassword fc \<noteq> [] \<and> fcPath fc = []"

lemma tcp_of_set [simp]: "tcp_of j (set_tcp i c w) = (if j = i then c else tcp_of j w)" "cwPeer (set_tcp i c w) = cwPeer w"
  by (simp_all add: set_tcp_def on_channel_def)

lemma set_tcp_twice [simp]:
  "set_tcp i c (set_tcp i c' w) = set_tcp i c w" "set_tcp i c (w\<lparr>cwPeer := p\<rparr>) = (set_tcp i c w)\<lparr>cwPeer := p\<rparr>"
  by (simp_all add: set_tcp_def on_channel_def)

lemma remote_step:
  assumes "remote fc a" and "i = CMM \<or> i = DATA" and "channel_idle c" and "file_sim v' s' a'" and "opened \<longleftrightarrow> flsOpen a' \<noteq> None"
  shows "remote (fc\<lparr>fcWorld := (set_tcp i c (fcWorld fc))\<lparr>cwPeer := (v', s')\<rparr>, fcOpened := opened\<rparr>) a'"
    "opened = fcOpened fc \<Longrightarrow> remote (fc\<lparr>fcWorld := (set_tcp i c (fcWorld fc))\<lparr>cwPeer := (v', s')\<rparr>\<rparr>) a'"
  using assms by (auto simp: remote_def)

lemma remote_set_tcp: "remote fc a \<Longrightarrow> channel_idle c \<Longrightarrow> remote (fc\<lparr>fcWorld := set_tcp i c (fcWorld fc)\<rparr>) a"
  by (auto simp: remote_def)

lemma channel_idle_object_id: "channel_idle c \<Longrightarrow> length g = CX_GUID_LEN \<Longrightarrow> channel_idle (tc_set_object_id g c)"
  by (simp add: channel_idle_def channel_good_def client_ready_def client_reading_def client_wf_def left_wf_def unpooled_def tc_set_object_id_def)

lemma remote_close:
  assumes "client_env_good env" and "length (feError fenv) \<le> 1000" and "remote fc a"
  shows "\<exists>fc'. fc_close (file_net env fenv ses ver) fc = Some (Inr (0, fc')) \<and> remote fc' (a\<lparr>flsOpen := None\<rparr>) \<and> \<not> fcOpened fc'"
proof (cases "fcOpened fc")
  case False
  then have "flsOpen a = None" using assms(3) unfolding remote_def by blast
  then have "a\<lparr>flsOpen := None\<rparr> = a" by (cases a) simp
  then show ?thesis using False assms(3) by (simp add: fc_close_def)
next
  case True
  obtain v s where p: "cwPeer (fcWorld fc) = (v, s)" "file_sim v s a" and g: "channel_good (tcp_of CMM (fcWorld fc))" "tcIn (tcp_of CMM (fcWorld fc)) = []"
    using assms(3) by (auto simp: remote_def channel_idle_def)
  have req: "op_request Op_Close = replicate 9 0" "op_ok Op_Close a" "op_code Op_Close = CX_FILE_CLOSE_CODE" "op_reply Op_Close = CX_FILE_CLOSE_REPLY_CODE"
      "plain_request Op_Close" by (simp_all add: op_request_def op_ok_def op_code_def op_reply_def plain_request_def)
  have fits: "client_fits (tcp_of CMM (fcWorld fc)) (External (replicate 9 0)) (unat (9 :: u32))" using external_fits [OF g(1), of "replicate 9 0" 9] by simp
  have bytes: "client_bytes (tcp_of CMM (fcWorld fc)) (External (replicate 9 0)) (unat (9 :: u32)) = op_request Op_Close"
    by (simp add: client_bytes_def req)
  from fc_talk_good [OF assms(1) g fits bytes p(1,2) req(2) assms(2) req(5), of ses ver]
  obtain bs c v' s' where t: "fc_talk (file_net env fenv ses ver) CMM (External (replicate 9 0)) 9 CX_FILE_CLOSE_CODE CX_FILE_CLOSE_REPLY_CODE fc =
      Some (Inr (if reply_code bs = 200 then 0 else - 6, packet_memory bs, fc\<lparr>fcWorld := (set_tcp CMM c (fcWorld fc))\<lparr>cwPeer := (v', s')\<rparr>\<rparr>))"
      "channel_idle c" "reply_answer Op_Close bs = fst (file_step Op_Close a)" "file_sim v' s' (snd (file_step Op_Close a))"
    unfolding req(3,4) channel_idle_def by blast
  have "reply_code bs = 200" using t(3) by (simp add: reply_answer_def file_step_def split: if_splits)
  moreover have "file_sim v' s' (a\<lparr>flsOpen := None\<rparr>)" using t(4) by (simp add: file_step_def)
  from remote_step(1) [OF assms(3) _ t(2) this, of CMM False] have "remote (fc\<lparr>fcWorld := (set_tcp CMM c (fcWorld fc))\<lparr>cwPeer := (v', s')\<rparr>, fcOpened := False\<rparr>)
      (a\<lparr>flsOpen := None\<rparr>)" by simp
  ultimately show ?thesis using True t(1) by (simp add: fc_close_def)
qed

lemma remote_fail:
  assumes "client_env_good env" and "length (feError fenv) \<le> 1000" and "remote fc a"
  shows "\<exists>fc'. fc_fail (file_net env fenv ses ver) r fc = Some (Inr (r, fc')) \<and> remote fc' (a\<lparr>flsOpen := None\<rparr>)"
  using remote_close [OF assms, of ses ver] by (auto simp: fc_fail_def)

lemma open_file_talk:
  assumes "client_env_good env" and "length (feError fenv) \<le> 1000" and "remote fc a" and "CHR 0x00 \<notin> set path" and "length path \<le> 4087"
  shows "\<exists>bs c v' s'. fc_talk (file_net env fenv ses ver) CMM (External (client_open_data path t e)) (word_of_nat (length (client_open_data path t e)))
      CX_FILE_OPEN_CODE CX_FILE_OPEN_REPLY_CODE fc =
      Some (Inr (if reply_code bs = 200 then 0 else - 6, packet_memory bs, fc\<lparr>fcWorld := (set_tcp CMM c (fcWorld fc))\<lparr>cwPeer := (v', s')\<rparr>\<rparr>)) \<and>
    channel_idle c \<and> reply_answer (Op_Open path t e) bs = fst (file_step (Op_Open path t e) a) \<and> file_sim v' s' (snd (file_step (Op_Open path t e) a)) \<and>
    length (client_open_data path t e) \<le> 4096"
proof -
  let ?op = "Op_Open path t e" and ?mes = "client_open_data path t e"
  obtain v s where p: "cwPeer (fcWorld fc) = (v, s)" "file_sim v s a" and g: "channel_good (tcp_of CMM (fcWorld fc))" "tcIn (tcp_of CMM (fcWorld fc)) = []"
    using assms(3) by (auto simp: remote_def channel_idle_def)
  have mes: "?mes = op_request ?op" by (cases t) (simp_all add: client_open_data_def open_code_def op_request_def open_request_def byte_of_open_type_def)
  have len: "length ?mes \<le> 4096" using assms(5) by (simp add: client_open_data_def text_bytes_def)
  then have un: "unat (word_of_nat (length ?mes) :: u32) = length ?mes" by (simp only: unat_of_nat) simp
  have req: "op_ok ?op a" "op_code ?op = CX_FILE_OPEN_CODE" "op_reply ?op = CX_FILE_OPEN_REPLY_CODE" "plain_request ?op"
    using assms(4,5) by (simp_all add: op_ok_def op_code_def op_reply_def plain_request_def)
  have fits: "client_fits (tcp_of CMM (fcWorld fc)) (External ?mes) (unat (word_of_nat (length ?mes) :: u32))"
    unfolding un by (rule external_fits [OF g(1) refl len])
  have bytes: "client_bytes (tcp_of CMM (fcWorld fc)) (External ?mes) (unat (word_of_nat (length ?mes) :: u32)) = op_request ?op"
    unfolding un by (simp add: client_bytes_def mes)
  from fc_talk_good [OF assms(1) g fits bytes p(1,2) req(1) assms(2) req(4), of ses ver]
  show ?thesis
    unfolding req(2,3) channel_idle_def using len by blast
qed

lemma remote_open_file:
  assumes "client_env_good env" and "length (feError fenv) \<le> 1000" and "remote fc a" and "CHR 0x00 \<notin> set path" and "length path \<le> 4087"
    and "fst (file_step (Op_Open path t e) a) = Ans_Ok"
  shows "\<exists>fc'. fc_open_file (file_net env fenv ses ver) path t e fc = Some (Inr (0, fc')) \<and> remote fc' (snd (file_step (Op_Open path t e) a))"
proof -
  let ?op = "Op_Open path t e" and ?mes = "client_open_data path t e"
  from open_file_talk [OF assms(1-5), of ses ver t e]
  obtain bs c v' s' where t: "fc_talk (file_net env fenv ses ver) CMM (External ?mes) (word_of_nat (length ?mes)) CX_FILE_OPEN_CODE CX_FILE_OPEN_REPLY_CODE fc =
      Some (Inr (if reply_code bs = 200 then 0 else - 6, packet_memory bs, fc\<lparr>fcWorld := (set_tcp CMM c (fcWorld fc))\<lparr>cwPeer := (v', s')\<rparr>\<rparr>))"
      "channel_idle c" "reply_answer ?op bs = fst (file_step ?op a)" "file_sim v' s' (snd (file_step ?op a))" and len: "length ?mes \<le> 4096"
    by blast
  have ok: "reply_code bs = 200" using t(3) assms(6) by (simp add: reply_answer_def split: if_splits)
  have opened: "flsOpen (snd (file_step ?op a)) \<noteq> None"
    using assms(6) by (auto simp: file_step_def Let_def split: option.splits if_splits)
  let ?fc = "fc\<lparr>fcWorld := (set_tcp CMM c (fcWorld fc))\<lparr>cwPeer := (v', s')\<rparr>, fcOpened := True\<rparr>"
  have r1: "remote ?fc (snd (file_step ?op a))" using remote_step(1) [OF assms(3) _ t(2,4), of CMM True] opened by simp
  have id: "length (tcObjectID c) = CX_GUID_LEN" using t(2) by (simp add: channel_idle_def channel_good_def client_ready_def client_wf_def)
  have "channel_idle (tc_set_object_id (tcObjectID c) (tcp_of DATA (fcWorld ?fc)))"
    using r1 id by (intro channel_idle_object_id) (simp_all add: remote_def)
  with r1 have "remote (fc\<lparr>fcOpened := True, fcWorld := channel_object_id DATA (tcObjectID c) ((set_tcp CMM c (fcWorld fc))\<lparr>cwPeer := (v', s')\<rparr>)\<rparr>) (snd (file_step ?op a))"
    by (simp add: remote_def channel_object_id_def)
  then show ?thesis using t(1) ok len by (simp add: fc_open_file_def Let_def CLIENT_BUF_SIZE_def not_less)
qed

text \<open>A file that cannot be opened.\<close>

lemma remote_open_fails:
  assumes "client_env_good env" and "length (feError fenv) \<le> 1000" and "remote fc a" and "CHR 0x00 \<notin> set path" and "length path \<le> 4087"
    and "fst (file_step (Op_Open path t e) a) \<noteq> Ans_Ok"
  shows "\<exists>fc'. fc_open_file (file_net env fenv ses ver) path t e fc = Some (Inr (- 8, fc'))"
proof -
  let ?op = "Op_Open path t e" and ?mes = "client_open_data path t e"
  from open_file_talk [OF assms(1-5), of ses ver t e]
  obtain bs fc' where t: "fc_talk (file_net env fenv ses ver) CMM (External ?mes) (word_of_nat (length ?mes)) CX_FILE_OPEN_CODE CX_FILE_OPEN_REPLY_CODE fc =
      Some (Inr (if reply_code bs = 200 then 0 else - 6, packet_memory bs, fc'))" "reply_answer ?op bs = fst (file_step ?op a)" and len: "length ?mes \<le> 4096"
    by blast
  have "reply_code bs \<noteq> 200" using t(2) assms(6) by (simp add: reply_answer_def split: if_splits)
  then show ?thesis using t(1) len by (simp add: fc_open_file_def Let_def CLIENT_BUF_SIZE_def not_less)
qed

text \<open>Filling the send buffer of the data channel.\<close>

lemma set_send_size_good:
  assumes "client_env_good env" and "channel_idle c" and "unat (n + 56) = unat n + 56" and "4096 \<le> unat n" and "unat n + 56 < 2 ^ 31"
    and "tcSendLen c < n + 56"
  shows "\<exists>c'. set_send_buffer_size env n c = Inr (True, c') \<and> channel_idle c' \<and> unat (tcSendLen c') = unat n + 56"
proof -
  let ?m = "n + (word_of_nat sizeof_packet_data - 1)"
  have m: "?m = n + 56" by (simp add: sizes)
  have c: "client_wf c" "unpooled c" "env_wf env" using assms(1,2) by (simp_all add: channel_idle_def channel_good_def client_ready_def client_env_good_def)
  obtain b where b: "set_buffers env (tcUsePool c) ?m (tcSend c) = Inr (Some b)"
    using set_buffers_fresh [of env "tcSend c" ?m] assms(1) c(2) by (cases "tcSend c") (auto simp: client_env_good_def unpooled_def)
  let ?c = "c\<lparr>tcSend := Some b, tcSendLen := ?m, tcRealSendLen := ?m * 2, tcCacheSendLen := ?m * 2\<rparr>"
  have no: "\<not> (0 < ?m \<and> ?m \<le> tcSendLen c)" unfolding m using assms(6) leD by blast
  have set: "set_send_buffer_size env n c = Inr (True, ?c)" using b unfolding set_send_buffer_size_def Let_def if_not_P [OF no] by simp
  have wf: "client_wf ?c" by (rule set_send_buffer_size_wf [OF c(3,1) set])
  have "\<not> cbPool b" using b c(2) by (auto simp: unpooled_def set_buffers_def Let_def split: option.splits if_splits)
  then have "channel_idle ?c" using assms(2-5) wf m c(2)
    by (auto simp: channel_idle_def channel_good_def client_ready_def client_reading_def unpooled_def)
  then show ?thesis using set m assms(3) by auto
qed

lemma fill_send_buffer_good:
  assumes "client_env_good env" and "channel_idle c" and "length bs + 72 \<le> CX_MAX_CHACHE_SIZE" and "length head = 16" and "n = word_of_nat (length bs)"
  shows "\<exists>c'. fill_send_buffer env (External bs) n head c = Inr (True, c') \<and> channel_idle c' \<and>
    client_bytes c' (InSendBuffer 56) (length bs + 16) = head @ bs \<and> client_fits c' (InSendBuffer 56) (length bs + 16)"
proof -
  have len: "length bs \<le> 1048504" using assms(3) by (simp add: CX_MAX_CHACHE_SIZE_def)
  then have un: "unat n = length bs" unfolding assms(5) by (simp only: unat_of_nat) simp
  then have un16: "unat (n + 16) = length bs + 16" and un72: "unat (n + 16 + 56) = length bs + 72" using len by (simp_all add: unat_word_ariths)
  have big: "4152 \<le> unat (tcSendLen c)" "unat (tcSendLen c) < 2 ^ 31" using assms(2) by (simp_all add: channel_idle_def channel_good_def)
  have room: "unat (get_send_buffer_room c) = unat (tcSendLen c) - 56" using big by (simp add: get_send_buffer_room_def sizes unat_sub word_le_nat_alt)
  have "\<exists>c1. (if get_send_buffer_room c < n + 16 then set_send_buffer_size env (n + 16) c else Inr (True, c)) = Inr (True, c1) \<and> channel_idle c1 \<and>
      length bs + 72 \<le> unat (tcSendLen c1)"
  proof (cases "get_send_buffer_room c < n + 16")
    case True
    then have lt: "unat (tcSendLen c) - 56 < length bs + 16" using room un16 by (simp add: word_less_nat_alt)
    then have "tcSendLen c < n + 16 + 56" "4096 \<le> unat (n + 16)" using big un16 un72 by (simp_all add: word_less_nat_alt)
    then show ?thesis using set_send_size_good [OF assms(1,2), of "n + 16"] un16 un72 len True by auto
  next
    case False
    then have "\<not> unat (tcSendLen c) - 56 < length bs + 16" using room un16 by (simp add: word_less_nat_alt)
    then show ?thesis using assms(2) big False by auto
  qed
  then obtain c1 where c1: "(if get_send_buffer_room c < n + 16 then set_send_buffer_size env (n + 16) c else Inr (True, c)) = Inr (True, c1)"
      "channel_idle c1" "length bs + 72 \<le> unat (tcSendLen c1)" by blast
  have g: "client_wf c1" "channel_good c1" using c1(2) by (simp_all add: channel_idle_def channel_good_def client_ready_def)
  obtain b where b: "tcSend c1 = Some b" using g(2) by (auto simp: channel_good_def client_ready_def)
  then have lb: "length (cbMain b) = unat (tcSendLen c1)" using g(1) by (simp add: client_wf_def bufs_wf_def)
  let ?m = "memcpy (memcpy (cbMain b) 72 bs) 56 head"
  let ?c = "c1\<lparr>tcSend := Some (b\<lparr>cbMain := ?m\<rparr>)\<rparr>"
  have "put_at (cbMain b) (sizeof_packet_data - 1 + 16) (take (unat n) bs) = Inr (memcpy (cbMain b) 72 bs)"
      "put_at (memcpy (cbMain b) 72 bs) (sizeof_packet_data - 1) head = Inr ?m"
    using c1(3) lb un assms(4) by (simp_all add: put_at_def sizes)
  then have "fill_send_buffer env (External bs) n head c = Inr (True, ?c)" using c1(1) b by (simp add: fill_send_buffer_def)
  moreover have lm: "length ?m = unat (tcSendLen c1)" using c1(3) lb assms(4) by simp
  moreover have "channel_idle ?c" using c1(2) b lm
    by (auto simp: channel_idle_def channel_good_def client_ready_def client_reading_def client_wf_def bufs_wf_def left_wf_def unpooled_def)
  moreover have "take (length bs + 16) (drop 56 ?m) = head @ bs" using c1(3) lb assms(4) by (simp add: memcpy_def min_def)
  moreover have "client_fits ?c (InSendBuffer 56) (length bs + 16)"
    using c1(3) channel_good_real [OF g(2)] assms(3) by (simp add: client_fits_def sizes)
  ultimately show ?thesis by (auto simp: client_bytes_def)
qed

lemma remote_write:
  assumes "client_env_good env" and "length (feError fenv) \<le> 1000" and "remote fc a" and "length xs + 72 \<le> CX_MAX_CHACHE_SIZE"
    and "flsOpen a \<noteq> None" and "b = file_step (Op_Write xs) a"
  shows "\<exists>fc'. fc_write (file_net env fenv ses ver) (External xs) (word_of_nat (length xs)) 0 seek_current fc = Some (Inr (if fst b = Ans_Ok then 0 else - 6, fc')) \<and>
    remote fc' (if fst b = Ans_Ok then snd b else (snd b)\<lparr>flsOpen := None\<rparr>)"
proof -
  let ?op = "Op_Write xs" and ?n = "word_of_nat (length xs) :: u32" and ?w = "fcWorld fc"
  let ?head = "write_head seek_current 0 ?n"
  obtain v s where p: "cwPeer ?w = (v, s)" "file_sim v s a" and g: "channel_idle (tcp_of DATA ?w)" using assms(3) by (auto simp: remote_def)
  have len: "length xs \<le> 1048504" using assms(4) by (simp add: CX_MAX_CHACHE_SIZE_def)
  then have un: "unat ?n = length xs" by (simp only: unat_of_nat) simp
  then have un16: "unat (?n + 16) = length xs + 16" using len by (simp add: unat_word_ariths)
  have head: "?head @ xs = op_request ?op" by (simp add: write_head_def op_request_def write_request_def un)
  have lh: "length ?head = 16" by (simp add: write_head_def)
  obtain c where c: "fill_send_buffer env (External xs) ?n ?head (tcp_of DATA ?w) = Inr (True, c)" "channel_idle c"
      "client_bytes c (InSendBuffer 56) (length xs + 16) = ?head @ xs" "client_fits c (InSendBuffer 56) (length xs + 16)"
    using fill_send_buffer_good [OF assms(1) g assms(4) lh refl] by blast
  let ?fc = "fc\<lparr>fcWorld := set_tcp DATA c ?w\<rparr>"
  have r0: "remote ?fc a" by (rule remote_set_tcp [OF assms(3) c(2)])
  have opened: "flsOpen (snd (file_step ?op a)) \<noteq> None" using assms(5) by (auto simp: file_step_def split: option.splits)
  have isopen: "fcOpened fc" using assms(3,5) unfolding remote_def by blast
  have ch: "channel_good (tcp_of DATA (fcWorld ?fc))" "tcIn (tcp_of DATA (fcWorld ?fc)) = []" using c(2) by (simp_all add: channel_idle_def)
  have req: "op_ok ?op a" "op_code ?op = CX_FILE_WRITE_CODE" "op_reply ?op = CX_FILE_WRITE_REPLY_CODE" "plain_request ?op"
    using len by (simp_all add: op_ok_def op_code_def op_reply_def plain_request_def)
  have fits: "client_fits (tcp_of DATA (fcWorld ?fc)) (InSendBuffer (sizeof_packet_data - 1)) (unat (?n + 16))" using c(4) un16 by (simp add: sizes)
  have bytes: "client_bytes (tcp_of DATA (fcWorld ?fc)) (InSendBuffer (sizeof_packet_data - 1)) (unat (?n + 16)) = op_request ?op"
    using c(3) un16 head by (simp add: sizes)
  have peer: "cwPeer (fcWorld ?fc) = (v, s)" using p(1) by simp
  from fc_talk_good [OF assms(1) ch fits bytes peer p(2) req(1) assms(2) req(4), of ses ver]
  obtain bs c' v' s' where t: "fc_talk (file_net env fenv ses ver) DATA (InSendBuffer (sizeof_packet_data - 1)) (?n + 16) CX_FILE_WRITE_CODE CX_FILE_WRITE_REPLY_CODE ?fc =
      Some (Inr (if reply_code bs = 200 then 0 else - 6, packet_memory bs, ?fc\<lparr>fcWorld := (set_tcp DATA c' (fcWorld ?fc))\<lparr>cwPeer := (v', s')\<rparr>\<rparr>))"
      "channel_idle c'" "reply_answer ?op bs = fst (file_step ?op a)" "file_sim v' s' (snd (file_step ?op a))"
    unfolding req(2,3) channel_idle_def by blast
  have code: "reply_code bs = 200 \<longleftrightarrow> fst b = Ans_Ok" using t(3) assms(6) by (auto simp: reply_answer_def split: if_splits)
  let ?fc2 = "?fc\<lparr>fcWorld := (set_tcp DATA c' (fcWorld ?fc))\<lparr>cwPeer := (v', s')\<rparr>\<rparr>"
  have r2: "remote ?fc2 (snd b)"
    using remote_step(2) [OF r0 _ t(2,4), of DATA "fcOpened ?fc"] isopen opened assms(6) by simp
  have env: "netEnv (file_net env fenv ses ver) (cwPeer ?w) = env" by (simp add: file_net_def)
  obtain fc3 where fc3: "fc_fail (file_net env fenv ses ver) (- 6) ?fc2 = Some (Inr (- 6, fc3))" "remote fc3 ((snd b)\<lparr>flsOpen := None\<rparr>)"
    using remote_fail [OF assms(1,2) r2] by blast
  show ?thesis using isopen c(1) t(1) code env r2 fc3 by (cases "fst b = Ans_Ok") (simp_all add: fc_write_def Let_def)
qed

text \<open>Reading: eight bytes of the reply, then its data into the memory of the caller.\<close>

lemma fc_read_request:
  assumes "client_env_good env" and "length (feError fenv) \<le> 1000" and "remote fc a" and "op_ok (Op_Read n) a" and "fcOpened fc" and "n = unat want"
  shows "\<exists>bs c v' s'. fc_read (file_net env fenv ses ver) want prior fc =
      fc_read_reply (file_net env fenv ses ver) want prior (packet_memory (take 8 bs)) (fc\<lparr>fcWorld := (set_tcp DATA c (fcWorld fc))\<lparr>cwPeer := (v', s')\<rparr>\<rparr>) \<and>
    length bs = reply_u32 4 bs + 8 \<and> reply_answer (Op_Read n) bs = fst (file_step (Op_Read n) a) \<and> file_sim v' s' (snd (file_step (Op_Read n) a)) \<and>
    (fst (file_step (Op_Read n) a) = Ans_End \<longrightarrow> reply_u32 4 bs = length (feError fenv) + 1) \<and> channel_idle c \<and>
    (8 < length bs \<and> length bs - 8 \<le> n \<longrightarrow> (\<exists>c'. tc_read_left_data n c = Inr (True, drop 8 bs, Some (word_of_nat (length bs - 8)), c') \<and> channel_idle c'))"
proof -
  let ?op = "Op_Read n" and ?w = "fcWorld fc" and ?net = "file_net env fenv ses ver" and ?mes = "client_read_data want"
  obtain v s where p: "cwPeer ?w = (v, s)" "file_sim v s a" and g: "channel_good (tcp_of DATA ?w)" "tcIn (tcp_of DATA ?w) = []"
    using assms(3) by (auto simp: remote_def channel_idle_def)
  have wf: "client_wf (tcp_of DATA ?w)" "env_wf env" using g assms(1) by (simp_all add: channel_good_def client_ready_def client_env_good_def)
  have mes: "?mes = op_request ?op" by (simp add: client_read_data_def op_request_def read_request_def assms(6))
  obtain req bs v' s' where q: "file_peer fenv ses ver (wire (client_packet (cliGuid env) (op_code ?op) (op_request ?op) (tcp_of DATA ?w))) (v, s) =
      (wire (reply_packet req (op_reply ?op) bs), v', s')" "32 \<le> length req" "8 \<le> length bs" "length bs \<le> 1024 * 10240 + 1024"
      "length bs = reply_u32 4 bs + 8" "reply_answer ?op bs = fst (file_step ?op a)" "file_sim v' s' (snd (file_step ?op a))"
      "fst (file_step ?op a) = Ans_End \<longrightarrow> reply_u32 4 bs = length (feError fenv) + 1"
    using file_peer_answers [OF wf p(2) assms(4,2), of ses ver] by auto
  have nb: "n \<le> 1024 * 10240" using assms(4) by (simp add: op_ok_def)
  have fits: "client_fits (tcp_of DATA ?w) (External ?mes) (unat (16 :: u32))"
    using external_fits [OF g(1), of ?mes 16] by (simp add: client_read_data_def)
  have bytes: "client_bytes (tcp_of DATA ?w) (External ?mes) (unat (16 :: u32)) = op_request ?op" by (simp add: client_bytes_def mes) (simp add: op_request_def read_request_def)
  have net: "netEnv ?net = (\<lambda>p. env)" by (simp add: file_net_def)
  have react: "netReact ?net DATA (wire (client_packet (cliGuid env) (op_code ?op) (client_bytes (tcp_of DATA ?w) (External ?mes) (unat (16 :: u32))) (tcp_of DATA ?w))) (cwPeer ?w) =
      (wire (reply_packet req (op_reply ?op) bs), v', s')"
    unfolding bytes using q(1) p(1) by (simp add: file_net_def)
  from channel_send_plain [OF assms(1) net g fits react]
  obtain c1 where c1: "channel_send ?net DATA (External ?mes) 16 CX_FILE_READ_CODE ?w = Some (Inr (0, (set_tcp DATA c1 ?w)\<lparr>cwPeer := (v', s')\<rparr>))"
      "channel_good c1" "tcIn c1 = wire (reply_packet req (op_reply ?op) bs)" by (auto simp: op_code_def)
  let ?w1 = "(set_tcp DATA c1 ?w)\<lparr>cwPeer := (v', s')\<rparr>"
  have room: "recv_room env (want + 8) c1" and rd: "client_reading c1"
    using assms(1) c1(2) by (auto simp: recv_room_def client_env_good_def channel_good_def unpooled_def split: option.splits)
  have small: "want + 8 \<le> 1024 * 1024 * 1024"
    using nb assms(6) by (simp add: word_le_nat_alt unat_word_ariths)
  obtain c2 where c2: "set_recv_buffer_size env (want + 8) c1 = Inr (True, c2)" "client_reading c2" "tcIn c2 = tcIn c1" "send_side c2 = send_side c1" "unpooled c1 \<longrightarrow> unpooled c2"
    using set_recv_buffer_size_room [OF room small wf(2) rd, of "[]"] by blast
  have g2: "channel_good c2" using c1(2) c2(2,4,5) by (auto simp: channel_good_def client_ready_def client_reading_def send_side_def)
  let ?w2 = "set_tcp DATA c2 ?w1"
  have t2: "tcp_of DATA ?w2 = c2" by simp
  have ne: "bs \<noteq> []" and in2: "tcIn c2 = wire (reply_packet req (op_reply ?op) bs)" using q(3) c2(3) c1(3) by auto
  from channel_recv_plain [OF assms(1) net, of ?w2 DATA req "op_reply ?op" bs 8 n, unfolded t2, OF g2 in2 q(4,2) ne]
  obtain c3 where c3: "channel_recv ?net DATA 8 ?w2 = Some (Inr (if 8 < length bs then - 8 else 0, take 8 bs, op_reply ?op, set_tcp DATA c3 ?w2))"
      "channel_idle c3"
      "8 < length bs \<and> length bs - 8 \<le> n \<longrightarrow> (\<exists>c'. tc_read_left_data n c3 = Inr (True, drop 8 bs, Some (word_of_nat (length bs - 8)), c') \<and> channel_idle c')"
    unfolding channel_idle_def by blast
  have "fc_read ?net want prior fc =
      fc_read_reply ?net want prior (packet_memory (take 8 bs)) (fc\<lparr>fcWorld := (set_tcp DATA c3 ?w)\<lparr>cwPeer := (v', s')\<rparr>\<rparr>)"
    using assms(5) c1(1) c2(1) c3(1) net by (simp add: fc_read_def Let_def op_reply_def)
  then show ?thesis using q(5-8) c3(2,3) by blast
qed

text \<open>The first words of the reply.\<close>

lemma read_reply_fields:
  assumes "length bs = reply_u32 4 bs + 8" and "reply_u32 4 bs = unat k"
  shows "field (packet_memory (take 8 bs)) 0 = reply_code bs" "field (packet_memory (take 8 bs)) 4 = k"
proof -
  have l8: "8 \<le> length bs" using assms(1) by linarith
  have "reply_u32 0 (take 8 bs) = reply_u32 0 bs" "reply_u32 4 (take 8 bs) = reply_u32 4 bs" using l8 by (simp_all add: reply_u32_def drop_take)
  moreover have "word_of_nat (reply_u32 4 bs) = k" unfolding assms(2) by simp
  ultimately show "field (packet_memory (take 8 bs)) 0 = reply_code bs" "field (packet_memory (take 8 bs)) 4 = k"
    using l8 by (simp_all add: field_memory reply_code_u32)
qed

lemma fc_read_good:
  assumes "client_env_good env" and "length (feError fenv) \<le> 1000" and "remote fc a" and "op_ok (Op_Read n) a" and "fcOpened fc" and "n = unat want"
    and "fst (file_step (Op_Read n) a) = Ans_Data xs"
  shows "\<exists>fc'. fc_read (file_net env fenv ses ver) want prior fc = Some (Inr (0, xs, want, fc')) \<and> remote fc' (snd (file_step (Op_Read n) a))"
proof -
  let ?op = "Op_Read n" and ?w = "fcWorld fc"
  from fc_read_request [OF assms(1-6), of ses ver prior]
  obtain bs c v' s' where q: "fc_read (file_net env fenv ses ver) want prior fc =
      fc_read_reply (file_net env fenv ses ver) want prior (packet_memory (take 8 bs)) (fc\<lparr>fcWorld := (set_tcp DATA c ?w)\<lparr>cwPeer := (v', s')\<rparr>\<rparr>)"
      "length bs = reply_u32 4 bs + 8" "reply_answer ?op bs = fst (file_step ?op a)" "file_sim v' s' (snd (file_step ?op a))"
      "8 < length bs \<and> length bs - 8 \<le> n \<longrightarrow> (\<exists>c'. tc_read_left_data n c = Inr (True, drop 8 bs, Some (word_of_nat (length bs - 8)), c') \<and> channel_idle c')"
    by blast
  have data: "reply_code bs = 200" "drop 8 bs = xs"
    using q(2,3) assms(7) by (auto simp: reply_answer_def split: if_splits)
  have lx: "length xs = n" "0 < n" using assms(4,7) by (auto simp: file_step_def op_ok_def Let_def split: option.splits if_splits)
  then have lb: "length bs = n + 8" using data(2) q(2) by auto
  then obtain c' where c': "tc_read_left_data n c = Inr (True, xs, Some want, c')" "channel_idle c'"
    using q(5) lx(2) data(2) assms(6) by auto
  have f: "field (packet_memory (take 8 bs)) 0 = 200" "field (packet_memory (take 8 bs)) 4 = want"
    using read_reply_fields [OF q(2), of want] lb q(2) assms(6) data(1) by simp_all
  let ?fc = "fc\<lparr>fcWorld := (set_tcp DATA c' ?w)\<lparr>cwPeer := (v', s')\<rparr>\<rparr>"
  have "flsOpen (snd (file_step ?op a)) \<noteq> None" using assms(7) by (auto simp: file_step_def Let_def split: option.splits if_splits)
  then have "remote ?fc (snd (file_step ?op a))" using remote_step(2) [OF assms(3) _ c'(2) q(4), of DATA "fcOpened fc"] assms(5) by simp
  moreover have "fc_read_reply (file_net env fenv ses ver) want prior (packet_memory (take 8 bs)) (fc\<lparr>fcWorld := (set_tcp DATA c ?w)\<lparr>cwPeer := (v', s')\<rparr>\<rparr>) =
      Some (Inr (0, xs, want, ?fc))"
    using f c'(1) lx assms(6) by (simp add: fc_read_reply_def Let_def read_code_def word_gt_0 unat_eq_zero [symmetric])
  ultimately show ?thesis using q(1) by auto
qed

text \<open>
  A short block, and the end of the file, whose answer carries the text of an error.  The file is closed.
\<close>

lemma fc_read_odd:
  assumes "client_env_good env" and "length (feError fenv) \<le> 1000" and "remote fc a" and "op_ok (Op_Read n) a" and "fcOpened fc" and "n = unat want"
    and "b = file_step (Op_Read n) a" and "k = (case fst b of Ans_Short xs \<Rightarrow> length xs | _ \<Rightarrow> length (feError fenv) + 1)"
    and "(\<exists>xs. fst b = Ans_Short xs) \<or> fst b = Ans_End" and "k \<noteq> n"
  shows "\<exists>out m fc'. fc_read (file_net env fenv ses ver) want prior fc = Some (Inr (if n < k then - 7 else - 12, out, m, fc')) \<and>
    (\<forall>xs. fst b = Ans_Short xs \<longrightarrow> out = xs) \<and> remote fc' ((snd b)\<lparr>flsOpen := None\<rparr>)"
proof -
  let ?op = "Op_Read n" and ?w = "fcWorld fc" and ?net = "file_net env fenv ses ver"
  from fc_read_request [OF assms(1-6), of ses ver prior]
  obtain bs c v' s' where q: "fc_read ?net want prior fc =
      fc_read_reply ?net want prior (packet_memory (take 8 bs)) (fc\<lparr>fcWorld := (set_tcp DATA c ?w)\<lparr>cwPeer := (v', s')\<rparr>\<rparr>)"
      "length bs = reply_u32 4 bs + 8" "reply_answer ?op bs = fst b" "file_sim v' s' (snd b)" "fst b = Ans_End \<longrightarrow> reply_u32 4 bs = length (feError fenv) + 1"
      "channel_idle c"
      "8 < length bs \<and> length bs - 8 \<le> n \<longrightarrow> (\<exists>c'. tc_read_left_data n c = Inr (True, drop 8 bs, Some (word_of_nat (length bs - 8)), c') \<and> channel_idle c')"
    unfolding assms(7) by blast
  have short: "xs \<noteq> [] \<and> length xs < n" if "fst b = Ans_Short xs" for xs
    using that assms(7) by (auto simp: file_step_def Let_def split: option.splits if_splits)
  have k: "reply_u32 4 bs = k" "0 < k" "reply_code bs \<in> {204, 205}" "\<forall>xs. fst b = Ans_Short xs \<longrightarrow> drop 8 bs = xs"
    using q(2,3,5) assms(8,9) short by (auto simp: reply_answer_def split: if_splits)
  have kn: "k \<le> 1024 * 10240" using assms(2,4,8,9) short by (fastforce simp: op_ok_def)
  have uk: "unat (word_of_nat k :: u32) = k" using kn by (simp only: unat_of_nat) simp
  have f: "field (packet_memory (take 8 bs)) 0 = reply_code bs" "field (packet_memory (take 8 bs)) 4 = word_of_nat k"
    using read_reply_fields [OF q(2), of "word_of_nat k"] k(1) uk by simp_all
  have opened: "flsOpen (snd b) \<noteq> None" using assms(7,9) by (auto simp: file_step_def Let_def split: option.splits if_splits)
  have rem: "remote (fc\<lparr>fcWorld := (set_tcp DATA c' ?w)\<lparr>cwPeer := (v', s')\<rparr>\<rparr>) (snd b)" if "channel_idle c'" for c'
    using remote_step(2) [OF assms(3) _ that q(4), of DATA "fcOpened fc"] assms(5) opened by simp
  have less: "want < word_of_nat k \<longleftrightarrow> n < k" "(0 :: u32) < word_of_nat k" using uk assms(6) k(2) by (simp_all add: word_less_nat_alt)
  show ?thesis
  proof (cases "n < k")
    case True
    obtain fc' where fc': "fc_fail ?net (- 7) (fc\<lparr>fcWorld := (set_tcp DATA c ?w)\<lparr>cwPeer := (v', s')\<rparr>\<rparr>) = Some (Inr (- 7, fc'))"
        "remote fc' ((snd b)\<lparr>flsOpen := None\<rparr>)"
      using remote_fail [OF assms(1,2) rem [OF q(6)]] by blast
    have "\<forall>xs. fst b \<noteq> Ans_Short xs" using short True assms(8) by fastforce
    moreover have "fc_read ?net want prior fc = Some (Inr (- 7, [], prior, fc'))"
      unfolding q(1) using k(3) f less(1) True fc'(1) by (auto simp: fc_read_reply_def)
    ultimately show ?thesis using True fc'(2) by auto
  next
    case False
    obtain c' where c': "tc_read_left_data n c = Inr (True, drop 8 bs, Some (word_of_nat k), c')" "channel_idle c'"
      using q(2,7) k(1,2) False by auto
    obtain fc' where fc': "fc_fail ?net (- 12) (fc\<lparr>fcWorld := (set_tcp DATA c' ?w)\<lparr>cwPeer := (v', s')\<rparr>\<rparr>) = Some (Inr (- 12, fc'))"
        "remote fc' ((snd b)\<lparr>flsOpen := None\<rparr>)"
      using remote_fail [OF assms(1,2) rem [OF c'(2)]] by blast
    have "want \<noteq> word_of_nat k" using uk assms(6,10) by auto
    then have "fc_read ?net want prior fc = Some (Inr (- 12, drop 8 bs, word_of_nat k, fc'))"
      unfolding q(1) using k(3) f less False c'(1) assms(6) fc'(1) by (auto simp: fc_read_reply_def)
    then show ?thesis using False fc'(2) k(4) by auto
  qed
qed

lemma remote_length:
  assumes "client_env_good env" and "length (feError fenv) \<le> 1000" and "remote fc a" and "op_ok Op_Length a" and "fst (file_step Op_Length a) = Ans_Size n" and "n < 2 ^ 64"
  shows "\<exists>fc'. fc_length (file_net env fenv ses ver) fc = Some (Inr (0, Some (word_of_nat n), fc')) \<and> remote fc' (snd (file_step Op_Length a))"
proof -
  let ?op = "Op_Length" and ?w = "fcWorld fc"
  obtain v s where p: "cwPeer ?w = (v, s)" "file_sim v s a" and g: "channel_good (tcp_of CMM ?w)" "tcIn (tcp_of CMM ?w) = []"
    using assms(3) by (auto simp: remote_def channel_idle_def)
  have req: "op_request ?op = replicate 12 0" "op_code ?op = CX_FILE_GET_LENGTH_CODE" "op_reply ?op = CX_FILE_GET_LENGTH_REPLY_CODE" "plain_request ?op"
    by (simp_all add: op_request_def op_code_def op_reply_def plain_request_def)
  have fits: "client_fits (tcp_of CMM ?w) (External (replicate 12 0)) (unat (word_of_nat (length (replicate 12 (0 :: byte))) :: u32))"
    using external_fits [OF g(1), of "replicate 12 0" 12] by simp
  have bytes: "client_bytes (tcp_of CMM ?w) (External (replicate 12 0)) (unat (word_of_nat (length (replicate 12 (0 :: byte))) :: u32)) = op_request ?op"
    by (simp add: client_bytes_def req)
  from fc_talk_good [OF assms(1) g fits bytes p(1,2) assms(4,2) req(4), of ses ver]
  obtain bs c v' s' where t: "fc_talk (file_net env fenv ses ver) CMM (External (replicate 12 0)) (word_of_nat (length (replicate 12 (0 :: byte)))) CX_FILE_GET_LENGTH_CODE CX_FILE_GET_LENGTH_REPLY_CODE fc =
      Some (Inr (if reply_code bs = 200 then 0 else - 6, packet_memory bs, fc\<lparr>fcWorld := (set_tcp CMM c ?w)\<lparr>cwPeer := (v', s')\<rparr>\<rparr>))"
      "channel_idle c" "16 \<le> length bs" "reply_answer ?op bs = fst (file_step ?op a)" "file_sim v' s' (snd (file_step ?op a))"
    unfolding req(2,3) channel_idle_def by blast
  have ok: "reply_code bs = 200" "reply_u32 4 bs * 2 ^ 32 + reply_u32 8 bs = n" using t(4) assms(5) by (auto simp: reply_answer_def split: if_splits)
  have "le_dec ys < 2 ^ 32" if "length ys \<le> 4" for ys using le_dec_bound [of ys] power_increasing [OF that, of "256 :: nat"] by simp
  then have lt: "reply_u32 k bs < 2 ^ 32" for k by (simp add: reply_u32_def)
  then have u: "unat (word_of_nat (reply_u32 k bs) :: u32) = reply_u32 k bs" for k by (simp only: unat_of_nat) simp
  have v: "value64 (packet_memory bs) = word_of_nat n" using t(3) ok(2) u by (simp add: value64_def field_memory)
  have opened: "flsOpen a \<noteq> None" "snd (file_step ?op a) = a" using assms(5) by (auto simp: file_step_def split: option.splits)
  have fo: "fcOpened fc" using opened(1) assms(3) unfolding remote_def by blast
  have "remote (fc\<lparr>fcWorld := (set_tcp CMM c ?w)\<lparr>cwPeer := (v', s')\<rparr>\<rparr>) a"
    using remote_step(2) [OF assms(3) _ t(2), of CMM v' s' a "fcOpened fc"] t(5) opened fo by simp
  then show ?thesis using fo t(1) ok(1) v opened(2) by (simp add: fc_length_def fc_command_def)
qed

end
