(* ===== verification/Remote_Login.thy ===== *)
theory Remote_Login imports Main Remote_File begin

text \<open>
  A new client of files on the network of \<open>Remote_File\<close>: its channels connect and log in, and it is the file of the server.
\<close>

section \<open>Logging in\<close>

text \<open>The identifiers that the server gives: texts without carriage returns.\<close>

definition session_texts :: "string \<Rightarrow> string \<Rightarrow> bool" where
  "session_texts ses ver \<longleftrightarrow> ses \<noteq> [] \<and> ver \<noteq> [] \<and> length ses \<le> 128 \<and> length ver \<le> 256 \<and> CR \<notin> set ses \<and> CHR 0x00 \<notin> set ses \<and> CHR 0x00 \<notin> set ver"

lemma byte_of_char_cr: "(word_of_nat (of_char c) :: byte) = 13 \<Longrightarrow> c = CHR 0x0D"
proof -
  assume "(word_of_nat (of_char c) :: byte) = 13"
  then have "char_of (13 :: nat) = c" using char_byte [of c] by simp
  moreover have "char_of (13 :: nat) = CHR 0x0D" by (simp add: char_of_def bit_0)
  ultimately show "c = CHR 0x0D" by simp
qed

lemma login_ids_answer:
  assumes "session_texts ses ver"
  shows "login_ids (packet_memory (login_answer ses ver)) = Inr (ses, ver)" "field (packet_memory (login_answer ses ver)) 0 = 200"
    "length (login_answer ses ver) \<le> 1024" "login_answer ses ver \<noteq> []"
proof -
  let ?t = "ses @ [CR] @ ver" and ?n = "length ses + length ver + 2"
  have len: "length ses \<le> 128" "length ver \<le> 256" using assms by (simp_all add: session_texts_def)
  have b: "login_answer ses ver = le_enc 4 200 @ le_enc 4 0 @ le_enc 4 0 @ le_enc 4 ?n @ text_bytes ?t @ [0]"
  proof -
    have "unat (word_of_nat (length ?t + 1) :: u32) = ?n" using len by (simp only: unat_of_nat) simp
    moreover have "take (length ?t + 1) (text_bytes ?t @ replicate 1024 0) = text_bytes ?t @ [0]"
      by (simp add: text_bytes_def take_Cons')
    ultimately show ?thesis by (simp add: login_answer_def common_reply_bytes_def text_reply_def common_reply_new_def del: append_assoc)
  qed
  show "length (login_answer ses ver) \<le> 1024" "login_answer ses ver \<noteq> []" using len unfolding b by (simp_all add: text_bytes_def)
  show "field (packet_memory (login_answer ses ver)) 0 = 200" unfolding b by (simp add: field_def packet_memory_def le_dec_enc)
  let ?z = "replicate (4096 - (17 + length ?t)) 0 :: byte list"
  let ?d = "text_bytes ses @ 13 # text_bytes ver @ 0 # ?z"
  have d: "drop 16 (packet_memory (login_answer ses ver)) = ?d"
    unfolding b packet_memory_def by (simp add: text_bytes_def CLIENT_BUF_SIZE_def CR_def)
  have f: "field (packet_memory (login_answer ses ver)) 12 = word_of_nat ?n"
    using len unfolding b packet_memory_def field_def by (simp add: le_dec_enc)
  have ne: "x \<noteq> 0 \<and> x \<noteq> 13" if "x \<in> set (text_bytes ses)" for x
  proof -
    obtain c where c: "c \<in> set ses" "x = word_of_nat (of_char c)" using \<open>x \<in> set (text_bytes ses)\<close> by (auto simp: text_bytes_def)
    then have "c \<noteq> CHR 0x00" "c \<noteq> CHR 0x0D" using assms by (auto simp: session_texts_def CR_def)
    then show ?thesis using byte_of_char_zero [of c] byte_of_char_cr [of c] c(2) by auto
  qed
  then have k: "takeWhile (\<lambda>b. b \<noteq> 0 \<and> b \<noteq> 13) ?d = text_bytes ses" by (simp add: takeWhile_append)
  have "word_of_nat ?n - 1 = (word_of_nat (length ses + length ver + 1) :: u32)" by simp
  moreover have "\<not> (word_of_nat (length ses + length ver + 1) :: u32) < word_of_nat (length ses)"
  proof -
    have "unat (word_of_nat (length ses + length ver + 1) :: u32) = length ses + length ver + 1" "unat (word_of_nat (length ses) :: u32) = length ses"
      using len by (simp_all only: unat_of_nat) simp_all
    then show ?thesis by (simp add: word_less_nat_alt)
  qed
  ultimately have lt: "\<not> field (packet_memory (login_answer ses ver)) 12 - 1 < word_of_nat (length ses)" unfolding f by simp
  have ls: "length (text_bytes ses) = length ses" by (simp add: text_bytes_def)
  have ver: "c_string (text_bytes ver @ 0 # ?z) = ver" unfolding text_bytes_def by (rule c_string_text) (use assms in \<open>simp add: session_texts_def\<close>)
  have ses: "map (\<lambda>b. char_of (unat b)) (text_bytes ses) = ses" by (simp add: text_bytes_def char_byte comp_def)
  show "login_ids (packet_memory (login_answer ses ver)) = Inr (ses, ver)"
    unfolding login_ids_def d k Let_def ls using lt ls ver ses by (simp add: nth_append)
qed

section \<open>Connecting\<close>

lemma length_guid_bytes [simp]: "length (guid_bytes s) = CX_GUID_LEN"
  by (simp add: guid_bytes_def Let_def CX_GUID_LEN_def length_concat comp_def)

lemma created_good:
  assumes "client_env_good env" and "length g = CX_GUID_LEN"
  shows "\<exists>c. tc_create env False (- 1) True (tc_set_object_id g tcp_client_new) = Inr (0, c) \<and> tcCreated c \<and> tcOpen c \<and> \<not> tcConnected c \<and>
    channel_idle (c\<lparr>tcConnected := True\<rparr>)"
proof -
  let ?old = "tc_set_object_id g tcp_client_new" and ?m = "4152 :: u32" and ?n = "4096 + (word_of_nat sizeof_body - 1) :: u32"
  have env: "env_wf env" "\<forall>k. cliFresh env k \<noteq> None" using assms(1) by (simp_all add: client_env_good_def)
  obtain b1 where b1: "set_buffers env False ?m None = Inr (Some b1)" using set_buffers_fresh [OF env(2), of None ?m] by auto
  obtain b2 where b2: "set_buffers env False ?n None = Inr (Some b2)" using set_buffers_fresh [OF env(2), of None ?n] by auto
  note w1 = set_buffers_wf [OF env(1) b1] and w2 = set_buffers_wf [OF env(1) b2]
  have pool: "\<not> cbPool b1" "\<not> cbPool b2" using b1 b2 by (auto simp: set_buffers_def Let_def split: option.splits)
  let ?c1 = "?old\<lparr>tcSend := Some b1, tcSendLen := ?m, tcRealSendLen := ?m * 2, tcCacheSendLen := ?m * 2\<rparr>"
  let ?c2 = "?c1\<lparr>tcRecv := Some b2, tcRecvLen := ?n, tcParserLen := ?n * 2, tcCacheRecvLen := ?n * 2\<rparr>"
  have s1: "set_send_buffer_size env CLIENT_BUF_SIZE ?old = Inr (True, ?c1)"
    using b1 by (simp add: set_send_buffer_size_def Let_def CLIENT_BUF_SIZE_def sizes tc_set_object_id_def tcp_client_new_def)
  have s2: "set_recv_buffer_size env CLIENT_BUF_SIZE ?c1 = Inr (True, ?c2)"
    using b2 by (simp add: set_recv_buffer_size_def Let_def CLIENT_BUF_SIZE_def sizes tc_set_object_id_def tcp_client_new_def)
  let ?c = "?c2\<lparr>tcOpen := True, tcCreated := True\<rparr>"
  have "tc_create env False (- 1) True ?old = Inr (0, ?c)" using s1 s2 by (simp add: tc_create_def Let_def)
  moreover have "channel_idle (?c\<lparr>tcConnected := True\<rparr>)"
    using w1 w2 pool assms(2) by (auto simp: channel_idle_def channel_good_def client_ready_def client_reading_def client_wf_def left_wf_def unpooled_def
      tc_set_object_id_def tcp_client_new_def CX_GUID_LEN_def)
  moreover have "tcCreated ?c" "tcOpen ?c" "\<not> tcConnected ?c" by (simp_all add: tc_set_object_id_def tcp_client_new_def)
  ultimately show ?thesis by blast
qed

lemma connect_good:
  assumes "client_env_good env" and "tcp_of i w = tc_set_object_id g tcp_client_new" and "length g = CX_GUID_LEN"
  shows "\<exists>c. channel_connect (file_net env fenv ses ver) i w = Inr (0, set_tcp i c w) \<and> channel_idle c"
proof -
  obtain c where c: "tc_create env False (- 1) True (tc_set_object_id g tcp_client_new) = Inr (0, c)" "tcCreated c" "tcOpen c" "\<not> tcConnected c"
      "channel_idle (c\<lparr>tcConnected := True\<rparr>)"
    using created_good [OF assms(1,3)] by blast
  have "channel_connect (file_net env fenv ses ver) i w = Inr (0, set_tcp i (c\<lparr>tcConnected := True\<rparr>) w)"
    using c(1-4) assms(2) by (simp add: channel_connect_def file_net_def tc_connect_def)
  then show ?thesis using c(5) by blast
qed

section \<open>The login\<close>

lemma login_good:
  assumes "client_env_good env" and "session_texts ses ver" and "channel_idle (tcp_of i w)"
    and "user \<noteq> []" "length user \<le> 128" "password \<noteq> []" "length password \<le> 256" and "length (chLoginGuid (cwChannels w i)) = CX_GUID_LEN"
  shows "\<exists>c. channel_login (file_net env fenv ses ver) i user password 1 1 w = Some (Inr (0, on_channel i (\<lambda>ch. ch\<lparr>chTcp := c,
      chSession := if chType ch = MAJOR_MES then ses else chSession ch, chVerify := if chType ch = MAJOR_MES then ver else chVerify ch\<rparr>) w)) \<and> channel_idle c"
proof -
  let ?net = "file_net env fenv ses ver" and ?ch = "cwChannels w i" and ?ans = "login_answer ses ver"
  let ?mes = "login_request (chType ?ch) 1 1 user password" and ?w = "channel_object_id i (chLoginGuid ?ch) w"
  let ?c = "tcp_of i ?w"
  have env: "env_wf env" using assms(1) by (simp add: client_env_good_def)
  have c: "channel_idle ?c" using channel_idle_object_id [OF assms(3,8)] by (simp add: channel_object_id_def)
  then have g: "channel_good ?c" "tcIn ?c = []" "client_wf ?c" by (simp_all add: channel_idle_def channel_good_def client_ready_def)
  have len: "length ?mes \<le> 1024" using assms(5,7) by (simp add: login_request_def login_bytes_def text_bytes_def)
  then have un: "unat (word_of_nat (length ?mes) :: u32) = length ?mes" by (simp only: unat_of_nat) simp
  have fits: "client_fits ?c (External ?mes) (unat (word_of_nat (length ?mes) :: u32))"
    unfolding un by (rule external_fits [OF g(1) refl]) (use len in simp)
  let ?p = "client_packet (cliGuid env) CX_SESSION_LOGIN_CODE ?mes ?c"
  note p = client_packet_simps [OF g(3) env, of CX_SESSION_LOGIN_CODE ?mes]
  note ids = login_ids_answer [OF assms(2)]
  have bytes: "client_bytes ?c (External ?mes) (unat (word_of_nat (length ?mes) :: u32)) = ?mes" unfolding un by (simp add: client_bytes_def)
  have "netReact ?net i (wire (client_packet (cliGuid env) CX_SESSION_LOGIN_CODE (client_bytes ?c (External ?mes) (unat (word_of_nat (length ?mes) :: u32))) ?c)) (cwPeer ?w) =
      (wire (reply_packet (snd ?p) CX_SESSION_LOGIN_REPLY_CODE ?ans), cwPeer ?w)"
    unfolding bytes using p(1,3) by (simp add: file_net_def file_peer_def Let_def sizes)
  from channel_send_plain [OF assms(1) _ g(1,2) fits this]
  obtain c1 where c1: "channel_send ?net i (External ?mes) (word_of_nat (length ?mes)) CX_SESSION_LOGIN_CODE ?w = Some (Inr (0, set_tcp i c1 ?w))"
      "channel_good c1" "tcIn c1 = wire (reply_packet (snd ?p) CX_SESSION_LOGIN_REPLY_CODE ?ans)"
    by (auto simp: file_net_def set_tcp_def on_channel_def)
  have t: "tcp_of i (set_tcp i c1 ?w) = c1" by simp
  have net: "netEnv ?net = (\<lambda>p. env)" by (simp add: file_net_def)
  have "32 \<le> length (snd ?p)" "length ?ans \<le> 1024 * 10240 + 1024" using p(4) ids(3) by simp_all
  from channel_recv_plain [OF assms(1) net, of "set_tcp i c1 ?w" i "snd ?p" CX_SESSION_LOGIN_REPLY_CODE ?ans "unat CLIENT_BUF_SIZE" 0, unfolded t,
      OF c1(2,3) this(2,1) ids(4)]
  obtain c2 where c2: "channel_recv ?net i (unat CLIENT_BUF_SIZE) (set_tcp i c1 ?w) = Some (Inr (0, ?ans, CX_SESSION_LOGIN_REPLY_CODE, set_tcp i c2 (set_tcp i c1 ?w)))"
      "channel_idle c2"
    using ids(3) by (auto simp: CLIENT_BUF_SIZE_def channel_idle_def)
  let ?c3 = "tc_set_object_id (tcObjectID (tcp_of i w)) c2"
  have w3: "channel_object_id i (tcObjectID (tcp_of i w)) (set_tcp i c2 (set_tcp i c1 ?w)) = set_tcp i ?c3 w"
    by (simp add: channel_object_id_def set_tcp_def on_channel_def)
  have "channel_idle ?c3" using c2(2) assms(3)
    by (intro channel_idle_object_id) (simp_all add: channel_idle_def channel_good_def client_ready_def client_wf_def)
  moreover have "login_reply i ?ans CX_SESSION_LOGIN_REPLY_CODE (set_tcp i ?c3 w) = Inr (0, on_channel i (\<lambda>ch. ch\<lparr>chTcp := ?c3,
      chSession := if chType ch = MAJOR_MES then ses else chSession ch, chVerify := if chType ch = MAJOR_MES then ver else chVerify ch\<rparr>) w)"
    using ids(1,2) by (simp add: login_reply_def Let_def) (simp add: set_tcp_def on_channel_def)
  moreover have "channel_login ?net i user password 1 1 w = Some (login_reply i ?ans CX_SESSION_LOGIN_REPLY_CODE (set_tcp i ?c3 w))"
    using assms(4-7) c1(1) c2(1) w3 by (simp add: channel_login_def Let_def)
  ultimately show ?thesis by auto
qed

section \<open>Opening the channels\<close>

definition login_text :: "nat \<Rightarrow> string \<Rightarrow> bool" where
  "login_text k s \<longleftrightarrow> s \<noteq> [] \<and> length s \<le> k"

text \<open>A channel that has not been connected yet.\<close>

definition channel_fresh :: "channel \<Rightarrow> bool" where
  "channel_fresh ch \<longleftrightarrow> (\<exists>g. chTcp ch = tc_set_object_id g tcp_client_new \<and> length g = CX_GUID_LEN) \<and> \<not> chOpened ch \<and> length (chLoginGuid ch) = CX_GUID_LEN"

lemma open_channel_good:
  assumes "client_env_good env" and "session_texts ses ver" and "channel_fresh (cwChannels w i)"
    and "if chType (cwChannels w i) = MAJOR_MES then login_text 128 (chUser (cwChannels w i)) \<and> login_text 256 (chPassword (cwChannels w i))
      else chSession (cwChannels w i) = ses \<and> chVerify (cwChannels w i) = ver"
  shows "\<exists>c. open_channel (file_net env fenv ses ver) i w = Some (Inr (0, on_channel i (\<lambda>ch. ch\<lparr>chTcp := c, chSession := ses, chVerify := ver,
      chOpened := True\<rparr>) w)) \<and> channel_idle c"
proof -
  let ?net = "file_net env fenv ses ver" and ?ch = "cwChannels w i"
  obtain g where g: "chTcp ?ch = tc_set_object_id g tcp_client_new" "length g = CX_GUID_LEN" "\<not> chOpened ?ch" "length (chLoginGuid ?ch) = CX_GUID_LEN"
    using assms(3) by (auto simp: channel_fresh_def)
  obtain c where c: "channel_connect ?net i w = Inr (0, set_tcp i c w)" "channel_idle c"
    using connect_good [OF assms(1) g(1,2)] by blast
  have t: "login_text 128 ses" "login_text 256 ver" using assms(2) by (simp_all add: session_texts_def login_text_def)
  let ?w = "set_tcp i c w"
  have ch: "tcp_of i ?w = c" "chLoginGuid (cwChannels ?w i) = chLoginGuid ?ch" "chType (cwChannels ?w i) = chType ?ch"
    by (simp_all add: set_tcp_def on_channel_def)
  let ?user = "if chType ?ch = MAJOR_MES then chUser ?ch else ses" and ?password = "if chType ?ch = MAJOR_MES then chPassword ?ch else ver"
  have u: "login_text 128 ?user" "login_text 256 ?password" using assms(4) t by (simp_all split: if_splits)
  have idle: "channel_idle (tcp_of i ?w)" and guid: "length (chLoginGuid (cwChannels ?w i)) = CX_GUID_LEN" unfolding ch using c(2) g(4) by simp_all
  obtain c' where c': "channel_login ?net i ?user ?password 1 1 ?w = Some (Inr (0, on_channel i (\<lambda>ch. ch\<lparr>chTcp := c',
      chSession := if chType ch = MAJOR_MES then ses else chSession ch, chVerify := if chType ch = MAJOR_MES then ver else chVerify ch\<rparr>) ?w))" "channel_idle c'"
    using login_good [OF assms(1,2) idle _ _ _ _ guid, of ?user ?password] u unfolding login_text_def by blast
  let ?w' = "on_channel i (\<lambda>ch. ch\<lparr>chTcp := c', chSession := ses, chVerify := ver\<rparr>) w"
  have w': "on_channel i (\<lambda>ch. ch\<lparr>chTcp := c', chSession := if chType ch = MAJOR_MES then ses else chSession ch,
      chVerify := if chType ch = MAJOR_MES then ver else chVerify ch\<rparr>) ?w = ?w'"
    using assms(4) by (auto simp: set_tcp_def on_channel_def split: if_splits)
  have login: "(if chType ?ch = MAJOR_MES then channel_login ?net i (chUser ?ch) (chPassword ?ch) 1 1 ?w
      else channel_login ?net i (chSession ?ch) (chVerify ?ch) 1 1 ?w) = Some (Inr (0, ?w'))"
    using c'(1) assms(4) unfolding w' by (simp split: if_splits)
  have ne: "ses \<noteq> []" "ver \<noteq> []" using t by (simp_all add: login_text_def)
  have no: "\<not> (chType ?ch \<noteq> MAJOR_MES \<and> (chSession ?ch = [] \<or> chVerify ?ch = []))" using assms(4) ne by auto
  have "open_channel ?net i w = Some (Inr (0, on_channel i (\<lambda>ch. ch\<lparr>chOpened := True\<rparr>) ?w'))"
    unfolding open_channel_def Let_def if_not_P [OF no] if_not_P [OF g(3)] using c(1) login ne by (simp add: on_channel_def)
  moreover have "on_channel i (\<lambda>ch. ch\<lparr>chOpened := True\<rparr>) ?w' = on_channel i (\<lambda>ch. ch\<lparr>chTcp := c', chSession := ses, chVerify := ver, chOpened := True\<rparr>) w"
    by (simp add: on_channel_def)
  ultimately show ?thesis using c'(2) by auto
qed

section \<open>A new client\<close>

definition client_fresh :: "(file_server \<times> os) file_client \<Rightarrow> files \<Rightarrow> bool" where
  "client_fresh fc a \<longleftrightarrow> (\<exists>v s ip port user password. fc = set_remote_server ip port user password (file_client_new (v, s)) \<and>
     ip \<noteq> [] \<and> port \<noteq> 0 \<and> login_text 128 user \<and> login_text 256 password \<and> file_sim v s a) \<and> flsOpen a = None"

text \<open>Its two channels are opened one after the other, the second one with the identifiers that the first one got.\<close>

lemma fresh_channels:
  assumes "client_env_good env" and "session_texts ses ver" and "client_fresh fc a"
  shows "\<exists>fc1 fc2. fc_channel (file_net env fenv ses ver) CMM MAJOR_MES fc = Some (Inr (0, fc1)) \<and>
    fc_channel (file_net env fenv ses ver) DATA DATA_CHANNEL fc1 = Some (Inr (0, fc2)) \<and> remote fc2 a"
proof -
  let ?net = "file_net env fenv ses ver"
  obtain v s ip port user password where f: "fc = set_remote_server ip port user password (file_client_new (v, s))" "ip \<noteq> []" "port \<noteq> 0"
      "login_text 128 user" "login_text 256 password" "file_sim v s a" "flsOpen a = None"
    using assms(3) by (auto simp: client_fresh_def)
  let ?g = "guid_bytes FILE_CLASS"
  let ?new = "channel_new\<lparr>chTcp := tc_set_object_id ?g tcp_client_new\<rparr>"
  let ?named = "\<lambda>ty ses ver ch. (channel_set_user user password ch)\<lparr>chType := ty, chSession := ses, chVerify := ver\<rparr>"
  let ?w = "fcWorld fc"
  have w: "cwChannels ?w CMM = ?new" "cwChannels ?w DATA = ?new" "cwPeer ?w = (v, s)"
    unfolding f(1) by (simp_all add: set_remote_server_def file_client_new_def channel_object_id_def set_tcp_def on_channel_def channel_new_def)
  have ses0: "fcSession fc = client_session_new\<lparr>csUser := user, csPassword := password, csAddress := True\<rparr>"
    unfolding f(1) by (simp add: set_remote_server_def file_client_new_def cs_set_user_def)
  have nc: "\<not> tcConnected (tcp_of CMM ?w)" unfolding w(1) by (simp add: tc_set_object_id_def tcp_client_new_def)
  have fresh: "channel_fresh (?named ty x y ?new)" for ty x y
    by (auto simp: channel_fresh_def channel_set_user_def channel_new_def)
  let ?wa = "on_channel CMM (?named MAJOR_MES [] []) ?w"
  have ch0: "cwChannels ?wa CMM = ?named MAJOR_MES [] [] ?new" unfolding on_channel_def using w(1) by simp
  obtain c1 where c1: "open_channel ?net CMM ?wa = Some (Inr (0, on_channel CMM (\<lambda>ch. ch\<lparr>chTcp := c1, chSession := ses, chVerify := ver, chOpened := True\<rparr>) ?wa))"
      "channel_idle c1"
    using open_channel_good [OF assms(1,2), of ?wa CMM fenv] unfolding ch0 using fresh [where ty = MAJOR_MES and x = "[]" and y = "[]"] f(4,5) by (auto simp: channel_set_user_def)
  let ?w1 = "on_channel CMM (\<lambda>ch. ch\<lparr>chTcp := c1, chSession := ses, chVerify := ver, chOpened := True\<rparr>) ?wa"
  let ?s1 = "(fcSession fc)\<lparr>csMain := Some CMM, csID := ses, csVerify := ver\<rparr>"
  let ?fc1 = "fc\<lparr>fcSession := ?s1, fcWorld := ?w1\<rparr>"
  have "cs_open_channel ?net CMM MAJOR_MES (fcSession fc) ?w = Some (Inr (0, ?s1, ?w1))"
    using c1(1) unfolding cs_open_channel_def Let_def ses0 by (simp add: client_session_new_def) (simp add: on_channel_def)
  then have fc1: "fc_channel ?net CMM MAJOR_MES fc = Some (Inr (0, ?fc1))" using nc by (simp add: fc_channel_def)
  have d1: "cwChannels ?w1 DATA = ?new" using w(2) by (simp add: on_channel_def)
  let ?w2 = "on_channel DATA (?named DATA_CHANNEL ses ver) ?w1"
  have ch2: "cwChannels ?w2 DATA = ?named DATA_CHANNEL ses ver ?new" unfolding on_channel_def [of DATA] using d1 by simp
  obtain c2 where c2: "open_channel ?net DATA ?w2 = Some (Inr (0, on_channel DATA (\<lambda>ch. ch\<lparr>chTcp := c2, chSession := ses, chVerify := ver, chOpened := True\<rparr>) ?w2))"
      "channel_idle c2"
    using open_channel_good [OF assms(1,2), of ?w2 DATA fenv] unfolding ch2 using fresh [where ty = DATA_CHANNEL and x = ses and y = ver] by auto
  let ?w3 = "on_channel DATA (\<lambda>ch. ch\<lparr>chTcp := c2, chSession := ses, chVerify := ver, chOpened := True\<rparr>) ?w2"
  let ?fc2 = "fc\<lparr>fcSession := cs_add_data DATA ?s1, fcWorld := ?w3\<rparr>"
  have ss: "csAddress ?s1" "csUser ?s1 = user" "csPassword ?s1 = password" unfolding ses0 by simp_all
  have "cs_open_channel ?net DATA DATA_CHANNEL ?s1 ?w1 = Some (Inr (0, cs_add_data DATA ?s1, ?w3))"
    using c2(1) unfolding cs_open_channel_def Let_def using ss by simp
  moreover have "\<not> tcConnected (tcp_of DATA ?w1)" unfolding d1 by (simp add: tc_set_object_id_def tcp_client_new_def)
  ultimately have fc2: "fc_channel ?net DATA DATA_CHANNEL ?fc1 = Some (Inr (0, ?fc2))" by (simp add: fc_channel_def)
  have w3: "tcp_of CMM ?w3 = c1" "tcp_of DATA ?w3 = c2" "cwPeer ?w3 = (v, s)" using w(3) by (simp_all add: on_channel_def)
  have fields: "fcIP fc = ip" "fcPort fc = port" "fcUser fc = user" "fcPassword fc = password" "fcPath fc = []" "\<not> fcOpened fc"
    unfolding f(1) by (simp_all add: set_remote_server_def file_client_new_def)
  have "user \<noteq> []" "password \<noteq> []" using f(4,5) by (auto simp: login_text_def)
  then have "remote ?fc2 a" unfolding remote_def using w3 c1(2) c2(2) f(2,3,6,7) fields by simp
  then show ?thesis using fc1 fc2 by blast
qed

section \<open>What a program at the client sees\<close>

text \<open>The operations of a program: the value that is returned, with the data or the length after success.\<close>

datatype client_answer = Cl_Done int | Cl_Data int "byte list" | Cl_Size int "u64 option"

definition remote_do :: "'p network \<Rightarrow> file_op \<Rightarrow> 'p file_client \<Rightarrow> (client_answer \<times> 'p file_client) res option" where
  "remote_do net op fc =
     (case op of
        Op_Open path t existed \<Rightarrow> bind_run (fc_open net path t existed fc) (\<lambda>(r, fc). Some (Inr (Cl_Done r, fc)))
      | Op_Write xs \<Rightarrow> bind_run (fc_write net (External xs) (word_of_nat (length xs)) 0 seek_current fc) (\<lambda>(r, fc). Some (Inr (Cl_Done r, fc)))
      | Op_Read n \<Rightarrow> bind_run (fc_read net (word_of_nat n) 0 fc) (\<lambda>(r, out, _, fc). Some (Inr (Cl_Data r (if r = 0 then out else []), fc)))
      | Op_Length \<Rightarrow> bind_run (fc_length net fc) (\<lambda>(r, v, fc). Some (Inr (Cl_Size r v, fc)))
      | Op_Close \<Rightarrow> bind_run (fc_close net fc) (\<lambda>(r, fc). Some (Inr (Cl_Done r, fc))))"

fun remote_run :: "'p network \<Rightarrow> file_op list \<Rightarrow> 'p file_client \<Rightarrow> (client_answer list \<times> 'p file_client) res option" where
  "remote_run net [] fc = Some (Inr ([], fc))"
| "remote_run net (op # ops) fc = bind_run (remote_do net op fc) (\<lambda>(x, fc). bind_run (remote_run net ops fc) (\<lambda>(xs, fc). Some (Inr (x # xs, fc))))"

text \<open>
  The specification, over the files of \<open>File_Service\<close>: without an open file nothing is done, and an operation that fails
  closes the file.  A block that is shorter than what was asked for is such a failure; \<open>e\<close> is the length of the text of an
  error.
\<close>

definition client_step :: "nat \<Rightarrow> file_op \<Rightarrow> files \<Rightarrow> client_answer \<times> files" where
  "client_step e op a =
     (let (x, b) = file_step op a; closed = b\<lparr>flsOpen := None\<rparr> in
      case op of
        Op_Open path t existed \<Rightarrow> (Cl_Done (if x = Ans_Ok then 0 else - 8), b)
      | Op_Write xs \<Rightarrow> if flsOpen a = None then (Cl_Done (- 2), a) else if x = Ans_Ok then (Cl_Done 0, b) else (Cl_Done (- 6), closed)
      | Op_Read n \<Rightarrow>
          if flsOpen a = None then (Cl_Data (- 2) [], a)
          else (case x of Ans_Data xs \<Rightarrow> (Cl_Data 0 xs, b) | Ans_End \<Rightarrow> (Cl_Data (if n < e then - 7 else - 12) [], closed)
                | _ \<Rightarrow> (Cl_Data (- 12) [], closed))
      | Op_Length \<Rightarrow> (case x of Ans_Size n \<Rightarrow> (Cl_Size 0 (Some (word_of_nat n)), a) | _ \<Rightarrow> (Cl_Size 0 None, a))
      | Op_Close \<Rightarrow> (Cl_Done 0, b))"

fun client_steps :: "nat \<Rightarrow> file_op list \<Rightarrow> files \<Rightarrow> client_answer list \<times> files" where
  "client_steps e [] a = ([], a)"
| "client_steps e (op # ops) a = (let (x, a) = client_step e op a; (xs, a) = client_steps e ops a in (x # xs, a))"

text \<open>The limits of a client: paths and blocks that its buffers hold, and that the files it opens can be opened.\<close>

definition client_op_ok :: "nat \<Rightarrow> file_op \<Rightarrow> files \<Rightarrow> bool" where
  "client_op_ok e op a \<longleftrightarrow> op_ok op a \<and> (case op of
     Op_Open path t existed \<Rightarrow> path \<noteq> [] \<and> length path \<le> 4087 \<and> fst (file_step op a) = Ans_Ok
   | Op_Write xs \<Rightarrow> length xs + 72 \<le> CX_MAX_CHACHE_SIZE
   | Op_Read n \<Rightarrow> n \<noteq> e
   | _ \<Rightarrow> True)"

fun client_ops_ok :: "nat \<Rightarrow> file_op list \<Rightarrow> files \<Rightarrow> bool" where
  "client_ops_ok e [] a = True"
| "client_ops_ok e (op # ops) a = (client_op_ok e op a \<and> client_ops_ok e ops (snd (client_step e op a)))"

text \<open>Opening a file up to the request: the old file is closed, the channels are there.\<close>

lemma remote_open_ready:
  assumes "client_env_good env" and "session_texts ses ver" and "length (feError fenv) \<le> 1000" and "client_fresh fc a \<or> remote fc a" and "path \<noteq> []"
  shows "\<exists>fc'. fc_open (file_net env fenv ses ver) path t existed fc = fc_open_file (file_net env fenv ses ver) path t existed fc' \<and>
    remote fc' (a\<lparr>flsOpen := None\<rparr>)"
proof -
  let ?net = "file_net env fenv ses ver" and ?a = "a\<lparr>flsOpen := None\<rparr>"
  have fields: "fcIP fc \<noteq> []" "fcPort fc \<noteq> 0" "fcUser fc \<noteq> []" "fcPassword fc \<noteq> []" "fcPath fc = []"
    using assms(4) by (auto simp: client_fresh_def remote_def login_text_def set_remote_server_def file_client_new_def)
  have "\<exists>fc1 fc2 fc3. fc_close ?net fc = Some (Inr (0, fc1)) \<and> fc_channel ?net CMM MAJOR_MES (fc1\<lparr>fcOpened := False\<rparr>) = Some (Inr (0, fc2)) \<and>
      fc_channel ?net DATA DATA_CHANNEL fc2 = Some (Inr (0, fc3)) \<and> remote fc3 ?a"
  proof (cases "client_fresh fc a")
    case True
    then have f: "\<not> fcOpened fc" "fc\<lparr>fcOpened := False\<rparr> = fc" "?a = a"
      by (auto simp: client_fresh_def set_remote_server_def file_client_new_def)
    obtain fc2 fc3 where c: "fc_channel ?net CMM MAJOR_MES fc = Some (Inr (0, fc2))" "fc_channel ?net DATA DATA_CHANNEL fc2 = Some (Inr (0, fc3))" "remote fc3 a"
      using fresh_channels [OF assms(1,2) True, of fenv] by blast
    have "fc_channel ?net CMM MAJOR_MES (fc\<lparr>fcOpened := False\<rparr>) = Some (Inr (0, fc2))" unfolding f(2) by (rule c(1))
    moreover have "fc_close ?net fc = Some (Inr (0, fc))" using f(1) by (simp add: fc_close_def)
    ultimately show ?thesis using c(2,3) f(3) by auto
  next
    case False
    then obtain fc1 where fc1: "fc_close ?net fc = Some (Inr (0, fc1))" "remote fc1 ?a" "\<not> fcOpened fc1"
      using remote_close [OF assms(1,3), of fc a ses ver] assms(4) by blast
    then have "fc1\<lparr>fcOpened := False\<rparr> = fc1" by (cases fc1) simp
    moreover have "tcConnected (tcp_of CMM (fcWorld fc1))" "tcConnected (tcp_of DATA (fcWorld fc1))"
      using fc1(2) by (auto simp: remote_def channel_idle_def channel_good_def client_ready_def)
    ultimately show ?thesis using fc1(1,2) by (simp add: fc_channel_def)
  qed
  then show ?thesis using assms(5) fields by (auto simp: fc_open_def)
qed

lemma remote_open:
  assumes "client_env_good env" and "session_texts ses ver" and "length (feError fenv) \<le> 1000" and "client_fresh fc a \<or> remote fc a"
    and "client_op_ok e (Op_Open path t existed) a"
  shows "\<exists>fc'. fc_open (file_net env fenv ses ver) path t existed fc = Some (Inr (0, fc')) \<and> remote fc' (snd (file_step (Op_Open path t existed) a))"
proof -
  have path: "path \<noteq> []" "length path \<le> 4087" "CHR 0x00 \<notin> set path" "fst (file_step (Op_Open path t existed) a) = Ans_Ok"
    using assms(5) by (simp_all add: client_op_ok_def op_ok_def)
  have same: "file_step (Op_Open path t existed) (a\<lparr>flsOpen := None\<rparr>) = file_step (Op_Open path t existed) a" by (simp add: file_step_def)
  obtain fc1 where fc1: "fc_open (file_net env fenv ses ver) path t existed fc = fc_open_file (file_net env fenv ses ver) path t existed fc1"
      "remote fc1 (a\<lparr>flsOpen := None\<rparr>)"
    using remote_open_ready [OF assms(1-4) path(1)] by blast
  show ?thesis using remote_open_file [OF assms(1,3) fc1(2) path(3,2), of t existed ses ver] path(4) same fc1(1) by simp
qed

lemma remote_do_step:
  assumes "client_env_good env" and "session_texts ses ver" and "length (feError fenv) \<le> 1000" and "client_fresh fc a \<or> remote fc a"
    and "client_op_ok (length (feError fenv) + 1) op a" and "b = client_step (length (feError fenv) + 1) op a"
  shows "\<exists>fc'. remote_do (file_net env fenv ses ver) op fc = Some (Inr (fst b, fc')) \<and> (client_fresh fc' (snd b) \<or> remote fc' (snd b))"
proof -
  let ?net = "file_net env fenv ses ver" and ?x = "file_step op a"
  have ok: "op_ok op a" using assms(5) by (simp add: client_op_ok_def)
  have closed: "fcOpened fc \<longleftrightarrow> flsOpen a \<noteq> None"
    using assms(4) by (auto simp: client_fresh_def remote_def set_remote_server_def file_client_new_def)
  have open_remote: "remote fc a" if "flsOpen a \<noteq> None" using assms(4) that by (auto simp: client_fresh_def)
  show ?thesis
  proof (cases op)
    case (Op_Open path t existed)
    then have "fst ?x = Ans_Ok" using assms(5) by (simp add: client_op_ok_def)
    moreover obtain fc' where "fc_open ?net path t existed fc = Some (Inr (0, fc'))" "remote fc' (snd ?x)"
      using remote_open [OF assms(1-4)] assms(5) Op_Open by blast
    ultimately show ?thesis using assms(6) Op_Open by (auto simp: remote_do_def client_step_def case_prod_unfold Let_def)
  next
    case (Op_Write xs)
    show ?thesis
    proof (cases "flsOpen a = None")
      case True
      then show ?thesis using closed assms(4,6) Op_Write by (auto simp: remote_do_def fc_write_def client_step_def case_prod_unfold Let_def)
    next
      case False
      have "length xs + 72 \<le> CX_MAX_CHACHE_SIZE" using assms(5) Op_Write by (simp add: client_op_ok_def)
      from remote_write [OF assms(1,3) open_remote [OF False] this False refl, of ses ver] show ?thesis
        using False assms(6) Op_Write by (auto simp: remote_do_def client_step_def case_prod_unfold Let_def split: if_splits)
    qed
  next
    case (Op_Read n)
    show ?thesis
    proof (cases "flsOpen a")
      case None
      then show ?thesis using closed assms(4,6) Op_Read by (auto simp: remote_do_def fc_read_def client_step_def case_prod_unfold Let_def)
    next
      case (Some o1)
      let ?want = "word_of_nat n :: u32"
      have n: "n \<le> 1024 * 10240" "n \<noteq> length (feError fenv) + 1" using assms(5) Op_Read by (simp_all add: client_op_ok_def op_ok_def)
      then have un: "n = unat ?want" by (simp only: unat_of_nat) simp
      have r: "remote fc a" "fcOpened fc" using open_remote closed Some by simp_all
      have ok: "op_ok (Op_Read n) a" using ok Op_Read by simp
      have kinds: "(\<exists>xs. fst ?x = Ans_Data xs) \<or> (\<exists>xs. fst ?x = Ans_Short xs) \<or> fst ?x = Ans_End"
      proof -
        obtain path pos re w where o1: "flsOpen a = Some (path, pos, re, w)" using Some by (cases o1) auto
        obtain v s where "file_sim v s a" using r(1) by (auto simp: remote_def)
        from file_sim_open [OF this o1] obtain bs where "flsContent a path = Some bs" by blast
        then show ?thesis using file_step_read [OF o1 _ refl, of bs n] Op_Read by auto
      qed
      show ?thesis
      proof (cases "\<exists>xs. fst ?x = Ans_Data xs")
        case True
        then obtain xs where xs: "fst (file_step (Op_Read n) a) = Ans_Data xs" using Op_Read by blast
        show ?thesis using fc_read_good [OF assms(1,3) r(1) ok r(2) un xs, of ses ver 0] xs Some assms(6) Op_Read
          by (auto simp: remote_do_def client_step_def case_prod_unfold Let_def)
      next
        case False
        then have odd: "(\<exists>xs. fst (file_step (Op_Read n) a) = Ans_Short xs) \<or> fst (file_step (Op_Read n) a) = Ans_End" using kinds Op_Read by auto
        let ?k = "case fst (file_step (Op_Read n) a) of Ans_Short xs \<Rightarrow> length xs | _ \<Rightarrow> length (feError fenv) + 1"
        have short: "length xs < n" if "fst (file_step (Op_Read n) a) = Ans_Short xs" for xs
          using that by (auto simp: file_step_def Let_def split: option.splits if_splits)
        have "?k \<noteq> n" using odd short n(2) by fastforce
        from fc_read_odd [OF assms(1,3) r(1) ok r(2) un refl refl odd this, of ses ver 0]
        obtain out m fc' where "fc_read ?net ?want 0 fc = Some (Inr (if n < ?k then - 7 else - 12, out, m, fc'))"
          "remote fc' ((snd (file_step (Op_Read n) a))\<lparr>flsOpen := None\<rparr>)" by blast
        then show ?thesis using odd short Some assms(6) Op_Read
          by (fastforce simp: remote_do_def client_step_def case_prod_unfold Let_def)
      qed
    qed
  next
    case Op_Length
    show ?thesis
    proof (cases "flsOpen a")
      case None
      then have "fst ?x = Ans_Failed 412" using Op_Length by (simp add: file_step_def)
      then show ?thesis using None closed assms(4,6) Op_Length by (auto simp: remote_do_def fc_length_def client_step_def case_prod_unfold Let_def)
    next
      case (Some o1)
      then obtain path pos re w where o1: "flsOpen a = Some (path, pos, re, w)" by (cases o1) auto
      have r: "remote fc a" using open_remote Some by simp
      then obtain v s where "file_sim v s a" by (auto simp: remote_def)
      from file_sim_open [OF this o1] obtain bs where bs: "flsContent a path = Some bs" by blast
      then have x: "file_step Op_Length a = (Ans_Size (length bs), a)" using o1 by (simp add: file_step_def)
      have len: "length bs < 2 ^ 64" and ok: "op_ok Op_Length a" using ok bs Op_Length by (auto simp: op_ok_def intro: ranI)
      have "fst (file_step Op_Length a) = Ans_Size (length bs)" using x by simp
      from remote_length [OF assms(1,3) r ok this len, of ses ver] show ?thesis
        using x assms(6) Op_Length by (auto simp: remote_do_def client_step_def)
    qed
  next
    case Op_Close
    show ?thesis
    proof (cases "client_fresh fc a")
      case True
      then have "a\<lparr>flsOpen := None\<rparr> = a" by (cases a) (simp add: client_fresh_def)
      moreover have "\<not> fcOpened fc" using True closed by (simp add: client_fresh_def)
      ultimately show ?thesis using True assms(6) Op_Close by (simp add: remote_do_def fc_close_def client_step_def file_step_def)
    next
      case False
      then show ?thesis using remote_close [OF assms(1,3), of fc a ses ver] assms(4,6) Op_Close
        by (auto simp: remote_do_def client_step_def file_step_def)
    qed
  qed
qed

lemma remote_run_steps:
  assumes "client_env_good env" and "session_texts ses ver" and "length (feError fenv) \<le> 1000"
  shows "client_fresh fc a \<or> remote fc a \<Longrightarrow> client_ops_ok (length (feError fenv) + 1) ops a \<Longrightarrow>
    \<exists>fc'. remote_run (file_net env fenv ses ver) ops fc = Some (Inr (fst (client_steps (length (feError fenv) + 1) ops a), fc')) \<and>
      (client_fresh fc' (snd (client_steps (length (feError fenv) + 1) ops a)) \<or> remote fc' (snd (client_steps (length (feError fenv) + 1) ops a)))"
proof (induction ops arbitrary: fc a)
  case (Cons op ops)
  obtain fc1 where 1: "remote_do (file_net env fenv ses ver) op fc = Some (Inr (fst (client_step (length (feError fenv) + 1) op a), fc1))"
      "client_fresh fc1 (snd (client_step (length (feError fenv) + 1) op a)) \<or> remote fc1 (snd (client_step (length (feError fenv) + 1) op a))"
    using remote_do_step [OF assms Cons.prems(1) _ refl, of op] Cons.prems(2) by auto
  from Cons.IH [OF 1(2)] Cons.prems(2) show ?case using 1(1) by (auto simp: Let_def case_prod_unfold)
qed simp

section \<open>The properties\<close>


definition no_files :: files where
  "no_files = \<lparr>flsContent = Map.empty, flsOpen = None\<rparr>"

definition demo_remote_ops :: "file_op list" where
  "demo_remote_ops = [Op_Read 9, Op_Open ''f'' modeWrite False, Op_Write [1, 2, 3], Op_Write [4], Op_Open ''f'' modeRead False, Op_Read 2, Op_Length,
     Op_Read 5, Op_Length, Op_Open ''f'' modeRead False, Op_Read 4, Op_Close]"

lemma demo_env_good: "client_env_good demo_client_env"
  using demo_client_env_wf by (simp add: client_env_good_def demo_client_env_def)

lemma demo_texts: "session_texts ''s'' ''v''"
  by (simp add: session_texts_def CR_def)

lemma demo_no_files: "file_sim \<lparr>srvFile = file64_new, srvPath = []\<rparr> demo_os no_files"
  by (simp add: file_sim_def std_taken_def demo_os_def no_files_def file64_new_def)


text \<open>
  C17: a client that has once failed to open a file is of no use any more.  Take a new client, any operations on it, and a
  call of \<open>Open\<close> that fails behind the login (the request cannot be sent, no reply, another one, or the server says that
  the file cannot be opened).  Whatever is called after that, the client is not open, and every call of \<open>Open\<close> returns at
  once without any communication: the connection has been closed, but its channel says for ever that it is open.
\<close>

theorem failed_open_is_final:
  assumes "fc_run net ops (set_remote_server ip port user password (file_client_new p)) = Some (Inr (rs, fc))"
    and "fc_open net path t existed fc = Some (Inr (r, fc1))" and "r < - 4"
    and "fc_run net ops2 fc1 = Some (Inr (rs2, fc2))"
  shows "\<not> fcOpened fc2 \<and> (\<forall>path t existed. fc_open net path t existed fc2 = Some (Inr (open_refused path fc2, fc2)))"
proof -
  have "linked fc" by (rule linked_run [OF assms(1) linked_new])
  then have "lost fc1" using fc_open_effect [OF assms(2)] assms(3) by blast
  then have "lost fc2" by (rule lost_run [OF _ assms(4)])
  then show ?thesis using lost_open [of fc2] by (simp add: lost_def)
qed

theorem failed_open_is_final_witness:
  "let net = file_net demo_client_env \<lparr>feError = ''no'', feErrno = 2\<rparr> ''s'' ''v'';
       fc = set_remote_server ''h'' 80 ''u'' ''p'' (file_client_new (\<lparr>srvFile = file64_new, srvPath = []\<rparr>, demo_os)) in
   \<exists>fc1. fc_open net ''f'' modeRead False fc = Some (Inr (- 8, fc1)) \<and> \<not> fcOpened fc1 \<and>
     (\<forall>path t existed. fc_open net path t existed fc1 = Some (Inr (open_refused path fc1, fc1)))"
proof -
  let ?fenv = "\<lparr>feError = ''no'', feErrno = 2\<rparr>" and ?fc = "set_remote_server ''h'' 80 ''u'' ''p'' (file_client_new (\<lparr>srvFile = file64_new, srvPath = []\<rparr>, demo_os))"
  let ?net = "file_net demo_client_env ?fenv ''s'' ''v''"
  have "client_fresh ?fc no_files" unfolding client_fresh_def using demo_no_files
    by (intro conjI exI [of _ "''h''"] exI [of _ "80"] exI) (auto simp: login_text_def no_files_def)
  then obtain fc' where fc': "fc_open ?net ''f'' modeRead False ?fc = fc_open_file ?net ''f'' modeRead False fc'" "remote fc' (no_files\<lparr>flsOpen := None\<rparr>)"
    using remote_open_ready [OF demo_env_good demo_texts, of ?fenv ?fc no_files "''f''"] by auto
  have "fst (file_step (Op_Open ''f'' modeRead False) (no_files\<lparr>flsOpen := None\<rparr>)) \<noteq> Ans_Ok"
    by (simp add: file_step_def flags_of_def no_files_def Let_def)
  then obtain fc1 where fc1: "fc_open ?net ''f'' modeRead False ?fc = Some (Inr (- 8, fc1))"
    using remote_open_fails [OF demo_env_good _ fc'(2), of ?fenv "''f''" modeRead False] fc'(1) by auto
  have run: "fc_run ?net [] x = Some (Inr ([], x))" for x by simp
  show ?thesis using failed_open_is_final [OF run fc1 _ run] fc1 by (auto simp: Let_def)
qed

end
