(* ===== verification/Thread_Pool.thy ===== *)
theory Thread_Pool imports Main Prelude begin

text \<open>
  \<open>CXThread\<close> and \<open>CXThreadPool\<close> (src/CXThread/src, the branches that are not for Windows): threads that wait for a
  function to run, and the pool they are taken from.  What \<open>pthread_create\<close> gives is a parameter; events are the
  semaphores of src/CXEvent/src/CXEvent.cpp, counted.
\<close>

section \<open>Events\<close>

text \<open>
  \<open>WaitForSingleObject\<close> on a semaphore with a value, at \<open>ns\<close> nanoseconds of the current second.  The end of the wait is
  not brought into the range of nanoseconds; \<open>sem_timedwait\<close> refuses it when it would have to wait.
\<close>

datatype wait_end = At_Once | Took_Event | Waits | Timed_Out | Wait_Failed

definition INFINITE :: u32 where "INFINITE = 0xFFFFFFFF"

definition event_wait :: "u32 \<Rightarrow> nat \<Rightarrow> nat \<Rightarrow> wait_end \<times> nat" where
  "event_wait ms ns count =
     (case count of
        Suc k \<Rightarrow> (Took_Event, k)
      | 0 \<Rightarrow> (if ms = INFINITE then Waits else if 1000000000 \<le> ns + unat (ms mod 1000) * 1000000 then Wait_Failed else Timed_Out, 0))"

definition set_event :: "nat \<Rightarrow> nat" where
  "set_event count = count + 1"

section \<open>A thread\<close>

text \<open>
  \<open>thrState\<close> and \<open>thrInPool\<close> are fields that the constructor leaves as the memory was: the state, and whether the
  pointer to the pool is not null.  The caches are known by their sizes.
\<close>

record thread =
  thrID :: u32
  thrHandle :: u64
  thrStarted :: bool
  thrRunning :: bool
  thrFun :: bool
  thrResult :: u32
  thrWaitRunning :: nat
  thrFinish :: nat
  thrFirst :: u32
  thrSecond :: u32
  thrState :: u32
  thrInPool :: bool

definition thread_new :: "u32 \<Rightarrow> bool \<Rightarrow> thread" where
  "thread_new st p = \<lparr>thrID = 0, thrHandle = 0, thrStarted = False, thrRunning = False, thrFun = False, thrResult = 0, thrWaitRunning = 0, thrFinish = 0,
     thrFirst = 0, thrSecond = 0, thrState = st, thrInPool = p\<rparr>"

text \<open>The identifier is the lower half of the handle.\<close>

definition thread_create :: "u64 option \<Rightarrow> thread \<Rightarrow> bool \<times> thread" where
  "thread_create made t =
     (case made of
        None \<Rightarrow> (False, t\<lparr>thrHandle := 0, thrStarted := False\<rparr>)
      | Some h \<Rightarrow> (True, t\<lparr>thrHandle := h, thrStarted := True, thrID := ucast h\<rparr>))"

definition thread_stop :: "thread \<Rightarrow> thread" where
  "thread_stop t =
     (if thrHandle t = 0 then t
      else t\<lparr>thrStarted := False, thrRunning := False, thrWaitRunning := set_event (thrWaitRunning t), thrHandle := 0, thrResult := - 1\<rparr>)"

definition thread_destroy :: "thread \<Rightarrow> thread" where
  "thread_destroy t = (let t = t\<lparr>thrStarted := False\<rparr> in if thrRunning t then thread_stop t else t)"

definition thread_start :: "u64 option \<Rightarrow> thread \<Rightarrow> int \<times> thread" where
  "thread_start made t =
     (if thrRunning t then (- 2, t)
      else
        let (ok, t) = (if thrStarted t then (True, t) else thread_create made t)
        in if \<not> ok then (- 1, t\<lparr>thrRunning := False\<rparr>)
           else (0, t\<lparr>thrFun := True, thrWaitRunning := set_event (thrWaitRunning t), thrRunning := True\<rparr>))"

text \<open>\<open>Wait\<close>: whether it returns at once, takes the event that the function has ended, or goes on waiting.\<close>

definition thread_wait :: "thread \<Rightarrow> wait_end \<times> thread" where
  "thread_wait t =
     (if thrHandle t = 0 \<or> \<not> thrRunning t \<or> \<not> thrStarted t then (At_Once, t)
      else case event_wait INFINITE 0 (thrFinish t) of (e, k) \<Rightarrow> (e, t\<lparr>thrFinish := k\<rparr>))"

text \<open>One turn of the loop of the thread: the event, and what is noted when the function has returned.\<close>

definition thread_turn :: "thread \<Rightarrow> (bool \<times> thread) option" where
  "thread_turn t =
     (if \<not> thrStarted t then Some (False, t)
      else case thrWaitRunning t of 0 \<Rightarrow> None | Suc k \<Rightarrow> Some (True, t\<lparr>thrWaitRunning := k\<rparr>))"

definition thread_returned :: "u32 \<Rightarrow> thread \<Rightarrow> thread" where
  "thread_returned r t = t\<lparr>thrResult := r, thrRunning := False, thrFinish := set_event (thrFinish t)\<rparr>"

text \<open>The two caches of a thread; \<open>memory\<close> is whether \<open>new\<close> has any.\<close>

definition allocate_first :: "bool \<Rightarrow> u32 \<Rightarrow> thread \<Rightarrow> bool \<times> thread" where
  "allocate_first memory n t =
     (if n \<le> thrFirst t then (True, t) else if \<not> memory then (False, t) else (True, t\<lparr>thrFirst := n\<rparr>))"

definition allocate_second :: "bool \<Rightarrow> u32 \<Rightarrow> thread \<Rightarrow> bool \<times> thread" where
  "allocate_second memory n t =
     (if n \<le> thrSecond t then (True, t) else if \<not> memory then (False, t) else (True, t\<lparr>thrSecond := n\<rparr>))"

section \<open>The pool\<close>

text \<open>Threads are known by their addresses; \<open>tplMap\<close> is ordered by its keys, the identifiers.\<close>

record thread_pool =
  tplThreads :: "addr \<Rightarrow> thread"
  tplNext :: addr
  tplMap :: "(u32 \<times> addr) list"
  tplFree :: "addr list"
  tplMax :: u32
  tplNum :: u32
  tplFreeNum :: u32
  tplUsingNum :: u32
  tplCreated :: bool

definition thread_pool_new :: "thread_pool" where
  "thread_pool_new = \<lparr>tplThreads = (\<lambda>a. thread_new 0 False), tplNext = 0, tplMap = [], tplFree = [], tplMax = 1024, tplNum = 0, tplFreeNum = 0,
     tplUsingNum = 0, tplCreated = False\<rparr>"

definition on_thread :: "addr \<Rightarrow> (thread \<Rightarrow> thread) \<Rightarrow> thread_pool \<Rightarrow> thread_pool" where
  "on_thread a f p = p\<lparr>tplThreads := (tplThreads p)(a := f (tplThreads p a))\<rparr>"

text \<open>\<open>insert\<close> of a map keeps what is there under the key.\<close>

fun map_insert :: "u32 \<Rightarrow> addr \<Rightarrow> (u32 \<times> addr) list \<Rightarrow> (u32 \<times> addr) list" where
  "map_insert k v [] = [(k, v)]"
| "map_insert k v ((k', v') # m) = (if k < k' then (k, v) # (k', v') # m else if k = k' then (k', v') # m else (k', v') # map_insert k v m)"

text \<open>
  The system for a new thread: whether there is memory for the object, what \<open>pthread_create\<close> gives, and the fields
  that nobody sets.
\<close>

record thread_env =
  teMemory :: bool
  teMade :: "u64 option"
  teState :: u32
  teInPool :: bool

definition add_thread :: "bool \<Rightarrow> thread_env \<Rightarrow> thread_pool \<Rightarrow> bool \<times> thread_pool" where
  "add_thread counted env p =
     (if \<not> teMemory env then (False, p)
      else case thread_create (teMade env) (thread_new (teState env) (teInPool env)) of (ok, t) \<Rightarrow>
        if \<not> ok then (False, p)
        else (True, p\<lparr>tplThreads := (tplThreads p)(tplNext p := t), tplNext := tplNext p + 1, tplFree := tplFree p @ [tplNext p],
               tplMap := map_insert (thrID t) (tplNext p) (tplMap p), tplFreeNum := tplFreeNum p + 1,
               tplNum := (if counted then tplNum p + 1 else tplNum p)\<rparr>))"

fun add_threads :: "bool \<Rightarrow> (nat \<Rightarrow> thread_env) \<Rightarrow> nat \<Rightarrow> thread_pool \<Rightarrow> bool \<times> thread_pool" where
  "add_threads counted env 0 p = (True, p)"
| "add_threads counted env (Suc k) p =
     (case add_thread counted (env 0) p of (ok, p) \<Rightarrow> if ok then add_threads counted (\<lambda>i. env (Suc i)) k p else (False, p))"

definition pool_destroy :: "thread_pool \<Rightarrow> thread_pool" where
  "pool_destroy p = (fold (\<lambda>(k, a). on_thread a thread_destroy) (tplMap p) p)\<lparr>tplMap := [], tplFree := [], tplFreeNum := 0, tplUsingNum := 0\<rparr>"

definition create_pool :: "(nat \<Rightarrow> thread_env) \<Rightarrow> u32 \<Rightarrow> thread_pool \<Rightarrow> bool \<times> thread_pool" where
  "create_pool env n p =
     (if tplMax p < n then (False, p)
      else if tplCreated p then (True, p)
      else case add_threads False env (unat n) p of (ok, p) \<Rightarrow>
        if \<not> ok then (False, pool_destroy p) else (True, p\<lparr>tplCreated := True, tplNum := n\<rparr>))"

definition add_pool_size :: "(nat \<Rightarrow> thread_env) \<Rightarrow> u32 \<Rightarrow> thread_pool \<Rightarrow> bool \<times> thread_pool" where
  "add_pool_size env n p = (if n = 0 then (True, p) else add_threads True env (unat n) p)"

definition find_thread :: "u32 \<Rightarrow> thread_pool \<Rightarrow> addr option" where
  "find_thread k p = map_of (tplMap p) k"

definition get_free_thread :: "thread_pool \<Rightarrow> addr option \<times> thread_pool" where
  "get_free_thread p =
     (case tplFree p of
        [] \<Rightarrow> (None, p)
      | a # as \<Rightarrow> (Some a, p\<lparr>tplFree := as, tplFreeNum := tplFreeNum p - 1, tplUsingNum := tplUsingNum p + 1\<rparr>))"

text \<open>\<open>CXTHREAD_STATE_FREE\<close> is 0; nothing in the program ever sets the state of a thread.\<close>

definition release_thread :: "addr \<Rightarrow> thread_pool \<Rightarrow> thread_pool" where
  "release_thread a p =
     (if thrState (tplThreads p a) \<noteq> 0 \<or> a \<in> set (tplFree p) then p
      else p\<lparr>tplFree := tplFree p @ [a], tplFreeNum := tplFreeNum p + 1, tplUsingNum := tplUsingNum p - 1\<rparr>)"

text \<open>The entry behind the one that is erased is taken for it, and its thread is deleted as an array.\<close>

definition remove_thread :: "addr \<Rightarrow> thread_pool \<Rightarrow> thread_pool res" where
  "remove_thread a p =
     (let p = p\<lparr>tplFree := remove1 a (tplFree p)\<rparr>
      in if find_thread (thrID (tplThreads p a)) p = None then Inr p else Inl InvalidFree)"

text \<open>Whether waiting for all threads returns at once.\<close>

definition wait_all_exited :: "thread_pool \<Rightarrow> bool" where
  "wait_all_exited p \<longleftrightarrow> (\<forall>(k, a)\<in>set (tplMap p). fst (thread_wait (tplThreads p a)) \<noteq> Waits)"

section \<open>The pool and its counts\<close>

text \<open>The number of free threads is the length of their list, and no thread is in it twice.\<close>

definition thread_pool_ok :: "thread_pool \<Rightarrow> bool" where
  "thread_pool_ok p \<longleftrightarrow> tplFreeNum p = word_of_nat (length (tplFree p)) \<and> distinct (tplFree p) \<and> (\<forall>a\<in>set (tplFree p). a < tplNext p)"

lemma add_thread_ok: "thread_pool_ok p \<Longrightarrow> thread_pool_ok (snd (add_thread counted env p))"
  by (auto simp: thread_pool_ok_def add_thread_def split: prod.splits)

lemma add_threads_ok: "thread_pool_ok p \<Longrightarrow> thread_pool_ok (snd (add_threads counted env k p))"
proof (induction k arbitrary: env p)
  case (Suc k)
  then show ?case using add_thread_ok [OF Suc.prems, of counted "env 0"] by (auto split: prod.splits)
qed simp

lemma pool_destroy_ok: "thread_pool_ok (pool_destroy p)"
  by (simp add: thread_pool_ok_def pool_destroy_def)

lemma create_pool_ok: "thread_pool_ok p \<Longrightarrow> thread_pool_ok (snd (create_pool env n p))"
  using add_threads_ok [of p False env "unat n"] pool_destroy_ok by (auto simp: create_pool_def thread_pool_ok_def split: prod.splits)

lemma get_free_thread_ok: "thread_pool_ok p \<Longrightarrow> thread_pool_ok (snd (get_free_thread p))"
  by (auto simp: thread_pool_ok_def get_free_thread_def split: list.splits)

lemma release_thread_ok: "thread_pool_ok p \<Longrightarrow> a < tplNext p \<Longrightarrow> thread_pool_ok (release_thread a p)"
  by (auto simp: thread_pool_ok_def release_thread_def)

end
