(* ===== verification/Task_Pool.thy ===== *)
theory Task_Pool imports Main "HOL-Library.AList" Thread_Pool Queue begin

text \<open>
  \<open>CXTaskBase\<close> and \<open>CXTaskPool\<close> (src/CXTask/src): tasks that wait in a queue for the threads of a pool, and the
  loop of such a thread, cut at its waiting and at its locks.  What a task does is a parameter: its result.
\<close>

section \<open>Tasks\<close>

record task =
  tskType :: nat
  tskRunning :: bool
  tskResult :: u32
  tskEvent :: nat
  tskCache :: bool

definition task_new :: "nat \<Rightarrow> task" where
  "task_new ty = \<lparr>tskType = ty, tskRunning = False, tskResult = 0, tskEvent = 0, tskCache = False\<rparr>"

definition task_stop :: "task \<Rightarrow> task" where
  "task_stop t = (if \<not> tskRunning t then t else t\<lparr>tskRunning := False\<rparr>)"

definition task_wait_finished :: "u32 \<Rightarrow> nat \<Rightarrow> task \<Rightarrow> wait_end \<times> task" where
  "task_wait_finished ms ns t =
     (if \<not> tskRunning t then (At_Once, t) else case event_wait ms ns (tskEvent t) of (e, k) \<Rightarrow> (e, t\<lparr>tskEvent := k\<rparr>))"

text \<open>\<open>Run\<close>, before and after \<open>ProcessTask\<close>.\<close>

definition task_begin :: "task \<Rightarrow> task" where
  "task_begin t = t\<lparr>tskRunning := True\<rparr>"

definition task_end :: "u32 \<Rightarrow> task \<Rightarrow> task" where
  "task_end r t = t\<lparr>tskResult := r, tskEvent := set_event (tskEvent t), tskRunning := False\<rparr>"

section \<open>The pool\<close>

text \<open>Tasks are known by their addresses; \<open>tpRunningNum\<close> is not set by the constructor.\<close>

record task_pool =
  tpRunning :: bool
  tpSize :: u32
  tpClasses :: "(nat \<times> addr) list"
  tpReduced :: u32
  tpReducing :: bool
  tpQueueSize :: u32
  tpEvent :: nat
  tpResizeEvent :: nat
  tpThreads :: thread_pool
  tpCache :: bool
  tpQueue :: "addr cx_queue"
  tpFree :: "(nat \<times> addr list) list"
  tpTasks :: "addr \<Rightarrow> task"
  tpNext :: addr
  tpRunningNum :: int

definition task_pool_new :: "int \<Rightarrow> task_pool" where
  "task_pool_new num = \<lparr>tpRunning = False, tpSize = 128, tpClasses = [], tpReduced = 128, tpReducing = False, tpQueueSize = 10000, tpEvent = 0,
     tpResizeEvent = 0, tpThreads = thread_pool_new, tpCache = False, tpQueue = cq_new, tpFree = [], tpTasks = (\<lambda>a. task_new 0), tpNext = 0,
     tpRunningNum = num\<rparr>"

definition register_task_class :: "addr \<Rightarrow> task_pool \<Rightarrow> task_pool" where
  "register_task_class a p = p\<lparr>tpClasses := AList.update (tskType (tpTasks p a)) a (tpClasses p)\<rparr>"

text \<open>A thread that is not there is written to when caches are asked for.\<close>

fun start_threads :: "(nat \<Rightarrow> bool) \<Rightarrow> (nat \<Rightarrow> u64 option) \<Rightarrow> u32 \<Rightarrow> nat \<Rightarrow> thread_pool \<Rightarrow> (bool \<times> thread_pool) res" where
  "start_threads memory made cache 0 p = Inr (True, p)"
| "start_threads memory made cache (Suc k) p =
     (case get_free_thread p of
        (None, p) \<Rightarrow> if 0 < cache \<and> cache < 10485760 then Inl NullDeref else start_threads memory made cache k p
      | (Some a, p) \<Rightarrow>
          let t = (if 0 < cache \<and> cache < 10485760 then snd (allocate_first (memory k) cache (tplThreads p a)) else tplThreads p a);
              (r, t) = thread_start (made k) t; p = on_thread a (\<lambda>_. t) p
          in if r \<noteq> 0 then Inr (False, p) else start_threads memory made cache k p)"

definition tp_create ::
  "(nat \<Rightarrow> thread_env) \<Rightarrow> (nat \<Rightarrow> bool) \<Rightarrow> (nat \<Rightarrow> u64 option) \<Rightarrow> bool \<Rightarrow> int \<Rightarrow> int \<Rightarrow> bool \<Rightarrow> u32 \<Rightarrow> task_pool \<Rightarrow> (int \<times> task_pool) res" where
  "tp_create env memory made queue_memory n queue_size has_cache thread_cache p =
     (if n < 2 \<or> queue_size < 100 \<or> 1000000 < queue_size \<or> \<not> has_cache then Inr (INVALID_PARAMETER, p)
      else case create_pool env (word_of_int n) (tpThreads p) of (ok, tp) \<Rightarrow>
        if \<not> ok then Inr (- 2, p\<lparr>tpThreads := tp\<rparr>)
        else bind_res (start_threads memory made thread_cache (nat n) tp) (\<lambda>(ok, tp).
          if \<not> ok then Inr (- 3, p\<lparr>tpRunning := False, tpThreads := pool_destroy tp\<rparr>)
          else
            let size = (if tpQueueSize p < word_of_int queue_size then word_of_int queue_size else tpQueueSize p)
            in bind_res (cq_init queue_memory size (tpQueue p)) (\<lambda>(r, q).
                 if r \<noteq> 0 then Inr (- 4, p\<lparr>tpRunning := False, tpQueueSize := size, tpThreads := pool_destroy tp, tpQueue := q\<rparr>)
                 else Inr (0, p\<lparr>tpRunning := True, tpSize := word_of_int n, tpReduced := word_of_int n, tpQueueSize := size, tpThreads := tp,
                   tpCache := True, tpQueue := q\<rparr>))))"

text \<open>The end of a pool: whether the threads have all ended is not the pool's business.\<close>

definition tp_destroy :: "task_pool \<Rightarrow> task_pool" where
  "tp_destroy p = p\<lparr>tpRunning := False, tpEvent := (set_event ^^ unat (tpSize p)) (tpEvent p), tpThreads := pool_destroy (tpThreads p), tpClasses := []\<rparr>"

text \<open>That the queue may have no room is not looked at.\<close>

definition push_task :: "bool \<Rightarrow> addr \<Rightarrow> task_pool \<Rightarrow> task_pool res" where
  "push_task memory a p =
     bind_res (cq_push memory a (tpQueue p)) (\<lambda>(ok, q).
       Inr (p\<lparr>tpTasks := (tpTasks p)(a := (tpTasks p a)\<lparr>tskCache := tpCache p\<rparr>), tpQueue := q, tpEvent := set_event (tpEvent p)\<rparr>))"

definition stop_task :: "addr option \<Rightarrow> task_pool \<Rightarrow> task_pool" where
  "stop_task oa p =
     (if \<not> tpRunning p then p
      else case oa of None \<Rightarrow> p | Some a \<Rightarrow> p\<lparr>tpTasks := (tpTasks p)(a := task_stop (tpTasks p a))\<rparr>)"

definition get_free_task :: "nat \<Rightarrow> task_pool \<Rightarrow> addr option \<times> task_pool" where
  "get_free_task ty p =
     (case map_of (tpFree p) ty of
        Some (a # as) \<Rightarrow> (Some a, p\<lparr>tpFree := AList.update ty as (tpFree p)\<rparr>)
      | _ \<Rightarrow>
          (case map_of (tpClasses p) ty of
             None \<Rightarrow> (None, p)
           | Some c \<Rightarrow> (Some (tpNext p), p\<lparr>tpTasks := (tpTasks p)(tpNext p := task_new ty), tpNext := tpNext p + 1\<rparr>)))"

text \<open>A task is only put into a list that it starts; otherwise another one is taken out of the list, and lost.\<close>

definition free_task :: "addr \<Rightarrow> task_pool \<Rightarrow> task_pool" where
  "free_task a p =
     (let ty = tskType (tpTasks p a) in
      case map_of (tpFree p) ty of
        None \<Rightarrow> p\<lparr>tpFree := AList.update ty [a] (tpFree p)\<rparr>
      | Some [] \<Rightarrow> p
      | Some (b # bs) \<Rightarrow> p\<lparr>tpFree := AList.update ty bs (tpFree p)\<rparr>)"

section \<open>Another size\<close>

text \<open>
  A smaller pool: the threads are told under the lock, which is kept while \<open>ResizePool\<close> waits for the event that it
  has just set for the threads.
\<close>

definition shrink_begin :: "u32 \<Rightarrow> task_pool \<Rightarrow> task_pool" where
  "shrink_begin n p = p\<lparr>tpReducing := True, tpReduced := n, tpEvent := (set_event ^^ unat (tpSize p - n)) (tpEvent p)\<rparr>"

text \<open>One turn of its waiting: it goes on (\<open>None\<close>), or returns whether the event was there.\<close>

definition resize_wait :: "nat \<Rightarrow> task_pool \<Rightarrow> bool option \<times> task_pool" where
  "resize_wait ns p =
     (if \<not> tpRunning p then (Some False, p)
      else case event_wait 100 ns (tpEvent p) of (e, k) \<Rightarrow>
        (if e = Took_Event then Some True else if e = Timed_Out then None else Some False, p\<lparr>tpEvent := k\<rparr>))"

text \<open>A larger pool: as many threads as the size given are started, from those that are free and from new ones.\<close>

fun grow_free :: "(nat \<Rightarrow> u64 option) \<Rightarrow> nat \<Rightarrow> nat \<Rightarrow> thread_pool \<Rightarrow> bool \<times> nat \<times> thread_pool" where
  "grow_free made 0 added p = (True, added, p)"
| "grow_free made (Suc k) added p =
     (case get_free_thread p of
        (None, p) \<Rightarrow> grow_free made k added p
      | (Some a, p) \<Rightarrow>
          (case thread_start (made k) (tplThreads p a) of (r, t) \<Rightarrow>
             if r = 0 then grow_free made k (added + 1) (on_thread a (\<lambda>_. t) p) else (False, added, on_thread a (\<lambda>_. t) p)))"

text \<open>The bound of the second loop falls while its counter rises.\<close>

function grow_new :: "(nat \<Rightarrow> u64 option) \<Rightarrow> nat \<Rightarrow> nat \<Rightarrow> nat \<Rightarrow> thread_pool \<Rightarrow> bool \<times> nat \<times> thread_pool" where
  "grow_new made n i added p =
     (if i < n - added then
        case get_free_thread p of
          (None, p) \<Rightarrow> grow_new made n (i + 1) added p
        | (Some a, p) \<Rightarrow>
            (case thread_start (made i) (tplThreads p a) of (r, t) \<Rightarrow>
               if r = 0 then grow_new made n (i + 1) (added + 1) (on_thread a (\<lambda>_. t) p) else (False, added, on_thread a (\<lambda>_. t) p))
      else (True, added, p))"
  by pat_completeness auto
termination by (relation "measure (\<lambda>(made, n, i, added, p). n - i)") auto

definition tp_grow :: "(nat \<Rightarrow> thread_env) \<Rightarrow> (nat \<Rightarrow> u64 option) \<Rightarrow> (nat \<Rightarrow> u64 option) \<Rightarrow> nat \<Rightarrow> task_pool \<Rightarrow> bool \<times> task_pool" where
  "tp_grow env made made2 n p =
     (let (ok, added, tp) = grow_free made n 0 (tpThreads p); p1 = p\<lparr>tpThreads := tp, tpSize := tpSize p + word_of_nat added\<rparr>
      in if \<not> ok then (False, p1)
         else case add_pool_size env (word_of_nat (n - added)) tp of (ok, tp) \<Rightarrow>
           if \<not> ok then (False, p1\<lparr>tpThreads := tp\<rparr>)
           else case grow_new made2 n 0 added tp of (ok, added, tp) \<Rightarrow> (ok, p\<lparr>tpThreads := tp, tpSize := tpSize p + word_of_nat added\<rparr>))"

section \<open>The loop of a thread\<close>

text \<open>Waiting for the event, the part under the lock that may end the thread, taking a task, and giving it back.\<close>

definition worker_wake :: "task_pool \<Rightarrow> task_pool option" where
  "worker_wake p = (case event_wait INFINITE 0 (tpEvent p) of (e, k) \<Rightarrow> if e = Waits then None else Some (p\<lparr>tpEvent := k\<rparr>))"

definition worker_check :: "task_pool \<Rightarrow> bool \<times> task_pool" where
  "worker_check p =
     (if tpReducing p then
        if tpReduced p < tpSize p then (True, p\<lparr>tpSize := tpSize p - 1\<rparr>)
        else (False, p\<lparr>tpReducing := False, tpResizeEvent := set_event (tpResizeEvent p), tpRunningNum := tpRunningNum p + 1\<rparr>)
      else (False, p\<lparr>tpRunningNum := tpRunningNum p + 1\<rparr>))"

definition worker_take :: "task_pool \<Rightarrow> (addr option \<times> task_pool) res" where
  "worker_take p =
     bind_res (if 0 <s cq_size (tpQueue p) then cq_pop_front (tpQueue p) else Inr (None, tpQueue p)) (\<lambda>(x, q).
       Inr (x, case x of Some a \<Rightarrow> p\<lparr>tpQueue := q, tpTasks := (tpTasks p)(a := task_begin (tpTasks p a))\<rparr>
               | None \<Rightarrow> p\<lparr>tpQueue := q, tpRunningNum := tpRunningNum p - 1\<rparr>))"

definition worker_finish :: "u32 \<Rightarrow> addr \<Rightarrow> task_pool \<Rightarrow> task_pool" where
  "worker_finish r a p = free_task a (p\<lparr>tpTasks := (tpTasks p)(a := task_end r (tpTasks p a))\<rparr>)"

text \<open>A thread that ends looks for itself by the lower half of its identifier.\<close>

definition worker_leave :: "u64 \<Rightarrow> task_pool \<Rightarrow> task_pool" where
  "worker_leave h p = (case find_thread (ucast h) (tpThreads p) of None \<Rightarrow> p | Some a \<Rightarrow> p\<lparr>tpThreads := release_thread a (tpThreads p)\<rparr>)"

section \<open>Threads at work\<close>

text \<open>
  The pool with its threads, each one where it is in its loop.  \<open>psResizing\<close>: somebody is in \<open>ResizePool\<close>, with the
  lock.  The lists are what was pushed, taken and run so far.
\<close>

datatype worker = Waiting | Woken | Draining | Working addr | Gone

record pool_state =
  psPool :: task_pool
  psWorkers :: "nat \<Rightarrow> worker"
  psResizing :: bool
  psPushed :: "addr list"
  psTaken :: "addr list"
  psDone :: "addr list"

definition set_worker :: "nat \<Rightarrow> worker \<Rightarrow> pool_state \<Rightarrow> pool_state" where
  "set_worker i w s = s\<lparr>psWorkers := (psWorkers s)(i := w)\<rparr>"

text \<open>The steps of threads that work; \<open>k\<close> is their number.  A pool that is destroyed is left at the next event or task.\<close>

inductive worker_step :: "nat \<Rightarrow> pool_state \<Rightarrow> pool_state \<Rightarrow> bool" for k :: nat where
  Wake: "worker_step k s (set_worker i (if tpRunning p then Woken else Gone) (s\<lparr>psPool := p\<rparr>))"
    if "i < k" "psWorkers s i = Waiting" "worker_wake (psPool s) = Some p"
| Check: "worker_step k s (set_worker i (if ends then Gone else Draining) (s\<lparr>psPool := p\<rparr>))"
    if "i < k" "psWorkers s i = Woken" "\<not> psResizing s" "worker_check (psPool s) = (ends, p)"
| Take: "worker_step k s (set_worker i (Working a) (s\<lparr>psPool := p, psTaken := psTaken s @ [a]\<rparr>))"
    if "i < k" "psWorkers s i = Draining" "tpRunning (psPool s)" "\<not> psResizing s" "worker_take (psPool s) = Inr (Some a, p)"
| Rest: "worker_step k s (set_worker i Waiting (s\<lparr>psPool := p\<rparr>))"
    if "i < k" "psWorkers s i = Draining" "tpRunning (psPool s)" "\<not> psResizing s" "worker_take (psPool s) = Inr (None, p)"
| Finish: "worker_step k s (set_worker i Draining (s\<lparr>psPool := worker_finish r a (psPool s), psDone := psDone s @ [a]\<rparr>))"
    if "i < k" "psWorkers s i = Working a" "\<not> psResizing s"
| Leave: "worker_step k s (set_worker i Gone s)"
    if "i < k" "psWorkers s i = Draining" "\<not> tpRunning (psPool s)"

text \<open>Tasks are pushed as long as fewer than \<open>n - 1\<close> are waiting.\<close>

inductive push_step :: "nat \<Rightarrow> pool_state \<Rightarrow> pool_state \<Rightarrow> bool" for n :: nat where
  Push: "push_step n s (s\<lparr>psPool := p, psPushed := psPushed s @ [a]\<rparr>)"
    if "\<not> psResizing s" "length (cq_content (tpQueue (psPool s))) < n - 1" "push_task memory a (psPool s) = Inr p"

text \<open>The call of \<open>ResizePool\<close> for fewer threads, its waiting, and its end.\<close>

inductive resize_step :: "pool_state \<Rightarrow> pool_state \<Rightarrow> bool" where
  Shrink: "resize_step s (s\<lparr>psPool := shrink_begin m (psPool s), psResizing := True\<rparr>)"
    if "\<not> psResizing s" "2 \<le> m" "m < tpSize (psPool s)"
| Goes_On: "resize_step s (s\<lparr>psPool := p\<rparr>)" if "psResizing s" "resize_wait ns (psPool s) = (None, p)"
| Returns: "resize_step s (s\<lparr>psPool := p, psResizing := False\<rparr>)" if "psResizing s" "resize_wait ns (psPool s) = (Some r, p)"

inductive_cases worker_step_elim: "worker_step k s s'"
inductive_cases push_step_elim: "push_step n s s'"
inductive_cases resize_step_elim: "resize_step s s'"

definition pool_step :: "nat \<Rightarrow> nat \<Rightarrow> pool_state \<Rightarrow> pool_state \<Rightarrow> bool" where
  "pool_step n k s s' \<longleftrightarrow> worker_step k s s' \<or> push_step n s s' \<or> resize_step s s'"

text \<open>A pool that has been created: its threads wait, and nothing has been pushed.\<close>

definition pool_start :: "nat \<Rightarrow> nat \<Rightarrow> pool_state \<Rightarrow> bool" where
  "pool_start n k s \<longleftrightarrow> (\<forall>i<k. psWorkers s i = Waiting) \<and> \<not> psResizing s \<and> tpRunning (psPool s) \<and> psPushed s = [] \<and> psTaken s = [] \<and> psDone s = [] \<and>
     tpSize (psPool s) = word_of_nat k \<and> \<not> tpReducing (psPool s) \<and> tpEvent (psPool s) = 0 \<and> cq_ok n (tpQueue (psPool s)) \<and>
     cq_content (tpQueue (psPool s)) = []"

end
