(* ===== verification/Task_Pool_Correct.thy ===== *)
theory Task_Pool_Correct imports Main "HOL-Library.Multiset" Task_Pool begin

text \<open>
  What the task pool promises: every task that is pushed is run, by one thread, in order, whatever the threads do.  And
  what becomes of it when its size is reduced.
\<close>

section \<open>The steps on the queue\<close>

definition pool_queue :: "pool_state \<Rightarrow> addr list" where
  "pool_queue s = cq_content (tpQueue (psPool s))"

lemma worker_take_ok:
  assumes "cq_ok n (tpQueue p)"
  shows "worker_take p = Inr (None, p\<lparr>tpRunningNum := tpRunningNum p - 1\<rparr>) \<and> cq_content (tpQueue p) = [] \<or>
    (\<exists>a as q. cq_content (tpQueue p) = a # as \<and> worker_take p = Inr (Some a, p\<lparr>tpQueue := q, tpTasks := (tpTasks p)(a := task_begin (tpTasks p a))\<rparr>) \<and>
      cq_ok n q \<and> cq_content q = as)"
  using mq_get_ok [OF assms] by (auto simp: mq_get_def worker_take_def)

lemma push_task_ok:
  assumes "cq_ok n (tpQueue p)" and "length (cq_content (tpQueue p)) < n - 1"
  shows "\<exists>q. push_task memory a p = Inr (p\<lparr>tpTasks := (tpTasks p)(a := (tpTasks p a)\<lparr>tskCache := tpCache p\<rparr>), tpQueue := q, tpEvent := Suc (tpEvent p)\<rparr>) \<and>
    cq_ok n q \<and> cq_content q = cq_content (tpQueue p) @ [a]"
  using cq_push_ok [OF assms, of memory a] by (auto simp: push_task_def set_event_def)

lemma free_task_fields [simp]:
  "tpQueue (free_task a p) = tpQueue p" "tpEvent (free_task a p) = tpEvent p" "tpReducing (free_task a p) = tpReducing p"
  "tpRunning (free_task a p) = tpRunning p" "tpSize (free_task a p) = tpSize p" "tpReduced (free_task a p) = tpReduced p"
  by (auto simp: free_task_def Let_def split: option.splits list.splits)

lemma worker_finish_fields [simp]:
  "tpQueue (worker_finish r a p) = tpQueue p" "tpEvent (worker_finish r a p) = tpEvent p" "tpReducing (worker_finish r a p) = tpReducing p"
  "tpRunning (worker_finish r a p) = tpRunning p" "tpSize (worker_finish r a p) = tpSize p" "tpReduced (worker_finish r a p) = tpReduced p"
  by (simp_all add: worker_finish_def)

lemma worker_wake_iff: "worker_wake p = Some p' \<longleftrightarrow> (\<exists>k. tpEvent p = Suc k \<and> p' = p\<lparr>tpEvent := k\<rparr>)"
  by (auto simp: worker_wake_def event_wait_def split: nat.splits)

section \<open>The invariant\<close>

text \<open>The tasks that threads are working on, and how much a state still has to do.\<close>

definition working :: "worker \<Rightarrow> addr multiset" where
  "working w = (case w of Working a \<Rightarrow> {#a#} | _ \<Rightarrow> {#})"

definition active :: "worker \<Rightarrow> bool" where
  "active w \<longleftrightarrow> w = Woken \<or> w = Draining \<or> (\<exists>a. w = Working a)"

definition phase_weight :: "worker \<Rightarrow> nat" where
  "phase_weight w = (case w of Woken \<Rightarrow> 2 | Draining \<Rightarrow> 1 | Working a \<Rightarrow> 2 | _ \<Rightarrow> 0)"

definition work_left :: "nat \<Rightarrow> pool_state \<Rightarrow> nat" where
  "work_left k s = 3 * tpEvent (psPool s) + 2 * length (pool_queue s) + (\<Sum>i<k. phase_weight (psWorkers s i))"

definition some_active :: "nat \<Rightarrow> (nat \<Rightarrow> worker) \<Rightarrow> bool" where
  "some_active k g \<longleftrightarrow> (\<exists>i<k. active (g i))"

definition none_gone :: "nat \<Rightarrow> (nat \<Rightarrow> worker) \<Rightarrow> bool" where
  "none_gone k g \<longleftrightarrow> (\<forall>i<k. g i \<noteq> Gone)"

definition pool_ok :: "nat \<Rightarrow> nat \<Rightarrow> pool_state \<Rightarrow> bool" where
  "pool_ok n k s \<longleftrightarrow> cq_ok n (tpQueue (psPool s)) \<and> \<not> psResizing s \<and> tpRunning (psPool s) \<and> \<not> tpReducing (psPool s) \<and>
     psTaken s @ pool_queue s = psPushed s \<and> mset (psDone s) + (\<Sum>i<k. working (psWorkers s i)) = mset (psTaken s) \<and>
     (pool_queue s \<noteq> [] \<longrightarrow> 0 < tpEvent (psPool s) \<or> some_active k (psWorkers s)) \<and> none_gone k (psWorkers s)"

lemma sum_update:
  fixes f :: "'w \<Rightarrow> 'm :: comm_monoid_add" and k :: nat
  assumes "i < k"
  shows "\<exists>rest. (\<Sum>j<k. f (g j)) = f (g i) + rest \<and> (\<forall>w. (\<Sum>j<k. f ((g(i := w)) j)) = f w + rest)"
proof (intro exI conjI allI)
  let ?rest = "\<Sum>j\<in>{..<k} - {i}. f (g j)"
  have i: "i \<in> {..<k}" "finite {..<k}" using assms by simp_all
  show "(\<Sum>j<k. f (g j)) = f (g i) + ?rest" by (rule sum.remove [OF i(2,1)])
  show "(\<Sum>j<k. f ((g(i := w)) j)) = f w + ?rest" for w
  proof -
    have "(\<Sum>j<k. f ((g(i := w)) j)) = f ((g(i := w)) i) + (\<Sum>j\<in>{..<k} - {i}. f ((g(i := w)) j))" by (rule sum.remove [OF i(2,1)])
    moreover have "(\<Sum>j\<in>{..<k} - {i}. f ((g(i := w)) j)) = ?rest" by (rule sum.cong) auto
    ultimately show ?thesis by simp
  qed
qed

text \<open>What a step of thread \<open>i\<close> does to the sums.\<close>

lemma worker_sums:
  assumes "i < k" and "psWorkers s i = w"
  shows "(\<Sum>j<k. working (((psWorkers s)(i := w')) j)) + working w = (\<Sum>j<k. working (psWorkers s j)) + working w'"
    and "(\<Sum>j<k. phase_weight (((psWorkers s)(i := w')) j)) + phase_weight w = (\<Sum>j<k. phase_weight (psWorkers s j)) + phase_weight w'"
  using sum_update [OF assms(1), of working "psWorkers s"] sum_update [OF assms(1), of phase_weight "psWorkers s"] assms(2)
  by (metis add.assoc add.commute)+

lemma worker_step_cases:
  assumes "worker_step k s s'" and "pool_ok n k s"
  obtains (wake) i e where "i < k" "psWorkers s i = Waiting" "tpEvent (psPool s) = Suc e" "s' = set_worker i Woken (s\<lparr>psPool := (psPool s)\<lparr>tpEvent := e\<rparr>\<rparr>)"
  | (check) i where "i < k" "psWorkers s i = Woken" "s' = set_worker i Draining (s\<lparr>psPool := (psPool s)\<lparr>tpRunningNum := tpRunningNum (psPool s) + 1\<rparr>\<rparr>)"
  | (take) i a as q where "i < k" "psWorkers s i = Draining" "pool_queue s = a # as" "cq_ok n q" "cq_content q = as"
      "s' = set_worker i (Working a) (s\<lparr>psPool := (psPool s)\<lparr>tpQueue := q, tpTasks := (tpTasks (psPool s))(a := task_begin (tpTasks (psPool s) a))\<rparr>,
        psTaken := psTaken s @ [a]\<rparr>)"
  | (rest) i where "i < k" "psWorkers s i = Draining" "pool_queue s = []"
      "s' = set_worker i Waiting (s\<lparr>psPool := (psPool s)\<lparr>tpRunningNum := tpRunningNum (psPool s) - 1\<rparr>\<rparr>)"
  | (finish) i a r where "i < k" "psWorkers s i = Working a"
      "s' = set_worker i Draining (s\<lparr>psPool := worker_finish r a (psPool s), psDone := psDone s @ [a]\<rparr>)"
proof -
  have ok: "cq_ok n (tpQueue (psPool s))" "\<not> tpReducing (psPool s)" "tpRunning (psPool s)" using assms(2) by (simp_all add: pool_ok_def)
  note t = worker_take_ok [OF ok(1)]
  from assms(1) show thesis
  proof (rule worker_step_elim)
    fix i p
    assume a: "s' = set_worker i (if tpRunning p then Woken else Gone) (s\<lparr>psPool := p\<rparr>)" "i < k" "psWorkers s i = Waiting" "worker_wake (psPool s) = Some p"
    then obtain e where "tpEvent (psPool s) = Suc e" "p = (psPool s)\<lparr>tpEvent := e\<rparr>" by (auto simp: worker_wake_iff)
    then show thesis using a ok(3) by (intro wake) simp_all
  next
    fix i ends p
    assume a: "s' = set_worker i (if ends then Gone else Draining) (s\<lparr>psPool := p\<rparr>)" "i < k" "psWorkers s i = Woken" "worker_check (psPool s) = (ends, p)"
    then have "\<not> ends" "p = (psPool s)\<lparr>tpRunningNum := tpRunningNum (psPool s) + 1\<rparr>" using ok(2) by (auto simp: worker_check_def)
    then show thesis using a by (intro check) simp_all
  next
    fix i a p
    assume a: "s' = set_worker i (Working a) (s\<lparr>psPool := p, psTaken := psTaken s @ [a]\<rparr>)" "i < k" "psWorkers s i = Draining" "worker_take (psPool s) = Inr (Some a, p)"
    obtain as q where q: "cq_content (tpQueue (psPool s)) = a # as" "p = (psPool s)\<lparr>tpQueue := q, tpTasks := (tpTasks (psPool s))(a := task_begin (tpTasks (psPool s) a))\<rparr>"
      "cq_ok n q" "cq_content q = as" using t a(4) by auto
    show thesis by (rule take [OF a(2,3) _ q(3,4)]) (use q(1,2) a(1) in \<open>simp_all add: pool_queue_def\<close>)
  next
    fix i p
    assume a: "s' = set_worker i Waiting (s\<lparr>psPool := p\<rparr>)" "i < k" "psWorkers s i = Draining" "worker_take (psPool s) = Inr (None, p)"
    have "cq_content (tpQueue (psPool s)) = []" "p = (psPool s)\<lparr>tpRunningNum := tpRunningNum (psPool s) - 1\<rparr>" using t a(4) by auto
    then show thesis using a by (intro rest) (simp_all add: pool_queue_def)
  next
    fix i r a
    assume "s' = set_worker i Draining (s\<lparr>psPool := worker_finish r a (psPool s), psDone := psDone s @ [a]\<rparr>)" "i < k" "psWorkers s i = Working a"
    then show thesis by (intro finish) simp_all
  next
    fix i
    assume "\<not> tpRunning (psPool s)"
    then show thesis using ok(3) by simp
  qed
qed

lemma worker_values [simp]:
  "working Waiting = {#}" "working Woken = {#}" "working Draining = {#}" "working (Working a) = {#a#}"
  "phase_weight Waiting = 0" "phase_weight Woken = 2" "phase_weight Draining = 1" "phase_weight (Working a) = 2"
  by (simp_all add: working_def phase_weight_def)

lemma update_active: "i < k \<Longrightarrow> active w \<Longrightarrow> some_active k (g(i := w))"
  by (auto simp: some_active_def)

lemma active_values [simp]: "active Woken" "active Draining" "active (Working a)"
  by (simp_all add: active_def)

lemma update_none_gone: "none_gone k g \<Longrightarrow> w \<noteq> Gone \<Longrightarrow> none_gone k (g(i := w))"
  by (simp add: none_gone_def)

text \<open>Steps of the threads keep the invariant, and less is left to do.\<close>

lemma worker_step_ok:
  assumes "worker_step k s s'" and "pool_ok n k s"
  shows "pool_ok n k s' \<and> work_left k s' < work_left k s \<and> psPushed s' = psPushed s"
  using assms
proof (cases rule: worker_step_cases)
  case (wake i e)
  then show ?thesis using assms(2) worker_sums [OF wake(1,2), of Woken]
    by (auto simp: pool_ok_def set_worker_def pool_queue_def work_left_def update_active update_none_gone simp del: fun_upd_apply)
next
  case (check i)
  then show ?thesis using assms(2) worker_sums [OF check(1,2), of Draining]
    by (auto simp: pool_ok_def set_worker_def pool_queue_def work_left_def update_active update_none_gone simp del: fun_upd_apply)
next
  case (take i a as q)
  then show ?thesis using assms(2) worker_sums [OF take(1,2), of "Working a"]
    by (auto simp: pool_ok_def set_worker_def pool_queue_def work_left_def update_active update_none_gone simp del: fun_upd_apply)
next
  case (rest i)
  then show ?thesis using assms(2) worker_sums [OF rest(1,2), of Waiting]
    by (auto simp: pool_ok_def set_worker_def pool_queue_def work_left_def update_active update_none_gone simp del: fun_upd_apply)
next
  case (finish i a r)
  have e: "(\<Sum>j<k. working (psWorkers s j)) = add_mset a (\<Sum>j<k. working (((psWorkers s)(i := Draining)) j))"
    using worker_sums(1) [OF finish(1,2), of Draining] by simp
  show ?thesis using finish assms(2) worker_sums(2) [OF finish(1,2), of Draining]
    by (auto simp: pool_ok_def set_worker_def pool_queue_def work_left_def update_active update_none_gone e simp del: fun_upd_apply)
qed

lemma push_step_ok:
  assumes "push_step n s s'" and "pool_ok n k s"
  shows "pool_ok n k s'"
  using assms(1)
proof (cases rule: push_step.cases)
  case (Push memory a p)
  note s' = Push(1) and len = Push(3) and p = Push(4)
  have "cq_ok n (tpQueue (psPool s))" using assms(2) by (simp add: pool_ok_def)
  from push_task_ok [OF this len, of memory a] p obtain q where
    "p = (psPool s)\<lparr>tpTasks := (tpTasks (psPool s))(a := (tpTasks (psPool s) a)\<lparr>tskCache := tpCache (psPool s)\<rparr>), tpQueue := q, tpEvent := Suc (tpEvent (psPool s))\<rparr>"
    "cq_ok n q" "cq_content q = cq_content (tpQueue (psPool s)) @ [a]" by auto
  then show ?thesis using assms(2) s' by (auto simp: pool_ok_def pool_queue_def)
qed

lemma pool_start_ok: "pool_start n k s \<Longrightarrow> pool_ok n k s"
  by (simp add: pool_start_def pool_ok_def pool_queue_def none_gone_def)

text \<open>The pool at work: tasks are pushed and the threads take their steps.\<close>

definition work_step :: "nat \<Rightarrow> nat \<Rightarrow> pool_state \<Rightarrow> pool_state \<Rightarrow> bool" where
  "work_step n k s s' \<longleftrightarrow> worker_step k s s' \<or> push_step n s s'"

lemma work_steps_ok: "(work_step n k)\<^sup>*\<^sup>* s s' \<Longrightarrow> pool_ok n k s \<Longrightarrow> pool_ok n k s'"
  by (induction rule: rtranclp_induct) (auto simp: work_step_def dest: worker_step_ok push_step_ok)

text \<open>As long as something is to be done some thread can go on.\<close>

lemma pool_stuck:
  assumes "pool_ok n k s" and "0 < k" and "\<forall>s'. \<not> worker_step k s s'"
  shows "pool_queue s = [] \<and> (\<forall>i<k. psWorkers s i = Waiting) \<and> tpEvent (psPool s) = 0"
proof -
  have ok: "cq_ok n (tpQueue (psPool s))" "\<not> psResizing s" "tpRunning (psPool s)" "none_gone k (psWorkers s)" using assms(1) by (simp_all add: pool_ok_def)
  have waiting: "psWorkers s i = Waiting" if lt: "i < k" for i
  proof (rule ccontr)
    assume "psWorkers s i \<noteq> Waiting"
    then consider "psWorkers s i = Woken" | "psWorkers s i = Draining" | a where "psWorkers s i = Working a"
      using ok(4) lt by (cases "psWorkers s i") (auto simp: none_gone_def)
    then show False
    proof cases
      case 1
      then show False using worker_step.Check [OF lt 1 ok(2)] assms(3) by (metis surj_pair)
    next
      case 2
      then show False using worker_take_ok [OF ok(1)] worker_step.Take [OF lt 2 ok(3,2)] worker_step.Rest [OF lt 2 ok(3,2)] assms(3) by blast
    next
      case 3
      then show False using worker_step.Finish [OF lt 3 ok(2)] assms(3) by blast
    qed
  qed
  have ev: "tpEvent (psPool s) = 0"
  proof (rule ccontr)
    assume "tpEvent (psPool s) \<noteq> 0"
    then obtain e where "worker_wake (psPool s) = Some ((psPool s)\<lparr>tpEvent := e\<rparr>)" by (metis not0_implies_Suc worker_wake_iff)
    then show False using worker_step.Wake [OF assms(2) waiting [OF assms(2)]] assms(3) by blast
  qed
  have "pool_queue s = []" using assms(1) ev waiting by (auto simp: pool_ok_def some_active_def active_def)
  then show ?thesis using waiting ev by simp
qed

section \<open>Every task is run\<close>

text \<open>A pool that \<open>Create\<close> has made, with its threads in front of their loops.\<close>

definition pool_of :: "task_pool \<Rightarrow> pool_state" where
  "pool_of p = \<lparr>psPool = p, psWorkers = (\<lambda>i. Waiting), psResizing = False, psPushed = [], psTaken = [], psDone = []\<rparr>"

lemma created_pool_starts:
  assumes "tp_create env memory made queue_memory n queue_size has_cache cache (task_pool_new num) = Inr (0, p)" and "queue_memory"
  shows "pool_start (max 10000 (nat queue_size)) (nat n) (pool_of p) \<and> 2 \<le> nat n"
proof -
  let ?size = "if tpQueueSize (task_pool_new num) < word_of_int queue_size then word_of_int queue_size else tpQueueSize (task_pool_new num) :: u32"
  have args: "2 \<le> n" "100 \<le> queue_size" "queue_size \<le> 1000000" "has_cache"
    using assms(1) by (auto simp: tp_create_def INVALID_PARAMETER_def split: if_splits)
  obtain tp where tp: "create_pool env (word_of_int n) (tpThreads (task_pool_new num)) = (True, tp)"
    using assms(1) args by (cases "create_pool env (word_of_int n) (tpThreads (task_pool_new num))") (auto simp: tp_create_def split: if_splits)
  obtain tp2 where tp2: "start_threads memory made cache (nat n) tp = Inr (True, tp2)"
    using assms(1) args tp by (auto simp: tp_create_def bind_res_Inr_iff split: if_splits)
  have un: "unat (word_of_int queue_size :: u32) = nat queue_size"
  proof -
    have "uint (word_of_int queue_size :: u32) = queue_size" using args(2,3) by (simp only: uint_word_of_int) simp
    then show ?thesis by (simp only: unat_eq_nat_uint)
  qed
  have "(10000 :: u32) < word_of_int queue_size \<longleftrightarrow> 10000 < nat queue_size" by (simp add: word_less_nat_alt un)
  then have size: "unat ?size = max 10000 (nat queue_size)" using un by (simp add: task_pool_new_def)
  have bounds: "2 \<le> max 10000 (nat queue_size)" "24 * max 10000 (nat queue_size) < 2 ^ 32" using args(3) by auto
  obtain q :: "addr cx_queue" where q: "cq_init True ?size cq_new = Inr (0, q)" "cq_ok (max 10000 (nat queue_size)) q" "cq_content q = []"
    using cq_init_ok [of ?size, where ?'a = addr, unfolded size] bounds by blast
  have new: "tpQueue (task_pool_new num) = cq_new" "\<not> tpReducing (task_pool_new num)" "tpEvent (task_pool_new num) = 0"
    by (simp_all add: task_pool_new_def)
  let ?p = "(task_pool_new num)\<lparr>tpRunning := True, tpSize := word_of_int n, tpReduced := word_of_int n, tpQueueSize := ?size, tpThreads := tp2,
      tpCache := True, tpQueue := q\<rparr>"
  have no: "\<not> (n < 2 \<or> queue_size < 100 \<or> 1000000 < queue_size \<or> \<not> has_cache)" using args by auto
  have "tp_create env memory made queue_memory n queue_size has_cache cache (task_pool_new num) = Inr (0, ?p)"
    unfolding tp_create_def if_not_P [OF no] tp Let_def using tp2 q(1) new(1) assms(2) by (simp del: task_pool.simps)
  then have p: "p = ?p" using assms(1) by (simp only: sum.inject prod.inject)
  show ?thesis unfolding p using args(1) q(2,3) new by (simp add: pool_start_def pool_of_def)
qed


definition demo_thread_env :: "nat \<Rightarrow> thread_env" where
  "demo_thread_env i = \<lparr>teMemory = True, teMade = Some (word_of_nat (Suc i)), teState = 7, teInPool = False\<rparr>"

lemma demo_pool_created: "\<exists>p. tp_create demo_thread_env (\<lambda>i. True) (\<lambda>i. None) True (int 2) 100 True 0 (task_pool_new 0) = Inr (0, p)"
proof -
  obtain q :: "addr cx_queue" where q: "cq_init True 10000 cq_new = Inr (0, q)" using cq_init_ok [of 10000, where ?'a = addr] by auto
  have two: "add_threads False env 2 tp = add_threads False env (Suc (Suc 0)) tp"
    "start_threads memory made cache 2 tp = start_threads memory made cache (Suc (Suc 0)) tp" for env tp memory made cache
    by (simp_all only: numeral_2_eq_2)
  have create: "create_pool demo_thread_env 2 thread_pool_new = (True, tp) \<Longrightarrow> \<exists>tp'. start_threads (\<lambda>i. True) (\<lambda>i. None) 0 2 tp = Inr (True, tp')" for tp
    by (auto simp: create_pool_def thread_pool_new_def two add_thread_def demo_thread_env_def thread_create_def get_free_thread_def thread_start_def
      thread_new_def on_thread_def Let_def)
  have "\<exists>tp. create_pool demo_thread_env 2 thread_pool_new = (True, tp)"
    by (simp add: create_pool_def thread_pool_new_def two add_thread_def demo_thread_env_def thread_create_def)
  then obtain tp tp' where "create_pool demo_thread_env 2 thread_pool_new = (True, tp)" "start_threads (\<lambda>i. True) (\<lambda>i. None) 0 2 tp = Inr (True, tp')"
    using create by blast
  then show ?thesis using q by (auto simp: tp_create_def task_pool_new_def Let_def)
qed


section \<open>A smaller pool\<close>

text \<open>The steps of everybody while \<open>ResizePool\<close> waits and goes on waiting.\<close>

definition during_resize :: "nat \<Rightarrow> nat \<Rightarrow> pool_state \<Rightarrow> pool_state \<Rightarrow> bool" where
  "during_resize n k s s' \<longleftrightarrow> worker_step k s s' \<or> push_step n s s' \<or>
     (\<exists>ns p. psResizing s \<and> resize_wait ns (psPool s) = (None, p) \<and> s' = s\<lparr>psPool := p\<rparr>)"

text \<open>The threads have all the events, and wait for the lock.\<close>

definition all_woken :: "nat \<Rightarrow> pool_state \<Rightarrow> bool" where
  "all_woken k s \<longleftrightarrow> psResizing s \<and> tpRunning (psPool s) \<and> tpEvent (psPool s) = 0 \<and> (\<forall>i<k. psWorkers s i = Waiting \<or> psWorkers s i = Woken)"

lemma resize_wait_empty:
  "tpRunning p \<Longrightarrow> tpEvent p = 0 \<Longrightarrow> resize_wait ns p = (if ns < 900000000 then None else Some False, p)"
  by (simp add: resize_wait_def event_wait_def INFINITE_def not_less)

lemma all_woken_stays:
  assumes "during_resize n k s s'" and "all_woken k s"
  shows "s' = s"
proof -
  have a: "psResizing s" "tpRunning (psPool s)" "tpEvent (psPool s) = 0" "\<forall>i<k. psWorkers s i = Waiting \<or> psWorkers s i = Woken"
    using assms(2) by (simp_all add: all_woken_def)
  have "\<not> worker_step k s s'" using a by (auto elim!: worker_step_elim simp: worker_wake_iff)
  moreover have "\<not> push_step n s s'" using a by (auto elim!: push_step_elim)
  ultimately show ?thesis using assms(1) resize_wait_empty [OF a(2,3)] by (auto simp: during_resize_def split: if_splits)
qed

lemma all_woken_for_ever: "(during_resize n k)\<^sup>*\<^sup>* s s' \<Longrightarrow> all_woken k s \<Longrightarrow> s' = s"
  by (induction rule: rtranclp_induct) (auto dest: all_woken_stays)

text \<open>The threads take the events one after the other.\<close>

definition woken_state :: "u32 \<Rightarrow> nat \<Rightarrow> pool_state \<Rightarrow> pool_state" where
  "woken_state m j s = s\<lparr>psPool := (shrink_begin m (psPool s))\<lparr>tpEvent := unat (tpSize (psPool s) - m) - j\<rparr>,
     psWorkers := (\<lambda>i. if i < j then Woken else psWorkers s i), psResizing := True\<rparr>"

lemma set_event_power: "(set_event ^^ d) e = e + d"
  by (induction d) (simp_all add: set_event_def)

lemma woken_step:
  assumes "\<forall>i<k. psWorkers s i = Waiting" and "tpRunning (psPool s)" and "j < unat (tpSize (psPool s) - m)" and "unat (tpSize (psPool s) - m) \<le> k"
  shows "worker_step k (woken_state m j s) (woken_state m (Suc j) s)"
proof -
  let ?s = "woken_state m j s" and ?p = "(psPool (woken_state m j s))\<lparr>tpEvent := unat (tpSize (psPool s) - m) - Suc j\<rparr>"
  have "worker_wake (psPool ?s) = Some ?p" using assms(3)
    by (auto simp: worker_wake_iff woken_state_def intro!: exI [of _ "unat (tpSize (psPool s) - m) - Suc j"])
  moreover have "j < k" "psWorkers ?s j = Waiting" using assms by (simp_all add: woken_state_def)
  ultimately have "worker_step k ?s (set_worker j (if tpRunning ?p then Woken else Gone) (?s\<lparr>psPool := ?p\<rparr>))" by (intro worker_step.Wake)
  moreover have "set_worker j (if tpRunning ?p then Woken else Gone) (?s\<lparr>psPool := ?p\<rparr>) = woken_state m (Suc j) s"
    using assms(2) by (cases s) (auto simp: set_worker_def woken_state_def shrink_begin_def fun_eq_iff less_Suc_eq)
  ultimately show ?thesis by simp
qed

text \<open>
  C19: making a pool smaller can bring everything to a halt.  When the threads of an idle pool take the events that
  \<open>ResizePool\<close> has set for them before it gets one itself, they wait for the lock that it holds while it waits for another
  event, and nobody who has a task to push gets the lock either: whatever is done, no task is pushed or taken.  The call
  never succeeds; it ends, with failure, only when a wait begins in the last tenth of a second, where the system refuses it.
\<close>

theorem shrinking_pool_stands_still:
  assumes "\<forall>i<k. psWorkers s i = Waiting" and "\<not> psResizing s" and "tpRunning (psPool s)" and "tpEvent (psPool s) = 0"
    and "2 \<le> m" and "m < tpSize (psPool s)" and "unat (tpSize (psPool s) - m) \<le> k"
  shows "\<exists>s1. (pool_step n k)\<^sup>*\<^sup>* s s1 \<and> (\<forall>s2. (during_resize n k)\<^sup>*\<^sup>* s1 s2 \<longrightarrow>
    psResizing s2 \<and> psPushed s2 = psPushed s \<and> psTaken s2 = psTaken s \<and>
    (\<forall>ns. fst (resize_wait ns (psPool s2)) = (if ns < 900000000 then None else Some False)))"
proof -
  let ?d = "unat (tpSize (psPool s) - m)"
  have "woken_state m 0 s = s\<lparr>psPool := shrink_begin m (psPool s), psResizing := True\<rparr>"
    using assms(4) by (simp add: woken_state_def shrink_begin_def set_event_power)
  then have "pool_step n k s (woken_state m 0 s)" using resize_step.Shrink [OF assms(2,5,6)] by (simp add: pool_step_def)
  moreover have "(pool_step n k)\<^sup>*\<^sup>* (woken_state m 0 s) (woken_state m j s)" if "j \<le> ?d" for j
    using that
  proof (induction j)
    case (Suc j)
    then have "pool_step n k (woken_state m j s) (woken_state m (Suc j) s)"
      using woken_step [OF assms(1,3) _ assms(7)] by (simp add: pool_step_def)
    then show ?case using Suc by (meson Suc_leD rtranclp.rtrancl_into_rtrancl)
  qed simp
  ultimately have run: "(pool_step n k)\<^sup>*\<^sup>* s (woken_state m ?d s)" by (meson converse_rtranclp_into_rtranclp order_refl)
  have w: "all_woken k (woken_state m ?d s)" using assms(1,3) by (simp add: all_woken_def woken_state_def shrink_begin_def)
  then have "fst (resize_wait ns (psPool (woken_state m ?d s))) = (if ns < 900000000 then None else Some False)" for ns
    using resize_wait_empty [of "psPool (woken_state m ?d s)" ns] by (simp add: all_woken_def)
  moreover have "psPushed (woken_state m ?d s) = psPushed s" "psTaken (woken_state m ?d s) = psTaken s" "psResizing (woken_state m ?d s)"
    by (simp_all add: woken_state_def)
  ultimately have "\<forall>s2. (during_resize n k)\<^sup>*\<^sup>* (woken_state m ?d s) s2 \<longrightarrow> psResizing s2 \<and> psPushed s2 = psPushed s \<and> psTaken s2 = psTaken s \<and>
      (\<forall>ns. fst (resize_wait ns (psPool s2)) = (if ns < 900000000 then None else Some False))"
    using all_woken_for_ever [OF _ w] by metis
  then show ?thesis using run by blast
qed

theorem shrinking_pool_stands_still_witness:
  "let s = pool_of ((task_pool_new 0)\<lparr>tpRunning := True, tpSize := 3\<rparr>) in
   \<exists>s1. (pool_step 100 3)\<^sup>*\<^sup>* s s1 \<and> (\<forall>s2. (during_resize 100 3)\<^sup>*\<^sup>* s1 s2 \<longrightarrow> psResizing s2 \<and> psPushed s2 = [] \<and> psTaken s2 = [] \<and>
     (\<forall>ns. fst (resize_wait ns (psPool s2)) = (if ns < 900000000 then None else Some False)))"
  using shrinking_pool_stands_still [of 3 "pool_of ((task_pool_new 0)\<lparr>tpRunning := True, tpSize := 3\<rparr>)" 2 100]
  by (simp add: pool_of_def task_pool_new_def)

end
