(* ===== verification/Internal_Client.thy ===== *)
theory Internal_Client imports Main Server begin

text \<open>
  \<open>CXRPCObjectClientInServer\<close> (src/CXCommunicationServer/src/CXRPCObjectClientInServer.cpp): an object of the server that
  is the client of an object of another server, with the requests (src/CXCommon/src/CXRPCRequest.cpp) and the replies
  (src/CXCommon/src/CXRPCReply.cpp) that the objects of the server give each other.
\<close>

section \<open>Requests and replies\<close>

text \<open>\<open>rqRequester\<close> is the object that asks, and \<open>rqFun\<close> the step of its state machine that the reply goes to.\<close>

record rpc_request =
  rqID :: string
  rqFun :: u32
  rqObject :: string
  rqBytes :: "byte list"
  rqTime :: int
  rqRequester :: "addr option"

definition request_none :: "int \<Rightarrow> rpc_request" where
  "request_none now = \<lparr>rqID = [], rqFun = 0, rqObject = [], rqBytes = replicate CX_GUID_LEN 0, rqTime = now, rqRequester = None\<rparr>"

definition request_new :: "int \<Rightarrow> string \<Rightarrow> u32 \<Rightarrow> string \<Rightarrow> byte list \<Rightarrow> addr option \<Rightarrow> rpc_request" where
  "request_new now i fn ob bs p = \<lparr>rqID = i, rqFun = fn, rqObject = ob, rqBytes = take CX_GUID_LEN bs, rqTime = now, rqRequester = p\<rparr>"

definition request_valid :: "rpc_request \<Rightarrow> bool" where
  "request_valid q \<longleftrightarrow> rqID q \<noteq> [] \<and> rqFun q \<noteq> 0 \<and> rqObject q \<noteq> [] \<and> rqRequester q \<noteq> None"

text \<open>\<open>rpData\<close> is the memory from the pointer \<open>m_pbyReplyData\<close> on, if there is one.\<close>

record rpc_reply =
  rpContent :: string
  rpCode :: u32
  rpData :: "byte list option"
  rpDataLen :: u32
  rpValue1 :: u32
  rpValue2 :: u32

definition rpc_reply_none :: rpc_reply where
  "rpc_reply_none = \<lparr>rpContent = [], rpCode = 0, rpData = None, rpDataLen = 0, rpValue1 = 0, rpValue2 = 0\<rparr>"

definition rpc_reply_new :: "string \<Rightarrow> u32 \<Rightarrow> byte list option \<Rightarrow> u32 \<Rightarrow> u32 \<Rightarrow> u32 \<Rightarrow> rpc_reply" where
  "rpc_reply_new t code d n v1 v2 = \<lparr>rpContent = t, rpCode = code, rpData = d, rpDataLen = n, rpValue1 = v1, rpValue2 = v2\<rparr>"

section \<open>State\<close>

text \<open>
  The fields that the class adds to \<open>rpc_obj\<close>, without \<open>m_bCreated\<close>, which nothing sets; whether it is aligned is
  \<open>objAligned\<close>.  \<open>icServer\<close> tells whether the server is set.
\<close>

record inner_client =
  icServer :: bool
  icCon :: "addr option"
  icSession :: "addr option"
  icIP :: string
  icPort :: u16
  icRequests :: "string \<rightharpoonup> rpc_request"

definition inner_client_new :: inner_client where
  "inner_client_new = \<lparr>icServer = False, icCon = None, icSession = None, icIP = [], icPort = 0, icRequests = Map.empty\<rparr>"

text \<open>
  A task that connects (src/CXCommunicationServer/src/CXTaskCreateConnection.cpp): the addresses, how to log in, and the
  connection, the first request and the object it is for.  The server always asks for the same address.
\<close>

record create_task =
  ctRemoteIP :: string
  ctRemotePort :: u16
  ctLocalIP :: string
  ctLocalPort :: u16
  ctServer :: bool
  ctUser :: string
  ctPassword :: string
  ctKey :: string
  ctUseKey :: bool
  ctRequest :: string
  ctObject :: "addr option"
  ctCon :: "addr option"

definition create_task_reset :: create_task where
  "create_task_reset = \<lparr>ctRemoteIP = [], ctRemotePort = 0, ctLocalIP = [], ctLocalPort = 0, ctServer = False, ctUser = [], ctPassword = [],
     ctKey = [], ctUseKey = False, ctRequest = [], ctObject = None, ctCon = None\<rparr>"

definition create_task_addr :: "string \<Rightarrow> u16 \<Rightarrow> string \<Rightarrow> u16 \<Rightarrow> bool \<Rightarrow> create_task \<Rightarrow> create_task" where
  "create_task_addr ip port lip lport srv t = t\<lparr>ctRemoteIP := ip, ctRemotePort := port, ctLocalIP := lip, ctLocalPort := lport, ctServer := srv\<rparr>"

definition create_task_user :: "string \<Rightarrow> string \<Rightarrow> create_task \<Rightarrow> create_task" where
  "create_task_user u p t = t\<lparr>ctUser := u, ctPassword := p\<rparr>"

definition create_task_key :: "string \<Rightarrow> bool \<Rightarrow> create_task \<Rightarrow> create_task" where
  "create_task_key k use t = t\<lparr>ctKey := k, ctUseKey := use\<rparr>"

definition get_create_task :: "bool \<Rightarrow> create_task option" where
  "get_create_task avail =
     (if avail then Some (create_task_user ''test'' ''123'' (create_task_addr ''192.168.0.118'' 4354 [] 0 True create_task_reset)) else None)"

text \<open>
  The server with the sockets of its connections, the objects of this class by their addresses in the pool, and the tasks
  given to the pool of tasks.  A call takes the time, what accepting, the objects and sending need, and whether the pool
  of tasks gives a task.
\<close>

record 'a back_world =
  bwServer :: server
  bwSocks :: "addr \<Rightarrow> sock"
  bwClients :: "addr \<Rightarrow> 'a inner_client_scheme"
  bwTasks :: "create_task list"

record back_env =
  beNow :: int
  beAccept :: accept_env
  beRpc :: rpc_env
  beSend :: send_env
  beTask :: bool

definition bw_con :: "addr \<Rightarrow> ('a, 'z) back_world_scheme \<Rightarrow> connection" where
  "bw_con a w = con_of (bwServer w) a"

definition bw_on_con :: "addr \<Rightarrow> (connection \<Rightarrow> connection) \<Rightarrow> ('a, 'z) back_world_scheme \<Rightarrow> ('a, 'z) back_world_scheme" where
  "bw_on_con a f w = w\<lparr>bwServer := on_cons (update_con a f) (bwServer w)\<rparr>"

definition bw_set_con :: "addr \<Rightarrow> connection \<Rightarrow> sock \<Rightarrow> ('a, 'z) back_world_scheme \<Rightarrow> ('a, 'z) back_world_scheme" where
  "bw_set_con a c s w = (bw_on_con a (\<lambda>_. c) w)\<lparr>bwSocks := (bwSocks w)(a := s)\<rparr>"

definition bw_obj :: "addr \<Rightarrow> ('a, 'z) back_world_scheme \<Rightarrow> rpc_obj" where
  "bw_obj k w = rmObjects (svRpc (bwServer w)) k"

definition bw_on_obj :: "addr \<Rightarrow> (rpc_obj \<Rightarrow> rpc_obj) \<Rightarrow> ('a, 'z) back_world_scheme \<Rightarrow> ('a, 'z) back_world_scheme" where
  "bw_on_obj k f w = (let s = bwServer w; m = svRpc s in w\<lparr>bwServer := s\<lparr>svRpc := m\<lparr>rmObjects := (rmObjects m)(k := f (rmObjects m k))\<rparr>\<rparr>\<rparr>)"

definition bw_on_client :: "addr \<Rightarrow> ('a inner_client_scheme \<Rightarrow> 'a inner_client_scheme) \<Rightarrow> ('a, 'z) back_world_scheme \<Rightarrow> ('a, 'z) back_world_scheme" where
  "bw_on_client k f w = w\<lparr>bwClients := (bwClients w)(k := f (bwClients w k))\<rparr>"

text \<open>Sending on a connection, from the caller's bytes and from a buffer.\<close>

definition bw_send :: "back_env \<Rightarrow> addr \<Rightarrow> byte list \<Rightarrow> u32 \<Rightarrow> message option \<Rightarrow> ('a, 'z) back_world_scheme \<Rightarrow> (bool \<times> ('a, 'z) back_world_scheme) res" where
  "bw_send env a bs code om w =
     bind_res (send_packet (beSend env) bs code om (bw_con a w) (bwSocks w a)) (\<lambda>(ok, c, s). Inr (ok, bw_set_con a c s w))"

definition bw_send_buffer ::
  "back_env \<Rightarrow> addr \<Rightarrow> buffer_obj \<Rightarrow> nat \<Rightarrow> u32 \<Rightarrow> message option \<Rightarrow> ('a, 'z) back_world_scheme \<Rightarrow> (bool \<times> ('a, 'z) back_world_scheme) res" where
  "bw_send_buffer env a b n code om w =
     bind_res (send_packet_buffer (beSend env) b n code om (bw_con a w) (bwSocks w a)) (\<lambda>(ok, c, s). Inr (ok, bw_set_con a c s w))"

section \<open>Connecting\<close>

definition CXRET_CREATE_SOCKET_FAILED :: int where "CXRET_CREATE_SOCKET_FAILED = - 2"
definition CXRET_SEND_DATA_FAILED :: int where "CXRET_SEND_DATA_FAILED = - 5"
definition CXRET_ALLOCATE_MEMORY_FAILED :: int where "CXRET_ALLOCATE_MEMORY_FAILED = - 8"
definition CXRET_ALLOCATE_TASK_FAILED :: int where "CXRET_ALLOCATE_TASK_FAILED = - 12"
definition CXRET_NOT_FOUND_REQUESTED_OBJ :: int where "CXRET_NOT_FOUND_REQUESTED_OBJ = - 14"
definition CXRET_NOTIFY_REMOTE_FAILED :: int where "CXRET_NOTIFY_REMOTE_FAILED = - 15"

definition ic_create :: "back_env \<Rightarrow> string \<Rightarrow> u16 \<Rightarrow> addr \<Rightarrow> ('a, 'z) back_world_scheme \<Rightarrow> (int \<times> ('a, 'z) back_world_scheme) res" where
  "ic_create env ip port k w =
     (let address = bw_on_client k (\<lambda>c. c\<lparr>icIP := ip, icPort := port\<rparr>) in
      if \<not> icServer (bwClients w k) then Inr (INVALID_PARAMETER, w)
      else if icCon (bwClients w k) \<noteq> None then Inr (0, address w)
      else bind_res (get_proxy_connection (beAccept env) (beRpc env) ip port (bwServer w)) (\<lambda>(oa, s).
        let w = w\<lparr>bwServer := s\<rparr> in
        case oa of
          None \<Rightarrow> Inr (CXRET_CREATE_SOCKET_FAILED, w)
        | Some a \<Rightarrow>
            let w = bw_on_con a (\<lambda>c. c\<lparr>conObjectID := objClassBytes (bw_obj k w)\<rparr>) w;
                w = bw_on_client k (\<lambda>c. c\<lparr>icCon := Some a, icSession := conSession (bw_con a w)\<rparr>) w
            in (case conSession (bw_con a w) of
                  None \<Rightarrow> Inr (CXRET_CREATE_SOCKET_FAILED, w)
                | Some sa \<Rightarrow>
                    let s = bwServer w
                    in Inr (0, address (w\<lparr>bwServer := s\<lparr>svSes := update_session sa (add_session_object (objID (bw_obj k w)) k) (svSes s)\<rparr>\<rparr>)))))"

definition ic_async_connect :: "back_env \<Rightarrow> string \<Rightarrow> addr \<Rightarrow> ('a, 'z) back_world_scheme \<Rightarrow> (int \<times> ('a, 'z) back_world_scheme) res" where
  "ic_async_connect env req k w =
     (if \<not> icServer (bwClients w k) then Inr (INVALID_PARAMETER, w)
      else case icCon (bwClients w k) of
        None \<Rightarrow> Inl NullDeref
      | Some a \<Rightarrow>
          if conState (bw_con a w) = CREATING then
            (case get_create_task (beTask env) of
               Some t \<Rightarrow> Inr (CXRET_ASYNC_CALLBACK, w\<lparr>bwTasks := bwTasks w @ [t\<lparr>ctCon := Some a, ctRequest := req, ctObject := Some k\<rparr>]\<rparr>)
             | None \<Rightarrow> Inr (CXRET_ALLOCATE_TASK_FAILED, bw_on_con a (\<lambda>c. c\<lparr>conAsyncMes := False\<rparr>) w))
          else Inr (0, w))"

text \<open>\<open>UnCreate\<close> removes the object from its session by the identifier of its class, not by its own.\<close>

definition ic_uncreate :: "back_env \<Rightarrow> addr \<Rightarrow> ('a, 'z) back_world_scheme \<Rightarrow> ('a, 'z) back_world_scheme res" where
  "ic_uncreate env k w =
     (case (icServer (bwClients w k), icCon (bwClients w k)) of
        (True, Some a) \<Rightarrow>
          let s = bwServer w;
              s = (case icSession (bwClients w k) of
                     None \<Rightarrow> s
                   | Some sa \<Rightarrow> s\<lparr>svSes := update_session sa (remove_session_object (objClass (bw_obj k w))) (svSes s)\<rparr>)
          in bind_res (free_sending_list (con_of s a)) (\<lambda>c.
               let s = on_cons (update_con a (\<lambda>_. c)) s;
                   s = (if conBuffersInList c = 0 \<and> conPostedSent c = 0 \<and> conPacketsInQueue c = 0 then on_cons (detach_proxy a) s
                        else close_connection (beRpc env) (beNow env) a s)
               in Inr (bw_on_client k (\<lambda>c. c\<lparr>icCon := None\<rparr>) (w\<lparr>bwServer := s\<rparr>)))
      | _ \<Rightarrow> Inr w)"

section \<open>Replies\<close>

text \<open>
  \<open>ReceiveInternalReplyData\<close> (src/CXCommunicationServer/src/CXRPCObjectServer.cpp) of the object that asked.  The step
  function is called with the flag for asynchronous messages cleared, the flag is put back after it, and a message that
  is now finished goes back to the queue as an asynchronous one (type 2).  The information on the step is never freed.
\<close>

definition receive_internal_reply ::
  "(u32 \<Rightarrow> addr \<Rightarrow> message \<Rightarrow> addr \<Rightarrow> rpc_reply \<Rightarrow> ('a, 'z) back_world_scheme \<Rightarrow> (int \<times> ('a, 'z) back_world_scheme) res)
     \<Rightarrow> string \<Rightarrow> u32 \<Rightarrow> rpc_reply \<Rightarrow> addr \<Rightarrow> ('a, 'z) back_world_scheme \<Rightarrow> (int \<times> ('a, 'z) back_world_scheme) res" where
  "receive_internal_reply step req code reply p w =
     (if code = 0 \<or> req = [] then Inr (INVALID_PARAMETER, w)
      else case pop_state req (bw_obj p w) of (popped, o1) \<Rightarrow>
        let w = bw_on_obj p (\<lambda>_. o1) w in
        case popped of
          None \<Rightarrow> Inr (INVALID_PARAMETER, w)
        | Some st \<Rightarrow>
            (case stepMes st of
               None \<Rightarrow> Inr (0, w)
             | Some m \<Rightarrow>
                 let a = stepCon st; old = conAsyncMes (bw_con a w) in
                 if stepNext st \<notin> set (objStepFuns o1) then Inl Uncaught
                 else bind_res (step (stepNext st) p m a reply (bw_on_con a (\<lambda>c. c\<lparr>conAsyncMes := False\<rparr>) w)) (\<lambda>(r, w).
                   let now = conAsyncMes (bw_con a w);
                       w = bw_on_con a (\<lambda>c. c\<lparr>conAsyncMes := old\<rparr>) w
                   in Inr (r, if now then w else bw_on_con a (push_received_message False (m\<lparr>mesType := 2\<rparr>)) w))))"

definition ic_push_request :: "rpc_request \<Rightarrow> 'a inner_client_scheme \<Rightarrow> 'a inner_client_scheme" where
  "ic_push_request q c = (if icRequests c (rqID q) = None then c\<lparr>icRequests := (icRequests c)(rqID q \<mapsto> q)\<rparr> else c)"

definition ic_pop_request :: "int \<Rightarrow> string \<Rightarrow> 'a inner_client_scheme \<Rightarrow> rpc_request \<times> 'a inner_client_scheme" where
  "ic_pop_request now req c =
     (case icRequests c req of None \<Rightarrow> (request_none now, c) | Some q \<Rightarrow> (q, c\<lparr>icRequests := (icRequests c)(req := None)\<rparr>))"

text \<open>\<open>ReplyRequester\<close>: the object of the pointer, or the one that is now in use under the identifier.\<close>

definition requested_object :: "rpc_request \<Rightarrow> ('a, 'z) back_world_scheme \<Rightarrow> addr option" where
  "requested_object q w =
     (let good = (\<lambda>oa. case oa of None \<Rightarrow> False | Some p \<Rightarrow> objUsing (bw_obj p w) \<and> objID (bw_obj p w) = rqObject q);
          found = find_using_object (rqObject q) (svRpc (bwServer w))
      in if good (rqRequester q) then rqRequester q else if good found then found else None)"

definition reply_requester ::
  "(u32 \<Rightarrow> addr \<Rightarrow> message \<Rightarrow> addr \<Rightarrow> rpc_reply \<Rightarrow> ('a, 'z) back_world_scheme \<Rightarrow> (int \<times> ('a, 'z) back_world_scheme) res)
     \<Rightarrow> rpc_request \<Rightarrow> rpc_reply \<Rightarrow> addr \<Rightarrow> ('a, 'z) back_world_scheme \<Rightarrow> (int \<times> ('a, 'z) back_world_scheme) res" where
  "reply_requester step q reply k w =
     (if icCon (bwClients w k) = None then Inr (INVALID_PARAMETER, w)
      else case requested_object q w of
        None \<Rightarrow> Inr (CXRET_NOT_FOUND_REQUESTED_OBJ, w)
      | Some p \<Rightarrow> receive_internal_reply step (rqID q) (rqFun q) reply p w)"

text \<open>\<open>OnCreateConnectionError\<close>, and \<open>OnSendDataError\<close>, which is the same.\<close>

definition ic_on_error ::
  "(u32 \<Rightarrow> addr \<Rightarrow> message \<Rightarrow> addr \<Rightarrow> rpc_reply \<Rightarrow> ('a, 'z) back_world_scheme \<Rightarrow> (int \<times> ('a, 'z) back_world_scheme) res)
     \<Rightarrow> back_env \<Rightarrow> string \<Rightarrow> string \<Rightarrow> addr \<Rightarrow> ('a, 'z) back_world_scheme \<Rightarrow> (int \<times> ('a, 'z) back_world_scheme) res" where
  "ic_on_error step env req t k w =
     (case ic_pop_request (beNow env) req (bwClients w k) of (q, c) \<Rightarrow>
        let w = bw_on_client k (\<lambda>_. c) w in
        if rqID q = [] then Inr (0, w)
        else reply_requester step q (rpc_reply_none\<lparr>rpCode := 503, rpContent := t\<rparr>) k w)"

section \<open>Sending\<close>

text \<open>\<open>SendPacketData\<close>.  The packets of a connection that is being created wait in its list.\<close>

definition ic_send_packet_data ::
  "back_env \<Rightarrow> rpc_request \<Rightarrow> buffer_obj \<Rightarrow> nat \<Rightarrow> u32 \<Rightarrow> addr \<Rightarrow> ('a, 'z) back_world_scheme \<Rightarrow> (int \<times> ('a, 'z) back_world_scheme) res" where
  "ic_send_packet_data env q b n code k w =
     (case icCon (bwClients w k) of
        None \<Rightarrow> Inr (INVALID_PARAMETER, w)
      | Some a \<Rightarrow>
          if n = 0 \<or> code = 0 then Inr (INVALID_PARAMETER, w)
          else
            let forget = bw_on_client k (\<lambda>c. snd (ic_pop_request (beNow env) (rqID q) c));
                aligned = objAligned (bw_obj k w);
                unpush = (if aligned then id else bw_on_con a (\<lambda>c. snd (pop_rpc_obj (rqID q) c)));
                w = bw_on_client k (ic_push_request q) w;
                w = (if aligned then w else bw_on_con a (push_rpc_obj (rqID q) k) w);
                w = bw_on_con a (\<lambda>c. c\<lparr>conRequestID := rqBytes q\<rparr>) w
            in bind_res (bw_send_buffer env a b n code None w) (\<lambda>(ok, w).
                 if \<not> ok then Inr (CXRET_SEND_DATA_FAILED, forget (unpush w))
                 else if conState (bw_con a w) = CREATING then
                   bind_res (ic_async_connect env (rqID q) k w) (\<lambda>(r, w).
                     if r \<noteq> 0 \<and> r \<noteq> CXRET_ASYNC_CALLBACK then
                       let w = forget (unpush w)
                       in bind_res (free_sending_list (bw_con a w)) (\<lambda>c. Inr (r, bw_on_con a (\<lambda>_. c) w))
                     else Inr (0, w))
                 else Inr (0, w)))"

text \<open>\<open>GetSendBuffer\<close>, whose callers have tested that there is a connection; the part that can be written is always there.\<close>

definition ic_get_send_buffer :: "back_env \<Rightarrow> u32 \<Rightarrow> addr \<Rightarrow> ('a, 'z) back_world_scheme \<Rightarrow> (buffer_obj option \<times> ('a, 'z) back_world_scheme) res" where
  "ic_get_send_buffer env n k w =
     (case icCon (bwClients w k) of
        None \<Rightarrow> Inl NullDeref
      | Some a \<Rightarrow>
          (case get_send_buffer_obj (beSend env) n (bw_con a w) of
             None \<Rightarrow> Inr (None, w)
           | Some (b, c) \<Rightarrow> Inr (Some b, bw_on_con a (\<lambda>_. c) w)))"

end
