(* ===== verification/Connect_Task.thy ===== *)
theory Connect_Task imports Main Internal_Client Client_Channel begin

text \<open>
  \<open>CXTaskCreateConnection\<close> (src/CXCommunicationServer/src/CXTaskCreateConnection.cpp): the task that connects a connection
  of the server to another server, logs in there and sends what has been waiting.
\<close>

section \<open>The task\<close>

text \<open>
  What a run takes from outside: whether binding to the local address succeeds, the text of an address, the number of the
  socket and what it does with the bytes that it gets after the login, and whether the event model takes it.
\<close>

record 'p connect_env =
  cnNet :: "'p network"
  cnBind :: "string \<Rightarrow> u16 \<Rightarrow> bool"
  cnText :: "string \<Rightarrow> u16 \<Rightarrow> string"
  cnSock :: int
  cnStart :: sock
  cnAttach :: bool

definition CXRET_BIND_ADDR_FAILED :: int where "CXRET_BIND_ADDR_FAILED = - 3"
definition CXRET_CONNECT_REMOTE_FAILED :: int where "CXRET_CONNECT_REMOTE_FAILED = - 4"
definition CXRET_CONNECTION_LOGIN_FAILED :: int where "CXRET_CONNECTION_LOGIN_FAILED = - 9"
definition CXRET_BUILD_CONNECTION_FAILED :: int where "CXRET_BUILD_CONNECTION_FAILED = - 10"

text \<open>The socket of the task, its channel 0; the login with a key gives no password.\<close>

definition task_login :: "'p network \<Rightarrow> create_task \<Rightarrow> byte \<Rightarrow> byte \<Rightarrow> 'p client_world \<Rightarrow> (int \<times> 'p client_world) res option" where
  "task_login net t e z cw =
     (let cw = set_tcp 0 ((tcp_of 0 cw)\<lparr>tcEncrypt := e, tcCompress := z\<rparr>) cw
      in if ctUseKey t then channel_login net 0 (ctKey t) [] 2 1 cw else channel_login net 0 (ctUser t) (ctPassword t) 0 1 cw)"

text \<open>Socket, binding, connection, login: the result, and the text of the error, of which 1024 characters are kept.\<close>

definition task_connect :: "'p connect_env \<Rightarrow> create_task \<Rightarrow> connection \<Rightarrow> 'p client_world \<Rightarrow> (int \<times> string \<times> 'p client_world) res option" where
  "task_connect cn t c cw =
     (let net = cnNet cn; ends = (\<lambda>r s cw. Some (Inr (r, take 1023 (s @ [CHR 0x0A]), cw)));
          remote = cnText cn (ctRemoteIP t) (ctRemotePort t)
      in case netSocket net 0 (cwPeer cw) of (made, p) \<Rightarrow>
        bind_run (Some (tc_create (netEnv net (cwPeer cw)) False (- 1) made (tcp_of 0 cw))) (\<lambda>(r, tc).
          let cw = (set_tcp 0 tc cw)\<lparr>cwPeer := p\<rparr> in
          if r \<noteq> 0 then ends CXRET_CREATE_SOCKET_FAILED (''Failed to create a proxy socket in the local address '' @ ctLocalIP t @ '':'' @ show_nat (unat (ctLocalPort t))) cw
          else if ctLocalPort t \<noteq> 0 \<and> \<not> cnBind cn (ctLocalIP t) (ctLocalPort t) then
            ends CXRET_BIND_ADDR_FAILED (''Failed to bind the proxy socket to the local address '' @ cnText cn (ctLocalIP t) (ctLocalPort t)) cw
          else case netConnect net 0 (cwPeer cw) of (made, p) \<Rightarrow>
            (case tc_connect made (tcp_of 0 cw) of (r, tc) \<Rightarrow>
               let cw = (set_tcp 0 tc cw)\<lparr>cwPeer := p\<rparr> in
               if r \<noteq> 0 then ends CXRET_CONNECT_REMOTE_FAILED (''Failed to connect to the remote server '' @ remote) cw
               else bind_run (task_login net t (conEncrypt c) (conCompress c) cw) (\<lambda>(r, cw).
                 if r \<noteq> 0 then ends CXRET_CONNECTION_LOGIN_FAILED (''Failed to log in the remote server '' @ remote) cw
                 else Some (Inr (0, [], cw))))))"

text \<open>What follows the login: the connection is established with the socket, and its list is sent.\<close>

definition task_created :: "'p connect_env \<Rightarrow> back_env \<Rightarrow> create_task \<Rightarrow> addr \<Rightarrow> ('a, 'z) back_world_scheme \<Rightarrow> (int \<times> ('a, 'z) back_world_scheme) res" where
  "task_created cn env t a w =
     (if \<not> ctServer t then Inl NullDeref
      else
        let w = bw_set_con a (on_created (beNow env) (cnSock cn) (bw_con a w)) (cnStart cn) w
        in bind_res (on_proxy_created (cnAttach cn) a (bwServer w)) (\<lambda>(r, s).
             let w = w\<lparr>bwServer := s\<rparr> in
             if r \<noteq> 0 then Inr (CXRET_BUILD_CONNECTION_FAILED, w)
             else if ctRequest t = [] \<or> ctObject t = None then Inr (0, w)
             else bind_res (send_data_list (beSend env) ((bw_con a w)\<lparr>conAsyncPrepare := False\<rparr>) (bwSocks w a)) (\<lambda>(r, c, s).
               Inr (if r \<noteq> 0 then CXRET_SEND_DATA_FAILED else 0, bw_set_con a (c\<lparr>conAsyncPrepare := True\<rparr>) s w))))"

text \<open>\<open>ProcessTask\<close>; of the client of the task only its world remains.\<close>

definition create_task_process ::
  "(u32 \<Rightarrow> addr \<Rightarrow> message \<Rightarrow> addr \<Rightarrow> rpc_reply \<Rightarrow> ('a, 'z) back_world_scheme \<Rightarrow> (int \<times> ('a, 'z) back_world_scheme) res)
     \<Rightarrow> 'p connect_env \<Rightarrow> back_env \<Rightarrow> create_task \<Rightarrow> 'p \<Rightarrow> ('a, 'z) back_world_scheme \<Rightarrow> (int \<times> 'p \<times> ('a, 'z) back_world_scheme) res option" where
  "create_task_process step cn env t p w =
     (case ctCon t of
        None \<Rightarrow> Some (Inl NullDeref)
      | Some a \<Rightarrow>
          let tc = tc_use_pool True (if ctServer t then tcp_client_new\<lparr>tcParser := svParser (bwServer w)\<rparr> else tcp_client_new)
          in bind_run (task_connect cn t (bw_con a w) \<lparr>cwChannels = (\<lambda>i. channel_new\<lparr>chTcp := tc\<rparr>), cwPeer = p\<rparr>) (\<lambda>(r, s, cw).
               bind_run (if r = 0 then Some (task_created cn env t a w) else Some (Inr (r, w))) (\<lambda>(r, w).
                 if r = 0 then Some (Inr (0, cwPeer cw, w))
                 else (case ctObject t of
                   None \<Rightarrow> Some (Inr (r, cwPeer cw, w))
                 | Some k \<Rightarrow> bind_run (Some (ic_on_error step env (ctRequest t) s k w)) (\<lambda>(_, w). Some (Inr (r, cwPeer cw, w)))))))"

end
