(* ===== verification/Storage_Client.thy ===== *)
theory Storage_Client imports Main Internal_Client File_Server begin

text \<open>
  \<open>CXStorageRPCClient\<close> (src/CXProxyServerTest/src/CXStorageRPCClient.cpp): the client of a server of files inside of another
  server.  Its operations send their request and return; the replies come as messages, and go to the object that asked.
\<close>

section \<open>State\<close>

text \<open>\<open>m_strCurrentFilePath\<close> is always empty.\<close>

record storage_client = inner_client +
  stOpened :: bool

type_synonym 'z storage_world = "(unit storage_client_ext, 'z) back_world_scheme"

definition storage_new :: storage_client where
  "storage_new = \<lparr>icServer = False, icCon = None, icSession = None, icIP = [], icPort = 0, icRequests = Map.empty, stOpened = False\<rparr>"

section \<open>Requests\<close>

text \<open>
  What every operation does after its tests: a buffer for sending, of which \<open>n\<close> bytes are the request, into which the
  fields are written.
\<close>

definition storage_send :: "back_env \<Rightarrow> rpc_request \<Rightarrow> u32 \<Rightarrow> byte list res \<Rightarrow> u32 \<Rightarrow> addr \<Rightarrow> 'z storage_world \<Rightarrow> (int \<times> 'z storage_world) res" where
  "storage_send env q n data code k w =
     (if icCon (bwClients w k) = None \<or> \<not> request_valid q then Inr (INVALID_PARAMETER, w)
      else bind_res (ic_get_send_buffer env n k w) (\<lambda>(ob, w).
        case ob of
          None \<Rightarrow> Inr (CXRET_ALLOCATE_MEMORY_FAILED, w)
        | Some b \<Rightarrow> bind_res data (\<lambda>bs. bind_res (write_buffer (sizeof_packet_data - 1) bs b) (\<lambda>b.
            ic_send_packet_data env q b (unat n) code k w))))"

text \<open>The structures for requests; a command without fields is the nine zero bytes of \<open>CXFileCommand\<close>.\<close>

definition command_bytes :: "byte list" where "command_bytes = replicate 9 0"

definition st_close :: "back_env \<Rightarrow> rpc_request \<Rightarrow> addr \<Rightarrow> 'z storage_world \<Rightarrow> (int \<times> 'z storage_world) res" where
  "st_close env q = storage_send env q 9 (Inr command_bytes) CX_FILE_CLOSE_CODE"

definition st_open :: "back_env \<Rightarrow> rpc_request \<Rightarrow> string \<Rightarrow> byte \<Rightarrow> bool \<Rightarrow> addr \<Rightarrow> 'z storage_world \<Rightarrow> (int \<times> 'z storage_world) res" where
  "st_open env q path ty existed k w =
     (if path = [] then Inr (INVALID_PARAMETER, w)
      else
        let n = word_of_nat (length path + 1) :: u32;
            bs = [ty, if existed then 1 else 0, 0, 0] @ le_enc 4 (unat n) @ text_bytes path @ [0]
        in storage_send env q (n + 8) (Inr bs) CX_FILE_OPEN_CODE k w)"

definition st_read :: "back_env \<Rightarrow> rpc_request \<Rightarrow> u32 \<Rightarrow> u64 \<Rightarrow> u32 \<Rightarrow> addr \<Rightarrow> 'z storage_world \<Rightarrow> (int \<times> 'z storage_world) res" where
  "st_read env q want off ty k w =
     (if want = 0 then Inr (INVALID_PARAMETER, w)
      else storage_send env q 16 (Inr (le_enc 4 (unat ty) @ le_enc 8 (unat off) @ le_enc 4 (unat want))) CX_FILE_READ_CODE k w)"

definition st_seek :: "back_env \<Rightarrow> rpc_request \<Rightarrow> u64 \<Rightarrow> u32 \<Rightarrow> addr \<Rightarrow> 'z storage_world \<Rightarrow> (int \<times> 'z storage_world) res" where
  "st_seek env q pos ty = storage_send env q 12 (Inr (le_enc 4 (unat ty) @ le_enc 8 (unat pos))) CX_FILE_SEEK_CODE"

text \<open>The data to write are read from the memory \<open>mem\<close> of the caller, whatever length the caller says.\<close>

definition st_write :: "back_env \<Rightarrow> rpc_request \<Rightarrow> byte list \<Rightarrow> u32 \<Rightarrow> u64 \<Rightarrow> u32 \<Rightarrow> addr \<Rightarrow> 'z storage_world \<Rightarrow> (int \<times> 'z storage_world) res" where
  "st_write env q mem n off ty k w =
     (if n = 0 then Inr (INVALID_PARAMETER, w)
      else storage_send env q (n + 16)
        (if length mem < unat n then Inl OutOfBounds
         else Inr (le_enc 4 (unat ty) @ le_enc 8 (unat off) @ le_enc 4 (unat n) @ take (unat n) mem)) CX_FILE_WRITE_CODE k w)"

definition st_length :: "back_env \<Rightarrow> rpc_request \<Rightarrow> addr \<Rightarrow> 'z storage_world \<Rightarrow> (int \<times> 'z storage_world) res" where
  "st_length env q = storage_send env q 9 (Inr command_bytes) CX_FILE_GET_LENGTH_CODE"

definition st_position :: "back_env \<Rightarrow> rpc_request \<Rightarrow> addr \<Rightarrow> 'z storage_world \<Rightarrow> (int \<times> 'z storage_world) res" where
  "st_position env q = storage_send env q 9 (Inr command_bytes) CX_FILE_GET_CUR_POS_CODE"

section \<open>Replies\<close>

text \<open>
  What a reply says, with \<open>head\<close> bytes in front of its data: 16 for \<open>CXCommonMessageReply\<close>, 8 for \<open>CXFileReadReply\<close>.  Its
  data are the memory behind that, with whatever length it says; the last byte of the text of an error is overwritten.
\<close>

definition reply_of_message :: "nat \<Rightarrow> message \<Rightarrow> rpc_reply res" where
  "reply_of_message head m =
     bind_res (mes_u32 m 0) (\<lambda>code. bind_res (mes_u32 m (head - 4)) (\<lambda>n.
     bind_res (if head = 16 then mes_u32 m 4 else Inr 0) (\<lambda>v1. bind_res (if head = 16 then mes_u32 m 8 else Inr 0) (\<lambda>v2.
       let mem = drop (40 + head) (mesBody m) in
       if code \<noteq> 200 \<and> n \<noteq> 0 \<and> n = mes_data_len m - word_of_nat head then
         if length mem < unat n then Inl HeapOverflow
         else let mem = mem[unat n - 1 := 0] in Inr (rpc_reply_new (c_string mem) code (Some mem) n v1 v2)
       else Inr (rpc_reply_new [] code (Some mem) n v1 v2)))))"

definition message_request :: "back_env \<Rightarrow> message \<Rightarrow> string" where
  "message_request env m = guid_string (envUnparse (beRpc env)) (byRequestID (body_of (mesBody m)))"

type_synonym 'z step_fun = "u32 \<Rightarrow> addr \<Rightarrow> message \<Rightarrow> addr \<Rightarrow> rpc_reply \<Rightarrow> 'z storage_world \<Rightarrow> (int \<times> 'z storage_world) res"

text \<open>What every handler does, and what it notes of the code of the reply.\<close>

definition storage_on_reply ::
  "nat \<Rightarrow> (u32 \<Rightarrow> storage_client \<Rightarrow> storage_client) \<Rightarrow> 'z step_fun \<Rightarrow> back_env \<Rightarrow> message \<Rightarrow> addr \<Rightarrow> 'z storage_world \<Rightarrow> (int \<times> 'z storage_world) res" where
  "storage_on_reply head note step env m k w =
     (case ic_pop_request (beNow env) (message_request env m) (bwClients w k) of (q, c) \<Rightarrow>
        let w = bw_on_client k (\<lambda>_. c) w in
        if rqID q = [] then Inr (0, w)
        else bind_res (reply_of_message head m) (\<lambda>rep. reply_requester step q rep k (bw_on_client k (note (rpCode rep)) w)))"

definition st_on_open :: "'z step_fun \<Rightarrow> back_env \<Rightarrow> message \<Rightarrow> addr \<Rightarrow> 'z storage_world \<Rightarrow> (int \<times> 'z storage_world) res" where
  "st_on_open = storage_on_reply 16 (\<lambda>code c. if code = 200 then c\<lparr>stOpened := True\<rparr> else c)"

definition st_on_read :: "'z step_fun \<Rightarrow> back_env \<Rightarrow> message \<Rightarrow> addr \<Rightarrow> 'z storage_world \<Rightarrow> (int \<times> 'z storage_world) res" where
  "st_on_read = storage_on_reply 8 (\<lambda>code c. c)"

definition st_on_seek :: "'z step_fun \<Rightarrow> back_env \<Rightarrow> message \<Rightarrow> addr \<Rightarrow> 'z storage_world \<Rightarrow> (int \<times> 'z storage_world) res" where
  "st_on_seek = storage_on_reply 16 (\<lambda>code c. c)"

definition st_on_write :: "'z step_fun \<Rightarrow> back_env \<Rightarrow> message \<Rightarrow> addr \<Rightarrow> 'z storage_world \<Rightarrow> (int \<times> 'z storage_world) res" where
  "st_on_write = storage_on_reply 16 (\<lambda>code c. c)"

definition st_on_length :: "'z step_fun \<Rightarrow> back_env \<Rightarrow> message \<Rightarrow> addr \<Rightarrow> 'z storage_world \<Rightarrow> (int \<times> 'z storage_world) res" where
  "st_on_length = storage_on_reply 16 (\<lambda>code c. c)"

definition st_on_position :: "'z step_fun \<Rightarrow> back_env \<Rightarrow> message \<Rightarrow> addr \<Rightarrow> 'z storage_world \<Rightarrow> (int \<times> 'z storage_world) res" where
  "st_on_position = storage_on_reply 16 (\<lambda>code c. c)"

definition st_on_close :: "'z step_fun \<Rightarrow> back_env \<Rightarrow> message \<Rightarrow> addr \<Rightarrow> 'z storage_world \<Rightarrow> (int \<times> 'z storage_world) res" where
  "st_on_close = storage_on_reply 16 (\<lambda>code c. if code = 200 then c\<lparr>stOpened := False\<rparr> else c)"

text \<open>\<open>DispatchMes\<close>, for a message that came on the connection \<open>a\<close>.\<close>

definition answer_heart_beat :: "back_env \<Rightarrow> message \<Rightarrow> addr \<Rightarrow> ('a, 'z) back_world_scheme \<Rightarrow> (int \<times> ('a, 'z) back_world_scheme) res" where
  "answer_heart_beat env m a w =
     bind_res (bw_send env a (common_reply_bytes 17 (common_reply_new\<lparr>crCode := 200\<rparr>)) CX_HEAERT_BEAT_REPLY_CODE (Some m) w) (\<lambda>(ok, w).
       Inr (if ok then 0 else - 2, w))"

definition storage_dispatch :: "'z step_fun \<Rightarrow> back_env \<Rightarrow> message \<Rightarrow> addr \<Rightarrow> addr \<Rightarrow> 'z storage_world \<Rightarrow> (int \<times> 'z storage_world) res" where
  "storage_dispatch step env m a k w =
     (let code = dwMesCode (body_of (mesBody m)) in
      if conSession (bw_con a w) = None then Inr (- 1, w)
      else if code = CX_HEAERT_BEAT_CODE then answer_heart_beat env m a w
      else if code = CX_FILE_OPEN_REPLY_CODE then st_on_open step env m k w
      else if code = CX_FILE_SEEK_REPLY_CODE then st_on_seek step env m k w
      else if code = CX_FILE_READ_REPLY_CODE then st_on_read step env m k w
      else if code = CX_FILE_WRITE_REPLY_CODE then st_on_write step env m k w
      else if code = CX_FILE_CLOSE_REPLY_CODE then st_on_close step env m k w
      else if code = CX_FILE_GET_LENGTH_REPLY_CODE then st_on_length step env m k w
      else if code = CX_FILE_GET_CUR_POS_REPLY_CODE then st_on_position step env m k w
      else Inr (0, w))"

definition storage_destroy :: "back_env \<Rightarrow> addr \<Rightarrow> 'z storage_world \<Rightarrow> 'z storage_world res" where
  "storage_destroy env k w = bind_res (ic_uncreate env k w) (\<lambda>w. Inr (bw_on_obj k rpc_obj_reset w))"

text \<open>
  \<open>MessageToString\<close>, which ends the path of a message that opens a file as \<open>file_message_to_string\<close> does, and copies
  the text of a reply behind its fields into 1024 bytes, however long it is.
\<close>

definition reply_fields_text :: "u32 \<Rightarrow> u32 \<Rightarrow> u32 \<Rightarrow> u32 \<Rightarrow> string" where
  "reply_fields_text code v1 v2 n = '',op:read_reply,reply_code:'' @ show_int (sint code) @ '',value1:'' @ show_int (sint v1) @ '',value2:'' @
     show_int (sint v2) @ '',data_len:'' @ show_int (sint n) @ '',content:''"

definition storage_message_to_string :: "nat \<Rightarrow> message \<Rightarrow> message res" where
  "storage_message_to_string cap m =
     (if dwMesCode (body_of (mesBody m)) \<in> {CX_FILE_OPEN_REPLY_CODE, CX_FILE_SEEK_REPLY_CODE, CX_FILE_WRITE_REPLY_CODE, CX_FILE_CLOSE_REPLY_CODE,
          CX_FILE_GET_LENGTH_REPLY_CODE} then
        bind_res (mes_u32 m 0) (\<lambda>code. bind_res (mes_u32 m 4) (\<lambda>v1. bind_res (mes_u32 m 8) (\<lambda>v2. bind_res (mes_u32 m 12) (\<lambda>n.
          if n = 0 then Inr m
          else bind_res (mes_c_string m 16) (\<lambda>t. if 1024 \<le> length (reply_fields_text code v1 v2 n) + length t then Inl HeapOverflow else Inr m)))))
      else file_message_to_string cap m)"

end
