(* ===== verification/File_Proxy.thy ===== *)
theory File_Proxy imports Main Storage_Client begin

text \<open>
  \<open>CXFileRPCProxyServer\<close> (src/CXProxyServerTest/src/CXFileRPCProxyServer.cpp): the object that serves a file which is on
  another server.  Every request goes to a \<open>CXStorageRPCClient\<close>, as an asynchronous step of its state machine; the reply
  of the other server comes back to the step function and from there to the client.
\<close>

section \<open>State\<close>

record file_proxy =
  fpServer :: bool
  fpPath :: string
  fpOpened :: bool
  fpStorage :: "addr option"

definition file_proxy_new :: file_proxy where
  "file_proxy_new = \<lparr>fpServer = False, fpPath = [], fpOpened = False, fpStorage = None\<rparr>"

text \<open>The server with its proxies; proxies and storage clients are objects of the pool, known by their addresses.\<close>

record proxy_world = "unit storage_client_ext back_world" +
  pwProxies :: "addr \<Rightarrow> file_proxy"

definition on_proxy :: "addr \<Rightarrow> (file_proxy \<Rightarrow> file_proxy) \<Rightarrow> proxy_world \<Rightarrow> proxy_world" where
  "on_proxy p f w = w\<lparr>pwProxies := (pwProxies w)(p := f (pwProxies w p))\<rparr>"

text \<open>The codes of the steps, and what the constructor sets of the object.\<close>

definition INTER_OPEN :: u32 where "INTER_OPEN = 1"
definition INTER_READ :: u32 where "INTER_READ = 2"
definition INTER_WRITE :: u32 where "INTER_WRITE = 3"
definition INTER_SEEK :: u32 where "INTER_SEEK = 4"
definition INTER_CLOSE :: u32 where "INTER_CLOSE = 5"
definition INTER_LENGTH :: u32 where "INTER_LENGTH = 6"
definition INTER_POSITION :: u32 where "INTER_POSITION = 7"

definition proxy_object_new :: rpc_obj where
  "proxy_object_new = (get_class_guid ''CXFileTcpV1'' rpc_obj_new)\<lparr>objTimeoutSecs := 3, objContinuous := True, objStepFuns := [1, 2, 3, 4, 5, 6, 7]\<rparr>"

definition STORAGE_CLASS :: string where "STORAGE_CLASS = ''{D2753C32-37A1-47F7-A1E0-7F4CAC074B47}''"
definition STORAGE_IP :: string where "STORAGE_IP = ''192.168.0.118''"
definition STORAGE_PORT :: u16 where "STORAGE_PORT = 4354"

section \<open>Asking the other server\<close>

text \<open>
  What every handler does to ask: memory for the step, whose pointer is not tested, the step pushed on the state machine,
  and the operation of the storage client called; when that fails, the step is taken back.
\<close>

definition step_size :: nat where "step_size = 152"

definition proxy_ask ::
  "back_env \<Rightarrow> u32 \<Rightarrow> (rpc_request \<Rightarrow> addr \<Rightarrow> proxy_world \<Rightarrow> (int \<times> proxy_world) res) \<Rightarrow> message \<Rightarrow> addr \<Rightarrow> addr \<Rightarrow> addr \<Rightarrow> proxy_world
     \<Rightarrow> (int \<times> proxy_world) res" where
  "proxy_ask env step call m a p k w =
     (if senAlloc (beSend env) step_size = None then Inl NullDeref
      else
        let req = message_request env m;
            q = request_new (beNow env) req step (objID (bw_obj p w)) (byRequestID (body_of (mesBody m))) (Some p);
            w = bw_on_con a (\<lambda>c. snd (new_message_addr c)) w;
            w = bw_on_obj p (push_state req \<lparr>stepMes = Some m, stepCon = a, stepTime = beNow env, stepNext = step\<rparr>) w
        in bind_res (call q k w) (\<lambda>(r, w).
             Inr (r, if r \<noteq> 0 then bw_on_obj p (\<lambda>ob. snd (pop_state req ob)) w else w)))"

text \<open>
  A text as the reply: \<open>sprintf_s\<close> is \<open>snprintf\<close> and cuts it off.  The result is 0 or the code \<open>bad\<close> when it cannot be sent.
\<close>

definition say :: "back_env \<Rightarrow> u32 \<Rightarrow> u32 \<Rightarrow> string \<Rightarrow> int \<Rightarrow> int \<Rightarrow> message \<Rightarrow> addr \<Rightarrow> proxy_world \<Rightarrow> (int \<times> proxy_world) res" where
  "say env code reply t good bad m a w =
     (let t = take 1005 t
      in bind_res (bw_send env a (common_reply_bytes (16 + (length t + 1)) (text_reply code t)) reply (Some m) w) (\<lambda>(ok, w).
           Inr (if ok then good else bad, w)))"

definition closed_text :: "string \<Rightarrow> string" where
  "closed_text path = ''The file '' @ [CHR 0x27] @ path @ [CHR 0x27] @ '' had been closed''"

definition reclosed_text :: "string \<Rightarrow> string" where
  "reclosed_text path = closed_text path @ '', not need to reclose it''"

definition failed_text :: "string \<Rightarrow> string \<Rightarrow> string" where
  "failed_text act path = ''Failed to notify the third party to '' @ act @ [CHR 0x27] @ path @ [CHR 0x27]"

definition storage_text :: string where
  "storage_text = ''Failed to create the remote storage object '' @ [CHR 0x27] @ STORAGE_CLASS @ [CHR 0x27]"

definition opened_text :: "string \<Rightarrow> string" where
  "opened_text path = ''The file '' @ [CHR 0x27] @ path @ [CHR 0x27] @ '' had been opened, not need to reopen it''"

section \<open>The handlers\<close>

text \<open>\<open>OpenFile\<close>: the storage client is taken from the pool and connected; a file that is open is not opened again, whatever its name.\<close>

definition proxy_open_storage :: "back_env \<Rightarrow> addr \<Rightarrow> proxy_world \<Rightarrow> addr option \<times> proxy_world" where
  "proxy_open_storage env p w =
     (case fpStorage (pwProxies w p) of
        Some k \<Rightarrow> (Some k, w)
      | None \<Rightarrow>
          (case get_free_object (beRpc env) STORAGE_CLASS (svRpc (bwServer w)) of (ok, r) \<Rightarrow>
             (ok, on_proxy p (\<lambda>x. x\<lparr>fpStorage := ok\<rparr>) (w\<lparr>bwServer := (bwServer w)\<lparr>svRpc := r\<rparr>\<rparr>))))"

definition proxy_open :: "back_env \<Rightarrow> message \<Rightarrow> addr \<Rightarrow> addr \<Rightarrow> proxy_world \<Rightarrow> (int \<times> proxy_world) res" where
  "proxy_open env m a p w =
     bind_res (mes_u32 m 4) (\<lambda>n.
       if n = 0 \<or> mes_data_len m < n then
         bind_res (bw_send env a (common_reply_bytes 16 (common_reply_new\<lparr>crCode := 400\<rparr>)) CX_FILE_OPEN_REPLY_CODE (Some m) w) (\<lambda>(ok, w).
           Inr (if ok then 0 else - 2, w))
       else bind_res (mes_c_string m 8) (\<lambda>path.
         let w = on_proxy p (\<lambda>x. x\<lparr>fpPath := path\<rparr>) w in
         case proxy_open_storage env p w of
           (None, w) \<Rightarrow> say env 404 CX_FILE_OPEN_REPLY_CODE storage_text 0 (- 2) m a w
         | (Some k, w) \<Rightarrow>
             bind_res (ic_create env STORAGE_IP STORAGE_PORT k (bw_on_client k (\<lambda>c. c\<lparr>icServer := conServer (bw_con a w)\<rparr>) w)) (\<lambda>(r, w).
               if r \<noteq> 0 then say env 404 CX_FILE_OPEN_REPLY_CODE storage_text r (- 2) m a w
               else case icCon (bwClients w k) of
                 None \<Rightarrow> Inl NullDeref
               | Some b \<Rightarrow>
                   let w = bw_on_con b (\<lambda>c. c\<lparr>conEncrypt := conEncrypt (bw_con a w), conCompress := conCompress (bw_con a w)\<rparr>) w in
                   if stOpened (bwClients w k) then say env 200 CX_FILE_OPEN_REPLY_CODE (opened_text path) 0 (- 2) m a w
                   else bind_res (mes_byte m 0) (\<lambda>ty. bind_res (mes_byte m 1) (\<lambda>existed.
                     bind_res (proxy_ask env INTER_OPEN (\<lambda>q. st_open env q path ty (existed = 1)) m a p k w) (\<lambda>(r, w).
                       if r = 0 then Inr (CXRET_ASYNC_CALLBACK, w)
                       else say env 502 CX_FILE_OPEN_REPLY_CODE (failed_text ''open file '' path) r (- 2) m a w))))))"

text \<open>
  The other handlers: without an open file there is an answer at once, with the code \<open>closed\<close>, otherwise the other server
  is asked.  The answer fails with the code \<open>bad\<close>.
\<close>

definition proxy_request ::
  "back_env \<Rightarrow> u32 \<Rightarrow> u32 \<Rightarrow> (string \<Rightarrow> string) \<Rightarrow> string \<Rightarrow> int \<Rightarrow> u32 \<Rightarrow> (rpc_request \<Rightarrow> addr \<Rightarrow> proxy_world \<Rightarrow> (int \<times> proxy_world) res)
     \<Rightarrow> message \<Rightarrow> addr \<Rightarrow> addr \<Rightarrow> proxy_world \<Rightarrow> (int \<times> proxy_world) res" where
  "proxy_request env reply closed closed_says act bad step call m a p w =
     (let path = fpPath (pwProxies w p) in
      case fpStorage (pwProxies w p) of
        None \<Rightarrow> say env closed reply (closed_says path) 0 bad m a w
      | Some k \<Rightarrow>
          if \<not> stOpened (bwClients w k) then say env closed reply (closed_says path) 0 bad m a w
          else bind_res (proxy_ask env step call m a p k w) (\<lambda>(r, w).
            if r = 0 then Inr (CXRET_ASYNC_CALLBACK, w) else say env 502 reply (failed_text act path) 0 bad m a w))"

definition proxy_close :: "back_env \<Rightarrow> message \<Rightarrow> addr \<Rightarrow> addr \<Rightarrow> proxy_world \<Rightarrow> (int \<times> proxy_world) res" where
  "proxy_close env m = proxy_request env CX_FILE_CLOSE_REPLY_CODE 200 reclosed_text ''close file '' (- 2) INTER_CLOSE (st_close env) m"

definition proxy_write :: "back_env \<Rightarrow> message \<Rightarrow> addr \<Rightarrow> addr \<Rightarrow> proxy_world \<Rightarrow> (int \<times> proxy_world) res" where
  "proxy_write env m = proxy_request env CX_FILE_WRITE_REPLY_CODE 200 reclosed_text ''write data to file '' (- 2) INTER_WRITE (\<lambda>q k w.
     bind_res (mes_u32 m 0) (\<lambda>ty. bind_res (mes_u64 m 4) (\<lambda>pos. bind_res (mes_u32 m 12) (\<lambda>n.
       st_write env q (drop 56 (mesBody m)) n pos ty k w)))) m"

definition proxy_seek :: "back_env \<Rightarrow> message \<Rightarrow> addr \<Rightarrow> addr \<Rightarrow> proxy_world \<Rightarrow> (int \<times> proxy_world) res" where
  "proxy_seek env m = proxy_request env CX_FILE_SEEK_REPLY_CODE 501 closed_text ''seek file '' CXRET_SEND_DATA_FAILED INTER_SEEK (\<lambda>q k w.
     bind_res (mes_u32 m 0) (\<lambda>ty. bind_res (mes_u64 m 4) (\<lambda>pos. st_seek env q pos ty k w))) m"

definition proxy_length :: "back_env \<Rightarrow> message \<Rightarrow> addr \<Rightarrow> addr \<Rightarrow> proxy_world \<Rightarrow> (int \<times> proxy_world) res" where
  "proxy_length env m = proxy_request env CX_FILE_GET_LENGTH_REPLY_CODE 501 closed_text ''get length of the file '' CXRET_SEND_DATA_FAILED
     INTER_LENGTH (st_length env) m"

text \<open>\<open>GetCurrentFilePosition\<close>, which nothing calls, asks for the length.\<close>

definition proxy_position :: "back_env \<Rightarrow> message \<Rightarrow> addr \<Rightarrow> addr \<Rightarrow> proxy_world \<Rightarrow> (int \<times> proxy_world) res" where
  "proxy_position env m = proxy_request env CX_FILE_GET_CUR_POS_REPLY_CODE 501 closed_text ''get current position of the file '' CXRET_SEND_DATA_FAILED
     INTER_POSITION (st_length env) m"

text \<open>Reading has a reply of its own kind.\<close>

definition say_read :: "back_env \<Rightarrow> u32 \<Rightarrow> string \<Rightarrow> message \<Rightarrow> addr \<Rightarrow> proxy_world \<Rightarrow> (int \<times> proxy_world) res" where
  "say_read env code t m a w =
     (let t = take 1013 t
      in bind_res (bw_send env a (read_reply_bytes (8 + (length t + 1)) (read_text_reply code t)) CX_FILE_READ_REPLY_CODE (Some m) w) (\<lambda>(ok, w).
           Inr (if ok then 0 else CXRET_SEND_DATA_FAILED, w)))"

definition proxy_read :: "back_env \<Rightarrow> message \<Rightarrow> addr \<Rightarrow> addr \<Rightarrow> proxy_world \<Rightarrow> (int \<times> proxy_world) res" where
  "proxy_read env m a p w =
     (let path = fpPath (pwProxies w p) in
      case fpStorage (pwProxies w p) of
        None \<Rightarrow> say_read env 501 (closed_text path) m a w
      | Some k \<Rightarrow>
          if \<not> stOpened (bwClients w k) then say_read env 501 (closed_text path) m a w
          else bind_res (proxy_ask env INTER_READ (\<lambda>q k w.
              bind_res (mes_u32 m 0) (\<lambda>ty. bind_res (mes_u64 m 4) (\<lambda>pos. bind_res (mes_u32 m 12) (\<lambda>n. st_read env q n pos ty k w)))) m a p k w) (\<lambda>(r, w).
            if r = 0 then Inr (CXRET_ASYNC_CALLBACK, w) else say_read env 502 (failed_text ''read file '' path) m a w))"

definition proxy_dispatch :: "back_env \<Rightarrow> message \<Rightarrow> addr \<Rightarrow> addr \<Rightarrow> proxy_world \<Rightarrow> (int \<times> proxy_world) res" where
  "proxy_dispatch env m a p w =
     (let code = dwMesCode (body_of (mesBody m)) in
      if conSession (bw_con a w) = None then Inr (- 1, w)
      else if code = CX_HEAERT_BEAT_CODE then answer_heart_beat env m a w
      else if code = CX_FILE_OPEN_CODE then proxy_open env m a p w
      else if code = CX_FILE_SEEK_CODE then proxy_seek env m a p w
      else if code = CX_FILE_READ_CODE then proxy_read env m a p w
      else if code = CX_FILE_WRITE_CODE then proxy_write env m a p w
      else if code = CX_FILE_CLOSE_CODE then proxy_close env m a p w
      else if code = CX_FILE_GET_LENGTH_CODE then proxy_length env m a p w
      else Inr (0, w))"

section \<open>The step functions\<close>

text \<open>
  \<open>snprintf\<close> with the text of the reply as its format and nothing to print: any other use of the percent sign than twice in a
  row reads an argument that is not there.
\<close>

fun print_format :: "string \<Rightarrow> string res" where
  "print_format [] = Inr []"
| "print_format (c # cs) =
     (if c \<noteq> CHR 0x25 then bind_res (print_format cs) (\<lambda>t. Inr (c # t))
      else case cs of
        [] \<Rightarrow> Inl OutOfBounds
      | d # ds \<Rightarrow> if d = CHR 0x25 then bind_res (print_format ds) (\<lambda>t. Inr (c # t)) else Inl OutOfBounds)"

text \<open>\<open>ReplyClient\<close> copies the data of the reply, as long as it says they are, into 4096 bytes.\<close>

definition reply_client :: "back_env \<Rightarrow> u32 \<Rightarrow> addr \<Rightarrow> message \<Rightarrow> addr \<Rightarrow> rpc_reply \<Rightarrow> proxy_world \<Rightarrow> (int \<times> proxy_world) res" where
  "reply_client env code p m a rep w =
     (let send = (\<lambda>r bs w. bind_res (bw_send env a bs code (Some m) w) (\<lambda>(ok, w). Inr (if ok then r else CXRET_SEND_DATA_FAILED, w)))
      in if rpCode rep = 503 then
           bind_res (print_format (rpContent rep)) (\<lambda>t. let t = take 4077 t in
             send CXRET_NOTIFY_REMOTE_FAILED (le_enc 4 404 @ le_enc 4 0 @ le_enc 4 0 @ le_enc 4 (length t + 1) @ text_bytes t @ [0]) w)
         else
           let w = (if code = CX_FILE_OPEN_REPLY_CODE \<and> \<not> fpOpened (pwProxies w p) \<and> rpCode rep = 200 then on_proxy p (\<lambda>x. x\<lparr>fpOpened := True\<rparr>) w else w);
               n = unat (rpDataLen rep);
               fields = le_enc 4 (unat (rpCode rep)) @ le_enc 4 (unat (rpValue1 rep)) @ le_enc 4 (unat (rpValue2 rep)) @ le_enc 4 n
           in if n = 0 then send 0 fields w
              else case rpData rep of
                None \<Rightarrow> Inl NullDeref
              | Some mem \<Rightarrow>
                  if length mem < n then Inl OutOfBounds
                  else if CX_BUF_SIZE - 16 < n then Inl HeapOverflow
                  else send 0 (fields @ take n mem) w)"

definition proxy_read_reply :: "back_env \<Rightarrow> addr \<Rightarrow> message \<Rightarrow> addr \<Rightarrow> rpc_reply \<Rightarrow> proxy_world \<Rightarrow> (int \<times> proxy_world) res" where
  "proxy_read_reply env p m a rep w =
     (let send = (\<lambda>r code t w. let t = take 4085 t in
            bind_res (bw_send env a (le_enc 4 code @ le_enc 4 (length t + 1) @ text_bytes t @ [0]) CX_FILE_READ_REPLY_CODE (Some m) w) (\<lambda>(ok, w).
              Inr (if ok then r else CXRET_SEND_DATA_FAILED, w)))
      in if rpCode rep = 503 then bind_res (print_format (rpContent rep)) (\<lambda>t. send CXRET_NOTIFY_REMOTE_FAILED 404 t w)
         else
           let n = rpDataLen rep; size = n + 8 in
           case get_send_buffer_obj (beSend env) size (bw_con a w) of
             None \<Rightarrow> send CXRET_ALLOCATE_MEMORY_FAILED 203
               (''Failed to read data,an error occur in allocating memory '' @ show_int (sint size) @ '' bytes'') w
           | Some (b, c) \<Rightarrow>
               let w = bw_on_con a (\<lambda>_. c) w
               in bind_res (if n = 0 then Inr [] else case rpData rep of None \<Rightarrow> Inl NullDeref
                              | Some mem \<Rightarrow> if length mem < unat n then Inl OutOfBounds else Inr (take (unat n) mem)) (\<lambda>data.
                  bind_res (write_buffer (sizeof_packet_data - 1) (le_enc 4 (unat (rpCode rep)) @ le_enc 4 (unat n) @ data) b) (\<lambda>b.
                  bind_res (bw_send_buffer env a b (unat size) CX_FILE_READ_REPLY_CODE (Some m) w) (\<lambda>(ok, w).
                    Inr (if ok then 0 else CXRET_SEND_DATA_FAILED, w)))))"

text \<open>After a file is closed the storage client is to be destroyed, whatever the reply says.\<close>

definition proxy_close_reply :: "back_env \<Rightarrow> addr \<Rightarrow> message \<Rightarrow> addr \<Rightarrow> rpc_reply \<Rightarrow> proxy_world \<Rightarrow> (int \<times> proxy_world) res" where
  "proxy_close_reply env p m a rep w =
     bind_res (reply_client env CX_FILE_CLOSE_REPLY_CODE p m a rep w) (\<lambda>(r, w).
       let w = (case fpStorage (pwProxies w p) of
                  None \<Rightarrow> w
                | Some k \<Rightarrow> if fpServer (pwProxies w p)
                            then on_proxy p (\<lambda>x. x\<lparr>fpStorage := None\<rparr>) (bw_on_obj k (\<lambda>ob. ob\<lparr>objNeedDestroy := True\<rparr>) w) else w)
       in Inr (r, on_proxy p (\<lambda>x. x\<lparr>fpPath := [], fpOpened := False\<rparr>) w))"

definition proxy_step :: "back_env \<Rightarrow> u32 \<Rightarrow> addr \<Rightarrow> message \<Rightarrow> addr \<Rightarrow> rpc_reply \<Rightarrow> proxy_world \<Rightarrow> (int \<times> proxy_world) res" where
  "proxy_step env step p m a rep w =
     (if step = INTER_OPEN then reply_client env CX_FILE_OPEN_REPLY_CODE p m a rep w
      else if step = INTER_READ then proxy_read_reply env p m a rep w
      else if step = INTER_WRITE then reply_client env CX_FILE_WRITE_REPLY_CODE p m a rep w
      else if step = INTER_SEEK then reply_client env CX_FILE_SEEK_REPLY_CODE p m a rep w
      else if step = INTER_CLOSE then proxy_close_reply env p m a rep w
      else if step = INTER_LENGTH then reply_client env CX_FILE_GET_LENGTH_REPLY_CODE p m a rep w
      else if step = INTER_POSITION then reply_client env CX_FILE_GET_CUR_POS_REPLY_CODE p m a rep w
      else Inl Uncaught)"

section \<open>The end of the object\<close>

definition proxy_destroy :: "back_env \<Rightarrow> addr \<Rightarrow> proxy_world \<Rightarrow> proxy_world res" where
  "proxy_destroy env p w =
     (let w = on_proxy p (\<lambda>x. x\<lparr>fpPath := [], fpOpened := False\<rparr>) w
      in bind_res (case (fpStorage (pwProxies w p), fpServer (pwProxies w p)) of
             (Some k, True) \<Rightarrow> bind_res (storage_destroy env k w) (\<lambda>w. let s = bwServer w in
               Inr (on_proxy p (\<lambda>x. x\<lparr>fpStorage := None\<rparr>) (w\<lparr>bwServer := s\<lparr>svRpc := free_object k (svRpc s)\<rparr>\<rparr>)))
           | _ \<Rightarrow> Inr w) (\<lambda>w. Inr (bw_on_obj p rpc_obj_reset w)))"

end
