(* ===== verification/Plain_Line.thy ===== *)
theory Plain_Line imports Main Internal_Client End_To_End begin

text \<open>
  A connection of the server without a codec whose list for sending is empty: what is sent on it is on the wire at once,
  as one packet.
\<close>

definition plain_packet :: "byte list \<Rightarrow> packet_header \<times> byte list" where
  "plain_packet body = (\<lparr>wFlag = CX_PACKET_HEADER_FLAG, byCompressFlag = 0, byEncryptFlag = 0, dwDataLen = word_of_nat (length body),
     dwCheckSum = check_sum body, dwOrignDataLen = word_of_nat (length body)\<rparr>, body)"

definition plain_line :: "connection \<Rightarrow> sock \<Rightarrow> bool" where
  "plain_line c s \<longleftrightarrow> conState c = ESTABLISHED \<and> conServer c \<and> conEncrypt c = 0 \<and> conCompress c = 0 \<and> conSendBuf c = [] \<and>
     conSendBufEnd c = None \<and> conCurSendSeq c = conLastSentSeq c + 1 \<and> conSession c \<noteq> None \<and> length (conObjectID c) = CX_GUID_LEN \<and> sckScript s = []"

definition line_env :: "send_env \<Rightarrow> bool" where
  "line_env env \<longleftrightarrow> senKernel env \<and> (\<forall>n. \<exists>cap. senAlloc env n = Some cap \<and> n \<le> cap)"

text \<open>What sending leaves alone.\<close>

definition line_same :: "connection \<Rightarrow> connection \<Rightarrow> bool" where
  "line_same c c' \<longleftrightarrow> conState c' = conState c \<and> conServer c' = conServer c \<and> conSession c' = conSession c \<and> conEncrypt c' = conEncrypt c \<and>
     conCompress c' = conCompress c \<and> conObjectID c' = conObjectID c \<and> conRequestID c' = conRequestID c \<and> conAsyncMes c' = conAsyncMes c"

lemma line_send_buffer:
  assumes "plain_line c s" and "senKernel env" and "0 < n" and "n + 56 \<le> CX_MAX_CHACHE_SIZE"
    and "bufAddr b \<in> set (conLive c)" and "bufCur b = 0" and "n + 56 \<le> length (bufData b)" and "take n (drop 56 (bufData b)) = bs"
    and "length (packet_body_head code om c) = 40"
  shows "\<exists>c'. send_packet_buffer env b n code om c s =
      Inr (True, c', s\<lparr>sckOut := sckOut s @ wire (plain_packet (packet_body_head code om c @ bs))\<rparr>) \<and>
    plain_line c' (s\<lparr>sckOut := sckOut s @ wire (plain_packet (packet_body_head code om c @ bs))\<rparr>) \<and> line_same c c'"
proof -
  let ?head = "packet_body_head code om c" and ?d = "bufData b"
  let ?c = "c\<lparr>conSendBufferIndex := conSendBufferIndex c + 1, conCurSendSeq := conCurSendSeq c + 1\<rparr>"
  have len: "length bs = n" using assms(7,8) by auto
  have w1: "write_buffer sizeof_header ?head b = Inr (b\<lparr>bufData := memcpy ?d 16 ?head\<rparr>)"
    using assms(7,9) by (simp add: write_buffer_def sizes)
  let ?b = "b\<lparr>bufData := memcpy ?d 16 ?head, bufSeq := conCurSendSeq c, bufLen := n + 56\<rparr>"
  have l1: "length (memcpy ?d 16 ?head) = length ?d" using assms(7,9) by simp
  have body: "take (40 + n) (drop 16 (memcpy ?d 16 ?head)) = ?head @ bs"
    using assms(7-9) by (simp add: memcpy_def)
  let ?h = "fst (plain_packet (?head @ bs))"
  have lens: "word_of_nat (n + 56) - 16 = (word_of_nat (length (?head @ bs)) :: u32)" using assms(9) len by simp
  have w2: "write_buffer 0 (header_bytes ?h) ?b = Inr (?b\<lparr>bufData := memcpy (memcpy ?d 16 ?head) 0 (header_bytes ?h)\<rparr>)"
    using assms(7) l1 by (simp add: write_buffer_def sizes)
  let ?b2 = "?b\<lparr>bufData := memcpy (memcpy ?d 16 ?head) 0 (header_bytes ?h)\<rparr>"
  have left: "buffer_left ?b2 = wire (plain_packet (?head @ bs))"
    using assms(6-9) l1 by (simp add: buffer_left_def wire_def plain_packet_def memcpy_def min_def sizes)
  have asm: "send_assembled_packet env ?b (word_of_nat (bufLen ?b) - word_of_nat sizeof_header) ?c s =
      bind_res (post_send env ?b2 ?c s) (\<lambda>(r, c, s). Inr (r = 0, c, s))"
  proof -
    have "conCompress ?c = 0" "conEncrypt ?c = 0" using assms(1) by (simp_all add: plain_line_def)
    then show ?thesis using body lens w2 by (simp add: send_assembled_packet_def sizes plain_packet_def add.commute)
  qed
  have post: "post_send env ?b2 ?c s = Inr (0, ?c\<lparr>conSendBuf := [], conSendBufEnd := None, conLastSentSeq := conLastSentSeq c + 1,
      conLive := remove1 (bufAddr b) (conLive c)\<rparr>, s\<lparr>sckOut := sckOut s @ buffer_left ?b2, sckScript := []\<rparr>)"
    using assms(1-6) by (simp add: post_send_def plain_line_def push_send_buffer_def push_seq_def send_data_list_def Let_def pop_sent_def
        free_message_def close_after_send_def buffer_left_def)
  let ?c' = "?c\<lparr>conSendBuf := [], conSendBufEnd := None, conLastSentSeq := conLastSentSeq c + 1, conLive := remove1 (bufAddr b) (conLive c)\<rparr>"
  have "send_packet_buffer env b n code om c s = send_assembled_packet env ?b (word_of_nat (bufLen ?b) - word_of_nat sizeof_header) ?c s"
    using assms(1,3) w1 by (simp add: send_packet_buffer_def plain_line_def Let_def sizes add.commute)
  also have "\<dots> = Inr (True, ?c', s\<lparr>sckOut := sckOut s @ wire (plain_packet (?head @ bs))\<rparr>)"
    using asm post left assms(1) by (simp add: plain_line_def)
  finally show ?thesis using assms(1) by (intro exI [of _ ?c']) (simp add: plain_line_def line_same_def)
qed

lemma plain_line_fields:
  assumes "plain_line c s"
  shows "conServer c" "conState c = ESTABLISHED" "conSession c \<noteq> None" "conEncrypt c = 0" "conCompress c = 0"
  using assms by (simp_all add: plain_line_def)

text \<open>A new object of the pool, and sending the caller's bytes.\<close>

lemma line_get_buffer:
  assumes "line_env env"
  shows "\<exists>cap. unat n \<le> cap \<and> get_buffer_obj env n c = Some (\<lparr>bufAddr = conNextAddr c, bufSeq = 0, bufData = replicate (cap - offset_buffer_data) 0,
    bufCur = 0, bufLen = CX_BUF_SIZE\<rparr>, c\<lparr>conNextAddr := Suc (conNextAddr c), conLive := conNextAddr c # conLive c\<rparr>)"
proof -
  obtain cap where "senAlloc env (unat n) = Some cap" "unat n \<le> cap" using assms by (auto simp: line_env_def)
  then show ?thesis by (intro exI [of _ cap]) (simp add: get_buffer_obj_def new_message_addr_def)
qed

lemma line_send:
  assumes "plain_line c s" and "line_env env" and "bs \<noteq> []" and "length bs + 56 \<le> CX_MAX_CHACHE_SIZE" and "length (packet_body_head code om c) = 40"
  shows "\<exists>c'. send_packet env bs code om c s =
      Inr (True, c', s\<lparr>sckOut := sckOut s @ wire (plain_packet (packet_body_head code om c @ bs))\<rparr>) \<and>
    plain_line c' (s\<lparr>sckOut := sckOut s @ wire (plain_packet (packet_body_head code om c @ bs))\<rparr>) \<and> line_same c c'"
proof -
  let ?n = "length bs"
  have n: "?n \<le> 1048576" using assms(4) by (simp add: CX_MAX_CHACHE_SIZE_def)
  let ?c = "c\<lparr>conNextAddr := Suc (conNextAddr c), conLive := conNextAddr c # conLive c\<rparr>"
  obtain cap where cap: "?n + 112 \<le> cap" "get_buffer_obj env (word_of_nat ?n + word_of_nat sizeof_packet_data - 1 + word_of_nat buffer_head) c =
      Some (\<lparr>bufAddr = conNextAddr c, bufSeq = 0, bufData = replicate (cap - 52) 0, bufCur = 0, bufLen = CX_BUF_SIZE\<rparr>, ?c)"
    using line_get_buffer [OF assms(2), of "word_of_nat ?n + word_of_nat sizeof_packet_data - 1 + word_of_nat buffer_head" c] u32_sums(1) [OF n]
    by (auto simp: sizes buffer_head_def)
  let ?b = "\<lparr>bufAddr = conNextAddr c, bufSeq = 0, bufData = memcpy (replicate (cap - 52) 0) 56 bs, bufCur = 0, bufLen = CX_BUF_SIZE\<rparr> :: buffer_obj"
  have "\<not> cap - 52 < 56 + ?n" using cap(1) by simp
  then have "send_packet env bs code om c s = send_packet_buffer env ?b ?n code om ?c s"
    using cap(2) assms(1,3) by (simp add: send_packet_def plain_line_def write_buffer_def sizes)
  moreover have "plain_line ?c s" "packet_body_head code om ?c = packet_body_head code om c" "senKernel env"
    using assms(1,2) by (simp_all add: plain_line_def packet_body_head_def line_env_def split: option.splits)
  moreover have "take ?n (drop 56 (bufData ?b)) = bs" "?n + 56 \<le> length (bufData ?b)" using cap(1) by (simp_all add: memcpy_def)
  moreover have "line_same c c' = line_same ?c c'" for c' by (simp add: line_same_def)
  ultimately show ?thesis
    using line_send_buffer [of ?c s env ?n ?b bs code om] assms(3,4,5) by simp
qed

text \<open>The head of a packet: its identifiers, its code, and its number.\<close>

lemma length_body_head:
  "length (conObjectID c) = CX_GUID_LEN \<Longrightarrow> length (conRequestID c) = CX_GUID_LEN \<Longrightarrow> length (packet_body_head code None c) = 40"
  "32 \<le> length (mesBody m) \<Longrightarrow> length (packet_body_head code (Some m) c) = 40"
  by (simp_all add: packet_body_head_def sizes)

lemma body_of_head:
  assumes "length (conObjectID c) = CX_GUID_LEN" and "length (conRequestID c) = CX_GUID_LEN"
  shows "dwMesCode (body_of (packet_body_head code None c @ bs)) = code" "byRequestID (body_of (packet_body_head code None c @ bs)) = conRequestID c"
  using assms by (simp_all add: body_of_def packet_body_head_def sizes word32_le_roundtrip)

section \<open>The world\<close>

lemma bw_simps [simp]:
  "bw_con a (bw_on_con b f w) = (if a = b then f (bw_con a w) else bw_con a w)"
  "bw_con a (bw_set_con b c s w) = (if a = b then c else bw_con a w)"
  "bw_con a (bw_on_obj k g w) = bw_con a w"
  "bw_con a (bw_on_client k h w) = bw_con a w"
  "bwSocks (bw_on_con b f w) = bwSocks w"
  "bwSocks (bw_set_con b c s w) = (bwSocks w)(b := s)"
  "bwSocks (bw_on_obj k g w) = bwSocks w"
  "bwSocks (bw_on_client k h w) = bwSocks w"
  "bwClients (bw_on_con b f w) = bwClients w"
  "bwClients (bw_set_con b c s w) = bwClients w"
  "bwClients (bw_on_obj k g w) = bwClients w"
  "bwClients (bw_on_client k h w) = (bwClients w)(k := h (bwClients w k))"
  "bw_obj p (bw_on_con b f w) = bw_obj p w"
  "bw_obj p (bw_set_con b c s w) = bw_obj p w"
  "bw_obj p (bw_on_obj k g w) = (if p = k then g (bw_obj p w) else bw_obj p w)"
  "bw_obj p (bw_on_client k h w) = bw_obj p w"
  by (simp_all add: bw_con_def bw_on_con_def bw_set_con_def bw_on_obj_def bw_on_client_def bw_obj_def con_of_def on_cons_def update_con_def Let_def)

lemma bw_send_line:
  assumes "plain_line (bw_con a w) (bwSocks w a)" and "line_env (beSend env)" and "bs \<noteq> []" and "length bs + 56 \<le> CX_MAX_CHACHE_SIZE"
    and "length (packet_body_head code om (bw_con a w)) = 40"
  shows "\<exists>c' s'. bw_send env a bs code om w = Inr (True, bw_set_con a c' s' w) \<and> plain_line c' s' \<and> line_same (bw_con a w) c' \<and>
    sckOut s' = sckOut (bwSocks w a) @ wire (plain_packet (packet_body_head code om (bw_con a w) @ bs))"
  using line_send [OF assms] unfolding bw_send_def by force

end
