(* ===== verification/Proxy_Service.thy ===== *)
theory Proxy_Service imports Main File_Proxy Plain_Line Remote_File begin

text \<open>
  What the proxy of files does for its clients: as long as nothing fails on the way, the file of the other server, but for
  three things.  What is written without an open file is lost, a file that is open is opened again only in name, and the
  last byte of a read that meets the end of the file is replaced by zero.
\<close>

section \<open>The world\<close>

lemma proxy_simps [simp]:
  "bw_con a (on_proxy p f w) = bw_con a w"
  "bwSocks (on_proxy p f w) = bwSocks w"
  "bwClients (on_proxy p f w) = bwClients w"
  "bw_obj k (on_proxy p f w) = bw_obj k w"
  "pwProxies (on_proxy p f w) = (pwProxies w)(p := f (pwProxies w p))"
  "pwProxies (bw_on_con a g w) = pwProxies w"
  "pwProxies (bw_set_con a c s w) = pwProxies w"
  "pwProxies (bw_on_obj k h w) = pwProxies w"
  "pwProxies (bw_on_client k i w) = pwProxies w"
  by (simp_all add: on_proxy_def bw_con_def bw_obj_def bw_on_con_def bw_set_con_def bw_on_obj_def bw_on_client_def Let_def)

lemma plain_line_simps [simp]:
  "plain_line (c\<lparr>conAsyncMes := x\<rparr>) s = plain_line c s"
  "plain_line (push_received_message r m c) s = plain_line c s"
  "plain_line (c\<lparr>conRequestID := i\<rparr>) s = plain_line c s"
  "plain_line (push_rpc_obj q k c) s = plain_line c s"
  "plain_line (snd (new_message_addr c)) s = plain_line c s"
  by (simp_all add: plain_line_def push_received_message_def add_received_packet_number_def push_rpc_obj_def new_message_addr_def)

text \<open>The proxy \<open>p\<close> of a client on the connection \<open>a\<close>, with its storage client \<open>k\<close> on the connection \<open>b\<close>, if it has one, and its open file.\<close>

definition proxy_base :: "addr \<Rightarrow> addr \<Rightarrow> addr \<Rightarrow> addr \<Rightarrow> proxy_world \<Rightarrow> bool" where
  "proxy_base a b p k w \<longleftrightarrow> a \<noteq> b \<and> p \<noteq> k \<and> plain_line (bw_con a w) (bwSocks w a) \<and> objUsing (bw_obj p w) \<and> objID (bw_obj p w) \<noteq> [] \<and>
     objStepFuns (bw_obj p w) = [1, 2, 3, 4, 5, 6, 7] \<and> fpServer (pwProxies w p)"

definition proxy_at :: "addr \<Rightarrow> addr \<Rightarrow> addr \<Rightarrow> addr \<Rightarrow> bool option \<Rightarrow> proxy_world \<Rightarrow> bool" where
  "proxy_at a b p k stat w \<longleftrightarrow> proxy_base a b p k w \<and>
     (case stat of
        None \<Rightarrow> fpStorage (pwProxies w p) = None
      | Some opened \<Rightarrow> fpStorage (pwProxies w p) = Some k \<and> icCon (bwClients w k) = Some b \<and> icRequests (bwClients w k) = Map.empty \<and>
          stOpened (bwClients w k) = opened \<and> plain_line (bw_con b w) (bwSocks w b))"

lemma proxy_at_send: "proxy_at a b p k stat w \<Longrightarrow> plain_line c s \<Longrightarrow> proxy_at a b p k stat (bw_set_con a c s w)"
  by (auto simp: proxy_at_def proxy_base_def split: option.splits)

text \<open>What a packet on the wire says behind its header and its head of forty bytes.\<close>

definition packet_data :: "byte list \<Rightarrow> byte list" where
  "packet_data bs = drop (sizeof_header + 40) bs"

lemma packet_data_wire: "length h = 40 \<Longrightarrow> packet_data (wire (plain_packet (h @ bs))) = bs"
  by (simp add: packet_data_def wire_def plain_packet_def sizes)

section \<open>Answers of the proxy itself\<close>

lemma bw_send_answer:
  assumes "plain_line (bw_con a w) (bwSocks w a)" and "line_env (beSend env)" and "bs \<noteq> []" and "length bs + 56 \<le> CX_MAX_CHACHE_SIZE"
    and "32 \<le> length (mesBody m)"
  shows "\<exists>c' s' out. bw_send env a bs code (Some m) w = Inr (True, bw_set_con a c' s' w) \<and> plain_line c' s' \<and> line_same (bw_con a w) c' \<and>
    sckOut s' = sckOut (bwSocks w a) @ out \<and> packet_data out = bs"
proof -
  have h: "length (packet_body_head code (Some m) (bw_con a w)) = 40" by (rule length_body_head(2) [OF assms(5)])
  from bw_send_line [OF assms(1-4) h] packet_data_wire [OF h] show ?thesis by blast
qed

lemma say_line:
  assumes "proxy_at a b p k stat w" and "line_env (beSend env)" and "32 \<le> length (mesBody m)"
  shows "\<exists>w' out. say env code reply t good bad m a w = Inr (good, w') \<and> proxy_at a b p k stat w' \<and> bwSocks w' b = bwSocks w b \<and>
    sckOut (bwSocks w' a) = sckOut (bwSocks w a) @ out \<and> 16 \<le> length (packet_data out) \<and> reply_code (packet_data out) = code"
proof -
  let ?t = "take 1005 t"
  let ?bs = "common_reply_bytes (16 + (length ?t + 1)) (text_reply code ?t)"
  have len: "length ?bs = 16 + (length ?t + 1)" by (rule length_common_reply_bytes) simp
  then have "?bs \<noteq> []" "length ?bs + 56 \<le> CX_MAX_CHACHE_SIZE" by (auto simp: CX_MAX_CHACHE_SIZE_def)
  moreover have "plain_line (bw_con a w) (bwSocks w a)" "a \<noteq> b" using assms(1) by (simp_all add: proxy_at_def proxy_base_def)
  ultimately obtain c' s' out where s: "bw_send env a ?bs reply (Some m) w = Inr (True, bw_set_con a c' s' w)" "plain_line c' s'"
      "sckOut s' = sckOut (bwSocks w a) @ out" "packet_data out = ?bs"
    using bw_send_answer [OF _ assms(2) _ _ assms(3), of a w ?bs reply] by blast
  have "say env code reply t good bad m a w = Inr (good, bw_set_con a c' s' w)" unfolding say_def Let_def s(1) by simp
  moreover have "proxy_at a b p k stat (bw_set_con a c' s' w)"
    by (rule proxy_at_send [OF assms(1) s(2)])
  moreover have "reply_code ?bs = code" by (simp add: reply_code_common)
  ultimately show ?thesis using s(3,4) len \<open>a \<noteq> b\<close> by (intro exI [of _ "bw_set_con a c' s' w"] exI [of _ out]) simp
qed

lemma say_read_line:
  assumes "proxy_at a b p k stat w" and "line_env (beSend env)" and "32 \<le> length (mesBody m)"
  shows "\<exists>w' out. say_read env code t m a w = Inr (0, w') \<and> proxy_at a b p k stat w' \<and> bwSocks w' b = bwSocks w b \<and>
    sckOut (bwSocks w' a) = sckOut (bwSocks w a) @ out \<and> reply_code (packet_data out) = code"
proof -
  let ?t = "take 1013 t"
  let ?bs = "read_reply_bytes (8 + (length ?t + 1)) (read_text_reply code ?t)"
  have len: "length ?bs = 8 + (length ?t + 1)" by (simp add: read_reply_bytes_def read_text_reply_def text_bytes_def min_def)
  then have "?bs \<noteq> []" "length ?bs + 56 \<le> CX_MAX_CHACHE_SIZE" by (auto simp: CX_MAX_CHACHE_SIZE_def)
  moreover have "plain_line (bw_con a w) (bwSocks w a)" "a \<noteq> b" using assms(1) by (simp_all add: proxy_at_def proxy_base_def)
  ultimately obtain c' s' out where s: "bw_send env a ?bs CX_FILE_READ_REPLY_CODE (Some m) w = Inr (True, bw_set_con a c' s' w)" "plain_line c' s'"
      "sckOut s' = sckOut (bwSocks w a) @ out" "packet_data out = ?bs"
    using bw_send_answer [OF _ assms(2) _ _ assms(3), of a w ?bs CX_FILE_READ_REPLY_CODE] by blast
  have "say_read env code t m a w = Inr (0, bw_set_con a c' s' w)" unfolding say_read_def Let_def s(1) by simp
  moreover have "proxy_at a b p k stat (bw_set_con a c' s' w)"
    by (rule proxy_at_send [OF assms(1) s(2)])
  moreover have "reply_code ?bs = code" by (simp add: reply_code_read read_text_reply_def)
  ultimately show ?thesis using s(3,4) \<open>a \<noteq> b\<close> by (intro exI [of _ "bw_set_con a c' s' w"] exI [of _ out]) simp
qed

section \<open>Asking\<close>

lemma ic_send_packet_line:
  fixes w :: proxy_world
  assumes "icCon (bwClients w k) = Some b" and "plain_line (bw_con b w) (bwSocks w b)" and "senKernel (beSend env)"
    and "length (rqBytes q) = CX_GUID_LEN" and "0 < n" and "n + 56 \<le> CX_MAX_CHACHE_SIZE" and "code \<noteq> 0" and "icRequests (bwClients w k) = Map.empty"
    and "bufAddr buf \<in> set (conLive (bw_con b w))" and "bufCur buf = 0" and "n + 56 \<le> length (bufData buf)" and "take n (drop 56 (bufData buf)) = bs"
  shows "\<exists>w' body. ic_send_packet_data env q buf n code k w = Inr (0, w') \<and>
    (\<forall>x. x \<noteq> b \<longrightarrow> bw_con x w' = bw_con x w \<and> bwSocks w' x = bwSocks w x) \<and> (\<forall>x. bw_obj x w' = bw_obj x w) \<and> pwProxies w' = pwProxies w \<and>
    bwClients w' = (bwClients w)(k := (bwClients w k)\<lparr>icRequests := [rqID q \<mapsto> q]\<rparr>) \<and> plain_line (bw_con b w') (bwSocks w' b) \<and>
    sckOut (bwSocks w' b) = sckOut (bwSocks w b) @ wire (plain_packet body) \<and> length body = 40 + length bs \<and> drop 40 body = bs \<and>
    dwMesCode (body_of body) = code \<and> byRequestID (body_of body) = rqBytes q"
proof -
  define w2 where "w2 = bw_on_client k (ic_push_request q) w"
  define w3 where "w3 = bw_on_con b (\<lambda>c. c\<lparr>conRequestID := rqBytes q\<rparr>) (if objAligned (bw_obj k w) then w2 else bw_on_con b (push_rpc_obj (rqID q) k) w2)"
  have w3: "plain_line (bw_con b w3) (bwSocks w b)" "conRequestID (bw_con b w3) = rqBytes q" "conLive (bw_con b w3) = conLive (bw_con b w)"
      "bwSocks w3 = bwSocks w" "\<And>x. x \<noteq> b \<Longrightarrow> bw_con x w3 = bw_con x w" "\<And>x. bw_obj x w3 = bw_obj x w" "pwProxies w3 = pwProxies w"
      "bwClients w3 = (bwClients w)(k := (bwClients w k)\<lparr>icRequests := [rqID q \<mapsto> q]\<rparr>)"
    using assms(2,8) by (simp_all add: w3_def w2_def push_rpc_obj_def ic_push_request_def plain_line_def)
  have id: "length (conObjectID (bw_con b w3)) = CX_GUID_LEN" using w3(1) by (simp add: plain_line_def)
  note head = length_body_head(1) [OF id, of code, unfolded w3(2), OF assms(4)]
    body_of_head [OF id, of code bs, unfolded w3(2), OF assms(4)]
  let ?body = "packet_body_head code None (bw_con b w3) @ bs"
  obtain c' s' where s: "send_packet_buffer (beSend env) buf n code None (bw_con b w3) (bwSocks w b) = Inr (True, c', s')" "plain_line c' s'"
      "sckOut s' = sckOut (bwSocks w b) @ wire (plain_packet ?body)"
    using line_send_buffer [OF w3(1) assms(3,5,6), of buf bs code None] assms(9-12) w3(3) head(1) by auto
  have "bw_send_buffer env b buf n code None w3 = Inr (True, bw_set_con b c' s' w3)"
    using s(1) w3(4) by (simp add: bw_send_buffer_def)
  moreover have "conState c' = ESTABLISHED" using s(2) by (simp add: plain_line_def)
  moreover have "ic_send_packet_data env q buf n code k w = bind_res (bw_send_buffer env b buf n code None w3) (\<lambda>(ok, w').
      if \<not> ok then Inr (CXRET_SEND_DATA_FAILED, bw_on_client k (\<lambda>c. snd (ic_pop_request (beNow env) (rqID q) c))
          ((if objAligned (bw_obj k w) then id else bw_on_con b (\<lambda>c. snd (pop_rpc_obj (rqID q) c))) w'))
      else if conState (bw_con b w') = CREATING then
        bind_res (ic_async_connect env (rqID q) k w') (\<lambda>(r, w). if r \<noteq> 0 \<and> r \<noteq> CXRET_ASYNC_CALLBACK then
            let w = bw_on_client k (\<lambda>c. snd (ic_pop_request (beNow env) (rqID q) c))
              ((if objAligned (bw_obj k w2) then id else bw_on_con b (\<lambda>c. snd (pop_rpc_obj (rqID q) c))) w)
            in bind_res (free_sending_list (bw_con b w)) (\<lambda>c. Inr (r, bw_on_con b (\<lambda>_. c) w)) else Inr (0, w))
      else Inr (0, w'))"
    using assms(1,5,7) unfolding ic_send_packet_data_def w3_def w2_def by (simp add: Let_def)
  ultimately have "ic_send_packet_data env q buf n code k w = Inr (0, bw_set_con b c' s' w3)" by simp
  then show ?thesis using s(2,3) head w3
    by (intro exI [of _ "bw_set_con b c' s' w3"] exI [of _ ?body]) simp
qed

lemma storage_send_line:
  fixes w :: proxy_world
  assumes "icCon (bwClients w k) = Some b" and "request_valid q" and "plain_line (bw_con b w) (bwSocks w b)" and "line_env (beSend env)"
    and "length (rqBytes q) = CX_GUID_LEN" and "bs \<noteq> []" and "unat n = length bs" and "length bs + 56 \<le> CX_MAX_CHACHE_SIZE" and "code \<noteq> 0"
    and "icRequests (bwClients w k) = Map.empty"
  shows "\<exists>w' body. storage_send env q n (Inr bs) code k w = Inr (0, w') \<and>
    (\<forall>x. x \<noteq> b \<longrightarrow> bw_con x w' = bw_con x w \<and> bwSocks w' x = bwSocks w x) \<and> (\<forall>x. bw_obj x w' = bw_obj x w) \<and> pwProxies w' = pwProxies w \<and>
    bwClients w' = (bwClients w)(k := (bwClients w k)\<lparr>icRequests := [rqID q \<mapsto> q]\<rparr>) \<and> plain_line (bw_con b w') (bwSocks w' b) \<and>
    sckOut (bwSocks w' b) = sckOut (bwSocks w b) @ wire (plain_packet body) \<and> length body = 40 + length bs \<and> drop 40 body = bs \<and>
    dwMesCode (body_of body) = code \<and> byRequestID (body_of body) = rqBytes q"
proof -
  let ?n = "length bs" and ?c = "bw_con b w"
  let ?c1 = "?c\<lparr>conNextAddr := Suc (conNextAddr ?c), conLive := conNextAddr ?c # conLive ?c\<rparr>"
  have n: "?n + 56 \<le> 1048576" using assms(8) by (simp add: CX_MAX_CHACHE_SIZE_def)
  have size: "unat (n + word_of_nat buffer_head + word_of_nat sizeof_packet_data - 1) = ?n + 112"
  proof -
    have "word_of_nat (unat n) = n" by simp
    then have "n = word_of_nat ?n" using assms(7) by simp
    then show ?thesis using u32_sums(1) [of ?n] n by (simp add: sizes buffer_head_def add.commute)
  qed
  obtain cap where cap: "?n + 112 \<le> cap" "get_send_buffer_obj (beSend env) n ?c =
      Some (\<lparr>bufAddr = conNextAddr ?c, bufSeq = 0, bufData = replicate (cap - 52) 0, bufCur = 0, bufLen = CX_BUF_SIZE\<rparr>, ?c1)"
    using line_get_buffer [OF assms(4), of "n + word_of_nat buffer_head + word_of_nat sizeof_packet_data - 1" ?c] size
    by (auto simp: get_send_buffer_obj_def sizes)
  let ?b = "\<lparr>bufAddr = conNextAddr ?c, bufSeq = 0, bufData = memcpy (replicate (cap - 52) 0) 56 bs, bufCur = 0, bufLen = CX_BUF_SIZE\<rparr> :: buffer_obj"
  have fits: "\<not> cap - 52 < 56 + ?n" using cap(1) by simp
  define w1 where "w1 = bw_on_con b (\<lambda>_. ?c1) w"
  have "plain_line ?c1 (bwSocks w b)" using assms(3) by (simp add: plain_line_def)
  then have w1: "plain_line (bw_con b w1) (bwSocks w1 b)" "icCon (bwClients w1 k) = Some b" "icRequests (bwClients w1 k) = Map.empty"
      "bufAddr ?b \<in> set (conLive (bw_con b w1))" "\<And>x. x \<noteq> b \<Longrightarrow> bw_con x w1 = bw_con x w" "bwSocks w1 = bwSocks w"
      "\<And>x. bw_obj x w1 = bw_obj x w" "pwProxies w1 = pwProxies w" "bwClients w1 = bwClients w"
    using assms(1,10) by (simp_all add: w1_def)
  have d: "?n + 56 \<le> length (bufData ?b)" "take ?n (drop 56 (bufData ?b)) = bs" "bufCur ?b = 0" using cap(1) by (simp_all add: memcpy_def)
  have "storage_send env q n (Inr bs) code k w = ic_send_packet_data env q ?b ?n code k w1"
    using assms(1,2,7) cap(2) fits by (simp add: storage_send_def ic_get_send_buffer_def write_buffer_def sizes w1_def)
  then show ?thesis
    using ic_send_packet_line [OF w1(2,1) _ assms(5) _ assms(8,9) w1(3,4) d(3,1,2)] assms(4,6) w1(5-9) by (simp add: line_env_def)
qed

lemma pop_push_state:
  "\<exists>ob. pop_state req (push_state req st o1) = (Some st, ob) \<and> objUsing ob = objUsing o1 \<and> objID ob = objID o1 \<and> objStepFuns ob = objStepFuns o1"
  by (auto simp: pop_state_def push_state_def update_conv' split: option.splits)

lemma push_state_fields [simp]:
  "objUsing (push_state req st o1) = objUsing o1" "objID (push_state req st o1) = objID o1" "objStepFuns (push_state req st o1) = objStepFuns o1"
  by (simp_all add: push_state_def)

text \<open>The proxy waits for the reply to the message \<open>m\<close>, for its step \<open>step\<close>.\<close>

definition proxy_waits :: "back_env \<Rightarrow> addr \<Rightarrow> addr \<Rightarrow> addr \<Rightarrow> addr \<Rightarrow> bool \<Rightarrow> message \<Rightarrow> u32 \<Rightarrow> proxy_world \<Rightarrow> bool" where
  "proxy_waits env a b p k opened m step w \<longleftrightarrow> proxy_base a b p k w \<and> fpStorage (pwProxies w p) = Some k \<and> icCon (bwClients w k) = Some b \<and>
     stOpened (bwClients w k) = opened \<and> plain_line (bw_con b w) (bwSocks w b) \<and>
     (\<exists>q. icRequests (bwClients w k) = [message_request env m \<mapsto> q] \<and> rqID q = message_request env m \<and> rqFun q = step \<and> rqRequester q = Some p \<and>
        rqObject q = objID (bw_obj p w)) \<and>
     (\<exists>st ob. pop_state (message_request env m) (bw_obj p w) = (Some st, ob) \<and> stepMes st = Some m \<and> stepCon st = a \<and> stepNext st = step \<and>
        objUsing ob \<and> objID ob \<noteq> [] \<and> objStepFuns ob = [1, 2, 3, 4, 5, 6, 7])"

lemma message_request_nonempty: "message_request env m \<noteq> []"
  by (simp add: message_request_def guid_string_def)

lemma proxy_ask_line:
  assumes "proxy_at a b p k (Some opened) w" and "line_env (beSend env)" and "32 \<le> length (mesBody m)" and "step \<noteq> 0"
    and "\<And>q w. call q k w = storage_send env q n (Inr bs) code k w" and "bs \<noteq> []" and "unat n = length bs" and "length bs + 56 \<le> CX_MAX_CHACHE_SIZE"
    and "code \<noteq> 0"
  shows "\<exists>w' body. proxy_ask env step call m a p k w = Inr (0, w') \<and> proxy_waits env a b p k opened m step w' \<and> bwSocks w' a = bwSocks w a \<and>
    sckOut (bwSocks w' b) = sckOut (bwSocks w b) @ wire (plain_packet body) \<and> length body = 40 + length bs \<and> drop 40 body = bs \<and>
    dwMesCode (body_of body) = code \<and> byRequestID (body_of body) = byRequestID (body_of (mesBody m))"
proof -
  let ?r = "message_request env m" and ?ids = "byRequestID (body_of (mesBody m))"
  let ?q = "request_new (beNow env) ?r step (objID (bw_obj p w)) ?ids (Some p)"
  let ?st = "\<lparr>stepMes = Some m, stepCon = a, stepTime = beNow env, stepNext = step\<rparr>"
  define w1 where "w1 = bw_on_obj p (push_state ?r ?st) (bw_on_con a (\<lambda>c. snd (new_message_addr c)) w)"
  have at: "a \<noteq> b" "p \<noteq> k" "plain_line (bw_con a w) (bwSocks w a)" "objUsing (bw_obj p w)" "objID (bw_obj p w) \<noteq> []"
      "objStepFuns (bw_obj p w) = [1, 2, 3, 4, 5, 6, 7]" "fpServer (pwProxies w p)" "fpStorage (pwProxies w p) = Some k"
      "icCon (bwClients w k) = Some b" "icRequests (bwClients w k) = Map.empty" "stOpened (bwClients w k) = opened" "plain_line (bw_con b w) (bwSocks w b)"
    using assms(1) by (simp_all add: proxy_at_def proxy_base_def)
  have ids: "length ?ids = CX_GUID_LEN" using assms(3) by (simp add: body_of_def CX_GUID_LEN_def)
  have w1: "icCon (bwClients w1 k) = Some b" "plain_line (bw_con b w1) (bwSocks w1 b)" "icRequests (bwClients w1 k) = Map.empty"
      "bwSocks w1 = bwSocks w" "plain_line (bw_con a w1) (bwSocks w a)" "bw_obj p w1 = push_state ?r ?st (bw_obj p w)" "pwProxies w1 = pwProxies w"
      "bwClients w1 = bwClients w"
    using at by (auto simp: w1_def)
  have valid: "request_valid ?q" "length (rqBytes ?q) = CX_GUID_LEN" using at(5) assms(4) ids message_request_nonempty [of env m]
    by (simp_all add: request_valid_def request_new_def)
  obtain w' body where s: "storage_send env ?q n (Inr bs) code k w1 = Inr (0, w')" "\<forall>x. x \<noteq> b \<longrightarrow> bw_con x w' = bw_con x w1 \<and> bwSocks w' x = bwSocks w1 x"
      "\<forall>x. bw_obj x w' = bw_obj x w1" "pwProxies w' = pwProxies w1" "bwClients w' = (bwClients w1)(k := (bwClients w1 k)\<lparr>icRequests := [rqID ?q \<mapsto> ?q]\<rparr>)"
      "plain_line (bw_con b w') (bwSocks w' b)" "sckOut (bwSocks w' b) = sckOut (bwSocks w1 b) @ wire (plain_packet body)" "length body = 40 + length bs"
      "drop 40 body = bs" "dwMesCode (body_of body) = code" "byRequestID (body_of body) = rqBytes ?q"
    using storage_send_line [OF w1(1) valid(1) w1(2) assms(2) valid(2) assms(6-9) w1(3)] by blast
  have mem: "senAlloc (beSend env) step_size \<noteq> None" using assms(2) unfolding line_env_def by (metis option.distinct(1))
  have "proxy_ask env step call m a p k w = Inr (0, w')"
    using mem s(1) by (simp add: proxy_ask_def Let_def assms(5) w1_def)
  moreover have "proxy_base a b p k w'"
    using at w1 s(2-4) pop_push_state [of ?r ?st "bw_obj p w"] by (auto simp: proxy_base_def)
  moreover obtain ob where ob: "pop_state ?r (push_state ?r ?st (bw_obj p w)) = (Some ?st, ob)" "objUsing ob = objUsing (bw_obj p w)" "objID ob = objID (bw_obj p w)"
      "objStepFuns ob = objStepFuns (bw_obj p w)"
    using pop_push_state by blast
  ultimately have "proxy_waits env a b p k opened m step w'"
    using at s(3-6) w1 unfolding proxy_waits_def by (auto simp: request_new_def)
  moreover have "rqBytes ?q = ?ids" using ids by (simp add: request_new_def)
  ultimately show ?thesis using \<open>proxy_ask env step call m a p k w = Inr (0, w')\<close> s(2,7-11) w1(4) at(1) by (intro exI [of _ w'] exI [of _ body]) simp
qed

section \<open>Replies\<close>

definition op_step :: "file_op \<Rightarrow> u32" where
  "op_step op = (case op of Op_Open path t e \<Rightarrow> INTER_OPEN | Op_Write xs \<Rightarrow> INTER_WRITE | Op_Read n \<Rightarrow> INTER_READ | Op_Length \<Rightarrow> INTER_LENGTH
     | Op_Close \<Rightarrow> INTER_CLOSE)"

lemmas inter_codes = INTER_OPEN_def INTER_READ_def INTER_WRITE_def INTER_SEEK_def INTER_CLOSE_def INTER_LENGTH_def INTER_POSITION_def

definition is_read :: "file_op \<Rightarrow> bool" where
  "is_read op \<longleftrightarrow> (\<exists>n. op = Op_Read n)"

text \<open>What the client gets of a reply whose data are in the memory \<open>mem\<close>.\<close>

definition relayed :: "file_op \<Rightarrow> rpc_reply \<Rightarrow> byte list \<Rightarrow> byte list" where
  "relayed op rep mem = le_enc 4 (unat (rpCode rep)) @ (if is_read op then [] else le_enc 4 (unat (rpValue1 rep)) @ le_enc 4 (unat (rpValue2 rep))) @
     le_enc 4 (unat (rpDataLen rep)) @ take (unat (rpDataLen rep)) mem"

definition relay_fits :: "file_op \<Rightarrow> rpc_reply \<Rightarrow> byte list \<Rightarrow> bool" where
  "relay_fits op rep mem \<longleftrightarrow> rpCode rep \<noteq> 503 \<and> rpData rep = Some mem \<and> unat (rpDataLen rep) \<le> length mem \<and>
     unat (rpDataLen rep) \<le> (if is_read op then CX_MAX_CHACHE_SIZE - 64 else CX_BUF_SIZE - 16)"

text \<open>A step leaves the proxy, and gives the client the bytes \<open>d\<close>.\<close>

definition steps_to :: "addr \<Rightarrow> addr \<Rightarrow> byte list \<Rightarrow> proxy_world \<Rightarrow> proxy_world \<Rightarrow> bool" where
  "steps_to a b d w w' \<longleftrightarrow> bwSocks w' b = bwSocks w b \<and> (\<exists>out. sckOut (bwSocks w' a) = sckOut (bwSocks w a) @ out \<and> packet_data out = d)"

lemma reply_client_line:
  assumes "proxy_at a b p k stat w" and "line_env (beSend env)" and "32 \<le> length (mesBody m)" and "relay_fits op rep mem" and "\<not> is_read op"
  shows "\<exists>w'. reply_client env code p m a rep w = Inr (0, w') \<and> proxy_at a b p k stat w' \<and> steps_to a b (relayed op rep mem) w w'"
proof -
  define w1 where "w1 = (if code = CX_FILE_OPEN_REPLY_CODE \<and> \<not> fpOpened (pwProxies w p) \<and> rpCode rep = 200 then on_proxy p (\<lambda>x. x\<lparr>fpOpened := True\<rparr>) w else w)"
  have at: "proxy_at a b p k stat w1" "bwSocks w1 = bwSocks w"
    using assms(1) by (auto simp: w1_def proxy_at_def proxy_base_def split: option.splits)
  let ?n = "unat (rpDataLen rep)"
  let ?d = "relayed op rep mem"
  have fit: "rpCode rep \<noteq> 503" "rpData rep = Some mem" "?n \<le> length mem" "?n \<le> 4080" using assms(4,5) by (simp_all add: relay_fits_def CX_BUF_SIZE_def)
  have line: "plain_line (bw_con a w1) (bwSocks w1 a)" "a \<noteq> b" using at(1) by (simp_all add: proxy_at_def proxy_base_def)
  have "length ?d = 16 + ?n" using fit(3) assms(5) by (simp add: relayed_def)
  then have "?d \<noteq> []" "length ?d + 56 \<le> CX_MAX_CHACHE_SIZE" using fit(4) by (auto simp: CX_MAX_CHACHE_SIZE_def)
  from bw_send_answer [OF line(1) assms(2) this assms(3), of code] obtain c' s' out where s: "bw_send env a ?d code (Some m) w1 = Inr (True, bw_set_con a c' s' w1)"
      "plain_line c' s'" "sckOut s' = sckOut (bwSocks w a) @ out" "packet_data out = ?d"
    unfolding at(2) by blast
  have "reply_client env code p m a rep w = bind_res (bw_send env a ?d code (Some m) w1) (\<lambda>(ok, w). Inr (if ok then 0 else CXRET_SEND_DATA_FAILED, w))"
    using fit assms(5) unfolding reply_client_def w1_def relayed_def by (simp add: Let_def CX_BUF_SIZE_def)
  then have "reply_client env code p m a rep w = Inr (0, bw_set_con a c' s' w1)" using s(1) by simp
  moreover have "proxy_at a b p k stat (bw_set_con a c' s' w1)"
    by (rule proxy_at_send [OF at(1) s(2)])
  ultimately show ?thesis using s(3,4) line(2) at(2) by (intro exI [of _ "bw_set_con a c' s' w1"]) (simp add: steps_to_def)
qed

lemma proxy_close_reply_line:
  assumes "proxy_at a b p k (Some opened) w" and "line_env (beSend env)" and "32 \<le> length (mesBody m)" and "relay_fits op rep mem" and "\<not> is_read op"
  shows "\<exists>w'. proxy_close_reply env p m a rep w = Inr (0, w') \<and> proxy_at a b p k None w' \<and> steps_to a b (relayed op rep mem) w w'"
proof -
  obtain w1 where w1: "reply_client env CX_FILE_CLOSE_REPLY_CODE p m a rep w = Inr (0, w1)" "proxy_at a b p k (Some opened) w1" "steps_to a b (relayed op rep mem) w w1"
    using reply_client_line [OF assms, of CX_FILE_CLOSE_REPLY_CODE] by blast
  then have "fpStorage (pwProxies w1 p) = Some k" "fpServer (pwProxies w1 p)" by (simp_all add: proxy_at_def proxy_base_def)
  then show ?thesis using w1 by (auto simp: proxy_close_reply_def proxy_at_def proxy_base_def steps_to_def Let_def)
qed

lemma proxy_read_reply_line:
  assumes "proxy_at a b p k stat w" and "line_env (beSend env)" and "32 \<le> length (mesBody m)" and "relay_fits op rep mem" and "is_read op"
  shows "\<exists>w'. proxy_read_reply env p m a rep w = Inr (0, w') \<and> proxy_at a b p k stat w' \<and> steps_to a b (relayed op rep mem) w w'"
proof -
  let ?n = "unat (rpDataLen rep)" and ?c = "bw_con a w" and ?d = "relayed op rep mem"
  let ?c1 = "?c\<lparr>conNextAddr := Suc (conNextAddr ?c), conLive := conNextAddr ?c # conLive ?c\<rparr>"
  have fit: "rpCode rep \<noteq> 503" "rpData rep = Some mem" "?n \<le> length mem" "?n + 64 \<le> 1048576"
    using assms(4,5) by (simp_all add: relay_fits_def CX_MAX_CHACHE_SIZE_def)
  have line: "plain_line ?c (bwSocks w a)" "a \<noteq> b" using assms(1) by (simp_all add: proxy_at_def proxy_base_def)
  have d: "?d = le_enc 4 (unat (rpCode rep)) @ le_enc 4 ?n @ take ?n mem" "length ?d = ?n + 8" using fit(3) assms(5) by (simp_all add: relayed_def)
  have size: "unat (rpDataLen rep + 8) = ?n + 8" using fit(4) by (simp add: unat_word_ariths)
  have "unat (rpDataLen rep + 8 + word_of_nat buffer_head + word_of_nat sizeof_packet_data - 1) = ?n + 8 + 112"
  proof -
    have "word_of_nat ?n = rpDataLen rep" by simp
    then have "rpDataLen rep + 8 = word_of_nat (?n + 8)" by simp
    then show ?thesis using u32_sums(1) [of "?n + 8"] fit(4) by (simp add: sizes buffer_head_def add.commute)
  qed
  then obtain cap where cap: "?n + 8 + 112 \<le> cap" "get_send_buffer_obj (beSend env) (rpDataLen rep + 8) ?c =
      Some (\<lparr>bufAddr = conNextAddr ?c, bufSeq = 0, bufData = replicate (cap - 52) 0, bufCur = 0, bufLen = CX_BUF_SIZE\<rparr>, ?c1)"
    using line_get_buffer [OF assms(2), of "rpDataLen rep + 8 + word_of_nat buffer_head + word_of_nat sizeof_packet_data - 1" ?c]
    by (auto simp: get_send_buffer_obj_def sizes)
  let ?b = "\<lparr>bufAddr = conNextAddr ?c, bufSeq = 0, bufData = memcpy (replicate (cap - 52) 0) 56 ?d, bufCur = 0, bufLen = CX_BUF_SIZE\<rparr> :: buffer_obj"
  have fits: "\<not> cap - 52 < 56 + length ?d" using cap(1) d(2) by simp
  have line1: "plain_line ?c1 (bwSocks w a)" using line(1) by (simp add: plain_line_def)
  have dat: "length ?d + 56 \<le> length (bufData ?b)" "take (length ?d) (drop 56 (bufData ?b)) = ?d" using cap(1) d(2) by (simp_all add: memcpy_def)
  have head: "length (packet_body_head CX_FILE_READ_REPLY_CODE (Some m) ?c1) = 40" by (rule length_body_head(2) [OF assms(3)])
  obtain c' s' where s: "send_packet_buffer (beSend env) ?b (length ?d) CX_FILE_READ_REPLY_CODE (Some m) ?c1 (bwSocks w a) = Inr (True, c', s')" "plain_line c' s'"
      "sckOut s' = sckOut (bwSocks w a) @ wire (plain_packet (packet_body_head CX_FILE_READ_REPLY_CODE (Some m) ?c1 @ ?d))"
    using line_send_buffer [OF line1, of "beSend env" "length ?d" ?b ?d CX_FILE_READ_REPLY_CODE "Some m"] assms(2) d(2) fit(4) dat head
    by (auto simp: line_env_def CX_MAX_CHACHE_SIZE_def)
  let ?w1 = "bw_on_con a (\<lambda>_. ?c1) w"
  have wb: "write_buffer (sizeof_packet_data - 1) ?d \<lparr>bufAddr = conNextAddr ?c, bufSeq = 0, bufData = replicate (cap - 52) 0, bufCur = 0, bufLen = CX_BUF_SIZE\<rparr> = Inr ?b"
    using fits by (simp add: write_buffer_def sizes)
  have data: "(if rpDataLen rep = 0 then Inr [] else case rpData rep of None \<Rightarrow> Inl NullDeref
      | Some mem \<Rightarrow> if length mem < ?n then Inl OutOfBounds else Inr (take ?n mem)) = (Inr (take ?n mem) :: byte list res)"
    using fit(2,3) by auto
  have "bw_send_buffer env a ?b (length ?d) CX_FILE_READ_REPLY_CODE (Some m) ?w1 = Inr (True, bw_set_con a c' s' ?w1)"
    using s(1) by (simp add: bw_send_buffer_def)
  moreover have "unat (rpDataLen rep + 8) = length ?d" using size d(2) by simp
  ultimately have "proxy_read_reply env p m a rep w = Inr (0, bw_set_con a c' s' ?w1)"
    unfolding proxy_read_reply_def Let_def if_not_P [OF fit(1)] cap(2) option.case prod.case data bind_res_simps d(1) [symmetric] wb
    by simp
  moreover have "proxy_at a b p k stat (bw_set_con a c' s' ?w1)"
    using assms(1) line1 by (intro proxy_at_send [OF _ s(2)]) (auto simp: proxy_at_def proxy_base_def split: option.splits)
  ultimately show ?thesis using s(3) line(2) packet_data_wire [OF head] by (intro exI [of _ "bw_set_con a c' s' ?w1"]) (simp add: steps_to_def)
qed

lemma proxy_step_line:
  assumes "proxy_at a b p k (Some opened) w" and "line_env (beSend env)" and "32 \<le> length (mesBody m)" and "relay_fits op rep mem"
  shows "\<exists>w'. proxy_step env (op_step op) p m a rep w = Inr (0, w') \<and> proxy_at a b p k (if op = Op_Close then None else Some opened) w' \<and>
    steps_to a b (relayed op rep mem) w w'"
  using reply_client_line [OF assms] proxy_read_reply_line [OF assms] proxy_close_reply_line [OF assms]
  by (cases op) (auto simp: proxy_step_def op_step_def inter_codes is_read_def)

lemma steps_to_cong:
  "bwSocks w1 = bwSocks w \<Longrightarrow> bwSocks w2 = bwSocks w' \<Longrightarrow> steps_to a b d w1 w2 = steps_to a b d w w'"
  by (simp add: steps_to_def)

lemma storage_on_reply_line:
  assumes "proxy_waits env a b p k opened m (op_step op) w" and "line_env (beSend env)" and "32 \<le> length (mesBody m)"
    and "message_request env m2 = message_request env m" and "reply_of_message head m2 = Inr rep" and "relay_fits op rep mem"
    and "\<And>c. nt (rpCode rep) c = c\<lparr>stOpened := f (stOpened c)\<rparr>"
  shows "\<exists>w'. storage_on_reply head nt (proxy_step env) env m2 k w = Inr (0, w') \<and>
    proxy_at a b p k (if op = Op_Close then None else Some (f opened)) w' \<and> steps_to a b (relayed op rep mem) w w'"
proof -
  let ?r = "message_request env m"
  obtain q where q: "icRequests (bwClients w k) = [?r \<mapsto> q]" "rqID q = ?r" "rqFun q = op_step op" "rqRequester q = Some p" "rqObject q = objID (bw_obj p w)"
    using assms(1) by (auto simp: proxy_waits_def)
  obtain st ob where st: "pop_state ?r (bw_obj p w) = (Some st, ob)" "stepMes st = Some m" "stepCon st = a" "stepNext st = op_step op"
      "objUsing ob" "objID ob \<noteq> []" "objStepFuns ob = [1, 2, 3, 4, 5, 6, 7]"
    using assms(1) by (auto simp: proxy_waits_def)
  have w: "proxy_base a b p k w" "fpStorage (pwProxies w p) = Some k" "icCon (bwClients w k) = Some b" "stOpened (bwClients w k) = opened"
      "plain_line (bw_con b w) (bwSocks w b)"
    using assms(1) by (simp_all add: proxy_waits_def)
  have base: "a \<noteq> b" "p \<noteq> k" "objUsing (bw_obj p w)" "objStepFuns (bw_obj p w) = [1, 2, 3, 4, 5, 6, 7]" using w(1) by (simp_all add: proxy_base_def)
  have pos: "op_step op \<noteq> 0" "op_step op \<in> {1, 2, 3, 4, 5, 6, 7}" by (cases op; simp add: op_step_def inter_codes)+
  let ?c = "(bwClients w k)\<lparr>icRequests := Map.empty\<rparr>"
  have pop: "ic_pop_request (beNow env) ?r (bwClients w k) = (q, ?c)" using q(1) by (simp add: ic_pop_request_def)
  define w1 where "w1 = bw_on_client k (nt (rpCode rep)) (bw_on_client k (\<lambda>_. ?c) w)"
  have c1: "bwClients w1 k = ?c\<lparr>stOpened := f opened\<rparr>" using w(4) by (simp add: w1_def assms(7))
  have found: "requested_object q w1 = Some p" using q(4,5) base(3) by (simp add: requested_object_def w1_def Let_def)
  define w2 where "w2 = bw_on_con a (\<lambda>c. c\<lparr>conAsyncMes := False\<rparr>) (bw_on_obj p (\<lambda>_. ob) w1)"
  have at2: "proxy_at a b p k (Some (f opened)) w2"
    using w base st(5-7) c1 by (simp add: proxy_at_def proxy_base_def w2_def) (simp add: w1_def)
  obtain w3 where w3: "proxy_step env (op_step op) p m a rep w2 = Inr (0, w3)" "proxy_at a b p k (if op = Op_Close then None else Some (f opened)) w3"
      "steps_to a b (relayed op rep mem) w2 w3"
    using proxy_step_line [OF at2 assms(2,3,6)] by blast
  have socks: "bwSocks w2 = bwSocks w" by (simp add: w2_def w1_def)
  have "storage_on_reply head nt (proxy_step env) env m2 k w = reply_requester (proxy_step env) q rep k w1"
    unfolding storage_on_reply_def assms(4) pop prod.case Let_def using q(2) message_request_nonempty [of env m] assms(5) by (simp add: w1_def)
  also have "\<dots> = receive_internal_reply (proxy_step env) ?r (op_step op) rep p w1"
    unfolding reply_requester_def found using c1 w(3) q(2,3) by simp
  finally have run: "storage_on_reply head nt (proxy_step env) env m2 k w = receive_internal_reply (proxy_step env) ?r (op_step op) rep p w1" .
  have obj: "pop_state ?r (bw_obj p w1) = (Some st, ob)" using st(1) by (simp add: w1_def)
  define fin :: "proxy_world \<Rightarrow> proxy_world" where "fin = (\<lambda>w'. let now = conAsyncMes (bw_con a w'); w' = bw_on_con a (\<lambda>c. c\<lparr>conAsyncMes := conAsyncMes (bw_con a w1)\<rparr>) w'
    in if now then w' else bw_on_con a (push_received_message False (m\<lparr>mesType := 2\<rparr>)) w')"
  have "receive_internal_reply (proxy_step env) ?r (op_step op) rep p w1 = bind_res (proxy_step env (op_step op) p m a rep w2) (\<lambda>(r, w). Inr (r, fin w))"
    unfolding receive_internal_reply_def obj prod.case Let_def option.case st(2-4) w2_def fin_def
    using pos st(7) message_request_nonempty [of env m] by (simp cong: if_cong)
  then have "storage_on_reply head nt (proxy_step env) env m2 k w = Inr (0, fin w3)" using run w3(1) by simp
  moreover have "proxy_at a b p k (if op = Op_Close then None else Some (f opened)) (fin w3)"
    using w3(2) unfolding fin_def Let_def by (auto simp: proxy_at_def proxy_base_def split: option.splits if_splits)
  moreover have "bwSocks (fin w3) = bwSocks w3" by (simp add: fin_def Let_def)
  ultimately show ?thesis using w3(3) steps_to_cong [OF socks [symmetric], of "fin w3" w3] steps_to_cong [of w2 w "fin w3" w3] socks by auto
qed

section \<open>What the other server answers\<close>

text \<open>The size that a reply says its text has.\<close>

lemma reply_length_common:
  assumes "16 \<le> n" and "16 + unat (crDataLen r) \<le> n" and "n \<le> 1040"
  shows "reply_u32 12 (common_reply_bytes n r) + 16 \<le> length (common_reply_bytes n r)"
proof -
  have e: "common_reply_bytes n r = le_enc 4 (unat (crCode r)) @ le_enc 4 (unat (crValue1 r)) @ le_enc 4 (unat (crValue2 r)) @
      le_enc 4 (unat (crDataLen r)) @ take (n - 16) (text_bytes (crData r) @ replicate 1024 0)"
    using assms(1) by (simp add: common_reply_bytes_def)
  have d: "le_dec (le_enc 4 (unat (w :: u32))) = unat w" for w using unsigned_less [of w, where ?'a = nat] by (simp add: le_dec_enc)
  have "reply_u32 12 (common_reply_bytes n r) = unat (crDataLen r)" unfolding e by (simp add: reply_u32_def d)
  then show ?thesis using assms length_common_reply_bytes [OF assms(3)] by simp
qed

lemma reply_length_text:
  assumes "length t \<le> 1000" and "k = 16 \<or> k = 17"
  shows "reply_u32 12 (common_reply_bytes (k + (length t + 1)) (text_reply code t)) + 16 \<le> length (common_reply_bytes (k + (length t + 1)) (text_reply code t))"
proof -
  have "unat (word_of_nat (length t + 1) :: u32) = length t + 1" using assms(1) by (simp only: unat_of_nat) simp
  then show ?thesis using assms by (intro reply_length_common) auto
qed

definition sized :: "byte list \<Rightarrow> bool" where
  "sized bs \<longleftrightarrow> reply_u32 12 bs + 16 \<le> length bs"

lemma sized_simps:
  "unat (crDataLen r) \<le> 1001 \<Longrightarrow> sized (common_reply_bytes (16 + unat (crDataLen r)) r)"
  "unat (crDataLen r) \<le> 1001 \<Longrightarrow> sized (common_reply_bytes (17 + unat (crDataLen r)) r)"
  "sized (common_reply_bytes 16 (common_reply_new\<lparr>crCode := x\<rparr>))"
  "sized (common_reply_bytes 17 (common_reply_new\<lparr>crCode := x\<rparr>))"
  "length t \<le> 1000 \<Longrightarrow> sized (common_reply_bytes (16 + length t + 1) (text_reply code t))"
  using reply_length_common [of 16 "common_reply_new\<lparr>crCode := x\<rparr>"] reply_length_common [of 17 "common_reply_new\<lparr>crCode := x\<rparr>"]
    reply_length_text [of t 16 code]
  by (auto simp: sized_def common_reply_new_def intro: reply_length_common)

lemma sized_text:
  assumes "length t \<le> 1000"
  shows "sized (common_reply_bytes (16 + unat (crDataLen (text_reply code t))) (text_reply code t))"
    "sized (common_reply_bytes (17 + unat (crDataLen (text_reply code t))) (text_reply code t))"
  using sized_simps(1,2) [of "text_reply code t"] text_length_word [OF assms] assms by simp_all

lemma texts_1000:
  "length (write_error pos n k er) \<le> 1000" "length (seek_error pos ty) \<le> 1000" "length CLOSED_TEXT \<le> 1000"
  using length_texts(1) [of pos n k er] length_texts(2) [of pos ty] length_texts(6) by simp_all

lemma common_reply_none: "crDataLen (common_reply_new\<lparr>crCode := x\<rparr>) = 0" "crDataLen (common_reply_new\<lparr>crCode := x, crValue1 := y, crValue2 := z\<rparr>) = 0"
  by (simp_all add: common_reply_new_def)

lemma sized_values: "sized (common_reply_bytes 16 (common_reply_new\<lparr>crCode := x, crValue1 := y, crValue2 := z\<rparr>))"
  using sized_simps(1) [of "common_reply_new\<lparr>crCode := x, crValue1 := y, crValue2 := z\<rparr>"] by (simp add: common_reply_none)

lemma file_open_work_sized: "file_open_work env m v s = Inr (bs, v', s') \<Longrightarrow> length (feError env) \<le> 1000 \<Longrightarrow> sized bs"
  by (auto simp: file_open_work_def bind_res_Inr_iff case_prod_unfold sized_simps(3) sized_simps(5) [simplified] split: if_splits)

lemma file_write_work_sized: "file_write_work env m v s = Inr (bs, s') \<Longrightarrow> sized bs"
  by (auto simp: file_write_work_def bind_res_Inr_iff Let_def case_prod_unfold sized_simps(4) sized_text texts_1000 common_reply_none
      simp del: text_reply_simps split: if_splits)

lemma file_length_work_sized: "sized (file_length_work v s)"
  by (auto simp: file_length_work_def Let_def sized_text texts_1000 sized_simps(3) sized_values common_reply_none simp del: text_reply_simps
      split: option.splits)

lemma file_work_sized:
  assumes "file_work env m memory v s = Inr (r, v', s')" and "dwMesCode (body_of (mesBody m)) = op_code op" and "length (feError env) \<le> 1000"
    and "\<not> is_read op"
  shows "sized (sent_bytes r)"
  using assms file_open_work_sized [of env m v s] file_write_work_sized [of env m v s] file_length_work_sized [of v s]
  by (cases op) (auto simp: file_work_def op_code_def file_codes sent_bytes_def bind_res_Inr_iff case_prod_unfold is_read_def file_close_work_def sized_simps(4))

end
