(* ===== verification/Proxied_File.thy ===== *)
theory Proxied_File imports Main Proxy_Service begin

text \<open>
  The proxy of files between its client and the server of files: what the client sees is the file of \<open>File_Service\<close>, but
  for what is lost on the way.
\<close>

section \<open>The reply on its way\<close>

definition reply_message :: "byte list \<Rightarrow> u32 \<Rightarrow> byte list \<Rightarrow> message" where
  "reply_message body code bs = peer_message (snd (reply_packet body code bs))"

lemma reply_message_simps:
  assumes "32 \<le> length body" and "length bs \<le> 1024 * 10240 + 1024"
  shows "drop (40 + k) (mesBody (reply_message body code bs)) = drop k bs" "length (mesBody (reply_message body code bs)) = 40 + length bs"
    "mes_data_len (reply_message body code bs) = word_of_nat (length bs)" "dwMesCode (body_of (mesBody (reply_message body code bs))) = code"
    "byRequestID (body_of (mesBody (reply_message body code bs))) = byRequestID (body_of body)"
proof -
  note s = reply_packet_simps [OF assms(2,1), of code]
  have "drop (40 + k) (snd (reply_packet body code bs)) = drop k (drop 40 (snd (reply_packet body code bs)))" by (simp add: add.commute)
  then show "drop (40 + k) (mesBody (reply_message body code bs)) = drop k bs" using s(2) by (simp add: reply_message_def peer_message_def)
  show "length (mesBody (reply_message body code bs)) = 40 + length bs" "mes_data_len (reply_message body code bs) = word_of_nat (length bs)"
    "dwMesCode (body_of (mesBody (reply_message body code bs))) = code"
    using s(1,6) by (simp_all add: reply_message_def peer_message_def mes_data_len_def sizes)
  show "byRequestID (body_of (mesBody (reply_message body code bs))) = byRequestID (body_of body)"
    using assms(1) by (simp add: reply_message_def peer_message_def reply_packet_def Let_def body_of_def drop_take)
qed

lemma reply_u32_bound: "reply_u32 k bs < 2 ^ 32"
proof -
  have "le_dec ys < 2 ^ 32" if "length ys \<le> 4" for ys using le_dec_bound [of ys] power_increasing [OF that, of "256 :: nat"] by simp
  then show ?thesis by (simp add: reply_u32_def)
qed

lemma reply_u32_word: "unat (word_of_nat (reply_u32 k bs) :: u32) = reply_u32 k bs"
  using reply_u32_bound [of k bs] by (simp only: unat_of_nat) simp

lemma reply_u32_fields:
  "n < 2 ^ 32 \<Longrightarrow> reply_u32 4 (le_enc 4 a @ le_enc 4 n @ r) = n"
  "n < 2 ^ 32 \<Longrightarrow> reply_u32 8 (le_enc 4 a @ le_enc 4 b @ le_enc 4 n @ r) = n"
  by (simp_all add: reply_u32_def le_dec_enc)

lemma reply_message_u32:
  assumes "32 \<le> length body" and "length bs \<le> 1024 * 10240 + 1024" and "k + 4 \<le> length bs"
  shows "mes_u32 (reply_message body code bs) k = Inr (word_of_nat (reply_u32 k bs))"
  using assms reply_message_simps(1) [OF assms(1,2), of _ code] reply_message_simps(2) [OF assms(1,2), of code] by (simp add: mes_u32_def get_at_def reply_u32_def)

text \<open>What the proxy makes of an answer: it ends a block that is short by a zero.\<close>

definition clipped :: "file_answer \<Rightarrow> file_answer" where
  "clipped x = (case x of Ans_Short xs \<Rightarrow> Ans_Short (xs[length xs - 1 := 0]) | _ \<Rightarrow> x)"

lemma reply_relayed:
  assumes "32 \<le> length body" and "16 \<le> length bs" and "length bs \<le> 1040" and "sized bs" and "\<not> is_read op" and "reply_code bs \<noteq> 503"
  shows "\<exists>rep mem. reply_of_message 16 (reply_message body code bs) = Inr rep \<and> relay_fits op rep mem \<and> rpCode rep = reply_code bs \<and>
    reply_answer op (relayed op rep mem) = clipped (reply_answer op bs)"
proof -
  let ?m = "reply_message body code bs" and ?n = "word_of_nat (reply_u32 12 bs) :: u32"
  have lb: "length bs \<le> 1024 * 10240 + 1024" using assms(3) by simp
  note u = reply_message_u32 [OF assms(1) lb, of _ code]
  have f: "mes_u32 ?m 0 = Inr (reply_code bs)" "mes_u32 ?m 4 = Inr (word_of_nat (reply_u32 4 bs))" "mes_u32 ?m 8 = Inr (word_of_nat (reply_u32 8 bs))"
      "mes_u32 ?m 12 = Inr ?n" "drop 56 (mesBody ?m) = drop 16 bs"
    using u [of 0] u [of 4] u [of 8] u [of 12] assms(2) reply_message_simps(1) [OF assms(1) lb, of 16 code] reply_code_u32 by simp_all
  have n: "unat ?n = reply_u32 12 bs" "reply_u32 12 bs + 16 \<le> length bs" using reply_u32_word assms(4) by (simp_all add: sized_def)
  let ?late = "reply_code bs \<noteq> 200 \<and> ?n \<noteq> 0 \<and> ?n = mes_data_len ?m - word_of_nat 16"
  have e: "reply_of_message 16 ?m = (if ?late then
        if length (drop 16 bs) < unat ?n then Inl HeapOverflow
        else let mem = (drop 16 bs)[unat ?n - 1 := 0] in Inr (rpc_reply_new (c_string mem) (reply_code bs) (Some mem) ?n (word_of_nat (reply_u32 4 bs)) (word_of_nat (reply_u32 8 bs)))
      else Inr (rpc_reply_new [] (reply_code bs) (Some (drop 16 bs)) ?n (word_of_nat (reply_u32 4 bs)) (word_of_nat (reply_u32 8 bs))))"
    using f by (simp add: reply_of_message_def Let_def)
  have fits: "\<not> length (drop 16 bs) < unat ?n" using n by simp
  obtain t mem where rep: "reply_of_message 16 ?m = Inr (rpc_reply_new t (reply_code bs) (Some mem) ?n (word_of_nat (reply_u32 4 bs)) (word_of_nat (reply_u32 8 bs)))"
      "length mem = length bs - 16"
  proof (cases ?late)
    case True
    show ?thesis by (rule that [OF e [unfolded if_P [OF True] if_not_P [OF fits] Let_def]]) simp
  next
    case False
    show ?thesis by (rule that [OF e [unfolded if_not_P [OF False]]]) simp
  qed
  let ?rep = "rpc_reply_new t (reply_code bs) (Some mem) ?n (word_of_nat (reply_u32 4 bs)) (word_of_nat (reply_u32 8 bs))"
  have "relay_fits op ?rep mem" using rep(2) n assms(2,3,5,6) by (simp add: relay_fits_def rpc_reply_new_def CX_BUF_SIZE_def)
  moreover have "reply_answer op (relayed op ?rep mem) = clipped (reply_answer op bs)"
  proof -
    have "reply_code (relayed op ?rep mem) = reply_code bs" by (simp add: reply_code_def relayed_def rpc_reply_new_def word32_le_roundtrip)
    moreover have "reply_u32 4 (relayed op ?rep mem) = reply_u32 4 bs" "reply_u32 8 (relayed op ?rep mem) = reply_u32 8 bs"
      using assms(5) reply_u32_bound [of 4 bs] reply_u32_bound [of 8 bs] reply_u32_word by (simp_all add: relayed_def rpc_reply_new_def reply_u32_fields)
    ultimately show ?thesis using assms(5) by (cases op) (auto simp: reply_answer_def clipped_def is_read_def)
  qed
  ultimately show ?thesis using rep(1) by (intro exI [of _ ?rep] exI [of _ mem]) (simp add: rpc_reply_new_def)
qed

lemma read_relayed:
  assumes "32 \<le> length body" and "length bs = reply_u32 4 bs + 8" and "length bs + 56 \<le> CX_MAX_CHACHE_SIZE" and "is_read op" and "reply_code bs \<noteq> 503"
  shows "\<exists>rep mem. reply_of_message 8 (reply_message body code bs) = Inr rep \<and> relay_fits op rep mem \<and> rpCode rep = reply_code bs \<and>
    reply_answer op (relayed op rep mem) = clipped (reply_answer op bs)"
proof -
  let ?m = "reply_message body code bs" and ?n = "word_of_nat (reply_u32 4 bs) :: u32" and ?c = "reply_code bs"
  have lb: "length bs \<le> 1024 * 10240 + 1024" using assms(3) by (simp add: CX_MAX_CHACHE_SIZE_def)
  note u = reply_message_u32 [OF assms(1) lb, of _ code]
  have f: "mes_u32 ?m 0 = Inr ?c" "mes_u32 ?m 4 = Inr ?n" "drop 48 (mesBody ?m) = drop 8 bs" "mes_data_len ?m - 8 = ?n"
    using u [of 0] u [of 4] assms(2) reply_message_simps(1) [OF assms(1) lb, of 8 code] reply_message_simps(3) [OF assms(1) lb, of code] reply_code_u32 by simp_all
  have n: "unat ?n = length bs - 8" using reply_u32_word assms(2) by simp
  let ?mem = "if ?c \<noteq> 200 then (drop 8 bs)[length bs - 8 - 1 := 0] else drop 8 bs"
  let ?late = "?c \<noteq> 200 \<and> ?n \<noteq> 0"
  have e: "reply_of_message 8 ?m = (if ?late then
        if length (drop 8 bs) < unat ?n then Inl HeapOverflow
        else let mem = (drop 8 bs)[unat ?n - 1 := 0] in Inr (rpc_reply_new (c_string mem) ?c (Some mem) ?n 0 0)
      else Inr (rpc_reply_new [] ?c (Some (drop 8 bs)) ?n 0 0))"
    using f by (simp add: reply_of_message_def Let_def)
  obtain t where rep: "reply_of_message 8 ?m = Inr (rpc_reply_new t ?c (Some ?mem) ?n 0 0)"
  proof (cases ?late)
    case True
    then show ?thesis using e n that [of "c_string ?mem"] by (simp add: Let_def)
  next
    case False
    then have "?c = 200 \<or> drop 8 bs = []" using n by (auto simp: unat_eq_0)
    then have "?mem = drop 8 bs" by auto
    moreover have "reply_of_message 8 ?m = Inr (rpc_reply_new [] ?c (Some (drop 8 bs)) ?n 0 0)" unfolding e using False by (simp only: if_False)
    ultimately show ?thesis using that [of "[]"] by simp
  qed
  let ?rep = "rpc_reply_new t ?c (Some ?mem) ?n 0 0"
  have "length bs - 8 \<le> CX_MAX_CHACHE_SIZE - 64" using assms(3) by linarith
  then have "relay_fits op ?rep ?mem" using n assms(4,5) by (simp add: relay_fits_def rpc_reply_new_def)
  moreover have "reply_answer op (relayed op ?rep ?mem) = clipped (reply_answer op bs)"
  proof -
    define d where "d = relayed op ?rep ?mem"
    have r: "d = le_enc 4 (unat ?c) @ le_enc 4 (unat ?n) @ ?mem" using n assms(4) by (simp add: d_def relayed_def rpc_reply_new_def)
    have "reply_code (d) = ?c" unfolding r by (simp add: reply_code_def word32_le_roundtrip)
    moreover have "reply_u32 4 (d) = length bs - 8" unfolding r n using assms(3) by (intro reply_u32_fields) (simp add: CX_MAX_CHACHE_SIZE_def)
    moreover have "drop 8 (d) = ?mem" unfolding r by simp
    moreover obtain k where "op = Op_Read k" using assms(4) by (auto simp: is_read_def)
    moreover have "reply_u32 4 bs = length bs - 8" using assms(2) by simp
    ultimately show ?thesis unfolding d_def [symmetric] by (simp add: reply_answer_def clipped_def)
  qed
  ultimately show ?thesis using rep by (intro exI [of _ ?rep] exI [of _ ?mem]) (simp add: rpc_reply_new_def)
qed

section \<open>Asking\<close>

definition is_open :: "file_op \<Rightarrow> bool" where
  "is_open op \<longleftrightarrow> (\<exists>path t e. op = Op_Open path t e)"

text \<open>The data of the request that the other server gets; for the length they are one structure for all commands.\<close>

definition asked_request :: "file_op \<Rightarrow> byte list" where
  "asked_request op = (if op = Op_Length then command_bytes else op_request op)"

text \<open>Requests that fit into the packets of both servers.\<close>

definition proxied_ok :: "file_op \<Rightarrow> bool \<times> files \<Rightarrow> bool" where
  "proxied_ok op st \<longleftrightarrow> op_ok op (snd st) \<and>
     (case op of
        Op_Open path t e \<Rightarrow> fst st \<and> path \<noteq> [] \<and> length path + 65 \<le> CX_MAX_CHACHE_SIZE
      | Op_Write xs \<Rightarrow> xs \<noteq> [] \<and> length xs + 72 \<le> CX_MAX_CHACHE_SIZE
      | Op_Read n \<Rightarrow> n + 64 \<le> CX_MAX_CHACHE_SIZE
      | _ \<Rightarrow> True)"

lemma message_body_32: "file_message code req m \<Longrightarrow> 32 \<le> length (mesBody m)"
  by (auto simp: file_message_def)

lemma proxy_at_parts:
  assumes "proxy_at a b p k (Some opened) w"
  shows "fpStorage (pwProxies w p) = Some k" "stOpened (bwClients w k) = opened" "icCon (bwClients w k) = Some b" "conServer (bw_con a w)"
    "conSession (bw_con a w) \<noteq> None" "conEncrypt (bw_con a w) = 0" "conCompress (bw_con a w) = 0"
  using assms by (simp_all add: proxy_at_def proxy_base_def plain_line_def)

text \<open>A client that has its connection is only given the address again, and the codec of its proxy.\<close>

definition reopened :: "addr \<Rightarrow> addr \<Rightarrow> addr \<Rightarrow> addr \<Rightarrow> string \<Rightarrow> proxy_world \<Rightarrow> proxy_world" where
  "reopened a b p k path w = bw_on_con b (\<lambda>c. c\<lparr>conEncrypt := 0, conCompress := 0\<rparr>)
     (bw_on_client k (\<lambda>c. c\<lparr>icIP := STORAGE_IP, icPort := STORAGE_PORT\<rparr>) (bw_on_client k (\<lambda>c. c\<lparr>icServer := True\<rparr>)
       (on_proxy p (\<lambda>x. x\<lparr>fpPath := path\<rparr>) w)))"

lemma reopened_at: "proxy_at a b p k (Some opened) w \<Longrightarrow> proxy_at a b p k (Some opened) (reopened a b p k path w)"
  by (auto simp: reopened_def proxy_at_def proxy_base_def plain_line_def)

lemma reopened_socks: "bwSocks (reopened a b p k path w) = bwSocks w"
  by (simp add: reopened_def)

lemma proxy_open_runs:
  assumes "proxy_at a b p k (Some opened) w" and "file_message (op_code (Op_Open path t e)) (op_request (Op_Open path t e)) m"
    and "proxied_ok (Op_Open path t e) (live, f)"
  shows "proxy_open env m a p w =
    (if opened then say env 200 CX_FILE_OPEN_REPLY_CODE (opened_text path) 0 (- 2) m a (reopened a b p k path w)
     else bind_res (proxy_ask env INTER_OPEN (\<lambda>q. st_open env q path (byte_of_open_type t) e) m a p k (reopened a b p k path w)) (\<lambda>(r, w).
       if r = 0 then Inr (CXRET_ASYNC_CALLBACK, w)
       else say env 502 CX_FILE_OPEN_REPLY_CODE (failed_text ''open file '' path) r (- 2) m a w))"
proof -
  note at = proxy_at_parts [OF assms(1)]
  have ok: "CHR 0x00 \<notin> set path" "length path < 2 ^ 30" using assms(3) by (simp_all add: proxied_ok_def op_ok_def)
  have f: "mes_u32 m 4 = Inr (word_of_nat (length path + 1))" "mes_byte m 0 = Inr (byte_of_open_type t)" "mes_byte m 1 = Inr (if e then 1 else 0)"
      "mes_c_string m 8 = Inr path" "unat (mes_data_len m) = 9 + length path"
    using file_open_fields [OF _ ok, of "op_code (Op_Open path t e)" t e m] assms(2) by (simp_all add: op_request_def)
  have u: "unat (word_of_nat (length path + 1) :: u32) = length path + 1" using ok(2) by (simp only: unat_of_nat) simp
  have n: "\<not> (word_of_nat (length path + 1) = (0 :: u32) \<or> mes_data_len m < word_of_nat (length path + 1))"
    using u f(5) by (auto simp: word_less_nat_alt simp del: of_nat_add of_nat_Suc)
  let ?w = "on_proxy p (\<lambda>x. x\<lparr>fpPath := path\<rparr>) w"
  have st: "proxy_open_storage env p ?w = (Some k, ?w)" using at(1) by (simp add: proxy_open_storage_def)
  have cr: "ic_create env STORAGE_IP STORAGE_PORT k (bw_on_client k (\<lambda>c. c\<lparr>icServer := True\<rparr>) ?w) =
      Inr (0, bw_on_client k (\<lambda>c. c\<lparr>icIP := STORAGE_IP, icPort := STORAGE_PORT\<rparr>) (bw_on_client k (\<lambda>c. c\<lparr>icServer := True\<rparr>) ?w))"
    using at(3) by (simp add: ic_create_def Let_def)
  have e1: "((if e then 1 else 0 :: byte) = 1) = e" by simp
  show ?thesis
    unfolding proxy_open_def f(1-4) bind_res_simps if_not_P [OF n] Let_def st prod.case option.case
    using at cr by (simp add: e1 reopened_def cong: if_cong)
qed

text \<open>Every request is sent to the other server, and the proxy waits.\<close>

lemma asked_calls:
  "path \<noteq> [] \<Longrightarrow> length path < 2 ^ 30 \<Longrightarrow> st_open env q path (byte_of_open_type t) e k w =
     storage_send env q (word_of_nat (length path + 1) + 8) (Inr (open_request path t e)) CX_FILE_OPEN_CODE k w"
  "xs \<noteq> [] \<Longrightarrow> length xs < 2 ^ 31 \<Longrightarrow> take (length xs) mem = xs \<Longrightarrow> st_write env q mem (word_of_nat (length xs)) 0 1 k w =
     storage_send env q (word_of_nat (length xs) + 16) (Inr (write_request 1 0 xs)) CX_FILE_WRITE_CODE k w"
  "0 < n \<Longrightarrow> n < 2 ^ 31 \<Longrightarrow> st_read env q (word_of_nat n) 0 1 k w = storage_send env q 16 (Inr (read_request n)) CX_FILE_READ_CODE k w"
proof -
  have u: "unat (word_of_nat j :: u32) = j" if "j < 2 ^ 31" for j using that by (simp only: unat_of_nat) simp
  show "st_open env q path (byte_of_open_type t) e k w =
     storage_send env q (word_of_nat (length path + 1) + 8) (Inr (open_request path t e)) CX_FILE_OPEN_CODE k w"
    if "path \<noteq> []" "length path < 2 ^ 30"
    using that u [of "length path + 1"] by (simp add: st_open_def open_request_def Let_def)
  show "st_write env q mem (word_of_nat (length xs)) 0 1 k w =
     storage_send env q (word_of_nat (length xs) + 16) (Inr (write_request 1 0 xs)) CX_FILE_WRITE_CODE k w"
    if "xs \<noteq> []" "length xs < 2 ^ 31" "take (length xs) mem = xs"
  proof -
    have "length xs \<le> length mem" using that(3) by (metis length_take min.cobounded1 min_def nle_le)
    moreover have "word_of_nat (length xs) \<noteq> (0 :: u32)" using u [OF that(2)] that(1) by auto
    ultimately show ?thesis using that u by (simp add: st_write_def write_request_def)
  qed
  show "st_read env q (word_of_nat n) 0 1 k w = storage_send env q 16 (Inr (read_request n)) CX_FILE_READ_CODE k w" if "0 < n" "n < 2 ^ 31"
  proof -
    have "word_of_nat n \<noteq> (0 :: u32)" using u [OF that(2)] that(1) by auto
    then show ?thesis using that u by (simp add: st_read_def read_request_def)
  qed
qed

lemma file_read_all_fields:
  assumes "file_message code (read_request n) m" and "n < 2 ^ 32"
  shows "mes_u32 m 0 = Inr 1 \<and> mes_u64 m 4 = Inr 0 \<and> mes_u32 m 12 = Inr (word_of_nat n)"
proof -
  obtain h rest where m: "length h = 40" "mesBody m = h @ read_request n @ rest" using assms(1) by (auto simp: file_message_def)
  have "mesBody m = h @ [] @ le_enc 4 1 @ le_enc 8 0 @ le_enc 4 n @ rest" using m(2) by (simp add: read_request_def)
  from mes_u32_request [OF m(1) this] have 1: "mes_u32 m 0 = Inr 1" by simp
  have "mesBody m = h @ le_enc 4 1 @ le_enc 8 0 @ le_enc 4 n @ rest" using m(2) by (simp add: read_request_def)
  from mes_u64_request [OF m(1) this] have "mes_u64 m 4 = Inr 0" by simp
  then show ?thesis using 1 file_read_fields [OF assms] by simp
qed

text \<open>The request and its length as they are asked, and the call that asks.\<close>

definition asking :: "back_env \<Rightarrow> message \<Rightarrow> file_op \<Rightarrow> rpc_request \<Rightarrow> addr \<Rightarrow> proxy_world \<Rightarrow> (int \<times> proxy_world) res" where
  "asking env m op = (\<lambda>q k w. case op of
     Op_Open path t e \<Rightarrow> st_open env q path (byte_of_open_type t) e k w
   | Op_Write xs \<Rightarrow> bind_res (mes_u32 m 0) (\<lambda>ty. bind_res (mes_u64 m 4) (\<lambda>pos. bind_res (mes_u32 m 12) (\<lambda>n. st_write env q (drop 56 (mesBody m)) n pos ty k w)))
   | Op_Read n \<Rightarrow> bind_res (mes_u32 m 0) (\<lambda>ty. bind_res (mes_u64 m 4) (\<lambda>pos. bind_res (mes_u32 m 12) (\<lambda>n. st_read env q n pos ty k w)))
   | Op_Length \<Rightarrow> st_length env q k w
   | Op_Close \<Rightarrow> st_close env q k w)"

lemma le_enc_empty: "le_enc k n = [] \<longleftrightarrow> k = 0"
  by (metis length_0_conv length_le_enc)

lemma asking_sends:
  assumes "file_message (op_code op) (op_request op) m" and "proxied_ok op st"
  shows "\<exists>n. (\<forall>env q k w. asking env m op q k w = storage_send env q n (Inr (asked_request op)) (op_code op) k w) \<and> unat n = length (asked_request op) \<and>
    asked_request op \<noteq> [] \<and> length (asked_request op) + 56 \<le> CX_MAX_CHACHE_SIZE \<and> op_code op \<noteq> 0"
proof (cases op)
  case (Op_Open path t e)
  then have p: "path \<noteq> []" "length path + 65 \<le> CX_MAX_CHACHE_SIZE" using assms(2) by (simp_all add: proxied_ok_def)
  let ?n = "word_of_nat (length path + 1) + 8 :: u32"
  have "unat (word_of_nat (length path + 9) :: u32) = length path + 9" using p(2) by (simp only: unat_of_nat CX_MAX_CHACHE_SIZE_def) simp
  then have "unat ?n = length path + 9" by (simp add: add.commute)
  moreover have "asking env m op q k w = storage_send env q ?n (Inr (open_request path t e)) CX_FILE_OPEN_CODE k w" for env q k w
    using asked_calls(1) [of path env q t e k w] p Op_Open by (simp add: asking_def CX_MAX_CHACHE_SIZE_def)
  ultimately show ?thesis using p Op_Open
    by (intro exI [of _ ?n]) (simp add: asked_request_def op_request_def op_code_def open_request_def text_bytes_def file_codes)
next
  case (Op_Write xs)
  then have p: "xs \<noteq> []" "length xs + 72 \<le> CX_MAX_CHACHE_SIZE" using assms(2) by (simp_all add: proxied_ok_def)
  then have small: "length xs < 2 ^ 31" by (simp add: CX_MAX_CHACHE_SIZE_def)
  let ?n = "word_of_nat (length xs) + 16 :: u32"
  have "unat (word_of_nat (length xs + 16) :: u32) = length xs + 16" using p(2) by (simp only: unat_of_nat CX_MAX_CHACHE_SIZE_def) simp
  then have "unat ?n = length xs + 16" by (simp add: add.commute)
  moreover have f: "mes_u32 m 0 = Inr 1" "mes_u64 m 4 = Inr 0" "mes_u32 m 12 = Inr (word_of_nat (length xs))" "take (length xs) (drop 56 (mesBody m)) = xs"
    using file_write_fields [OF _ small, of "op_code op" 1 0 m] assms(1) Op_Write by (simp_all add: op_request_def get_at_Inr_iff)
  ultimately show ?thesis using p small Op_Write
    by (intro exI [of _ ?n]) (simp add: asked_calls(2) [OF p(1) small f(4)] asking_def asked_request_def op_request_def op_code_def write_request_def file_codes)
next
  case (Op_Read n)
  then have "0 < n" "n < 2 ^ 31" using assms(2) by (simp_all add: proxied_ok_def op_ok_def)
  moreover have "mes_u32 m 0 = Inr 1 \<and> mes_u64 m 4 = Inr 0 \<and> mes_u32 m 12 = Inr (word_of_nat n)"
    using file_read_all_fields [of "op_code op" n m] assms(1) Op_Read \<open>n < 2 ^ 31\<close> by (simp add: op_request_def)
  ultimately show ?thesis using Op_Read
    by (intro exI [of _ 16]) (simp add: asked_calls(3) le_enc_empty asking_def asked_request_def op_request_def op_code_def read_request_def file_codes CX_MAX_CHACHE_SIZE_def)
next
  case Op_Length
  then show ?thesis
    by (intro exI [of _ 9]) (simp add: asking_def asked_request_def command_bytes_def st_length_def op_code_def file_codes CX_MAX_CHACHE_SIZE_def)
next
  case Op_Close
  then show ?thesis
    by (intro exI [of _ 9]) (simp add: asking_def asked_request_def op_request_def command_bytes_def st_close_def op_code_def file_codes CX_MAX_CHACHE_SIZE_def)
qed

lemma dispatch_code:
  assumes "file_message (op_code op) req m" and "conSession (bw_con a w) \<noteq> None"
  shows "proxy_dispatch env m a p w =
    (case op of Op_Open path t e \<Rightarrow> proxy_open env m a p w | Op_Write xs \<Rightarrow> proxy_write env m a p w | Op_Read n \<Rightarrow> proxy_read env m a p w
     | Op_Length \<Rightarrow> proxy_length env m a p w | Op_Close \<Rightarrow> proxy_close env m a p w)"
proof -
  have "dwMesCode (body_of (mesBody m)) = op_code op" using assms(1) by (simp add: file_message_def)
  then show ?thesis using assms(2) by (cases op) (auto simp: proxy_dispatch_def Let_def op_code_def file_codes)
qed

lemma dispatch_asks:
  assumes "proxy_at a b p k (Some opened) w" and "file_message (op_code op) (op_request op) m" and "proxied_ok op st" and "opened \<noteq> is_open op"
  shows "\<exists>w1 other. proxy_at a b p k (Some opened) w1 \<and> bwSocks w1 = bwSocks w \<and>
    proxy_dispatch env m a p w = bind_res (proxy_ask env (op_step op) (asking env m op) m a p k w1) (\<lambda>(r, w).
      if r = 0 then Inr (CXRET_ASYNC_CALLBACK, w) else other r w)"
proof -
  note at = proxy_at_parts [OF assms(1)]
  note d = dispatch_code [OF assms(2) at(5)]
  obtain live f where st: "st = (live, f)" by (cases st)
  show ?thesis
  proof (cases op)
    case (Op_Open path t e)
    then have "\<not> opened" using assms(4) by (simp add: is_open_def)
    moreover have "asking env m op = (\<lambda>q. st_open env q path (byte_of_open_type t) e)" using Op_Open by (simp add: asking_def)
    ultimately have "proxy_dispatch env m a p w = bind_res (proxy_ask env (op_step op) (asking env m op) m a p k (reopened a b p k path w)) (\<lambda>(r, w).
      if r = 0 then Inr (CXRET_ASYNC_CALLBACK, w) else say env 502 CX_FILE_OPEN_REPLY_CODE (failed_text ''open file '' path) r (- 2) m a w)"
      using d proxy_open_runs [OF assms(1), of path t e m live f env] assms(2,3) Op_Open st by (simp add: op_step_def)
    then show ?thesis using reopened_at [OF assms(1)] reopened_socks
      by (intro exI [of _ "reopened a b p k path w"] exI [of _ "\<lambda>r w. say env 502 CX_FILE_OPEN_REPLY_CODE (failed_text ''open file '' path) r (- 2) m a w"]) simp
  next
    case (Op_Write xs)
    then show ?thesis using d at(1,2) assms(1,4)
      by (intro exI [of _ w] exI) (simp add: is_open_def asking_def op_step_def proxy_write_def proxy_request_def Let_def)
  next
    case (Op_Read n)
    then show ?thesis using d at(1,2) assms(1,4)
      by (intro exI [of _ w] exI) (simp add: is_open_def asking_def op_step_def proxy_read_def Let_def)
  next
    case Op_Length
    then show ?thesis using d at(1,2) assms(1,4)
      by (intro exI [of _ w] exI) (simp add: is_open_def asking_def op_step_def proxy_length_def proxy_request_def Let_def)
  next
    case Op_Close
    then show ?thesis using d at(1,2) assms(1,4)
      by (intro exI [of _ w] exI) (simp add: is_open_def asking_def op_step_def proxy_close_def proxy_request_def Let_def)
  qed
qed

lemma proxy_asks:
  assumes "proxy_at a b p k (Some opened) w" and "line_env (beSend env)" and "file_message (op_code op) (op_request op) m" and "proxied_ok op st"
    and "opened \<noteq> is_open op"
  shows "\<exists>w1 body. proxy_dispatch env m a p w = Inr (CXRET_ASYNC_CALLBACK, w1) \<and> proxy_waits env a b p k opened m (op_step op) w1 \<and>
    bwSocks w1 a = bwSocks w a \<and> sckOut (bwSocks w1 b) = sckOut (bwSocks w b) @ wire (plain_packet body) \<and> length body = 40 + length (asked_request op) \<and>
    drop 40 body = asked_request op \<and> dwMesCode (body_of body) = op_code op \<and> byRequestID (body_of body) = byRequestID (body_of (mesBody m))"
proof -
  obtain n where n: "\<And>q w. asking env m op q k w = storage_send env q n (Inr (asked_request op)) (op_code op) k w" "unat n = length (asked_request op)"
      "asked_request op \<noteq> []" "length (asked_request op) + 56 \<le> CX_MAX_CHACHE_SIZE" "op_code op \<noteq> 0"
    using asking_sends [OF assms(3,4)] by blast
  obtain w1 other where w1: "proxy_at a b p k (Some opened) w1" "bwSocks w1 = bwSocks w"
      "proxy_dispatch env m a p w = bind_res (proxy_ask env (op_step op) (asking env m op) m a p k w1) (\<lambda>(r, w).
      if r = 0 then Inr (CXRET_ASYNC_CALLBACK, w) else other r w)"
    using dispatch_asks [OF assms(1,3-5)] by blast
  have "op_step op \<noteq> 0" by (cases op) (simp_all add: op_step_def inter_codes)
  from proxy_ask_line [OF w1(1) assms(2) message_body_32 [OF assms(3)] this, where call = "asking env m op", OF n(1) n(3,2,4,5)]
  show ?thesis unfolding w1(3) w1(2) by fastforce
qed

section \<open>Answering\<close>

definition own_answer :: "file_op \<Rightarrow> file_answer" where
  "own_answer op = (if is_read op \<or> op = Op_Length then Ans_Failed 501 else Ans_Ok)"

lemma op_kinds:
  "is_open (Op_Open path t e)" "\<not> is_open (Op_Write xs)" "\<not> is_open (Op_Read n)" "\<not> is_open Op_Length" "\<not> is_open Op_Close"
  "is_read (Op_Read n)" "\<not> is_read (Op_Open path t e)" "\<not> is_read (Op_Write xs)" "\<not> is_read Op_Length" "\<not> is_read Op_Close"
  by (simp_all add: is_open_def is_read_def)

lemma own_answer_code: "reply_code bs = (if is_read op \<or> op = Op_Length then 501 else 200) \<Longrightarrow> reply_answer op bs = own_answer op"
  by (cases op) (simp_all add: reply_answer_def own_answer_def is_read_def)

lemma dispatch_says:
  assumes "proxy_at a b p k stat w" and "file_message (op_code op) (op_request op) m" and "proxied_ok op (stat \<noteq> None, f)"
    and "\<And>opened. stat = Some opened \<Longrightarrow> opened = is_open op"
  shows "\<exists>w1. proxy_at a b p k stat w1 \<and> bwSocks w1 = bwSocks w \<and>
    (if is_read op then \<exists>t. proxy_dispatch env m a p w = say_read env 501 t m a w1
     else \<exists>reply t good bad. proxy_dispatch env m a p w = say env (if op = Op_Length then 501 else 200) reply t good bad m a w1)"
proof -
  have ses: "conSession (bw_con a w) \<noteq> None" using assms(1) by (simp add: proxy_at_def proxy_base_def plain_line_def)
  note d = dispatch_code [OF assms(2) ses]
  show ?thesis
  proof (cases "is_open op")
    case True
    then obtain path t e where op: "op = Op_Open path t e" by (auto simp: is_open_def)
    then have stat: "stat = Some True" using assms(3,4) True by (cases stat) (simp_all add: proxied_ok_def)
    have "proxy_dispatch env m a p w = say env 200 CX_FILE_OPEN_REPLY_CODE (opened_text path) 0 (- 2) m a (reopened a b p k path w)"
      using d proxy_open_runs [OF assms(1) [unfolded stat], of path t e m _ f env] assms(2,3) op by simp
    then show ?thesis using reopened_at [OF assms(1) [unfolded stat]] reopened_socks stat op
      by (intro exI [of _ "reopened a b p k path w"]) (auto simp: is_read_def)
  next
    case False
    then have "case fpStorage (pwProxies w p) of None \<Rightarrow> True | Some k \<Rightarrow> \<not> stOpened (bwClients w k)"
      using assms(1,4) by (cases stat) (auto simp: proxy_at_def)
    then show ?thesis using d assms(1) False
      by (intro exI [of _ w], cases op)
        (auto simp: is_read_def is_open_def proxy_write_def proxy_length_def proxy_close_def proxy_read_def proxy_request_def Let_def split: option.splits)
  qed
qed

lemma proxy_answers_itself:
  assumes "proxy_at a b p k stat w" and "line_env (beSend env)" and "file_message (op_code op) (op_request op) m" and "proxied_ok op (stat \<noteq> None, f)"
    and "\<And>opened. stat = Some opened \<Longrightarrow> opened = is_open op"
  shows "\<exists>r w1 out. proxy_dispatch env m a p w = Inr (r, w1) \<and> proxy_at a b p k stat w1 \<and> bwSocks w1 b = bwSocks w b \<and>
    sckOut (bwSocks w1 a) = sckOut (bwSocks w a) @ out \<and> reply_answer op (packet_data out) = own_answer op"
proof -
  note body = message_body_32 [OF assms(3)]
  obtain w1 where w1: "proxy_at a b p k stat w1" "bwSocks w1 = bwSocks w"
      "if is_read op then \<exists>t. proxy_dispatch env m a p w = say_read env 501 t m a w1
       else \<exists>reply t good bad. proxy_dispatch env m a p w = say env (if op = Op_Length then 501 else 200) reply t good bad m a w1"
    using dispatch_says [OF assms(1,3-5)] by blast
  show ?thesis
  proof (cases "is_read op")
    case True
    then obtain t where "proxy_dispatch env m a p w = say_read env 501 t m a w1" using w1(3) by auto
    then show ?thesis using say_read_line [OF w1(1) assms(2) body, of 501 t] own_answer_code [of _ op] True w1(2) by fastforce
  next
    case False
    then obtain reply t good bad where "proxy_dispatch env m a p w = say env (if op = Op_Length then 501 else 200) reply t good bad m a w1"
      using w1(3) by auto
    then show ?thesis using say_line [OF w1(1) assms(2) body, of "if op = Op_Length then 501 else 200" reply t good bad] own_answer_code [of _ op] False w1(2)
      by fastforce
  qed
qed

section \<open>The other server\<close>

lemma step_never_503: "fst (file_step op f) \<noteq> Ans_Failed 503"
  by (cases op) (auto simp: file_step_def Let_def split: option.splits)

lemma answer_503: "reply_code bs = 503 \<Longrightarrow> reply_answer op bs = Ans_Failed 503"
  by (cases op) (simp_all add: reply_answer_def)

text \<open>The request with the data that the server expects is worked on as the one that is sent.\<close>

lemma asked_message:
  assumes "length body = 40 + length (asked_request op)" and "drop 40 body = asked_request op" and "dwMesCode (body_of body) = op_code op"
  shows "\<exists>m. file_message (op_code op) (op_request op) m \<and> file_work fenv (peer_message body) memory v s = file_work fenv m memory v s \<and>
    dwMesCode (body_of (mesBody m)) = op_code op"
proof (cases "op = Op_Length")
  case True
  let ?m = "peer_message (body @ replicate 3 0)"
  have b: "body = take 40 body @ replicate 9 0" using assms(2) True by (metis append_take_drop_id asked_request_def command_bytes_def)
  have l: "length body = 49" using assms(1) True by (simp add: asked_request_def command_bytes_def)
  have c: "dwMesCode (body_of (body @ xs)) = op_code op" for xs using assms(3) l by (simp add: body_of_def)
  have d: "dwMesCode (body_of (mesBody ?m)) = op_code op" "mesDataLen ?m = word_of_nat (40 + length (op_request op))"
    using c l True by (simp_all add: peer_message_def op_request_def)
  have "mesBody ?m = take 40 body @ op_request op @ []"
  proof -
    have "body @ replicate 3 0 = take 40 body @ (replicate 9 0 @ replicate 3 0)" using b by (metis append_assoc)
    then show ?thesis using True by (simp add: peer_message_def op_request_def replicate_add [symmetric])
  qed
  then have "file_message (op_code op) (op_request op) ?m"
    using l by (intro file_messageI [OF d, of "take 40 body" "[]"]) simp_all
  moreover have "file_work fenv (peer_message body) memory v s = file_work fenv ?m memory v s"
    using assms(3) c True by (simp add: file_work_def peer_message_def op_code_def file_codes)
  ultimately show ?thesis by (auto simp: file_message_def)
next
  case False
  have "mesBody (peer_message body) = take 40 body @ op_request op @ []"
    using assms(2) False by (simp add: peer_message_def asked_request_def) (metis append_take_drop_id)
  then have "file_message (op_code op) (op_request op) (peer_message body)"
    using assms False by (intro file_messageI [of _ _ _ "take 40 body" "[]"]) (simp_all add: peer_message_def asked_request_def)
  then show ?thesis by (auto simp: file_message_def)
qed

lemma read_step_cases:
  assumes "file_sim v s f" and "flsOpen f \<noteq> None"
  shows "(\<exists>xs. fst (file_step (Op_Read n) f) = Ans_Data xs \<and> length xs \<le> n) \<or> (\<exists>xs. fst (file_step (Op_Read n) f) = Ans_Short xs \<and> length xs \<le> n) \<or>
    fst (file_step (Op_Read n) f) = Ans_End"
proof -
  obtain path pos r w where o: "flsOpen f = Some (path, pos, r, w)" using assms(2) by auto
  obtain bs where "flsContent f path = Some bs" using file_sim_open [OF assms(1) o] by auto
  then show ?thesis using file_step_read [OF o _ refl, of bs n] by auto
qed

lemma read_answer_length:
  assumes "length bs = reply_u32 4 bs + 8" and "reply_answer (Op_Read n) bs = Ans_Data xs \<or> reply_answer (Op_Read n) bs = Ans_Short xs"
  shows "reply_u32 4 bs = length xs"
  using assms by (auto simp: reply_answer_def split: if_splits)

lemma peer_relays:
  assumes "length body = 40 + length (asked_request op)" and "drop 40 body = asked_request op" and "dwMesCode (body_of body) = op_code op"
    and "file_sim v s f" and "proxied_ok op (live, f)" and "length (feError fenv) \<le> 1000" and "is_read op \<Longrightarrow> flsOpen f \<noteq> None"
  shows "\<exists>r v' s' rep mem. file_work fenv (peer_message body) (\<lambda>k. True) v s = Inr (r, v', s') \<and> file_sim v' s' (snd (file_step op f)) \<and>
    reply_type r = op_reply op \<and> length (sent_bytes r) \<le> 1024 * 10240 + 1024 \<and> reply_answer op (sent_bytes r) = fst (file_step op f) \<and>
    reply_of_message (if is_read op then 8 else 16) (reply_message body (op_reply op) (sent_bytes r)) = Inr rep \<and> relay_fits op rep mem \<and>
    rpCode rep = reply_code (sent_bytes r) \<and> reply_answer op (relayed op rep mem) = clipped (fst (file_step op f))"
proof -
  obtain m where m: "file_message (op_code op) (op_request op) m" "file_work fenv (peer_message body) (\<lambda>k. True) v s = file_work fenv m (\<lambda>k. True) v s"
      "dwMesCode (body_of (mesBody m)) = op_code op"
    using asked_message [OF assms(1-3), of fenv "\<lambda>k. True" v s] by blast
  have ok: "op_ok op f" using assms(5) by (simp add: proxied_ok_def)
  obtain r v' s' where r: "file_work fenv m (\<lambda>k. True) v s = Inr (r, v', s')" "length (sent_bytes r) \<le> 1024 * 10240 + 1024"
      "if \<exists>n. op = Op_Read n then length (sent_bytes r) = reply_u32 4 (sent_bytes r) + 8 else 16 \<le> length (sent_bytes r) \<and> length (sent_bytes r) \<le> 1040"
      "reply_answer op (sent_bytes r) = fst (file_step op f)" "file_sim v' s' (snd (file_step op f))"
    using file_work_sim [OF assms(4) m(1) ok _ assms(6), of "\<lambda>k. True"] by blast
  have ty: "reply_type r = op_reply op" by (rule file_work_reply_type [OF r(1) m(3)])
  have no: "reply_code (sent_bytes r) \<noteq> 503" using answer_503 [of "sent_bytes r" op] r(4) step_never_503 [of op f] by auto
  have b32: "32 \<le> length body" using assms(1) by simp
  have "\<exists>rep mem. reply_of_message (if is_read op then 8 else 16) (reply_message body (op_reply op) (sent_bytes r)) = Inr rep \<and> relay_fits op rep mem \<and>
      rpCode rep = reply_code (sent_bytes r) \<and> reply_answer op (relayed op rep mem) = clipped (reply_answer op (sent_bytes r))"
  proof (cases "is_read op")
    case True
    then obtain n where op: "op = Op_Read n" by (auto simp: is_read_def)
    then have l: "length (sent_bytes r) = reply_u32 4 (sent_bytes r) + 8" "n + 64 \<le> CX_MAX_CHACHE_SIZE" using r(3) assms(5) by (simp_all add: proxied_ok_def)
    have "reply_u32 4 (sent_bytes r) + 64 \<le> CX_MAX_CHACHE_SIZE"
      using read_step_cases [OF assms(4) assms(7) [OF True], of n] read_answer_length [OF l(1), of n] r(4) l(2) op
        file_work_end [OF assms(4) m(1) ok assms(6) _ r(1)] assms(6)
      by (auto simp: CX_MAX_CHACHE_SIZE_def)
    then show ?thesis using read_relayed [OF b32 l(1) _ True no] l(1) True by simp
  next
    case False
    then have "16 \<le> length (sent_bytes r)" "length (sent_bytes r) \<le> 1040" using r(3) by (simp_all add: is_read_def)
    then show ?thesis using reply_relayed [OF b32 _ _ file_work_sized [OF r(1) m(3) assms(6) False] False no] False by simp
  qed
  then show ?thesis using r m(2) ty by auto
qed

section \<open>One request\<close>

definition new_bytes :: "addr \<Rightarrow> proxy_world \<Rightarrow> proxy_world \<Rightarrow> byte list" where
  "new_bytes a w w' = drop (length (sckOut (bwSocks w a))) (sckOut (bwSocks w' a))"

text \<open>
  The client sends the message \<open>m\<close> to the proxy; what the proxy sends goes to the other server, the object of files
  there, and the reply of that object back to the storage client.  The result is what the client gets.
\<close>

definition proxied_round ::
  "back_env \<Rightarrow> file_env \<Rightarrow> addr \<Rightarrow> addr \<Rightarrow> addr \<Rightarrow> addr \<Rightarrow> message \<Rightarrow> proxy_world \<times> file_server \<times> os \<Rightarrow> (byte list \<times> proxy_world \<times> file_server \<times> os) res" where
  "proxied_round env fenv a b p k m = (\<lambda>(w, v, s).
     bind_res (proxy_dispatch env m a p w) (\<lambda>(_, w1).
       let asked = new_bytes b w w1; body = drop sizeof_header asked in
       if asked = [] then Inr (packet_data (new_bytes a w w1), w1, v, s)
       else bind_res (file_work fenv (peer_message body) (\<lambda>k. True) v s) (\<lambda>(r, v, s).
         bind_res (storage_dispatch (proxy_step env) env (reply_message body (reply_type r) (sent_bytes r)) b k w1) (\<lambda>(_, w2).
           Inr (packet_data (new_bytes a w w2), w2, v, s)))))"

fun proxied_rounds ::
  "back_env \<Rightarrow> file_env \<Rightarrow> addr \<Rightarrow> addr \<Rightarrow> addr \<Rightarrow> addr \<Rightarrow> message list \<Rightarrow> proxy_world \<times> file_server \<times> os \<Rightarrow> (byte list list \<times> proxy_world \<times> file_server \<times> os) res" where
  "proxied_rounds env fenv a b p k [] st = Inr ([], st)"
| "proxied_rounds env fenv a b p k (m # ms) st = bind_res (proxied_round env fenv a b p k m st) (\<lambda>(x, st).
     bind_res (proxied_rounds env fenv a b p k ms st) (\<lambda>(xs, st). Inr (x # xs, st)))"

text \<open>The specification: whether there is a storage client, and the files.  Opening an open file and whatever needs an open file when there is none are answered at once.\<close>

definition proxied_step :: "file_op \<Rightarrow> bool \<times> files \<Rightarrow> file_answer \<times> bool \<times> files" where
  "proxied_step op st =
     (if fst st \<and> (flsOpen (snd st) \<noteq> None) \<noteq> is_open op then
        (case file_step op (snd st) of (x, f) \<Rightarrow> (clipped x, op \<noteq> Op_Close, f))
      else (own_answer op, st))"

fun proxied_steps :: "file_op list \<Rightarrow> bool \<times> files \<Rightarrow> file_answer list \<times> bool \<times> files" where
  "proxied_steps [] st = ([], st)"
| "proxied_steps (op # ops) st = (case proxied_step op st of (x, st) \<Rightarrow> case proxied_steps ops st of (xs, st) \<Rightarrow> (x # xs, st))"

fun proxied_oks :: "file_op list \<Rightarrow> bool \<times> files \<Rightarrow> bool" where
  "proxied_oks [] st = True"
| "proxied_oks (op # ops) st = (proxied_ok op st \<and> proxied_oks ops (snd (proxied_step op st)))"

definition proxied :: "addr \<Rightarrow> addr \<Rightarrow> addr \<Rightarrow> addr \<Rightarrow> proxy_world \<times> file_server \<times> os \<Rightarrow> bool \<times> files \<Rightarrow> bool" where
  "proxied a b p k = (\<lambda>(w, v, s) (live, f). proxy_at a b p k (if live then Some (flsOpen f \<noteq> None) else None) w \<and> (\<not> live \<longrightarrow> flsOpen f = None) \<and>
     file_sim v s f)"

lemma step_opened:
  "(flsOpen (snd (file_step op f)) \<noteq> None) = (if is_open op then fst (file_step op f) = Ans_Ok else op \<noteq> Op_Close \<and> flsOpen f \<noteq> None)"
  by (cases op) (auto simp: file_step_def is_open_def Let_def split: option.splits)

lemma answer_ok: "\<not> is_read op \<Longrightarrow> op \<noteq> Op_Length \<Longrightarrow> reply_answer op bs = Ans_Ok \<longleftrightarrow> reply_code bs = 200"
  by (cases op) (simp_all add: reply_answer_def is_read_def)

text \<open>What the storage client notes of a reply.\<close>

definition noted :: "file_op \<Rightarrow> u32 \<Rightarrow> bool \<Rightarrow> bool" where
  "noted op code opened = (if is_open op \<and> code = 200 then True else if op = Op_Close \<and> code = 200 then False else opened)"

lemma dispatch_reply:
  assumes "conSession (bw_con b w) \<noteq> None" and "dwMesCode (body_of (mesBody m)) = op_reply op"
  shows "\<exists>note. storage_dispatch step env m b k w = storage_on_reply (if is_read op then 8 else 16) note step env m k w \<and>
    (\<forall>code c. note code c = c\<lparr>stOpened := noted op code (stOpened c)\<rparr>)"
proof -
  note codes = CX_FILE_OPEN_REPLY_CODE_def CX_FILE_SEEK_REPLY_CODE_def CX_FILE_READ_REPLY_CODE_def CX_FILE_WRITE_REPLY_CODE_def
    CX_FILE_CLOSE_REPLY_CODE_def CX_FILE_GET_LENGTH_REPLY_CODE_def CX_HEAERT_BEAT_CODE_def
  let ?id = "\<lambda>(code :: u32) (c :: storage_client). c"
  show ?thesis
  proof (cases op)
    case (Op_Open path t e)
    then show ?thesis using assms
      by (intro exI [of _ "\<lambda>code c. if code = 200 then c\<lparr>stOpened := True\<rparr> else c"])
        (auto simp: storage_dispatch_def Let_def op_reply_def codes st_on_open_def noted_def is_open_def is_read_def)
  next
    case (Op_Write xs)
    then show ?thesis using assms
      by (intro exI [of _ ?id]) (auto simp: storage_dispatch_def Let_def op_reply_def codes st_on_write_def noted_def is_open_def is_read_def)
  next
    case (Op_Read n)
    then show ?thesis using assms
      by (intro exI [of _ ?id]) (auto simp: storage_dispatch_def Let_def op_reply_def codes st_on_read_def noted_def is_open_def is_read_def)
  next
    case Op_Length
    then show ?thesis using assms
      by (intro exI [of _ ?id]) (auto simp: storage_dispatch_def Let_def op_reply_def codes st_on_length_def noted_def is_open_def is_read_def)
  next
    case Op_Close
    then show ?thesis using assms
      by (intro exI [of _ "\<lambda>code c. if code = 200 then c\<lparr>stOpened := False\<rparr> else c"])
        (auto simp: storage_dispatch_def Let_def op_reply_def codes st_on_close_def noted_def is_open_def is_read_def)
  qed
qed

lemma asked_round:
  assumes "proxy_at a b p k (Some (flsOpen f \<noteq> None)) w" and "line_env (beSend env)" and "file_message (op_code op) (op_request op) m"
    and "proxied_ok op (True, f)" and "(flsOpen f \<noteq> None) \<noteq> is_open op" and "file_sim v s f" and "length (feError fenv) \<le> 1000"
  shows "\<exists>x w' v' s'. proxied_round env fenv a b p k m (w, v, s) = Inr (x, w', v', s') \<and> reply_answer op x = clipped (fst (file_step op f)) \<and>
    proxied a b p k (w', v', s') (op \<noteq> Op_Close, snd (file_step op f))"
proof -
  obtain w1 body where w1: "proxy_dispatch env m a p w = Inr (CXRET_ASYNC_CALLBACK, w1)" "proxy_waits env a b p k (flsOpen f \<noteq> None) m (op_step op) w1"
      "bwSocks w1 a = bwSocks w a" "sckOut (bwSocks w1 b) = sckOut (bwSocks w b) @ wire (plain_packet body)" "length body = 40 + length (asked_request op)"
      "drop 40 body = asked_request op" "dwMesCode (body_of body) = op_code op" "byRequestID (body_of body) = byRequestID (body_of (mesBody m))"
    using proxy_asks [OF assms(1-5)] by blast
  have asked: "new_bytes b w w1 = wire (plain_packet body)" "drop sizeof_header (wire (plain_packet body)) = body" "wire (plain_packet body) \<noteq> []"
    using w1(4,5) by (auto simp: new_bytes_def wire_def plain_packet_def sizes)
  have "is_read op \<Longrightarrow> flsOpen f \<noteq> None" using assms(5) by (auto simp: is_read_def is_open_def)
  from peer_relays [OF w1(5-7) assms(6,4,7) this]
  obtain r v' s' rep mem where r: "file_work fenv (peer_message body) (\<lambda>k. True) v s = Inr (r, v', s')" "file_sim v' s' (snd (file_step op f))"
      "reply_type r = op_reply op" "length (sent_bytes r) \<le> 1024 * 10240 + 1024" "reply_answer op (sent_bytes r) = fst (file_step op f)"
      "reply_of_message (if is_read op then 8 else 16) (reply_message body (op_reply op) (sent_bytes r)) = Inr rep" "relay_fits op rep mem"
      "rpCode rep = reply_code (sent_bytes r)" "reply_answer op (relayed op rep mem) = clipped (fst (file_step op f))"
    by blast
  let ?m2 = "reply_message body (op_reply op) (sent_bytes r)"
  have b32: "32 \<le> length body" using w1(5) by simp
  note m2 = reply_message_simps [OF b32 r(4)]
  have id: "message_request env ?m2 = message_request env m" using m2(5) w1(8) by (simp add: message_request_def)
  have "conSession (bw_con b w1) \<noteq> None" using w1(2) by (simp add: proxy_waits_def plain_line_def)
  then obtain nt where nt: "storage_dispatch (proxy_step env) env ?m2 b k w1 = storage_on_reply (if is_read op then 8 else 16) nt (proxy_step env) env ?m2 k w1"
      "\<And>code c. nt code c = c\<lparr>stOpened := noted op code (stOpened c)\<rparr>"
    using dispatch_reply m2(4) by blast
  obtain w2 where w2: "storage_on_reply (if is_read op then 8 else 16) nt (proxy_step env) env ?m2 k w1 = Inr (0, w2)"
      "proxy_at a b p k (if op = Op_Close then None else Some (noted op (rpCode rep) (flsOpen f \<noteq> None))) w2" "steps_to a b (relayed op rep mem) w1 w2"
    using storage_on_reply_line [OF w1(2) assms(2) message_body_32 [OF assms(3)] id r(6,7), where nt = nt and f = "noted op (rpCode rep)"] nt(2) by blast
  have data: "packet_data (new_bytes a w w2) = relayed op rep mem" using w2(3) w1(3) by (auto simp: steps_to_def new_bytes_def)
  have "proxied_round env fenv a b p k m (w, v, s) = Inr (relayed op rep mem, w2, v', s')"
    unfolding proxied_round_def prod.case w1(1) bind_res_simps Let_def asked(1) if_not_P [OF asked(3)] asked(2) r(1) r(3) nt(1) w2(1) data by simp
  moreover have "op \<noteq> Op_Close \<Longrightarrow> noted op (rpCode rep) (flsOpen f \<noteq> None) = (flsOpen (snd (file_step op f)) \<noteq> None)"
  proof -
    assume "op \<noteq> Op_Close"
    moreover have "is_open op \<Longrightarrow> fst (file_step op f) = Ans_Ok \<longleftrightarrow> rpCode rep = 200"
      using answer_ok [of op "sent_bytes r"] r(5,8) by (auto simp: is_open_def is_read_def)
    ultimately show ?thesis using assms(5) unfolding step_opened noted_def by auto
  qed
  moreover have "op = Op_Close \<Longrightarrow> flsOpen (snd (file_step op f)) = None" by (simp add: file_step_def)
  ultimately show ?thesis using r(2,9) w2(2) by (auto simp: proxied_def)
qed

lemma proxied_round_step:
  assumes "proxied a b p k (w, v, s) st" and "line_env (beSend env)" and "file_message (op_code op) (op_request op) m" and "proxied_ok op st"
    and "length (feError fenv) \<le> 1000"
  shows "\<exists>x w' v' s'. proxied_round env fenv a b p k m (w, v, s) = Inr (x, w', v', s') \<and> reply_answer op x = fst (proxied_step op st) \<and>
    proxied a b p k (w', v', s') (snd (proxied_step op st))"
proof -
  obtain live f where st: "st = (live, f)" by (cases st)
  have at: "proxy_at a b p k (if live then Some (flsOpen f \<noteq> None) else None) w" "\<not> live \<longrightarrow> flsOpen f = None" "file_sim v s f"
    using assms(1) by (simp_all add: proxied_def st)
  show ?thesis
  proof (cases "live \<and> (flsOpen f \<noteq> None) \<noteq> is_open op")
    case True
    then show ?thesis using asked_round [of a b p k f w env op m v s fenv] at assms(2-5) st by (auto simp: proxied_step_def split: prod.splits)
  next
    case False
    let ?stat = "if live then Some (flsOpen f \<noteq> None) else None"
    have ok: "proxied_ok op (?stat \<noteq> None, f)" using assms(4) st by (cases live) simp_all
    have "\<And>opened. ?stat = Some opened \<Longrightarrow> opened = is_open op" using False by (auto split: if_splits)
    from proxy_answers_itself [OF at(1) assms(2,3) ok this]
    obtain r w1 out where w1: "proxy_dispatch env m a p w = Inr (r, w1)" "proxy_at a b p k ?stat w1" "bwSocks w1 b = bwSocks w b"
        "sckOut (bwSocks w1 a) = sckOut (bwSocks w a) @ out" "reply_answer op (packet_data out) = own_answer op"
      by blast
    have "new_bytes b w w1 = []" "new_bytes a w w1 = out" using w1(3,4) by (simp_all add: new_bytes_def)
    then have "proxied_round env fenv a b p k m (w, v, s) = Inr (packet_data out, w1, v, s)" using w1(1) by (simp add: proxied_round_def Let_def)
    moreover have "proxied_step op st = (own_answer op, st)" unfolding proxied_step_def st fst_conv snd_conv using False by (rule if_not_P)
    ultimately show ?thesis using w1(2,5) at(2,3) st by (simp add: proxied_def)
  qed
qed

lemma proxied_rounds_steps:
  assumes "proxied a b p k (w, v, s) st" and "line_env (beSend env)" and "list_all2 (\<lambda>op m. file_message (op_code op) (op_request op) m) ops ms"
    and "proxied_oks ops st" and "length (feError fenv) \<le> 1000"
  shows "\<exists>xs w' v' s'. proxied_rounds env fenv a b p k ms (w, v, s) = Inr (xs, w', v', s') \<and> length xs = length ops \<and>
    map2 reply_answer ops xs = fst (proxied_steps ops st) \<and> proxied a b p k (w', v', s') (snd (proxied_steps ops st))"
  using assms(3,1,4)
proof (induction ops ms arbitrary: w v s st rule: list_all2_induct)
  case Nil
  then show ?case by simp
next
  case (Cons op ops m ms)
  obtain x w1 v1 s1 where 1: "proxied_round env fenv a b p k m (w, v, s) = Inr (x, w1, v1, s1)" "reply_answer op x = fst (proxied_step op st)"
      "proxied a b p k (w1, v1, s1) (snd (proxied_step op st))"
    using proxied_round_step [OF Cons.prems(1) assms(2) Cons.hyps(1) _ assms(5)] Cons.prems(2) by auto
  obtain xs w' v' s' where "proxied_rounds env fenv a b p k ms (w1, v1, s1) = Inr (xs, w', v', s')" "length xs = length ops"
      "map2 reply_answer ops xs = fst (proxied_steps ops (snd (proxied_step op st)))"
      "proxied a b p k (w', v', s') (snd (proxied_steps ops (snd (proxied_step op st))))"
    using Cons.IH [OF 1(3)] Cons.prems(2) by auto
  then show ?case using 1 by (auto split: prod.splits)
qed


text \<open>A client on the connection 1, its proxy, the object 3, and the storage client 4, on the connection 2 to the other server.\<close>

definition demo_line :: connection where
  "demo_line = demo_sender\<lparr>conServer := True, conSession := Some 0, conObjectID := replicate 16 0\<rparr>"

definition demo_proxy_world :: proxy_world where
  "demo_proxy_world = bw_on_con 1 (\<lambda>_. demo_line) (bw_on_con 2 (\<lambda>_. demo_line)
     (bw_on_obj 3 (\<lambda>_. proxy_object_new\<lparr>objUsing := True, objID := ''proxy''\<rparr>)
       \<lparr>bwServer = server_new False, bwSocks = (\<lambda>_. \<lparr>sckOut = [], sckScript = []\<rparr>), bwClients = (\<lambda>_. storage_new\<lparr>icServer := True, icCon := Some 2\<rparr>),
        bwTasks = [], pwProxies = (\<lambda>_. file_proxy_new\<lparr>fpServer := True, fpStorage := Some 4\<rparr>)\<rparr>))"

definition demo_back_env :: back_env where
  "demo_back_env = \<lparr>beNow = 5, beAccept = \<lparr>aeAttach = True, aeNow = 5, aeSecs = 5, aeRand = (\<lambda>_. 0), aeGuid = ''guid'', aeQueue = 0\<rparr>,
     beRpc = demo_rpc_env, beSend = demo_send_env\<lparr>senAlloc := Some\<rparr>, beTask = True\<rparr>"

lemma demo_proxied:
  "proxied 1 2 3 4 (demo_proxy_world, \<lparr>srvFile = file64_new, srvPath = []\<rparr>, demo_os\<lparr>osFiles := [(''f'', [1, 2, 3, 4])]\<rparr>)
    (True, \<lparr>flsContent = [''f'' \<mapsto> [1, 2, 3, 4]], flsOpen = None\<rparr>)"
proof -
  have c: "bw_con 1 demo_proxy_world = demo_line" "bw_con 2 demo_proxy_world = demo_line" by (simp_all add: demo_proxy_world_def)
  have "bw_obj 3 demo_proxy_world = proxy_object_new\<lparr>objUsing := True, objID := ''proxy''\<rparr>" by (simp add: demo_proxy_world_def)
  moreover have "plain_line demo_line \<lparr>sckOut = [], sckScript = []\<rparr>"
    by (simp add: plain_line_def demo_line_def demo_sender_def on_created_def demo_connection_def serve_connection_def
      build_connection_def reset_connection_def new_connection_def Let_def CX_GUID_LEN_def)
  moreover have "bwSocks demo_proxy_world = (\<lambda>_. \<lparr>sckOut = [], sckScript = []\<rparr>)" "pwProxies demo_proxy_world 3 = file_proxy_new\<lparr>fpServer := True, fpStorage := Some 4\<rparr>"
      "bwClients demo_proxy_world 4 = storage_new\<lparr>icServer := True, icCon := Some 2\<rparr>"
    by (simp_all add: demo_proxy_world_def)
  ultimately show ?thesis using c
    by (auto simp: proxied_def proxy_at_def proxy_base_def proxy_object_new_def storage_new_def file_proxy_new_def file_sim_def demo_os_def std_taken_def file64_new_def)
qed

definition demo_proxied_ops :: "file_op list" where
  "demo_proxied_ops = [Op_Length, Op_Open ''f'' modeRead False, Op_Read 2, Op_Read 5, Op_Open ''g'' modeWrite False, Op_Close, Op_Write [9]]"


end
