(* ===== verification/Message_Tasks.thy ===== *)
theory Message_Tasks imports Main Coded_Packets Plain_Line begin

text \<open>
  The tasks for single packets: \<open>CXTaskPrepareMessage\<close> and \<open>CXTaskParseMessage\<close>
  (src/CXCommunicationServer/src/CXTaskPrepareMessage.cpp and CXTaskParseMessage.cpp), which encode what \<open>SendPacket\<close> left to
  the pool of tasks and decode what \<open>RecvPacket\<close> left to it.  Any thread of the pool takes any waiting task, between the
  calls of the senders and the events of the socket.
\<close>

section \<open>Preparing a packet\<close>

record prepare_task =
  ptCon :: "addr option"
  ptBuf :: "buffer_obj option"
  ptMes :: "message option"

definition prepare_task_reset :: prepare_task where
  "prepare_task_reset = \<lparr>ptCon = None, ptBuf = None, ptMes = None\<rparr>"

definition prepare_task_info :: "addr option \<Rightarrow> message option \<Rightarrow> buffer_obj option \<Rightarrow> prepare_task \<Rightarrow> prepare_task" where
  "prepare_task_info oa om ob t = t\<lparr>ptCon := oa, ptBuf := ob, ptMes := om\<rparr>"

text \<open>What \<open>CallbackTaskProcess\<close> does with the message that a packet answers: it goes back to the queue as one that has ended.\<close>

definition message_prepared :: "addr \<Rightarrow> int \<Rightarrow> message \<Rightarrow> ('a, 'z) back_world_scheme \<Rightarrow> ('a, 'z) back_world_scheme" where
  "message_prepared a r m w = bw_on_con a (push_received_message False (m\<lparr>mesProcessedRet := r, mesType := 2\<rparr>)) w"

text \<open>
  A packet that could not be prepared or sent and that answers no message: the object that asked is told, whether it goes by
  the identifier of the packet or, on a connection to another server, still waits under the request.
\<close>

definition request_not_sent ::
  "(u32 \<Rightarrow> addr \<Rightarrow> message \<Rightarrow> addr \<Rightarrow> rpc_reply \<Rightarrow> ('a, 'z) back_world_scheme \<Rightarrow> (int \<times> ('a, 'z) back_world_scheme) res)
     \<Rightarrow> back_env \<Rightarrow> addr \<Rightarrow> string \<Rightarrow> string \<Rightarrow> ('a, 'z) back_world_scheme \<Rightarrow> (int \<times> ('a, 'z) back_world_scheme) res" where
  "request_not_sent step env a req obj w =
     (let t = ''Failed to send request data to the remote object '' @ obj in
      case conSession (bw_con a w) of
        None \<Rightarrow> Inr (CXRET_NOT_FOUND_REQUESTED_OBJ, w)
      | Some sa \<Rightarrow>
          (case find_session_object obj (smSessions (svSes (bwServer w)) sa) of
             Some k \<Rightarrow> bind_res (ic_on_error step env req t k w) (\<lambda>(_, w). Inr (CXRET_SEND_DATA_FAILED, w))
           | None \<Rightarrow>
               if \<not> conProxy (bw_con a w) then Inr (CXRET_NOT_FOUND_REQUESTED_OBJ, w)
               else (case pop_rpc_obj req (bw_con a w) of
                       (None, _) \<Rightarrow> Inr (CXRET_NOT_FOUND_REQUESTED_OBJ, w)
                     | (Some k, c) \<Rightarrow> ic_on_error step env req t k (bw_on_con a (\<lambda>_. c) w))))"

text \<open>\<open>ProcessTask\<close>.\<close>

definition prepare_task_process ::
  "(u32 \<Rightarrow> addr \<Rightarrow> message \<Rightarrow> addr \<Rightarrow> rpc_reply \<Rightarrow> ('a, 'z) back_world_scheme \<Rightarrow> (int \<times> ('a, 'z) back_world_scheme) res)
     \<Rightarrow> back_env \<Rightarrow> prepare_task \<Rightarrow> ('a, 'z) back_world_scheme \<Rightarrow> (int \<times> ('a, 'z) back_world_scheme) res" where
  "prepare_task_process step env t w =
     (case (ptBuf t, ptCon t) of
        (Some b, Some a) \<Rightarrow>
          let body = body_of (drop sizeof_header (bufData b));
              req = guid_string (envUnparse (beRpc env)) (byRequestID body);
              obj = guid_string (envUnparse (beRpc env)) (byObjectGuid body)
          in bind_res (prepare_and_send_packet (beSend env) b (bw_con a w) (bwSocks w a)) (\<lambda>(ok, c, s).
               let w = bw_set_con a c s w; r = (if ok then 0 else CXRET_SEND_DATA_FAILED)
               in case ptMes t of
                    Some m \<Rightarrow> Inr (r, message_prepared a r m w)
                  | None \<Rightarrow> if ok then Inr (r, w) else request_not_sent step env a req obj w)
      | _ \<Rightarrow> Inl NullDeref)"

section \<open>Parsing a packet\<close>

record parse_task =
  paMes :: "message option"
  paHeader :: packet_header

definition parse_task_reset :: parse_task where
  "parse_task_reset = \<lparr>paMes = None, paHeader = header_of (replicate sizeof_header 0)\<rparr>"

definition parse_task_info :: "message option \<Rightarrow> packet_header \<Rightarrow> parse_task \<Rightarrow> parse_task" where
  "parse_task_info om h t = t\<lparr>paMes := om, paHeader := h\<rparr>"

text \<open>\<open>ProcessTask\<close>: the message, which \<open>ParseMessage\<close> has freed, is not touched again; the connection is closed.\<close>

definition parse_task_process :: "recv_env \<Rightarrow> mes_env \<Rightarrow> parse_task \<Rightarrow> world \<Rightarrow> (int \<times> world) res" where
  "parse_task_process renv env t w =
     (case paMes t of
        None \<Rightarrow> Inl NullDeref
      | Some m \<Rightarrow> bind_res (parse_message renv m (paHeader t) (wCon w)) (\<lambda>(ok, c).
          let w = w\<lparr>wCon := c\<rparr>
          in if ok then Inr (0, w) else Inr (- 2, callback_task env (- 2) 1 (Some m) [] w)))"

section \<open>A connection whose packets are encoded by tasks\<close>

text \<open>
  What happens to it: a call of \<open>SendPacket\<close>, a task that the pool takes (it may be any of those that wait), and a socket that
  is writable again.  The run ends when something fails.
\<close>

datatype line_op = Call "byte list" u32 "message option" | RunTask nat | Ready

definition take_task :: "nat \<Rightarrow> 'b list \<Rightarrow> 'b list" where
  "take_task i ts = take i ts @ drop (Suc i) ts"

definition run_task ::
  "(u32 \<Rightarrow> addr \<Rightarrow> message \<Rightarrow> addr \<Rightarrow> rpc_reply \<Rightarrow> ('a, 'z) back_world_scheme \<Rightarrow> (int \<times> ('a, 'z) back_world_scheme) res)
     \<Rightarrow> back_env \<Rightarrow> addr \<Rightarrow> nat \<Rightarrow> ('a, 'z) back_world_scheme \<Rightarrow> (bool \<times> ('a, 'z) back_world_scheme) res" where
  "run_task step env a i w =
     (let ts = conPrepTasks (bw_con a w) in
      if length ts \<le> i then Inr (True, w)
      else case ts ! i of (om, b) \<Rightarrow>
        bind_res (prepare_task_process step env (prepare_task_info (Some a) om (Some b) prepare_task_reset)
                    (bw_on_con a (\<lambda>c. c\<lparr>conPrepTasks := take_task i ts\<rparr>) w)) (\<lambda>(r, w). Inr (r = 0, w)))"

text \<open>\<open>ProcessEpollEvent\<close> for a socket that is writable.\<close>

definition socket_ready :: "back_env \<Rightarrow> addr \<Rightarrow> ('a, 'z) back_world_scheme \<Rightarrow> (int \<times> ('a, 'z) back_world_scheme) res" where
  "socket_ready env a w =
     (if \<not> senWaitWriting (beSend env) then Inr (- 4, w)
      else bind_res (send_data_list (beSend env) (bw_con a w) (bwSocks w a)) (\<lambda>(r, c, s).
        Inr (if r = - 4 then - 5 else 0, bw_set_con a c s w)))"

fun line_step ::
  "(u32 \<Rightarrow> addr \<Rightarrow> message \<Rightarrow> addr \<Rightarrow> rpc_reply \<Rightarrow> ('a, 'z) back_world_scheme \<Rightarrow> (int \<times> ('a, 'z) back_world_scheme) res)
     \<Rightarrow> back_env \<Rightarrow> addr \<Rightarrow> line_op \<Rightarrow> ('a, 'z) back_world_scheme \<Rightarrow> (bool \<times> ('a, 'z) back_world_scheme) res" where
  "line_step step env a (Call bs code om) w = bw_send env a bs code om w"
| "line_step step env a (RunTask i) w = run_task step env a i w"
| "line_step step env a Ready w = bind_res (socket_ready env a w) (\<lambda>(r, w). Inr (r = 0, w))"

fun line_run ::
  "(u32 \<Rightarrow> addr \<Rightarrow> message \<Rightarrow> addr \<Rightarrow> rpc_reply \<Rightarrow> ('a, 'z) back_world_scheme \<Rightarrow> (int \<times> ('a, 'z) back_world_scheme) res)
     \<Rightarrow> back_env \<Rightarrow> addr \<Rightarrow> line_op list \<Rightarrow> ('a, 'z) back_world_scheme \<Rightarrow> (bool \<times> ('a, 'z) back_world_scheme) res" where
  "line_run step env a [] w = Inr (True, w)"
| "line_run step env a (x # xs) w = bind_res (line_step step env a x w) (\<lambda>(ok, w).
     if ok then line_run step env a xs w else Inr (False, w))"

fun line_calls :: "line_op list \<Rightarrow> (byte list \<times> u32 \<times> message option) list" where
  "line_calls [] = []"
| "line_calls (Call bs code om # xs) = (bs, code, om) # line_calls xs"
| "line_calls (_ # xs) = line_calls xs"

text \<open>How many tasks wait after a run, of \<open>n\<close> before it.\<close>

fun tasks_left :: "nat \<Rightarrow> line_op list \<Rightarrow> nat" where
  "tasks_left n [] = n"
| "tasks_left n (Call bs code om # xs) = tasks_left (Suc n) xs"
| "tasks_left n (RunTask i # xs) = tasks_left (if i < n then n - 1 else n) xs"
| "tasks_left n (Ready # xs) = tasks_left n xs"

text \<open>The bodies of the packets, in the order of the calls.\<close>

fun call_bodies :: "connection \<Rightarrow> (byte list \<times> u32 \<times> message option) list \<Rightarrow> byte list list" where
  "call_bodies c [] = []"
| "call_bodies c ((bs, code, om) # ms) =
     (packet_body_head code om c @ bs) # call_bodies (c\<lparr>conSendBufferIndex := conSendBufferIndex c + 1\<rparr>) ms"

section \<open>One call\<close>

text \<open>What the connection keeps while its packets are encoded.\<close>

definition coding_line :: "send_env \<Rightarrow> byte \<Rightarrow> byte \<Rightarrow> connection \<Rightarrow> bool" where
  "coding_line env e z c \<longleftrightarrow> sender_ready env c \<and> senPrepTask env \<and> conServer c \<and> conParser c \<and> conTaskPool c \<and>
     conAsyncPrepare c \<and> conEncrypt c = e \<and> conCompress c = z \<and> (e \<noteq> 0 \<or> z \<noteq> 0) \<and>
     length (conObjectID c) = CX_GUID_LEN \<and> length (conRequestID c) = CX_GUID_LEN"

text \<open>What a call needs: memory, and a message that is a whole one.\<close>

definition call_ok :: "send_env \<Rightarrow> byte list \<times> u32 \<times> message option \<Rightarrow> bool" where
  "call_ok env x \<longleftrightarrow> (case x of (bs, code, om) \<Rightarrow>
     send_alloc_ok env bs \<and> (case om of None \<Rightarrow> True | Some m \<Rightarrow> 2 * CX_GUID_LEN \<le> length (mesBody m)))"

lemma call_head:
  "coding_line env e z c \<Longrightarrow> call_ok env (bs, code, om) \<Longrightarrow> length (packet_body_head code om c) = 40"
  by (cases om) (auto simp: coding_line_def call_ok_def sizes intro!: length_body_head)

definition called :: "connection \<Rightarrow> message option \<Rightarrow> buffer_obj \<Rightarrow> connection" where
  "called c om b = c\<lparr>conNextAddr := Suc (conNextAddr c), conLive := conNextAddr c # conLive c,
     conSendBufferIndex := conSendBufferIndex c + 1, conCurSendSeq := conCurSendSeq c + 1, conAsyncMes := True,
     conPrepTasks := conPrepTasks c @ [(om, b)]\<rparr>"

lemma send_packet_coded:
  assumes "coding_line env e z c" and "call_ok env (bs, code, om)"
  shows "\<exists>b. send_packet env bs code om c s = Inr (True, called c om b, s) \<and> bufAddr b = conNextAddr c \<and>
    bufSeq b = conCurSendSeq c \<and> bufLen b = sizeof_header + length (buffer_body b) \<and>
    buffer_body b = packet_body_head code om c @ bs"
proof -
  let ?n = "length bs"
  have n: "?n \<le> 1048576" "bs \<noteq> []"
    using assms(2) by (auto simp: call_ok_def send_alloc_ok_def sizes CX_MAX_CHACHE_SIZE_def)
  obtain cap where cap: "senAlloc env (?n + 112) = Some cap" "?n + 112 \<le> cap"
    using assms(2) by (auto simp: call_ok_def send_alloc_ok_def sizes buffer_head_def add.commute [of 112] split: option.splits)
  let ?c = "c\<lparr>conNextAddr := Suc (conNextAddr c), conLive := conNextAddr c # conLive c\<rparr>"
  define m where "m = cap - 52"
  have m: "?n + 56 \<le> m" using cap(2) by (simp add: m_def)
  let ?b0 = "\<lparr>bufAddr = conNextAddr c, bufSeq = 0, bufData = replicate m 0, bufCur = 0, bufLen = CX_BUF_SIZE\<rparr> :: buffer_obj"
  have get: "get_buffer_obj env (word_of_nat ?n + word_of_nat sizeof_packet_data - 1 + word_of_nat buffer_head) c = Some (?b0, ?c)"
    using u32_sums(1) [OF n(1)] cap(1)
    by (simp add: get_buffer_obj_def sizes buffer_head_def m_def new_message_addr_def)
  let ?b1 = "?b0\<lparr>bufData := memcpy (replicate m 0) 56 bs\<rparr>"
  have w1: "write_buffer (sizeof_packet_data - 1) bs ?b0 = Inr ?b1" using m by (simp add: write_buffer_def sizes)
  let ?head = "packet_body_head code om c"
  have hdeq: "packet_body_head code om ?c = ?head" by (simp add: packet_body_head_def split: option.split)
  have head: "length ?head = 40" by (rule call_head [OF assms])
  have l1: "length (memcpy (replicate m 0) 56 bs) = m" using m by simp
  let ?b2 = "?b0\<lparr>bufData := memcpy (memcpy (replicate m 0) 56 bs) 16 ?head\<rparr>"
  have w2: "write_buffer sizeof_header (packet_body_head code om ?c) ?b1 = Inr ?b2"
    using m l1 head unfolding hdeq by (simp add: write_buffer_def sizes)
  let ?b3 = "?b2\<lparr>bufSeq := conCurSendSeq c, bufLen := ?n + 56\<rparr>"
  have body: "buffer_body ?b3 = ?head @ bs"
    using m head by (simp add: buffer_body_def sizes memcpy_def)
  have line: "conServer ?c" "conParser ?c" "conTaskPool ?c" "conAsyncPrepare ?c" "conEncrypt ?c \<noteq> 0 \<or> conCompress ?c \<noteq> 0"
      "senPrepTask env" "conServer c"
    using assms(1) by (auto simp: coding_line_def)
  have "send_packet env bs code om c s = send_packet_buffer env ?b1 ?n code om ?c s"
    using n(2) line(7) unfolding send_packet_def get by (simp add: w1 del: One_nat_def)
  also have "?n + sizeof_packet_data - 1 = ?n + 56" by (simp add: sizes)
  then have "send_packet_buffer env ?b1 ?n code om ?c s = Inr (True, called c om ?b3, s)"
    using n(2) line(1-6) unfolding send_packet_buffer_def w2 by (simp add: Let_def called_def del: One_nat_def)
  finally show ?thesis using body head by (intro exI [of _ ?b3]) (simp add: sizes)
qed

section \<open>The packets on their way\<close>

text \<open>A packet, by its body and what was prepared from it; and what preparing and posting it needs.\<close>

definition code_packet :: "byte \<Rightarrow> byte \<Rightarrow> byte list \<times> byte list \<Rightarrow> packet_header \<times> byte list" where
  "code_packet e z x = (case x of (body, out) \<Rightarrow> coded_packet e z (length body) out)"

definition prepares :: "send_env \<Rightarrow> byte \<Rightarrow> byte \<Rightarrow> byte list \<times> byte list \<Rightarrow> bool" where
  "prepares env e z x \<longleftrightarrow> (case x of (body, out) \<Rightarrow>
     let n = length body; m = cache_size n; k = unat (prepare_buffer_len (word_of_nat n))
     in 0 < n \<and> n \<le> CX_MAX_CHACHE_SIZE \<and> senPrepare env e z body m m = Some out \<and> length out \<le> m \<and>
        sizeof_header + length out \<le> CX_MAX_CHACHE_SIZE \<and> (senThreadCache env (int m) \<or> senAlloc env m \<noteq> None) \<and>
        (case senAlloc env k of None \<Rightarrow> False | Some cap \<Rightarrow> k \<le> cap))"

text \<open>The buffer of a packet before its task has run, and the one that the task posts.\<close>

definition waiting_packet :: "(byte list \<times> byte list) list \<Rightarrow> buffer_obj \<Rightarrow> bool" where
  "waiting_packet xs b \<longleftrightarrow> bufLen b = sizeof_header + length (buffer_body b) \<and>
     (\<exists>i<length xs. bufSeq b = word_of_nat (Suc i) \<and> buffer_body b = fst (xs ! i))"

definition posted_packet :: "byte \<Rightarrow> byte \<Rightarrow> (byte list \<times> byte list) list \<Rightarrow> buffer_obj \<Rightarrow> bool" where
  "posted_packet e z xs b \<longleftrightarrow> buffer_wf b \<and> 0 < bufLen b \<and>
     (\<exists>i<length xs. bufSeq b = word_of_nat (Suc i) \<and> buffer_left b = wire (code_packet e z (xs ! i)))"

definition numbers :: "nat \<Rightarrow> u64 multiset" where
  "numbers k = mset (map (\<lambda>i. word_of_nat (Suc i)) [0..<k])"

text \<open>
  \<open>coding_at env e z xs out0 k arr c s\<close>: of the packets \<open>xs\<close> the first \<open>k\<close> have been asked for; each of them is either posted,
  among the buffers \<open>arr\<close>, or waits for its task.
\<close>

definition coding_at ::
  "send_env \<Rightarrow> byte \<Rightarrow> byte \<Rightarrow> (byte list \<times> byte list) list \<Rightarrow> byte list \<Rightarrow> nat \<Rightarrow> buffer_obj list \<Rightarrow> connection \<Rightarrow> sock \<Rightarrow> bool" where
  "coding_at env e z xs out0 k arr c s \<longleftrightarrow> coding_line env e z c \<and> k \<le> length xs \<and> length xs < 2 ^ 64 - 1 \<and>
     conCurSendSeq c = word_of_nat (Suc k) \<and> sending arr out0 (mset (map (bufAddr \<circ> snd) (conPrepTasks c))) c s \<and>
     ordered bufSeq arr \<and> mset (map bufSeq arr) + mset (map (bufSeq \<circ> snd) (conPrepTasks c)) = numbers k \<and>
     (\<forall>b\<in>set arr. posted_packet e z xs b) \<and> (\<forall>t\<in>set (conPrepTasks c). waiting_packet xs (snd t))"

text \<open>The fields that the bodies of the packets to come depend on.\<close>

definition same_heads :: "connection \<Rightarrow> connection \<Rightarrow> bool" where
  "same_heads c c' \<longleftrightarrow> conObjectID c' = conObjectID c \<and> conRequestID c' = conRequestID c \<and>
     conSendBufferIndex c' = conSendBufferIndex c"

lemma call_bodies_cong: "same_heads c c' \<Longrightarrow> call_bodies c' ms = call_bodies c ms"
proof (induction ms arbitrary: c c')
  case (Cons m ms)
  then have "same_heads (c\<lparr>conSendBufferIndex := conSendBufferIndex c + 1\<rparr>) (c'\<lparr>conSendBufferIndex := conSendBufferIndex c' + 1\<rparr>)"
    by (simp add: same_heads_def)
  then show ?case
    using Cons by (cases m) (simp add: same_heads_def packet_body_head_def split: option.split)
qed simp

lemma numbers_Suc: "numbers (Suc k) = add_mset (word_of_nat (Suc k)) (numbers k)"
  by (simp add: numbers_def)

lemma number_inj: "(word_of_nat (Suc i) :: u64) = word_of_nat (Suc j) \<Longrightarrow> i < 2 ^ 64 - 1 \<Longrightarrow> j < 2 ^ 64 - 1 \<Longrightarrow> i = j"
  by (drule arg_cong [where f = unat]) (simp add: unat_of_nat del: of_nat_Suc)

lemma count_numbers: "k < 2 ^ 64 \<Longrightarrow> count (numbers k) x \<le> 1"
proof -
  assume "k < 2 ^ 64"
  then have "inj_on (\<lambda>i. word_of_nat (Suc i) :: u64) {..<k}" by (intro inj_onI number_inj) auto
  then have "distinct (map (\<lambda>i. word_of_nat (Suc i) :: u64) [0..<k])" by (simp add: distinct_map lessThan_atLeast0)
  then show ?thesis unfolding numbers_def by (simp add: distinct_count_atmost_1 del: of_nat_Suc)
qed

lemma size_numbers [simp]: "size (numbers k) = k"
  by (simp add: numbers_def)

lemma mset_take_task:
  "i < length ts \<Longrightarrow> mset (map f ts) = add_mset (f (ts ! i)) (mset (map f (take_task i ts)))"
  by (subst id_take_nth_drop [of i ts]) (simp_all add: take_task_def)

lemma length_take_task: "i < length ts \<Longrightarrow> length (take_task i ts) = length ts - 1"
  by (simp add: take_task_def)

lemma set_take_task: "set (take_task i ts) \<subseteq> set ts"
  unfolding take_task_def using set_take_subset [of i ts] set_drop_subset [of "Suc i" ts] by auto

lemma send_frame_line:
  "send_frame c c' \<Longrightarrow> coding_line env e z c' = coding_line env e z c \<and> same_heads c c' \<and> conPrepTasks c' = conPrepTasks c \<and>
     conCurSendSeq c' = conCurSendSeq c"
  by (auto simp: send_frame_def coding_line_def same_heads_def sender_ready_def)

text \<open>A call.\<close>

lemma coding_call:
  assumes "coding_at env e z xs out0 k arr c s" and "k < length xs" and "call_ok env (bs, code, om)"
    and "packet_body_head code om c @ bs = fst (xs ! k)"
  shows "\<exists>c'. send_packet env bs code om c s = Inr (True, c', s) \<and> coding_at env e z xs out0 (Suc k) arr c' s \<and>
    same_heads (c\<lparr>conSendBufferIndex := conSendBufferIndex c + 1\<rparr>) c' \<and> length (conPrepTasks c') = Suc (length (conPrepTasks c))"
proof -
  have line: "coding_line env e z c" and inv: "length xs < 2 ^ 64 - 1" "conCurSendSeq c = word_of_nat (Suc k)"
      "sending arr out0 (mset (map (bufAddr \<circ> snd) (conPrepTasks c))) c s" "ordered bufSeq arr"
      "mset (map bufSeq arr) + mset (map (bufSeq \<circ> snd) (conPrepTasks c)) = numbers k"
      "\<forall>b\<in>set arr. posted_packet e z xs b" "\<forall>t\<in>set (conPrepTasks c). waiting_packet xs (snd t)"
    using assms(1) by (simp_all add: coding_at_def)
  obtain b where b: "send_packet env bs code om c s = Inr (True, called c om b, s)" "bufAddr b = conNextAddr c"
      "bufSeq b = conCurSendSeq c" "bufLen b = sizeof_header + length (buffer_body b)"
      "buffer_body b = packet_body_head code om c @ bs"
    using send_packet_coded [OF line assms(3)] by blast
  have "waiting_packet xs b" unfolding waiting_packet_def using b(3-5) inv(2) assms(2,4) by metis
  moreover have "coding_line env e z (called c om b)" using line by (simp add: coding_line_def called_def sender_ready_def)
  moreover have "sending arr out0 (mset (map (bufAddr \<circ> snd) (conPrepTasks (called c om b)))) (called c om b) s"
    using inv(3) b(2) by (simp add: sending_def called_def)
  ultimately have "coding_at env e z xs out0 (Suc k) arr (called c om b) s"
    using inv assms(2) b(3) by (simp add: coding_at_def called_def numbers_Suc)
  then show ?thesis using b(1) by (auto simp: same_heads_def called_def)
qed

text \<open>A socket that is writable.\<close>

lemma coding_ready:
  assumes "coding_at env e z xs out0 k arr c s"
  shows "\<exists>c' s'. send_data_list env c s = Inr (0, c', s') \<and> coding_at env e z xs out0 k arr c' s' \<and> same_heads c c' \<and>
    conPrepTasks c' = conPrepTasks c"
proof -
  have "sending arr out0 (mset (map (bufAddr \<circ> snd) (conPrepTasks c))) c s" "\<forall>b\<in>set arr. buffer_wf b" "coding_line env e z c"
    using assms by (simp_all add: coding_at_def posted_packet_def)
  then obtain c' s' where r: "send_data_list env c s = Inr (0, c', s')"
      "sending arr out0 (mset (map (bufAddr \<circ> snd) (conPrepTasks c))) c' s'" "send_frame c c'"
    using send_data_loop_spec [OF _ _ order_refl, of arr out0 _ c s env]
    unfolding send_data_list_def coding_line_def sender_ready_def by blast
  then show ?thesis using send_frame_line [OF r(3)] assms by (auto simp: coding_at_def)
qed

text \<open>A task.\<close>

lemma live_swapped:
  assumes "X + add_mset a F \<subseteq># mset xs"
  shows "X + add_mset n F \<subseteq># mset (remove1 a (n # xs))" "a \<in> set xs"
proof -
  obtain C where C: "mset xs = X + add_mset a F + C" using assms by (auto simp: subset_mset.le_iff_add)
  then have "mset (remove1 a (n # xs)) = X + add_mset n F + C" by simp
  then show "X + add_mset n F \<subseteq># mset (remove1 a (n # xs))" by simp
  show "a \<in> set xs" using C by (metis add_mset_add_single union_iff union_single_eq_member set_mset_mset)
qed

lemma fresh_posted:
  assumes "mset (map bufSeq arr) + add_mset (bufSeq b) M = numbers k" and "k < 2 ^ 64"
  shows "bufSeq b \<notin> bufSeq ` set arr" "length arr \<le> k"
proof -
  have "count (mset (map bufSeq arr)) (bufSeq b) = 0"
    using count_numbers [OF assms(2), of "bufSeq b"] unfolding assms(1) [symmetric] by simp
  then show "bufSeq b \<notin> bufSeq ` set arr" by (simp add: count_eq_zero_iff)
  show "length arr \<le> k" using arg_cong [OF assms(1), of size] by simp
qed

lemma coding_task:
  assumes "coding_at env e z xs out0 k arr c s" and "i < length (conPrepTasks c)" and "conPrepTasks c ! i = (om, b)"
    and "\<forall>x\<in>set xs. prepares env e z x"
  shows "\<exists>c' s' arr'. prepare_and_send_packet env b (c\<lparr>conPrepTasks := take_task i (conPrepTasks c)\<rparr>) s = Inr (True, c', s') \<and>
    coding_at env e z xs out0 k arr' c' s' \<and> same_heads c c' \<and> conPrepTasks c' = take_task i (conPrepTasks c)"
proof -
  let ?ts = "take_task i (conPrepTasks c)"
  let ?c = "c\<lparr>conPrepTasks := ?ts\<rparr>"
  define F where "F = mset (map (bufAddr \<circ> snd) ?ts)"
  have line: "coding_line env e z c" and inv: "k \<le> length xs" "length xs < 2 ^ 64 - 1"
      "sending arr out0 (mset (map (bufAddr \<circ> snd) (conPrepTasks c))) c s" "ordered bufSeq arr"
      "mset (map bufSeq arr) + mset (map (bufSeq \<circ> snd) (conPrepTasks c)) = numbers k"
      "\<forall>b\<in>set arr. posted_packet e z xs b" "\<forall>t\<in>set (conPrepTasks c). waiting_packet xs (snd t)"
    using assms(1) by (simp_all add: coding_at_def)
  have cc: "conEncrypt ?c = e" "conCompress ?c = z" using line by (simp_all add: coding_line_def)
  have split: "mset (map (bufAddr \<circ> snd) (conPrepTasks c)) = add_mset (bufAddr b) F"
      "mset (map (bufSeq \<circ> snd) (conPrepTasks c)) = add_mset (bufSeq b) (mset (map (bufSeq \<circ> snd) ?ts))"
    using mset_take_task [OF assms(2), of "bufAddr \<circ> snd"] mset_take_task [OF assms(2), of "bufSeq \<circ> snd"] assms(3)
    by (simp_all add: F_def)
  have "waiting_packet xs b" using inv(7) assms(2,3) by (metis nth_mem snd_conv)
  then obtain j where j: "j < length xs" "bufSeq b = word_of_nat (Suc j)" "buffer_body b = fst (xs ! j)"
      "bufLen b = sizeof_header + length (buffer_body b)"
    by (auto simp: waiting_packet_def)
  obtain body out where x: "xs ! j = (body, out)" by fastforce
  have pr: "prepares env e z (body, out)" using assms(4) j(1) x by (metis nth_mem)
  have body: "buffer_body b = body" using j(3) x by simp
  have live: "mset (map bufAddr (conSendBuf c)) + add_mset (bufAddr b) F \<subseteq># mset (conLive c)"
    using inv(3) split(1) by (simp add: sending_def)
  have can: "can_prepare env b ?c"
    using pr j(4) live_swapped(2) [OF live] by (simp add: can_prepare_def prepares_def body Let_def)
  have out: "senPrepare env e z (buffer_body b) (cache_size (length (buffer_body b))) (cache_size (length (buffer_body b))) = Some out"
      "length out \<le> cache_size (length (buffer_body b))" "sizeof_header + length out \<le> CX_MAX_CHACHE_SIZE"
    using pr by (simp_all add: prepares_def body Let_def)
  let ?c2 = "?c\<lparr>conNextAddr := Suc (conNextAddr c), conLive := remove1 (bufAddr b) (conNextAddr c # conLive c)\<rparr>"
  obtain b' where b': "prepare_and_send_packet env b ?c s = bind_res (post_send env b' ?c2 s) (\<lambda>(r, c, s). Inr (r = 0, c, s))"
      "buffer_wf b'" "bufSeq b' = bufSeq b" "buffer_left b' = wire (coded_packet e z (length (buffer_body b)) out)"
      "bufAddr b' = conNextAddr c" "bufLen b' = length out + sizeof_header"
    using prepared_and_posted [OF can cc out(1,2), of s] by auto
  have post: "posted_packet e z xs b'"
    unfolding posted_packet_def using b'(2-4,6) j(1,2) x body
    by (auto simp: code_packet_def sizes intro!: exI [of _ j])
  have s2: "sending arr out0 (add_mset (bufAddr b') F) ?c2 s"
    using inv(3) live_swapped(1) [OF live, of "conNextAddr c"] unfolding sending_def b'(5) by simp
  have "k < 2 ^ 64" using inv(1,2) by simp
  note fresh = fresh_posted [OF inv(5) [unfolded split(2)] this]
  have new: "bufSeq b' \<notin> bufSeq ` set arr" "bufSeq b' \<noteq> 0" "length arr < 2 ^ 64 - 1"
    using fresh inv(1,2) word_of_nat_less_64 [of 0 "Suc j"] j(1,2) b'(3) by (auto simp del: of_nat_Suc)
  let ?arr = "insert_by bufSeq b' arr"
  obtain c3 where c3: "push_send_buffer (Some b') ?c2 = Inr (True, c3)" "sending ?arr out0 F c3 s" "send_frame ?c2 c3"
    using sending_post [OF s2 inv(4) new(3,1,2) refl] by blast
  have seqs: "mset (map bufSeq ?arr) = add_mset (bufSeq b) (mset (map bufSeq arr))"
    using b'(3) by (metis mset_insert_by mset_map image_mset_add_mset)
  have nums: "mset (map bufSeq ?arr) + mset (map (bufSeq \<circ> snd) ?ts) = numbers k"
    using inv(5) unfolding split(2) seqs by simp
  have "ordered bufSeq ?arr" by (rule ordered_insert_by [OF inv(4) new(1)])
  moreover have "\<forall>b\<in>set ?arr. posted_packet e z xs b"
    using inv(6) post by (metis insert_iff mset_insert_by set_mset_add_mset_insert set_mset_mset)
  moreover have l2: "coding_line env e z ?c2" "same_heads c ?c2" "conCurSendSeq ?c2 = conCurSendSeq c"
    using line by (simp_all add: coding_line_def sender_ready_def same_heads_def)
  moreover have "\<forall>t\<in>set ?ts. waiting_packet xs (snd t)" using inv(7) set_take_task [of i "conPrepTasks c"] by fast
  moreover note f3 = send_frame_line [OF c3(3), of env e z]
  ultimately have at: "coding_at env e z xs out0 k ?arr c3 s"
    using c3(2) assms(1) nums F_def by (simp add: coding_at_def)
  have "conState c3 = ESTABLISHED" "conState ?c2 = ESTABLISHED" "senKernel env"
    using at line by (simp_all add: coding_at_def coding_line_def sender_ready_def)
  then have "post_send env b' ?c2 s = send_data_list env c3 s"
    using c3(1) b'(6) out(3) by (simp add: post_send_def sizes)
  then show ?thesis
    using coding_ready [OF at] b'(1) f3 l2(2) by (fastforce simp: same_heads_def)
qed

section \<open>Any run\<close>

lemma coding_at_received: "coding_at env e z xs out0 k arr (push_received_message False m c) s = coding_at env e z xs out0 k arr c s"
  by (simp add: push_received_message_def coding_at_def coding_line_def sender_ready_def sending_def)

lemma same_heads_trans: "same_heads c c' \<Longrightarrow> same_heads c' c'' \<Longrightarrow> same_heads c c''"
  by (simp add: same_heads_def)

lemma tasks_received: "conPrepTasks (push_received_message False m c) = conPrepTasks c"
  by (simp add: push_received_message_def)

lemma same_heads_received: "same_heads c (push_received_message False m c)"
  by (simp add: push_received_message_def same_heads_def)

lemma run_task_spec:
  assumes "coding_at (beSend env) e z xs out0 k arr (bw_con a w) (bwSocks w a)" and "\<forall>x\<in>set xs. prepares (beSend env) e z x"
  shows "\<exists>w' arr'. run_task step env a i w = Inr (True, w') \<and> same_heads (bw_con a w) (bw_con a w') \<and>
    coding_at (beSend env) e z xs out0 k arr' (bw_con a w') (bwSocks w' a) \<and>
    (let n = length (conPrepTasks (bw_con a w)) in length (conPrepTasks (bw_con a w')) = (if i < n then n - 1 else n))"
proof (cases "length (conPrepTasks (bw_con a w)) \<le> i")
  case True
  then show ?thesis using assms(1) by (auto simp: run_task_def same_heads_def)
next
  case False
  obtain om b where t: "conPrepTasks (bw_con a w) ! i = (om, b)" by fastforce
  let ?w = "bw_on_con a (\<lambda>c. c\<lparr>conPrepTasks := take_task i (conPrepTasks (bw_con a w))\<rparr>) w"
  obtain c' s' arr' where r: "prepare_and_send_packet (beSend env) b (bw_con a ?w) (bwSocks ?w a) = Inr (True, c', s')"
      "coding_at (beSend env) e z xs out0 k arr' c' s'" "same_heads (bw_con a w) c'"
      "length (conPrepTasks c') = length (conPrepTasks (bw_con a w)) - 1"
    using coding_task [OF assms(1) _ t assms(2)] False length_take_task [of i "conPrepTasks (bw_con a w)"] by auto
  have "run_task step env a i w = Inr (True, case om of Some m \<Rightarrow> message_prepared a 0 m (bw_set_con a c' s' ?w) | None \<Rightarrow> bw_set_con a c' s' ?w)"
    using False t r(1) unfolding run_task_def Let_def
    by (cases om) (simp_all add: prepare_task_process_def prepare_task_info_def Let_def)
  then show ?thesis
    using r(2-4) same_heads_trans [OF r(3) same_heads_received] False
    by (cases om) (auto simp: message_prepared_def coding_at_received tasks_received)
qed

lemma line_run_spec:
  assumes "coding_at (beSend env) e z xs out0 k arr (bw_con a w) (bwSocks w a)" and "\<forall>x\<in>set xs. prepares (beSend env) e z x"
    and "\<forall>x\<in>set (line_calls ops). call_ok (beSend env) x" and "call_bodies (bw_con a w) (line_calls ops) = map fst (drop k xs)"
  shows "\<exists>w' arr'. line_run step env a ops w = Inr (True, w') \<and>
    coding_at (beSend env) e z xs out0 (length xs) arr' (bw_con a w') (bwSocks w' a) \<and>
    length (conPrepTasks (bw_con a w')) = tasks_left (length (conPrepTasks (bw_con a w))) ops"
  using assms(1,3,4)
proof (induction ops arbitrary: k arr w)
  case Nil
  then have "length xs \<le> k" "k \<le> length xs" by (simp_all add: coding_at_def)
  then show ?case using Nil(1) by auto
next
  case (Cons op ops)
  show ?case
  proof (cases op)
    case (Call bs code om)
    have "drop k xs \<noteq> []" using Cons.prems(3) Call by auto
    then have k: "k < length xs" by simp
    have heads: "packet_body_head code om (bw_con a w) @ bs = fst (xs ! k)"
      "call_bodies ((bw_con a w)\<lparr>conSendBufferIndex := conSendBufferIndex (bw_con a w) + 1\<rparr>) (line_calls ops) = map fst (drop (Suc k) xs)"
      using Cons.prems(3) Call by (simp_all add: Cons_nth_drop_Suc [OF k, symmetric])
    obtain c' where c': "send_packet (beSend env) bs code om (bw_con a w) (bwSocks w a) = Inr (True, c', bwSocks w a)"
        "coding_at (beSend env) e z xs out0 (Suc k) arr c' (bwSocks w a)"
        "same_heads ((bw_con a w)\<lparr>conSendBufferIndex := conSendBufferIndex (bw_con a w) + 1\<rparr>) c'"
        "length (conPrepTasks c') = Suc (length (conPrepTasks (bw_con a w)))"
      using coding_call [OF Cons.prems(1) k _ heads(1)] Cons.prems(2) Call by auto
    let ?w = "bw_set_con a c' (bwSocks w a) w"
    have "call_bodies (bw_con a ?w) (line_calls ops) = map fst (drop (Suc k) xs)"
      using call_bodies_cong [OF c'(3)] heads(2) by simp
    then show ?thesis using Cons.IH [of "Suc k" arr ?w] c'(1,2,4) Cons.prems(2) Call by (simp add: bw_send_def)
  next
    case (RunTask i)
    obtain w' arr' where r: "run_task step env a i w = Inr (True, w')" "same_heads (bw_con a w) (bw_con a w')"
        "coding_at (beSend env) e z xs out0 k arr' (bw_con a w') (bwSocks w' a)"
        "length (conPrepTasks (bw_con a w')) = (if i < length (conPrepTasks (bw_con a w))
           then length (conPrepTasks (bw_con a w)) - 1 else length (conPrepTasks (bw_con a w)))"
      using run_task_spec [OF Cons.prems(1) assms(2)] unfolding Let_def by blast
    then show ?thesis
      using Cons.IH [OF r(3)] Cons.prems(2,3) RunTask call_bodies_cong [OF r(2)] r(1,4) by simp
  next
    case Ready
    obtain c' s' where r: "send_data_list (beSend env) (bw_con a w) (bwSocks w a) = Inr (0, c', s')"
        "coding_at (beSend env) e z xs out0 k arr c' s'" "same_heads (bw_con a w) c'" "conPrepTasks c' = conPrepTasks (bw_con a w)"
      using coding_ready [OF Cons.prems(1)] by blast
    let ?w = "bw_set_con a c' s' w"
    have ready: "senWaitWriting (beSend env)" using Cons.prems(1) by (simp add: coding_at_def coding_line_def sender_ready_def)
    show ?thesis
      using Cons.IH [of k arr ?w] r Cons.prems(2,3) Ready call_bodies_cong [OF r(3)] ready by (simp add: socket_ready_def)
  qed
qed

text \<open>What is on the wire, while tasks wait and when none does.\<close>

lemma posted_packet_left:
  assumes "posted_packet e z xs b" and "bufSeq b = word_of_nat (Suc i)" and "i < length xs" and "length xs < 2 ^ 64 - 1"
  shows "buffer_left b = wire (code_packet e z (xs ! i))"
proof -
  obtain j where j: "j < length xs" "bufSeq b = word_of_nat (Suc j)" "buffer_left b = wire (code_packet e z (xs ! j))"
    using assms(1) by (auto simp: posted_packet_def)
  have "i = j" by (rule number_inj) (use assms(2-4) j(1,2) in auto)
  then show ?thesis using j(3) by simp
qed

lemma coding_prefix:
  assumes "coding_at env e z xs out0 (length xs) arr c s"
  shows "\<exists>rest. sckOut s @ rest = out0 @ stream_of (map (code_packet e z) xs)"
proof -
  have at: "sending arr out0 (mset (map (bufAddr \<circ> snd) (conPrepTasks c))) c s" "ordered bufSeq arr" "length xs < 2 ^ 64 - 1"
      "mset (map bufSeq arr) + mset (map (bufSeq \<circ> snd) (conPrepTasks c)) = numbers (length xs)" "\<forall>b\<in>set arr. posted_packet e z xs b"
    using assms by (simp_all add: coding_at_def)
  define new where "new i = (let x = wire (code_packet e z (xs ! i))
    in \<lparr>bufAddr = 0, bufSeq = word_of_nat (Suc i), bufData = x, bufCur = 0, bufLen = length x\<rparr> :: buffer_obj)" for i
  define buf where "buf i = (case find (\<lambda>b. bufSeq b = word_of_nat (Suc i)) arr of Some b \<Rightarrow> b | None \<Rightarrow> new i)" for i
  let ?bs = "map buf [0..<length xs]"
  have seq: "bufSeq (buf i) = word_of_nat (Suc i)" for i
    by (auto simp: buf_def new_def Let_def find_Some_iff split: option.splits simp del: of_nat_Suc)
  have left: "buffer_left (buf i) = wire (code_packet e z (xs ! i))" if i: "i < length xs" for i
  proof (cases "find (\<lambda>b. bufSeq b = word_of_nat (Suc i)) arr")
    case None
    then show ?thesis by (simp add: buf_def new_def Let_def buffer_left_def)
  next
    case (Some b)
    then have "b \<in> set arr" by (auto simp: find_Some_iff)
    then show ?thesis using posted_packet_left [OF _ _ i at(3)] at(5) seq [of i] Some by (simp add: buf_def)
  qed
  have "b \<in> set ?bs" if b: "b \<in> set arr" for b
  proof -
    obtain i where i: "i < length xs" "bufSeq b = word_of_nat (Suc i)" using at(5) b by (auto simp: posted_packet_def)
    have "find (\<lambda>b. bufSeq b = word_of_nat (Suc i)) arr \<noteq> None" using b i(2) by (auto simp: find_None_iff simp del: of_nat_Suc)
    then obtain b' where b': "find (\<lambda>b. bufSeq b = word_of_nat (Suc i)) arr = Some b'" by blast
    then have "b' \<in> set arr" "bufSeq b' = bufSeq b" using i(2) by (auto simp: find_Some_iff)
    moreover have "inj_on bufSeq (set arr)"
      using at(2) by (auto simp: ordered_def sorted_wrt_map [symmetric] strict_sorted_iff distinct_map simp del: sorted_wrt_map)
    ultimately have "buf i = b" using b b' by (auto simp: buf_def dest: inj_onD)
    then show ?thesis using i(1) by auto
  qed
  then have sub: "set arr \<subseteq> set ?bs" by blast
  have num: "numbered ?bs" using at(3) seq by (simp add: numbered_def)
  have len: "length arr \<le> length ?bs" using arg_cong [OF at(4), of size] by simp
  have wf: "\<forall>b\<in>set arr. buffer_wf b" using at(5) by (simp add: posted_packet_def)
  have "map buffer_left ?bs = map wire (map (code_packet e z) xs)" by (rule nth_equalityI) (simp_all add: left)
  then have "left_bytes ?bs = stream_of (map (code_packet e z) xs)" unfolding left_bytes_def stream_of_def by simp
  then show ?thesis using sending_prefix [OF at(1) num sub len wf] by simp
qed

lemma coding_done:
  assumes "coding_at env e z xs out0 (length xs) arr c s" and "conPrepTasks c = []"
  shows "numbered arr" "left_bytes arr = stream_of (map (code_packet e z) xs)" "\<forall>b\<in>set arr. buffer_wf b \<and> 0 < bufLen b"
    "sending arr out0 {#} c s" "sender_ready env c"
proof -
  have at: "ordered bufSeq arr" "length xs < 2 ^ 64 - 1" "mset (map bufSeq arr) = numbers (length xs)"
      "\<forall>b\<in>set arr. posted_packet e z xs b"
    using assms by (simp_all add: coding_at_def)
  have len: "length arr = length xs" using arg_cong [OF at(3), of size] by simp
  let ?ns = "map (\<lambda>i. word_of_nat (Suc i) :: u64) [0..<length xs]"
  have "sorted_wrt (<) ?ns"
    using at(2) by (simp add: sorted_wrt_iff_nth_less word_of_nat_less_64 del: of_nat_Suc)
  then have "sorted ?ns" by (simp add: strict_sorted_iff del: of_nat_Suc)
  moreover have "sorted (map bufSeq arr)"
    using at(1) by (simp add: ordered_def sorted_wrt_map [symmetric] strict_sorted_iff del: sorted_wrt_map)
  ultimately have seqs: "map bufSeq arr = ?ns"
    using at(3) unfolding numbers_def by (metis properties_for_sort)
  then show "numbered arr" using at(2) len by (simp add: numbered_def)
  have "buffer_left (arr ! i) = wire (code_packet e z (xs ! i))" if i: "i < length xs" for i
  proof (rule posted_packet_left [OF _ _ i at(2)])
    show "posted_packet e z xs (arr ! i)" using at(4) i len by simp
    show "bufSeq (arr ! i) = word_of_nat (Suc i)" using arg_cong [OF seqs, of "\<lambda>ns. ns ! i"] i len by simp
  qed
  then have "map buffer_left arr = map wire (map (code_packet e z) xs)" using len by (intro nth_equalityI) simp_all
  then show "left_bytes arr = stream_of (map (code_packet e z) xs)" unfolding left_bytes_def stream_of_def by simp
  show "\<forall>b\<in>set arr. buffer_wf b \<and> 0 < bufLen b" using at(4) by (auto simp: posted_packet_def)
  show "sending arr out0 {#} c s" "sender_ready env c" using assms by (simp_all add: coding_at_def coding_line_def)
qed

section \<open>A packet whose task fails\<close>

text \<open>
  Its number has been taken by the call; nothing is posted under it, and no packet behind it leaves any more, whatever is
  posted later.
\<close>

lemma unprepared_not_posted:
  assumes "bufAddr b \<in> set (conLive c)"
    and "\<not> (senThreadCache env (uint (prepare_cache_len (word_of_nat (bufLen b) - word_of_nat sizeof_header))) \<or>
      senAlloc env (unat (prepare_cache_len (word_of_nat (bufLen b) - word_of_nat sizeof_header))) \<noteq> None)"
  shows "prepare_and_send_packet env b c s = Inr (False, c\<lparr>conLive := remove1 (bufAddr b) (conLive c)\<rparr>, s)"
  using assms by (auto simp: prepare_and_send_packet_def Let_def free_message_def)

lemma lost_number_stalls:
  assumes "sending arr out0 F c s" and "\<forall>b\<in>set arr. buffer_wf b" and "word_of_nat (Suc i) \<notin> bufSeq ` set arr"
  shows "\<exists>rest. sckOut s @ rest = out0 @ left_bytes (take i arr)"
proof -
  obtain j u where i: "moved 0 arr j u" "sckOut s = out0 @ moved_bytes arr j u"
    using assms(1) by (auto simp: sending_def)
  have "length (contig 0 arr) \<le> i"
  proof (rule ccontr)
    assume "\<not> length (contig 0 arr) \<le> i"
    then have n: "i < length (contig 0 arr)" by simp
    then have "i < length arr" using length_contig_le [of 0 arr] by linarith
    then have "bufSeq (arr ! i) \<in> bufSeq ` set arr" by simp
    then show False using contig_nth [OF n] assms(3) by simp
  qed
  then have "left_bytes (take i arr) = left_bytes (contig 0 arr) @ left_bytes (take (i - length (contig 0 arr)) (drop (length (contig 0 arr)) arr))"
    by (metis append_take_drop_id contig_take left_bytes_simps(3) le_add_diff_inverse take_add)
  then show ?thesis
    using contig_moved_bytes [OF i(1) assms(2)] i(2) by (metis append.assoc)
qed

section \<open>Encoded by tasks, packets arrive in the order of the calls\<close>

definition fresh_coding_line :: "send_env \<Rightarrow> byte \<Rightarrow> byte \<Rightarrow> connection \<Rightarrow> bool" where
  "fresh_coding_line env e z c \<longleftrightarrow> coding_line env e z c \<and> conSendBuf c = [] \<and> conSendBufEnd c = None \<and>
     conLastSentSeq c = 0 \<and> conCurSendSeq c = 1 \<and> conPrepTasks c = []"

lemma fresh_coding_at:
  assumes "fresh_coding_line env e z c" and "\<forall>r\<in>set (sckScript s). gentle r" and "length xs < 2 ^ 64 - 1"
  shows "coding_at env e z xs (sckOut s) 0 [] c s"
proof -
  have "sending [] (sckOut s) {#} c s"
    using assms(1,2) by (intro sendingI [of _ 0 0]) (simp_all add: fresh_coding_line_def moved_def moved_bytes_def)
  then show ?thesis using assms(1,3) by (simp add: coding_at_def fresh_coding_line_def numbers_def ordered_def)
qed

text \<open>
  C34: encrypted and compressed packets whose encoding is left to the pool of tasks.  Whatever the calls of \<open>SendPacket\<close>,
  whichever of the waiting tasks the pool takes, and whenever, and however the socket blocks in between, no step fails and
  the bytes on the wire are at every moment a prefix of the encoded packets in the order of the calls.  When every task has
  run and the socket takes what is left they are all of them, and the other connection, getting them in any pieces and order,
  decodes them into the bodies of the calls, in their order.
\<close>

theorem encoded_packets_arrive_in_order:
  assumes "codec_good cr p q e z" and "senPrepare (beSend env) = codec_prepare cr p" and "envParse renv = codec_parse cr q"
    and "fresh_coding_line (beSend env) e z (bw_con a w)" and "\<forall>r\<in>set (sckScript (bwSocks w a)). gentle r"
    and "sckOut (bwSocks w a) = []" and "\<forall>x\<in>set (line_calls ops). call_ok (beSend env) x"
    and "call_bodies (bw_con a w) (line_calls ops) = map fst xs" and "length xs < 2 ^ 64 - 1"
    and "\<forall>x\<in>set xs. prepares (beSend env) e z x \<and> can_parse renv (length (fst x)) (length (snd x))"
    and "fresh_receiver rc"
  shows "\<exists>w' rest. line_run step env a ops w = Inr (True, w') \<and>
    sckOut (bwSocks w' a) @ rest = stream_of (map (code_packet e z) xs) \<and>
    (tasks_left 0 ops = 0 \<longrightarrow>
      (\<exists>c2 s2. send_data_list (beSend env) (bw_con a w') ((bwSocks w' a)\<lparr>sckScript := []\<rparr>) = Inr (0, c2, s2) \<and>
        conSendBuf c2 = [] \<and> sckOut s2 = stream_of (map (code_packet e z) xs) \<and>
        (\<forall>bs calls. numbered bs \<and> (\<forall>b\<in>set bs. buffer_wf b \<and> 0 < bufLen b) \<and> left_bytes bs = sckOut s2 \<and>
           mset (map snd calls) = mset bs \<longrightarrow>
           (\<exists>rc' mess. recv_calls renv calls rc = Some (Inr (0, rc')) \<and> conDelivered rc' = conDelivered rc @ mess \<and>
              map mes_payload mess = call_bodies (bw_con a w) (line_calls ops)))))"
proof -
  let ?ps = "map (code_packet e z) xs"
  have start: "coding_at (beSend env) e z xs [] 0 [] (bw_con a w) (bwSocks w a)" "conPrepTasks (bw_con a w) = []"
    using fresh_coding_at [OF assms(4,5,9)] assms(4,6) by (simp_all add: fresh_coding_line_def)
  have "\<forall>x\<in>set xs. prepares (beSend env) e z x" "call_bodies (bw_con a w) (line_calls ops) = map fst (drop 0 xs)"
    using assms(8,10) by simp_all
  from line_run_spec [OF start(1) this(1) assms(7) this(2), of step] obtain w' arr where
    r: "line_run step env a ops w = Inr (True, w')" "coding_at (beSend env) e z xs [] (length xs) arr (bw_con a w') (bwSocks w' a)"
      "length (conPrepTasks (bw_con a w')) = tasks_left 0 ops"
    using start(2) by auto
  have ok: "packet_ok renv (code_packet e z x) \<and> decode renv (code_packet e z x) = Some (fst x)" if x: "x \<in> set xs" for x
  proof -
    obtain body out where b: "x = (body, out)" by fastforce
    have "body \<noteq> []" "length body \<le> CX_MAX_CHACHE_SIZE" "can_parse renv (length body) (length out)"
        "codec_prepare cr p e z body (cache_size (length body)) (cache_size (length body)) = Some out"
      using assms(2,10) x b by (auto simp: prepares_def Let_def)
    then show ?thesis using parser.coded_packet_decodes [OF assms(1) _ _ _ assms(3)] b by (simp add: code_packet_def)
  qed
  then have oks: "\<forall>x\<in>set ?ps. packet_ok renv x" "map (decode renv) ?ps = map Some (map fst xs)" by (auto simp: comp_def)
  have got: "\<exists>rc' mess. recv_calls renv calls rc = Some (Inr (0, rc')) \<and> conDelivered rc' = conDelivered rc @ mess \<and>
      map mes_payload mess = call_bodies (bw_con a w) (line_calls ops)"
    if bs: "numbered bs" "\<forall>b\<in>set bs. buffer_wf b \<and> 0 < bufLen b" "left_bytes bs = stream_of ?ps" "mset (map snd calls) = mset bs"
    for bs calls
  proof -
    obtain rc' mess where m: "recv_calls renv calls rc = Some (Inr (0, rc'))" "conDelivered rc' = conDelivered rc @ mess"
        "map (\<lambda>m. Some (mes_payload m)) mess = map (decode renv) ?ps"
      using recv_all_arrivals [OF assms(11) bs(1,2) oks(1) bs(3,4)] by (auto simp: received_def)
    then have "map Some (map mes_payload mess) = map Some (map fst xs)" using oks(2) by (simp add: comp_def)
    then have "map mes_payload mess = map fst xs" by (metis inj_map_eq_map inj_Some)
    then show ?thesis using m(1,2) assms(8) by auto
  qed
  have "\<exists>c2 s2. send_data_list (beSend env) (bw_con a w') ((bwSocks w' a)\<lparr>sckScript := []\<rparr>) = Inr (0, c2, s2) \<and>
      conSendBuf c2 = [] \<and> sckOut s2 = stream_of ?ps" if "tasks_left 0 ops = 0"
  proof -
    have "conPrepTasks (bw_con a w') = []" using r(3) that by simp
    note fin = coding_done [OF r(2) this]
    have "sending arr [] {#} (bw_con a w') ((bwSocks w' a)\<lparr>sckScript := []\<rparr>)" using fin(4) by (simp add: sending_def)
    from sending_flush [OF this fin(5,1,3)] show ?thesis using fin(2) by auto
  qed
  then show ?thesis using r(1) coding_prefix [OF r(2)] got by (metis append_Nil)
qed

section \<open>Witness\<close>

definition task_env :: back_env where
  "task_env = \<lparr>beNow = 5, beAccept = \<lparr>aeAttach = True, aeNow = 5, aeSecs = 5, aeRand = (\<lambda>_. 0), aeGuid = ''guid'', aeQueue = 0\<rparr>,
     beRpc = demo_rpc_env, beSend = coding_env\<lparr>senPrepTask := True\<rparr>, beTask = True\<rparr>"

definition task_connection :: connection where
  "task_connection = demo_sender\<lparr>conEncrypt := CXENCRYPT_TYPE_BLOWFISH, conCompress := CXCOMPRESS_TYPE_ZLIB,
     conServer := True, conParser := True, conTaskPool := True, conAsyncPrepare := True\<rparr>"

definition task_world :: "unit back_world" where
  "task_world = bw_on_con 1 (\<lambda>_. task_connection)
     \<lparr>bwServer = server_new False, bwSocks = (\<lambda>_. demo_sock), bwClients = (\<lambda>_. inner_client_new), bwTasks = []\<rparr>"

text \<open>Two calls; the task of the second one runs first.\<close>

definition task_ops :: "line_op list" where
  "task_ops = [Call [1, 2, 3] 16 None, Call [4] 17 None, RunTask 1, Ready, RunTask 0]"

definition task_packets :: "(byte list \<times> byte list) list" where
  "task_packets = map (\<lambda>b. (b, (2 # b) @ [1, 1, 1, 1, 1, 1, 1, 1])) (call_bodies task_connection (line_calls task_ops))"

lemma task_prepared:
  "length b \<le> 240 \<Longrightarrow> codec_prepare demo_crypto demo_parser CXENCRYPT_TYPE_BLOWFISH CXCOMPRESS_TYPE_ZLIB b 256 256 =
     Some ((2 # b) @ [1, 1, 1, 1, 1, 1, 1, 1])"
  by (simp add: codec_prepare_def codec_result_def prepare_data_def compress_step_def encrypt_step_def codec_types first_step_def
      last_step_def succeeded_def deflate_def blowfish_encrypt_def blowfish_def array_sink_def read_front_def memcpy_def
      demo_crypto_def demo_parser_def data_parser_new_def)

lemma task_connection_fields:
  "conObjectID task_connection = replicate 16 0" "conRequestID task_connection = replicate 16 0"
  "conState task_connection = ESTABLISHED" "conSendBuf task_connection = []" "conSendBufEnd task_connection = None"
  "conLastSentSeq task_connection = 0" "conCurSendSeq task_connection = 1" "conPrepTasks task_connection = []"
  by (simp_all add: task_connection_def demo_sender_def on_created_def demo_connection_def serve_connection_def
      build_connection_def reset_connection_def new_connection_def Let_def)

lemma task_lengths: "\<forall>b\<in>set (call_bodies task_connection (line_calls task_ops)). length b = 43 \<or> length b = 41"
  by (simp add: task_ops_def packet_body_head_def task_connection_fields)

lemma task_send_env:
  "senAlloc (beSend task_env) = (\<lambda>n. if n \<le> 8192 then Some 8192 else None)" "senThreadCache (beSend task_env) = (\<lambda>n. True)"
  "senPrepare (beSend task_env) = codec_prepare demo_crypto demo_parser" "senPrepTask (beSend task_env)"
  "senKernel (beSend task_env)" "senWaitWriting (beSend task_env)"
  by (simp_all add: task_env_def coding_env_def demo_send_env_def)

lemma task_prepares:
  assumes "x \<in> set task_packets"
  shows "prepares (beSend task_env) CXENCRYPT_TYPE_BLOWFISH CXCOMPRESS_TYPE_ZLIB x \<and> can_parse parsing_env (length (fst x)) (length (snd x))"
proof -
  obtain b where b: "x = (b, (2 # b) @ [1, 1, 1, 1, 1, 1, 1, 1])" "length b = 43 \<or> length b = 41"
    using assms task_lengths by (auto simp: task_packets_def)
  then have n: "length b \<le> CX_MAX_CHACHE_SIZE" "cache_size (length b) = 256" "length b \<le> 240"
      "unat (prepare_buffer_len (word_of_nat (length b))) = 512" "unat (parse_output_len (word_of_nat (length b))) = 512"
    using prepare_buffer_eq [of "length b"] parse_sizes(2) [of "length b"] cache_size_eq [of "length b"]
    by (auto simp: CX_MAX_CHACHE_SIZE_def)
  have "prepares (beSend task_env) CXENCRYPT_TYPE_BLOWFISH CXCOMPRESS_TYPE_ZLIB x"
    unfolding b(1) prepares_def prod.case Let_def n(2,4) using b(2) task_prepared [OF n(3)]
    by (auto simp: task_send_env sizes CX_MAX_CHACHE_SIZE_def)
  moreover have "can_parse parsing_env (length b) (length ((2 # b) @ [1, 1, 1, 1, 1, 1, 1, 1 :: byte]))"
    unfolding can_parse_def n(2,5) using b(2) by (auto simp: parsing_env_def demo_env_def alloc_ok_def CX_MAX_CHACHE_SIZE_def sizes)
  ultimately show ?thesis using b(1) by simp
qed

theorem encoded_packets_arrive_in_order_witness:
  "\<exists>w' c2 s2. line_run (\<lambda>_ _ _ _ _ w. Inr (0, w)) task_env 1 task_ops task_world = Inr (True, w') \<and>
    send_data_list (beSend task_env) (bw_con 1 w') ((bwSocks w' 1)\<lparr>sckScript := []\<rparr>) = Inr (0, c2, s2) \<and> conSendBuf c2 = [] \<and>
    sckOut s2 = stream_of (map (code_packet CXENCRYPT_TYPE_BLOWFISH CXCOMPRESS_TYPE_ZLIB) task_packets)"
proof -
  have c: "bw_con 1 task_world = task_connection" "bwSocks task_world 1 = demo_sock" by (simp_all add: task_world_def)
  have good: "codec_good demo_crypto demo_parser demo_parser CXENCRYPT_TYPE_BLOWFISH CXCOMPRESS_TYPE_ZLIB"
    using demo_crypto_ok demo_same_keys by (simp add: codec_good_def codec_types supported_compression_def)
  have "fresh_coding_line (beSend task_env) CXENCRYPT_TYPE_BLOWFISH CXCOMPRESS_TYPE_ZLIB task_connection"
    by (simp add: fresh_coding_line_def coding_line_def sender_ready_def task_connection_fields task_send_env CX_GUID_LEN_def)
      (simp add: task_connection_def codec_types)
  moreover have "\<forall>r\<in>set (sckScript demo_sock). gentle r" "sckOut demo_sock = []" by (simp_all add: demo_sock_def)
  moreover have "\<forall>x\<in>set (line_calls task_ops). call_ok (beSend task_env) x"
    by (simp add: task_ops_def call_ok_def send_alloc_ok_def task_send_env sizes CX_MAX_CHACHE_SIZE_def buffer_head_def)
  moreover have "call_bodies task_connection (line_calls task_ops) = map fst task_packets" "length task_packets < 2 ^ 64 - 1"
    by (simp_all add: task_packets_def comp_def task_ops_def)
  moreover have "tasks_left 0 task_ops = 0" by (simp add: task_ops_def)
  moreover have "envParse parsing_env = codec_parse demo_crypto demo_parser" by (simp add: parsing_env_def)
  ultimately show ?thesis
    using encoded_packets_arrive_in_order [OF good task_send_env(3), of parsing_env 1 task_world task_ops task_packets demo_connection]
      task_prepares demo_fresh c by fastforce
qed

end
