(* ===== verification/Spec2Isabelle.thy ===== *)
theory Spec2Isabelle
  imports Delivery Receive_Faults Memory_Cache Cache_Manager End_To_End Guid Login Messages Server_Pools Server_Messages Queue Coded_Packets
  IO_Stat Remote_Login Task_Pool_Correct Connect_Task Proxied_File Message_Tasks
begin

text \<open>
  KonsanNet is a framework for communication over TCP: a server that takes connections, puts packets together from
  what the sockets give, hands messages to objects for remote calls and sends their answers; a client library with
  sessions of several channels; and a server of files built on both.  This library models its own code as HOL
  functions and states what makes it correct, and where it is not.  All paths are under src/.

  \<^bold>\<open>How a packet goes through the program.\<close>  The kernel thread reads the socket into numbered buffers
  (CXSocketServerKernel.cpp, \<open>RecvData\<close>); several threads give them to \<open>CXConnectionObject::RecvPacket\<close>, in any
  order; \<open>RecvPacket\<close> sorts them, cuts the stream into packets, has the bodies decoded (CXDataParser) and gives the
  messages to the queue of a dispatcher (CXMessageQueue.cpp, CXContainer); threads take them from there, again in any
  order, and \<open>ProcessUnpackedMessage\<close> sorts them a second time and calls the object that processes them, found in
  the session of the connection (CXSessionsManager.cpp, CXRPCObjectManager.cpp).  Answers go through \<open>SendPacket\<close>,
  possibly a thread that encodes them (CXTask), and a third sorted list, from which they are written to the socket.
  Connection objects, messages, sessions and objects come from pools (CXConnectionsManager.cpp, CXMemoryCache) and go
  back to them when a connection is closed.

  \<^bold>\<open>Theories and code.\<close>
  \<^item> \<open>Prelude\<close>: machine integers (\<open>u8\<close> to \<open>u64\<close> are words, so that they wrap around), little-endian fields, the
    faults of C++ (\<open>fault\<close>: a null pointer read, memory written outside, freed twice, a division by zero) as the left
    side of a sum, and the collections \<open>layout\<close> and \<open>seqlist\<close>.
  \<^item> \<open>Contracts\<close>: the interfaces as locales.  \<open>allocator\<close> is what a user of a pool relies on, interpreted by
    \<open>Memory_Cache\<close>, \<open>RPC_Objects\<close> and \<open>Sessions\<close>; \<open>fifo\<close> is a queue, interpreted by \<open>Queue\<close>.  \<open>Seq_List\<close> holds
    \<open>sequence_list\<close>, the contract of the ordered insertion that \<open>CXConnectionObject\<close> has three times, and
    \<open>Coded_Packets\<close> holds \<open>codec\<close>, what a connection needs of a data parser, interpreted by \<open>Data_Parser_Correct\<close>'s
    functions.
  \<^item> \<open>Packet\<close> (CXCommon/include): the frame of packets, with their encoding as bytes.
  \<^item> \<open>Connection\<close>, \<open>Receive\<close>, \<open>Send\<close> (CXCommunicationServer/src/CXConnectionObject.cpp): the record \<open>connection\<close> is the
    object with its lists and counters; one function per method.  \<open>Receive_Correct\<close>, \<open>Receive_Stream\<close>, \<open>Receive_Order\<close>
    and \<open>Delivery\<close> show that packets are delivered once, in order and promptly; \<open>Receive_Faults\<close> what becomes of bad
    ones; \<open>Send_Correct\<close> that bytes leave in order; \<open>End_To_End\<close> composes both.
  \<^item> \<open>Memory_Cache\<close>, \<open>Cache_Manager\<close> (CXMemoryCache/src): blocks with a free list, elastic caches, size classes.
  \<^item> \<open>Guid\<close> (CXCommon/src/CXGuidObject.cpp), \<open>Queue\<close> (CXContainer/src), \<open>IO_Stat\<close> (CXIOStat.cpp): identifiers and
    their texts, the linked lists and queues, the statistics with their reference.
  \<^item> \<open>Data_Parser\<close>, \<open>Data_Parser_Correct\<close>, \<open>Coded_Packets\<close> (CXDataParser/src/CXFastDataParserHandle.cpp): encryption
    and compression, that one undoes the other, and whole packets through both connections.  \<open>Message_Tasks\<close>
    (CXTaskPrepareMessage.cpp, CXTaskParseMessage.cpp) leaves the encoding to tasks that run in any order.
  \<^item> \<open>RPC_Objects\<close>, \<open>Sessions\<close>, \<open>Login\<close>, \<open>Messages\<close> (CXRPCObjectServer.cpp, CXRPCObjectManager.cpp,
    CXConnectionSession.cpp, CXSessionsManager.cpp, CXSessionLevelBase.cpp, the second half of CXConnectionObject.cpp,
    CXMessageProcessLevelBase.cpp): objects with their stacks of steps, sessions, the login, the processing of messages.
  \<^item> \<open>Connections\<close>, \<open>Server\<close>, \<open>Server_Pools\<close>, \<open>Server_Messages\<close> (CXConnectionsManager.cpp, CXCommunicationServer.cpp):
    the pools of connections and the server around them, as a step relation \<open>server_step\<close>, with the invariant by rule
    induction; closing, together with messages that are still processed.
  \<^item> \<open>Thread_Pool\<close>, \<open>Task_Pool\<close>, \<open>Task_Pool_Correct\<close> (CXThread/src, CXEvent/src, CXTask/src): events are counted
    semaphores; the loop of a thread is cut at its waiting and its locks into \<open>worker_step\<close>.
  \<^item> \<open>File64\<close>, \<open>File_Server\<close>, \<open>File_Service\<close> (CXFile/src/CXFile64.cpp,
    CXCommunicationServerTest/src/CXFileRPCServer.cpp): files of POSIX as a map from paths and a table of descriptors,
    the object that serves a file, and its specification \<open>file_step\<close>.
  \<^item> \<open>Tcp_Client\<close>, \<open>Tcp_Client_Buffers\<close>, \<open>Tcp_Client_Correct\<close>, \<open>Client_Channel\<close>, \<open>File_Client\<close>,
    \<open>File_Client_Faults\<close>, \<open>Remote_File\<close>, \<open>Remote_Login\<close> (CXCommunicationClient/src): the client of a connection, its
    channels and its session, the client of files, and client and server of files joined by a network.
  \<^item> \<open>Internal_Client\<close>, \<open>Connect_Task\<close> (CXRPCObjectClientInServer.cpp, CXTaskCreateConnection.cpp), \<open>Storage_Client\<close>,
    \<open>File_Proxy\<close> (CXProxyServerTest/src): objects of the server that ask another server, the task that connects them,
    and the proxy of files, a state machine whose steps are called with the replies.  \<open>Plain_Line\<close> is what sending does
    on a connection that nothing holds up; \<open>Proxy_Service\<close> follows requests and replies through the proxy, and
    \<open>Proxied_File\<close> composes it with the server of files.

  \<^bold>\<open>What is shown.\<close>  C1, C2, C11 to C13, C23, C34, C36 and C38 are about order and completeness: what one side sends
  the other side gets, whatever the kernel and the threads do.  C6, C7, C9, C16, C18, C24, C25 and C39 are the
  invariants of pools and buffers.  C4, C5, C8, C15 and C30 are refinements of abstract specifications: a file, at hand, over a connection and through a
  proxy, a stack of steps per request, a queue; C40 is the equivalence of a report with a specification without loops.  C14, C20, C32 and C33 are about
  identifiers, the login and the codec.  C26 and C29 are the promises that something happens at last.  The others,
  C3, C10, C17, C19, C21, C22, C27, C28, C31, C35 and C37, show what goes wrong, at which inputs and with which effect.

  \<^bold>\<open>How the code is modelled.\<close>  Methods are functions that return the new state of their object, in the branches for
  Linux.  Objects that are shared through pointers are numbers (\<open>addr\<close>) and maps from them.  A method that runs
  under a lock is one step; the interleaving of threads is the order of these steps, which the theorems leave open.
  Errors are the numbers that the code returns; what C++ leaves undefined is a \<open>fault\<close>.  Sockets are scripts:
  lists of the results of the next calls of \<open>send\<close> and \<open>recv\<close>, over which the theorems quantify.  The clock, the
  random numbers, new identifiers and the memory of the system are parameters.

  \<^bold>\<open>Fuel and termination.\<close>  \<open>recv_loop\<close> gets \<open>recv_fuel\<close>, one for each byte and each buffer of the list and one more;
  a turn of the loop consumes a byte or a buffer (\<open>recv_fuel_finish\<close>), and the theorems on whole calls show that a
  result comes.  \<open>process_loop\<close> has one for each waiting message, as each turn takes one out.  The block loops of RSA are
  \<open>partial_function (option)\<close>, as they need not end for a wrong size of blocks; C33 shows that they do for
  the sizes that the keys give.  All other loops are structural or have a measure.

  \<^bold>\<open>What is assumed.\<close>  Crypto++, zlib and snappy are the parameters \<open>crypto\<close>; that decoding undoes encoding is
  the hypothesis \<open>codec_good\<close> and its parts, with an instance in the witnesses.  The network of \<open>Remote_File\<close> loses
  nothing and its server is the handlers of the file object behind packets without codec; that packets get through
  the state machines of both sides is C1, C12, C36 and C38.

  \<^bold>\<open>Not modelled.\<close>  CXLock and the ordering of memory; CXLog; CXSocketWrapper and the options of sockets; the branches
  for Windows with the completion ports; starting and stopping the server and its threads, and the reading of its
  configuration; the times that only go into the log; the test programs that call the library.
\<close>

end
